(* ===== verification/Prelude.thy ===== *)
theory Prelude
  imports Main "HOL-Library.Word"
begin

text \<open>
  Shared vocabulary of the development: Rust's \<open>Result\<close> written as a sum (\<open>Inl\<close> the
  error, \<open>Inr\<close> the value), the \<open>?\<close> operator on it, the machine integer types the
  program uses, and the collections of facts the component theories extend.
\<close>

named_theorems kirk_defs "definitions of operations that proofs unfold"
named_theorems frame_simps "fields an operation leaves unchanged"
named_theorems inv_intros "preservation lemmas of component invariants"

section \<open>Results\<close>

abbreviation Ok :: "'a \<Rightarrow> 'e + 'a" where
  "Ok x \<equiv> Inr x"

abbreviation Err :: "'e \<Rightarrow> 'e + 'a" where
  "Err e \<equiv> Inl e"

text \<open>The \<open>?\<close> operator: an error returns early, a value goes on.\<close>

fun and_then :: "'e + 'a \<Rightarrow> ('a \<Rightarrow> 'e + 'b) \<Rightarrow> 'e + 'b" where
  "and_then (Inl e) f = Inl e"
| "and_then (Inr x) f = f x"

fun is_ok :: "'e + 'a \<Rightarrow> bool" where
  "is_ok (Inl _) = False"
| "is_ok (Inr _) = True"

fun ok_or :: "'e \<Rightarrow> 'a option \<Rightarrow> 'e + 'a" where
  "ok_or e None = Inl e"
| "ok_or e (Some x) = Inr x"

text \<open>A fallible function over a list, up to the first error.\<close>

fun traverse :: "('a \<Rightarrow> 'e + 'b) \<Rightarrow> 'a list \<Rightarrow> 'e + 'b list" where
  "traverse f [] = Ok []"
| "traverse f (x # xs) = and_then (f x) (\<lambda>y. and_then (traverse f xs) (\<lambda>ys. Ok (y # ys)))"

lemma and_then_Ok: "and_then r f = Inr y \<longleftrightarrow> (\<exists>x. r = Inr x \<and> f x = Inr y)"
  by (cases r) auto

lemma and_then_Err: "and_then r f = Inl e \<longleftrightarrow> r = Inl e \<or> (\<exists>x. r = Inr x \<and> f x = Inl e)"
  by (cases r) auto

lemma is_ok_iff: "is_ok r \<longleftrightarrow> (\<exists>x. r = Inr x)"
  by (cases r) auto

lemma not_is_ok_iff: "\<not> is_ok r \<longleftrightarrow> (\<exists>e. r = Inl e)"
  by (cases r) auto

lemma ok_or_Ok [simp]: "ok_or e v = Inr x \<longleftrightarrow> v = Some x"
  by (cases v) auto

section \<open>Machine integers\<close>

type_synonym u8 = "8 word"
type_synonym u32 = "32 word"
type_synonym u64 = "64 word"

text \<open>
  \<open>i32\<close> and \<open>i64\<close> values are only passed through, compared and converted, never added, so
  they are \<open>int\<close> with their range written out where a conversion checks it.
\<close>

definition in_i32 :: "int \<Rightarrow> bool" where
  "in_i32 n \<longleftrightarrow> - (2 ^ 31) \<le> n \<and> n < 2 ^ 31"

definition in_i64 :: "int \<Rightarrow> bool" where
  "in_i64 n \<longleftrightarrow> - (2 ^ 63) \<le> n \<and> n < 2 ^ 63"

definition in_u64 :: "int \<Rightarrow> bool" where
  "in_u64 n \<longleftrightarrow> 0 \<le> n \<and> n < 2 ^ 64"

section \<open>Lists\<close>

text \<open>The iterator \<open>find\<close> of a list, and a fold that stops at the first error.\<close>

fun try_fold :: "('s \<Rightarrow> 'a \<Rightarrow> ('e + unit) \<times> 's) \<Rightarrow> 'a list \<Rightarrow> 's \<Rightarrow> ('e + unit) \<times> 's" where
  "try_fold f [] s = (Inr (), s)"
| "try_fold f (x # xs) s =
     (case f s x of
        (Inl e, s') \<Rightarrow> (Inl e, s')
      | (Inr _, s') \<Rightarrow> try_fold f xs s')"

text \<open>An invariant every step keeps holds after the whole fold.\<close>

lemma try_fold_invariant:
  assumes "P s" and "\<And>s x. P s \<Longrightarrow> x \<in> set xs \<Longrightarrow> P (snd (f s x))"
  shows "P (snd (try_fold f xs s))"
  using assms
proof (induction xs arbitrary: s)
  case Nil
  then show ?case by simp
next
  case (Cons x xs)
  from Cons.prems(1) Cons.prems(2) [of s x] have P1: "P (snd (f s x))" by simp
  show ?case
  proof (cases "f s x")
    case (Pair r s')
    show ?thesis
      using Cons.IH [of s'] Cons.prems(2) P1 Pair by (cases r) auto
  qed
qed

lemma try_fold_append:
  "try_fold f (xs @ ys) s =
     (case try_fold f xs s of (Inl e, s') \<Rightarrow> (Inl e, s') | (Inr _, s') \<Rightarrow> try_fold f ys s')"
  by (induction xs arbitrary: s) (auto split: prod.splits sum.splits)

lemma set_take_filter: "set (filter P (take n xs)) \<subseteq> set xs"
  by (auto dest: in_set_takeD)

lemma foldr_max_less: "(\<forall>x\<in>set xs. x < b) \<Longrightarrow> a < b \<Longrightarrow> foldr max xs a < (b :: nat)"
  by (induction xs) auto

lemma foldr_max_ge: "x \<in> set xs \<Longrightarrow> x \<le> foldr max xs (a :: nat)"
  by (induction xs) (auto simp: le_max_iff_disj)

lemma length_filter_lt: "x \<in> set xs \<Longrightarrow> \<not> P x \<Longrightarrow> length (filter P xs) < length xs"
  by (induction xs) (auto simp: le_imp_less_Suc)

end
