(* ===== verification/Rust_Str.thy ===== *)
theory Rust_Str
  imports Prelude "HOL-Library.Sublist"
begin

text \<open>
  The part of Rust's string library the program uses. A Rust \<open>str\<close> is its UTF-8 bytes,
  written as a \<open>string\<close> whose characters are bytes, so \<open>len\<close> is \<open>length\<close> and byte offsets
  are list positions. Whitespace is Unicode \<open>White_Space\<close>: its code points are recognised by
  their UTF-8 encodings (one, two or three bytes).
\<close>

section \<open>Bytes and character boundaries\<close>

abbreviation code :: "char \<Rightarrow> nat" where
  "code c \<equiv> of_char c"

definition is_cont_byte :: "char \<Rightarrow> bool" where
  "is_cont_byte c \<longleftrightarrow> 128 \<le> code c \<and> code c < 192"

text \<open>\<open>str::is_char_boundary\<close> and \<open>str::floor_char_boundary\<close>.\<close>

definition is_char_boundary :: "string \<Rightarrow> nat \<Rightarrow> bool" where
  "is_char_boundary s i \<longleftrightarrow>
     i = 0 \<or> i = length s \<or> (i < length s \<and> \<not> is_cont_byte (s ! i))"

fun floor_boundary_from :: "string \<Rightarrow> nat \<Rightarrow> nat" where
  "floor_boundary_from s 0 = 0"
| "floor_boundary_from s (Suc i) =
     (if is_char_boundary s (Suc i) then Suc i else floor_boundary_from s i)"

definition floor_char_boundary :: "string \<Rightarrow> nat \<Rightarrow> nat" where
  "floor_char_boundary s i =
     (if length s \<le> i then length s else floor_boundary_from s i)"

lemma floor_boundary_from_le: "floor_boundary_from s i \<le> i"
  by (induction s i rule: floor_boundary_from.induct) auto

lemma floor_boundary_from_boundary: "is_char_boundary s (floor_boundary_from s i)"
  by (induction s i rule: floor_boundary_from.induct) (auto simp: is_char_boundary_def)

lemma floor_char_boundary_le: "floor_char_boundary s i \<le> i \<and> floor_char_boundary s i \<le> length s"
  using floor_boundary_from_le [of s i] by (auto simp: floor_char_boundary_def)

lemma floor_char_boundary_boundary: "is_char_boundary s (floor_char_boundary s i)"
  using floor_boundary_from_boundary [of s i]
  by (auto simp: floor_char_boundary_def is_char_boundary_def)

section \<open>Whitespace and trimming\<close>

text \<open>Length in bytes of the whitespace character a string starts with, 0 when there is none.\<close>

definition ws3 :: "nat \<Rightarrow> nat \<Rightarrow> nat \<Rightarrow> bool" where
  "ws3 a b c \<longleftrightarrow>
     (a = 0xE1 \<and> b = 0x9A \<and> c = 0x80) \<or>
     (a = 0xE2 \<and> b = 0x80 \<and> (0x80 \<le> c \<and> c \<le> 0x8A \<or> c = 0xA8 \<or> c = 0xA9 \<or> c = 0xAF)) \<or>
     (a = 0xE2 \<and> b = 0x81 \<and> c = 0x9F) \<or>
     (a = 0xE3 \<and> b = 0x80 \<and> c = 0x80)"

definition ws1 :: "nat \<Rightarrow> bool" where
  "ws1 a \<longleftrightarrow> a = 32 \<or> 9 \<le> a \<and> a \<le> 13"

definition ws2 :: "nat \<Rightarrow> nat \<Rightarrow> bool" where
  "ws2 a b \<longleftrightarrow> a = 0xC2 \<and> (b = 0x85 \<or> b = 0xA0)"

fun ws_prefix :: "string \<Rightarrow> nat" where
  "ws_prefix [] = 0"
| "ws_prefix (a # s) =
     (if ws1 (code a) then 1
      else (case s of
         [] \<Rightarrow> 0
       | b # t \<Rightarrow> (if ws2 (code a) (code b) then 2
                   else (case t of [] \<Rightarrow> 0
                         | c # _ \<Rightarrow> if ws3 (code a) (code b) (code c) then 3 else 0))))"

definition ws_suffix :: "string \<Rightarrow> nat" where
  "ws_suffix s =
     (case rev s of
        [] \<Rightarrow> 0
      | z # r \<Rightarrow>
          (if ws1 (code z) then 1
           else (case r of
              [] \<Rightarrow> 0
            | y # q \<Rightarrow> (if ws2 (code y) (code z) then 2
                        else (case q of [] \<Rightarrow> 0
                              | x # _ \<Rightarrow> if ws3 (code x) (code y) (code z) then 3 else 0)))))"

lemma ws_prefix_le: "ws_prefix s \<le> length s"
  by (cases s) (auto split: list.splits)

lemma ws_suffix_le: "ws_suffix s \<le> length s"
  by (auto simp: ws_suffix_def split: list.splits dest!: arg_cong [where f = length])

function trim_start :: "string \<Rightarrow> string" where
  "trim_start s = (if ws_prefix s = 0 then s else trim_start (drop (ws_prefix s) s))"
  by pat_completeness auto
termination
proof (relation "measure length", simp)
  fix s :: string
  assume "ws_prefix s \<noteq> 0"
  then have "0 < ws_prefix s" by simp
  then show "(drop (ws_prefix s) s, s) \<in> measure length"
    using ws_prefix_le [of s] by (auto simp del: ws_prefix.simps)
qed

function trim_end :: "string \<Rightarrow> string" where
  "trim_end s = (if ws_suffix s = 0 then s else trim_end (take (length s - ws_suffix s) s))"
  by pat_completeness auto
termination
proof (relation "measure length", simp)
  fix s :: string
  assume "ws_suffix s \<noteq> 0"
  then show "(take (length s - ws_suffix s) s, s) \<in> measure length"
    using ws_suffix_le [of s] by auto
qed

declare trim_start.simps [simp del] trim_end.simps [simp del]

definition trim :: "string \<Rightarrow> string" where
  "trim s = trim_end (trim_start s)"

lemma ws_prefix_trim_start: "ws_prefix (trim_start s) = 0"
proof (induction s rule: trim_start.induct)
  case (1 s)
  then show ?case by (subst trim_start.simps) (auto simp del: ws_prefix.simps)
qed

lemma trim_start_id: "ws_prefix s = 0 \<Longrightarrow> trim_start s = s"
  by (subst trim_start.simps) simp

lemma trim_end_id: "ws_suffix s = 0 \<Longrightarrow> trim_end s = s"
  by (subst trim_end.simps) simp

lemma ws_suffix_trim_end: "ws_suffix (trim_end s) = 0"
proof (induction s rule: trim_end.induct)
  case (1 s)
  then show ?case by (subst trim_end.simps) auto
qed

lemma trim_end_prefix: "prefix (trim_end s) s"
proof (induction s rule: trim_end.induct)
  case (1 s)
  then show ?case
    by (subst trim_end.simps) (auto intro: prefix_order.trans take_is_prefix)
qed

lemma trim_start_suffix: "suffix (trim_start s) s"
proof (induction s rule: trim_start.induct)
  case (1 s)
  then show ?case
    by (subst trim_start.simps) (auto simp del: ws_prefix.simps intro: suffix_order.trans suffix_drop)
qed

lemma length_trim_end_le: "length (trim_end s) \<le> length s"
  by (rule prefix_length_le [OF trim_end_prefix])

lemma trim_end_idem: "trim_end (trim_end s) = trim_end s"
  by (rule trim_end_id [OF ws_suffix_trim_end])

text \<open>A string without a byte that can start or end whitespace is untouched.\<close>

lemma trim_Nil [simp]: "trim [] = []" "trim_end [] = []" "trim_start [] = []"
  by (simp_all add: trim_def trim_end_id trim_start_id ws_suffix_def)

section \<open>Searching\<close>

definition starts_with :: "string \<Rightarrow> string \<Rightarrow> bool" where
  "starts_with p s \<longleftrightarrow> take (length p) s = p"

lemma starts_with_prefix: "starts_with p s \<longleftrightarrow> prefix p s"
  by (metis append_eq_conv_conj prefix_def starts_with_def)

text \<open>\<open>str::find\<close>: the byte offset of the first occurrence.\<close>

fun str_find :: "string \<Rightarrow> string \<Rightarrow> nat option" where
  "str_find p [] = (if p = [] then Some 0 else None)"
| "str_find p (c # s) =
     (if starts_with p (c # s) then Some 0 else map_option Suc (str_find p s))"

definition contains :: "string \<Rightarrow> string \<Rightarrow> bool" where
  "contains s p \<longleftrightarrow> str_find p s \<noteq> None"

definition contains_char :: "string \<Rightarrow> char \<Rightarrow> bool" where
  "contains_char s c \<longleftrightarrow> c \<in> set s"

text \<open>\<open>s.matches(p).count()\<close>: non-overlapping occurrences, left to right (\<open>p\<close> not empty).\<close>

function count_matches :: "string \<Rightarrow> string \<Rightarrow> nat" where
  "count_matches p s =
     (if p = [] \<or> s = [] then 0
      else if starts_with p s then Suc (count_matches p (drop (length p) s))
      else count_matches p (tl s))"
  by pat_completeness auto
termination
  by (relation "measure (length \<circ> snd)") (auto simp: neq_Nil_conv)

declare count_matches.simps [simp del]

lemma str_find_Some:
  "str_find p s = Some i \<Longrightarrow> i + length p \<le> length s \<and> take (length p) (drop i s) = p"
proof (induction s arbitrary: i)
  case Nil
  then show ?case by (simp split: if_splits)
next
  case (Cons c s)
  show ?case
  proof (cases "starts_with p (c # s)")
    case True
    then have "prefix p (c # s)" by (simp add: starts_with_prefix)
    then have "length p \<le> length (c # s)" by (rule prefix_length_le)
    with True Cons.prems show ?thesis by (simp add: starts_with_def)
  next
    case False
    with Cons.prems obtain j where "str_find p s = Some j" "i = Suc j" by auto
    with Cons.IH [of j] show ?thesis by simp
  qed
qed

lemma str_find_split:
  "str_find p s = Some i \<Longrightarrow> s = take i s @ p @ drop (i + length p) s"
proof -
  assume "str_find p s = Some i"
  then have "take (length p) (drop i s) = p" using str_find_Some by blast
  then have "drop i s = p @ drop (i + length p) s"
    by (metis add.commute append_take_drop_id drop_drop)
  then show ?thesis by (metis append_take_drop_id)
qed

lemma str_find_None: "str_find p s = None \<Longrightarrow> \<not> sublist p s"
proof (induction s)
  case Nil
  then show ?case by (simp split: if_splits)
next
  case (Cons c s)
  then have "\<not> starts_with p (c # s)" "str_find p s = None" by (auto split: if_splits)
  with Cons.IH show ?case by (auto simp: sublist_Cons_right starts_with_prefix)
qed

lemma str_find_skip:
  "c \<notin> set a \<Longrightarrow> str_find (c # p) (a @ c # p @ b) = Some (length a)"
  by (induction a) (auto simp: starts_with_def)

lemma contains_sublist: "contains s p \<longleftrightarrow> sublist p s"
proof
  assume "contains s p"
  then obtain i where "str_find p s = Some i" by (auto simp: contains_def)
  then show "sublist p s" by (metis str_find_split sublist_appendI)
next
  assume "sublist p s"
  then show "contains s p"
    using str_find_None [of p s] by (cases "str_find p s") (auto simp: contains_def)
qed

lemma count_matches_zero: "p \<noteq> [] \<Longrightarrow> count_matches p s = 0 \<longleftrightarrow> \<not> contains s p"
proof (induction p s rule: count_matches.induct)
  case (1 p s)
  show ?case
  proof (cases s)
    case Nil
    with "1.prems" show ?thesis
      by (simp add: count_matches.simps [of p "[]"] contains_sublist)
  next
    case (Cons c t)
    show ?thesis
    proof (cases "starts_with p s")
      case True
      have "count_matches p s = Suc (count_matches p (drop (length p) s))"
        by (subst count_matches.simps) (use True Cons "1.prems" in simp)
      moreover have "contains s p" using True Cons by (simp add: contains_def)
      ultimately show ?thesis by simp
    next
      case False
      have "count_matches p s = count_matches p t"
        by (subst count_matches.simps) (use False Cons "1.prems" in simp)
      moreover have "contains s p = contains t p" using False Cons by (simp add: contains_def)
      ultimately show ?thesis using "1.IH"(2) False Cons "1.prems" by simp
    qed
  qed
qed

section \<open>Splitting and joining\<close>

text \<open>\<open>str::split(c)\<close>: the pieces between the separators, at least one piece.\<close>

fun split_on :: "char \<Rightarrow> string \<Rightarrow> string list" where
  "split_on c [] = [[]]"
| "split_on c (x # s) =
     (if x = c then [] # split_on c s
      else (case split_on c s of [] \<Rightarrow> [[x]] | p # ps \<Rightarrow> (x # p) # ps))"

fun join :: "string \<Rightarrow> string list \<Rightarrow> string" where
  "join sep [] = []"
| "join sep [x] = x"
| "join sep (x # y # ys) = x @ sep @ join sep (y # ys)"

definition split_once :: "string \<Rightarrow> string \<Rightarrow> (string \<times> string) option" where
  "split_once p s =
     (case str_find p s of
        None \<Rightarrow> None
      | Some i \<Rightarrow> Some (take i s, drop (i + length p) s))"

lemma split_on_nonempty [simp]: "split_on c s \<noteq> []"
  by (induction s) (auto split: list.splits)

lemma join_Cons: "xs \<noteq> [] \<Longrightarrow> join sep (x # xs) = x @ sep @ join sep xs"
  by (cases xs) auto

lemma join_split_on: "join [c] (split_on c s) = s"
proof (induction s)
  case Nil
  then show ?case by simp
next
  case (Cons x s)
  then show ?case
    by (cases "split_on c s"; cases "tl (split_on c s)") (auto simp: join_Cons split: list.splits)
qed

lemma split_on_no_sep: "p \<in> set (split_on c s) \<Longrightarrow> c \<notin> set p"
  by (induction s arbitrary: p) (auto split: list.splits if_splits)

lemma split_on_id: "c \<notin> set p \<Longrightarrow> split_on c p = [p]"
  by (induction p) auto

lemma split_on_append: "c \<notin> set p \<Longrightarrow> split_on c (p @ c # s) = p # split_on c s"
  by (induction p) auto

lemma split_on_join:
  "xs \<noteq> [] \<Longrightarrow> \<forall>x \<in> set xs. c \<notin> set x \<Longrightarrow> split_on c (join [c] xs) = xs"
proof (induction xs)
  case Nil
  then show ?case by simp
next
  case (Cons x xs)
  then show ?case
    by (cases "xs = []") (auto simp: join_Cons split_on_id split_on_append)
qed

lemma split_once_Some:
  "split_once p s = Some (a, b) \<Longrightarrow> s = a @ p @ b"
  by (auto simp: split_once_def split: option.splits dest: str_find_split)

section \<open>Numbers\<close>

definition is_digit :: "char \<Rightarrow> bool" where
  "is_digit c \<longleftrightarrow> 48 \<le> code c \<and> code c \<le> 57"

definition digits_val :: "string \<Rightarrow> nat" where
  "digits_val s = foldl (\<lambda>n c. 10 * n + (code c - 48)) 0 s"

text \<open>
  \<open>str::parse\<close> for an unsigned type with maximum \<open>m\<close>: an optional plus sign, at least one
  digit, nothing else, and no overflow. For a signed type a minus sign is accepted too.
\<close>

definition parse_digits :: "string \<Rightarrow> nat option" where
  "parse_digits s = (if s \<noteq> [] \<and> list_all is_digit s then Some (digits_val s) else None)"

definition parse_unsigned :: "nat \<Rightarrow> string \<Rightarrow> nat option" where
  "parse_unsigned m s =
     (let body = (case s of [] \<Rightarrow> [] | c # r \<Rightarrow> if c = CHR ''+'' then r else s)
      in case parse_digits body of
           None \<Rightarrow> None
         | Some n \<Rightarrow> if n \<le> m then Some n else None)"

definition parse_signed :: "int \<Rightarrow> int \<Rightarrow> string \<Rightarrow> int option" where
  "parse_signed lo hi s =
     (let (neg, body) =
        (case s of [] \<Rightarrow> (False, [])
         | c # r \<Rightarrow> if c = CHR ''+'' then (False, r)
                    else if c = CHR ''-'' then (True, r) else (False, s))
      in case parse_digits body of
           None \<Rightarrow> None
         | Some n \<Rightarrow> (let v = (if neg then - int n else int n)
                     in if lo \<le> v \<and> v \<le> hi then Some v else None))"

abbreviation parse_u32 :: "string \<Rightarrow> nat option" where
  "parse_u32 \<equiv> parse_unsigned (2 ^ 32 - 1)"

abbreviation parse_u64 :: "string \<Rightarrow> nat option" where
  "parse_u64 \<equiv> parse_unsigned (2 ^ 64 - 1)"

abbreviation parse_i64 :: "string \<Rightarrow> int option" where
  "parse_i64 \<equiv> parse_signed (- (2 ^ 63)) (2 ^ 63 - 1)"

text \<open>Decimal rendering, as \<open>Display\<close> prints integers.\<close>

definition digit_char :: "nat \<Rightarrow> char" where
  "digit_char d = char_of (48 + d)"

fun show_nat :: "nat \<Rightarrow> string" where
  "show_nat n = (if n < 10 then [digit_char n] else show_nat (n div 10) @ [digit_char (n mod 10)])"

declare show_nat.simps [simp del]

definition show_int :: "int \<Rightarrow> string" where
  "show_int i = (if i < 0 then ''-'' @ show_nat (nat (- i)) else show_nat (nat i))"

lemma code_digit_char: "d < 10 \<Longrightarrow> code (digit_char d) = 48 + d"
  by (simp add: digit_char_def)

lemma digits_val_snoc: "digits_val (s @ [c]) = 10 * digits_val s + (code c - 48)"
  by (simp add: digits_val_def)

lemma show_nat_digits: "list_all is_digit (show_nat n) \<and> show_nat n \<noteq> []"
proof (induction n rule: show_nat.induct)
  case (1 n)
  show ?case
  proof (cases "n < 10")
    case True
    then show ?thesis
      by (subst (1 2) show_nat.simps) (simp add: is_digit_def code_digit_char)
  next
    case False
    then have "list_all is_digit (show_nat (n div 10))" using 1 by simp
    moreover have "is_digit (digit_char (n mod 10))"
      by (simp add: is_digit_def code_digit_char)
    ultimately show ?thesis using False by (subst (1 2) show_nat.simps) simp
  qed
qed

lemma digits_val_show_nat: "digits_val (show_nat n) = n"
proof (induction n rule: show_nat.induct)
  case (1 n)
  show ?case
  proof (cases "n < 10")
    case True
    then show ?thesis by (subst show_nat.simps) (simp add: digits_val_def code_digit_char)
  next
    case False
    then show ?thesis
      using 1 by (subst show_nat.simps) (simp add: digits_val_snoc code_digit_char)
  qed
qed

lemma parse_digits_show_nat: "parse_digits (show_nat n) = Some n"
  using show_nat_digits [of n] by (simp add: parse_digits_def digits_val_show_nat)

lemma show_nat_not_sign: "show_nat n = c # r \<Longrightarrow> c \<noteq> CHR ''+'' \<and> c \<noteq> CHR ''-''"
  using show_nat_digits [of n] by (auto simp: is_digit_def)

lemma parse_show_unsigned: "n \<le> m \<Longrightarrow> parse_unsigned m (show_nat n) = Some n"
  using parse_digits_show_nat [of n]
  by (auto simp: parse_unsigned_def Let_def split: list.splits dest: show_nat_not_sign)

lemma parse_show_signed:
  assumes "lo \<le> i" and "i \<le> hi"
  shows "parse_signed lo hi (show_int i) = Some i"
proof (cases "i < 0")
  case True
  with assms show ?thesis
    by (simp add: show_int_def parse_signed_def parse_digits_show_nat)
next
  case False
  with assms show ?thesis
    using parse_digits_show_nat [of "nat i"] show_nat_digits [of "nat i"]
    by (auto simp: show_int_def parse_signed_def Let_def split: list.splits
        dest: show_nat_not_sign)
qed

lemma show_nat_inj: "show_nat m = show_nat n \<longleftrightarrow> m = n"
  by (metis digits_val_show_nat)

text \<open>A number printed by a command, with or without its newline, is read back by trimming.\<close>

lemma digit_not_ws_prefix: "is_digit c \<Longrightarrow> ws_prefix (c # s) = 0"
  by (auto simp: is_digit_def ws1_def ws2_def ws3_def split: list.splits)

lemma digit_not_ws_suffix: "is_digit c \<Longrightarrow> ws_suffix (s @ [c]) = 0"
  by (auto simp: ws_suffix_def is_digit_def ws1_def ws2_def ws3_def split: list.splits)

lemma trim_digits:
  assumes "list_all is_digit d" and "d \<noteq> []"
  shows "trim d = d" and "trim (d @ [CHR 0x0A]) = d"
    and "trim_end d = d" and "trim_end (d @ [CHR 0x0A]) = d"
proof -
  obtain c r where d: "d = c # r" using assms(2) by (cases d) auto
  obtain b z where dz: "d = b @ [z]" using assms(2) by (cases d rule: rev_cases) auto
  have c: "is_digit c" using assms(1) d by simp
  have z: "is_digit z" using assms(1) unfolding dz by simp
  have pre: "trim_start (d @ s) = d @ s" for s
    using digit_not_ws_prefix [OF c, of "r @ s"] d by (simp add: trim_start_id del: ws_prefix.simps)
  show end1: "trim_end d = d"
    using digit_not_ws_suffix [OF z, of b] dz by (simp add: trim_end_id)
  have "ws_suffix (d @ [CHR 0x0A]) = 1" by (simp add: ws_suffix_def ws1_def)
  then show end2: "trim_end (d @ [CHR 0x0A]) = d"
    using end1 by (subst trim_end.simps) simp
  show "trim d = d" and "trim (d @ [CHR 0x0A]) = d"
    using pre [of "[]"] pre [of "[CHR 0x0A]"] end1 end2 by (simp_all add: trim_def)
qed

lemmas trim_show_nat = trim_digits [OF conjunct1 [OF show_nat_digits] conjunct2 [OF show_nat_digits]]

text \<open>A string that starts with a printing ASCII character does not trim to nothing.\<close>

lemma ws_suffix_lt:
  assumes "33 \<le> code c" and "code c < 128"
  shows "ws_suffix (c # r) < length (c # r)"
proof -
  consider "r = []" | z where "r = [z]" | y z where "r = [y, z]" | "3 \<le> length r"
    by (cases r; cases "tl r"; cases "tl (tl r)") auto
  then show ?thesis
  proof cases
    case 4
    have "ws_suffix (c # r) \<le> 3" by (auto simp: ws_suffix_def split: list.splits)
    with 4 show ?thesis by simp
  qed (use assms in \<open>auto simp: ws_suffix_def ws1_def ws2_def ws3_def\<close>)
qed

lemma trim_end_graphic:
  "33 \<le> code c \<Longrightarrow> code c < 128 \<Longrightarrow> s = c # r \<Longrightarrow> trim_end s \<noteq> []"
proof (induction s arbitrary: r rule: trim_end.induct)
  case (1 s)
  show ?case
  proof (cases "ws_suffix s = 0")
    case True
    with 1 show ?thesis by (simp add: trim_end_id)
  next
    case False
    let ?t = "take (length s - ws_suffix s) s"
    have "0 < length s - ws_suffix s" using ws_suffix_lt [of c r] 1 by simp
    then have "?t = c # take (length s - ws_suffix s - 1) r"
      using "1.prems"(3) by (simp add: take_Cons')
    with 1 False have "trim_end ?t \<noteq> []" by blast
    then show ?thesis using False by (subst trim_end.simps) simp
  qed
qed

lemma trim_graphic: "33 \<le> code c \<Longrightarrow> code c < 128 \<Longrightarrow> trim (c # r) \<noteq> []"
  using trim_end_graphic [of c "c # r" r]
  by (simp add: trim_def trim_start_id ws1_def ws2_def ws3_def split: list.splits)

text \<open>A string between single quotes, as messages show paths and names.\<close>

definition quoted :: "string \<Rightarrow> string" where
  "quoted s = [CHR 0x27] @ s @ [CHR 0x27]"

end
