(* ===== verification/Rust_F64.thy ===== *)
theory Rust_F64
  imports Prelude Complex_Main
begin

text \<open>
  Rust's \<open>f64\<close> as the program observes it: not a number, an infinity with its sign, or a
  finite value, which is a rational number. The sign of a zero is not kept: no comparison of
  the program tells the two zeros apart. Where the program computes (adds, converts an integer)
  the exact result is rounded by the IEEE rounding \<open>rnd\<close>, a parameter of those operations.
\<close>

datatype f64 = F64_NaN | F64_Inf bool | F64_Fin rat

type_synonym rounding = "rat \<Rightarrow> f64"

abbreviation f64_zero :: f64 where
  "f64_zero \<equiv> F64_Fin 0"

fun f64_is_finite :: "f64 \<Rightarrow> bool" where
  "f64_is_finite (F64_Fin _) = True"
| "f64_is_finite _ = False"

text \<open>The comparisons \<open>a < b\<close>, \<open>a <= b\<close> and \<open>a == b\<close>: every one is false on a NaN.\<close>

fun f64_lt :: "f64 \<Rightarrow> f64 \<Rightarrow> bool" where
  "f64_lt (F64_Fin a) (F64_Fin b) = (a < b)"
| "f64_lt (F64_Inf n) (F64_Fin b) = n"
| "f64_lt (F64_Fin a) (F64_Inf n) = (\<not> n)"
| "f64_lt (F64_Inf m) (F64_Inf n) = (m \<and> \<not> n)"
| "f64_lt _ _ = False"

fun f64_eq :: "f64 \<Rightarrow> f64 \<Rightarrow> bool" where
  "f64_eq (F64_Fin a) (F64_Fin b) = (a = b)"
| "f64_eq (F64_Inf m) (F64_Inf n) = (m = n)"
| "f64_eq _ _ = False"

definition f64_le :: "f64 \<Rightarrow> f64 \<Rightarrow> bool" where
  "f64_le a b \<longleftrightarrow> f64_lt a b \<or> f64_eq a b"

fun f64_add :: "rounding \<Rightarrow> f64 \<Rightarrow> f64 \<Rightarrow> f64" where
  "f64_add rnd (F64_Fin a) (F64_Fin b) = rnd (a + b)"
| "f64_add rnd F64_NaN _ = F64_NaN"
| "f64_add rnd _ F64_NaN = F64_NaN"
| "f64_add rnd (F64_Inf m) (F64_Inf n) = (if m = n then F64_Inf m else F64_NaN)"
| "f64_add rnd (F64_Inf m) (F64_Fin _) = F64_Inf m"
| "f64_add rnd (F64_Fin _) (F64_Inf n) = F64_Inf n"

definition f64_sum :: "rounding \<Rightarrow> f64 list \<Rightarrow> f64" where
  "f64_sum rnd xs = foldl (f64_add rnd) f64_zero xs"

text \<open>\<open>value as i64\<close>: truncation towards zero, saturating, 0 for a NaN.\<close>

definition trunc_rat :: "rat \<Rightarrow> int" where
  "trunc_rat q = (if 0 \<le> q then \<lfloor>q\<rfloor> else \<lceil>q\<rceil>)"

fun f64_as_i64 :: "f64 \<Rightarrow> int" where
  "f64_as_i64 F64_NaN = 0"
| "f64_as_i64 (F64_Inf neg) = (if neg then - (2 ^ 63) else 2 ^ 63 - 1)"
| "f64_as_i64 (F64_Fin q) = max (- (2 ^ 63)) (min (2 ^ 63 - 1) (trunc_rat q))"

lemma f64_as_i64_range: "in_i64 (f64_as_i64 x)"
  by (cases x) (auto simp: in_i64_def)

lemma f64_as_i64_int: "in_i64 n \<Longrightarrow> f64_as_i64 (F64_Fin (of_int n)) = n"
  by (auto simp: in_i64_def trunc_rat_def)

text \<open>
  A timeout of the schedulers is on when it is finite and positive; anything else switches it
  off and is stored as 0.
\<close>

definition timeout_on :: "f64 \<Rightarrow> bool" where
  "timeout_on t \<longleftrightarrow> f64_is_finite t \<and> f64_lt f64_zero t"

definition clamp_timeout :: "f64 \<Rightarrow> f64" where
  "clamp_timeout t = (if timeout_on t then t else f64_zero)"

lemma timeout_on_zero [simp]: "\<not> timeout_on f64_zero"
  by (simp add: timeout_on_def)

lemma timeout_on_clamp [simp]: "timeout_on (clamp_timeout t) = timeout_on t"
  by (simp add: clamp_timeout_def)

lemma clamp_timeout_cases:
  "clamp_timeout t = f64_zero \<or> (clamp_timeout t = t \<and> timeout_on t)"
  by (simp add: clamp_timeout_def)

end
