(* ===== verification/Core_Types.thy ===== *)
theory Core_Types
  imports Rust_Str Rust_F64
begin

text \<open>
  Crate \<open>kirk-core\<close>: the error enum (\<open>errors.rs\<close>), tests and suites (\<open>data.rs\<close>) and the
  result records with their counters (\<open>results.rs\<close>). Hash maps from strings to strings are
  partial functions; \<open>u32\<close> counters are 32-bit words.
\<close>

section \<open>Errors\<close>

datatype kirk_error =
    PluginE string
  | CommunicationE string
  | SutE string
  | KernelPanicE string
  | KernelTaintedE string
  | KernelTimeoutE string
  | FrameworkE string
  | ExporterE string
  | LtxE string
  | SchedulerE string
  | SessionE string

type_synonym 'a result = "kirk_error + 'a"

fun error_display :: "kirk_error \<Rightarrow> string" where
  "error_display (PluginE m) = ''plugin error: '' @ m"
| "error_display (CommunicationE m) = ''communication error: '' @ m"
| "error_display (SutE m) = ''SUT error: '' @ m"
| "error_display (KernelPanicE m) = ''kernel panic: '' @ m"
| "error_display (KernelTaintedE m) = ''kernel tainted: '' @ m"
| "error_display (KernelTimeoutE m) = ''kernel timeout: '' @ m"
| "error_display (FrameworkE m) = ''framework error: '' @ m"
| "error_display (ExporterE m) = ''exporter error: '' @ m"
| "error_display (LtxE m) = ''LTX error: '' @ m"
| "error_display (SchedulerE m) = ''scheduler error: '' @ m"
| "error_display (SessionE m) = ''session error: '' @ m"

text \<open>The three kernel failures the suite scheduler answers with a reboot.\<close>

fun is_kernel_error :: "kirk_error \<Rightarrow> bool" where
  "is_kernel_error (KernelPanicE _) = True"
| "is_kernel_error (KernelTaintedE _) = True"
| "is_kernel_error (KernelTimeoutE _) = True"
| "is_kernel_error _ = False"

lemma error_display_inj: "error_display a = error_display b \<longleftrightarrow> a = b"
  by (cases a; cases b) auto

section \<open>Tests and suites\<close>

type_synonym str_map = "string \<rightharpoonup> string"

record test =
  t_name :: string
  t_command :: string
  t_cwd :: "string option"
  t_env :: str_map
  t_args :: "string list"
  t_parallelizable :: bool

definition test_new :: "string \<Rightarrow> string \<Rightarrow> test result" where
  "test_new name command =
     (if name = [] then Err (FrameworkE ''Test must have a name'')
      else if command = [] then Err (FrameworkE ''Test must have a command'')
      else Ok \<lparr> t_name = name, t_command = command, t_cwd = None, t_env = Map.empty,
                t_args = [], t_parallelizable = False \<rparr>)"

definition with_args :: "string list \<Rightarrow> test \<Rightarrow> test" where
  "with_args args t = t\<lparr>t_args := args\<rparr>"

definition with_cwd :: "string \<Rightarrow> test \<Rightarrow> test" where
  "with_cwd cwd t = t\<lparr>t_cwd := Some cwd\<rparr>"

definition with_env :: "str_map \<Rightarrow> test \<Rightarrow> test" where
  "with_env env t = t\<lparr>t_env := env\<rparr>"

definition with_parallelizable :: "bool \<Rightarrow> test \<Rightarrow> test" where
  "with_parallelizable p t = t\<lparr>t_parallelizable := p\<rparr>"

definition full_command :: "test \<Rightarrow> string" where
  "full_command t =
     (if t_args t = [] then t_command t
      else t_command t @ '' '' @ join '' '' (t_args t))"

definition force_parallel :: "test \<Rightarrow> test" where
  "force_parallel t = t\<lparr>t_parallelizable := True\<rparr>"

record suite =
  s_name :: string
  s_tests :: "test list"

definition suite_new :: "string \<Rightarrow> test list \<Rightarrow> suite" where
  "suite_new name tests = \<lparr> s_name = name, s_tests = tests \<rparr>"

definition set_name :: "suite \<Rightarrow> string \<Rightarrow> unit result \<times> suite" where
  "set_name s value =
     (if value = [] then (Err (FrameworkE ''empty suite name''), s)
      else (Ok (), s\<lparr>s_name := value\<rparr>))"

lemmas with_defs = with_args_def with_cwd_def with_env_def with_parallelizable_def

text \<open>A test that \<open>Test::new\<close> accepted: both strings the constructor checks are present.\<close>

definition test_wf :: "test \<Rightarrow> bool" where
  "test_wf t \<longleftrightarrow> t_name t \<noteq> [] \<and> t_command t \<noteq> []"

lemma test_new_wf: "test_new n c = Inr t \<Longrightarrow> test_wf t"
  by (auto simp: test_new_def test_wf_def split: if_splits)

lemma test_new_fields:
  "test_new n c = Inr t \<Longrightarrow> t_name t = n \<and> t_command t = c \<and> \<not> t_parallelizable t"
  by (auto simp: test_new_def split: if_splits)

lemma with_wf [simp]:
  "test_wf (with_args a t) = test_wf t" "test_wf (with_cwd d t) = test_wf t"
  "test_wf (with_env e t) = test_wf t" "test_wf (with_parallelizable p t) = test_wf t"
  "test_wf (force_parallel t) = test_wf t"
  by (simp_all add: test_wf_def with_defs force_parallel_def)

lemma with_frame [frame_simps]:
  "t_name (with_args a t) = t_name t" "t_name (with_cwd d t) = t_name t"
  "t_name (with_env e t) = t_name t" "t_name (with_parallelizable p t) = t_name t"
  "t_name (force_parallel t) = t_name t"
  by (simp_all add: with_defs force_parallel_def)

lemma suite_new_sel [simp]:
  "s_name (suite_new n ts) = n" "s_tests (suite_new n ts) = ts"
  by (simp_all add: suite_new_def)

section \<open>Results\<close>

text \<open>The status codes of \<open>ResultStatus\<close>.\<close>

definition status_PASS :: int where "status_PASS = 0"
definition status_BROK :: int where "status_BROK = 2"
definition status_WARN :: int where "status_WARN = 4"
definition status_FAIL :: int where "status_FAIL = 16"
definition status_CONF :: int where "status_CONF = 32"

lemmas status_defs = status_PASS_def status_BROK_def status_WARN_def status_FAIL_def
  status_CONF_def

record test_results =
  r_test :: test
  r_failed :: u32
  r_passed :: u32
  r_broken :: u32
  r_skipped :: u32
  r_warnings :: u32
  r_exec_time :: f64
  r_status :: int
  r_retcode :: int
  r_stdout :: string

definition test_results_new :: "test \<Rightarrow> test_results" where
  "test_results_new t =
     \<lparr> r_test = t, r_failed = 0, r_passed = 0, r_broken = 0, r_skipped = 0, r_warnings = 0,
       r_exec_time = f64_zero, r_status = status_PASS, r_retcode = 0, r_stdout = [] \<rparr>"

definition with_failed :: "u32 \<Rightarrow> test_results \<Rightarrow> test_results" where
  "with_failed n r = r\<lparr>r_failed := n\<rparr>"
definition with_passed :: "u32 \<Rightarrow> test_results \<Rightarrow> test_results" where
  "with_passed n r = r\<lparr>r_passed := n\<rparr>"
definition with_broken :: "u32 \<Rightarrow> test_results \<Rightarrow> test_results" where
  "with_broken n r = r\<lparr>r_broken := n\<rparr>"
definition with_skipped :: "u32 \<Rightarrow> test_results \<Rightarrow> test_results" where
  "with_skipped n r = r\<lparr>r_skipped := n\<rparr>"
definition with_warnings :: "u32 \<Rightarrow> test_results \<Rightarrow> test_results" where
  "with_warnings n r = r\<lparr>r_warnings := n\<rparr>"
definition with_exec_time :: "f64 \<Rightarrow> test_results \<Rightarrow> test_results" where
  "with_exec_time x r = r\<lparr>r_exec_time := x\<rparr>"
definition with_status :: "int \<Rightarrow> test_results \<Rightarrow> test_results" where
  "with_status n r = r\<lparr>r_status := n\<rparr>"
definition with_retcode :: "int \<Rightarrow> test_results \<Rightarrow> test_results" where
  "with_retcode n r = r\<lparr>r_retcode := n\<rparr>"
definition with_stdout :: "string \<Rightarrow> test_results \<Rightarrow> test_results" where
  "with_stdout s r = r\<lparr>r_stdout := s\<rparr>"

lemmas result_defs = test_results_new_def with_failed_def with_passed_def with_broken_def
  with_skipped_def with_warnings_def with_exec_time_def with_status_def with_retcode_def
  with_stdout_def

record suite_results =
  sr_suite :: suite
  sr_tests :: "test_results list"
  sr_distro :: "string option"
  sr_distro_ver :: "string option"
  sr_kernel :: "string option"
  sr_cmdline :: "string option"
  sr_arch :: "string option"
  sr_cpu :: "string option"
  sr_swap :: "string option"
  sr_ram :: "string option"

definition suite_results_new :: "suite \<Rightarrow> suite_results" where
  "suite_results_new s =
     \<lparr> sr_suite = s, sr_tests = [], sr_distro = None, sr_distro_ver = None, sr_kernel = None,
       sr_cmdline = None, sr_arch = None, sr_cpu = None, sr_swap = None, sr_ram = None \<rparr>"

definition with_tests :: "test_results list \<Rightarrow> suite_results \<Rightarrow> suite_results" where
  "with_tests ts r = r\<lparr>sr_tests := ts\<rparr>"
definition with_distro :: "string \<Rightarrow> suite_results \<Rightarrow> suite_results" where
  "with_distro v r = r\<lparr>sr_distro := Some v\<rparr>"
definition with_distro_ver :: "string \<Rightarrow> suite_results \<Rightarrow> suite_results" where
  "with_distro_ver v r = r\<lparr>sr_distro_ver := Some v\<rparr>"
definition with_kernel :: "string \<Rightarrow> suite_results \<Rightarrow> suite_results" where
  "with_kernel v r = r\<lparr>sr_kernel := Some v\<rparr>"
definition with_cmdline :: "string \<Rightarrow> suite_results \<Rightarrow> suite_results" where
  "with_cmdline v r = r\<lparr>sr_cmdline := Some v\<rparr>"
definition with_arch :: "string \<Rightarrow> suite_results \<Rightarrow> suite_results" where
  "with_arch v r = r\<lparr>sr_arch := Some v\<rparr>"
definition with_cpu :: "string \<Rightarrow> suite_results \<Rightarrow> suite_results" where
  "with_cpu v r = r\<lparr>sr_cpu := Some v\<rparr>"
definition with_swap :: "string \<Rightarrow> suite_results \<Rightarrow> suite_results" where
  "with_swap v r = r\<lparr>sr_swap := Some v\<rparr>"
definition with_ram :: "string \<Rightarrow> suite_results \<Rightarrow> suite_results" where
  "with_ram v r = r\<lparr>sr_ram := Some v\<rparr>"

lemmas suite_result_defs = suite_results_new_def with_tests_def with_distro_def
  with_distro_ver_def with_kernel_def with_cmdline_def with_arch_def with_cpu_def with_swap_def
  with_ram_def

text \<open>
  Totals over a suite. The \<open>u32\<close> additions wrap in a release build (they panic in a debug
  build), which word addition is; \<open>sum_counter_exact\<close> gives the bound under which neither
  happens.
\<close>

definition suite_exec_time :: "rounding \<Rightarrow> suite_results \<Rightarrow> f64" where
  "suite_exec_time rnd r = f64_sum rnd (map r_exec_time (sr_tests r))"

definition sum_u32 :: "u32 list \<Rightarrow> u32" where
  "sum_u32 ns = foldl (+) 0 ns"

definition suite_failed :: "suite_results \<Rightarrow> u32" where
  "suite_failed r = sum_u32 (map r_failed (sr_tests r))"
definition suite_passed :: "suite_results \<Rightarrow> u32" where
  "suite_passed r = sum_u32 (map r_passed (sr_tests r))"
definition suite_broken :: "suite_results \<Rightarrow> u32" where
  "suite_broken r = sum_u32 (map r_broken (sr_tests r))"
definition suite_skipped :: "suite_results \<Rightarrow> u32" where
  "suite_skipped r = sum_u32 (map r_skipped (sr_tests r))"
definition suite_warnings :: "suite_results \<Rightarrow> u32" where
  "suite_warnings r = sum_u32 (map r_warnings (sr_tests r))"

lemmas suite_sum_defs = suite_failed_def suite_passed_def suite_broken_def suite_skipped_def
  suite_warnings_def

lemma foldl_add_u32: "foldl (+) a ns = a + sum_list (ns :: u32 list)"
  by (induction ns arbitrary: a) (auto simp: add.assoc)

lemma sum_u32_sum_list: "sum_u32 ns = sum_list ns"
  by (simp add: sum_u32_def foldl_add_u32)

lemma sum_u32_append: "sum_u32 (xs @ ys) = sum_u32 xs + sum_u32 ys"
  by (simp add: sum_u32_sum_list)

lemma sum_u32_exact:
  "sum_list (map unat ns) < 2 ^ 32 \<Longrightarrow> unat (sum_u32 ns) = sum_list (map unat ns)"
proof (induction ns)
  case Nil
  then show ?case by (simp add: sum_u32_def)
next
  case (Cons n ns)
  then have "unat (sum_u32 ns) = sum_list (map unat ns)" by simp
  with Cons.prems show ?case by (simp add: sum_u32_sum_list unat_word_ariths)
qed

end
