(* ===== verification/Core_Dict.thy ===== *)
theory Core_Dict
  imports Core_Types
begin

text \<open>
  Module \<open>types_util.rs\<close> of \<open>kirk-core\<close>: typed extraction of values from a JSON object. A JSON
  number is an integer in \<open>i64::MIN .. u64::MAX\<close> or a float, the two kinds a
  \<open>serde_json::Number\<close> distinguishes; an object is its list of entries, with distinct keys.
\<close>

datatype json =
    JNull
  | JBool bool
  | JInt int
  | JFloat f64
  | JStr string
  | JArr "json list"
  | JObj "(string \<times> json) list"

type_synonym json_map = "(string \<times> json) list"

text \<open>A number as the parser builds it: an integer that fits one of the two widths, or a finite float.\<close>

fun json_num_wf :: "json \<Rightarrow> bool" where
  "json_num_wf (JInt n) = (- (2 ^ 63) \<le> n \<and> n < 2 ^ 64)"
| "json_num_wf (JFloat x) = f64_is_finite x"
| "json_num_wf _ = True"

record dict_type_error =
  dte_expected :: string
  dte_actual :: string

definition dict_error_display :: "dict_type_error \<Rightarrow> string" where
  "dict_error_display e =
     ''dict value must be a '' @ dte_expected e @ '' but it's '' @ dte_actual e"

fun json_type_name :: "json \<Rightarrow> string" where
  "json_type_name JNull = ''NoneType''"
| "json_type_name (JBool _) = ''bool''"
| "json_type_name (JInt _) = ''int''"
| "json_type_name (JFloat _) = ''float''"
| "json_type_name (JStr _) = ''str''"
| "json_type_name (JArr _) = ''list''"
| "json_type_name (JObj _) = ''dict''"

definition type_error :: "string \<Rightarrow> json \<Rightarrow> dict_type_error" where
  "type_error expected v = \<lparr> dte_expected = expected, dte_actual = json_type_name v \<rparr>"

definition float_to_int :: "f64 \<Rightarrow> int" where
  "float_to_int x = f64_as_i64 x"

text \<open>\<open>Number::as_i64\<close>, \<open>as_u64\<close> and \<open>as_f64\<close> on the two kinds of number.\<close>

fun num_as_i64 :: "json \<Rightarrow> int option" where
  "num_as_i64 (JInt n) = (if in_i64 n then Some n else None)"
| "num_as_i64 _ = None"

fun num_as_u64 :: "json \<Rightarrow> int option" where
  "num_as_u64 (JInt n) = (if in_u64 n then Some n else None)"
| "num_as_u64 _ = None"

fun num_as_f64 :: "rounding \<Rightarrow> json \<Rightarrow> f64 option" where
  "num_as_f64 rnd (JInt n) = Some (rnd (of_int n))"
| "num_as_f64 rnd (JFloat x) = Some x"
| "num_as_f64 rnd _ = None"

fun or_else :: "'a option \<Rightarrow> 'a option \<Rightarrow> 'a option" where
  "or_else None b = b"
| "or_else (Some x) _ = Some x"

definition is_number :: "json \<Rightarrow> bool" where
  "is_number v \<longleftrightarrow> (case v of JInt _ \<Rightarrow> True | JFloat _ \<Rightarrow> True | _ \<Rightarrow> False)"

section \<open>The four implementations of \<open>DictItemValue::from_value\<close>\<close>

fun from_value_str :: "json \<Rightarrow> dict_type_error + string" where
  "from_value_str (JStr s) = Ok s"
| "from_value_str v = Err (type_error ''str'' v)"

fun from_value_bool :: "json \<Rightarrow> dict_type_error + bool" where
  "from_value_bool (JBool b) = Ok b"
| "from_value_bool v = Err (type_error ''bool'' v)"

definition from_value_i64 :: "rounding \<Rightarrow> json \<Rightarrow> dict_type_error + int" where
  "from_value_i64 rnd v =
     (if is_number v then
        ok_or (type_error ''int'' v)
          (or_else
             (or_else (num_as_i64 v)
                (Option.bind (num_as_u64 v) (\<lambda>u. if in_i64 u then Some u else None)))
             (map_option float_to_int (num_as_f64 rnd v)))
      else Err (type_error ''int'' v))"

definition from_value_f64 :: "rounding \<Rightarrow> json \<Rightarrow> dict_type_error + f64" where
  "from_value_f64 rnd v =
     (if is_number v then ok_or (type_error ''float'' v) (num_as_f64 rnd v)
      else Err (type_error ''float'' v))"

definition dict_item ::
  "(json \<Rightarrow> dict_type_error + 'a) \<Rightarrow> json_map \<Rightarrow> string \<Rightarrow> 'a option
     \<Rightarrow> dict_type_error + 'a option" where
  "dict_item from_value data key dflt =
     (case map_of data key of
        None \<Rightarrow> Ok dflt
      | Some v \<Rightarrow> and_then (from_value v) (\<lambda>x. Ok (Some x)))"

section \<open>What the extraction promises\<close>

lemma from_value_i64_number:
  "is_number v \<Longrightarrow> \<exists>n. from_value_i64 rnd v = Inr n \<and> in_i64 n"
  by (cases v)
    (auto simp: from_value_i64_def is_number_def float_to_int_def f64_as_i64_range)

lemma from_value_i64_exact: "in_i64 n \<Longrightarrow> from_value_i64 rnd (JInt n) = Inr n"
  by (simp add: from_value_i64_def is_number_def)

lemma from_value_i64_saturates:
  assumes "2 ^ 63 \<le> n" and "n < 2 ^ 64" and "rnd (of_int n) = F64_Fin q" and "2 ^ 63 \<le> q"
  shows "from_value_i64 rnd (JInt n) = Inr (2 ^ 63 - 1)"
proof -
  have "2 ^ 63 \<le> trunc_rat q"
    using assms(4) by (simp add: trunc_rat_def le_floor_iff)
  with assms show ?thesis
    by (simp add: from_value_i64_def is_number_def in_i64_def in_u64_def float_to_int_def)
qed

lemma from_value_error_name:
  "from_value_str v = Inl e \<Longrightarrow> dte_actual e = json_type_name v"
  "from_value_bool v = Inl e' \<Longrightarrow> dte_actual e' = json_type_name v"
  by (cases v; auto simp: type_error_def)+

lemma dict_item_missing: "map_of data key = None \<Longrightarrow> dict_item f data key d = Inr d"
  by (simp add: dict_item_def)

lemma dict_item_present:
  "map_of data key = Some v \<Longrightarrow> dict_item f data key d = and_then (f v) (\<lambda>x. Inr (Some x))"
  by (simp add: dict_item_def)

text \<open>
  Extracting an \<open>i64\<close> from a present value accepts every JSON number (an integer that
  fits is unchanged, an unsigned one beyond \<open>i64::MAX\<close> goes through a float and saturates, a float
  is truncated) and refuses every other value with the expected and the actual type name; the
  default is not consulted.
\<close>

theorem dict_item_i64_total:
  "map_of data key = Some v \<Longrightarrow>
   dict_item (from_value_i64 rnd) data key d =
     (if is_number v
      then Inr (Some (case v of JInt n \<Rightarrow> if in_i64 n then n else f64_as_i64 (rnd (of_int n))
                              | JFloat x \<Rightarrow> f64_as_i64 x
                              | _ \<Rightarrow> 0))
      else Inl \<lparr> dte_expected = ''int'', dte_actual = json_type_name v \<rparr>)"
  by (cases v)
    (auto simp: dict_item_def from_value_i64_def is_number_def float_to_int_def type_error_def
      split: option.splits)

theorem dict_item_i64_total_witness:
  "dict_item (from_value_i64 F64_Fin) [(''a'', JStr ''x''), (''key'', JInt (2 ^ 64 - 1))] ''key'' None
     = Inr (Some (2 ^ 63 - 1))"
proof -
  have present: "map_of [(''a'', JStr ''x''), (''key'', JInt (2 ^ 64 - 1))] ''key''
      = Some (JInt (2 ^ 64 - 1))" by simp
  show ?thesis
    unfolding dict_item_i64_total [OF present]
    by (simp add: is_number_def in_i64_def trunc_rat_def)
qed

end
