(* ===== verification/Events.thy ===== *)
theory Events
  imports Core_Types
begin

text \<open>
  Crate \<open>kirk-events\<close>: the registry maps event names to handlers, \<open>fire\<close> snapshots the
  handlers of an event into a FIFO queue, \<open>start\<close> consumes the queue up to the stop sentinel
  and then flushes what is behind it. A handler is its \<open>Arc\<close> pointer, a number; what the
  handlers do is a parameter \<open>H\<close>, which gives the outcome of a call and the events the handler
  itself fires. The history \<open>rg_delivered\<close> of calls is not program state: it is what the
  theorems observe.
\<close>

section \<open>Payloads and arguments\<close>

datatype event_payload =
    P_None
  | P_Text string
  | P_SessionStarted nat string
  | P_Test test
  | P_TestResults test_results
  | P_TestTimedOut test f64
  | P_Suite suite
  | P_SuiteCompleted suite_results f64
  | P_SuiteTimeout suite f64
  | P_Suites "suite list"
  | P_SessionCompleted "suite_results list"
  | P_RunCmdStop string string int
  | P_SutStdout string string
  | P_TestStdout test string

fun as_text :: "event_payload \<Rightarrow> string option" where
  "as_text (P_Text t) = Some t"
| "as_text _ = None"

record event_args =
  ea_event :: string
  ea_payload :: event_payload

definition INTERNAL_ERROR :: string where
  "INTERNAL_ERROR = ''internal_error''"

definition empty_name_error :: kirk_error where
  "empty_name_error = FrameworkE ''event_name is empty''"

section \<open>Outcomes of a handler task\<close>

datatype panic_payload = PanicString string | PanicStr string | PanicOther

datatype join_error = JoinPanic panic_payload | JoinCancelled

datatype handler_outcome = Returned "string + unit" | Failed join_error

fun panic_message :: "panic_payload \<Rightarrow> string" where
  "panic_message (PanicString t) = t"
| "panic_message (PanicStr t) = t"
| "panic_message PanicOther = ''event handler panicked''"

fun join_failure :: "join_error \<Rightarrow> string" where
  "join_failure (JoinPanic p) = panic_message p"
| "join_failure JoinCancelled = ''event handler was cancelled''"

text \<open>\<open>run_owned\<close>, and the two error arms of the concurrent loop of \<open>execute\<close>.\<close>

fun run_owned :: "handler_outcome \<Rightarrow> string + unit" where
  "run_owned (Returned r) = r"
| "run_owned (Failed j) = Err (join_failure j)"

section \<open>Registry state and operations\<close>

type_synonym handler = nat

record event_entry =
  ee_handlers :: "handler list"
  ee_ordered :: bool

datatype queue_item = Dispatch string "handler list" bool event_args | Stop

record registry =
  rg_events :: "string \<rightharpoonup> event_entry"
  rg_queue :: "queue_item list"
  rg_delivered :: "(handler \<times> event_args) list"

type_synonym behaviour =
  "handler \<Rightarrow> event_args \<Rightarrow> handler_outcome \<times> (string \<times> event_payload) list"

definition registry_new :: registry where
  "registry_new =
     \<lparr> rg_events = [INTERNAL_ERROR \<mapsto> \<lparr> ee_handlers = [], ee_ordered = False \<rparr>],
       rg_queue = [], rg_delivered = [] \<rparr>"

definition register ::
  "string \<Rightarrow> handler \<Rightarrow> bool \<Rightarrow> registry \<Rightarrow> unit result \<times> registry" where
  "register name h ordered r =
     (if name = [] then (Err empty_name_error, r)
      else
        (let entry = (case rg_events r name of
                        None \<Rightarrow> \<lparr> ee_handlers = [], ee_ordered = ordered \<rparr>
                      | Some e \<Rightarrow> e)
         in (Ok (), r\<lparr>rg_events :=
               (rg_events r)(name \<mapsto> entry\<lparr>ee_handlers := ee_handlers entry @ [h]\<rparr>)\<rparr>)))"

definition unregister ::
  "string \<Rightarrow> handler option \<Rightarrow> registry \<Rightarrow> unit result \<times> registry" where
  "unregister name target r =
     (if name = [] then (Err empty_name_error, r)
      else
        (case target of
           Some h \<Rightarrow>
             (case rg_events r name of
                None \<Rightarrow> (Ok (), r)
              | Some e \<Rightarrow>
                  (Ok (), r\<lparr>rg_events := (rg_events r)(name \<mapsto>
                     e\<lparr>ee_handlers := filter (\<lambda>k. k \<noteq> h) (ee_handlers e)\<rparr>)\<rparr>))
         | None \<Rightarrow> (Ok (), r\<lparr>rg_events := (rg_events r)(name := None)\<rparr>)))"

definition is_registered :: "string \<Rightarrow> registry \<Rightarrow> bool result" where
  "is_registered name r =
     (if name = [] then Err empty_name_error
      else Ok (case rg_events r name of None \<Rightarrow> False | Some e \<Rightarrow> ee_handlers e \<noteq> []))"

definition reset :: "registry \<Rightarrow> registry" where
  "reset r = r\<lparr>rg_events := Map.empty\<rparr>"

definition fire :: "string \<Rightarrow> event_payload \<Rightarrow> registry \<Rightarrow> unit result \<times> registry" where
  "fire name payload r =
     (if name = [] then (Err empty_name_error, r)
      else
        (case rg_events r name of
           None \<Rightarrow> (Ok (), r)
         | Some e \<Rightarrow>
             (if ee_handlers e = [] then (Ok (), r)
              else (Ok (), r\<lparr>rg_queue := rg_queue r @
                     [Dispatch name (ee_handlers e) (ee_ordered e)
                        \<lparr> ea_event = name, ea_payload = payload \<rparr>]\<rparr>))))"

definition stop :: "registry \<Rightarrow> registry" where
  "stop r = r\<lparr>rg_queue := rg_queue r @ [Stop]\<rparr>"

section \<open>Delivery\<close>

text \<open>One call of a handler: it is recorded, and the events it fires go to the queue.\<close>

definition deliver ::
  "behaviour \<Rightarrow> handler \<Rightarrow> event_args \<Rightarrow> registry \<Rightarrow> (string + unit) \<times> registry" where
  "deliver H h a r =
     (let (out, fires) = H h a;
          r1 = r\<lparr>rg_delivered := rg_delivered r @ [(h, a)]\<rparr>
      in (run_owned out, fold (\<lambda>(n, p) s. snd (fire n p s)) fires r1))"

definition report_error :: "behaviour \<Rightarrow> string \<Rightarrow> string \<Rightarrow> registry \<Rightarrow> registry" where
  "report_error H event err r =
     (if event = INTERNAL_ERROR then r
      else
        (case rg_events r INTERNAL_ERROR of
           None \<Rightarrow> r
         | Some e \<Rightarrow>
             (if ee_handlers e = [] then r
              else fold (\<lambda>h s. snd (deliver H h \<lparr> ea_event = event, ea_payload = P_Text err \<rparr> s))
                     (ee_handlers e) r)))"

definition deliver_reporting ::
  "behaviour \<Rightarrow> string \<Rightarrow> event_args \<Rightarrow> handler \<Rightarrow> registry \<Rightarrow> registry" where
  "deliver_reporting H event a h r =
     (case deliver H h a r of
        (Inl err, r') \<Rightarrow> report_error H event err r'
      | (Inr _, r') \<Rightarrow> r')"

text \<open>
  Ordered dispatches run serially in registration order. The others run concurrently; \<open>ord\<close>
  gives the order in which their tasks complete.
\<close>

definition execute ::
  "behaviour \<Rightarrow> (handler list \<Rightarrow> handler list) \<Rightarrow> string \<Rightarrow> handler list \<Rightarrow> bool \<Rightarrow> event_args
     \<Rightarrow> registry \<Rightarrow> registry" where
  "execute H ord event hs ordered a r =
     (if ordered then fold (deliver_reporting H event a) hs r
      else fold (deliver_reporting H event a) (ord hs) r)"

fun handle ::
  "behaviour \<Rightarrow> (handler list \<Rightarrow> handler list) \<Rightarrow> queue_item \<Rightarrow> registry \<Rightarrow> bool \<times> registry" where
  "handle H ord Stop r = (False, r)"
| "handle H ord (Dispatch event hs ordered a) r = (True, execute H ord event hs ordered a r)"

text \<open>
  The two loops of \<open>start\<close>. Both take the head of the queue and end on the sentinel; on an empty
  queue the first one waits for another task to fire (\<open>Waiting\<close>) and the second one ends. A
  handler that keeps firing keeps the loop running, so the loop has fuel.
\<close>

datatype pump_status = Waiting | Stopped

fun pump ::
  "nat \<Rightarrow> behaviour \<Rightarrow> (handler list \<Rightarrow> handler list) \<Rightarrow> registry
     \<Rightarrow> (pump_status \<times> registry) option" where
  "pump 0 H ord r = None"
| "pump (Suc n) H ord r =
     (case rg_queue r of
        [] \<Rightarrow> Some (Waiting, r)
      | item # q \<Rightarrow>
          (case handle H ord item (r\<lparr>rg_queue := q\<rparr>) of
             (True, r') \<Rightarrow> pump n H ord r'
           | (False, r') \<Rightarrow> Some (Stopped, r')))"

definition start ::
  "nat \<Rightarrow> behaviour \<Rightarrow> (handler list \<Rightarrow> handler list) \<Rightarrow> registry
     \<Rightarrow> (pump_status \<times> registry) option" where
  "start n H ord r =
     (case pump n H ord r of
        Some (Stopped, r') \<Rightarrow> map_option (\<lambda>(_, r''). (Stopped, r'')) (pump n H ord r')
      | other \<Rightarrow> other)"

section \<open>What one dispatch does\<close>

definition internal_handlers :: "registry \<Rightarrow> handler list" where
  "internal_handlers r =
     (case rg_events r INTERNAL_ERROR of None \<Rightarrow> [] | Some e \<Rightarrow> ee_handlers e)"

text \<open>
  The calls one handler of a dispatch causes: its own, and when it fails one call of every
  \<open>internal_error\<close> handler, unless the dispatch is itself an \<open>internal_error\<close>.
\<close>

definition handler_log ::
  "behaviour \<Rightarrow> handler list \<Rightarrow> string \<Rightarrow> event_args \<Rightarrow> handler \<Rightarrow> (handler \<times> event_args) list" where
  "handler_log H ints event a h =
     (h, a) #
     (case run_owned (fst (H h a)) of
        Inl err \<Rightarrow>
          (if event = INTERNAL_ERROR then []
           else map (\<lambda>i. (i, \<lparr> ea_event = event, ea_payload = P_Text err \<rparr>)) ints)
      | Inr _ \<Rightarrow> [])"

fun item_log ::
  "behaviour \<Rightarrow> (handler list \<Rightarrow> handler list) \<Rightarrow> handler list \<Rightarrow> queue_item
     \<Rightarrow> (handler \<times> event_args) list" where
  "item_log H ord ints Stop = []"
| "item_log H ord ints (Dispatch event hs ordered a) =
     concat (map (handler_log H ints event a) (if ordered then hs else ord hs))"

lemma fire_frame [simp]:
  "rg_events (snd (fire n p r)) = rg_events r" "rg_delivered (snd (fire n p r)) = rg_delivered r"
  by (auto simp: fire_def split: option.splits)

lemma fire_all_frame:
  "rg_events (fold (\<lambda>(n, p) s. snd (fire n p s)) fs r) = rg_events r \<and>
   rg_delivered (fold (\<lambda>(n, p) s. snd (fire n p s)) fs r) = rg_delivered r"
  by (induction fs arbitrary: r) (auto simp: split_beta)

lemma deliver_frame:
  "fst (deliver H h a r) = run_owned (fst (H h a))"
  "rg_events (snd (deliver H h a r)) = rg_events r"
  "rg_delivered (snd (deliver H h a r)) = rg_delivered r @ [(h, a)]"
  using fire_all_frame by (simp_all add: deliver_def split_beta)

lemma deliver_fold_frame:
  "rg_events (fold (\<lambda>h s. snd (deliver H h a s)) hs r) = rg_events r \<and>
   rg_delivered (fold (\<lambda>h s. snd (deliver H h a s)) hs r)
     = rg_delivered r @ map (\<lambda>h. (h, a)) hs"
  by (induction hs arbitrary: r) (auto simp: deliver_frame)

lemma report_error_frame:
  "rg_events (report_error H event err r) = rg_events r"
  "rg_delivered (report_error H event err r) = rg_delivered r @
     (if event = INTERNAL_ERROR then []
      else map (\<lambda>i. (i, \<lparr> ea_event = event, ea_payload = P_Text err \<rparr>)) (internal_handlers r))"
  by (auto simp: report_error_def internal_handlers_def deliver_fold_frame split: option.splits)

lemma deliver_reporting_frame:
  "rg_events (deliver_reporting H event a h r) = rg_events r"
  "rg_delivered (deliver_reporting H event a h r)
     = rg_delivered r @ handler_log H (internal_handlers r) event a h"
proof -
  obtain out r' where d: "deliver H h a r = (out, r')" by fastforce
  have out: "out = run_owned (fst (H h a))" "rg_events r' = rg_events r"
    "rg_delivered r' = rg_delivered r @ [(h, a)]"
    using deliver_frame [of H h a r] d by simp_all
  then have "internal_handlers r' = internal_handlers r" by (simp add: internal_handlers_def)
  with d out show "rg_events (deliver_reporting H event a h r) = rg_events r"
    and "rg_delivered (deliver_reporting H event a h r)
     = rg_delivered r @ handler_log H (internal_handlers r) event a h"
    by (auto simp: deliver_reporting_def handler_log_def report_error_frame split: sum.splits)
qed

lemma deliver_reporting_fold:
  "rg_events (fold (deliver_reporting H event a) hs r) = rg_events r \<and>
   rg_delivered (fold (deliver_reporting H event a) hs r)
     = rg_delivered r @ concat (map (handler_log H (internal_handlers r) event a) hs)"
proof (induction hs arbitrary: r)
  case Nil
  then show ?case by simp
next
  case (Cons h hs)
  have "internal_handlers (deliver_reporting H event a h r) = internal_handlers r"
    by (simp add: internal_handlers_def deliver_reporting_frame)
  with Cons [of "deliver_reporting H event a h r"] show ?case
    by (simp add: deliver_reporting_frame)
qed

lemma handle_frame:
  "rg_events (snd (handle H ord item r)) = rg_events r"
  "rg_delivered (snd (handle H ord item r))
     = rg_delivered r @ item_log H ord (internal_handlers r) item"
  by (cases item; simp add: execute_def deliver_reporting_fold)+

text \<open>
  Whatever the handlers do, one dispatch calls each of its handlers exactly once, in
  order, and each failure (an error, a panic, a cancellation) causes one call of every
  \<open>internal_error\<close> handler with the failing event and the failure text; failures of
  \<open>internal_error\<close> handlers are dropped, so error handling never recurses. The registrations are
  untouched.
\<close>

theorem execute_isolates_failures:
  "rg_delivered (execute H ord event hs ordered a r) =
     rg_delivered r @
     concat (map (\<lambda>h. (h, a) #
        (case run_owned (fst (H h a)) of
           Inr _ \<Rightarrow> []
         | Inl err \<Rightarrow>
             (if event = ''internal_error'' then []
              else map (\<lambda>i. (i, \<lparr> ea_event = event, ea_payload = P_Text err \<rparr>))
                     (internal_handlers r))))
        (if ordered then hs else ord hs)) \<and>
   rg_events (execute H ord event hs ordered a r) = rg_events r"
proof -
  have log: "handler_log H ints event a = (\<lambda>h. (h, a) #
        (case run_owned (fst (H h a)) of
           Inr _ \<Rightarrow> []
         | Inl err \<Rightarrow>
             (if event = ''internal_error'' then []
              else map (\<lambda>i. (i, \<lparr> ea_event = event, ea_payload = P_Text err \<rparr>)) ints)))" for ints
    by (rule ext) (simp add: handler_log_def INTERNAL_ERROR_def split: sum.split)
  have "rg_delivered (execute H ord event hs ordered a r) =
     rg_delivered r @ concat (map (handler_log H (internal_handlers r) event a)
        (if ordered then hs else ord hs))"
    by (simp add: execute_def deliver_reporting_fold)
  moreover have "rg_events (execute H ord event hs ordered a r) = rg_events r"
    by (simp add: execute_def deliver_reporting_fold)
  ultimately show ?thesis by (simp add: log)
qed

section \<open>The queue is first in, first out\<close>

text \<open>Handlers that fire no event themselves leave the queue alone.\<close>

definition quiet :: "behaviour \<Rightarrow> bool" where
  "quiet H \<longleftrightarrow> (\<forall>h a. snd (H h a) = [])"

lemma deliver_quiet: "quiet H \<Longrightarrow> rg_queue (snd (deliver H h a r)) = rg_queue r"
  by (simp add: deliver_def quiet_def split_beta)

lemma report_error_quiet: "quiet H \<Longrightarrow> rg_queue (report_error H event err r) = rg_queue r"
proof -
  assume q: "quiet H"
  have "rg_queue (fold (\<lambda>h s. snd (deliver H h a s)) hs s) = rg_queue s" for hs a s
    by (induction hs arbitrary: s) (simp_all add: deliver_quiet [OF q])
  then show ?thesis by (simp add: report_error_def split: option.split)
qed

lemma deliver_reporting_quiet:
  "quiet H \<Longrightarrow> rg_queue (deliver_reporting H event a h r) = rg_queue r"
  using deliver_quiet [of H h a r] report_error_quiet [of H event]
  by (auto simp: deliver_reporting_def split: prod.splits sum.splits)

lemma deliver_reporting_fold_quiet:
  "quiet H \<Longrightarrow> rg_queue (fold (deliver_reporting H event a) hs r) = rg_queue r"
  by (induction hs arbitrary: r) (simp_all add: deliver_reporting_quiet)

lemma handle_quiet: "quiet H \<Longrightarrow> rg_queue (snd (handle H ord item r)) = rg_queue r"
  by (cases item) (simp_all add: execute_def deliver_reporting_fold_quiet)

lemma handle_quiet_eq:
  assumes "quiet H"
  shows "snd (handle H ord item r) =
     r\<lparr>rg_delivered := rg_delivered r @ item_log H ord (internal_handlers r) item\<rparr>"
  using handle_frame [where H = H and ord = ord and item = item and r = r]
    handle_quiet [OF assms, of ord item r]
  by (cases "snd (handle H ord item r)"; cases r) simp

lemma internal_handlers_update [simp]:
  "internal_handlers (r\<lparr>rg_queue := q\<rparr>) = internal_handlers r"
  "internal_handlers (r\<lparr>rg_delivered := d\<rparr>) = internal_handlers r"
  by (simp_all add: internal_handlers_def)

text \<open>Both loops of \<open>start\<close> on a queue whose first sentinel is known.\<close>

lemma pump_quiet:
  assumes "quiet H"
  shows "Stop \<notin> set ds \<Longrightarrow> length ds < n \<Longrightarrow> rg_queue r = ds @ rest \<Longrightarrow>
     rest = [] \<or> hd rest = Stop \<Longrightarrow>
     pump n H ord r = Some
       (if rest = [] then Waiting else Stopped,
        r\<lparr>rg_queue := tl rest, rg_delivered := rg_delivered r @
            concat (map (item_log H ord (internal_handlers r)) ds)\<rparr>)"
proof (induction ds arbitrary: n r)
  case Nil
  then obtain m where n: "n = Suc m" by (cases n) auto
  show ?case
  proof (cases rest)
    case Nil
    with Nil.prems n show ?thesis by (cases r) simp
  next
    case (Cons x q)
    with Nil.prems n show ?thesis by simp
  qed
next
  case (Cons d ds)
  then obtain m where n: "n = Suc m" by (cases n) auto
  define r1 where "r1 = r\<lparr>rg_queue := ds @ rest\<rparr>"
  define r2 where
    "r2 = r1\<lparr>rg_delivered := rg_delivered r1 @ item_log H ord (internal_handlers r1) d\<rparr>"
  have "handle H ord d r1 = (True, r2)"
    using Cons.prems(1) handle_quiet_eq [OF assms, of ord d r1]
    by (cases d) (simp_all add: r2_def)
  moreover have "pump m H ord r2 = Some
       (if rest = [] then Waiting else Stopped,
        r2\<lparr>rg_queue := tl rest, rg_delivered := rg_delivered r2 @
            concat (map (item_log H ord (internal_handlers r2)) ds)\<rparr>)"
    using Cons.prems n by (intro Cons.IH) (simp_all add: r2_def r1_def)
  ultimately show ?case
    using Cons.prems(3) n by (simp add: r1_def r2_def)
qed

text \<open>
  Claim C20: with handlers that fire nothing themselves, \<open>start\<close> returns once \<open>stop\<close> was called:
  it has delivered every queued event in the order it was fired, the ones behind the sentinel
  included, and the queue is empty. Fuel beyond the length of the queue is enough.
\<close>

theorem start_delivers_fifo:
  assumes "quiet H" and "rg_queue r = ds @ Stop # ds'"
    and "Stop \<notin> set ds" and "Stop \<notin> set ds'" and "length ds + length ds' < n"
  shows "start n H ord r =
     Some (Stopped, r\<lparr>rg_queue := [], rg_delivered := rg_delivered r @
        concat (map (item_log H ord (internal_handlers r)) (ds @ ds'))\<rparr>)"
proof -
  define r1 where "r1 = r\<lparr>rg_queue := ds', rg_delivered := rg_delivered r @
      concat (map (item_log H ord (internal_handlers r)) ds)\<rparr>"
  have "pump n H ord r = Some (Stopped, r1)"
    using pump_quiet [OF assms(1), of ds n r "Stop # ds'" ord] assms(2,3,5)
    by (simp add: r1_def)
  moreover have "pump n H ord r1 = Some (Waiting, r1\<lparr>rg_queue := [], rg_delivered :=
      rg_delivered r1 @ concat (map (item_log H ord (internal_handlers r1)) ds')\<rparr>)"
    using pump_quiet [OF assms(1), of ds' n r1 "[]" ord] assms(4,5) by (simp add: r1_def)
  ultimately show ?thesis by (simp add: start_def r1_def)
qed

theorem start_delivers_fifo_witness:
  "start 3 (\<lambda>h a. (Returned (Inr ()), [])) rev
     (registry_new\<lparr>rg_queue :=
        [Dispatch ''a'' [1, 2] True \<lparr> ea_event = ''a'', ea_payload = P_None \<rparr>, Stop,
         Dispatch ''b'' [3, 4] False \<lparr> ea_event = ''b'', ea_payload = P_Text ''x'' \<rparr>]\<rparr>)
   = Some (Stopped, registry_new\<lparr>rg_delivered :=
        [(1, \<lparr> ea_event = ''a'', ea_payload = P_None \<rparr>),
         (2, \<lparr> ea_event = ''a'', ea_payload = P_None \<rparr>),
         (4, \<lparr> ea_event = ''b'', ea_payload = P_Text ''x'' \<rparr>),
         (3, \<lparr> ea_event = ''b'', ea_payload = P_Text ''x'' \<rparr>)]\<rparr>)"
  by (subst start_delivers_fifo [where
        ds = "[Dispatch ''a'' [1, 2] True \<lparr> ea_event = ''a'', ea_payload = P_None \<rparr>]"
        and ds' = "[Dispatch ''b'' [3, 4] False \<lparr> ea_event = ''b'', ea_payload = P_Text ''x'' \<rparr>]"])
    (simp_all add: quiet_def handler_log_def registry_new_def)

section \<open>The table of handlers as an interface\<close>

text \<open>
  What a subscriber relies on: registering appends to the handlers of one event, removing an
  event leaves it without handlers, and neither touches another event.
\<close>

locale handler_table =
  fixes valid :: "'n \<Rightarrow> bool"
    and reg :: "'n \<Rightarrow> 'h \<Rightarrow> 's \<Rightarrow> 's"
    and drop_event :: "'n \<Rightarrow> 's \<Rightarrow> 's"
    and handlers :: "'s \<Rightarrow> 'n \<Rightarrow> 'h list"
  assumes handlers_reg:
      "valid n \<Longrightarrow> handlers (reg n h s) m = (if m = n then handlers s n @ [h] else handlers s m)"
    and handlers_drop:
      "valid n \<Longrightarrow> handlers (drop_event n s) m = (if m = n then [] else handlers s m)"
begin

lemma reg_many:
  "\<forall>(n, h) \<in> set xs. valid n \<Longrightarrow>
   handlers (fold (\<lambda>(n, h) s. reg n h s) xs s) m
     = handlers s m @ map snd (filter (\<lambda>(n, h). n = m) xs)"
  by (induction xs arbitrary: s) (auto simp: handlers_reg)

lemma drop_many:
  "\<forall>n \<in> set ns. valid n \<Longrightarrow>
   handlers (fold drop_event ns s) m = (if m \<in> set ns then [] else handlers s m)"
  by (induction ns arbitrary: s) (auto simp: handlers_drop)

text \<open>Subscribing and then dropping the events removes the handlers of every other subscriber too.\<close>

lemma drop_after_reg:
  assumes "\<forall>(n, h) \<in> set xs. valid n"
  shows "handlers (fold drop_event (map fst xs) (fold (\<lambda>(n, h) s. reg n h s) xs s)) m
     = (if m \<in> fst ` set xs then [] else handlers s m)"
proof -
  have "\<forall>n \<in> set (map fst xs). valid n" using assms by auto
  then show ?thesis
    using reg_many [OF assms, of s m]
    by (auto simp: drop_many filter_empty_conv image_iff)
qed

end

definition handlers_of :: "registry \<Rightarrow> string \<Rightarrow> handler list" where
  "handlers_of r n = (case rg_events r n of None \<Rightarrow> [] | Some e \<Rightarrow> ee_handlers e)"

interpretation table: handler_table "\<lambda>n. n \<noteq> []" "\<lambda>n h r. snd (register n h ordered r)"
  "\<lambda>n r. snd (unregister n None r)" handlers_of for ordered
  by unfold_locales
    (auto simp: register_def unregister_def handlers_of_def Let_def split: option.splits)

lemma is_registered_handlers_of:
  "n \<noteq> [] \<Longrightarrow> is_registered n r = Inr (handlers_of r n \<noteq> [])"
  by (simp add: is_registered_def handlers_of_def split: option.split)

lemma register_keeps_ordered:
  "rg_events r n = Some e \<Longrightarrow> n \<noteq> [] \<Longrightarrow>
   rg_events (snd (register n h ordered r)) n
     = Some (e\<lparr>ee_handlers := ee_handlers e @ [h]\<rparr>)"
  by (simp add: register_def)

text \<open>Removing one handler keeps the order of the others and leaves no copy of it.\<close>

lemma unregister_handler:
  "n \<noteq> [] \<Longrightarrow> handlers_of (snd (unregister n (Some h) r)) m =
     (if m = n then filter (\<lambda>k. k \<noteq> h) (handlers_of r n) else handlers_of r m)"
  by (auto simp: unregister_def handlers_of_def split: option.splits)

text \<open>
  An event fired to a registry reaches the handlers registered at that moment:
  registering, removing and resetting afterwards leave the queued dispatch as it was, and an
  event with no handler is dropped without an error.
\<close>

theorem fire_snapshots_handlers:
  "n \<noteq> [] \<Longrightarrow>
   fst (fire n p r) = Inr () \<and>
   rg_queue (snd (fire n p r)) = rg_queue r @
     (if handlers_of r n = [] then []
      else [Dispatch n (handlers_of r n)
              (case rg_events r n of None \<Rightarrow> False | Some e \<Rightarrow> ee_ordered e)
              \<lparr> ea_event = n, ea_payload = p \<rparr>]) \<and>
   rg_queue (snd (register m h ordered (snd (fire n p r)))) = rg_queue (snd (fire n p r)) \<and>
   rg_queue (snd (unregister m target (snd (fire n p r)))) = rg_queue (snd (fire n p r)) \<and>
   rg_queue (reset (snd (fire n p r))) = rg_queue (snd (fire n p r))"
  by (auto simp: fire_def handlers_of_def register_def unregister_def reset_def Let_def
      split: option.splits)

theorem fire_snapshots_handlers_witness:
  "rg_queue (snd (unregister ''test_started'' None (snd (fire ''test_started'' P_None
       (snd (register ''test_started'' 7 True registry_new))))))
   = [Dispatch ''test_started'' [7] True \<lparr> ea_event = ''test_started'', ea_payload = P_None \<rparr>]"
  using fire_snapshots_handlers [of "''test_started''" P_None
      "snd (register ''test_started'' 7 True registry_new)" "''test_started''" 0 False None]
  by (simp add: register_def registry_new_def handlers_of_def INTERNAL_ERROR_def)

end
