(* ===== verification/Rust_Async.thy ===== *)
theory Rust_Async
  imports Core_Types
begin

text \<open>
  Futures as the program meets them: an operation on a state completes after some time with a
  value and a new state; a caller that gives up earlier (\<open>tokio::time::timeout\<close>, a cancelled
  task) drops it and leaves whatever state the operation has reached by then. Times are
  nanoseconds, as in \<open>Duration\<close>.
\<close>

record ('a, 's) future =
  fut_time :: nat
  fut_value :: 'a
  fut_done :: 's
  fut_dropped :: "nat \<Rightarrow> 's"

text \<open>\<open>fut.await\<close>.\<close>

definition await :: "('a, 's) future \<Rightarrow> 'a \<times> 's" where
  "await f = (fut_value f, fut_done f)"

text \<open>\<open>timeout(d, fut).await\<close>: \<open>None\<close> is \<open>Err(Elapsed)\<close>.\<close>

definition await_timeout :: "nat \<Rightarrow> ('a, 's) future \<Rightarrow> 'a option \<times> 's" where
  "await_timeout d f =
     (if fut_time f \<le> d then (Some (fut_value f), fut_done f) else (None, fut_dropped f d))"

text \<open>A future that is ready at once.\<close>

definition ready :: "'a \<Rightarrow> 's \<Rightarrow> ('a, 's) future" where
  "ready x s = \<lparr> fut_time = 0, fut_value = x, fut_done = s, fut_dropped = \<lambda>_. s \<rparr>"

lemma await_ready [simp]: "await (ready x s) = (x, s)"
  by (simp add: await_def ready_def)

lemma await_timeout_ready [simp]: "await_timeout d (ready x s) = (Some x, s)"
  by (simp add: await_timeout_def ready_def)

lemma await_timeout_cases:
  "await_timeout d f = (Some (fut_value f), fut_done f) \<or> await_timeout d f = (None, fut_dropped f d)"
  by (simp add: await_timeout_def)

text \<open>
  \<open>Duration::from_secs_f64\<close>, for a finite positive number of seconds: nanoseconds, rounded to
  the nearest one.
\<close>

fun duration_ns :: "f64 \<Rightarrow> nat" where
  "duration_ns (F64_Fin q) = nat \<lfloor>q * 1000000000 + 1 / 2\<rfloor>"
| "duration_ns _ = 0"

abbreviation seconds :: "nat \<Rightarrow> nat" where
  "seconds n \<equiv> n * 1000000000"

abbreviation millis :: "nat \<Rightarrow> nat" where
  "millis n \<equiv> n * 1000000"

end
