(* ===== verification/Com.thy ===== *)
theory Com
  imports Rust_Async
begin

text \<open>
  Crate \<open>kirk-com\<close>: the result of a command, the operations of a communication channel (trait
  \<open>ComChannel\<close>, a record of functions over the channel's state), the retrying
  \<open>ensure_communicate\<close> every channel inherits, and the in-process registry.
\<close>

record cmd_result =
  cr_command :: string
  cr_returncode :: int
  cr_stdout :: string
  cr_exec_time :: f64

record 's com_channel =
  cc_name :: "'s \<Rightarrow> string"
  cc_parallel_execution :: "'s \<Rightarrow> bool"
  cc_active :: "'s \<Rightarrow> bool"
  cc_communicate :: "'s \<Rightarrow> unit result \<times> 's"
  cc_stop :: "'s \<Rightarrow> unit result \<times> 's"
  cc_ping :: "'s \<Rightarrow> f64 result \<times> 's"
  cc_run_command ::
    "string \<Rightarrow> string option \<Rightarrow> str_map option \<Rightarrow> 's \<Rightarrow> (cmd_result option result, 's) future"
  cc_fetch_file :: "string \<Rightarrow> 's \<Rightarrow> string result \<times> 's"
  cc_clone :: "string \<Rightarrow> 's \<Rightarrow> 's"
  cc_concurrent_handle :: "'s \<Rightarrow> 's option"

section \<open>Retrying communication\<close>

function ensure_loop ::
  "('s \<Rightarrow> unit result \<times> 's) \<Rightarrow> ('s \<Rightarrow> unit result \<times> 's) \<Rightarrow> nat \<Rightarrow> nat \<Rightarrow> 's
     \<Rightarrow> unit result \<times> 's" where
  "ensure_loop communicate stop attempt attempts s =
     (if attempt < attempts then
        (case communicate s of
           (Inr _, s1) \<Rightarrow> (Ok (), s1)
         | (Inl err, s1) \<Rightarrow>
             (if attempts \<le> attempt + 1 then (Err err, s1)
              else
                (case stop s1 of
                   (Inl err2, s2) \<Rightarrow> (Err err2, s2)
                 | (Inr _, s2) \<Rightarrow> ensure_loop communicate stop (attempt + 1) attempts s2)))
      else (Ok (), s))"
  by pat_completeness auto
termination
  by (relation "measure (\<lambda>(c, t, attempt, attempts, s). attempts - attempt)") auto

declare ensure_loop.simps [simp del]

definition ensure_communicate ::
  "('s \<Rightarrow> unit result \<times> 's) \<Rightarrow> ('s \<Rightarrow> unit result \<times> 's) \<Rightarrow> nat \<Rightarrow> 's \<Rightarrow> unit result \<times> 's" where
  "ensure_communicate communicate stop retries s = ensure_loop communicate stop 0 (max retries 1) s"

text \<open>Success always is the success of a call of \<open>communicate\<close>.\<close>

lemma ensure_loop_Ok:
  "attempt < attempts \<Longrightarrow> ensure_loop c t attempt attempts s = (Inr u, s') \<Longrightarrow>
   \<exists>s0 v. c s0 = (Inr v, s')"
proof (induction c t attempt attempts s rule: ensure_loop.induct)
  case (1 c t attempt attempts s)
  obtain r s1 where c: "c s = (r, s1)" by fastforce
  show ?case
  proof (cases r)
    case (Inr v)
    with "1.prems" c show ?thesis by (subst (asm) ensure_loop.simps) auto
  next
    case (Inl e)
    show ?thesis
    proof (cases "attempts \<le> attempt + 1")
      case True
      with "1.prems" c Inl show ?thesis by (subst (asm) ensure_loop.simps) simp
    next
      case False
      obtain r2 s2 where t: "t s1 = (r2, s2)" by fastforce
      with "1.prems" c Inl False obtain u2 where "r2 = Inr u2"
        and "ensure_loop c t (attempt + 1) attempts s2 = (Inr u, s')"
        by (subst (asm) ensure_loop.simps) (auto split: sum.splits)
      with "1.IH" "1.prems"(1) c t Inl False show ?thesis by force
    qed
  qed
qed

text \<open>
  What failures leave behind: the states a channel can be in after some failed attempts, each
  followed by a clean stop.
\<close>

fun after_failures ::
  "('s \<Rightarrow> unit result \<times> 's) \<Rightarrow> ('s \<Rightarrow> unit result \<times> 's) \<Rightarrow> nat \<Rightarrow> 's \<Rightarrow> 's option" where
  "after_failures c t 0 s = Some s"
| "after_failures c t (Suc n) s =
     (case c s of
        (Inr _, _) \<Rightarrow> None
      | (Inl _, s1) \<Rightarrow>
          (case t s1 of (Inl _, _) \<Rightarrow> None | (Inr _, s2) \<Rightarrow> after_failures c t n s2))"

lemma ensure_loop_after_failures:
  "after_failures c t n s = Some s1 \<Longrightarrow> attempt + n < attempts \<Longrightarrow>
   ensure_loop c t attempt attempts s = ensure_loop c t (attempt + n) attempts s1"
proof (induction n arbitrary: attempt s)
  case 0
  then show ?case by simp
next
  case (Suc n)
  then obtain e s2 u s3 where c: "c s = (Inl e, s2)" and t: "t s2 = (Inr u, s3)"
    and rest: "after_failures c t n s3 = Some s1"
    by (auto split: prod.splits sum.splits)
  have "ensure_loop c t attempt attempts s = ensure_loop c t (attempt + 1) attempts s3"
    using Suc.prems(2) c t by (subst ensure_loop.simps) simp
  also have "\<dots> = ensure_loop c t (attempt + 1 + n) attempts s1"
    using Suc.IH [OF rest, of "attempt + 1"] Suc.prems(2) by simp
  finally show ?case by simp
qed

section \<open>The lifecycle contract\<close>

text \<open>
  What the SUT layer relies on: a channel that started is active, a stopped one is not, starting
  an active channel is refused without effect and stopping an inactive one is a no-op.
\<close>

locale lifecycle =
  fixes active :: "'s \<Rightarrow> bool"
    and communicate :: "'s \<Rightarrow> unit result \<times> 's"
    and stop :: "'s \<Rightarrow> unit result \<times> 's"
  assumes communicate_Ok: "communicate s = (Inr u, s') \<Longrightarrow> active s'"
    and communicate_active: "active s \<Longrightarrow> \<exists>e. communicate s = (Inl e, s)"
    and stop_Ok: "stop s = (Inr u, s') \<Longrightarrow> \<not> active s'"
    and stop_inactive: "\<not> active s \<Longrightarrow> stop s = (Inr (), s)"
begin

lemma ensure_Ok_active:
  "ensure_communicate communicate stop retries s = (Inr u, s') \<Longrightarrow> active s'"
  unfolding ensure_communicate_def
  by (drule ensure_loop_Ok [rotated]) (auto dest: communicate_Ok)

text \<open>Retrying on a channel that is already active costs one stop and then starts it again.\<close>

lemma ensure_active_restarts:
  assumes "active s" and "stop s = (Inr u, s1)" and "communicate s1 = (Inr v, s2)" and "2 \<le> retries"
  shows "ensure_communicate communicate stop retries s = (Inr (), s2)"
proof -
  from communicate_active [OF assms(1)] obtain e where e: "communicate s = (Inl e, s)" by blast
  have "after_failures communicate stop 1 s = Some s1"
    using e assms(2) by (simp add: One_nat_def)
  then have "ensure_loop communicate stop 0 (max retries 1) s
      = ensure_loop communicate stop 1 (max retries 1) s1"
    using ensure_loop_after_failures [of communicate stop 1 s s1 0] assms(4) by simp
  also have "\<dots> = (Inr (), s2)"
    using assms(3,4) by (subst ensure_loop.simps) (auto simp: max_def)
  finally show ?thesis by (simp add: ensure_communicate_def)
qed

end

section \<open>The channel registry\<close>

type_synonym 's com_registry = "'s list"

definition com_registry_new :: "'s com_registry" where
  "com_registry_new = []"

definition com_register :: "'s \<Rightarrow> 's com_registry \<Rightarrow> 's com_registry" where
  "com_register channel reg = reg @ [channel]"

definition com_names :: "'s com_channel \<Rightarrow> 's com_registry \<Rightarrow> string list" where
  "com_names C reg = map (cc_name C) reg"

definition find_channel :: "'s com_channel \<Rightarrow> string \<Rightarrow> 's com_registry \<Rightarrow> 's option" where
  "find_channel C name reg = find (\<lambda>ch. cc_name C ch = name) reg"

definition clone_channel ::
  "'s com_channel \<Rightarrow> string \<Rightarrow> string \<Rightarrow> 's com_registry \<Rightarrow> unit result \<times> 's com_registry" where
  "clone_channel C name new_name reg =
     (case find_channel C name reg of
        None \<Rightarrow> (Err (PluginE (''Can't find plugin '' @ [CHR 0x27] @ name @ [CHR 0x27])), reg)
      | Some ch \<Rightarrow> (Ok (), reg @ [cc_clone C new_name ch]))"

lemma find_channel_name: "find_channel C name reg = Some ch \<Longrightarrow> cc_name C ch = name \<and> ch \<in> set reg"
  by (auto simp: find_channel_def find_Some_iff)

lemma find_channel_None: "find_channel C name reg = None \<longleftrightarrow> name \<notin> set (com_names C reg)"
  by (auto simp: find_channel_def find_None_iff com_names_def)

text \<open>
  Cloning a channel succeeds exactly when a channel of that name is registered; it then
  appends one channel that answers to the new name and leaves the others, and the lookups that
  already succeeded, as they were. A failed clone changes nothing.
\<close>

theorem clone_channel_spec:
  assumes "\<forall>n ch. cc_name C (cc_clone C n ch) = n"
  shows "(fst (clone_channel C name new_name reg) = Inr () \<longleftrightarrow> name \<in> set (com_names C reg)) \<and>
     com_names C (snd (clone_channel C name new_name reg)) =
       com_names C reg @ (if name \<in> set (com_names C reg) then [new_name] else []) \<and>
     (\<forall>other ch. find_channel C other reg = Some ch \<longrightarrow>
        find_channel C other (snd (clone_channel C name new_name reg)) = Some ch)"
proof (cases "find_channel C name reg")
  case None
  then show ?thesis
    using find_channel_None [of C name reg] by (simp add: clone_channel_def)
next
  case (Some ch)
  then have "name \<in> set (com_names C reg)"
    using find_channel_None [of C name reg] by auto
  moreover have "find_channel C other (reg @ [x]) = Some y"
    if "find_channel C other reg = Some y" for other x y
    using that by (induction reg) (auto simp: find_channel_def)
  ultimately show ?thesis
    using Some assms by (auto simp: clone_channel_def com_names_def)
qed

end
