(* ===== verification/Plugin.thy ===== *)
theory Plugin
  imports Com
begin

text \<open>
  Crate \<open>kirk-plugin\<close>: the trait every channel and every SUT implements, as a record of its
  operations, and what its users rely on, as a locale. A help map is the list of its entries. The
  locale is interpreted on each implementation, in the theory of that implementation; its client is
  the command line, which makes the instances of a session from templates.
\<close>

section \<open>The trait\<close>

record 'p plugin_ops =
  pl_name :: "'p \<Rightarrow> string"
  pl_config_help :: "'p \<Rightarrow> (string \<times> string) list"
  pl_setup :: "str_map \<Rightarrow> 'p \<Rightarrow> unit result \<times> 'p"
  pl_clone_box :: "string \<Rightarrow> 'p \<Rightarrow> 'p"

text \<open>How a template becomes an instance: it is copied under the new name and the copy is set up.\<close>

definition new_instance :: "'p plugin_ops \<Rightarrow> str_map \<Rightarrow> string \<Rightarrow> 'p \<Rightarrow> 'p result" where
  "new_instance P cfg name template =
     (case pl_setup P cfg (pl_clone_box P name template) of
        (Inl e, _) \<Rightarrow> Err e
      | (Inr _, q) \<Rightarrow> Ok q)"

text \<open>What a plugin can have become by copies and set-ups, failed ones included.\<close>

inductive derived :: "'p plugin_ops \<Rightarrow> 'p \<Rightarrow> 'p \<Rightarrow> bool" for P :: "'p plugin_ops" and p :: 'p where
  derived_refl: "derived P p p"
| derived_clone: "derived P p q \<Longrightarrow> derived P p (pl_clone_box P name q)"
| derived_setup: "derived P p q \<Longrightarrow> derived P p (snd (pl_setup P cfg q))"

lemma new_instance_derived:
  assumes "derived P p q" and "new_instance P cfg name q = Ok r"
  shows "derived P p r"
proof -
  from assms(2) have "r = snd (pl_setup P cfg (pl_clone_box P name q))"
    by (auto simp: new_instance_def split: prod.splits sum.splits)
  then show ?thesis using assms(1) by (simp add: derived_clone derived_setup)
qed

section \<open>The contract\<close>

text \<open>
  A copy answers to its new name and keeps the help of what it copies. Setting up keeps name and
  help, changes nothing when it fails, and reads the parameters of the help and those the program
  adds, \<open>added\<close>. A copy forgets everything that setting it up anew would decide.
\<close>

locale plugin_contract =
  fixes P :: "'p plugin_ops" and added :: "string set"
  assumes clone_name [simp]: "pl_name P (pl_clone_box P n p) = n"
    and clone_help [simp]: "pl_config_help P (pl_clone_box P n p) = pl_config_help P p"
    and clone_again [simp]: "pl_clone_box P n (pl_clone_box P m p) = pl_clone_box P n p"
    and setup_name [simp]: "pl_name P (snd (pl_setup P cfg p)) = pl_name P p"
    and setup_help [simp]: "pl_config_help P (snd (pl_setup P cfg p)) = pl_config_help P p"
    and setup_refused: "fst (pl_setup P cfg p) = Inl e \<Longrightarrow> snd (pl_setup P cfg p) = p"
    and setup_reads:
      "\<forall>key \<in> added \<union> fst ` set (pl_config_help P p). cfg key = cfg' key \<Longrightarrow> pl_setup P cfg p = pl_setup P cfg' p"
    and setup_forgets: "new_instance P cfg n (snd (pl_setup P cfg' p)) = new_instance P cfg n p"
begin

lemma instance_facts:
  assumes "new_instance P cfg n p = Ok q"
  shows "pl_name P q = n" and "pl_config_help P q = pl_config_help P p"
proof -
  from assms have "q = snd (pl_setup P cfg (pl_clone_box P n p))"
    by (auto simp: new_instance_def split: prod.splits sum.splits)
  then show "pl_name P q = n" and "pl_config_help P q = pl_config_help P p" by simp_all
qed

lemma derived_help: "derived P p q \<Longrightarrow> pl_config_help P q = pl_config_help P p"
  by (induction rule: derived.induct) simp_all

text \<open>Whatever was done to a template, an instance made from it is the one made from the original.\<close>

lemma instance_of_derived: "derived P p q \<Longrightarrow> new_instance P cfg n q = new_instance P cfg n p"
proof (induction rule: derived.induct)
  case (derived_clone q m)
  then show ?case by (simp add: new_instance_def)
qed (simp_all add: setup_forgets)

lemma instance_reads:
  assumes "\<forall>key \<in> added \<union> fst ` set (pl_config_help P p). cfg key = cfg' key"
  shows "new_instance P cfg n p = new_instance P cfg' n p"
  using setup_reads [of "pl_clone_box P n p" cfg cfg'] assms by (simp add: new_instance_def)

end

end
