(* ===== verification/Shell_Channel.thy ===== *)
theory Shell_Channel
  imports Plugin
begin

text \<open>
  Crate \<open>kirk-com-shell\<close>: the local shell channel. Its state is the active flag and the pids of
  the running commands, both under one lock; the operations are the lifecycle, the tracking of
  children, the read loop with its output cap and panic scan, and the result of a command. The
  races between \<open>stop\<close>, cancellation and the start of a command are a step relation over the
  channel and its processes.
\<close>

definition MAX_OUTPUT_BYTES :: nat where
  "MAX_OUTPUT_BYTES = 8 * 1024 * 1024"

definition KERNEL_PANIC_MARKER :: string where
  "KERNEL_PANIC_MARKER = ''Kernel panic''"

section \<open>Lifecycle and tracking\<close>

record shell =
  sh_name :: string
  sh_active :: bool
  sh_pids :: "nat list"
  sh_killed :: "nat list" \<comment> \<open>process groups signalled so far: history\<close>

definition shell_new :: shell where
  "shell_new = \<lparr> sh_name = ''shell'', sh_active = False, sh_pids = [], sh_killed = [] \<rparr>"

text \<open>\<open>clone_channel_box\<close>: an independent inactive instance.\<close>

definition shell_clone :: "string \<Rightarrow> shell \<Rightarrow> shell" where
  "shell_clone name s = \<lparr> sh_name = name, sh_active = False, sh_pids = [], sh_killed = [] \<rparr>"

definition kill_process_group :: "nat \<Rightarrow> shell \<Rightarrow> shell" where
  "kill_process_group pid s =
     (if in_i32 (int pid) then s\<lparr>sh_killed := sh_killed s @ [pid]\<rparr> else s)"

definition try_register :: "nat \<Rightarrow> shell \<Rightarrow> bool \<times> shell" where
  "try_register pid s =
     (if \<not> sh_active s then (False, s) else (True, s\<lparr>sh_pids := sh_pids s @ [pid]\<rparr>))"

definition unregister_pid :: "nat \<Rightarrow> shell \<Rightarrow> shell" where
  "unregister_pid pid s = s\<lparr>sh_pids := filter (\<lambda>p. p \<noteq> pid) (sh_pids s)\<rparr>"

text \<open>Dropping the guard \<open>TrackedProcess\<close>: tracking ends, and an armed guard kills the group.\<close>

definition drop_tracked :: "bool \<Rightarrow> nat \<Rightarrow> shell \<Rightarrow> shell" where
  "drop_tracked armed pid s =
     (let s1 = unregister_pid pid s in if armed then kill_process_group pid s1 else s1)"

definition shell_communicate :: "shell \<Rightarrow> unit result \<times> shell" where
  "shell_communicate s =
     (if sh_active s then (Err (CommunicationE ''Shell is running''), s)
      else (Ok (), s\<lparr>sh_active := True\<rparr>))"

definition shell_stop :: "shell \<Rightarrow> unit result \<times> shell" where
  "shell_stop s =
     (if \<not> sh_active s then (Ok (), s)
      else (Ok (), fold kill_process_group (sh_pids s) (s\<lparr>sh_active := False, sh_pids := []\<rparr>)))"

lemma kill_frame [simp]:
  "sh_active (kill_process_group p s) = sh_active s"
  "sh_pids (kill_process_group p s) = sh_pids s"
  "sh_name (kill_process_group p s) = sh_name s"
  by (simp_all add: kill_process_group_def)

lemma kill_killed [simp]:
  "set (sh_killed (kill_process_group p s)) = set (sh_killed s) \<union> {q. q = p \<and> in_i32 (int q)}"
  by (auto simp: kill_process_group_def)

lemma kill_all_frame [simp]:
  "sh_active (fold kill_process_group ps s) = sh_active s"
  "sh_pids (fold kill_process_group ps s) = sh_pids s"
  by (induction ps arbitrary: s) auto

lemma kill_all_killed:
  "set (sh_killed (fold kill_process_group ps s))
     = set (sh_killed s) \<union> {p \<in> set ps. in_i32 (int p)}"
  by (induction ps arbitrary: s) (auto simp: kill_process_group_def)

interpretation shell: lifecycle sh_active shell_communicate shell_stop
  by unfold_locales (auto simp: shell_communicate_def shell_stop_def split: if_splits)

text \<open>The shell takes any configuration.\<close>

definition shell_setup :: "str_map \<Rightarrow> shell \<Rightarrow> unit result \<times> shell" where
  "shell_setup cfg s = (Ok (), s)"

definition shell_plugin :: "shell plugin_ops" where
  "shell_plugin =
     \<lparr> pl_name = sh_name, pl_config_help = \<lambda>_. [], pl_setup = shell_setup, pl_clone_box = shell_clone \<rparr>"

interpretation shell_plugin: plugin_contract shell_plugin "{}"
  by unfold_locales (simp_all add: shell_plugin_def shell_setup_def shell_clone_def new_instance_def)

section \<open>Waiting for the killed processes\<close>

text \<open>
  Waiting for a killed process: every 20 milliseconds (plus what the sleep is late) until it is gone
  or five seconds have passed. \<open>alive\<close> says whether signal 0 still reaches it at a time.
\<close>

function exit_poll :: "(nat \<Rightarrow> bool) \<Rightarrow> (nat \<Rightarrow> nat) \<Rightarrow> nat \<Rightarrow> nat \<Rightarrow> nat \<Rightarrow> nat" where
  "exit_poll alive late pid deadline now =
     (if now < deadline \<and> in_i32 (int pid) \<and> alive now
      then exit_poll alive late pid deadline (now + millis 20 + late now) else now)"
  by pat_completeness auto
termination
  by (relation "measure (\<lambda>(alive, late, pid, deadline, now). deadline - now)") auto

declare exit_poll.simps [simp del]

definition wait_for_exit :: "(nat \<Rightarrow> bool) \<Rightarrow> (nat \<Rightarrow> nat) \<Rightarrow> nat \<Rightarrow> nat \<Rightarrow> nat" where
  "wait_for_exit alive late pid now = exit_poll alive late pid (now + seconds 5) now"

text \<open>The waits of \<open>stop\<close> run side by side and are joined: it ends with the last of them.\<close>

definition stop_waits :: "(nat \<Rightarrow> nat \<Rightarrow> bool) \<Rightarrow> (nat \<Rightarrow> nat) \<Rightarrow> nat \<Rightarrow> shell \<Rightarrow> nat" where
  "stop_waits alive late now s =
     (if \<not> sh_active s then now
      else foldr max (map (\<lambda>pid. wait_for_exit (alive pid) late pid now) (sh_pids s)) now)"

lemma exit_poll_start: "now \<le> exit_poll alive late pid deadline now"
proof (induction alive late pid deadline now rule: exit_poll.induct)
  case (1 alive late pid deadline now)
  then show ?case by (subst exit_poll.simps) force
qed

text \<open>From \<open>goal\<close> on there is nothing to wait for: then one sleep more at most.\<close>

lemma exit_poll_bound:
  assumes "\<forall>t. late t \<le> d" and "now < goal + millis 20 + d"
    and "\<forall>t\<ge>goal. deadline \<le> t \<or> \<not> in_i32 (int pid) \<or> \<not> alive t"
  shows "exit_poll alive late pid deadline now < goal + millis 20 + d"
  using assms
proof (induction alive late pid deadline now rule: exit_poll.induct)
  case (1 alive late pid deadline now)
  show ?case
  proof (cases "now < deadline \<and> in_i32 (int pid) \<and> alive now")
    case True
    then have "now < goal" using 1(4) by (meson not_le)
    moreover have "late now \<le> d" using 1(2) by blast
    ultimately have "now + millis 20 + late now < goal + millis 20 + d" by linarith
    then show ?thesis using 1(1) [OF True 1(2) _ 1(4)] True by (subst exit_poll.simps) simp
  next
    case False
    then show ?thesis using 1(3) by (subst exit_poll.simps) auto
  qed
qed

lemma exit_poll_over:
  assumes "exit_poll alive late pid deadline now < deadline" and "in_i32 (int pid)"
  shows "\<not> alive (exit_poll alive late pid deadline now)"
  using assms
proof (induction alive late pid deadline now rule: exit_poll.induct)
  case (1 alive late pid deadline now)
  show ?case
  proof (cases "now < deadline \<and> alive now")
    case True
    then show ?thesis using 1 by (subst exit_poll.simps, subst (asm) exit_poll.simps) simp
  next
    case False
    then show ?thesis using 1 by (subst exit_poll.simps, subst (asm) exit_poll.simps) auto
  qed
qed

lemma exit_poll_limit:
  assumes "\<forall>t. late t \<le> d"
  shows "exit_poll alive late pid (now + seconds 5) now < now + seconds 5 + millis 20 + d"
  by (rule exit_poll_bound [OF assms]) auto

text \<open>
  Claim C4: a stop of the shell waits no longer than it has to. With sleeps that are at most
  \<open>d\<close> late it ends within five seconds and one sleep, however many processes it has killed; if they
  are all gone at a time, it ends within one sleep of it; and a process that still answers when it
  ends has been given the five seconds.
\<close>

theorem stop_wait_is_bounded:
  assumes "\<forall>t. late t \<le> d"
  shows "stop_waits alive late now s < now + seconds 5 + millis 20 + d \<and>
    (\<forall>gone\<ge>now. (\<forall>pid\<in>set (sh_pids s). \<forall>t\<ge>gone. \<not> alive pid t) \<longrightarrow>
       stop_waits alive late now s < gone + millis 20 + d) \<and>
    (\<forall>pid\<in>set (sh_pids s). sh_active s \<and> in_i32 (int pid) \<and>
       (\<forall>t\<ge>now. alive pid t) \<longrightarrow> now + seconds 5 \<le> stop_waits alive late now s)"
proof (intro conjI allI ballI impI)
  show "stop_waits alive late now s < now + seconds 5 + millis 20 + d"
    using exit_poll_limit [OF assms]
    by (auto simp: stop_waits_def wait_for_exit_def intro!: foldr_max_less)
next
  fix gone
  assume gone: "now \<le> gone" "\<forall>pid\<in>set (sh_pids s). \<forall>t\<ge>gone. \<not> alive pid t"
  have "wait_for_exit (alive pid) late pid now < gone + millis 20 + d" if "pid \<in> set (sh_pids s)" for pid
    unfolding wait_for_exit_def by (rule exit_poll_bound [OF assms]) (use gone that in auto)
  then show "stop_waits alive late now s < gone + millis 20 + d"
    using gone(1) by (auto simp: stop_waits_def intro!: foldr_max_less)
next
  fix pid
  assume pid: "pid \<in> set (sh_pids s)"
    and live: "sh_active s \<and> in_i32 (int pid) \<and> (\<forall>t\<ge>now. alive pid t)"
  then have "now + seconds 5 \<le> wait_for_exit (alive pid) late pid now"
    using exit_poll_over [of "alive pid" late pid "now + seconds 5" now] exit_poll_start
    unfolding wait_for_exit_def by (meson not_le)
  also have "\<dots> \<le> stop_waits alive late now s"
    using pid live foldr_max_ge [of _ "map (\<lambda>pid. wait_for_exit (alive pid) late pid now) (sh_pids s)"]
    by (simp add: stop_waits_def)
  finally show "now + seconds 5 \<le> stop_waits alive late now s" .
qed

text \<open>Two processes, one of which never goes away.\<close>

lemma stop_wait_is_bounded_witness:
  "let ends = stop_waits (\<lambda>pid t. pid = 7) (\<lambda>_. 0) 1000 (shell_new\<lparr>sh_active := True, sh_pids := [7, 8]\<rparr>)
   in 1000 + seconds 5 \<le> ends \<and> ends < 1000 + seconds 5 + millis 20"
  using stop_wait_is_bounded
    [of "\<lambda>_. 0" 0 "\<lambda>pid t. pid = 7" 1000 "shell_new\<lparr>sh_active := True, sh_pids := [7, 8]\<rparr>"]
  by (simp add: shell_new_def in_i32_def)

section \<open>Reading the output of a command\<close>

text \<open>Only the latest chunk and an overlap of one marker length before it are scanned.\<close>

definition tail_contains_panic :: "string \<Rightarrow> nat \<Rightarrow> bool" where
  "tail_contains_panic text new_bytes =
     (let start = length text - (new_bytes + length KERNEL_PANIC_MARKER);
          start = floor_char_boundary text start
      in contains (drop start text) KERNEL_PANIC_MARKER)"

text \<open>
  The read loop of \<open>run_command\<close>. A chunk is the number of bytes read and their text
  (\<open>from_utf8_lossy\<close> of the bytes). Past the cap the group is killed and the chunks are dropped.
\<close>

record read_state =
  rd_used :: nat
  rd_over_cap :: bool
  rd_saw_panic :: bool
  rd_stdout :: string

definition read_init :: read_state where
  "read_init = \<lparr> rd_used = 0, rd_over_cap = False, rd_saw_panic = False, rd_stdout = [] \<rparr>"

definition read_chunk :: "nat \<times> string \<Rightarrow> read_state \<Rightarrow> read_state" where
  "read_chunk c s =
     (let used = rd_used s + fst c; s1 = s\<lparr>rd_used := used\<rparr>
      in if MAX_OUTPUT_BYTES < used then s1\<lparr>rd_over_cap := True\<rparr>
         else
           (let out = rd_stdout s1 @ snd c
            in s1\<lparr>rd_stdout := out,
                  rd_saw_panic := rd_saw_panic s1 \<or> tail_contains_panic out (length (snd c))\<rparr>))"

definition read_loop :: "(nat \<times> string) list \<Rightarrow> read_state" where
  "read_loop chunks = fold read_chunk chunks read_init"

text \<open>An exit status is a code or a signal (or, in theory, neither).\<close>

record exit_status =
  es_code :: "int option"
  es_signal :: "int option"

definition exit_code :: "exit_status \<Rightarrow> int" where
  "exit_code st =
     (case es_code st of
        Some c \<Rightarrow> c
      | None \<Rightarrow> (case es_signal st of Some sig \<Rightarrow> - sig | None \<Rightarrow> - 1))"

definition command_outcome ::
  "string \<Rightarrow> (nat \<times> string) list \<Rightarrow> exit_status \<Rightarrow> f64 \<Rightarrow> cmd_result option result" where
  "command_outcome command chunks st exec_time =
     (let s = read_loop chunks
      in if rd_saw_panic s then Err (KernelPanicE ''kernel panic detected in command output'')
         else if rd_over_cap s then
           Err (CommunicationE (''command output exceeds '' @ show_nat MAX_OUTPUT_BYTES @ '' byte cap''))
         else Ok (Some \<lparr> cr_command = command, cr_returncode = exit_code st,
                         cr_stdout = rd_stdout s, cr_exec_time = exec_time \<rparr>))"

subsection \<open>The overlap scan finds every marker\<close>

lemma sublist_suffix_sublist: "suffix y x \<Longrightarrow> sublist p y \<Longrightarrow> sublist p x"
  by (meson sublist_order.order_trans suffix_imp_sublist)

lemma sublist_append_overlap:
  assumes "p \<noteq> []" and "k + length p \<le> length t + 1"
  shows "sublist p (t @ c) \<longleftrightarrow> sublist p t \<or> sublist p (drop k t @ c)"
proof
  assume "sublist p (t @ c)"
  then consider "sublist p t" | "sublist p c"
    | ps qs where "p = ps @ qs" "suffix ps t" "prefix qs c"
    by (auto simp: sublist_append)
  then show "sublist p t \<or> sublist p (drop k t @ c)"
  proof cases
    case 3
    show ?thesis
    proof (cases "qs = []")
      case True
      with 3 show ?thesis by (simp add: suffix_imp_sublist)
    next
      case False
      then have "length ps < length p" using 3 by simp
      then have "length ps \<le> length (drop k t)" using assms(2) by simp
      moreover have "suffix (drop k t) t" by (rule suffix_drop)
      ultimately have "suffix ps (drop k t)"
        using 3(2) suffix_length_suffix by blast
      with 3 show ?thesis by (auto simp: sublist_append)
    qed
  qed (auto simp: sublist_append)
next
  assume "sublist p t \<or> sublist p (drop k t @ c)"
  moreover have "suffix (drop k t @ c) (t @ c)" by (simp add: suffix_drop)
  ultimately show "sublist p (t @ c)"
    by (metis sublist_appendI append.left_neutral sublist_def sublist_suffix_sublist
        sublist_append)
qed

lemma tail_scan:
  "sublist KERNEL_PANIC_MARKER t \<or> tail_contains_panic (t @ c) (length c)
     \<longleftrightarrow> sublist KERNEL_PANIC_MARKER (t @ c)"
proof -
  let ?m = KERNEL_PANIC_MARKER
  define start where
    "start = floor_char_boundary (t @ c) (length (t @ c) - (length c + length ?m))"
  have start: "start \<le> length t - length ?m"
    using floor_char_boundary_le [of "t @ c" "length (t @ c) - (length c + length ?m)"]
    by (simp add: start_def)
  then have "drop start (t @ c) = drop start t @ c" by simp
  then have tail: "tail_contains_panic (t @ c) (length c) \<longleftrightarrow> sublist ?m (drop start t @ c)"
    by (simp add: tail_contains_panic_def Let_def start_def contains_sublist)
  show ?thesis
  proof (cases "length ?m \<le> length t + 1")
    case True
    with start have "start + length ?m \<le> length t + 1" by linarith
    then show ?thesis
      using sublist_append_overlap [of ?m start t c] tail by (auto simp: KERNEL_PANIC_MARKER_def)
  next
    case False
    with start have "start = 0" by simp
    moreover have "\<not> sublist ?m t" using False sublist_length_le [of ?m t] by auto
    ultimately show ?thesis using tail by simp
  qed
qed

text \<open>The chunks that fit under the cap, counted by the bytes read.\<close>

fun kept_chunks :: "nat \<Rightarrow> (nat \<times> string) list \<Rightarrow> string" where
  "kept_chunks used [] = []"
| "kept_chunks used ((n, text) # cs) =
     (if MAX_OUTPUT_BYTES < used + n then kept_chunks (used + n) cs
      else text @ kept_chunks (used + n) cs)"

lemma read_fold:
  "rd_saw_panic s = sublist KERNEL_PANIC_MARKER (rd_stdout s) \<Longrightarrow>
   fold read_chunk cs s =
     \<lparr> rd_used = rd_used s + sum_list (map fst cs),
       rd_over_cap = (rd_over_cap s \<or>
         (\<exists>i < length cs. MAX_OUTPUT_BYTES < rd_used s + sum_list (map fst (take (Suc i) cs)))),
       rd_saw_panic = sublist KERNEL_PANIC_MARKER (rd_stdout s @ kept_chunks (rd_used s) cs),
       rd_stdout = rd_stdout s @ kept_chunks (rd_used s) cs \<rparr>"
proof (induction cs arbitrary: s)
  case Nil
  then show ?case by (cases s) simp
next
  case (Cons c cs)
  obtain n tx where c: "c = (n, tx)" by fastforce
  have panic: "rd_saw_panic (read_chunk c s) = sublist KERNEL_PANIC_MARKER (rd_stdout (read_chunk c s))"
    using Cons.prems tail_scan [of "rd_stdout s" tx] by (simp add: read_chunk_def Let_def c)
  have ex: "(\<exists>i < length (c # cs). MAX_OUTPUT_BYTES < u + sum_list (map fst (take (Suc i) (c # cs))))
     \<longleftrightarrow> MAX_OUTPUT_BYTES < u + n \<or>
         (\<exists>i < length cs. MAX_OUTPUT_BYTES < (u + n) + sum_list (map fst (take (Suc i) cs)))" for u
    by (simp add: c Ex_less_Suc2 add.assoc)
  have step: "fold read_chunk (c # cs) s = fold read_chunk cs (read_chunk c s)" by simp
  show ?case
    unfolding step Cons.IH [OF panic] ex
    by (simp add: read_chunk_def Let_def c)
qed

text \<open>
  However the output of a command is cut into chunks, \<open>Kernel panic\<close> is reported
  exactly when the text kept under the cap contains the marker, chunk boundaries included; output
  past the cap is an error, and otherwise the result carries the whole output and the exit code.
\<close>

theorem command_outcome_spec:
  "command_outcome command chunks st exec_time =
     (let out = kept_chunks 0 chunks
      in if sublist ''Kernel panic'' out
           then Inl (KernelPanicE ''kernel panic detected in command output'')
         else if MAX_OUTPUT_BYTES < sum_list (map fst chunks)
           then Inl (CommunicationE ''command output exceeds 8388608 byte cap'')
         else Inr (Some \<lparr> cr_command = command, cr_returncode = exit_code st,
                          cr_stdout = concat (map snd chunks), cr_exec_time = exec_time \<rparr>))"
proof -
  have init: "rd_saw_panic read_init = sublist KERNEL_PANIC_MARKER (rd_stdout read_init)"
    by (simp add: read_init_def KERNEL_PANIC_MARKER_def)
  have cap: "(\<exists>i < length chunks. MAX_OUTPUT_BYTES < sum_list (map fst (take (Suc i) chunks)))
     \<longleftrightarrow> MAX_OUTPUT_BYTES < sum_list (map fst chunks)"
  proof
    assume "\<exists>i < length chunks. MAX_OUTPUT_BYTES < sum_list (map fst (take (Suc i) chunks))"
    then obtain i where "MAX_OUTPUT_BYTES < sum_list (map fst (take (Suc i) chunks))" by blast
    also have "\<dots> \<le> sum_list (map fst (take (Suc i) chunks @ drop (Suc i) chunks))"
      by (simp only: map_append sum_list_append)
    finally show "MAX_OUTPUT_BYTES < sum_list (map fst chunks)" by simp
  next
    assume big: "MAX_OUTPUT_BYTES < sum_list (map fst chunks)"
    then have "chunks \<noteq> []" by auto
    with big show "\<exists>i < length chunks. MAX_OUTPUT_BYTES < sum_list (map fst (take (Suc i) chunks))"
      by (intro exI [of _ "length chunks - 1"]) simp
  qed
  have keep: "u + sum_list (map fst cs) \<le> MAX_OUTPUT_BYTES \<Longrightarrow> kept_chunks u cs = concat (map snd cs)"
    for u cs
    by (induction u cs rule: kept_chunks.induct) auto
  have msg: "show_nat MAX_OUTPUT_BYTES = ''8388608''"
    by (simp add: MAX_OUTPUT_BYTES_def show_nat.simps digit_char_def) code_simp
  show ?thesis
    using read_fold [OF init, of chunks] cap keep [of 0 chunks]
    by (simp add: command_outcome_def read_loop_def Let_def msg read_init_def
        KERNEL_PANIC_MARKER_def not_less)
qed

section \<open>The channel operations\<close>

text \<open>
  What the operating system answers, as parameters: a spawned process is a pid, its output in
  chunks, its exit status and the time it took; a file is its size and its contents.
\<close>

record process =
  pr_pid :: nat
  pr_chunks :: "(nat \<times> string) list"
  pr_status :: exit_status
  pr_time :: nat
  pr_elapsed :: f64

record os =
  os_spawn :: "string \<Rightarrow> string option \<Rightarrow> str_map option \<Rightarrow> string + process"
  os_metadata :: "string \<Rightarrow> string + nat"
  os_is_file :: "string \<Rightarrow> bool"
  os_read :: "string \<Rightarrow> string + string"

definition MAX_FETCH_BYTES :: nat where
  "MAX_FETCH_BYTES = 64 * 1024 * 1024"

definition fetch_cap_error :: "string \<Rightarrow> kirk_error" where
  "fetch_cap_error path = CommunicationE
     (''file '' @ quoted path @ '' exceeds '' @ show_nat MAX_FETCH_BYTES @ '' byte fetch cap'')"

definition read_capped :: "os \<Rightarrow> string \<Rightarrow> string result" where
  "read_capped os path =
     (case os_metadata os path of
        Inl err \<Rightarrow> Err (CommunicationE err)
      | Inr len \<Rightarrow>
          if MAX_FETCH_BYTES < len then Err (fetch_cap_error path)
          else
            (case os_read os path of
               Inl err \<Rightarrow> Err (CommunicationE err)
             | Inr bytes \<Rightarrow>
                 if MAX_FETCH_BYTES < length bytes then Err (fetch_cap_error path) else Ok bytes))"

definition shell_fetch_file :: "os \<Rightarrow> string \<Rightarrow> shell \<Rightarrow> string result \<times> shell" where
  "shell_fetch_file os target_path s =
     (if target_path = [] then (Err (CommunicationE ''target path is empty''), s)
      else if \<not> os_is_file os target_path then
        (Err (CommunicationE (quoted target_path @ '' file doesn'' @ [CHR 0x27] @ ''t exist'')), s)
      else if \<not> sh_active s then (Err (CommunicationE ''Shell is not running''), s)
      else (read_capped os target_path, s))"

text \<open>The environment given to the child: an empty map is no environment.\<close>

definition child_env :: "str_map option \<Rightarrow> str_map option" where
  "child_env env = (case env of Some vars \<Rightarrow> if vars = Map.empty then None else Some vars | None \<Rightarrow> None)"

text \<open>
  \<open>run_command\<close> as a future. Dropped before it completes, its guard ends the tracking and kills
  the process group.
\<close>

definition shell_run_command ::
  "os \<Rightarrow> string \<Rightarrow> string option \<Rightarrow> str_map option \<Rightarrow> shell
     \<Rightarrow> (cmd_result option result, shell) future" where
  "shell_run_command os command cwd env s =
     (if \<not> sh_active s then ready (Err (CommunicationE ''Shell is not running'')) s
      else if trim command = [] then ready (Err (CommunicationE ''command is empty'')) s
      else
        (case os_spawn os command cwd (child_env env) of
           Inl err \<Rightarrow> ready (Err (CommunicationE err)) s
         | Inr p \<Rightarrow>
             (case try_register (pr_pid p) s of
                (False, s1) \<Rightarrow>
                  ready (Err (CommunicationE ''Shell was stopped before the command could start''))
                    (kill_process_group (pr_pid p) s1)
              | (True, s1) \<Rightarrow>
                  (let killed = (if rd_over_cap (read_loop (pr_chunks p))
                                 then kill_process_group (pr_pid p) s1 else s1)
                   in \<lparr> fut_time = pr_time p,
                        fut_value = command_outcome command (pr_chunks p) (pr_status p) (pr_elapsed p),
                        fut_done = drop_tracked False (pr_pid p) killed,
                        fut_dropped = \<lambda>_. drop_tracked True (pr_pid p) s1 \<rparr>))))"

definition shell_ping :: "os \<Rightarrow> shell \<Rightarrow> f64 result \<times> shell" where
  "shell_ping os s =
     (if \<not> sh_active s then (Err (CommunicationE ''Shell is not running''), s)
      else
        (case await (shell_run_command os ''test .'' None None s) of
           (Inl err, s1) \<Rightarrow> (Err err, s1)
         | (Inr (Some r), s1) \<Rightarrow> (Ok (cr_exec_time r), s1)
         | (Inr None, s1) \<Rightarrow>
             (Err (CommunicationE (quoted ''test'' @ '' command failed in shell'')), s1)))"

definition shell_channel :: "os \<Rightarrow> shell com_channel" where
  "shell_channel os =
     \<lparr> cc_name = sh_name, cc_parallel_execution = \<lambda>_. True, cc_active = sh_active,
       cc_communicate = shell_communicate, cc_stop = shell_stop, cc_ping = shell_ping os,
       cc_run_command = shell_run_command os, cc_fetch_file = shell_fetch_file os,
       cc_clone = shell_clone, cc_concurrent_handle = Some \<rparr>"

text \<open>
  A command of the shell channel leaves the channel's lifecycle alone and, whether it
  completes or is dropped, leaves no pid of its own among the tracked ones; dropped while running,
  its process group has been signalled.
\<close>

theorem shell_run_command_cleans_up:
  assumes "in_i32 (int (pr_pid p))" and "os_spawn os command cwd (child_env env) = Inr p"
    and "sh_active s" and "trim command \<noteq> []" and "pr_pid p \<notin> set (sh_pids s)"
  shows "let f = shell_run_command os command cwd env s
    in sh_active (fut_done f) \<and> sh_pids (fut_done f) = sh_pids s \<and>
       (\<forall>t. sh_active (fut_dropped f t) \<and> sh_pids (fut_dropped f t) = sh_pids s \<and>
          pr_pid p \<in> set (sh_killed (fut_dropped f t)))"
proof -
  have "filter (\<lambda>q. q \<noteq> pr_pid p) (sh_pids s) = sh_pids s"
    using assms(5) by (auto intro: filter_True)
  then show ?thesis
    using assms
    by (simp add: shell_run_command_def try_register_def drop_tracked_def unregister_pid_def Let_def)
qed

definition sleep_process :: process where
  "sleep_process = \<lparr> pr_pid = 42, pr_chunks = [], pr_status = \<lparr> es_code = Some 0, es_signal = None \<rparr>,
     pr_time = 5000000000, pr_elapsed = F64_Fin 5 \<rparr>"

definition sleep_os :: os where
  "sleep_os = \<lparr> os_spawn = \<lambda>_ _ _. Inr sleep_process, os_metadata = \<lambda>_. Inl ''missing'',
     os_is_file = \<lambda>_. False, os_read = \<lambda>_. Inl ''missing'' \<rparr>"

lemma shell_run_command_cleans_up_witness:
  "let f = shell_run_command sleep_os ''sleep 5'' None None (shell_new\<lparr>sh_active := True\<rparr>)
   in sh_active (fut_done f) \<and> sh_pids (fut_done f) = [] \<and>
      (\<forall>t. sh_active (fut_dropped f t) \<and> sh_pids (fut_dropped f t) = [] \<and>
         42 \<in> set (sh_killed (fut_dropped f t)))"
proof -
  have "trim ''sleep 5'' \<noteq> []" by code_simp
  then show ?thesis
    using shell_run_command_cleans_up
      [of sleep_process sleep_os "''sleep 5''" None None "shell_new\<lparr>sh_active := True\<rparr>"]
    by (simp add: sleep_process_def sleep_os_def shell_new_def in_i32_def)
qed

lemma clone_channel_spec_witness:
  "com_names (shell_channel sleep_os)
     (snd (clone_channel (shell_channel sleep_os) ''shell'' ''local'' [shell_new]))
   = [''shell'', ''local'']"
  using clone_channel_spec [of "shell_channel sleep_os" "''shell''" "''local''" "[shell_new]"]
  by (simp add: shell_channel_def shell_clone_def com_names_def shell_new_def)

section \<open>Races of commands with stop\<close>

text \<open>
  Where a process started by \<open>run_command\<close> stands: spawned but not yet registered, tracked by its
  guard, refused by \<open>try_register\<close> (stop won, so its own command kills it), or reaped with the
  guard still in place. \<open>rc_ready\<close> counts the commands that passed the activity check and have not
  spawned yet; each step below is one critical section or one await point of the code.
\<close>

datatype proc_phase = Fresh | Tracked | Refused | Reaped

record race =
  rc_shell :: shell
  rc_ready :: nat
  rc_procs :: "nat \<rightharpoonup> proc_phase"

definition race_init :: race where
  "race_init = \<lparr> rc_shell = shell_new, rc_ready = 0, rc_procs = Map.empty \<rparr>"

inductive race_step :: "race \<Rightarrow> race \<Rightarrow> bool" where
  communicate:
    "shell_communicate (rc_shell r) = (res, s') \<Longrightarrow> race_step r (r\<lparr>rc_shell := s'\<rparr>)"
| stop:
    "shell_stop (rc_shell r) = (res, s') \<Longrightarrow> race_step r (r\<lparr>rc_shell := s'\<rparr>)"
| check:
    "sh_active (rc_shell r) \<Longrightarrow> race_step r (r\<lparr>rc_ready := rc_ready r + 1\<rparr>)"
| spawn:
    "0 < rc_ready r \<Longrightarrow> rc_procs r p = None \<Longrightarrow> in_i32 (int p) \<Longrightarrow>
     race_step r (r\<lparr>rc_ready := rc_ready r - 1, rc_procs := (rc_procs r)(p \<mapsto> Fresh),
       rc_shell := (rc_shell r)\<lparr>sh_killed := filter (\<lambda>q. q \<noteq> p) (sh_killed (rc_shell r))\<rparr>\<rparr>)"
| register_ok:
    "rc_procs r p = Some Fresh \<Longrightarrow> try_register p (rc_shell r) = (True, s') \<Longrightarrow>
     race_step r (r\<lparr>rc_shell := s', rc_procs := (rc_procs r)(p \<mapsto> Tracked)\<rparr>)"
| register_lost:
    "rc_procs r p = Some Fresh \<Longrightarrow> try_register p (rc_shell r) = (False, s') \<Longrightarrow>
     race_step r (r\<lparr>rc_shell := kill_process_group p s', rc_procs := (rc_procs r)(p \<mapsto> Refused)\<rparr>)"
| cap_kill:
    "rc_procs r p = Some Tracked \<Longrightarrow>
     race_step r (r\<lparr>rc_shell := kill_process_group p (rc_shell r)\<rparr>)"
| reap:
    "rc_procs r p = Some Tracked \<Longrightarrow> race_step r (r\<lparr>rc_procs := (rc_procs r)(p \<mapsto> Reaped)\<rparr>)"
| disarm:
    "rc_procs r p = Some Reaped \<Longrightarrow>
     race_step r (r\<lparr>rc_shell := drop_tracked False p (rc_shell r), rc_procs := (rc_procs r)(p := None)\<rparr>)"
| cancel:
    "rc_procs r p = Some Tracked \<Longrightarrow>
     race_step r (r\<lparr>rc_shell := drop_tracked True p (rc_shell r), rc_procs := (rc_procs r)(p \<mapsto> Refused)\<rparr>)"
| reap_refused:
    "rc_procs r p = Some Refused \<Longrightarrow> race_step r (r\<lparr>rc_procs := (rc_procs r)(p := None)\<rparr>)"

inductive race_reachable :: "race \<Rightarrow> bool" where
  start: "race_reachable race_init"
| step: "race_reachable r \<Longrightarrow> race_step r r' \<Longrightarrow> race_reachable r'"

definition race_inv :: "race \<Rightarrow> bool" where
  "race_inv r \<longleftrightarrow>
     (\<not> sh_active (rc_shell r) \<longrightarrow> sh_pids (rc_shell r) = []) \<and>
     (\<forall>p. rc_procs r p = Some Tracked \<longrightarrow>
        in_i32 (int p) \<and> (p \<in> set (sh_pids (rc_shell r)) \<or> p \<in> set (sh_killed (rc_shell r)))) \<and>
     (\<forall>p. rc_procs r p = Some Refused \<longrightarrow> p \<in> set (sh_killed (rc_shell r))) \<and>
     (\<forall>p. rc_procs r p = Some Fresh \<longrightarrow> in_i32 (int p)) \<and>
     (\<forall>p \<in> set (sh_pids (rc_shell r)). rc_procs r p = Some Tracked \<or> rc_procs r p = Some Reaped)"

lemmas race_ops = shell_communicate_def shell_stop_def try_register_def unregister_pid_def
  drop_tracked_def Let_def

lemma race_inv_step: "race_step r r' \<Longrightarrow> race_inv r \<Longrightarrow> race_inv r'"
proof (induction rule: race_step.induct)
  case (stop r res s')
  then show ?case
    by (auto simp: race_inv_def race_ops kill_all_killed split: if_splits)
qed (auto simp: race_inv_def race_ops split: if_splits)

lemma race_inv_reachable: "race_reachable r \<Longrightarrow> race_inv r"
proof (induction rule: race_reachable.induct)
  case start
  then show ?case by (simp add: race_inv_def race_init_def shell_new_def)
next
  case (step r r')
  then show ?case using race_inv_step by blast
qed

text \<open>
  Claim C3: whatever the order in which commands start, finish or are cancelled while the channel
  is stopped and restarted, no process escapes: while the channel is stopped every process past
  its registration attempt is either already reaped or has had its group signalled, and while it
  is active every running one is tracked, so that the next stop signals it.
\<close>

theorem no_process_escapes_stop:
  assumes "race_reachable r" and "rc_procs r p = Some phase" and "phase \<noteq> Fresh" and "phase \<noteq> Reaped"
  shows "p \<in> set (sh_killed (rc_shell r)) \<or>
     sh_active (rc_shell r) \<and> p \<in> set (sh_killed (snd (shell_stop (rc_shell r))))"
proof -
  have inv: "race_inv r" using assms(1) by (rule race_inv_reachable)
  from assms(3,4) have "phase = Tracked \<or> phase = Refused" by (cases phase) auto
  then show ?thesis
  proof
    assume "phase = Refused"
    with inv assms(2) show ?thesis by (simp add: race_inv_def)
  next
    assume "phase = Tracked"
    with inv assms(2) have "in_i32 (int p)"
      and "p \<in> set (sh_pids (rc_shell r)) \<or> p \<in> set (sh_killed (rc_shell r))"
      by (simp_all add: race_inv_def)
    moreover have "sh_active (rc_shell r)" if "p \<in> set (sh_pids (rc_shell r))"
      using that inv by (auto simp: race_inv_def)
    ultimately show ?thesis by (auto simp: shell_stop_def kill_all_killed)
  qed
qed

text \<open>A run of the race steps: a command that is cancelled after a stop and a restart.\<close>

definition race_running :: race where
  "race_running = \<lparr> rc_shell = shell_new\<lparr>sh_active := True, sh_pids := [7]\<rparr>, rc_ready = 0,
     rc_procs = [7 \<mapsto> Tracked] \<rparr>"

lemma race_running_reachable: "race_reachable race_running"
proof -
  let ?r1 = "race_init\<lparr>rc_shell := shell_new\<lparr>sh_active := True\<rparr>\<rparr>"
  let ?r2 = "?r1\<lparr>rc_ready := 1\<rparr>"
  let ?r3 = "?r1\<lparr>rc_procs := [7 \<mapsto> Fresh]\<rparr>"
  have 1: "race_reachable ?r1"
    using race_reachable.step [OF race_reachable.start race_step.communicate [of race_init]]
    by (simp add: shell_communicate_def race_init_def shell_new_def)
  have 2: "race_reachable ?r2"
    using race_reachable.step [OF 1 race_step.check] by (simp add: race_init_def)
  have 3: "race_reachable ?r3"
    using race_reachable.step [OF 2 race_step.spawn [of _ 7]]
    by (simp add: race_init_def shell_new_def in_i32_def)
  show ?thesis
    using race_reachable.step [OF 3 race_step.register_ok [of _ 7]]
    by (simp add: race_init_def shell_new_def try_register_def race_running_def)
qed

lemma no_process_escapes_stop_witness:
  "7 \<in> set (sh_killed (snd (shell_stop (rc_shell race_running))))"
  using no_process_escapes_stop [OF race_running_reachable, of 7 Tracked]
  by (simp add: race_running_def shell_new_def)

end
