(* ===== verification/Io_Buffer.thy ===== *)
theory Io_Buffer
  imports Com Events
begin

text \<open>
  Where the output of a command goes: the trait \<open>IOBuffer\<close> of \<open>kirk-com\<close> as a locale over a write and
  the contents it adds to, and the buffer of the test scheduler, \<open>StdoutBuffer\<close> in \<open>test_sched.rs\<close>,
  which also tells the interfaces of what arrives. A buffer that fires events is paired with the
  event registry.
\<close>

section \<open>The trait\<close>

text \<open>Writing pieces one after another stops at the first that is refused.\<close>

fun put_all :: "(string \<Rightarrow> 'b \<Rightarrow> unit result \<times> 'b) \<Rightarrow> string list \<Rightarrow> 'b \<Rightarrow> unit result \<times> 'b" where
  "put_all put [] b = (Ok (), b)"
| "put_all put (c # cs) b =
     (case put c b of
        (Inl e, b1) \<Rightarrow> (Err e, b1)
      | (Inr _, b1) \<Rightarrow> put_all put cs b1)"

locale io_buffer =
  fixes put :: "string \<Rightarrow> 'b \<Rightarrow> unit result \<times> 'b" and contents :: "'b \<Rightarrow> string"
  assumes write_accepts: "fst (put data b) = Inr ()"
    and write_appends: "contents (snd (put data b)) = contents b @ data"
begin

lemma put_all_accepts: "fst (put_all put cs b) = Inr ()"
proof (induction cs arbitrary: b)
  case (Cons c cs)
  then show ?case using write_accepts [of c b] by (cases "put c b") simp
qed simp

lemma put_all_contents: "contents (snd (put_all put cs b)) = contents b @ concat cs"
proof (induction cs arbitrary: b)
  case (Cons c cs)
  obtain b1 where "put c b = (Inr (), b1)"
    using write_accepts [of c b] by (cases "put c b") simp
  then show ?case using Cons.IH [of b1] write_appends [of c b] by simp
qed simp

text \<open>Only the text matters to the contents, not how it was cut.\<close>

lemma cuts_do_not_matter:
  "concat cs = concat ds \<Longrightarrow> contents (snd (put_all put cs b)) = contents (snd (put_all put ds b))"
  by (simp add: put_all_contents)

end

section \<open>The buffer of the scheduler\<close>

record stdout_buffer =
  sb_inner :: string
  sb_stream :: "test option"

text \<open>\<open>Default\<close>: a buffer that only accumulates.\<close>

definition stdout_buffer_default :: stdout_buffer where
  "stdout_buffer_default = \<lparr> sb_inner = [], sb_stream = None \<rparr>"

definition streaming :: "test \<Rightarrow> stdout_buffer" where
  "streaming t = \<lparr> sb_inner = [], sb_stream = Some t \<rparr>"

text \<open>The event is fired first; that it could not be is ignored.\<close>

definition buffer_push :: "string \<Rightarrow> stdout_buffer \<times> registry \<Rightarrow> stdout_buffer \<times> registry" where
  "buffer_push data b =
     (case b of (sb, reg) \<Rightarrow>
        (sb\<lparr>sb_inner := sb_inner sb @ data\<rparr>,
         (case sb_stream sb of
            None \<Rightarrow> reg
          | Some t \<Rightarrow> snd (fire ''test_stdout'' (P_TestStdout t data) reg))))"

definition snapshot :: "stdout_buffer \<times> registry \<Rightarrow> string" where
  "snapshot b = sb_inner (fst b)"

definition buffer_write ::
  "string \<Rightarrow> stdout_buffer \<times> registry \<Rightarrow> unit result \<times> stdout_buffer \<times> registry" where
  "buffer_write data b = (Ok (), buffer_push data b)"

lemma buffer_write_pair:
  "buffer_write data (sb, reg) =
     (Ok (), sb\<lparr>sb_inner := sb_inner sb @ data\<rparr>,
      (case sb_stream sb of None \<Rightarrow> reg | Some t \<Rightarrow> snd (fire ''test_stdout'' (P_TestStdout t data) reg)))"
  by (simp add: buffer_write_def buffer_push_def)

interpretation stdout_buffer: io_buffer buffer_write snapshot
  by unfold_locales (auto simp: buffer_write_def buffer_push_def snapshot_def split: prod.splits)

text \<open>One event for each piece, whatever was pushed before, when somebody listens.\<close>

definition stdout_item :: "registry \<Rightarrow> test \<Rightarrow> string \<Rightarrow> queue_item" where
  "stdout_item reg t data =
     Dispatch ''test_stdout'' (handlers_of reg ''test_stdout'') (ee_ordered (the (rg_events reg ''test_stdout'')))
       \<lparr> ea_event = ''test_stdout'', ea_payload = P_TestStdout t data \<rparr>"

lemma fire_stdout:
  "rg_queue (snd (fire ''test_stdout'' (P_TestStdout t data) reg)) =
     rg_queue reg @ (if handlers_of reg ''test_stdout'' = [] then [] else [stdout_item reg t data])"
  by (auto simp: fire_def handlers_of_def stdout_item_def split: option.splits)

lemma streamed_events:
  assumes "put_all buffer_write cs (sb, reg) = (r, sb', reg')" and "sb_stream sb = Some t"
  shows "sb_stream sb' = Some t \<and> rg_events reg' = rg_events reg \<and>
    rg_queue reg' = rg_queue reg @
      (if handlers_of reg ''test_stdout'' = [] then [] else map (stdout_item reg t) cs)"
  using assms
proof (induction cs arbitrary: sb reg)
  case (Cons c cs)
  let ?reg = "snd (fire ''test_stdout'' (P_TestStdout t c) reg)"
  have keep: "rg_events ?reg = rg_events reg" by simp
  then have same: "handlers_of ?reg = handlers_of reg" "stdout_item ?reg = stdout_item reg"
    by (simp_all add: handlers_of_def stdout_item_def fun_eq_iff)
  from Cons.prems have "put_all buffer_write cs (sb\<lparr>sb_inner := sb_inner sb @ c\<rparr>, ?reg) = (r, sb', reg')"
    by (simp add: buffer_write_pair)
  from Cons.IH [OF this] Cons.prems(2) show ?case by (simp add: keep same fire_stdout)
qed simp

end
