(* ===== verification/Sut.thy ===== *)
theory Sut
  imports Shell_Channel Io_Buffer
begin

text \<open>
  Crate \<open>kirk-sut\<close>: the system under test over one channel. \<open>'c generic_sut\<close> is the struct
  \<open>GenericSut\<close> over channels of type \<open>'c\<close>; the operations are the default methods of the trait
  \<open>Sut\<close>, written over a channel's record of functions. Regular expressions are a parameter: a
  pattern and a text give a compile error, or the named groups of the first match.
\<close>

definition UNKNOWN :: string where
  "UNKNOWN = ''unknown''"

definition RUN_CMD_TIMEOUT :: nat where
  "RUN_CMD_TIMEOUT = millis 1500"

definition COMMUNICATE_RETRIES :: nat where
  "COMMUNICATE_RETRIES = 10"

text \<open>Message 12 quotes \<open>out-of-tree\<close> with the UTF-8 bytes of the curly quotation marks.\<close>

definition TAINTED_MSG :: "string list" where
  "TAINTED_MSG =
     [''proprietary module was loaded'',
      ''module was force loaded'',
      ''kernel running on an out of specification system'',
      ''module was force unloaded'',
      ''processor reported a Machine Check Exception (MCE)'',
      ''bad page referenced or some unexpected page flags'',
      ''taint requested by userspace application'',
      ''kernel died recently, i.e. there was an OOPS or BUG'',
      ''ACPI table overridden by user'',
      ''kernel issued warning'',
      ''staging driver was loaded'',
      ''workaround for bug in platform firmware applied'',
      ''externally-built ('' @ [CHR 0xE2, CHR 0x80, CHR 0x9C] @ ''out-of-tree''
        @ [CHR 0xE2, CHR 0x80, CHR 0x9D] @ '') module was loaded'',
      ''unsigned module was loaded'',
      ''soft lockup occurred'',
      ''kernel has been live patched'',
      ''auxiliary taint, defined for and used by distros'',
      ''kernel was built with the struct randomization plugin'']"

definition FAULT_INJECTION_FILES :: "string list" where
  "FAULT_INJECTION_FILES = [''fail_io_timeout'', ''fail_make_request'', ''fail_page_alloc'', ''failslab'']"

definition PROBE_COMMANDS :: "string list" where
  "PROBE_COMMANDS =
     [''. /etc/os-release && echo '' @ [CHR 0x22] @ ''$ID'' @ [CHR 0x22],
      ''. /etc/os-release && echo '' @ [CHR 0x22] @ ''$VERSION_ID'' @ [CHR 0x22],
      ''uname -s -r -v'',
      ''cat /proc/cmdline'',
      ''uname -m'',
      ''uname -p'',
      ''cat /proc/meminfo'']"

definition TAINTED_CMD :: string where
  "TAINTED_CMD = ''cat /proc/sys/kernel/tainted''"

definition ID_CMD :: string where
  "ID_CMD = ''id -u''"

section \<open>State\<close>

record sut_info =
  si_distro :: string
  si_distro_ver :: string
  si_kernel :: string
  si_cmdline :: string
  si_arch :: string
  si_cpu :: string
  si_ram :: string
  si_swap :: string

record tainted_info =
  ti_code :: u64
  ti_messages :: "string list"

datatype taint_begin_result = Cached tainted_info | Probe

record taint_state =
  in_flight :: bool
  cached :: "tainted_info option"

record 'c generic_sut =
  gs_name :: string
  gs_com_name :: string
  gs_channel :: "'c option"
  gs_optimize :: bool
  gs_taint :: taint_state

definition taint_default :: taint_state where
  "taint_default = \<lparr> in_flight = False, cached = None \<rparr>"

definition generic_sut_new :: "'c generic_sut" where
  "generic_sut_new = \<lparr> gs_name = ''default'', gs_com_name = ''shell'', gs_channel = None,
     gs_optimize = False, gs_taint = taint_default \<rparr>"

definition sut_clone_box :: "string \<Rightarrow> 'c generic_sut" where
  "sut_clone_box name = generic_sut_new\<lparr>gs_name := name\<rparr>"

definition com_name_from_cfg :: "str_map \<Rightarrow> string result" where
  "com_name_from_cfg cfg =
     (let name = (case cfg ''com'' of Some n \<Rightarrow> n | None \<Rightarrow> ''shell'')
      in if name = [] then Err (SutE ''Communication channel has not been defined'') else Ok name)"

definition sut_setup :: "str_map \<Rightarrow> 'c generic_sut \<Rightarrow> unit result \<times> 'c generic_sut" where
  "sut_setup cfg s =
     (case com_name_from_cfg cfg of
        Inl e \<Rightarrow> (Err e, s)
      | Inr n \<Rightarrow> (Ok (), s\<lparr>gs_com_name := n\<rparr>))"

definition sut_config_help :: "(string \<times> string) list" where
  "sut_config_help = [(''com'', ''Communication channel name (default: shell)'')]"

definition sut_plugin :: "'c generic_sut plugin_ops" where
  "sut_plugin =
     \<lparr> pl_name = gs_name, pl_config_help = \<lambda>_. sut_config_help, pl_setup = sut_setup,
       pl_clone_box = \<lambda>name _. sut_clone_box name \<rparr>"

interpretation sut_plugin: plugin_contract sut_plugin "{}"
  by unfold_locales
    (auto simp: sut_plugin_def sut_setup_def sut_clone_box_def sut_config_help_def com_name_from_cfg_def
      new_instance_def Let_def)

definition setup_with_registry ::
  "'c com_channel \<Rightarrow> str_map \<Rightarrow> 'c com_registry \<Rightarrow> 'c generic_sut \<Rightarrow> unit result \<times> 'c generic_sut" where
  "setup_with_registry C cfg reg s =
     (case com_name_from_cfg cfg of
        Inl e \<Rightarrow> (Err e, s)
      | Inr n \<Rightarrow>
          (let s1 = s\<lparr>gs_com_name := n\<rparr>
           in if reg = [] then (Err (SutE ''No communication channels are provided''), s1)
              else
                (case find (\<lambda>ch. cc_name C ch = n) reg of
                   None \<Rightarrow> (Err (SutE (''Can'' @ [CHR 0x27] @ ''t find communication channel '' @ quoted n)), s1)
                 | Some ch \<Rightarrow> (Ok (), s1\<lparr>gs_channel := Some (cc_clone C (cc_name C ch) ch)\<rparr>))))"

definition channel :: "'c generic_sut \<Rightarrow> 'c result" where
  "channel s = ok_or (SutE ''SUT is not initialized'') (gs_channel s)"

definition set_optimize :: "bool \<Rightarrow> 'c generic_sut \<Rightarrow> 'c generic_sut" where
  "set_optimize b s = s\<lparr>gs_optimize := b\<rparr>"

text \<open>An operation of the channel, run inside the SUT.\<close>

definition on_channel ::
  "('c \<Rightarrow> 'a result \<times> 'c) \<Rightarrow> 'c generic_sut \<Rightarrow> 'a result \<times> 'c generic_sut" where
  "on_channel f s =
     (case channel s of
        Inl e \<Rightarrow> (Err e, s)
      | Inr ch \<Rightarrow> (case f ch of (r, ch') \<Rightarrow> (r, s\<lparr>gs_channel := Some ch'\<rparr>)))"

section \<open>Lifecycle\<close>

definition is_running :: "'c com_channel \<Rightarrow> 'c generic_sut \<Rightarrow> bool result" where
  "is_running C s = and_then (channel s) (\<lambda>ch. Ok (cc_active C ch))"

definition sut_start :: "'c com_channel \<Rightarrow> 'c generic_sut \<Rightarrow> unit result \<times> 'c generic_sut" where
  "sut_start C s =
     (case is_running C s of
        Inl e \<Rightarrow> (Err e, s)
      | Inr running \<Rightarrow>
          if running then (Ok (), s)
          else on_channel (ensure_communicate (cc_communicate C) (cc_stop C) COMMUNICATE_RETRIES) s)"

definition sut_stop :: "'c com_channel \<Rightarrow> 'c generic_sut \<Rightarrow> unit result \<times> 'c generic_sut" where
  "sut_stop C s =
     (case is_running C s of
        Inl e \<Rightarrow> (Err e, s)
      | Inr running \<Rightarrow> if \<not> running then (Ok (), s) else on_channel (cc_stop C) s)"

definition sut_restart :: "'c com_channel \<Rightarrow> 'c generic_sut \<Rightarrow> unit result \<times> 'c generic_sut" where
  "sut_restart C s =
     (case sut_stop C s of
        (Inl e, s1) \<Rightarrow> (Err e, s1)
      | (Inr _, s1) \<Rightarrow> sut_start C s1)"

section \<open>Probes\<close>

definition sut_not_running :: kirk_error where
  "sut_not_running = SutE ''SUT is not running''"

definition run_now :: "'c com_channel \<Rightarrow> string \<Rightarrow> 'c \<Rightarrow> cmd_result option result \<times> 'c" where
  "run_now C cmd ch = await (cc_run_command C cmd None None ch)"

text \<open>What a probe makes of the outcome of its command: \<open>None\<close> is the elapsed timeout.\<close>

definition probe_output :: "cmd_result option result option \<Rightarrow> string result" where
  "probe_output outcome =
     (case outcome of
        None \<Rightarrow> Ok UNKNOWN
      | Some (Inr None) \<Rightarrow> Ok UNKNOWN
      | Some (Inl err) \<Rightarrow> Err err
      | Some (Inr (Some r)) \<Rightarrow>
          if cr_returncode r \<noteq> 0 then Ok UNKNOWN else Ok (trim_end (cr_stdout r)))"

definition run_probe :: "'c com_channel \<Rightarrow> string \<Rightarrow> 'c \<Rightarrow> string result \<times> 'c" where
  "run_probe C cmd ch =
     (case await_timeout RUN_CMD_TIMEOUT (cc_run_command C cmd None None ch) of
        (outcome, ch') \<Rightarrow> (probe_output outcome, ch'))"

definition run_cmd :: "'c com_channel \<Rightarrow> string \<Rightarrow> 'c generic_sut \<Rightarrow> string result \<times> 'c generic_sut" where
  "run_cmd C cmd s = on_channel (run_probe C cmd) s"

fun run_cmds ::
  "'c com_channel \<Rightarrow> string list \<Rightarrow> 'c generic_sut \<Rightarrow> string list result \<times> 'c generic_sut" where
  "run_cmds C [] s = (Ok [], s)"
| "run_cmds C (cmd # cmds) s =
     (case run_cmd C cmd s of
        (Inl e, s1) \<Rightarrow> (Err e, s1)
      | (Inr v, s1) \<Rightarrow>
          (case run_cmds C cmds s1 of
             (Inl e, s2) \<Rightarrow> (Err e, s2)
           | (Inr vs, s2) \<Rightarrow> (Ok (v # vs), s2)))"

definition run_probes_sequential ::
  "'c com_channel \<Rightarrow> 'c generic_sut \<Rightarrow> string list result \<times> 'c generic_sut" where
  "run_probes_sequential C s = run_cmds C PROBE_COMMANDS s"

text \<open>
  The parallel gather: every probe gets a handle of the live session, or a clone of the channel
  that is started first. The probes complete in any \<open>order\<close> (a list of indices); results are put
  in place by index, and the first error among the joined ones is the outcome.
\<close>

definition probe_handle :: "'c com_channel \<Rightarrow> 'c \<Rightarrow> 'c result" where
  "probe_handle C ch =
     (case cc_concurrent_handle C ch of
        Some h \<Rightarrow> Ok h
      | None \<Rightarrow>
          (case ensure_communicate (cc_communicate C) (cc_stop C) COMMUNICATE_RETRIES
                  (cc_clone C ''sut-probe'' ch) of
             (Inl e, _) \<Rightarrow> Err e
           | (Inr _, clone) \<Rightarrow> Ok clone))"

fun join_probes :: "(nat \<Rightarrow> string result) \<Rightarrow> nat list \<Rightarrow> string list \<Rightarrow> string list result" where
  "join_probes outcome [] values = Ok values"
| "join_probes outcome (i # is) values =
     (case outcome i of
        Inl e \<Rightarrow> Err e
      | Inr v \<Rightarrow>
          if i < length values then join_probes outcome is (values[i := v])
          else Err (SutE (''probe index '' @ show_nat i @ '' out of range'')))"

definition run_probes_parallel ::
  "'c com_channel \<Rightarrow> nat list \<Rightarrow> 'c generic_sut \<Rightarrow> string list result \<times> 'c generic_sut" where
  "run_probes_parallel C order s =
     (case channel s of
        Inl e \<Rightarrow> (Err e, s)
      | Inr ch \<Rightarrow>
          (case probe_handle C ch of
             Inl e \<Rightarrow> (Err e, s)
           | Inr h \<Rightarrow>
               (join_probes (\<lambda>i. fst (run_probe C (PROBE_COMMANDS ! i) h)) order
                  (replicate (length PROBE_COMMANDS) []), s)))"

type_synonym regex_captures = "string \<Rightarrow> string \<Rightarrow> string + str_map option"

definition mem_value :: "regex_captures \<Rightarrow> string \<Rightarrow> string \<Rightarrow> string result" where
  "mem_value captures pattern content =
     (case captures pattern content of
        Inl err \<Rightarrow> Err (FrameworkE err)
      | Inr None \<Rightarrow> Ok UNKNOWN
      | Inr (Some groups) \<Rightarrow>
          Ok (case groups ''value'' of None \<Rightarrow> UNKNOWN | Some v \<Rightarrow> v))"

definition mem_pattern :: "string \<Rightarrow> string" where
  "mem_pattern key = key @ '':'' @ [CHR 0x5C] @ ''s+(?P<value>'' @ [CHR 0x5C] @ ''d+'' @ [CHR 0x5C] @ ''s+kB)''"

definition parse_meminfo :: "regex_captures \<Rightarrow> string \<Rightarrow> (string \<times> string) result" where
  "parse_meminfo captures meminfo =
     and_then (mem_value captures (mem_pattern ''MemTotal'') meminfo)
       (\<lambda>memory. and_then (mem_value captures (mem_pattern ''SwapTotal'') meminfo)
          (\<lambda>swap. Ok (memory, swap)))"

definition info_of_probes :: "regex_captures \<Rightarrow> string list \<Rightarrow> sut_info result" where
  "info_of_probes captures vs =
     and_then (parse_meminfo captures (vs ! 6))
       (\<lambda>(ram, swap). Ok \<lparr> si_distro = vs ! 0, si_distro_ver = vs ! 1, si_kernel = vs ! 2,
          si_cmdline = vs ! 3, si_arch = vs ! 4, si_cpu = vs ! 5, si_ram = ram, si_swap = swap \<rparr>)"

definition get_info ::
  "'c com_channel \<Rightarrow> regex_captures \<Rightarrow> nat list \<Rightarrow> 'c generic_sut \<Rightarrow> sut_info result \<times> 'c generic_sut" where
  "get_info C captures order s =
     (case is_running C s of
        Inl e \<Rightarrow> (Err e, s)
      | Inr False \<Rightarrow> (Err sut_not_running, s)
      | Inr True \<Rightarrow>
          (case channel s of
             Inl e \<Rightarrow> (Err e, s)
           | Inr ch \<Rightarrow>
               (case (if gs_optimize s \<and> cc_parallel_execution C ch then run_probes_parallel C order s
                      else run_probes_sequential C s) of
                  (Inl e, s1) \<Rightarrow> (Err e, s1)
                | (Inr vs, s1) \<Rightarrow> (info_of_probes captures vs, s1))))"

section \<open>Taint information\<close>

definition taint_begin :: "'c generic_sut \<Rightarrow> taint_begin_result \<times> 'c generic_sut" where
  "taint_begin s =
     (if in_flight (gs_taint s) then
        (case cached (gs_taint s) of Some info \<Rightarrow> (Cached info, s) | None \<Rightarrow> (Probe, s))
      else (Probe, s\<lparr>gs_taint := (gs_taint s)\<lparr>in_flight := True\<rparr>\<rparr>))"

definition taint_end :: "tainted_info option \<Rightarrow> 'c generic_sut \<Rightarrow> 'c generic_sut" where
  "taint_end res s =
     (let t = (gs_taint s)\<lparr>in_flight := False\<rparr>
      in s\<lparr>gs_taint := (case res of None \<Rightarrow> t | Some info \<Rightarrow> t\<lparr>cached := Some info\<rparr>)\<rparr>)"

definition taint_messages :: "u64 \<Rightarrow> string list" where
  "taint_messages c =
     map snd (filter (\<lambda>(i, m). and (drop_bit i c) 1 = 1) (enumerate 0 TAINTED_MSG))"

definition parse_tainted :: "string \<Rightarrow> tainted_info result" where
  "parse_tainted output =
     (let code_str = trim output
      in if code_str = [] \<or> \<not> list_all is_digit code_str then Err (SutE code_str)
         else
           (case parse_u64 code_str of
              None \<Rightarrow> Err (SutE code_str)
            | Some n \<Rightarrow> Ok \<lparr> ti_code = of_nat n, ti_messages = taint_messages (of_nat n) \<rparr>))"

definition taint_unreadable :: kirk_error where
  "taint_unreadable = SutE (''Can'' @ [CHR 0x27] @ ''t read tainted kernel information'')"

definition taint_of_result :: "cmd_result option result \<Rightarrow> tainted_info result" where
  "taint_of_result res =
     and_then res (\<lambda>r. and_then (ok_or taint_unreadable r) (\<lambda>r.
       if cr_returncode r \<noteq> 0 then Err taint_unreadable else parse_tainted (cr_stdout r)))"

definition ok_value :: "'a result \<Rightarrow> 'a option" where
  "ok_value r = (case r of Inl _ \<Rightarrow> None | Inr x \<Rightarrow> Some x)"

text \<open>Dropped while its command runs, the probe never reaches \<open>taint_end\<close>.\<close>

definition get_tainted_info ::
  "'c com_channel \<Rightarrow> 'c generic_sut \<Rightarrow> (tainted_info result, 'c generic_sut) future" where
  "get_tainted_info C s =
     (case is_running C s of
        Inl e \<Rightarrow> ready (Err e) s
      | Inr False \<Rightarrow> ready (Err sut_not_running) s
      | Inr True \<Rightarrow>
          (case taint_begin s of
             (Cached info, s1) \<Rightarrow> ready (Ok info) s1
           | (Probe, s1) \<Rightarrow>
               (case channel s1 of
                  Inl e \<Rightarrow> ready (Err e) (taint_end None s1)
                | Inr ch \<Rightarrow>
                    (let f = cc_run_command C TAINTED_CMD None None ch;
                         probe = taint_of_result (fut_value f)
                     in \<lparr> fut_time = fut_time f, fut_value = probe,
                          fut_done = taint_end (ok_value probe) (s1\<lparr>gs_channel := Some (fut_done f)\<rparr>),
                          fut_dropped = \<lambda>t. s1\<lparr>gs_channel := Some (fut_dropped f t)\<rparr> \<rparr>))))"

section \<open>Root and fault injection\<close>

definition root_unknown :: kirk_error where
  "root_unknown = SutE (''Can'' @ [CHR 0x27] @ ''t determine if we are running as root'')"

definition root_of_result :: "cmd_result option result \<Rightarrow> bool result" where
  "root_of_result res =
     and_then res (\<lambda>r. and_then (ok_or root_unknown r) (\<lambda>r.
       if cr_returncode r \<noteq> 0 then Err root_unknown
       else
         (let v = trim_end (cr_stdout r)
          in case parse_i64 (trim v) of
               None \<Rightarrow> Err (SutE (quoted ''id -u'' @ '' returned '' @ v))
             | Some user_id \<Rightarrow> Ok (user_id = 0))))"

text \<open>A method that refuses to run on a SUT that is not running.\<close>

definition while_running ::
  "'c com_channel \<Rightarrow> ('c generic_sut \<Rightarrow> 'a result \<times> 'c generic_sut) \<Rightarrow> 'c generic_sut
     \<Rightarrow> 'a result \<times> 'c generic_sut" where
  "while_running C f s =
     (case is_running C s of
        Inl e \<Rightarrow> (Err e, s)
      | Inr running \<Rightarrow> if \<not> running then (Err sut_not_running, s) else f s)"

definition logged_as_root :: "'c com_channel \<Rightarrow> 'c generic_sut \<Rightarrow> bool result \<times> 'c generic_sut" where
  "logged_as_root C =
     while_running C (on_channel (\<lambda>ch. case run_now C ID_CMD ch of (r, ch') \<Rightarrow> (root_of_result r, ch')))"

fun test_dirs :: "'c com_channel \<Rightarrow> string list \<Rightarrow> 'c \<Rightarrow> bool result \<times> 'c" where
  "test_dirs C [] ch = (Ok True, ch)"
| "test_dirs C (file # files) ch =
     (case run_now C (''test -d /sys/kernel/debug/'' @ file) ch of
        (Inl e, ch1) \<Rightarrow> (Err e, ch1)
      | (Inr None, ch1) \<Rightarrow> (Ok False, ch1)
      | (Inr (Some r), ch1) \<Rightarrow>
          if cr_returncode r \<noteq> 0 then (Ok False, ch1) else test_dirs C files ch1)"

definition is_fault_injection_enabled ::
  "'c com_channel \<Rightarrow> 'c generic_sut \<Rightarrow> bool result \<times> 'c generic_sut" where
  "is_fault_injection_enabled C = while_running C (on_channel (test_dirs C FAULT_INJECTION_FILES))"

definition write_fault_command :: "int \<Rightarrow> string \<Rightarrow> string" where
  "write_fault_command value path = ''echo '' @ show_int value @ '' > '' @ path"

definition write_fault_value :: "'c com_channel \<Rightarrow> int \<Rightarrow> string \<Rightarrow> 'c \<Rightarrow> unit result \<times> 'c" where
  "write_fault_value C value path ch =
     (case run_now C (write_fault_command value path) ch of
        (Inl e, ch1) \<Rightarrow> (Err e, ch1)
      | (Inr (Some r), ch1) \<Rightarrow>
          if cr_returncode r = 0 then (Ok (), ch1)
          else (Err (SutE (''Can'' @ [CHR 0x27] @ ''t setup '' @ path @ ''. '' @ cr_stdout r)), ch1)
      | (Inr None, ch1) \<Rightarrow> (Err (SutE (''Can'' @ [CHR 0x27] @ ''t setup '' @ path)), ch1))"

text \<open>The knobs of one file in the order they are written, and of all files.\<close>

definition fault_knobs :: "int \<Rightarrow> int \<Rightarrow> int \<Rightarrow> string \<Rightarrow> (int \<times> string) list" where
  "fault_knobs tms interval prob file =
     (let base = ''/sys/kernel/debug/'' @ file
      in [(0, base @ ''/space''), (tms, base @ ''/times''), (interval, base @ ''/interval''),
          (prob, base @ ''/probability'')])"

definition fault_writes :: "u32 \<Rightarrow> u32 \<Rightarrow> (int \<times> string) list" where
  "fault_writes prob interval =
     (let ival = uint (if prob = 0 then 1 else interval);
          tms = (if prob = 0 then 1 else - 1)
      in concat (map (fault_knobs tms ival (uint prob)) FAULT_INJECTION_FILES))"

definition setup_fault_injection ::
  "'c com_channel \<Rightarrow> u32 \<Rightarrow> u32 \<Rightarrow> 'c generic_sut \<Rightarrow> unit result \<times> 'c generic_sut" where
  "setup_fault_injection C prob interval =
     while_running C (on_channel
       (try_fold (\<lambda>ch (v, path). write_fault_value C v path ch) (fault_writes prob interval)))"

section \<open>The lifecycle contract of a SUT\<close>

definition stop_then_start ::
  "('s \<Rightarrow> unit result \<times> 's) \<Rightarrow> ('s \<Rightarrow> unit result \<times> 's) \<Rightarrow> 's \<Rightarrow> unit result \<times> 's" where
  "stop_then_start stop_op start_op s =
     (case stop_op s of (Inl e, s1) \<Rightarrow> (Inl e, s1) | (Inr _, s1) \<Rightarrow> start_op s1)"

locale sut_contract =
  fixes running :: "'s \<Rightarrow> bool"
    and start :: "'s \<Rightarrow> unit result \<times> 's"
    and stop :: "'s \<Rightarrow> unit result \<times> 's"
  assumes start_Ok: "start s = (Inr u, s') \<Longrightarrow> running s'"
    and start_running: "running s \<Longrightarrow> start s = (Inr (), s)"
    and stop_Ok: "stop s = (Inr u, s') \<Longrightarrow> \<not> running s'"
begin

lemma restart_Ok: "stop_then_start stop start s = (Inr u, s') \<Longrightarrow> running s'"
  by (auto simp: stop_then_start_def dest: start_Ok split: prod.splits sum.splits)

lemma restart_stops_first:
  "stop_then_start stop start s = (Inr u, s') \<Longrightarrow>
   \<exists>s1. stop s = (Inr (), s1) \<and> \<not> running s1 \<and> start s1 = (Inr u, s')"
  by (auto simp: stop_then_start_def dest: stop_Ok split: prod.splits sum.splits)

end

text \<open>A SUT over any channel that keeps the channel contract keeps the SUT contract.\<close>

locale channel_contract =
  lifecycle "cc_active C" "cc_communicate C" "cc_stop C" for C :: "'c com_channel"

lemma is_running_True:
  "is_running C s = Inr True \<longleftrightarrow> (\<exists>ch. gs_channel s = Some ch \<and> cc_active C ch)"
  by (cases "gs_channel s") (auto simp: is_running_def channel_def)

lemma sut_stop_cases:
  "sut_stop C s = (r, s') \<Longrightarrow>
   (case gs_channel s of
      None \<Rightarrow> r = Inl (SutE ''SUT is not initialized'') \<and> s' = s
    | Some ch \<Rightarrow> if cc_active C ch
        then r = fst (cc_stop C ch) \<and> s' = s\<lparr>gs_channel := Some (snd (cc_stop C ch))\<rparr>
        else r = Inr () \<and> s' = s)"
  by (auto simp: sut_stop_def is_running_def channel_def on_channel_def
      split: option.splits prod.splits if_splits)

lemma sut_start_cases:
  "sut_start C s = (r, s') \<Longrightarrow>
   (case gs_channel s of
      None \<Rightarrow> r = Inl (SutE ''SUT is not initialized'') \<and> s' = s
    | Some ch \<Rightarrow> if cc_active C ch then r = Inr () \<and> s' = s
        else (let p = ensure_communicate (cc_communicate C) (cc_stop C) COMMUNICATE_RETRIES ch
              in r = fst p \<and> s' = s\<lparr>gs_channel := Some (snd p)\<rparr>))"
  by (auto simp: sut_start_def is_running_def channel_def on_channel_def Let_def
      split: option.splits prod.splits if_splits)

sublocale channel_contract \<subseteq> sut: sut_contract "\<lambda>s. is_running C s = Inr True" "sut_start C" "sut_stop C"
proof
  fix s s' :: "'c generic_sut" and u
  assume "sut_start C s = (Inr u, s')"
  then show "is_running C s' = Inr True"
    using sut_start_cases [of C s "Inr u" s']
    by (auto simp: is_running_True Let_def prod_eq_iff
        intro: ensure_Ok_active [of COMMUNICATE_RETRIES _ u] split: option.splits if_splits)
next
  fix s :: "'c generic_sut"
  assume "is_running C s = Inr True"
  then show "sut_start C s = (Inr (), s)" by (simp add: sut_start_def)
next
  fix s s' :: "'c generic_sut" and u
  assume a: "sut_stop C s = (Inr u, s')"
  then obtain ch where ch: "gs_channel s = Some ch"
    using sut_stop_cases [OF a] by (auto split: option.splits)
  show "is_running C s' \<noteq> Inr True"
  proof (cases "cc_active C ch")
    case True
    with sut_stop_cases [OF a] ch have "cc_stop C ch = (Inr u, snd (cc_stop C ch))"
      and "s' = s\<lparr>gs_channel := Some (snd (cc_stop C ch))\<rparr>"
      by (auto simp: prod_eq_iff)
    with stop_Ok [of ch u "snd (cc_stop C ch)"] show ?thesis by (auto simp: is_running_True)
  next
    case False
    with sut_stop_cases [OF a] ch show ?thesis by (auto simp: is_running_True)
  qed
qed

context channel_contract
begin

lemma sut_restart_eq: "sut_restart C s = stop_then_start (sut_stop C) (sut_start C) s"
  by (simp add: stop_then_start_def sut_restart_def)

lemma sut_restart_running: "sut_restart C s = (Inr u, s') \<Longrightarrow> is_running C s' = Inr True"
  unfolding sut_restart_eq by (rule sut.restart_Ok)

end

interpretation shell_sut: channel_contract "shell_channel os" for os
  using shell.lifecycle_axioms by (simp add: channel_contract_def shell_channel_def)

text \<open>
  Restarting a SUT over the shell channel always succeeds and leaves it running with no
  command of the previous session tracked; every process group that was tracked has been signalled.
\<close>

theorem shell_sut_restart:
  assumes "gs_channel s = Some sh" and "\<forall>p \<in> set (sh_pids sh). in_i32 (int p)"
    and "sh_active sh \<or> sh_pids sh = []"
  shows "\<exists>s' sh'. sut_restart (shell_channel os) s = (Inr (), s') \<and> gs_channel s' = Some sh' \<and>
     sh_active sh' \<and> sh_pids sh' = [] \<and> set (sh_pids sh) \<subseteq> set (sh_killed sh')"
proof -
  have start: "ensure_communicate shell_communicate shell_stop COMMUNICATE_RETRIES ch
      = (Inr (), ch\<lparr>sh_active := True\<rparr>)" if "\<not> sh_active ch" for ch
    using that
    by (simp add: ensure_communicate_def COMMUNICATE_RETRIES_def ensure_loop.simps [of _ _ 0]
        shell_communicate_def)
  show ?thesis
    using assms start
    by (auto simp: sut_restart_def sut_start_def sut_stop_def is_running_def channel_def
        on_channel_def shell_channel_def shell_stop_def kill_all_killed)
qed

text \<open>A shell SUT with one running command, for the examples below.\<close>

definition busy_shell :: "bool \<Rightarrow> shell generic_sut" where
  "busy_shell flight = generic_sut_new
     \<lparr>gs_channel := Some (shell_new\<lparr>sh_active := True, sh_pids := [7]\<rparr>),
      gs_taint := \<lparr> in_flight = flight, cached = Some \<lparr> ti_code = 0, ti_messages = [] \<rparr> \<rparr>\<rparr>"

lemma shell_sut_restart_witness:
  "\<exists>s' sh'. sut_restart (shell_channel sleep_os) (busy_shell False) = (Inr (), s') \<and>
     gs_channel s' = Some sh' \<and> sh_active sh' \<and> sh_pids sh' = [] \<and> 7 \<in> set (sh_killed sh')"
  using shell_sut_restart
    [of "busy_shell False" "shell_new\<lparr>sh_active := True, sh_pids := [7]\<rparr>" sleep_os]
  by (simp add: busy_shell_def in_i32_def)

section \<open>Reading the taint code\<close>

lemma TAINTED_MSG_distinct: "distinct TAINTED_MSG"
  by (simp add: TAINTED_MSG_def)

lemma length_TAINTED_MSG: "length TAINTED_MSG = 18"
  by (simp add: TAINTED_MSG_def)

lemma taint_messages_filter:
  "taint_messages c = map ((!) TAINTED_MSG) (filter (bit c) [0..<18])"
proof -
  have bits: "and (drop_bit i c) 1 = 1 \<longleftrightarrow> bit c i" for i
    by (simp add: bit_iff_odd_drop_bit and_one_eq odd_iff_mod_2_eq_one)
  have "enumerate 0 TAINTED_MSG = map (\<lambda>i. (i, TAINTED_MSG ! i)) [0..<18]"
    by (simp add: enumerate_eq_zip length_TAINTED_MSG list_eq_iff_nth_eq)
  then show ?thesis by (simp add: taint_messages_def filter_map comp_def bits)
qed

lemma taint_messages_subseq: "subseq (taint_messages c) TAINTED_MSG"
proof -
  have "subseq (map ((!) TAINTED_MSG) (filter (bit c) [0..<18])) (map ((!) TAINTED_MSG) [0..<18])"
    by (rule subseq_map) simp
  moreover have "map ((!) TAINTED_MSG) [0..<18] = TAINTED_MSG"
    using map_nth [of TAINTED_MSG] by (simp add: length_TAINTED_MSG)
  ultimately show ?thesis by (simp add: taint_messages_filter)
qed

lemma taint_messages_mem:
  "i < 18 \<Longrightarrow> TAINTED_MSG ! i \<in> set (taint_messages c) \<longleftrightarrow> bit c i"
  using TAINTED_MSG_distinct length_TAINTED_MSG
  by (auto simp: taint_messages_filter nth_eq_iff_index_eq)

lemma parse_tainted_number:
  assumes "n < 2 ^ 64"
  shows "parse_tainted (show_nat n @ [CHR 0x0A])
    = Inr \<lparr> ti_code = of_nat n, ti_messages = taint_messages (of_nat n) \<rparr>"
  using assms show_nat_digits [of n]
  by (simp add: parse_tainted_def trim_show_nat parse_show_unsigned Let_def)

text \<open>
  The kernel's taint number, as the kernel prints it, is read back exactly, and the
  messages are those of the set bits among the eighteen known ones, in the order of the bits.
\<close>

theorem parse_tainted_roundtrip:
  assumes "n < 2 ^ 64"
  shows "\<exists>info. parse_tainted (show_nat n @ [CHR 0x0A]) = Inr info \<and> unat (ti_code info) = n \<and>
     subseq (ti_messages info) TAINTED_MSG \<and>
     (\<forall>i < 18. TAINTED_MSG ! i \<in> set (ti_messages info) \<longleftrightarrow> bit n i)"
  using assms
  by (simp add: parse_tainted_number taint_messages_subseq taint_messages_mem
      unat_of_nat take_bit_nat_eq_self bit_of_nat_iff take_bit_eq_mod)

lemma parse_tainted_roundtrip_witness:
  "\<exists>info. parse_tainted (show_nat 4097 @ [CHR 0x0A]) = Inr info \<and> unat (ti_code info) = 4097 \<and>
     TAINTED_MSG ! 12 \<in> set (ti_messages info) \<and> TAINTED_MSG ! 1 \<notin> set (ti_messages info)"
proof -
  have b: "bit (4097 :: nat) 12" "\<not> bit (4097 :: nat) 1" by (simp_all add: bit_iff_odd)
  from parse_tainted_roundtrip [of 4097] obtain info where
    info: "parse_tainted (show_nat 4097 @ [CHR 0x0A]) = Inr info" "unat (ti_code info) = 4097"
    and m: "\<forall>i < 18. TAINTED_MSG ! i \<in> set (ti_messages info) \<longleftrightarrow> bit (4097 :: nat) i"
    by auto
  show ?thesis
    using info spec [OF m, of 12] spec [OF m, of 1] b by simp
qed

section \<open>The taint cache\<close>

lemma probe_done:
  assumes "gs_channel s = Some ch" and "cc_active C ch" and "\<not> in_flight (gs_taint s)"
  shows "let f = cc_run_command C TAINTED_CMD None None ch; p = get_tainted_info C s
    in fut_value p = taint_of_result (fut_value f) \<and>
       fut_done p = s\<lparr>gs_channel := Some (fut_done f),
         gs_taint := \<lparr> in_flight = False,
           cached = (case taint_of_result (fut_value f) of
                       Inr info \<Rightarrow> Some info | Inl _ \<Rightarrow> cached (gs_taint s)) \<rparr>\<rparr>"
  using assms
  by (cases s; cases "gs_taint s")
    (auto simp: get_tainted_info_def is_running_def channel_def taint_begin_def taint_end_def
      Let_def ok_value_def split: sum.splits)

text \<open>The information a number of the kernel stands for.\<close>

definition kernel_info :: "nat \<Rightarrow> tainted_info" where
  "kernel_info n =
     \<lparr> ti_code = of_nat n, ti_messages = map ((!) TAINTED_MSG) (filter (bit n) [0..<18]) \<rparr>"

lemma kernel_info_messages: "kernel_info n = \<lparr> ti_code = of_nat n, ti_messages = taint_messages (of_nat n) \<rparr>"
proof -
  have "filter (bit n) [0..<18] = filter (bit (of_nat n :: u64)) [0..<18]"
    by (rule filter_cong) (simp_all add: bit_of_nat_iff)
  then show ?thesis by (simp add: kernel_info_def taint_messages_filter)
qed

lemma taint_of_result_iff:
  "taint_of_result r = Inr info \<longleftrightarrow>
     (\<exists>row n. r = Inr (Some row) \<and> cr_returncode row = 0 \<and> trim (cr_stdout row) \<noteq> [] \<and>
        list_all is_digit (trim (cr_stdout row)) \<and> parse_u64 (trim (cr_stdout row)) = Some n \<and> info = kernel_info n)"
proof (cases r)
  case (Inr row)
  then show ?thesis
    by (cases row) (auto simp: taint_of_result_def parse_tainted_def Let_def kernel_info_messages split: option.split)
qed (simp add: taint_of_result_def)

text \<open>
  Claim C19: a taint probe that is not cancelled answers with what the kernel reports now, never with
  the cache. It succeeds exactly when its command ran, ended with code 0 and printed a decimal number
  below \<open>2 ^ 64\<close>, blanks around it aside: the code is that number, as the kernel prints it, and the
  messages are those of its set bits among the known ones, in order. An error of the channel is
  passed on and a failed command is an error of its own. An answer becomes the cached one, an error
  leaves the cache alone, and no probe is in flight afterwards.
\<close>

theorem taint_probe_reads_the_kernel:
  assumes "gs_channel s = Some ch" and "cc_active C ch" and "\<not> in_flight (gs_taint s)"
  shows "let f = cc_run_command C TAINTED_CMD None None ch; p = get_tainted_info C s
    in (\<forall>info. fut_value p = Ok info \<longleftrightarrow>
          (\<exists>row n. fut_value f = Ok (Some row) \<and> cr_returncode row = 0 \<and> trim (cr_stdout row) \<noteq> [] \<and>
             list_all is_digit (trim (cr_stdout row)) \<and> parse_u64 (trim (cr_stdout row)) = Some n \<and>
             info = kernel_info n)) \<and>
       (\<forall>row n. fut_value f = Ok (Some row) \<and> cr_returncode row = 0 \<and> cr_stdout row = show_nat n @ [CHR 0x0A] \<and>
          n < 2 ^ 64 \<longrightarrow> fut_value p = Ok (kernel_info n)) \<and>
       (\<forall>e. fut_value f = Err e \<longrightarrow> fut_value p = Err e) \<and>
       (\<forall>row. fut_value f = Ok None \<or> fut_value f = Ok (Some row) \<and> cr_returncode row \<noteq> 0 \<longrightarrow>
          fut_value p = Err taint_unreadable) \<and>
       fut_done p = s\<lparr>gs_channel := Some (fut_done f),
         gs_taint := \<lparr> in_flight = False,
           cached = (case fut_value p of Inr info \<Rightarrow> Some info | Inl _ \<Rightarrow> cached (gs_taint s)) \<rparr>\<rparr>"
proof -
  have kernel: "taint_of_result (Inr (Some row)) = Inr (kernel_info n)"
    if "cr_returncode row = 0" and "cr_stdout row = show_nat n @ [CHR 0x0A]" and "n < 2 ^ 64" for row n
    using that by (simp add: taint_of_result_def parse_tainted_number kernel_info_messages)
  have failed: "taint_of_result (Inl e) = Inl e" "taint_of_result (Inr None) = Inl taint_unreadable"
    "cr_returncode row \<noteq> 0 \<Longrightarrow> taint_of_result (Inr (Some row)) = Inl taint_unreadable" for e row
    by (simp_all add: taint_of_result_def)
  show ?thesis
    using probe_done [OF assms] kernel failed by (auto simp: Let_def taint_of_result_iff)
qed

lemma taint_probe_reads_the_kernel_witness:
  "in_flight (gs_taint (fut_done (get_tainted_info (shell_channel sleep_os) (busy_shell False)))) = False"
  using taint_probe_reads_the_kernel
    [of "busy_shell False" "shell_new\<lparr>sh_active := True, sh_pids := [7]\<rparr>" "shell_channel sleep_os"]
  by (simp add: busy_shell_def shell_channel_def Let_def)

text \<open>
  A taint probe cancelled while its command runs (a suite timeout, an interrupted
  session) disables taint detection for good once an answer has been cached: whatever the channel
  would answer later, every further call returns the old value at once, runs no command and leaves
  the SUT in the same state.
\<close>

theorem taint_cancelled_serves_stale:
  assumes "gs_channel s = Some ch" and "cc_active C ch" and "\<not> in_flight (gs_taint s)"
    and "cached (gs_taint s) = Some old" and "cc_active C later"
  shows "let s1 = (fut_dropped (get_tainted_info C s) t)\<lparr>gs_channel := Some later\<rparr>
    in get_tainted_info C s1 = ready (Inr old) s1 \<and> in_flight (gs_taint s1)"
  using assms
  by (simp add: get_tainted_info_def is_running_def channel_def taint_begin_def Let_def)

lemma taint_cancelled_serves_stale_witness:
  "fut_value (get_tainted_info (shell_channel sleep_os)
     ((fut_dropped (get_tainted_info (shell_channel sleep_os) (busy_shell False)) 1)
        \<lparr>gs_channel := Some (shell_new\<lparr>sh_active := True\<rparr>)\<rparr>)) = Inr \<lparr> ti_code = 0, ti_messages = [] \<rparr>"
  using taint_cancelled_serves_stale
    [of "busy_shell False" "shell_new\<lparr>sh_active := True, sh_pids := [7]\<rparr>" "shell_channel sleep_os"
        "\<lparr> ti_code = 0, ti_messages = [] \<rparr>" "shell_new\<lparr>sh_active := True\<rparr>" 1]
  by (simp add: busy_shell_def shell_channel_def Let_def ready_def)

section \<open>Fault injection\<close>

text \<open>The channel after a sequence of commands, and whether one more is accepted there.\<close>

definition after_cmds :: "'c com_channel \<Rightarrow> string list \<Rightarrow> 'c \<Rightarrow> 'c" where
  "after_cmds C cmds ch = fold (\<lambda>cmd c. snd (run_now C cmd c)) cmds ch"

definition accepted :: "cmd_result option result \<Rightarrow> bool" where
  "accepted r \<longleftrightarrow> (\<exists>res. r = Inr (Some res) \<and> cr_returncode res = 0)"

definition fault_commands :: "u32 \<Rightarrow> u32 \<Rightarrow> string list" where
  "fault_commands prob interval = map (\<lambda>(v, p). write_fault_command v p) (fault_writes prob interval)"

lemma write_fault_value_run:
  "write_fault_value C v p ch = (r, ch') \<Longrightarrow>
   ch' = snd (run_now C (write_fault_command v p) ch) \<and>
   (r = Inr () \<longleftrightarrow> accepted (fst (run_now C (write_fault_command v p) ch)))"
  by (auto simp: write_fault_value_def accepted_def
      split: prod.splits sum.splits option.splits if_splits)

text \<open>Whether the write with index \<open>k\<close> is accepted in the state it runs in.\<close>

definition accepted_at :: "'c com_channel \<Rightarrow> string list \<Rightarrow> 'c \<Rightarrow> nat \<Rightarrow> bool" where
  "accepted_at C cmds ch k = accepted (fst (run_now C (cmds ! k) (after_cmds C (take k cmds) ch)))"

definition in_order :: "'c com_channel \<Rightarrow> string list \<Rightarrow> 'c \<Rightarrow> unit result \<times> 'c \<Rightarrow> bool" where
  "in_order C cmds ch res \<longleftrightarrow>
     (fst res = Inr () \<and> snd res = after_cmds C cmds ch \<and> (\<forall>k < length cmds. accepted_at C cmds ch k)) \<or>
     (fst res \<noteq> Inr () \<and> (\<exists>k < length cmds. snd res = after_cmds C (take (Suc k) cmds) ch \<and>
        \<not> accepted_at C cmds ch k \<and> (\<forall>j < k. accepted_at C cmds ch j)))"

lemma accepted_at_Suc:
  "accepted_at C (c # cmds) ch (Suc k) = accepted_at C cmds (snd (run_now C c ch)) k"
  "accepted_at C (c # cmds) ch 0 = accepted (fst (run_now C c ch))"
  by (simp_all add: accepted_at_def after_cmds_def)

lemma in_order_Cons:
  assumes "accepted (fst (run_now C c ch))" and "in_order C cmds (snd (run_now C c ch)) res"
  shows "in_order C (c # cmds) ch res"
proof -
  have all: "(\<forall>k < Suc n. P k) \<longleftrightarrow> P 0 \<and> (\<forall>k < n. P (Suc k))" for P n
    by (rule All_less_Suc2)
  have ex: "(\<exists>k < Suc n. P k) \<longleftrightarrow> P 0 \<or> (\<exists>k < n. P (Suc k))" for P n
    by (rule Ex_less_Suc2)
  show ?thesis
    using assms unfolding in_order_def length_Cons ex all accepted_at_Suc
    by (auto simp: after_cmds_def)
qed

lemma in_order_refused:
  assumes "\<not> accepted (fst (run_now C c ch))" and "r \<noteq> Inr ()"
  shows "in_order C (c # cmds) ch (r, snd (run_now C c ch))"
  using assms unfolding in_order_def
  by (intro disjI2 conjI exI [of _ 0]) (simp_all add: accepted_at_Suc after_cmds_def)

lemma try_fold_writes:
  "in_order C (map (\<lambda>(v, p). write_fault_command v p) ws) ch
     (try_fold (\<lambda>ch (v, p). write_fault_value C v p ch) ws ch)"
proof (induction ws arbitrary: ch)
  case Nil
  then show ?case by (simp add: in_order_def after_cmds_def)
next
  case (Cons w ws)
  obtain v p where w: "w = (v, p)" by fastforce
  obtain r1 ch1 where s1: "write_fault_value C v p ch = (r1, ch1)" by fastforce
  note run = write_fault_value_run [OF s1]
  show ?case
  proof (cases r1)
    case (Inl e)
    then show ?thesis
      using s1 run w in_order_refused [of C "write_fault_command v p" ch "Inl e"] by simp
  next
    case (Inr u)
    then show ?thesis using s1 run w in_order_Cons Cons.IH [of ch1] by simp
  qed
qed

lemma fault_commands_reset: "fault_commands 0 i = fault_commands 0 0"
  by (simp add: fault_commands_def fault_writes_def)

lemma length_fault_commands: "length (fault_commands prob interval) = 16"
  by (simp add: fault_commands_def fault_writes_def FAULT_INJECTION_FILES_def fault_knobs_def Let_def)

text \<open>
  Setting up fault injection on a running SUT runs its sixteen writes in the order of
  the knobs: it succeeds exactly when each is accepted where it runs, and otherwise stops right
  after the first one that is refused. Probability 0 writes the same defaults whatever the interval.
\<close>

theorem setup_fault_injection_in_order:
  assumes "gs_channel s = Some ch" and "cc_active C ch"
  shows "length (fault_commands prob interval) = 16 \<and> fault_commands 0 interval = fault_commands 0 0 \<and>
    (\<exists>r ch'. setup_fault_injection C prob interval s = (r, s\<lparr>gs_channel := Some ch'\<rparr>) \<and>
       in_order C (fault_commands prob interval) ch (r, ch'))"
proof -
  obtain r ch' where f: "try_fold (\<lambda>ch (v, p). write_fault_value C v p ch)
      (fault_writes prob interval) ch = (r, ch')"
    by fastforce
  have "setup_fault_injection C prob interval s = (r, s\<lparr>gs_channel := Some ch'\<rparr>)"
    using assms f
    by (simp add: setup_fault_injection_def while_running_def is_running_def channel_def on_channel_def)
  moreover have "in_order C (fault_commands prob interval) ch (r, ch')"
    using try_fold_writes [of C "fault_writes prob interval" ch] f by (simp add: fault_commands_def)
  ultimately show ?thesis
    using length_fault_commands [of prob interval] fault_commands_reset [of interval] by blast
qed

lemma setup_fault_injection_in_order_witness:
  "\<exists>r ch'. setup_fault_injection (shell_channel sleep_os) 10 100 (busy_shell False)
       = (r, (busy_shell False)\<lparr>gs_channel := Some ch'\<rparr>)"
  using setup_fault_injection_in_order
    [of "busy_shell False" "shell_new\<lparr>sh_active := True, sh_pids := [7]\<rparr>" "shell_channel sleep_os" 10 100]
  by (auto simp: busy_shell_def shell_channel_def)

section \<open>Parallel probes\<close>

text \<open>A channel whose completed or expired probes leave its session as it was.\<close>

definition probes_keep_session :: "'c com_channel \<Rightarrow> 'c \<Rightarrow> bool" where
  "probes_keep_session C ch \<longleftrightarrow>
     cc_concurrent_handle C ch = Some ch \<and> (\<forall>cmd \<in> set PROBE_COMMANDS. snd (run_probe C cmd ch) = ch)"

lemma run_cmds_keep:
  assumes "gs_channel s = Some ch" and "\<forall>cmd \<in> set cmds. snd (run_probe C cmd ch) = ch"
    and "\<forall>cmd \<in> set cmds. fst (run_probe C cmd ch) = Inr (out cmd)"
  shows "run_cmds C cmds s = (Inr (map out cmds), s)"
  using assms(2,3)
proof (induction cmds)
  case Nil
  then show ?case by simp
next
  case (Cons cmd cmds)
  then have "run_probe C cmd ch = (Inr (out cmd), ch)" by (simp add: prod_eq_iff)
  then have "run_cmd C cmd s = (Inr (out cmd), s)"
    using assms(1) by (cases s) (simp add: run_cmd_def on_channel_def channel_def)
  with Cons show ?case by simp
qed

lemma join_probes_Ok:
  assumes "\<And>i. i < length vals \<Longrightarrow> outcome i = Inr (out i)"
  shows "set idx \<subseteq> {..< length vals} \<Longrightarrow>
    \<exists>vs. join_probes outcome idx vals = Inr vs \<and> length vs = length vals \<and>
      (\<forall>i < length vals. vs ! i = (if i \<in> set idx then out i else vals ! i))"
  using assms
proof (induction idx arbitrary: vals)
  case Nil
  then show ?case by simp
next
  case (Cons i idx)
  then show ?case using Cons.IH [of "vals[i := out i]"] by (auto simp: nth_list_update)
qed

text \<open>
  Gathering the probes in parallel gives the information the sequential order gives,
  in whatever order the probes complete, on a channel whose probes answer and leave the session
  as it was.
\<close>

theorem get_info_parallel_eq_sequential:
  assumes "gs_channel s = Some ch" and "probes_keep_session C ch"
    and "\<forall>cmd \<in> set PROBE_COMMANDS. is_ok (fst (run_probe C cmd ch))"
    and "set order = {..<7}"
  shows "run_probes_parallel C order s = run_probes_sequential C s \<and>
    fst (get_info C captures order (set_optimize True s))
      = fst (get_info C captures order (set_optimize False s))"
proof -
  define out where "out = (\<lambda>cmd. projr (fst (run_probe C cmd ch)))"
  have out: "fst (run_probe C cmd ch) = Inr (out cmd)" if "cmd \<in> set PROBE_COMMANDS" for cmd
    using assms(3) that by (auto simp: out_def is_ok_iff)
  have len: "length PROBE_COMMANDS = 7" by (simp add: PROBE_COMMANDS_def)
  have seq: "run_probes_sequential C s' = (Inr (map out PROBE_COMMANDS), s')"
    if "gs_channel s' = Some ch" for s'
    using run_cmds_keep [of s' ch PROBE_COMMANDS C out] that assms(2) out
    by (simp add: run_probes_sequential_def probes_keep_session_def)
  have "\<exists>vs. join_probes (\<lambda>i. fst (run_probe C (PROBE_COMMANDS ! i) ch)) order (replicate 7 []) = Inr vs \<and>
      length vs = 7 \<and> (\<forall>i < 7. vs ! i = out (PROBE_COMMANDS ! i))"
    using join_probes_Ok [of "replicate 7 []" "\<lambda>i. fst (run_probe C (PROBE_COMMANDS ! i) ch)"
        "\<lambda>i. out (PROBE_COMMANDS ! i)" order] assms(4) out len
    by simp
  then have "join_probes (\<lambda>i. fst (run_probe C (PROBE_COMMANDS ! i) ch)) order (replicate 7 [])
      = Inr (map out PROBE_COMMANDS)"
    using len by (auto simp: list_eq_iff_nth_eq)
  then have par: "run_probes_parallel C order s' = (Inr (map out PROBE_COMMANDS), s')"
    if "gs_channel s' = Some ch" for s'
    using that assms(2) len
    by (simp add: run_probes_parallel_def channel_def probe_handle_def probes_keep_session_def)
  show ?thesis
    using assms(1) seq [of s] par [of s] seq [of "set_optimize False s"]
      seq [of "set_optimize True s"] par [of "set_optimize True s"]
    by (simp add: get_info_def is_running_def channel_def set_optimize_def split: bool.split)
qed

text \<open>A shell whose commands succeed at once without output, and a regular expression that never matches.\<close>

definition echo_os :: os where
  "echo_os = sleep_os\<lparr>os_spawn := \<lambda>_ _ _. Inr (sleep_process\<lparr>pr_time := 1000\<rparr>)\<rparr>"

lemma get_info_parallel_eq_sequential_witness:
  "let s = generic_sut_new\<lparr>gs_channel := Some (shell_new\<lparr>sh_active := True\<rparr>)\<rparr>
   in fst (get_info (shell_channel echo_os) (\<lambda>_ _. Inr None) [6, 5, 4, 3, 2, 1, 0] (set_optimize True s))
    = fst (get_info (shell_channel echo_os) (\<lambda>_ _. Inr None) [6, 5, 4, 3, 2, 1, 0] (set_optimize False s))"
proof -
  let ?sh = "shell_new\<lparr>sh_active := True\<rparr>"
  have "trim cmd \<noteq> []" if "cmd \<in> set PROBE_COMMANDS" for cmd
    using that by (auto simp: PROBE_COMMANDS_def trim_graphic)
  moreover have "command_outcome cmd [] \<lparr> es_code = Some 0, es_signal = None \<rparr> t
      = Inr (Some \<lparr> cr_command = cmd, cr_returncode = 0, cr_stdout = [], cr_exec_time = t \<rparr>)"
    for cmd t
    by (simp add: command_outcome_def read_loop_def read_init_def exit_code_def)
  ultimately have "run_probe (shell_channel echo_os) cmd ?sh = (Inr [], ?sh)"
    if "cmd \<in> set PROBE_COMMANDS" for cmd
    using that
    by (simp add: run_probe_def shell_channel_def shell_run_command_def echo_os_def sleep_os_def
        sleep_process_def shell_new_def try_register_def drop_tracked_def unregister_pid_def
        read_loop_def read_init_def await_timeout_def RUN_CMD_TIMEOUT_def probe_output_def)
  then have "probes_keep_session (shell_channel echo_os) ?sh"
    and "\<forall>cmd \<in> set PROBE_COMMANDS. is_ok (fst (run_probe (shell_channel echo_os) cmd ?sh))"
    by (simp_all add: probes_keep_session_def shell_channel_def)
  moreover have "set [6, 5, 4, 3, 2, 1, 0] = {..<7 :: nat}" by auto
  ultimately show ?thesis
    using get_info_parallel_eq_sequential
      [of "generic_sut_new\<lparr>gs_channel := Some ?sh\<rparr>" ?sh "shell_channel echo_os" "[6, 5, 4, 3, 2, 1, 0]"]
    by (simp add: Let_def)
qed

section \<open>Redirecting output to events\<close>

definition TEST_STDOUT_EVENT :: string where
  "TEST_STDOUT_EVENT = ''test_stdout''"

definition SUT_STDOUT_EVENT :: string where
  "SUT_STDOUT_EVENT = ''sut_stdout''"

definition RUN_CMD_STDOUT_EVENT :: string where
  "RUN_CMD_STDOUT_EVENT = ''run_cmd_stdout''"

record redirect_test =
  rt_test :: test
  rt_stdout :: string

definition redirect_test_new :: "test \<Rightarrow> redirect_test" where
  "redirect_test_new t = \<lparr> rt_test = t, rt_stdout = [] \<rparr>"

definition redirect_test_write ::
  "string \<Rightarrow> redirect_test \<times> registry \<Rightarrow> unit result \<times> redirect_test \<times> registry" where
  "redirect_test_write txt b =
     (case b of (rt, reg) \<Rightarrow>
        (case fire TEST_STDOUT_EVENT (P_TestStdout (rt_test rt) txt) reg of
           (Inl e, reg1) \<Rightarrow> (Err e, rt, reg1)
         | (Inr _, reg1) \<Rightarrow> (Ok (), rt\<lparr>rt_stdout := rt_stdout rt @ txt\<rparr>, reg1)))"

lemma redirect_test_write_pair:
  "redirect_test_write txt (rt, reg) =
     (Ok (), rt\<lparr>rt_stdout := rt_stdout rt @ txt\<rparr>, snd (fire ''test_stdout'' (P_TestStdout (rt_test rt) txt) reg))"
  by (auto simp: redirect_test_write_def TEST_STDOUT_EVENT_def fire_def split: option.splits)

interpretation redirect_test: io_buffer redirect_test_write "\<lambda>b. rt_stdout (fst b)"
  by unfold_locales (auto simp: redirect_test_write_pair split: prod.splits)

text \<open>The redirect of the SUT and the streaming buffer of the scheduler are the same buffer.\<close>

lemma redirect_is_streaming_buffer:
  "put_all redirect_test_write cs (\<lparr> rt_test = t, rt_stdout = out \<rparr>, reg) =
     (Ok (), \<lparr> rt_test = t, rt_stdout = sb_inner sb \<rparr>, reg')
   \<longleftrightarrow> put_all buffer_write cs (\<lparr> sb_inner = out, sb_stream = Some t \<rparr>, reg) =
     (Ok (), \<lparr> sb_inner = sb_inner sb, sb_stream = Some t \<rparr>, reg')"
  by (induction cs arbitrary: out reg) (simp_all add: redirect_test_write_pair buffer_write_pair)

record redirect_sut =
  rs_sut_name :: string
  rs_is_cmd :: bool

definition redirect_sut_write :: "redirect_sut \<Rightarrow> string \<Rightarrow> registry \<Rightarrow> unit result \<times> registry" where
  "redirect_sut_write rs txt reg =
     (if rs_is_cmd rs then fire RUN_CMD_STDOUT_EVENT (P_Text txt) reg
      else fire SUT_STDOUT_EVENT (P_SutStdout (rs_sut_name rs) txt) reg)"

text \<open>
  Writing chunks through a test redirect never fails, accumulates them in order, and
  queues exactly one \<open>test_stdout\<close> event of the test per chunk when the event has a handler.
\<close>

theorem redirect_test_accumulates:
  "let (r, rt', reg') = try_fold (\<lambda>b txt. redirect_test_write txt b) chunks (rt, reg) in
     r = Inr () \<and> rt' = rt\<lparr>rt_stdout := rt_stdout rt @ concat chunks\<rparr> \<and> rg_events reg' = rg_events reg \<and>
     rg_queue reg' = rg_queue reg @
       (if handlers_of reg ''test_stdout'' = [] then []
        else map (\<lambda>txt. Dispatch ''test_stdout'' (handlers_of reg ''test_stdout'')
               (ee_ordered (the (rg_events reg ''test_stdout'')))
               \<lparr> ea_event = ''test_stdout'', ea_payload = P_TestStdout (rt_test rt) txt \<rparr>) chunks)"
proof (induction chunks arbitrary: rt reg)
  case Nil
  then show ?case by simp
next
  case (Cons c cs)
  define reg1 where "reg1 = snd (fire ''test_stdout'' (P_TestStdout (rt_test rt) c) reg)"
  define rt1 where "rt1 = rt\<lparr>rt_stdout := rt_stdout rt @ c\<rparr>"
  have q: "rg_queue reg1 = rg_queue reg @
      (if handlers_of reg ''test_stdout'' = [] then []
       else [Dispatch ''test_stdout'' (handlers_of reg ''test_stdout'')
              (ee_ordered (the (rg_events reg ''test_stdout'')))
              \<lparr> ea_event = ''test_stdout'', ea_payload = P_TestStdout (rt_test rt) c \<rparr>])"
    by (auto simp: reg1_def fire_def handlers_of_def split: option.splits)
  have ev: "rg_events reg1 = rg_events reg" by (simp add: reg1_def)
  then have h: "handlers_of reg1 = handlers_of reg" by (simp add: handlers_of_def fun_eq_iff)
  have "redirect_test_write c (rt, reg) = (Inr (), rt1, reg1)"
    by (auto simp: redirect_test_write_def reg1_def rt1_def TEST_STDOUT_EVENT_def fire_def
        split: option.splits prod.splits if_splits)
  then show ?case
    using Cons.IH [of rt1 reg1] q h ev by (simp add: rt1_def split_beta Let_def)
qed

end
