(* ===== verification/Action.thy ===== *)
theory Action
  imports Rust_Async
begin

text \<open>
  Asynchronous code as actions: from a state, the future it runs. Sequencing two actions gives a
  future whose cancellation at a time falls into the one that is running then, so that the state
  a dropped caller leaves behind is part of every definition written with these operators. The
  judgement \<open>spec P a Q R\<close> says that from a state of \<open>P\<close>, completion establishes \<open>Q\<close> and being
  dropped at any time leaves \<open>R\<close>.
\<close>

type_synonym ('a, 's) action = "'s \<Rightarrow> ('a, 's) future"

definition pure :: "'a \<Rightarrow> ('a, 's) action" where
  "pure x s = ready x s"

definition get :: "('s \<Rightarrow> 'a) \<Rightarrow> ('a, 's) action" where
  "get f s = ready (f s) s"

definition upd :: "('s \<Rightarrow> 's) \<Rightarrow> (unit, 's) action" where
  "upd f s = ready () (f s)"

definition bind :: "('a, 's) action \<Rightarrow> ('a \<Rightarrow> ('b, 's) action) \<Rightarrow> ('b, 's) action" where
  "bind a k s =
     (let f = a s; g = k (fut_value f) (fut_done f)
      in \<lparr> fut_time = fut_time f + fut_time g, fut_value = fut_value g, fut_done = fut_done g,
           fut_dropped = \<lambda>t. if t < fut_time f then fut_dropped f t
                              else fut_dropped g (t - fut_time f) \<rparr>)"

text \<open>\<open>timeout(d, a).await\<close> and the same with the timeout switched off.\<close>

definition with_timeout :: "nat \<Rightarrow> ('a, 's) action \<Rightarrow> ('a option, 's) action" where
  "with_timeout d a s =
     (let f = a s
      in if fut_time f \<le> d
         then \<lparr> fut_time = fut_time f, fut_value = Some (fut_value f), fut_done = fut_done f,
                fut_dropped = fut_dropped f \<rparr>
         else \<lparr> fut_time = d, fut_value = None, fut_done = fut_dropped f d,
                fut_dropped = fut_dropped f \<rparr>)"

definition no_timeout :: "('a, 's) action \<Rightarrow> ('a option, 's) action" where
  "no_timeout a = bind a (\<lambda>x. pure (Some x))"

definition limited :: "f64 \<Rightarrow> ('a, 's) action \<Rightarrow> ('a option, 's) action" where
  "limited t a = (if timeout_on t then with_timeout (duration_ns t) a else no_timeout a)"

text \<open>An action on a part of the state.\<close>

definition on_part ::
  "('s \<Rightarrow> 'p) \<Rightarrow> ('p \<Rightarrow> 's \<Rightarrow> 's) \<Rightarrow> ('a, 'p) action \<Rightarrow> ('a, 's) action" where
  "on_part part put a s =
     (let f = a (part s)
      in \<lparr> fut_time = fut_time f, fut_value = fut_value f, fut_done = put (fut_done f) s,
           fut_dropped = \<lambda>t. put (fut_dropped f t) s \<rparr>)"

definition do_when :: "bool \<Rightarrow> (unit, 's) action \<Rightarrow> (unit, 's) action" where
  "do_when b a = (if b then a else pure ())"

lemma pure_sel [simp]:
  "fut_time (pure x s) = 0" "fut_value (pure x s) = x" "fut_done (pure x s) = s"
  "fut_dropped (pure x s) t = s"
  by (simp_all add: pure_def ready_def)

lemma get_sel [simp]:
  "fut_time (get f s) = 0" "fut_value (get f s) = f s" "fut_done (get f s) = s"
  "fut_dropped (get f s) t = s"
  by (simp_all add: get_def ready_def)

lemma upd_sel [simp]:
  "fut_time (upd f s) = 0" "fut_value (upd f s) = ()" "fut_done (upd f s) = f s"
  "fut_dropped (upd f s) t = f s"
  by (simp_all add: upd_def ready_def)

lemma bind_sel [simp]:
  "fut_value (bind a k s) = fut_value (k (fut_value (a s)) (fut_done (a s)))"
  "fut_done (bind a k s) = fut_done (k (fut_value (a s)) (fut_done (a s)))"
  "fut_time (bind a k s) = fut_time (a s) + fut_time (k (fut_value (a s)) (fut_done (a s)))"
  by (simp_all add: bind_def Let_def)

lemma bind_dropped:
  "fut_dropped (bind a k s) t =
     (if t < fut_time (a s) then fut_dropped (a s) t
      else fut_dropped (k (fut_value (a s)) (fut_done (a s))) (t - fut_time (a s)))"
  by (simp add: bind_def Let_def)

lemma on_part_sel [simp]:
  "fut_value (on_part part put a s) = fut_value (a (part s))"
  "fut_done (on_part part put a s) = put (fut_done (a (part s))) s"
  "fut_time (on_part part put a s) = fut_time (a (part s))"
  "fut_dropped (on_part part put a s) t = put (fut_dropped (a (part s)) t) s"
  by (simp_all add: on_part_def Let_def)

lemma no_timeout_sel [simp]:
  "fut_value (no_timeout a s) = Some (fut_value (a s))"
  "fut_done (no_timeout a s) = fut_done (a s)"
  "fut_time (no_timeout a s) = fut_time (a s)"
  by (simp_all add: no_timeout_def)

lemma with_timeout_done:
  "fut_time (a s) \<le> d \<Longrightarrow> fut_value (with_timeout d a s) = Some (fut_value (a s)) \<and>
     fut_done (with_timeout d a s) = fut_done (a s)"
  by (simp add: with_timeout_def Let_def)

lemma with_timeout_expired:
  "d < fut_time (a s) \<Longrightarrow> fut_value (with_timeout d a s) = None \<and>
     fut_done (with_timeout d a s) = fut_dropped (a s) d"
  by (simp add: with_timeout_def Let_def)

lemma bind_pure [simp]: "bind (pure x) k s = k x s"
  by (simp add: bind_def pure_def ready_def Let_def)

text \<open>Sequencing is associative: how a handler is cut into steps does not matter.\<close>

lemma bind_assoc: "bind (bind a k) h s = bind a (\<lambda>x. bind (k x) h) s"
  by (rule future.equality) (auto simp: bind_dropped fun_eq_iff add.assoc)

section \<open>Reasoning\<close>

definition spec ::
  "('s \<Rightarrow> bool) \<Rightarrow> ('a, 's) action \<Rightarrow> ('a \<Rightarrow> 's \<Rightarrow> bool) \<Rightarrow> ('s \<Rightarrow> bool) \<Rightarrow> bool" where
  "spec P a Q R \<longleftrightarrow>
     (\<forall>s. P s \<longrightarrow> Q (fut_value (a s)) (fut_done (a s)) \<and> (\<forall>t. R (fut_dropped (a s) t)))"

named_theorems spec_rules "rules of the judgement spec"

lemma specI:
  "(\<And>s. P s \<Longrightarrow> Q (fut_value (a s)) (fut_done (a s))) \<Longrightarrow>
   (\<And>s t. P s \<Longrightarrow> R (fut_dropped (a s) t)) \<Longrightarrow> spec P a Q R"
  by (simp add: spec_def)

lemma spec_done: "spec P a Q R \<Longrightarrow> P s \<Longrightarrow> Q (fut_value (a s)) (fut_done (a s))"
  by (simp add: spec_def)

lemma spec_dropped: "spec P a Q R \<Longrightarrow> P s \<Longrightarrow> R (fut_dropped (a s) t)"
  by (simp add: spec_def)

lemma spec_weaken:
  "spec P a Q R \<Longrightarrow> (\<And>s. P' s \<Longrightarrow> P s) \<Longrightarrow> (\<And>x s. Q x s \<Longrightarrow> Q' x s) \<Longrightarrow>
   (\<And>s. R s \<Longrightarrow> R' s) \<Longrightarrow> spec P' a Q' R'"
  by (simp add: spec_def)

lemma spec_pure: "(\<And>s. P s \<Longrightarrow> Q x s \<and> R s) \<Longrightarrow> spec P (pure x) Q R"
  by (simp add: spec_def)

lemma spec_get: "(\<And>s. P s \<Longrightarrow> Q (f s) s \<and> R s) \<Longrightarrow> spec P (get f) Q R"
  by (simp add: spec_def)

lemma spec_upd: "(\<And>s. P s \<Longrightarrow> Q () (f s) \<and> R (f s)) \<Longrightarrow> spec P (upd f) Q R"
  by (simp add: spec_def)

lemma spec_bind:
  "spec P a M R \<Longrightarrow> (\<And>x. spec (M x) (k x) Q R) \<Longrightarrow> spec P (bind a k) Q R"
  by (simp add: spec_def bind_dropped)

lemma spec_with_timeout:
  assumes "spec P a (\<lambda>x. Q (Some x)) R" and "\<And>s. R s \<Longrightarrow> Q None s"
  shows "spec P (with_timeout d a) Q R"
  using assms by (simp add: spec_def with_timeout_def Let_def)

lemma spec_no_timeout:
  assumes "spec P a (\<lambda>x. Q (Some x)) R" and "\<And>x s. Q (Some x) s \<Longrightarrow> R s"
  shows "spec P (no_timeout a) Q R"
  unfolding no_timeout_def by (rule spec_bind [OF assms(1)]) (simp add: spec_def assms(2))

lemma spec_limited:
  assumes "spec P a (\<lambda>x. Q (Some x)) R" and "\<And>s. R s \<Longrightarrow> Q None s" and "\<And>x s. Q (Some x) s \<Longrightarrow> R s"
  shows "spec P (limited t a) Q R"
  unfolding limited_def using spec_with_timeout [OF assms(1,2)] spec_no_timeout [OF assms(1,3)] by simp

text \<open>An invariant kept by an action whether it completes or is dropped.\<close>

definition keeps :: "('s \<Rightarrow> bool) \<Rightarrow> ('a, 's) action \<Rightarrow> bool" where
  "keeps P a \<longleftrightarrow> spec P a (\<lambda>_. P) P"

lemma keeps_pure [simp]: "keeps P (pure x)" and keeps_get [simp]: "keeps P (get f)"
  by (simp_all add: keeps_def spec_def)

lemma keeps_upd: "(\<And>s. P s \<Longrightarrow> P (f s)) \<Longrightarrow> keeps P (upd f)"
  by (simp add: keeps_def spec_def)

lemma keeps_bind: "keeps P a \<Longrightarrow> (\<And>x. keeps P (k x)) \<Longrightarrow> keeps P (bind a k)"
  unfolding keeps_def by (rule spec_bind)

lemma keeps_limited: "keeps P a \<Longrightarrow> keeps P (limited t a)"
  unfolding keeps_def by (rule spec_limited)

lemma keeps_with_timeout: "keeps P a \<Longrightarrow> keeps P (with_timeout d a)"
  unfolding keeps_def by (rule spec_with_timeout)

lemma keeps_on_part: "(\<And>p s. P s \<Longrightarrow> P (put p s)) \<Longrightarrow> keeps P (on_part part put a)"
  by (simp add: keeps_def spec_def)

lemma keeps_when: "keeps P a \<Longrightarrow> keeps P (do_when b a)"
  by (simp add: do_when_def)

lemmas keeps_intros = keeps_upd keeps_bind keeps_limited keeps_with_timeout keeps_on_part keeps_when

end
