(* ===== verification/Test_Sched.thy ===== *)
theory Test_Sched
  imports Action Io_Buffer
begin

text \<open>
  Crate \<open>kirk-scheduler\<close>, \<open>test_sched.rs\<close>: running one test with its taint checks, timeout and
  ping, and a list of tests one after another. The SUT and the framework are the traits of the
  file, here a record of actions over a world \<open>'w\<close>; the world also holds what other tasks do
  meanwhile, such as the number of pending stop requests (the atomic \<open>stop_cnt\<close>). Events are
  kept as the list of those fired.
\<close>

definition PING_TIMEOUT :: nat where
  "PING_TIMEOUT = seconds 2"

definition KILLED_RETURNCODE :: int where
  "KILLED_RETURNCODE = - 9"

datatype test_status = TS_Ok | TS_TestTimeout | TS_KernelPanic | TS_KernelTainted | TS_KernelTimeout

text \<open>\<open>ss_writes\<close>: the chunks a command writes to its buffer, with the time of each.\<close>

record 'w sched_env =
  ss_tainted :: "((int \<times> string list) result, 'w) action"
  ss_run :: "string \<Rightarrow> string option \<Rightarrow> str_map \<Rightarrow> (cmd_result option result, 'w) action"
  ss_writes :: "string \<Rightarrow> string option \<Rightarrow> str_map \<Rightarrow> 'w \<Rightarrow> (nat \<times> string) list"
  ss_ping :: "(f64 result, 'w) action"
  ss_stop :: "(unit result, 'w) action"
  ss_restart :: "(unit result, 'w) action"
  ss_info :: "(str_map result, 'w) action"
  ss_name :: string
  ss_acquire :: "(unit, 'w) action"
  ss_stop_cnt :: "'w \<Rightarrow> nat"
  ss_set_stop_cnt :: "nat \<Rightarrow> 'w \<Rightarrow> 'w"
  ss_stop_flag :: "'w \<Rightarrow> bool"
  ss_set_stop_flag :: "bool \<Rightarrow> 'w \<Rightarrow> 'w"
  ss_elapsed :: "'w \<Rightarrow> 'w \<Rightarrow> f64"
  ss_pid :: nat
  fw_read_result :: "test \<Rightarrow> string \<Rightarrow> int \<Rightarrow> f64 \<Rightarrow> test_results result"

text \<open>The shared state; \<open>sc_capture\<close> is the \<open>StdoutBuffer\<close> of the test that runs.\<close>

record 'w sched =
  sc_world :: 'w
  sc_results :: "test_results list"
  sc_events :: "(string \<times> event_payload) list"
  sc_capture :: string
  sc_stopped :: bool

definition sched_new :: "'w \<Rightarrow> 'w sched" where
  "sched_new w = \<lparr> sc_world = w, sc_results = [], sc_events = [], sc_capture = [], sc_stopped = False \<rparr>"

definition clamp_workers :: "nat \<Rightarrow> nat" where
  "clamp_workers n = max n 1"

definition on_world :: "('a, 'w) action \<Rightarrow> ('a, 'w sched) action" where
  "on_world a = on_part sc_world (\<lambda>w s. s\<lparr>sc_world := w\<rparr>) a"

definition fire_event :: "string \<Rightarrow> event_payload \<Rightarrow> (unit, 'w sched) action" where
  "fire_event name payload = upd (\<lambda>s. s\<lparr>sc_events := sc_events s @ [(name, payload)]\<rparr>)"

definition stop_cnt :: "'w sched_env \<Rightarrow> (nat, 'w sched) action" where
  "stop_cnt E = get (\<lambda>s. ss_stop_cnt E (sc_world s))"

section \<open>Streaming the output of a test\<close>

definition push :: "test \<Rightarrow> string \<Rightarrow> 'w sched \<Rightarrow> 'w sched" where
  "push test txt s =
     s\<lparr>sc_events := sc_events s @ [(''test_stdout'', P_TestStdout test txt)],
       sc_capture := sc_capture s @ txt\<rparr>"

text \<open>It is what the streaming buffer of the test does, the events taken as fired.\<close>

lemma push_is_buffer_push:
  "sb_inner sb = sc_capture s \<Longrightarrow> sb_stream sb = Some test \<Longrightarrow>
     snapshot (buffer_push txt (sb, reg)) = sc_capture (push test txt s) \<and>
     snd (buffer_push txt (sb, reg)) = snd (fire ''test_stdout'' (P_TestStdout test txt) reg) \<and>
     sc_events (push test txt s) = sc_events s @ [(''test_stdout'', P_TestStdout test txt)]"
  by (simp add: push_def buffer_push_def snapshot_def)

text \<open>The command of a test, its chunks pushed as they arrive; dropped, the later ones are lost.\<close>

definition run_streaming ::
  "'w sched_env \<Rightarrow> test \<Rightarrow> string \<Rightarrow> (cmd_result option result, 'w sched) action" where
  "run_streaming E test command s =
     (let f = ss_run E command (t_cwd test) (t_env test) (sc_world s);
          ws = ss_writes E command (t_cwd test) (t_env test) (sc_world s);
          pushed = (\<lambda>t w. fold (push test) (map snd (filter (\<lambda>(u, _). u \<le> t) ws)) (s\<lparr>sc_world := w\<rparr>))
      in \<lparr> fut_time = fut_time f, fut_value = fut_value f, fut_done = pushed (fut_time f) (fut_done f),
           fut_dropped = \<lambda>t. pushed t (fut_dropped f t) \<rparr>)"

section \<open>Executing a test\<close>

record exec_outcome =
  eo_row :: "cmd_result option"
  eo_status :: test_status
  eo_detail :: string
  eo_fatal :: "kirk_error option"

definition fatal_outcome :: "kirk_error \<Rightarrow> exec_outcome" where
  "fatal_outcome err = \<lparr> eo_row = None, eo_status = TS_Ok, eo_detail = [], eo_fatal = Some err \<rparr>"

text \<open>
  The verdict on the command: a fatal error, or a status with the command's result and detail.
  \<open>None\<close> is the elapsed timeout, after which the SUT is pinged.
\<close>

definition ping_verdict :: "f64 result option \<Rightarrow> kirk_error + test_status" where
  "ping_verdict p =
     (case p of
        Some (Inr _) \<Rightarrow> Ok TS_TestTimeout
      | Some (Inl (KernelTimeoutE _)) \<Rightarrow> Ok TS_KernelTimeout
      | Some (Inl err) \<Rightarrow> Err err
      | None \<Rightarrow> Ok TS_KernelTimeout)"

definition diagnose ::
  "'w sched_env \<Rightarrow> cmd_result option result option
     \<Rightarrow> (kirk_error + test_status \<times> cmd_result option \<times> string, 'w sched) action" where
  "diagnose E outcome =
     (case outcome of
        Some (Inr data) \<Rightarrow> pure (Ok (TS_Ok, data, []))
      | Some (Inl (KernelPanicE partial)) \<Rightarrow> pure (Ok (TS_KernelPanic, None, partial))
      | Some (Inl err) \<Rightarrow> pure (Err err)
      | None \<Rightarrow>
          bind (with_timeout PING_TIMEOUT (on_world (ss_ping E)))
            (\<lambda>p. pure (and_then (ping_verdict p) (\<lambda>st. Ok (st, None, [])))))"

text \<open>The taint check after a command that finished.\<close>

definition post_taint ::
  "'w sched_env \<Rightarrow> int \<Rightarrow> test_status \<Rightarrow> string
     \<Rightarrow> (kirk_error + test_status \<times> string, 'w sched) action" where
  "post_taint E tainted_before status detail =
     (if status = TS_Ok then
        bind (on_world (ss_tainted E)) (\<lambda>r.
          case r of
            Inr (c, messages) \<Rightarrow>
              if c \<noteq> tainted_before then
                (let detail = join '', '' messages
                 in bind (fire_event ''kernel_tainted'' (P_Text detail))
                      (\<lambda>_. pure (Ok (TS_KernelTainted, detail))))
              else pure (Ok (status, detail))
          | Inl (KernelPanicE partial) \<Rightarrow> pure (Ok (TS_KernelPanic, partial))
          | Inl err \<Rightarrow> pure (Err err))
      else pure (Ok (status, detail)))"

definition final_row ::
  "test_status \<Rightarrow> cmd_result option \<Rightarrow> string \<Rightarrow> string \<Rightarrow> string \<Rightarrow> f64 \<Rightarrow> cmd_result option" where
  "final_row status row detail command capture exec_time =
     (if status = TS_Ok \<or> status = TS_KernelTainted then row
      else Some \<lparr> cr_command = command, cr_returncode = - 1,
                  cr_stdout = (if detail = [] then capture else detail), cr_exec_time = exec_time \<rparr>)"

definition judge ::
  "'w sched_env \<Rightarrow> 'w \<Rightarrow> int \<Rightarrow> string \<Rightarrow> test_status \<Rightarrow> cmd_result option \<Rightarrow> string
     \<Rightarrow> (exec_outcome, 'w sched) action" where
  "judge E began tainted_before command status row detail =
     (if status = TS_Ok \<and> row = None then
        pure (fatal_outcome (SchedulerE ''Test command return None''))
      else
        bind (post_taint E tainted_before status detail) (\<lambda>d.
          case d of
            Inl err \<Rightarrow> pure (fatal_outcome err)
          | Inr (status, detail) \<Rightarrow>
              get (\<lambda>s. \<lparr> eo_row = final_row status row detail command (sc_capture s)
                           (ss_elapsed E began (sc_world s)),
                        eo_status = status, eo_detail = detail, eo_fatal = None \<rparr>)))"

definition exec_command ::
  "'w sched_env \<Rightarrow> f64 \<Rightarrow> test \<Rightarrow> 'w \<Rightarrow> int \<Rightarrow> (exec_outcome, 'w sched) action" where
  "exec_command E test_timeout test began tainted_before =
     (let command = full_command test
      in bind (limited test_timeout (run_streaming E test command)) (\<lambda>outcome.
         bind (diagnose E outcome) (\<lambda>d.
           case d of
             Inl err \<Rightarrow> pure (fatal_outcome err)
           | Inr (status, row, detail) \<Rightarrow> judge E began tainted_before command status row detail)))"

definition exec_test :: "'w sched_env \<Rightarrow> f64 \<Rightarrow> test \<Rightarrow> (exec_outcome, 'w sched) action" where
  "exec_test E test_timeout test =
     bind (get sc_world) (\<lambda>began.
     bind (on_world (ss_tainted E)) (\<lambda>r.
       case r of
         Inl (KernelPanicE partial) \<Rightarrow>
           pure \<lparr> eo_row = None, eo_status = TS_KernelPanic, eo_detail = partial, eo_fatal = None \<rparr>
       | Inl err \<Rightarrow> pure (fatal_outcome err)
       | Inr (tainted_before, _) \<Rightarrow> exec_command E test_timeout test began tainted_before))"

section \<open>Annotating the kernel log\<close>

definition dquote :: string where
  "dquote = [CHR 0x22]"

definition kmsg_command :: "nat \<Rightarrow> test \<Rightarrow> test_results option \<Rightarrow> string" where
  "kmsg_command pid test parsed =
     ''echo -n '' @ dquote @ ''kirk['' @ show_nat pid @ '']: '' @ t_name test @
     (case parsed of
        Some r \<Rightarrow> '': end (returncode: '' @ show_int (r_retcode r) @ '')''
      | None \<Rightarrow> '': start (command: '' @ full_command test @ '')'')
     @ dquote @ '' > /dev/kmsg''"

definition write_kmsg :: "'w sched_env \<Rightarrow> test \<Rightarrow> test_results option \<Rightarrow> (unit, 'w sched) action" where
  "write_kmsg E test parsed =
     bind (on_world (ss_run E ''id -u'' None Map.empty)) (\<lambda>r.
       let root = (case r of Inr (Some data) \<Rightarrow> cr_stdout data = ''0'' @ [CHR 0x0A] | _ \<Rightarrow> False)
       in if \<not> root then pure ()
          else bind (on_world (ss_run E (kmsg_command (ss_pid E) test parsed) None Map.empty))
                 (\<lambda>_. pure ()))"

section \<open>Running one test\<close>

text \<open>What a recorded test reports upwards, with the event that goes with it.\<close>

definition raise_status :: "test_status \<Rightarrow> string \<Rightarrow> (kirk_error option, 'w sched) action" where
  "raise_status status detail =
     (case status of
        TS_KernelTainted \<Rightarrow>
          bind (fire_event ''kernel_tainted'' (P_Text detail)) (\<lambda>_. pure (Some (KernelTaintedE detail)))
      | TS_KernelPanic \<Rightarrow>
          bind (fire_event ''kernel_panic'' P_None) (\<lambda>_. pure (Some (KernelPanicE detail)))
      | TS_KernelTimeout \<Rightarrow>
          bind (fire_event ''sut_not_responding'' P_None)
            (\<lambda>_. pure (Some (KernelTimeoutE ''SUT is not responding'')))
      | TS_Ok \<Rightarrow> pure None
      | TS_TestTimeout \<Rightarrow> pure None)"

definition record_result ::
  "'w sched_env \<Rightarrow> test \<Rightarrow> exec_outcome \<Rightarrow> test_results \<Rightarrow> (kirk_error option, 'w sched) action" where
  "record_result E test outcome parsed =
     bind (fire_event ''test_completed'' (P_TestResults parsed)) (\<lambda>_.
     bind (write_kmsg E test (Some parsed)) (\<lambda>_.
     bind (upd (\<lambda>s. s\<lparr>sc_results := sc_results s @ [parsed]\<rparr>)) (\<lambda>_.
     raise_status (eo_status outcome) (eo_detail outcome))))"

definition run_one :: "'w sched_env \<Rightarrow> f64 \<Rightarrow> test \<Rightarrow> (kirk_error option, 'w sched) action" where
  "run_one E test_timeout test =
     bind (stop_cnt E) (\<lambda>n. if 0 < n then pure None else
     bind (on_world (ss_acquire E)) (\<lambda>_.
     bind (stop_cnt E) (\<lambda>n. if 0 < n then pure None else
     bind (fire_event ''test_started'' (P_Test test)) (\<lambda>_.
     bind (write_kmsg E test None) (\<lambda>_.
     bind (upd (\<lambda>s. s\<lparr>sc_capture := []\<rparr>)) (\<lambda>_.
     bind (exec_test E test_timeout test) (\<lambda>outcome.
       case eo_row outcome of
         None \<Rightarrow> pure (eo_fatal outcome)
       | Some row \<Rightarrow>
           bind (stop_cnt E) (\<lambda>n.
             if cr_returncode row = KILLED_RETURNCODE \<and> 1 < n then pure None
             else
               (case fw_read_result E test (cr_stdout row) (cr_returncode row) (cr_exec_time row) of
                  Inl err \<Rightarrow> pure (Some err)
                | Inr parsed \<Rightarrow> record_result E test outcome parsed)))))))))"

section \<open>Scheduling\<close>

fun run_tests :: "'w sched_env \<Rightarrow> f64 \<Rightarrow> test list \<Rightarrow> (unit result, 'w sched) action" where
  "run_tests E test_timeout [] = pure (Ok ())"
| "run_tests E test_timeout (test # tests) =
     bind (run_one E test_timeout test) (\<lambda>r.
       case r of
         Some err \<Rightarrow> pure (Err err)
       | None \<Rightarrow> run_tests E test_timeout tests)"

definition run_sequential :: "'w sched_env \<Rightarrow> f64 \<Rightarrow> test list \<Rightarrow> (unit result, 'w sched) action" where
  "run_sequential E test_timeout tests =
     (if tests = [] then pure (Ok ()) else run_tests E test_timeout tests)"

text \<open>\<open>par\<close> stands for \<open>run_parallel\<close>, whose interleavings theory \<open>Par_Sched\<close> models.\<close>

definition drive ::
  "'w sched_env \<Rightarrow> f64 \<Rightarrow> nat \<Rightarrow> (test list \<Rightarrow> (unit result, 'w sched) action) \<Rightarrow> test list
     \<Rightarrow> (unit result, 'w sched) action" where
  "drive E test_timeout max_workers par tests =
     (if 1 < max_workers then
        bind (par (filter t_parallelizable tests)) (\<lambda>r.
          case r of
            Inl err \<Rightarrow> pure (Err err)
          | Inr _ \<Rightarrow> run_sequential E test_timeout (filter (\<lambda>t. \<not> t_parallelizable t) tests))
      else run_sequential E test_timeout tests)"

definition schedule_tests ::
  "'w sched_env \<Rightarrow> f64 \<Rightarrow> nat \<Rightarrow> (test list \<Rightarrow> (unit result, 'w sched) action) \<Rightarrow> test list
     \<Rightarrow> (unit result, 'w sched) action" where
  "schedule_tests E test_timeout max_workers par tests =
     (if tests = [] then pure (Err (SchedulerE ''jobs list is empty''))
      else
        bind (upd (\<lambda>s. s\<lparr>sc_results := []\<rparr>)) (\<lambda>_.
        bind (drive E test_timeout max_workers par tests) (\<lambda>r.
        bind (stop_cnt E) (\<lambda>n.
          case r of
            Inl err \<Rightarrow> if n = 0 then pure (Err err) else pure (Ok ())
          | Inr _ \<Rightarrow> pure (Ok ())))))"

definition stop_tests :: "'w sched_env \<Rightarrow> (unit, 'w sched) action" where
  "stop_tests E =
     bind (stop_cnt E) (\<lambda>n.
     bind (upd (\<lambda>s. s\<lparr>sc_world := ss_set_stop_cnt E (n + 1) (sc_world s)\<rparr>)) (\<lambda>_.
     bind (do_when (1 < n + 1) (bind (on_world (ss_stop E)) (\<lambda>_. pure ()))) (\<lambda>_.
     bind (on_world (ss_acquire E)) (\<lambda>_.
     upd (\<lambda>s. s\<lparr>sc_world := ss_set_stop_cnt E 0 (sc_world s), sc_stopped := True\<rparr>)))))"

section \<open>Results are recorded once and in order\<close>

text \<open>
  The books of a schedule: the results it keeps, and the payloads of the \<open>test_completed\<close> events it
  has fired. A result is announced before it is kept, so a schedule dropped in between leaves one
  more announced than kept.
\<close>

definition fired :: "string \<Rightarrow> 'w sched \<Rightarrow> event_payload list" where
  "fired name s = map snd (filter (\<lambda>(n, _). n = name) (sc_events s))"

type_synonym books = "test_results list \<times> event_payload list"

definition res_eq :: "books \<Rightarrow> 'w sched \<Rightarrow> bool" where
  "res_eq b s \<longleftrightarrow> sc_results s = fst b \<and> fired ''test_completed'' s = snd b"

definition booked :: "books \<Rightarrow> test_results \<Rightarrow> books" where
  "booked b r = (fst b @ [r], snd b @ [P_TestResults r])"

lemma fired_update [simp]:
  "fired n (s\<lparr>sc_world := w\<rparr>) = fired n s"
  "fired n (s\<lparr>sc_results := rs\<rparr>) = fired n s"
  "fired n (s\<lparr>sc_capture := c\<rparr>) = fired n s"
  "fired n (s\<lparr>sc_stopped := b\<rparr>) = fired n s"
  by (simp_all add: fired_def)

lemma fired_push [simp]:
  "name \<noteq> ''test_stdout'' \<Longrightarrow> fired name (fold (push test) xs s) = fired name s"
  by (induction xs arbitrary: s) (simp_all add: push_def fired_def)

lemma push_all_frame [simp]:
  "sc_results (fold (push test) xs s) = sc_results s"
  "sc_world (fold (push test) xs s) = sc_world s"
  "sc_stopped (fold (push test) xs s) = sc_stopped s"
  by (induction xs arbitrary: s) (auto simp: push_def)

lemma push_all_capture: "sc_capture (fold (push test) xs s) = sc_capture s @ concat xs"
  by (induction xs arbitrary: s) (auto simp: push_def)

lemma res_eq_update [simp]:
  "res_eq rs (s\<lparr>sc_world := w\<rparr>) = res_eq rs s"
  "res_eq rs (s\<lparr>sc_capture := c\<rparr>) = res_eq rs s"
  "res_eq rs (fold (push test) xs s) = res_eq rs s"
  "n \<noteq> ''test_completed'' \<Longrightarrow> res_eq rs (s\<lparr>sc_events := sc_events s @ [(n, p)]\<rparr>) = res_eq rs s"
  by (simp_all add: res_eq_def) (simp add: fired_def)

lemma on_world_keeps_res [simp]: "keeps (res_eq rs) (on_world a)"
  by (simp add: on_world_def keeps_on_part)

lemma fire_keeps_res [simp]: "n \<noteq> ''test_completed'' \<Longrightarrow> keeps (res_eq rs) (fire_event n p)"
  by (auto simp: fire_event_def intro!: keeps_upd)

lemma stop_cnt_keeps [simp]: "keeps P (stop_cnt E)"
  by (simp add: stop_cnt_def)

lemma run_streaming_keeps_res [simp]: "keeps (res_eq rs) (run_streaming E test command)"
  by (simp add: keeps_def spec_def run_streaming_def Let_def)

lemma write_kmsg_keeps_res [simp]: "keeps (res_eq rs) (write_kmsg E test parsed)"
  by (auto simp: write_kmsg_def Let_def intro!: keeps_bind)

lemma raise_status_keeps_res [simp]: "keeps (res_eq rs) (raise_status status detail)"
  by (auto simp: raise_status_def intro!: keeps_bind split: test_status.split)

text \<open>
  A SUT and a framework whose kernel failures always come with a test to blame: no stop is
  pending, the taint probe and the parser never fail with a kernel error, the command only with a
  panic and the ping only with a timeout.
\<close>

definition blames_tests :: "'w sched_env \<Rightarrow> bool" where
  "blames_tests E \<longleftrightarrow>
     (\<forall>w. ss_stop_cnt E w = 0) \<and>
     (\<forall>w e. fut_value (ss_tainted E w) = Inl e \<longrightarrow> \<not> is_kernel_error e) \<and>
     (\<forall>c d v w e. fut_value (ss_run E c d v w) = Inl e \<longrightarrow>
        (\<exists>m. e = KernelPanicE m) \<or> \<not> is_kernel_error e) \<and>
     (\<forall>w e. fut_value (ss_ping E w) = Inl e \<longrightarrow>
        (\<exists>m. e = KernelTimeoutE m) \<or> \<not> is_kernel_error e) \<and>
     (\<forall>t out rc x e. fw_read_result E t out rc x = Inl e \<longrightarrow> \<not> is_kernel_error e)"

definition names_its_test :: "'w sched_env \<Rightarrow> bool" where
  "names_its_test E \<longleftrightarrow>
     (\<forall>t out rc x r. fw_read_result E t out rc x = Inr r \<longrightarrow> r_test r = t)"

abbreviation not_kernel :: "kirk_error \<Rightarrow> bool" where
  "not_kernel e \<equiv> \<not> is_kernel_error e"

lemma spec_keeps: "keeps P a \<Longrightarrow> spec P a (\<lambda>_. P) P"
  by (simp add: keeps_def)

text \<open>The verdict on a probe or a command carries no kernel error of its own.\<close>

definition calm :: "books \<Rightarrow> kirk_error + 'a \<Rightarrow> 'w sched \<Rightarrow> bool" where
  "calm rs d s \<longleftrightarrow> res_eq rs s \<and> (\<forall>e. d = Inl e \<longrightarrow> not_kernel e)"

definition blamed :: "books \<Rightarrow> exec_outcome \<Rightarrow> 'w sched \<Rightarrow> bool" where
  "blamed rs oc s \<longleftrightarrow>
     res_eq rs s \<and> (eo_row oc = None \<longrightarrow> (\<exists>e. eo_fatal oc = Some e \<and> not_kernel e))"

lemma spec_sum:
  "(\<And>e. spec (\<lambda>s. P (Inl e) s) (f e) Q R) \<Longrightarrow> (\<And>v. spec (\<lambda>s. P (Inr v) s) (g v) Q R) \<Longrightarrow>
   spec (P d) (case d of Inl e \<Rightarrow> f e | Inr v \<Rightarrow> g v) Q R"
  by (cases d) simp_all

lemma blamed_fatal:
  "spec (calm rs (Inl e)) (pure (fatal_outcome e)) (blamed rs) (res_eq rs)"
  by (rule spec_pure) (simp add: calm_def blamed_def fatal_outcome_def)

lemma calm_Inr: "calm rs (Inr v) = res_eq rs"
  by (simp add: calm_def fun_eq_iff)

lemma tainted_spec:
  "blames_tests E \<Longrightarrow> spec (res_eq rs) (on_world (ss_tainted E)) (calm rs) (res_eq rs)"
  by (auto simp: spec_def on_world_def blames_tests_def calm_def)

lemma diagnose_spec:
  assumes "blames_tests E" and "\<And>e. outcome = Some (Inl e) \<Longrightarrow> (\<exists>m. e = KernelPanicE m) \<or> not_kernel e"
  shows "spec (res_eq rs) (diagnose E outcome)
    (\<lambda>d s. calm rs d s \<and> (\<forall>st v. d = Inr (st, v) \<longrightarrow> st \<noteq> TS_KernelTainted)) (res_eq rs)"
proof (cases outcome)
  case None
  have ping: "spec (res_eq rs) (with_timeout PING_TIMEOUT (on_world (ss_ping E)))
    (\<lambda>p s. res_eq rs s \<and> (\<forall>e. p = Some (Inl e) \<longrightarrow> (\<exists>m. e = KernelTimeoutE m) \<or> not_kernel e))
    (res_eq rs)"
    by (rule spec_with_timeout)
      (use assms(1) in \<open>auto simp: spec_def on_world_def blames_tests_def\<close>)
  show ?thesis
    unfolding diagnose_def None option.case
    by (rule spec_bind [OF ping], rule spec_pure)
      (auto simp: ping_verdict_def calm_def split: option.splits sum.splits kirk_error.splits)
next
  case (Some r)
  then show ?thesis
    using assms(2)
    by (auto simp: diagnose_def calm_def split: sum.splits kirk_error.splits intro!: spec_pure)
qed

lemma post_taint_spec:
  assumes "blames_tests E"
  shows "spec (res_eq rs) (post_taint E before status detail)
    (\<lambda>d s. calm rs d s \<and> (\<forall>st v. d = Inr (st, v) \<longrightarrow> status = TS_Ok \<or> st = status)) (res_eq rs)"
proof (cases "status = TS_Ok")
  case True
  show ?thesis
    unfolding post_taint_def True
    by (simp, rule spec_bind [OF tainted_spec [OF assms]])
      (auto simp: spec_def bind_dropped fire_event_def calm_def Let_def
        split: sum.splits kirk_error.splits)
next
  case False
  then show ?thesis by (simp add: post_taint_def spec_pure calm_def)
qed

lemma judge_spec:
  assumes "blames_tests E" and "status \<noteq> TS_KernelTainted"
  shows "spec (res_eq rs) (judge E began before command status row detail) (blamed rs) (res_eq rs)"
proof (cases "status = TS_Ok \<and> row = None")
  case True
  then show ?thesis
    by (simp add: judge_def spec_pure blamed_def fatal_outcome_def)
next
  case False
  have row: "final_row st row d c cap x \<noteq> None" if "status = TS_Ok \<or> st = status" for st d c cap x
    using that False assms(2) by (auto simp: final_row_def)
  show ?thesis
    unfolding judge_def
    by (simp add: False del: not_None_eq, rule spec_bind [OF post_taint_spec [OF assms(1)]])
      (auto simp: spec_def calm_def blamed_def fatal_outcome_def row split: sum.splits)
qed

lemma exec_command_spec:
  assumes "blames_tests E"
  shows "spec (res_eq rs) (exec_command E tmo test began before) (blamed rs) (res_eq rs)"
proof -
  have run: "spec (res_eq rs) (limited tmo (run_streaming E test (full_command test)))
    (\<lambda>r s. res_eq rs s \<and> (\<forall>e. r = Some (Inl e) \<longrightarrow> (\<exists>m. e = KernelPanicE m) \<or> not_kernel e)) (res_eq rs)"
    by (rule spec_limited)
      (use assms in \<open>auto simp: spec_def run_streaming_def Let_def blames_tests_def\<close>)
  have diag: "spec (\<lambda>s. res_eq rs s \<and> (\<forall>e. r = Some (Inl e) \<longrightarrow> (\<exists>m. e = KernelPanicE m) \<or> not_kernel e))
      (diagnose E r)
      (\<lambda>d s. calm rs d s \<and> (\<forall>st v. d = Inr (st, v) \<longrightarrow> st \<noteq> TS_KernelTainted)) (res_eq rs)" for r
    using diagnose_spec [OF assms, of r rs]
    by (cases "\<forall>e. r = Some (Inl e) \<longrightarrow> (\<exists>m. e = KernelPanicE m) \<or> not_kernel e")
      (auto simp: spec_def)
  have verdict: "spec (\<lambda>s. calm rs d s \<and> (\<forall>st v. d = Inr (st, v) \<longrightarrow> st \<noteq> TS_KernelTainted))
      (case d of Inl err \<Rightarrow> pure (fatal_outcome err)
         | Inr (status, row, detail) \<Rightarrow> judge E began before (full_command test) status row detail)
      (blamed rs) (res_eq rs)" for d
  proof (cases d)
    case (Inl e)
    then show ?thesis using spec_weaken [OF blamed_fatal [of rs e]] by (simp add: spec_def)
  next
    case (Inr v)
    obtain st row detail where v: "v = (st, row, detail)" by (cases v)
    show ?thesis
    proof (cases "st = TS_KernelTainted")
      case True
      then show ?thesis using Inr v by (simp add: spec_def)
    next
      case False
      then show ?thesis
        using Inr v judge_spec [OF assms False] by (simp add: calm_def)
    qed
  qed
  show ?thesis
    unfolding exec_command_def Let_def
    by (rule spec_bind [OF run], rule spec_bind [OF diag], rule verdict)
qed

lemma exec_test_spec:
  assumes "blames_tests E"
  shows "spec (res_eq rs) (exec_test E tmo test) (blamed rs) (res_eq rs)"
proof -
  have get: "spec (res_eq rs) (get sc_world) (\<lambda>_. res_eq rs) (res_eq rs)"
    by (rule spec_keeps) simp
  have cases: "spec (calm rs r)
     (case r of
         Inl (KernelPanicE partial) \<Rightarrow>
           pure \<lparr> eo_row = None, eo_status = TS_KernelPanic, eo_detail = partial, eo_fatal = None \<rparr>
       | Inl err \<Rightarrow> pure (fatal_outcome err)
       | Inr (before, _) \<Rightarrow> exec_command E tmo test began before) (blamed rs) (res_eq rs)" for r began
  proof (cases r)
    case (Inl e)
    then show ?thesis using blamed_fatal [of rs e] by (cases e) (auto simp: spec_def calm_def)
  next
    case (Inr v)
    then show ?thesis
      using exec_command_spec [OF assms, of rs] by (cases v) (simp add: calm_Inr)
  qed
  show ?thesis
    unfolding exec_test_def
    by (rule spec_bind [OF get], rule spec_bind [OF tainted_spec [OF assms]], rule cases)
qed

lemma exec_test_keeps_res [simp]: "keeps (res_eq rs) (exec_test E tmo test)"
  unfolding exec_test_def exec_command_def judge_def diagnose_def post_taint_def Let_def
  by (intro keeps_bind keeps_limited)
    (auto intro!: keeps_bind keeps_with_timeout keeps_limited split: sum.splits kirk_error.splits option.splits)

text \<open>
  What \<open>run_one\<close> leaves: the books as they were, or with one more result, of its test; dropped, it
  may also have announced the result without keeping it.
\<close>

definition plus_one :: "books \<Rightarrow> test \<Rightarrow> 'w sched \<Rightarrow> bool" where
  "plus_one b test s \<longleftrightarrow> (\<exists>r. res_eq (booked b r) s \<and> r_test r = test)"

definition half_one :: "books \<Rightarrow> test \<Rightarrow> 'w sched \<Rightarrow> bool" where
  "half_one b test s \<longleftrightarrow> (\<exists>r. res_eq (fst b, snd b @ [P_TestResults r]) s \<and> r_test r = test)"

definition at_most_one :: "books \<Rightarrow> test \<Rightarrow> 'w sched \<Rightarrow> bool" where
  "at_most_one b test s \<longleftrightarrow> res_eq b s \<or> plus_one b test s"

definition cut_one :: "books \<Rightarrow> test \<Rightarrow> 'w sched \<Rightarrow> bool" where
  "cut_one b test s \<longleftrightarrow> at_most_one b test s \<or> half_one b test s"

lemma keeps_spec: "keeps (res_eq b) a \<Longrightarrow> spec (res_eq b) a (\<lambda>_. res_eq b) (cut_one b test)"
  unfolding keeps_def by (erule spec_weaken) (auto simp: cut_one_def at_most_one_def)

definition raised_by_kernel :: "kirk_error option \<Rightarrow> bool" where
  "raised_by_kernel x \<longleftrightarrow> (\<forall>e. x = Some e \<longrightarrow> is_kernel_error e)"

lemma raise_status_spec:
  "spec (res_eq b) (raise_status st d) (\<lambda>x s. res_eq b s \<and> raised_by_kernel x) (res_eq b)"
  by (cases st)
    (simp_all add: spec_def raise_status_def bind_dropped fire_event_def res_eq_def fired_def raised_by_kernel_def)

lemma record_result_spec:
  assumes "r_test r = test"
  shows "spec (res_eq b) (record_result E test outcome r)
    (\<lambda>x s. plus_one b test s \<and> raised_by_kernel x) (cut_one b test)"
proof -
  let ?half = "(fst b, snd b @ [P_TestResults r])"
  have fire: "spec (res_eq b) (fire_event ''test_completed'' (P_TestResults r)) (\<lambda>_. res_eq ?half) (cut_one b test)"
    using assms by (auto simp: spec_def fire_event_def res_eq_def fired_def cut_one_def half_one_def)
  have kmsg: "spec (res_eq ?half) (write_kmsg E test (Some r)) (\<lambda>_. res_eq ?half) (cut_one b test)"
    using spec_keeps [OF write_kmsg_keeps_res [of ?half E test "Some r"]]
    by (rule spec_weaken) (use assms in \<open>auto simp: cut_one_def half_one_def\<close>)
  have up: "spec (res_eq ?half) (upd (\<lambda>s. s\<lparr>sc_results := sc_results s @ [r]\<rparr>))
      (\<lambda>_. res_eq (booked b r)) (cut_one b test)"
    by (rule spec_upd) (use assms in \<open>auto simp: res_eq_def booked_def cut_one_def at_most_one_def plus_one_def\<close>)
  have raise: "spec (res_eq (booked b r)) (raise_status st d)
      (\<lambda>x s. plus_one b test s \<and> raised_by_kernel x) (cut_one b test)" for st d
    using raise_status_spec
    by (rule spec_weaken) (use assms in \<open>auto simp: cut_one_def at_most_one_def plus_one_def\<close>)
  show ?thesis
    unfolding record_result_def
    by (rule spec_bind [OF fire], rule spec_bind [OF kmsg], rule spec_bind [OF up raise])
qed

text \<open>The outcome of the execution, turned into a result: the second half of \<open>run_one\<close>.\<close>

lemma run_one_general:
  assumes "names_its_test E"
  shows "spec (res_eq rs) (run_one E tmo test) (\<lambda>_. at_most_one rs test) (cut_one rs test)"
proof -
  have same: "spec (res_eq rs) (pure x) (\<lambda>_. at_most_one rs test) (cut_one rs test)"
    for x :: "kirk_error option"
    by (rule spec_pure) (simp add: cut_one_def at_most_one_def)
  have rec: "spec (res_eq rs) (record_result E test oc r) (\<lambda>_. at_most_one rs test) (cut_one rs test)"
    if "fw_read_result E test out rc x = Inr r" for oc r out rc x
  proof -
    have "r_test r = test" using assms that by (auto simp: names_its_test_def)
    from record_result_spec [OF this] show ?thesis
      by (rule spec_weaken) (auto simp: at_most_one_def)
  qed
  show ?thesis
    unfolding run_one_def
    by (rule spec_bind [OF keeps_spec], simp, simp split: if_split, intro conjI impI same,
        rule spec_bind [OF keeps_spec], simp, rule spec_bind [OF keeps_spec], simp,
        simp split: if_split, intro conjI impI same, rule spec_bind [OF keeps_spec], simp,
        rule spec_bind [OF keeps_spec], simp, rule spec_bind [OF keeps_spec],
        simp add: keeps_upd, rule spec_bind [OF keeps_spec], simp)
      (auto intro!: same rec spec_bind [OF keeps_spec] split: option.split sum.split)
qed

text \<open>Exactly the tests that end well or with a kernel error have a result.\<close>

definition blamed_one :: "books \<Rightarrow> test \<Rightarrow> kirk_error option \<Rightarrow> 'w sched \<Rightarrow> bool" where
  "blamed_one b test x s \<longleftrightarrow> (if raised_by_kernel x then plus_one b test s else res_eq b s)"

lemma blamed_one_at_most: "blamed_one b test x s \<Longrightarrow> cut_one b test s"
  by (auto simp: blamed_one_def cut_one_def at_most_one_def split: if_splits)

lemma stop_cnt_zero:
  assumes "blames_tests E"
  shows "spec P (bind (stop_cnt E) (\<lambda>n. if 0 < n then a else b)) Q R \<longleftrightarrow> spec P b Q R"
    and "spec P (bind (stop_cnt E) (\<lambda>n. if c \<and> 1 < n then a else b)) Q R \<longleftrightarrow> spec P b Q R"
  using assms by (simp_all add: spec_def bind_dropped stop_cnt_def blames_tests_def)

lemma run_one_blamed:
  assumes "names_its_test E" and "blames_tests E"
  shows "spec (res_eq rs) (run_one E tmo test) (blamed_one rs test) (cut_one rs test)"
proof -
  have fatal: "spec (blamed rs oc) (pure (eo_fatal oc)) (blamed_one rs test) (cut_one rs test)"
    if "eo_row oc = None" for oc
    by (rule spec_pure)
      (use that in \<open>auto simp: blamed_def blamed_one_def cut_one_def at_most_one_def raised_by_kernel_def\<close>)
  have err: "spec (blamed rs oc) (pure (Some e)) (blamed_one rs test) (cut_one rs test)"
    if "fw_read_result E test out rc x = Inl e" for oc e out rc x
    by (rule spec_pure)
      (use assms(2) that in \<open>auto simp: blamed_def blamed_one_def cut_one_def at_most_one_def
        raised_by_kernel_def blames_tests_def\<close>)
  have rec: "spec (blamed rs oc) (record_result E test oc r) (blamed_one rs test) (cut_one rs test)"
    if "fw_read_result E test out rc x = Inr r" for oc r out rc x
  proof -
    have "r_test r = test" using assms(1) that by (auto simp: names_its_test_def)
    from record_result_spec [OF this] show ?thesis
      by (rule spec_weaken) (auto simp: blamed_one_def blamed_def)
  qed
  have exec: "spec (res_eq rs) (exec_test E tmo test) (blamed rs) (cut_one rs test)"
    using exec_test_spec [OF assms(2)] by (rule spec_weaken) (auto simp: cut_one_def at_most_one_def)
  show ?thesis
    unfolding run_one_def stop_cnt_zero [OF assms(2)]
    by (rule spec_bind [OF keeps_spec], simp, unfold stop_cnt_zero [OF assms(2)],
        rule spec_bind [OF keeps_spec], simp,
        rule spec_bind [OF keeps_spec], simp, rule spec_bind [OF keeps_spec], simp add: keeps_upd,
        rule spec_bind [OF exec])
      (auto intro!: fatal simp: stop_cnt_zero [OF assms(2)] intro: err rec simp del: One_nat_def
        split: option.split sum.split)
qed

text \<open>
  The books after a list of tests: \<open>new\<close> are the results kept, \<open>extra\<close> what was announced only.
\<close>

definition grown :: "books \<Rightarrow> (test_results list \<Rightarrow> test_results list \<Rightarrow> bool) \<Rightarrow> 'w sched \<Rightarrow> bool" where
  "grown b P s \<longleftrightarrow> (\<exists>new extra. res_eq (fst b @ new, snd b @ map P_TestResults (new @ extra)) s \<and> P new extra)"

lemma grown_res_eq: "res_eq b s \<Longrightarrow> P [] [] \<Longrightarrow> grown b P s"
  unfolding grown_def by (intro exI [of _ "[]"]) simp

lemma grown_step: "plus_one b t s \<Longrightarrow> \<exists>r. r_test r = t \<and> res_eq (booked b r) s"
  by (auto simp: plus_one_def)

lemma grown_plus: "plus_one b t s \<Longrightarrow> (\<And>r. r_test r = t \<Longrightarrow> P [r] []) \<Longrightarrow> grown b P s"
  unfolding grown_def plus_one_def booked_def
  by (elim exE conjE, rule_tac x = "[r]" in exI, rule_tac x = "[]" in exI) simp

lemma grown_half: "half_one b t s \<Longrightarrow> (\<And>r. r_test r = t \<Longrightarrow> P [] [r]) \<Longrightarrow> grown b P s"
  unfolding grown_def half_one_def
  by (elim exE conjE, rule_tac x = "[]" in exI, rule_tac x = "[r]" in exI) simp

lemma grown_append:
  assumes "grown (booked b r) P s" and "\<And>new extra. P new extra \<Longrightarrow> Q (r # new) extra"
  shows "grown b Q s"
proof -
  from assms(1) obtain new extra where
    "res_eq (fst b @ r # new, snd b @ map P_TestResults ((r # new) @ extra)) s" "P new extra"
    by (auto simp: grown_def booked_def)
  with assms(2) show ?thesis unfolding grown_def by blast
qed

lemma cut_one_grown:
  assumes "cut_one b t s" and "P [] []" and "\<And>r. r_test r = t \<Longrightarrow> P [r] []" and "\<And>r. r_test r = t \<Longrightarrow> P [] [r]"
  shows "grown b P s"
  using assms unfolding cut_one_def at_most_one_def by (blast intro: grown_res_eq grown_plus grown_half)

text \<open>The rest of a list after its first test, from the books the test leaves.\<close>

definition in_order :: "test list \<Rightarrow> test_results list \<Rightarrow> test_results list \<Rightarrow> bool" where
  "in_order tests new extra \<longleftrightarrow> subseq (map r_test new) tests"

lemma run_tests_general:
  fixes E :: "'w sched_env"
  assumes "names_its_test E"
  shows "spec (res_eq b) (run_tests E tmo tests) (\<lambda>_. grown b (in_order tests)) (grown b (in_order tests))"
proof (induction tests arbitrary: b)
  case Nil
  show ?case unfolding run_tests.simps by (rule spec_pure) (simp add: grown_res_eq in_order_def)
next
  case (Cons t ts)
  have one: "grown b (in_order (t # ts)) s" if "cut_one b t s" for s :: "'w sched"
    by (rule cut_one_grown [OF that]) (auto simp: in_order_def)
  have less: "grown b (in_order (t # ts)) s" if "grown b (in_order ts) s" for s :: "'w sched"
    using that by (auto simp: grown_def in_order_def intro: subseq_Cons')
  have more: "grown b (in_order (t # ts)) s" if "grown (booked b r) (in_order ts) s" and "r_test r = t"
    for r and s :: "'w sched"
    using that by (auto simp: in_order_def elim: grown_append)
  have rest: "spec (at_most_one b t) (run_tests E tmo ts)
      (\<lambda>_. grown b (in_order (t # ts))) (grown b (in_order (t # ts)))"
  proof (rule specI)
    fix s :: "'w sched"
    assume "at_most_one b t s"
    then consider "res_eq b s" | r where "r_test r = t" "res_eq (booked b r) s"
      unfolding at_most_one_def by (auto dest: grown_step)
    then show "grown b (in_order (t # ts)) (fut_done (run_tests E tmo ts s))"
    proof cases
      case 1
      show ?thesis by (rule less [OF spec_done [OF Cons.IH 1]])
    next
      case 2
      show ?thesis by (rule more [OF spec_done [OF Cons.IH 2(2)] 2(1)])
    qed
  next
    fix s :: "'w sched" and u
    assume "at_most_one b t s"
    then consider "res_eq b s" | r where "r_test r = t" "res_eq (booked b r) s"
      unfolding at_most_one_def by (auto dest: grown_step)
    then show "grown b (in_order (t # ts)) (fut_dropped (run_tests E tmo ts s) u)"
    proof cases
      case 1
      show ?thesis by (rule less [OF spec_dropped [OF Cons.IH 1]])
    next
      case 2
      show ?thesis by (rule more [OF spec_dropped [OF Cons.IH 2(2)] 2(1)])
    qed
  qed
  have run: "spec (res_eq b) (run_one E tmo t) (\<lambda>_. at_most_one b t) (grown b (in_order (t # ts)))"
    by (rule spec_weaken [OF run_one_general [OF assms]]) (auto intro: one)
  have "cut_one b t s" if "at_most_one b t s" for s :: "'w sched"
    using that by (simp add: cut_one_def)
  then show ?case
    unfolding run_tests.simps
    by (intro spec_bind [OF run]) (auto intro!: rest spec_pure one split: option.split)
qed

text \<open>How much of a list of tests has results, by the value the list returned or when it is dropped.\<close>

definition account :: "test list \<Rightarrow> unit result \<Rightarrow> test_results list \<Rightarrow> bool" where
  "account tests x new \<longleftrightarrow> prefix (map r_test new) tests \<and>
     (case x of Inr _ \<Rightarrow> map r_test new = tests | Inl e \<Rightarrow> is_kernel_error e \<longrightarrow> new \<noteq> [])"

definition cut_account :: "test list \<Rightarrow> test_results list \<Rightarrow> test_results list \<Rightarrow> bool" where
  "cut_account tests new extra \<longleftrightarrow> length extra \<le> 1 \<and> prefix (map r_test (new @ extra)) tests"

lemma run_tests_blamed:
  fixes E :: "'w sched_env"
  assumes "names_its_test E" and "blames_tests E"
  shows "spec (res_eq b) (run_tests E tmo tests)
    (\<lambda>x. grown b (\<lambda>new extra. extra = [] \<and> account tests x new)) (grown b (cut_account tests))"
proof (induction tests arbitrary: b)
  case Nil
  show ?case unfolding run_tests.simps
    by (rule spec_pure) (simp add: grown_res_eq account_def cut_account_def)
next
  case (Cons t ts)
  let ?ok = "\<lambda>x. grown b (\<lambda>new extra. extra = [] \<and> account (t # ts) x new)"
  have cut: "grown b (cut_account (t # ts)) s" if "cut_one b t s" for s :: "'w sched"
    by (rule cut_one_grown [OF that]) (auto simp: cut_account_def)
  have none: "spec (blamed_one b t None) (run_tests E tmo ts) ?ok (grown b (cut_account (t # ts)))"
  proof (rule specI)
    fix s :: "'w sched"
    assume "blamed_one b t None s"
    then obtain r where r: "r_test r = t" "res_eq (booked b r) s"
      by (auto simp: blamed_one_def raised_by_kernel_def dest: grown_step)
    from spec_done [OF Cons.IH r(2)] show "?ok (fut_value (run_tests E tmo ts s)) (fut_done (run_tests E tmo ts s))"
      by (rule grown_append) (auto simp: r(1) account_def split: sum.splits)
  next
    fix s :: "'w sched" and u
    assume "blamed_one b t None s"
    then obtain r where r: "r_test r = t" "res_eq (booked b r) s"
      by (auto simp: blamed_one_def raised_by_kernel_def dest: grown_step)
    from spec_dropped [OF Cons.IH r(2)] show "grown b (cut_account (t # ts)) (fut_dropped (run_tests E tmo ts s) u)"
      by (rule grown_append) (simp add: r(1) cut_account_def)
  qed
  have some: "spec (blamed_one b t (Some e)) (pure (Inl e) :: (unit result, 'w sched) action)
      ?ok (grown b (cut_account (t # ts)))" for e
  proof (rule spec_pure)
    fix s :: "'w sched"
    assume b: "blamed_one b t (Some e) s"
    have "?ok (Inl e) s"
    proof (cases "is_kernel_error e")
      case True
      with b have "plus_one b t s" by (simp add: blamed_one_def raised_by_kernel_def)
      then show ?thesis by (rule grown_plus) (simp add: account_def)
    next
      case False
      with b show ?thesis by (simp add: blamed_one_def raised_by_kernel_def grown_res_eq account_def)
    qed
    with cut [OF blamed_one_at_most [OF b]] show "?ok (Inl e) s \<and> grown b (cut_account (t # ts)) s" by blast
  qed
  have run: "spec (res_eq b) (run_one E tmo t) (blamed_one b t) (grown b (cut_account (t # ts)))"
    by (rule spec_weaken [OF run_one_blamed [OF assms]]) (assumption, assumption, rule cut)
  show ?case
    unfolding run_tests.simps
    by (rule spec_bind [OF run]) (auto intro!: none some split: option.split)
qed

text \<open>
  The first test of a list that raises an error when the tests are run one after another, with
  the tests before it and the error: what a schedule is held against.
\<close>

fun first_failure :: "'w sched_env \<Rightarrow> f64 \<Rightarrow> test list \<Rightarrow> 'w sched \<Rightarrow> (test list \<times> test \<times> kirk_error) option" where
  "first_failure E tmo [] s = None"
| "first_failure E tmo (test # tests) s =
     (case fut_value (run_one E tmo test s) of
        Some err \<Rightarrow> Some ([], test, err)
      | None \<Rightarrow> map_option (\<lambda>(before, failed, err). (test # before, failed, err))
                  (first_failure E tmo tests (fut_done (run_one E tmo test s))))"

lemma first_failure_prefix: "first_failure E tmo tests s = Some (before, test, err) \<Longrightarrow> prefix (before @ [test]) tests"
  by (induction tests arbitrary: s before) (auto split: option.splits)

text \<open>What the tests up to a failure leave: the failing one has a result if the kernel is to blame.\<close>

definition held_against :: "test list \<Rightarrow> (test list \<times> test \<times> kirk_error) option \<Rightarrow> unit result \<Rightarrow> test_results list \<Rightarrow> bool" where
  "held_against tests failure x new \<longleftrightarrow>
     (case failure of
        None \<Rightarrow> x = Ok () \<and> map r_test new = tests
      | Some (before, test, err) \<Rightarrow>
          x = Err err \<and> map r_test new = before @ (if is_kernel_error err then [test] else []))"

lemma run_tests_held:
  fixes E :: "'w sched_env"
  assumes "names_its_test E" and "blames_tests E"
  shows "res_eq b s \<Longrightarrow> grown b (\<lambda>new extra. extra = [] \<and>
    held_against tests (first_failure E tmo tests s) (fut_value (run_tests E tmo tests s)) new)
    (fut_done (run_tests E tmo tests s))"
proof (induction tests arbitrary: b s)
  case Nil
  then show ?case by (simp add: grown_res_eq held_against_def)
next
  case (Cons t ts)
  note one = spec_done [OF run_one_blamed [OF assms, where tmo = tmo and test = t] Cons.prems]
  show ?case
  proof (cases "fut_value (run_one E tmo t s)")
    case None
    with one obtain r where r: "r_test r = t" "res_eq (booked b r) (fut_done (run_one E tmo t s))"
      by (auto simp: blamed_one_def raised_by_kernel_def dest: grown_step)
    from Cons.IH [OF r(2)] None show ?thesis
      by (auto simp: r(1) held_against_def split: option.splits elim!: grown_append)
  next
    case (Some e)
    show ?thesis
    proof (cases "is_kernel_error e")
      case True
      with one Some have "plus_one b t (fut_done (run_one E tmo t s))"
        by (simp add: blamed_one_def raised_by_kernel_def)
      then have "grown b (\<lambda>new extra. extra = [] \<and> held_against (t # ts) (Some ([], t, e)) (Inl e) new)
          (fut_done (run_one E tmo t s))"
        by (rule grown_plus) (simp add: True held_against_def)
      then show ?thesis by (simp add: Some)
    next
      case False
      with one Some show ?thesis
        by (simp add: blamed_one_def raised_by_kernel_def grown_res_eq held_against_def)
    qed
  qed
qed

lemma schedule_tests_sequential:
  assumes "mw \<le> 1" and "tests \<noteq> []"
  shows "schedule_tests E tmo mw par tests =
     bind (upd (\<lambda>s. s\<lparr>sc_results := []\<rparr>)) (\<lambda>_.
     bind (run_tests E tmo tests) (\<lambda>r.
     bind (stop_cnt E) (\<lambda>n. case r of
         Inl err \<Rightarrow> if n = 0 then pure (Err err) else pure (Ok ())
       | Inr _ \<Rightarrow> pure (Ok ()))))"
  using assms by (simp add: schedule_tests_def drive_def run_sequential_def)

lemma spec_swallow:
  assumes "\<And>x s. Q x s \<Longrightarrow> R s"
  shows "spec (Q r) (bind (stop_cnt E) (\<lambda>n. case r of
         Inl err \<Rightarrow> if n = 0 then pure (Err err) else pure (Ok ())
       | Inr _ \<Rightarrow> pure (Ok ()))) (\<lambda>x s. Q r s \<and> (x = r \<or> (x = Inr () \<and> 0 < ss_stop_cnt E (sc_world s)))) R"
  using assms by (cases r) (auto simp: spec_def bind_dropped stop_cnt_def)

text \<open>
  On one worker, scheduling a list of tests records at most one result per test, in the
  order of the list, whatever the SUT does and wherever the call is cancelled.
\<close>

theorem schedule_results_in_order:
  assumes "names_its_test E" and "mw \<le> 1" and "tests \<noteq> []"
  shows "subseq (map r_test (sc_results (fut_done (schedule_tests E tmo mw par tests s)))) tests \<and>
    subseq (map r_test (sc_results (fut_dropped (schedule_tests E tmo mw par tests s) t))) tests"
proof -
  let ?b = "([], fired ''test_completed'' s)"
  have "spec (\<lambda>u. u = s) (schedule_tests E tmo mw par tests) (\<lambda>_. grown ?b (in_order tests)) (grown ?b (in_order tests))"
    unfolding schedule_tests_sequential [OF assms(2,3)]
    apply (rule spec_bind [where M = "\<lambda>_. res_eq ?b"])
     apply (rule spec_upd, simp add: res_eq_def grown_res_eq in_order_def)
    apply (rule spec_bind [OF run_tests_general [OF assms(1)]])
    apply (rule spec_weaken [OF spec_swallow [where Q = "\<lambda>_. grown ?b (in_order tests)"]])
    by auto
  then show ?thesis by (auto simp: spec_def grown_def in_order_def res_eq_def)
qed

lemma done_is_cut:
  assumes "grown b (\<lambda>new extra. extra = [] \<and> account tests x new) s"
  shows "grown b (cut_account tests) s"
proof -
  from assms obtain new where "res_eq (fst b @ new, snd b @ map P_TestResults (new @ [])) s" "account tests x new"
    by (auto simp: grown_def)
  moreover from this(2) have "cut_account tests new []" by (simp add: account_def cut_account_def)
  ultimately show ?thesis unfolding grown_def by blast
qed

lemma schedule_blamed_spec:
  assumes "names_its_test E" and "blames_tests E" and "mw \<le> 1" and "tests \<noteq> []"
  shows "spec (\<lambda>u. u = s) (schedule_tests E tmo mw par tests)
      (\<lambda>x. grown ([], fired ''test_completed'' s) (\<lambda>new extra. extra = [] \<and> account tests x new))
      (grown ([], fired ''test_completed'' s) (cut_account tests))"
  unfolding schedule_tests_sequential [OF assms(3,4)]
  apply (rule spec_bind [where M = "\<lambda>_. res_eq ([], fired ''test_completed'' s)"])
   apply (rule spec_upd, simp add: res_eq_def grown_res_eq cut_account_def)
  apply (rule spec_bind [OF run_tests_blamed [OF assms(1,2)]])
  apply (rule spec_weaken [OF spec_swallow [where Q = "\<lambda>x. grown ([], fired ''test_completed'' s)
      (\<lambda>new extra. extra = [] \<and> account tests x new)", OF done_is_cut]])
    apply assumption
  using assms(2) by (auto simp: blames_tests_def)

lemma schedule_account:
  assumes "names_its_test E" and "blames_tests E" and "mw \<le> 1" and "tests \<noteq> []"
  shows "account tests (fut_value (schedule_tests E tmo mw par tests s))
      (sc_results (fut_done (schedule_tests E tmo mw par tests s)))"
    and "fired ''test_completed'' (fut_done (schedule_tests E tmo mw par tests s)) =
      fired ''test_completed'' s @ map P_TestResults (sc_results (fut_done (schedule_tests E tmo mw par tests s)))"
    and "\<exists>extra. cut_account tests (sc_results (fut_dropped (schedule_tests E tmo mw par tests s) t)) extra \<and>
      fired ''test_completed'' (fut_dropped (schedule_tests E tmo mw par tests s) t) =
        fired ''test_completed'' s @
        map P_TestResults (sc_results (fut_dropped (schedule_tests E tmo mw par tests s) t) @ extra)"
  using schedule_blamed_spec [OF assms, of s tmo par] by (auto simp: spec_def grown_def res_eq_def)

lemma schedule_held:
  assumes "names_its_test E" and "blames_tests E" and "mw \<le> 1" and "tests \<noteq> []"
  shows "held_against tests (first_failure E tmo tests (s\<lparr>sc_results := []\<rparr>))
    (fut_value (schedule_tests E tmo mw par tests s)) (sc_results (fut_done (schedule_tests E tmo mw par tests s)))"
proof -
  let ?s = "s\<lparr>sc_results := []\<rparr>"
  have "res_eq ([], fired ''test_completed'' s) ?s" by (simp add: res_eq_def)
  from run_tests_held [OF assms(1,2) this, of tests tmo]
  have "held_against tests (first_failure E tmo tests ?s) (fut_value (run_tests E tmo tests ?s))
      (sc_results (fut_done (run_tests E tmo tests ?s)))"
    by (auto simp: grown_def res_eq_def)
  then show ?thesis
    using assms(2) unfolding schedule_tests_sequential [OF assms(3,4)]
    by (auto simp: blames_tests_def stop_cnt_def split: sum.split)
qed

text \<open>
  Claim C2: on one worker and with no stop pending, a SUT whose kernel failures are those of a
  test makes \<open>schedule\<close> accountable. The results kept are those announced by the
  \<open>test_completed\<close> events, in order. When no test raises an error the call succeeds and every test
  has its result. Otherwise the call returns the error of the first test that raises one, and the
  results are those of exactly the tests before it, with its own if the kernel failed. A cancelled
  call keeps what it has announced, except at most the last result, for tests of a prefix.
\<close>

theorem schedule_accounts_for_tests:
  assumes "names_its_test E" and "blames_tests E" and "mw \<le> 1" and "tests \<noteq> []"
  shows "let run = schedule_tests E tmo mw par tests s;
      kept = sc_results (fut_done run);
      cut = sc_results (fut_dropped run t)
    in fired ''test_completed'' (fut_done run) = fired ''test_completed'' s @ map P_TestResults kept \<and>
      (case first_failure E tmo tests (s\<lparr>sc_results := []\<rparr>) of
         None \<Rightarrow> fut_value run = Ok () \<and> map r_test kept = tests
       | Some (before, test, err) \<Rightarrow>
           fut_value run = Err err \<and> prefix (before @ [test]) tests \<and>
           map r_test kept = before @ (if is_kernel_error err then [test] else [])) \<and>
      (\<exists>extra. length extra \<le> 1 \<and> prefix (map r_test (cut @ extra)) tests \<and>
         fired ''test_completed'' (fut_dropped run t) = fired ''test_completed'' s @ map P_TestResults (cut @ extra))"
proof (cases "first_failure E tmo tests (s\<lparr>sc_results := []\<rparr>)")
  case None
  then show ?thesis
    using schedule_held [OF assms, of tmo s par] schedule_account(2,3) [OF assms, of tmo par s]
    by (simp add: Let_def held_against_def cut_account_def)
next
  case (Some failure)
  obtain before test err where "failure = (before, test, err)" by (cases failure)
  with Some show ?thesis
    using schedule_held [OF assms, of tmo s par] schedule_account(2,3) [OF assms, of tmo par s]
      first_failure_prefix [of E tmo tests "s\<lparr>sc_results := []\<rparr>" before test err]
    by (simp add: Let_def held_against_def cut_account_def)
qed

text \<open>A SUT that answers at once and a framework that parses nothing, over a world that counts.\<close>

definition demo_env :: "nat sched_env" where
  "demo_env =
     \<lparr> ss_tainted = pure (Inr (0, [])),
       ss_run = \<lambda>c d v. bind (upd Suc) (\<lambda>_. pure (Inr (Some
         \<lparr> cr_command = c, cr_returncode = 0, cr_stdout = ''ok'', cr_exec_time = f64_zero \<rparr>))),
       ss_writes = \<lambda>_ _ _ _. [(0, ''ok'')], ss_ping = pure (Inr f64_zero), ss_stop = pure (Inr ()),
       ss_restart = pure (Inr ()), ss_info = pure (Inr Map.empty), ss_name = ''demo'',
       ss_acquire = pure (), ss_stop_cnt = \<lambda>_. 0, ss_set_stop_cnt = \<lambda>_ w. w,
       ss_stop_flag = \<lambda>_. False, ss_set_stop_flag = \<lambda>_ w. w, ss_elapsed = \<lambda>_ _. f64_zero, ss_pid = 1,
       fw_read_result = \<lambda>t _ rc _. Inr ((test_results_new t)\<lparr>r_retcode := rc\<rparr>) \<rparr>"

definition demo_test :: "string \<Rightarrow> test" where
  "demo_test n = \<lparr> t_name = n, t_command = ''true'', t_cwd = None, t_env = Map.empty, t_args = [],
     t_parallelizable = False \<rparr>"

lemma demo_env_laws: "names_its_test demo_env" "blames_tests demo_env"
  by (simp_all add: names_its_test_def blames_tests_def demo_env_def test_results_new_def)

lemma schedule_results_in_order_witness:
  "subseq (map r_test (sc_results (fut_done (schedule_tests demo_env f64_zero 1 (\<lambda>_. pure (Inr ()))
     [demo_test ''a'', demo_test ''b''] (sched_new 0))))) [demo_test ''a'', demo_test ''b'']"
  using schedule_results_in_order
    [of demo_env 1 "[demo_test ''a'', demo_test ''b'']" f64_zero "\<lambda>_. pure (Inr ())" "sched_new 0" 0] demo_env_laws
  by simp

section \<open>What one test reports\<close>

text \<open>Frames of the steps before and after the execution.\<close>

lemma on_world_frame [simp]:
  "sc_results (fut_done (on_world a s)) = sc_results s"
  "sc_events (fut_done (on_world a s)) = sc_events s"
  "sc_capture (fut_done (on_world a s)) = sc_capture s"
  "sc_world (fut_done (on_world a s)) = fut_done (a (sc_world s))"
  "fut_value (on_world a s) = fut_value (a (sc_world s))"
  "fut_time (on_world a s) = fut_time (a (sc_world s))"
  by (simp_all add: on_world_def)

lemma fire_event_frame [simp]:
  "sc_results (fut_done (fire_event n p s)) = sc_results s"
  "sc_events (fut_done (fire_event n p s)) = sc_events s @ [(n, p)]"
  "sc_capture (fut_done (fire_event n p s)) = sc_capture s"
  "sc_world (fut_done (fire_event n p s)) = sc_world s"
  by (simp_all add: fire_event_def)

lemma write_kmsg_frame [simp]:
  "sc_results (fut_done (write_kmsg E test parsed s)) = sc_results s"
  "sc_events (fut_done (write_kmsg E test parsed s)) = sc_events s"
  "sc_capture (fut_done (write_kmsg E test parsed s)) = sc_capture s"
  by (simp_all add: write_kmsg_def Let_def split: if_split)

lemma stop_cnt_sel [simp]:
  "fut_value (stop_cnt E s) = ss_stop_cnt E (sc_world s)" "fut_done (stop_cnt E s) = s"
  by (simp_all add: stop_cnt_def)

definition no_stop :: "'w sched_env \<Rightarrow> bool" where
  "no_stop E \<longleftrightarrow> (\<forall>w. ss_stop_cnt E w = 0)"

text \<open>With no stop pending, \<open>run_one\<close> is its announcement, the execution and the recording.\<close>

definition announced :: "'w sched_env \<Rightarrow> test \<Rightarrow> 'w sched \<Rightarrow> 'w sched" where
  "announced E test s =
     (let s1 = fut_done (on_world (ss_acquire E) s);
          s2 = fut_done (fire_event ''test_started'' (P_Test test) s1);
          s3 = fut_done (write_kmsg E test None s2)
      in s3\<lparr>sc_capture := []\<rparr>)"

lemma announced_frame [simp]:
  "sc_results (announced E test s) = sc_results s"
  "sc_events (announced E test s) = sc_events s @ [(''test_started'', P_Test test)]"
  "sc_capture (announced E test s) = []"
  by (simp_all add: announced_def Let_def)

definition conclude :: "'w sched_env \<Rightarrow> test \<Rightarrow> exec_outcome \<Rightarrow> (kirk_error option, 'w sched) action" where
  "conclude E test outcome =
     (case eo_row outcome of
         None \<Rightarrow> pure (eo_fatal outcome)
       | Some row \<Rightarrow>
           (case fw_read_result E test (cr_stdout row) (cr_returncode row) (cr_exec_time row) of
              Inl err \<Rightarrow> pure (Some err)
            | Inr parsed \<Rightarrow> record_result E test outcome parsed))"

lemma run_one_no_stop:
  assumes "no_stop E"
  shows "fut_value (run_one E tmo test s) =
      fut_value (conclude E test (fut_value (exec_test E tmo test (announced E test s)))
        (fut_done (exec_test E tmo test (announced E test s)))) \<and>
    fut_done (run_one E tmo test s) =
      fut_done (conclude E test (fut_value (exec_test E tmo test (announced E test s)))
        (fut_done (exec_test E tmo test (announced E test s))))"
  using assms
  by (simp add: run_one_def conclude_def no_stop_def announced_def Let_def split: option.split)

lemma record_result_done:
  "sc_results (fut_done (record_result E test oc r s)) = sc_results s @ [r]"
  "fut_value (record_result E test oc r s) =
     (case eo_status oc of
        TS_KernelTainted \<Rightarrow> Some (KernelTaintedE (eo_detail oc))
      | TS_KernelPanic \<Rightarrow> Some (KernelPanicE (eo_detail oc))
      | TS_KernelTimeout \<Rightarrow> Some (KernelTimeoutE ''SUT is not responding'')
      | _ \<Rightarrow> None)"
  "sc_events (fut_done (record_result E test oc r s)) =
     sc_events s @ (''test_completed'', P_TestResults r) #
     (case eo_status oc of
        TS_KernelTainted \<Rightarrow> [(''kernel_tainted'', P_Text (eo_detail oc))]
      | TS_KernelPanic \<Rightarrow> [(''kernel_panic'', P_None)]
      | TS_KernelTimeout \<Rightarrow> [(''sut_not_responding'', P_None)]
      | _ \<Rightarrow> [])"
  by (cases "eo_status oc"; simp add: record_result_def raise_status_def)+

text \<open>The outcomes of the command that let the scheduler go on to a verdict.\<close>

definition in_time :: "'w sched_env \<Rightarrow> f64 \<Rightarrow> test \<Rightarrow> bool" where
  "in_time E tmo test \<longleftrightarrow> (\<forall>w. \<not> timeout_on tmo \<or>
     fut_time (ss_run E (full_command test) (t_cwd test) (t_env test) w) \<le> duration_ns tmo)"

abbreviation run_of :: "'w sched_env \<Rightarrow> test \<Rightarrow> (cmd_result option result, 'w) action" where
  "run_of E test \<equiv> ss_run E (full_command test) (t_cwd test) (t_env test)"

lemma run_streaming_sel [simp]:
  "fut_value (run_streaming E test c s) = fut_value (ss_run E c (t_cwd test) (t_env test) (sc_world s))"
  "fut_time (run_streaming E test c s) = fut_time (ss_run E c (t_cwd test) (t_env test) (sc_world s))"
  "sc_results (fut_done (run_streaming E test c s)) = sc_results s"
  "sc_world (fut_done (run_streaming E test c s))
     = fut_done (ss_run E c (t_cwd test) (t_env test) (sc_world s))"
  by (simp_all add: run_streaming_def Let_def)

lemma limited_in_time:
  "in_time E tmo test \<Longrightarrow>
   fut_value (limited tmo (run_streaming E test (full_command test)) s)
     = Some (fut_value (run_of E test (sc_world s))) \<and>
   fut_done (limited tmo (run_streaming E test (full_command test)) s)
     = fut_done (run_streaming E test (full_command test) s)"
  using with_timeout_done [of "run_streaming E test (full_command test)" s "duration_ns tmo"]
  by (cases "timeout_on tmo") (auto simp: limited_def in_time_def)

lemma fired_streaming [simp]:
  "name \<noteq> ''test_stdout'' \<Longrightarrow> fired name (fut_done (run_streaming E test c s)) = fired name s"
proof -
  assume n: "name \<noteq> ''test_stdout''"
  have "fired name (s\<lparr>sc_world := w\<rparr>) = fired name s" for w by (simp add: fired_def)
  with n show ?thesis by (simp add: run_streaming_def Let_def)
qed

lemma fired_frame [simp]:
  "fired n (fut_done (on_world a s)) = fired n s"
  "fired n (fut_done (fire_event m p s)) = fired n s @ (if m = n then [p] else [])"
  "fired n (announced E test s) = fired n s @ (if n = ''test_started'' then [P_Test test] else [])"
  by (simp_all add: fired_def)

lemma exec_test_result:
  "fut_value (ss_tainted E (sc_world s)) = Inr (before, m) \<Longrightarrow>
   fut_value (exec_test E tmo test s) =
     fut_value (exec_command E tmo test (sc_world s) before (fut_done (on_world (ss_tainted E) s))) \<and>
   fut_done (exec_test E tmo test s) =
     fut_done (exec_command E tmo test (sc_world s) before (fut_done (on_world (ss_tainted E) s)))"
  by (simp add: exec_test_def)

text \<open>
  Claim C15: a test whose command changes the kernel's taint code is recorded with the result of
  its command and raised as \<open>KernelTainted\<close> with the messages; the event \<open>kernel_tainted\<close> is
  fired twice for it.
\<close>

theorem taint_change_is_reported:
  assumes "no_stop E" and "in_time E tmo test"
    and run: "\<forall>w. fut_value (run_of E test w) = Inr (Some row)"
    and taint: "\<forall>w. fut_value (ss_tainted E w) = Inr (c w, msgs)"
    and keep: "\<forall>w. c (fut_done (ss_tainted E w)) = c w"
    and change: "\<forall>w. c (fut_done (run_of E test w)) \<noteq> c w"
    and parsed: "fw_read_result E test (cr_stdout row) (cr_returncode row) (cr_exec_time row) = Inr r"
  shows "let s' = fut_done (run_one E tmo test s) in
    fut_value (run_one E tmo test s) = Some (KernelTaintedE (join '', '' msgs)) \<and>
    sc_results s' = sc_results s @ [r] \<and>
    fired ''kernel_tainted'' s' = fired ''kernel_tainted'' s @
      [P_Text (join '', '' msgs), P_Text (join '', '' msgs)]"
proof -
  let ?s = "announced E test s"
  let ?oc = "fut_value (exec_test E tmo test ?s)"
  let ?s1 = "fut_done (exec_test E tmo test ?s)"
  note lim = limited_in_time [OF assms(2)]
  note ex = exec_test_result [OF spec [OF taint, of "sc_world ?s"], of tmo test]
  have w: "c (fut_done (run_of E test (fut_done (ss_tainted E (sc_world ?s))))) \<noteq> c (sc_world ?s)"
    using keep change by metis
  have oc: "eo_row ?oc = Some row" "eo_status ?oc = TS_KernelTainted" "eo_detail ?oc = join '', '' msgs"
    using w
    by (simp_all add: ex lim exec_command_def Let_def diagnose_def run judge_def post_taint_def taint
        final_row_def)
  have ev: "fired ''kernel_tainted'' ?s1 = fired ''kernel_tainted'' s @ [P_Text (join '', '' msgs)]"
    using w
    by (simp add: ex lim exec_command_def Let_def diagnose_def run judge_def post_taint_def taint)
  have res: "sc_results ?s1 = sc_results s"
    using w
    by (simp add: ex lim exec_command_def Let_def diagnose_def run judge_def post_taint_def taint)
  show ?thesis
    using run_one_no_stop [OF assms(1), of tmo test s] oc res ev
    by (simp add: conclude_def parsed record_result_done fired_def Let_def)
qed

text \<open>
  A test that exceeds its timeout on a SUT that still answers a ping is recorded, with
  return code -1 and the output written until then, and nothing is raised: the run goes on.
\<close>

theorem timed_out_test_is_recorded:
  assumes "no_stop E" and "timeout_on tmo"
    and slow: "\<forall>w. duration_ns tmo < fut_time (run_of E test w)"
    and out: "\<forall>w. ss_writes E (full_command test) (t_cwd test) (t_env test) w = ws"
    and taint: "\<forall>w. fut_value (ss_tainted E w) = Inr (c w, msgs)"
    and ping: "\<forall>w. fut_time (ss_ping E w) \<le> PING_TIMEOUT \<and> fut_value (ss_ping E w) = Inr rtt"
    and fw: "\<forall>x. fw_read_result E test
      (concat (map snd (filter (\<lambda>(u, _). u \<le> duration_ns tmo) ws))) (- 1) x = Inr (r x)"
  shows "\<exists>x. sc_results (fut_done (run_one E tmo test s)) = sc_results s @ [r x] \<and>
    fut_value (run_one E tmo test s) = None"
proof -
  let ?s = "announced E test s"
  let ?oc = "fut_value (exec_test E tmo test ?s)"
  let ?s1 = "fut_done (exec_test E tmo test ?s)"
  define s0 where "s0 = fut_done (on_world (ss_tainted E) ?s)"
  define run where "run = limited tmo (run_streaming E test (full_command test)) s0"
  note ex = exec_test_result [OF spec [OF taint, of "sc_world ?s"], of tmo test]
  have late: "duration_ns tmo < fut_time (run_streaming E test (full_command test) s0)"
    using slow by simp
  have run_v: "fut_value run = None"
    and run_d: "fut_done run = fut_dropped (run_streaming E test (full_command test) s0) (duration_ns tmo)"
    using with_timeout_expired [of "duration_ns tmo" "run_streaming E test (full_command test)" s0] late assms(2) by (simp_all add: run_def limited_def)
  have cap: "sc_capture (fut_done run) = concat (map snd (filter (\<lambda>(u, _). u \<le> duration_ns tmo) ws))"
    and res: "sc_results (fut_done run) = sc_results s"
    using out by (simp_all add: run_d run_streaming_def Let_def push_all_capture s0_def)
  have ponged: "fut_value (with_timeout PING_TIMEOUT (on_world (ss_ping E)) s2) = Some (Inr rtt)"
    "fut_done (with_timeout PING_TIMEOUT (on_world (ss_ping E)) s2) = fut_done (on_world (ss_ping E) s2)"
    for s2
    using ping with_timeout_done [of "on_world (ss_ping E)" s2 PING_TIMEOUT] by simp_all
  have oc: "\<exists>x. ?oc = \<lparr> eo_row = Some \<lparr> cr_command = full_command test, cr_returncode = - 1,
       cr_stdout = concat (map snd (filter (\<lambda>(u, _). u \<le> duration_ns tmo) ws)), cr_exec_time = x \<rparr>,
     eo_status = TS_TestTimeout, eo_detail = [], eo_fatal = None \<rparr>"
    using cap run_v unfolding run_def s0_def
    by (simp add: ex exec_command_def Let_def diagnose_def ponged ping_verdict_def judge_def
        post_taint_def final_row_def)
  have res1: "sc_results ?s1 = sc_results s"
    using res run_v unfolding run_def s0_def
    by (simp add: ex exec_command_def Let_def diagnose_def ponged ping_verdict_def judge_def
        post_taint_def)
  show ?thesis
    using oc res1 fw run_one_no_stop [OF assms(1), of tmo test s]
    by (auto simp: conclude_def record_result_done)
qed

text \<open>
  A kernel panic noticed by the taint probe before a test is lost: \<open>run_one\<close> reports no
  error and records nothing, so a schedule on such a SUT returns \<open>Ok\<close> with no result at all,
  although none of its tests ran.
\<close>

theorem pre_taint_panic_is_swallowed:
  assumes "no_stop E" and "\<forall>w. \<exists>m. fut_value (ss_tainted E w) = Inl (KernelPanicE m)" and "mw \<le> 1"
    and "tests \<noteq> []"
  shows "fut_value (schedule_tests E tmo mw par tests s) = Inr () \<and>
    sc_results (fut_done (schedule_tests E tmo mw par tests s)) = [] \<and>
    fired ''kernel_panic'' (fut_done (schedule_tests E tmo mw par tests s)) = fired ''kernel_panic'' s"
proof -
  have one: "fut_value (run_one E tmo test u) = None \<and>
      sc_results (fut_done (run_one E tmo test u)) = sc_results u \<and>
      fired ''kernel_panic'' (fut_done (run_one E tmo test u)) = fired ''kernel_panic'' u" for test u
  proof -
    obtain m where "fut_value (ss_tainted E (sc_world (announced E test u))) = Inl (KernelPanicE m)"
      using assms(2) by blast
    then show ?thesis
      using run_one_no_stop [OF assms(1), of tmo test u]
      by (simp add: exec_test_def conclude_def fired_def)
  qed
  have "fut_value (run_tests E tmo ts u) = Inr () \<and>
      sc_results (fut_done (run_tests E tmo ts u)) = sc_results u \<and>
      fired ''kernel_panic'' (fut_done (run_tests E tmo ts u)) = fired ''kernel_panic'' u" for ts u
    by (induction ts arbitrary: u) (simp_all add: one)
  then show ?thesis
    unfolding schedule_tests_sequential [OF assms(3,4)] by (simp add: fired_def)
qed

section \<open>Examples\<close>

text \<open>A SUT whose kernel panics in the command \<open>crash\<close>, and three tests with it in the middle.\<close>

definition crash_test :: test where
  "crash_test = (demo_test ''c'')\<lparr>t_command := ''crash''\<rparr>"

definition panic_env :: "nat sched_env" where
  "panic_env = demo_env\<lparr>ss_run := \<lambda>c d v. pure (if c = full_command crash_test then Inl (KernelPanicE ''oops'')
     else Inr (Some \<lparr> cr_command = c, cr_returncode = 0, cr_stdout = ''ok'', cr_exec_time = f64_zero \<rparr>))\<rparr>"

lemma panic_env_laws: "names_its_test panic_env" "blames_tests panic_env"
  by (auto simp: names_its_test_def blames_tests_def panic_env_def demo_env_def test_results_new_def)

lemma panic_env_runs:
  "fut_value (run_one panic_env f64_zero test s) =
     (if full_command test = full_command crash_test then Some (KernelPanicE ''oops'') else None)"
proof -
  have no: "no_stop panic_env" and time: "in_time panic_env f64_zero test"
    by (simp_all add: no_stop_def in_time_def panic_env_def demo_env_def)
  have probe: "fut_value (ss_tainted panic_env w) = Inr (0, [])" for w
    by (simp add: panic_env_def demo_env_def)
  note lim = limited_in_time [OF time]
  show ?thesis
    using run_one_no_stop [OF no, of f64_zero test s]
    by (simp add: exec_test_result [OF probe] exec_command_def Let_def lim diagnose_def judge_def post_taint_def
        probe final_row_def conclude_def record_result_done)
      (simp add: panic_env_def demo_env_def judge_def post_taint_def final_row_def conclude_def record_result_done)
qed

lemma schedule_accounts_for_tests_witness:
  "let run = schedule_tests panic_env f64_zero 1 (\<lambda>_. pure (Inr ())) [demo_test ''a'', crash_test, demo_test ''b''] (sched_new 0)
   in fut_value run = Err (KernelPanicE ''oops'') \<and>
     map r_test (sc_results (fut_done run)) = [demo_test ''a'', crash_test]"
proof -
  have "full_command (demo_test n) \<noteq> full_command crash_test" for n
    by (simp add: full_command_def demo_test_def crash_test_def)
  then show ?thesis
    using schedule_accounts_for_tests [OF panic_env_laws, of 1 "[demo_test ''a'', crash_test, demo_test ''b'']"
        f64_zero "\<lambda>_. pure (Inr ())" "sched_new 0" 0]
    by (simp add: Let_def panic_env_runs)
qed

lemma taint_change_is_reported_witness:
  "fut_value (run_one (demo_env\<lparr>ss_tainted := get (\<lambda>w. Inr (int w, [''a'', ''b'']))\<rparr>) f64_zero
     (demo_test ''t'') (sched_new 0)) = Some (KernelTaintedE ''a, b'')"
  using taint_change_is_reported
    [of "demo_env\<lparr>ss_tainted := get (\<lambda>w. Inr (int w, [''a'', ''b'']))\<rparr>" f64_zero "demo_test ''t''"
      "\<lparr> cr_command = ''true'', cr_returncode = 0, cr_stdout = ''ok'', cr_exec_time = f64_zero \<rparr>"
      int "[''a'', ''b'']" "(test_results_new (demo_test ''t''))\<lparr>r_retcode := 0\<rparr>" "sched_new 0"]
  by (simp add: no_stop_def in_time_def demo_env_def demo_test_def full_command_def Let_def)

definition slow_env :: "nat sched_env" where
  "slow_env = demo_env
     \<lparr>ss_run := \<lambda>c d v w. \<lparr> fut_time = seconds 60, fut_value = Inr None, fut_done = w + 1, fut_dropped = \<lambda>_. w \<rparr>,
      ss_writes := \<lambda>_ _ _ _. [(seconds 1, ''early''), (seconds 30, ''late'')]\<rparr>"

lemma timed_out_test_is_recorded_witness:
  "sc_results (fut_done (run_one slow_env (F64_Fin 5) (demo_test ''t'') (sched_new 0)))
     = [(test_results_new (demo_test ''t''))\<lparr>r_retcode := - 1\<rparr>]"
proof -
  have 1: "no_stop slow_env" and 2: "timeout_on (F64_Fin 5)"
    by (simp_all add: slow_env_def demo_env_def no_stop_def timeout_on_def)
  have 3: "\<forall>w. duration_ns (F64_Fin 5) < fut_time (run_of slow_env (demo_test ''t'') w)"
    by (simp add: slow_env_def demo_env_def nat_less_iff floor_less_iff)
  have 4: "\<forall>w. ss_writes slow_env (full_command (demo_test ''t'')) (t_cwd (demo_test ''t''))
      (t_env (demo_test ''t'')) w = [(seconds 1, ''early''), (seconds 30, ''late'')]"
    by (simp add: slow_env_def demo_env_def)
  have 5: "\<forall>w. fut_value (ss_tainted slow_env w) = Inr ((\<lambda>_. 0) w, [])"
    by (simp add: slow_env_def demo_env_def)
  have 6: "\<forall>w. fut_time (ss_ping slow_env w) \<le> PING_TIMEOUT \<and> fut_value (ss_ping slow_env w) = Inr f64_zero"
    by (simp add: slow_env_def demo_env_def)
  have 7: "\<forall>x. fw_read_result slow_env (demo_test ''t'') (concat (map snd (filter
      (\<lambda>(u, _). u \<le> duration_ns (F64_Fin 5)) [(seconds 1, ''early''), (seconds 30, ''late'')]))) (- 1) x
      = Inr ((\<lambda>_. (test_results_new (demo_test ''t''))\<lparr>r_retcode := - 1\<rparr>) x)"
    by (simp add: slow_env_def demo_env_def)
  show ?thesis
    using timed_out_test_is_recorded [where c = "\<lambda>_. 0" and s = "sched_new 0"
        and r = "\<lambda>_. (test_results_new (demo_test ''t''))\<lparr>r_retcode := - 1\<rparr>", OF 1 2 3 4 5 6 7]
    by (auto simp: sched_new_def)
qed

lemma pre_taint_panic_is_swallowed_witness:
  "fut_value (schedule_tests (demo_env\<lparr>ss_tainted := pure (Inl (KernelPanicE ''oops''))\<rparr>) f64_zero 1 (\<lambda>_. pure (Inr ()))
     [demo_test ''t''] (sched_new 0)) = Inr ()"
  using pre_taint_panic_is_swallowed
    [of "demo_env\<lparr>ss_tainted := pure (Inl (KernelPanicE ''oops''))\<rparr>" 1 "[demo_test ''t'']" f64_zero "\<lambda>_. pure (Inr ())"
      "sched_new 0"]
  by (simp add: no_stop_def demo_env_def)

end
