(* ===== verification/Par_Sched.thy ===== *)
theory Par_Sched
  imports Core_Types "HOL-Library.Multiset"
begin

text \<open>
  Crate \<open>kirk-scheduler\<close>, \<open>run_parallel\<close>: every test is a task of a \<open>JoinSet\<close>; a semaphore with
  \<open>max_workers\<close> permits lets that many run. Tasks interleave freely, so the model is a step
  relation: a task queues for a permit, runs, records its result and gives the permit back, and
  the joining loop collects the finished ones in any order and keeps the first error.
\<close>

datatype phase = Spawned | Queued | Running | Finished "kirk_error option" | Joined "kirk_error option"

record pool =
  po_permits :: nat
  po_tasks :: "phase list"
  po_results :: "test_results list"
  po_recorded :: "nat list" \<comment> \<open>the tasks the results came from: history\<close>
  po_first :: "kirk_error option"
  po_stop_cnt :: nat

definition pool_init :: "nat \<Rightarrow> test list \<Rightarrow> pool" where
  "pool_init max_workers tests =
     \<lparr> po_permits = max_workers, po_tasks = replicate (length tests) Spawned, po_results = [],
       po_recorded = [], po_first = None, po_stop_cnt = 0 \<rparr>"

definition set_task :: "nat \<Rightarrow> phase \<Rightarrow> pool \<Rightarrow> pool" where
  "set_task i ph p = p\<lparr>po_tasks := (po_tasks p)[i := ph]\<rparr>"

definition first_error :: "kirk_error option \<Rightarrow> kirk_error option \<Rightarrow> kirk_error option" where
  "first_error first outcome = (case first of None \<Rightarrow> outcome | Some _ \<Rightarrow> first)"

text \<open>
  One task or the joining loop moves. The result of a test and the error of its task come from the
  SUT and the framework, so a step allows any.
\<close>

inductive pool_work :: "test list \<Rightarrow> pool \<Rightarrow> pool \<Rightarrow> bool" for tests :: "test list" where
  skip: "i < length tests \<Longrightarrow> po_tasks p ! i = Spawned \<Longrightarrow> 0 < po_stop_cnt p \<Longrightarrow>
    pool_work tests p (set_task i (Finished None) p)"
| queue: "i < length tests \<Longrightarrow> po_tasks p ! i = Spawned \<Longrightarrow> po_stop_cnt p = 0 \<Longrightarrow>
    pool_work tests p (set_task i Queued p)"
| acquire_stopped: "i < length tests \<Longrightarrow> po_tasks p ! i = Queued \<Longrightarrow> 0 < po_permits p \<Longrightarrow>
    0 < po_stop_cnt p \<Longrightarrow> pool_work tests p (set_task i (Finished None) p)"
| acquire: "i < length tests \<Longrightarrow> po_tasks p ! i = Queued \<Longrightarrow> 0 < po_permits p \<Longrightarrow> po_stop_cnt p = 0 \<Longrightarrow>
    pool_work tests p (set_task i Running (p\<lparr>po_permits := po_permits p - 1\<rparr>))"
| record_result: "i < length tests \<Longrightarrow> po_tasks p ! i = Running \<Longrightarrow> r_test r = tests ! i \<Longrightarrow>
    pool_work tests p (set_task i (Finished e)
      (p\<lparr>po_permits := po_permits p + 1, po_results := po_results p @ [r],
         po_recorded := po_recorded p @ [i]\<rparr>))"
| no_result: "i < length tests \<Longrightarrow> po_tasks p ! i = Running \<Longrightarrow>
    pool_work tests p (set_task i (Finished e) (p\<lparr>po_permits := po_permits p + 1\<rparr>))"
| join: "i < length tests \<Longrightarrow> po_tasks p ! i = Finished e \<Longrightarrow>
    pool_work tests p (set_task i (Joined e) (p\<lparr>po_first := first_error (po_first p) e\<rparr>))"

inductive pool_step :: "test list \<Rightarrow> pool \<Rightarrow> pool \<Rightarrow> bool" for tests :: "test list" where
  work: "pool_work tests p p' \<Longrightarrow> pool_step tests p p'"
| stop: "pool_step tests p (p\<lparr>po_stop_cnt := po_stop_cnt p + 1\<rparr>)"

inductive pool_reachable :: "nat \<Rightarrow> test list \<Rightarrow> pool \<Rightarrow> bool" for max_workers tests where
  init: "pool_reachable max_workers tests (pool_init max_workers tests)"
| step: "pool_reachable max_workers tests p \<Longrightarrow> pool_step tests p p' \<Longrightarrow> pool_reachable max_workers tests p'"

inductive_cases pool_stepE: "pool_step tests p p'"

section \<open>Invariant\<close>

definition running :: "pool \<Rightarrow> nat" where
  "running p = count (mset (po_tasks p)) Running"

definition is_over :: "phase \<Rightarrow> bool" where
  "is_over ph \<longleftrightarrow> (\<exists>e. ph = Finished e \<or> ph = Joined e)"

definition pool_inv :: "nat \<Rightarrow> test list \<Rightarrow> pool \<Rightarrow> bool" where
  "pool_inv mw tests p \<longleftrightarrow>
     length (po_tasks p) = length tests \<and>
     po_permits p + running p = mw \<and>
     distinct (po_recorded p) \<and>
     (\<forall>i \<in> set (po_recorded p). i < length tests \<and> is_over (po_tasks p ! i)) \<and>
     map r_test (po_results p) = map ((!) tests) (po_recorded p) \<and>
     (\<forall>e. po_first p = Some e \<longrightarrow> Joined (Some e) \<in> set (po_tasks p)) \<and>
     (po_first p = None \<longrightarrow> (\<forall>e. Joined (Some e) \<notin> set (po_tasks p)))"

lemma set_task_sel [simp]:
  "po_permits (set_task i ph p) = po_permits p" "po_results (set_task i ph p) = po_results p"
  "po_recorded (set_task i ph p) = po_recorded p" "po_first (set_task i ph p) = po_first p"
  "po_stop_cnt (set_task i ph p) = po_stop_cnt p"
  "po_tasks (set_task i ph p) = (po_tasks p)[i := ph]"
  by (simp_all add: set_task_def)

lemma running_update:
  "i < length xs \<Longrightarrow> count (mset (xs[i := ph])) Running + (if xs ! i = Running then 1 else 0)
     = count (mset xs) Running + (if ph = Running then 1 else 0)"
proof -
  assume i: "i < length xs"
  have "mset (xs[i := ph]) = add_mset ph (mset xs - {#xs ! i#})" by (rule mset_update [OF i])
  moreover have "xs ! i \<in># mset xs" using i by simp
  ultimately show ?thesis by (auto simp: count_greater_zero_iff [symmetric] simp del: in_multiset_in_set)
qed

text \<open>Joined tasks stay joined: what an update of another task does to the set of phases.\<close>

lemma joined_update:
  assumes "i < length xs" and "\<And>e. xs ! i \<noteq> Joined e"
  shows "Joined e \<in> set (xs[i := ph]) \<longleftrightarrow> Joined e \<in> set xs \<or> ph = Joined e"
proof
  assume "Joined e \<in> set (xs[i := ph])"
  then show "Joined e \<in> set xs \<or> ph = Joined e"
    using set_update_subset_insert [of xs i ph] by auto
next
  assume "Joined e \<in> set xs \<or> ph = Joined e"
  then show "Joined e \<in> set (xs[i := ph])"
  proof
    assume "Joined e \<in> set xs"
    then obtain k where k: "k < length xs" "xs ! k = Joined e" by (auto simp: in_set_conv_nth)
    with assms have "k \<noteq> i" by auto
    with k have "xs[i := ph] ! k = Joined e" by simp
    with k(1) show ?thesis by (metis length_list_update nth_mem)
  qed (use assms(1) in \<open>simp add: set_update_memI\<close>)
qed

lemma pool_inv_init: "pool_inv mw tests (pool_init mw tests)"
  by (simp add: pool_inv_def pool_init_def running_def)

lemmas pool_inv_simps = pool_inv_def running_def nth_list_update is_over_def joined_update

lemma pool_inv_work: "pool_work tests p p' \<Longrightarrow> pool_inv mw tests p \<Longrightarrow> pool_inv mw tests p'"
proof (induction rule: pool_work.induct)
  case (skip i p)
  then show ?case using running_update [of i "po_tasks p" "Finished None"] by (auto simp: pool_inv_simps)
next
  case (queue i p)
  then show ?case using running_update [of i "po_tasks p" Queued] by (auto simp: pool_inv_simps)
next
  case (acquire_stopped i p)
  then show ?case using running_update [of i "po_tasks p" "Finished None"] by (auto simp: pool_inv_simps)
next
  case (acquire i p)
  then show ?case using running_update [of i "po_tasks p" Running] by (auto simp: pool_inv_simps)
next
  case (record_result i p r e)
  then show ?case using running_update [of i "po_tasks p" "Finished e"] by (auto simp: pool_inv_simps)
next
  case (no_result i p e)
  then show ?case using running_update [of i "po_tasks p" "Finished e"] by (auto simp: pool_inv_simps)
next
  case (join i p e)
  then show ?case
    using running_update [of i "po_tasks p" "Joined e"]
    by (auto simp: pool_inv_simps first_error_def split: option.splits)
qed

lemma pool_inv_reachable: "pool_reachable mw tests p \<Longrightarrow> pool_inv mw tests p"
proof (induction rule: pool_reachable.induct)
  case init
  show ?case by (rule pool_inv_init)
next
  case (step p p')
  show ?case
    by (rule pool_stepE [OF step(2)])
      (use step(3) pool_inv_work in \<open>auto simp: pool_inv_def running_def\<close>)
qed

text \<open>
  Claim C5: whatever the interleaving, at most \<open>max_workers\<close> tests run at the same time, the
  permits given out are those of the running tests, and every test of the list is recorded at
  most once.
\<close>

theorem pool_respects_workers:
  assumes "pool_reachable max_workers tests p"
  shows "running p \<le> max_workers \<and> po_permits p = max_workers - running p \<and>
    (\<exists>idx. distinct idx \<and> set idx \<subseteq> {..< length tests} \<and> map r_test (po_results p) = map ((!) tests) idx)"
  using pool_inv_reachable [OF assms] by (auto simp: pool_inv_def intro!: exI [of _ "po_recorded p"])

section \<open>Termination and the error reported\<close>

fun phase_left :: "phase \<Rightarrow> nat" where
  "phase_left Spawned = 4"
| "phase_left Queued = 3"
| "phase_left Running = 2"
| "phase_left (Finished _) = 1"
| "phase_left (Joined _) = 0"

definition work_left :: "pool \<Rightarrow> nat" where
  "work_left p = sum_list (map phase_left (po_tasks p))"

lemma sum_list_update_lt:
  "i < length xs \<Longrightarrow> f y < f (xs ! i) \<Longrightarrow> sum_list (map f (xs[i := y])) < sum_list (map f xs)"
  for f :: "'a \<Rightarrow> nat"
proof (induction xs arbitrary: i)
  case Nil
  then show ?case by simp
next
  case (Cons x xs)
  then show ?case by (cases i) auto
qed

lemma work_decreases:
  "pool_work tests p p' \<Longrightarrow> length (po_tasks p) = length tests \<Longrightarrow> work_left p' < work_left p"
  by (induction rule: pool_work.induct) (auto simp: work_left_def intro!: sum_list_update_lt)

definition all_joined :: "pool \<Rightarrow> bool" where
  "all_joined p \<longleftrightarrow> (\<forall>ph \<in> set (po_tasks p). \<exists>e. ph = Joined e)"

lemma work_possible:
  assumes inv: "pool_inv mw tests p" and "0 < mw" and "\<not> all_joined p"
  shows "\<exists>p'. pool_work tests p p'"
proof (rule ccontr)
  assume stuck: "\<nexists>p'. pool_work tests p p'"
  have len: "length (po_tasks p) = length tests" using inv by (simp add: pool_inv_def)
  have only: "po_tasks p ! i = Queued \<or> (\<exists>e. po_tasks p ! i = Joined e)" if "i < length tests" for i
  proof (cases "po_tasks p ! i")
    case Spawned
    then show ?thesis using stuck that pool_work.skip pool_work.queue by (cases "po_stop_cnt p") blast+
  next
    case Running
    then show ?thesis using stuck that pool_work.no_result by blast
  next
    case (Finished e)
    then show ?thesis using stuck that pool_work.join by blast
  qed simp_all
  from assms(3) obtain ph where ph: "ph \<in> set (po_tasks p)" "\<nexists>e. ph = Joined e"
    by (auto simp: all_joined_def)
  then obtain i where "i < length tests" "po_tasks p ! i = ph" using len by (auto simp: in_set_conv_nth)
  with only ph(2) have i: "i < length tests" "po_tasks p ! i = Queued" by blast+
  have "Running \<notin> set (po_tasks p)"
    using only len by (fastforce simp: in_set_conv_nth)
  then have "running p = 0" by (simp add: running_def count_eq_zero_iff)
  then have "0 < po_permits p" using inv assms(2) by (simp add: pool_inv_def)
  with i stuck show False
    using pool_work.acquire pool_work.acquire_stopped by (cases "po_stop_cnt p") blast+
qed

text \<open>
  Claim C6: \<open>run_parallel\<close> ends: from every reachable state that still has a task to join, some
  task or the joining loop can move, each such move uses up one of at most four per task, and
  when all are joined the first error kept is the error of one of the tasks, and there is none
  exactly when no task failed.
\<close>

theorem pool_finishes:
  assumes "pool_reachable max_workers tests p" and "0 < max_workers"
  shows "(\<not> all_joined p \<longrightarrow> (\<exists>p'. pool_work tests p p')) \<and>
    (\<forall>p'. pool_work tests p p' \<longrightarrow> work_left p' < work_left p) \<and>
    work_left p \<le> 4 * length tests \<and>
    (\<forall>e. po_first p = Some e \<longrightarrow> Joined (Some e) \<in> set (po_tasks p)) \<and>
    (all_joined p \<longrightarrow> (po_first p = None \<longleftrightarrow> (\<forall>ph \<in> set (po_tasks p). ph = Joined None)))"
proof -
  note inv = pool_inv_reachable [OF assms(1)]
  have len: "length (po_tasks p) = length tests" using inv by (simp add: pool_inv_def)
  have "phase_left ph \<le> 4" for ph by (cases ph) auto
  then have "sum_list (map phase_left xs) \<le> 4 * length xs" for xs
    by (induction xs) (auto intro: add_mono)
  then have "work_left p \<le> 4 * length (po_tasks p)" by (simp add: work_left_def)
  moreover have "all_joined p \<longrightarrow> (po_first p = None \<longleftrightarrow> (\<forall>ph \<in> set (po_tasks p). ph = Joined None))"
  proof
    assume all: "all_joined p"
    show "po_first p = None \<longleftrightarrow> (\<forall>ph \<in> set (po_tasks p). ph = Joined None)"
    proof (cases "po_first p")
      case None
      then have "\<forall>e. Joined (Some e) \<notin> set (po_tasks p)" using inv by (simp add: pool_inv_def)
      with all None show ?thesis unfolding all_joined_def by (metis option.exhaust)
    next
      case (Some e)
      then have "Joined (Some e) \<in> set (po_tasks p)" using inv by (simp add: pool_inv_def)
      with Some show ?thesis by auto
    qed
  qed
  ultimately show ?thesis
    using work_possible [OF inv assms(2)] work_decreases [OF _ len] inv len
    by (simp add: pool_inv_def)
qed

text \<open>Two tests on one worker: the first runs while the second waits.\<close>

lemma pool_example:
  "pool_reachable 1 [a, b] (pool_init 1 [a, b]\<lparr>po_permits := 0, po_tasks := [Running, Queued]\<rparr>)"
proof -
  let ?p = "pool_init 1 [a, b]"
  have 1: "pool_reachable 1 [a, b] (set_task 0 Queued ?p)"
    by (rule pool_reachable.step [OF pool_reachable.init pool_step.work [OF pool_work.queue]])
      (simp_all add: pool_init_def)
  have 2: "pool_reachable 1 [a, b] (set_task 1 Queued (set_task 0 Queued ?p))"
    by (rule pool_reachable.step [OF 1 pool_step.work [OF pool_work.queue]])
      (simp_all add: pool_init_def)
  have "pool_reachable 1 [a, b] (set_task 0 Running
      ((set_task 1 Queued (set_task 0 Queued ?p))\<lparr>po_permits := po_permits ?p - 1\<rparr>))"
    using pool_reachable.step [OF 2 pool_step.work [OF pool_work.acquire [of 0]]]
    by (simp add: pool_init_def)
  then show ?thesis by (simp add: set_task_def pool_init_def)
qed

definition example_test :: "string \<Rightarrow> test" where
  "example_test n = \<lparr> t_name = n, t_command = ''true'', t_cwd = None, t_env = Map.empty, t_args = [],
     t_parallelizable = True \<rparr>"

lemma pool_respects_workers_witness:
  "running (pool_init 1 [example_test ''a'', example_test ''b'']
     \<lparr>po_permits := 0, po_tasks := [Running, Queued]\<rparr>) \<le> 1"
  using pool_respects_workers [OF pool_example] by blast

lemma pool_finishes_witness:
  "\<exists>p'. pool_work [example_test ''a'', example_test ''b'']
     (pool_init 1 [example_test ''a'', example_test ''b'']\<lparr>po_permits := 0, po_tasks := [Running, Queued]\<rparr>) p'"
  using pool_finishes [OF pool_example] by (simp add: all_joined_def)

end
