(* ===== verification/Suite_Sched.thy ===== *)
theory Suite_Sched
  imports Test_Sched
begin

text \<open>
  Crate \<open>kirk-scheduler\<close>, \<open>suite_sched.rs\<close>: a suite is scheduled in rounds. A round runs the
  tests that are left; a kernel error reboots the SUT and starts another round, an expired suite
  timeout marks what is left as skipped, and any other error ends the suite. The loop may run
  forever, so it takes fuel; \<open>None\<close> is running out of it.
\<close>

record suite_loop =
  sl_exec_times :: "f64 list"
  sl_tests :: "test_results list"
  sl_timed_out :: bool

record 'w suite_cfg =
  cf_suite_timeout :: f64
  cf_exec_timeout :: f64
  cf_max_workers :: nat
  cf_par :: "test list \<Rightarrow> (unit result, 'w sched) action"
  cf_rounding :: rounding

record 'w suite_sched =
  su_inner :: "'w sched"
  su_results :: "suite_results list"
  su_stopped :: bool

text \<open>The constructors clamp the timeouts and the number of workers.\<close>

definition suite_cfg_new ::
  "f64 \<Rightarrow> f64 \<Rightarrow> nat \<Rightarrow> (test list \<Rightarrow> (unit result, 'w sched) action) \<Rightarrow> rounding \<Rightarrow> 'w suite_cfg" where
  "suite_cfg_new suite_timeout exec_timeout max_workers par rnd =
     \<lparr> cf_suite_timeout = clamp_timeout suite_timeout, cf_exec_timeout = clamp_timeout exec_timeout,
       cf_max_workers = clamp_workers max_workers, cf_par = par, cf_rounding = rnd \<rparr>"

definition suite_sched_new :: "'w \<Rightarrow> 'w suite_sched" where
  "suite_sched_new w = \<lparr> su_inner = sched_new w, su_results = [], su_stopped = False \<rparr>"

definition on_inner :: "('a, 'w sched) action \<Rightarrow> ('a, 'w suite_sched) action" where
  "on_inner a = on_part su_inner (\<lambda>p s. s\<lparr>su_inner := p\<rparr>) a"

section \<open>Rounds\<close>

definition inner_schedule ::
  "'w sched_env \<Rightarrow> 'w suite_cfg \<Rightarrow> test list \<Rightarrow> (unit result, 'w sched) action" where
  "inner_schedule E cfg tests =
     schedule_tests E (cf_exec_timeout cfg) (cf_max_workers cfg) (cf_par cfg) tests"

definition restart_sut :: "'w sched_env \<Rightarrow> (unit result, 'w sched) action" where
  "restart_sut E =
     bind (fire_event ''sut_restart'' (P_Text (ss_name E))) (\<lambda>_.
     bind (stop_tests E) (\<lambda>_.
     on_world (ss_restart E)))"

text \<open>A result for a test the suite timeout left out.\<close>

definition timeout_result :: "test \<Rightarrow> test_results" where
  "timeout_result test =
     with_status status_CONF (with_stdout [] (with_retcode 32 (with_exec_time f64_zero
       (with_warnings 0 (with_skipped 1 (with_broken 0 (with_passed 0 (with_failed 0
         (test_results_new test)))))))))"

definition settle ::
  "'w sched_env \<Rightarrow> suite \<Rightarrow> f64 \<Rightarrow> bool \<Rightarrow> unit result option \<Rightarrow> (unit result \<times> bool, 'w sched) action" where
  "settle E suite suite_timeout timed_out outcome =
     (case outcome of
        None \<Rightarrow> bind (fire_event ''suite_timeout'' (P_SuiteTimeout suite suite_timeout))
                  (\<lambda>_. pure (Ok (), True))
      | Some verdict \<Rightarrow> pure (verdict, timed_out))"

definition suite_round ::
  "'w sched_env \<Rightarrow> 'w suite_cfg \<Rightarrow> suite \<Rightarrow> test list \<Rightarrow> suite_loop
     \<Rightarrow> (unit result \<times> suite_loop, 'w sched) action" where
  "suite_round E cfg suite tests_left loop =
     bind (get sc_world) (\<lambda>began.
     bind (limited (cf_suite_timeout cfg) (inner_schedule E cfg tests_left)) (\<lambda>outcome.
     bind (settle E suite (cf_suite_timeout cfg) (sl_timed_out loop) outcome) (\<lambda>(verdict, timed_out).
     bind (get (\<lambda>s. (ss_elapsed E began (sc_world s), sc_results s))) (\<lambda>(elapsed, results).
       let loop1 = loop\<lparr>sl_exec_times := sl_exec_times loop @ [elapsed],
                        sl_tests := sl_tests loop @ results, sl_timed_out := timed_out\<rparr>
       in case verdict of
            Inr _ \<Rightarrow> pure (Ok (), loop1)
          | Inl err \<Rightarrow>
              if is_kernel_error err then bind (restart_sut E) (\<lambda>r. pure (r, loop1))
              else pure (Err err, loop1)))))"

definition tests_without_result :: "suite \<Rightarrow> test_results list \<Rightarrow> test list" where
  "tests_without_result suite rs =
     filter (\<lambda>test. t_name test \<notin> set (map (\<lambda>r. t_name (r_test r)) rs)) (s_tests suite)"

fun drive_suite ::
  "nat \<Rightarrow> 'w sched_env \<Rightarrow> 'w suite_cfg \<Rightarrow> suite \<Rightarrow> test list \<Rightarrow> suite_loop
     \<Rightarrow> ((unit result \<times> suite_loop) option, 'w sched) action" where
  "drive_suite 0 E cfg suite tests_left loop = pure None"
| "drive_suite (Suc n) E cfg suite tests_left loop =
     bind (get (\<lambda>s. ss_stop_flag E (sc_world s))) (\<lambda>stop_flag.
       if stop_flag \<or> tests_left = [] then pure (Some (Ok (), loop))
       else
         bind (suite_round E cfg suite tests_left loop) (\<lambda>(verdict, loop1).
           case verdict of
             Inl err \<Rightarrow> pure (Some (Err err, loop1))
           | Inr _ \<Rightarrow>
               (let left = tests_without_result suite (sl_tests loop1)
                in if sl_timed_out loop1
                   then pure (Some (Ok (), loop1\<lparr>sl_tests := sl_tests loop1 @ map timeout_result left\<rparr>))
                   else drive_suite n E cfg suite left loop1)))"

definition loop_init :: suite_loop where
  "loop_init = \<lparr> sl_exec_times = [], sl_tests = [], sl_timed_out = False \<rparr>"

section \<open>Suites\<close>

definition set_info :: "str_map \<Rightarrow> string \<Rightarrow> (string \<Rightarrow> suite_results \<Rightarrow> suite_results)
    \<Rightarrow> suite_results \<Rightarrow> suite_results" where
  "set_info info key setter r = (case info key of Some value \<Rightarrow> setter value r | None \<Rightarrow> r)"

definition apply_info :: "suite \<Rightarrow> test_results list \<Rightarrow> str_map \<Rightarrow> suite_results" where
  "apply_info suite tests info =
     set_info info ''ram'' with_ram (set_info info ''swap'' with_swap (set_info info ''cpu'' with_cpu
     (set_info info ''arch'' with_arch (set_info info ''cmdline'' with_cmdline
     (set_info info ''kernel'' with_kernel (set_info info ''distro_ver'' with_distro_ver
     (set_info info ''distro'' with_distro (with_tests tests (suite_results_new suite)))))))))"

definition run_suite ::
  "nat \<Rightarrow> 'w sched_env \<Rightarrow> 'w suite_cfg \<Rightarrow> suite \<Rightarrow> (unit result option, 'w suite_sched) action" where
  "run_suite fuel E cfg suite =
     bind (on_inner (fire_event ''suite_started'' (P_Suite suite))) (\<lambda>_.
     bind (on_inner (on_world (ss_info E))) (\<lambda>i.
       case i of
         Inl err \<Rightarrow> pure (Some (Err err))
       | Inr info \<Rightarrow>
           bind (on_inner (drive_suite fuel E cfg suite (s_tests suite) loop_init)) (\<lambda>r.
             case r of
               None \<Rightarrow> pure None
             | Some (outcome, loop) \<Rightarrow>
                 (let exec_time = f64_sum (cf_rounding cfg) (sl_exec_times loop);
                      completed = apply_info suite (sl_tests loop) info
                  in bind (on_inner (fire_event ''suite_completed'' (P_SuiteCompleted completed exec_time))) (\<lambda>_.
                     bind (upd (\<lambda>s. s\<lparr>su_results := su_results s @ [completed]\<rparr>)) (\<lambda>_.
                     pure (Some outcome)))))))"

fun run_suites ::
  "nat \<Rightarrow> 'w sched_env \<Rightarrow> 'w suite_cfg \<Rightarrow> suite list \<Rightarrow> (unit result option, 'w suite_sched) action" where
  "run_suites fuel E cfg [] = pure (Some (Ok ()))"
| "run_suites fuel E cfg (suite # suites) =
     bind (run_suite fuel E cfg suite) (\<lambda>r.
       case r of
         Some (Inr _) \<Rightarrow> run_suites fuel E cfg suites
       | _ \<Rightarrow> pure r)"

definition schedule_suites ::
  "nat \<Rightarrow> 'w sched_env \<Rightarrow> 'w suite_cfg \<Rightarrow> suite list \<Rightarrow> (unit result option, 'w suite_sched) action" where
  "schedule_suites fuel E cfg suites =
     (if suites = [] then pure (Some (Err (SchedulerE ''jobs list is empty'')))
      else bind (upd (\<lambda>s. s\<lparr>su_results := []\<rparr>)) (\<lambda>_. run_suites fuel E cfg suites))"

definition stop_suites :: "'w sched_env \<Rightarrow> (unit, 'w suite_sched) action" where
  "stop_suites E =
     bind (on_inner (upd (\<lambda>s. s\<lparr>sc_world := ss_set_stop_flag E True (sc_world s)\<rparr>))) (\<lambda>_.
     bind (on_inner (stop_tests E)) (\<lambda>_.
     bind (on_inner (upd (\<lambda>s. s\<lparr>sc_world := ss_set_stop_flag E False (sc_world s)\<rparr>))) (\<lambda>_.
     upd (\<lambda>s. s\<lparr>su_stopped := True\<rparr>))))"

section \<open>What a round relies on\<close>

text \<open>The contract of the test scheduler, and what it gives for the tests a round leaves.\<close>

text \<open>
  A limited round, as \<open>None\<close> for the expired timeout: the results kept, and what was announced only.
\<close>

definition round_ok :: "test list \<Rightarrow> unit result option \<Rightarrow> test_results list \<Rightarrow> test_results list \<Rightarrow> bool" where
  "round_ok ts outcome new extra \<longleftrightarrow> cut_account ts new extra \<and>
     (case outcome of None \<Rightarrow> True | Some x \<Rightarrow> extra = [] \<and> account ts x new)"

locale test_runner =
  fixes fair :: bool
    and schedule :: "test list \<Rightarrow> (unit result, 's) action"
    and results :: "'s \<Rightarrow> test_results list"
    and announced :: "'s \<Rightarrow> event_payload list"
  assumes accounts: "fair \<Longrightarrow> ts \<noteq> [] \<Longrightarrow>
      account ts (fut_value (schedule ts s)) (results (fut_done (schedule ts s)))"
    and announces: "fair \<Longrightarrow> ts \<noteq> [] \<Longrightarrow>
      announced (fut_done (schedule ts s)) = announced s @ map P_TestResults (results (fut_done (schedule ts s)))"
    and cut_short: "fair \<Longrightarrow> ts \<noteq> [] \<Longrightarrow>
      \<exists>extra. cut_account ts (results (fut_dropped (schedule ts s) t)) extra \<and>
        announced (fut_dropped (schedule ts s) t) =
          announced s @ map P_TestResults (results (fut_dropped (schedule ts s) t) @ extra)"
begin

lemma limited_round:
  assumes "fair" and "ts \<noteq> []"
  shows "\<exists>extra. round_ok ts (fut_value (limited d (schedule ts) s)) (results (fut_done (limited d (schedule ts) s))) extra \<and>
    announced (fut_done (limited d (schedule ts) s)) =
      announced s @ map P_TestResults (results (fut_done (limited d (schedule ts) s)) @ extra)"
proof (cases "timeout_on d \<and> duration_ns d < fut_time (schedule ts s)")
  case True
  then have "fut_value (limited d (schedule ts) s) = None"
    and "fut_done (limited d (schedule ts) s) = fut_dropped (schedule ts s) (duration_ns d)"
    by (simp_all add: limited_def with_timeout_def Let_def)
  then show ?thesis using cut_short [OF assms, of s] by (simp add: round_ok_def)
next
  case False
  then have "fut_value (limited d (schedule ts) s) = Some (fut_value (schedule ts s))"
    and "fut_done (limited d (schedule ts) s) = fut_done (schedule ts s)"
    by (auto simp: limited_def with_timeout_def Let_def)
  then show ?thesis
    using accounts [OF assms, of s] announces [OF assms, of s]
    by (auto simp: round_ok_def cut_account_def account_def intro: exI [of _ "[]"])
qed

end

interpretation runner: test_runner
  "names_its_test E \<and> blames_tests E \<and> cf_max_workers cfg \<le> 1" "inner_schedule E cfg" sc_results
  "fired ''test_completed''"
  for E cfg
  by unfold_locales
    (auto simp only: inner_schedule_def intro!: schedule_account)

section \<open>Every test of a suite is accounted for\<close>

lemma on_world_results [simp]: "sc_results (fut_done (on_world a s)) = sc_results s"
  by simp

lemma settle_results [simp]:
  "sc_results (fut_done (settle E suite d b outcome s)) = sc_results s"
  by (simp add: settle_def split: option.split)

lemma settle_fired [simp]:
  "fired ''test_completed'' (fut_done (settle E suite d b outcome s)) = fired ''test_completed'' s"
  by (simp add: settle_def split: option.split)

lemma restart_fired [simp]:
  "fired ''test_completed'' (fut_done (restart_sut E s)) = fired ''test_completed'' s"
  by (simp add: restart_sut_def stop_tests_def do_when_def)

lemma settle_value:
  "fut_value (settle E suite d b outcome s) =
     (case outcome of None \<Rightarrow> (Inr (), True) | Some v \<Rightarrow> (v, b))"
  by (simp add: settle_def split: option.split)

definition runs_fairly :: "'w sched_env \<Rightarrow> 'w suite_cfg \<Rightarrow> bool" where
  "runs_fairly E cfg \<longleftrightarrow> (names_its_test E \<and> blames_tests E \<and> cf_max_workers cfg \<le> 1)"

lemma suite_round_progress:
  assumes "runs_fairly E cfg" and "left \<noteq> []" and "\<not> sl_timed_out loop"
  shows "\<exists>x loop1 new extra. fut_value (suite_round E cfg suite left loop s) = (x, loop1) \<and>
    sl_tests loop1 = sl_tests loop @ new \<and> prefix (map r_test (new @ extra)) left \<and>
    fired ''test_completed'' (fut_done (suite_round E cfg suite left loop s)) =
      fired ''test_completed'' s @ map P_TestResults (new @ extra) \<and>
    (if sl_timed_out loop1 then x = Inr () \<and> length extra \<le> 1 else extra = [] \<and> (x = Inr () \<longrightarrow> new \<noteq> []))"
proof -
  define f where "f = limited (cf_suite_timeout cfg) (inner_schedule E cfg left) s"
  obtain extra where ok: "round_ok left (fut_value f) (sc_results (fut_done f)) extra"
    and ann: "fired ''test_completed'' (fut_done f) =
      fired ''test_completed'' s @ map P_TestResults (sc_results (fut_done f) @ extra)"
    using runner.limited_round [where E = E and cfg = cfg and ts = left and s = s and d = "cf_suite_timeout cfg"] assms(1,2)
    by (auto simp: f_def runs_fairly_def)
  show ?thesis
  proof (cases "fut_value f")
    case None
    then show ?thesis
      using ok ann unfolding f_def
      by (auto simp: suite_round_def settle_value round_ok_def cut_account_def Let_def intro!: exI [of _ extra])
  next
    case (Some v)
    then show ?thesis
      using ok ann assms(2,3) unfolding f_def
      by (cases v) (auto simp: suite_round_def settle_value round_ok_def account_def Let_def)
  qed
qed

lemma tests_without_result_rest:
  assumes "distinct (map t_name (s_tests suite))" and "s_tests suite = map r_test rs @ rest"
  shows "tests_without_result suite rs = rest"
proof -
  have names: "set (map (\<lambda>r. t_name (r_test r)) rs) = t_name ` set (map r_test rs)" by auto
  have "t_name ` set (map r_test rs) \<inter> t_name ` set rest = {}"
    using assms by (simp add: image_image image_comp)
  then have "\<forall>t \<in> set rest. t_name t \<notin> t_name ` set (map r_test rs)" by blast
  then show ?thesis
    unfolding tests_without_result_def names assms(2) filter_append
    by (simp add: filter_id_conv)
qed

text \<open>A test that the suite timeout left out counts as skipped, with code 32 and nothing else.\<close>

definition left_out :: "test_results \<Rightarrow> bool" where
  "left_out r \<longleftrightarrow> r_retcode r = 32 \<and> r_skipped r = 1 \<and> r_passed r = 0 \<and> r_failed r = 0 \<and> r_broken r = 0 \<and>
     r_warnings r = 0 \<and> r_status r = status_CONF \<and> r_stdout r = [] \<and> r_exec_time r = f64_zero"

text \<open>
  How the results of a suite relate to the results announced: the first \<open>k\<close> are announced, in
  order; \<open>extra\<close> is a result announced and not kept, when the timeout fell in between.
\<close>

definition suite_accounted ::
  "suite \<Rightarrow> event_payload list \<Rightarrow> event_payload list \<Rightarrow> unit result \<times> suite_loop \<Rightarrow> bool" where
  "suite_accounted suite old new v \<longleftrightarrow>
     prefix (map r_test (sl_tests (snd v))) (s_tests suite) \<and>
     (fst v = Inr () \<longrightarrow> map r_test (sl_tests (snd v)) = s_tests suite) \<and>
     (\<exists>k extra. k \<le> length (sl_tests (snd v)) \<and>
        new = old @ map P_TestResults (take k (sl_tests (snd v)) @ extra) \<and>
        (if sl_timed_out (snd v)
         then fst v = Inr () \<and> list_all left_out (drop k (sl_tests (snd v))) \<and> length extra \<le> 1 \<and>
           prefix (map r_test (take k (sl_tests (snd v)) @ extra)) (s_tests suite)
         else k = length (sl_tests (snd v)) \<and> extra = []))"

lemma timeout_result_test [simp]: "r_test (timeout_result t) = t"
  by (simp add: timeout_result_def result_defs)

lemma timeout_result_left_out: "left_out (timeout_result t)"
  by (simp add: timeout_result_def left_out_def result_defs)

lemma drive_suite_accounted:
  assumes "runs_fairly E cfg" and "distinct (map t_name (s_tests suite))"
    and "\<forall>w. \<not> ss_stop_flag E w"
  shows "s_tests suite = map r_test (sl_tests loop) @ left \<Longrightarrow> length left < n \<Longrightarrow>
    \<not> sl_timed_out loop \<Longrightarrow> fired ''test_completed'' s = old @ map P_TestResults (sl_tests loop) \<Longrightarrow>
    \<exists>v. fut_value (drive_suite n E cfg suite left loop s) = Some v \<and>
      suite_accounted suite old (fired ''test_completed'' (fut_done (drive_suite n E cfg suite left loop s))) v"
proof (induction n arbitrary: left loop s)
  case 0
  then show ?case by simp
next
  case (Suc n)
  show ?case
  proof (cases "left = []")
    case True
    with Suc.prems assms(3) show ?thesis by (auto simp: suite_accounted_def intro: exI [of _ "length (sl_tests loop)"])
  next
    case False
    from suite_round_progress [OF assms(1) False Suc.prems(3), of suite s]
    obtain x loop1 new extra where
      round: "fut_value (suite_round E cfg suite left loop s) = (x, loop1)"
      and tests: "sl_tests loop1 = sl_tests loop @ new" and pre: "prefix (map r_test (new @ extra)) left"
      and ann: "fired ''test_completed'' (fut_done (suite_round E cfg suite left loop s)) =
        fired ''test_completed'' s @ map P_TestResults (new @ extra)"
      and progress: "if sl_timed_out loop1 then x = Inr () \<and> length extra \<le> 1
        else extra = [] \<and> (x = Inr () \<longrightarrow> new \<noteq> [])"
      by blast
    from pre have "prefix (map r_test new) left" by (auto elim: append_prefixD)
    then obtain rest where rest: "left = map r_test new @ rest" by (auto elim: prefixE)
    with Suc.prems(1) tests have all: "s_tests suite = map r_test (sl_tests loop1) @ rest" by simp
    have left: "tests_without_result suite (sl_tests loop1) = rest"
      by (rule tests_without_result_rest [OF assms(2) all])
    have books: "fired ''test_completed'' (fut_done (suite_round E cfg suite left loop s)) =
        old @ map P_TestResults (sl_tests loop1 @ extra)"
      by (simp add: ann Suc.prems(4) tests)
    show ?thesis
    proof (cases x)
      case (Inl e)
      with progress have "\<not> sl_timed_out loop1" "extra = []" by (auto split: if_splits)
      then show ?thesis
        using assms(3) False round Inl all books
        by (auto simp: suite_accounted_def intro: exI [of _ "length (sl_tests loop1)"])
    next
      case (Inr u)
      show ?thesis
      proof (cases "sl_timed_out loop1")
        case True
        let ?loop = "loop1\<lparr>sl_tests := sl_tests loop1 @ map timeout_result rest\<rparr>"
        have "prefix (map r_test (sl_tests loop1 @ extra)) (s_tests suite)"
          using pre Suc.prems(1) tests by simp
        with True progress all books have
          "suite_accounted suite old (fired ''test_completed'' (fut_done (suite_round E cfg suite left loop s))) (Inr (), ?loop)"
          by (auto simp: suite_accounted_def comp_def list_all_iff timeout_result_left_out
              intro!: exI [of _ "length (sl_tests loop1)"] exI [of _ extra])
        then show ?thesis using assms(3) False round Inr left True by simp
      next
        case notout: False
        with progress Inr have "new \<noteq> []" and "extra = []" by simp_all
        with rest Suc.prems(2) have "length rest < n" by (cases new) auto
        from Suc.IH [OF all this notout] books \<open>extra = []\<close>
        show ?thesis using assms(3) False round Inr left notout by simp
      qed
    qed
  qed
qed

text \<open>
  Claim C1: on one worker, with a SUT and a framework that keep the contract and no stop requested, the rounds of
  a suite with distinct test names end: fuel beyond the number of tests is enough. Success
  gives every test of the suite exactly one result, in the order of the suite, across reboots and
  an expired suite timeout; a suite that fails has results for its first tests. The results are
  those that were announced as the tests completed, all of them, followed, when the suite timeout
  expired, by one for each test left out, skipped with code 32; the timeout can only lose the
  result of a single test, announced and about to be kept.
\<close>

theorem drive_suite_ends_with_every_test:
  assumes "runs_fairly E cfg" and "distinct (map t_name (s_tests suite))"
    and "\<forall>w. \<not> ss_stop_flag E w" and "length (s_tests suite) < fuel"
  shows "\<exists>x loop k extra. fut_value (drive_suite fuel E cfg suite (s_tests suite) loop_init s) = Some (x, loop) \<and>
    prefix (map r_test (sl_tests loop)) (s_tests suite) \<and>
    (x = Inr () \<longrightarrow> map r_test (sl_tests loop) = s_tests suite) \<and> k \<le> length (sl_tests loop) \<and>
    fired ''test_completed'' (fut_done (drive_suite fuel E cfg suite (s_tests suite) loop_init s)) =
      fired ''test_completed'' s @ map P_TestResults (take k (sl_tests loop) @ extra) \<and>
    (if sl_timed_out loop
     then x = Inr () \<and> list_all left_out (drop k (sl_tests loop)) \<and> length extra \<le> 1 \<and>
       prefix (map r_test (take k (sl_tests loop) @ extra)) (s_tests suite)
     else k = length (sl_tests loop) \<and> extra = [])"
proof -
  obtain x loop where "fut_value (drive_suite fuel E cfg suite (s_tests suite) loop_init s) = Some (x, loop)"
    and "suite_accounted suite (fired ''test_completed'' s)
      (fired ''test_completed'' (fut_done (drive_suite fuel E cfg suite (s_tests suite) loop_init s))) (x, loop)"
    using drive_suite_accounted [OF assms(1-3), of loop_init "s_tests suite" fuel s "fired ''test_completed'' s"] assms(4)
    by (auto simp: loop_init_def)
  then show ?thesis unfolding suite_accounted_def fst_conv snd_conv by blast
qed

definition demo_cfg :: "nat suite_cfg" where
  "demo_cfg = suite_cfg_new f64_zero f64_zero 1 (\<lambda>_. pure (Inr ())) F64_Fin"

definition demo_suite :: suite where
  "demo_suite = suite_new ''demo'' [demo_test ''a'', demo_test ''b'']"

lemma demo_cfg_fair: "runs_fairly demo_env demo_cfg"
  using demo_env_laws
  by (simp add: runs_fairly_def demo_cfg_def suite_cfg_new_def clamp_workers_def)

lemma drive_suite_ends_with_every_test_witness:
  "\<exists>x loop. fut_value (drive_suite 3 demo_env demo_cfg demo_suite (s_tests demo_suite) loop_init (sched_new 0))
     = Some (x, loop) \<and> (x = Inr () \<longrightarrow> map r_test (sl_tests loop) = [demo_test ''a'', demo_test ''b''])"
  using drive_suite_ends_with_every_test [OF demo_cfg_fair, of demo_suite 3 "sched_new 0"]
  by (auto simp: demo_suite_def demo_test_def demo_env_def)

section \<open>A loop that never ends\<close>

lemma swallowed_round:
  assumes "no_stop E" and "\<forall>w. \<exists>m. fut_value (ss_tainted E w) = Inl (KernelPanicE m)"
    and "cf_max_workers cfg \<le> 1" and "left \<noteq> []"
  shows "fut_value (inner_schedule E cfg left s) = Inr () \<and>
    sc_results (fut_done (inner_schedule E cfg left s)) = []"
proof -
  have one: "fut_value (run_one E tmo test u) = None \<and>
      sc_results (fut_done (run_one E tmo test u)) = sc_results u" for tmo test u
  proof -
    obtain m where "fut_value (ss_tainted E (sc_world (announced E test u))) = Inl (KernelPanicE m)"
      using assms(2) by blast
    then show ?thesis
      using run_one_no_stop [OF assms(1), of tmo test u] by (simp add: exec_test_def conclude_def)
  qed
  have "fut_value (run_tests E tmo ts u) = Inr () \<and>
      sc_results (fut_done (run_tests E tmo ts u)) = sc_results u" for tmo ts u
    by (induction ts arbitrary: u) (simp_all add: one)
  then show ?thesis
    unfolding inner_schedule_def schedule_tests_sequential [OF assms(3,4)] by simp
qed

text \<open>
  Claim C9: when the taint probe keeps reporting a kernel panic, a suite without a suite timeout
  is never finished and never reboots the SUT: whatever the fuel, its loop is still scheduling the
  same tests, without a result and without a \<open>sut_restart\<close> event.
\<close>

theorem pre_taint_panic_loops_forever:
  assumes "no_stop E" and "\<forall>w. \<exists>m. fut_value (ss_tainted E w) = Inl (KernelPanicE m)"
    and "cf_max_workers cfg \<le> 1" and "\<not> timeout_on (cf_suite_timeout cfg)"
    and "\<forall>w. \<not> ss_stop_flag E w" and "s_tests suite \<noteq> []"
  shows "fut_value (drive_suite fuel E cfg suite (s_tests suite) loop_init s) = None"
proof -
  have round: "\<exists>ts. fut_value (suite_round E cfg suite (s_tests suite) loop s)
      = (Inr (), loop\<lparr>sl_exec_times := ts, sl_timed_out := sl_timed_out loop\<rparr>)" for loop s
    using swallowed_round [OF assms(1-3,6), of s] assms(4)
    by (simp add: suite_round_def limited_def settle_value Let_def) metis
  have left: "tests_without_result suite [] = s_tests suite"
    by (simp add: tests_without_result_def)
  have "sl_tests loop = [] \<Longrightarrow> \<not> sl_timed_out loop \<Longrightarrow>
      fut_value (drive_suite fuel E cfg suite (s_tests suite) loop s) = None" for loop
  proof (induction fuel arbitrary: loop s)
    case 0
    then show ?case by simp
  next
    case (Suc n)
    obtain ts where v: "fut_value (suite_round E cfg suite (s_tests suite) loop s)
      = (Inr (), loop\<lparr>sl_exec_times := ts, sl_timed_out := sl_timed_out loop\<rparr>)"
      using round by blast
    with Suc assms(5,6) left show ?case by simp
  qed
  then show ?thesis by (simp add: loop_init_def)
qed

lemma pre_taint_panic_loops_forever_witness:
  "fut_value (drive_suite 1000 (demo_env\<lparr>ss_tainted := pure (Inl (KernelPanicE ''oops''))\<rparr>) demo_cfg
     demo_suite (s_tests demo_suite) loop_init (sched_new 0)) = None"
  using pre_taint_panic_loops_forever
    [of "demo_env\<lparr>ss_tainted := pure (Inl (KernelPanicE ''oops''))\<rparr>" demo_cfg demo_suite 1000 "sched_new 0"]
  by (simp add: no_stop_def demo_env_def demo_cfg_def suite_cfg_new_def clamp_workers_def
      clamp_timeout_def demo_suite_def)

section \<open>Suites are recorded whatever happens\<close>

lemma on_inner_sel [simp]:
  "fut_value (on_inner a s) = fut_value (a (su_inner s))"
  "su_results (fut_done (on_inner a s)) = su_results s"
  "su_inner (fut_done (on_inner a s)) = fut_done (a (su_inner s))"
  by (simp_all add: on_inner_def)

lemma apply_info_suite [simp]:
  "sr_suite (apply_info suite ts info) = suite" "sr_tests (apply_info suite ts info) = ts"
  by (simp_all add: apply_info_def set_info_def suite_result_defs split: option.split)

text \<open>An action that fires no event of a name, whether it completes or is dropped.\<close>

definition unfired :: "string \<Rightarrow> ('a, 'w sched) action \<Rightarrow> bool" where
  "unfired n a \<longleftrightarrow> (\<forall>es. keeps (\<lambda>s. fired n s = es) a)"

lemma unfired_done: "unfired n a \<Longrightarrow> fired n (fut_done (a s)) = fired n s"
  by (auto simp: unfired_def keeps_def spec_def)

lemma unfired_intros [intro!]:
  "unfired n (pure x)" "unfired n (get f)" "unfired n (on_world c)" "unfired n (stop_cnt E)"
  "unfired n (upd (\<lambda>s. s\<lparr>sc_results := h s\<rparr>))" "unfired n (upd (\<lambda>s. s\<lparr>sc_capture := g s\<rparr>))"
  by (auto simp: unfired_def on_world_def intro!: keeps_on_part keeps_upd)

lemma unfired_fire [intro!]: "m \<noteq> n \<Longrightarrow> unfired n (fire_event m p)"
  by (auto simp: unfired_def fire_event_def fired_def intro!: keeps_upd)

lemma unfired_bind [intro!]: "unfired n a \<Longrightarrow> (\<And>x. unfired n (k x)) \<Longrightarrow> unfired n (bind a k)"
  by (auto simp: unfired_def intro: keeps_bind)

lemma unfired_limited [intro!]: "unfired n a \<Longrightarrow> unfired n (limited d a)"
  and unfired_timeout [intro!]: "unfired n a \<Longrightarrow> unfired n (with_timeout k a)"
  by (auto simp: unfired_def intro: keeps_limited keeps_with_timeout)

lemma unfired_streaming [intro!]: "n \<noteq> ''test_stdout'' \<Longrightarrow> unfired n (run_streaming E test c)"
  by (simp add: unfired_def keeps_def spec_def run_streaming_def Let_def)

lemma unfired_kmsg [intro!]: "unfired n (write_kmsg E test parsed)"
  by (auto simp: write_kmsg_def Let_def)

lemma unfired_exec_test: "unfired ''suite_completed'' (exec_test E tmo test)"
  unfolding exec_test_def exec_command_def judge_def diagnose_def post_taint_def Let_def
  by (intro unfired_bind unfired_limited)
    (auto split: sum.splits kirk_error.splits option.splits)

lemma unfired_run_one: "unfired ''suite_completed'' (run_one E tmo test)"
  unfolding run_one_def record_result_def raise_status_def
  by (auto intro!: unfired_exec_test split: sum.split option.split test_status.split)

lemma unfired_run_tests: "unfired ''suite_completed'' (run_tests E tmo tests)"
  by (induction tests) (auto intro!: unfired_run_one split: option.split)

lemma unfired_schedule: "mw \<le> 1 \<Longrightarrow> unfired ''suite_completed'' (schedule_tests E tmo mw par tests)"
  unfolding schedule_tests_def drive_def run_sequential_def
  by (auto intro!: unfired_run_tests split: sum.split)

lemma unfired_stop_tests: "unfired n (stop_tests E)"
  by (auto simp: stop_tests_def do_when_def unfired_def intro!: keeps_bind keeps_upd
      simp: on_world_def keeps_on_part)

lemma unfired_round: "cf_max_workers cfg \<le> 1 \<Longrightarrow> unfired ''suite_completed'' (suite_round E cfg suite left loop)"
  unfolding suite_round_def inner_schedule_def settle_def restart_sut_def Let_def
  by (auto intro!: unfired_stop_tests unfired_schedule split: sum.split option.split)

lemma unfired_drive: "cf_max_workers cfg \<le> 1 \<Longrightarrow> unfired ''suite_completed'' (drive_suite n E cfg suite left loop)"
  by (induction n arbitrary: left loop) (auto intro!: unfired_round simp: Let_def split: sum.split)

text \<open>The entries of suites against the events that announced them.\<close>

definition suite_reports :: "suite_results list \<Rightarrow> event_payload list \<Rightarrow> bool" where
  "suite_reports rs ps \<longleftrightarrow> list_all2 (\<lambda>r p. \<exists>time. p = P_SuiteCompleted r time) rs ps"

definition suite_events :: "'w suite_sched \<Rightarrow> event_payload list" where
  "suite_events s = fired ''suite_completed'' (su_inner s)"

lemma run_suite_reports:
  assumes "cf_max_workers cfg \<le> 1"
  shows "\<exists>new ps. su_results (fut_done (run_suite fuel E cfg suite s)) = su_results s @ new \<and>
    suite_events (fut_done (run_suite fuel E cfg suite s)) = suite_events s @ ps \<and> suite_reports new ps"
  using unfired_done [OF unfired_drive [OF assms]]
  by (auto simp: run_suite_def suite_events_def suite_reports_def Let_def split: sum.split option.split prod.split)

lemma run_suites_reports:
  assumes "cf_max_workers cfg \<le> 1"
  shows "\<exists>new ps. su_results (fut_done (run_suites fuel E cfg suites s)) = su_results s @ new \<and>
    suite_events (fut_done (run_suites fuel E cfg suites s)) = suite_events s @ ps \<and> suite_reports new ps"
proof (induction suites arbitrary: s)
  case Nil
  show ?case by (simp add: suite_reports_def)
next
  case (Cons suite suites)
  let ?one = "run_suite fuel E cfg suite s"
  obtain new ps where one: "su_results (fut_done ?one) = su_results s @ new"
    "suite_events (fut_done ?one) = suite_events s @ ps" "suite_reports new ps"
    using run_suite_reports [OF assms] by blast
  obtain new' ps' where rest: "su_results (fut_done (run_suites fuel E cfg suites (fut_done ?one))) = su_results (fut_done ?one) @ new'"
    "suite_events (fut_done (run_suites fuel E cfg suites (fut_done ?one))) = suite_events (fut_done ?one) @ ps'"
    "suite_reports new' ps'"
    using Cons.IH by blast
  from one rest have both: "suite_reports (new @ new') (ps @ ps')"
    by (simp add: suite_reports_def list_all2_appendI)
  show ?case
  proof (cases "fut_value ?one = Some (Inr ())")
    case True
    then show ?thesis using one rest both by (intro exI [of _ "new @ new'"] exI [of _ "ps @ ps'"]) simp
  next
    case False
    then have "fut_done (run_suites fuel E cfg (suite # suites) s) = fut_done ?one"
      by (auto split: option.splits sum.splits)
    then show ?thesis by (intro exI [of _ new] exI [of _ ps]) (simp only: one)
  qed
qed

lemma run_suite_records:
  "fut_value (run_suite fuel E cfg suite s) = Some x \<Longrightarrow>
   (\<exists>r. su_results (fut_done (run_suite fuel E cfg suite s)) = su_results s @ [r] \<and> sr_suite r = suite) \<or>
   (is_ok x = False \<and> su_results (fut_done (run_suite fuel E cfg suite s)) = su_results s)"
  by (auto simp: run_suite_def Let_def split: sum.splits option.splits prod.splits)

lemma run_suites_records:
  "fut_value (run_suites fuel E cfg suites s) = Some x \<Longrightarrow>
   \<exists>new. su_results (fut_done (run_suites fuel E cfg suites s)) = su_results s @ new \<and>
     prefix (map sr_suite new) suites \<and> (is_ok x \<longrightarrow> map sr_suite new = suites)"
proof (induction suites arbitrary: s)
  case Nil
  then show ?case by simp
next
  case (Cons suite suites)
  let ?one = "run_suite fuel E cfg suite s"
  from Cons.prems obtain y where y: "fut_value ?one = Some y"
    by (cases "fut_value ?one") auto
  note rec = run_suite_records [OF y]
  show ?case
  proof (cases y)
    case (Inl e)
    then show ?thesis using Cons.prems y rec by auto
  next
    case (Inr u)
    with rec obtain r where r: "su_results (fut_done ?one) = su_results s @ [r]" "sr_suite r = suite"
      by auto
    from Cons.prems y Inr have "fut_value (run_suites fuel E cfg suites (fut_done ?one)) = Some x"
      by (cases u) simp
    from Cons.IH [OF this] r y Inr show ?thesis by auto
  qed
qed

text \<open>What a finished suite leaves, for suites the fuel is enough for.\<close>

definition suite_bounded :: "nat \<Rightarrow> suite \<Rightarrow> bool" where
  "suite_bounded n suite \<longleftrightarrow> distinct (map t_name (s_tests suite)) \<and> length (s_tests suite) < n"

definition covers :: "suite_results \<Rightarrow> suite \<Rightarrow> bool" where
  "covers r suite \<longleftrightarrow> sr_suite r = suite \<and> map r_test (sr_tests r) = s_tests suite"

definition runs_unstopped :: "'w sched_env \<Rightarrow> 'w suite_cfg \<Rightarrow> bool" where
  "runs_unstopped E cfg \<longleftrightarrow> runs_fairly E cfg \<and> (\<forall>w. \<not> ss_stop_flag E w)"

lemma run_suite_covers:
  assumes "runs_unstopped E cfg" and "suite_bounded fuel suite"
  shows "\<exists>x. fut_value (run_suite fuel E cfg suite s) = Some x \<and>
    (is_ok x \<longrightarrow> (\<exists>r. su_results (fut_done (run_suite fuel E cfg suite s)) = su_results s @ [r] \<and> covers r suite))"
proof (cases "fut_value (ss_info E (sc_world (fut_done (fire_event ''suite_started'' (P_Suite suite) (su_inner s)))))")
  case (Inl e)
  then show ?thesis by (simp add: run_suite_def)
next
  case (Inr info)
  let ?s = "fut_done (on_inner (on_world (ss_info E)) (fut_done (on_inner (fire_event ''suite_started'' (P_Suite suite)) s)))"
  from assms obtain v where v:
    "fut_value (drive_suite fuel E cfg suite (s_tests suite) loop_init (su_inner ?s)) = Some v"
    "fst v = Inr () \<longrightarrow> map r_test (sl_tests (snd v)) = s_tests suite"
    using drive_suite_accounted [of E cfg suite loop_init "s_tests suite" fuel "su_inner ?s"
        "fired ''test_completed'' (su_inner ?s)"]
    by (auto simp: runs_unstopped_def suite_bounded_def loop_init_def suite_accounted_def)
  obtain x loop where x: "v = (x, loop)" by (cases v)
  with v Inr show ?thesis
    by (auto simp: run_suite_def Let_def covers_def is_ok_iff)
qed

lemma run_suites_covers:
  assumes "runs_unstopped E cfg"
  shows "list_all (suite_bounded fuel) suites \<Longrightarrow>
    \<exists>x. fut_value (run_suites fuel E cfg suites s) = Some x \<and>
    (is_ok x \<longrightarrow> (\<exists>new. su_results (fut_done (run_suites fuel E cfg suites s)) = su_results s @ new \<and>
      list_all2 covers new suites))"
proof (induction suites arbitrary: s)
  case Nil
  then show ?case by simp
next
  case (Cons suite suites)
  let ?one = "run_suite fuel E cfg suite s"
  from run_suite_covers [OF assms, of fuel suite s] Cons.prems
  obtain x where x: "fut_value ?one = Some x" and rec: "is_ok x \<longrightarrow>
      (\<exists>r. su_results (fut_done ?one) = su_results s @ [r] \<and> covers r suite)" by auto
  show ?case
  proof (cases x)
    case (Inl e)
    with x show ?thesis by simp
  next
    case (Inr u)
    with rec obtain r where r: "su_results (fut_done ?one) = su_results s @ [r]" "covers r suite" by auto
    from Cons.IH [of "fut_done ?one"] Cons.prems obtain y where
      y: "fut_value (run_suites fuel E cfg suites (fut_done ?one)) = Some y"
      and new: "is_ok y \<longrightarrow> (\<exists>new. su_results (fut_done (run_suites fuel E cfg suites (fut_done ?one))) =
        su_results (fut_done ?one) @ new \<and> list_all2 covers new suites)" by auto
    have "\<exists>new. su_results (fut_done (run_suites fuel E cfg suites (fut_done ?one))) = su_results s @ new \<and>
        list_all2 covers new (suite # suites)" if "is_ok y"
    proof -
      from new that obtain new where "su_results (fut_done (run_suites fuel E cfg suites (fut_done ?one))) =
        su_results (fut_done ?one) @ new" "list_all2 covers new suites" by blast
      with r show ?thesis by (intro exI [of _ "r # new"]) simp
    qed
    with x y Inr show ?thesis by simp
  qed
qed

lemma schedule_suites_covers:
  assumes "runs_unstopped E cfg" and "list_all (suite_bounded fuel) suites"
  shows "\<exists>x. fut_value (schedule_suites fuel E cfg suites s) = Some x \<and>
    (is_ok x \<longrightarrow> list_all2 covers (su_results (fut_done (schedule_suites fuel E cfg suites s))) suites)"
  using run_suites_covers [OF assms, of "s\<lparr>su_results := []\<rparr>"]
  by (auto simp: schedule_suites_def)

text \<open>
  Scheduling suites records one entry per suite that was started with its information
  available, in the order given; success means every suite has its entry, and a failure leaves the
  entries of the suites up to the one that failed.
\<close>

theorem schedule_suites_records_in_order:
  assumes "fut_value (schedule_suites fuel E cfg suites s) = Some x"
  shows "suites \<noteq> [] \<longrightarrow>
    prefix (map sr_suite (su_results (fut_done (schedule_suites fuel E cfg suites s)))) suites \<and>
    (is_ok x \<longrightarrow> map sr_suite (su_results (fut_done (schedule_suites fuel E cfg suites s))) = suites)"
  using assms run_suites_records [of fuel E cfg suites "s\<lparr>su_results := []\<rparr>" x]
  by (auto simp: schedule_suites_def)

lemma schedule_suites_records_in_order_witness:
  "map sr_suite (su_results (fut_done (schedule_suites 1 demo_env demo_cfg
     [suite_new ''x'' [], suite_new ''y'' []] (suite_sched_new 0)))) = [suite_new ''x'' [], suite_new ''y'' []]"
proof -
  have "fut_value (schedule_suites 1 demo_env demo_cfg
     [suite_new ''x'' [], suite_new ''y'' []] (suite_sched_new 0)) = Some (Inr ())"
    by (simp add: schedule_suites_def run_suite_def demo_env_def Let_def)
  from schedule_suites_records_in_order [OF this] show ?thesis by simp
qed

end
