(* ===== verification/Ltp_Parse.thy ===== *)
theory Ltp_Parse
  imports Sut
begin

text \<open>
  Crate \<open>kirk-ltp\<close>, \<open>parse.rs\<close>: the helpers that read runtest lines and test output. The two
  static patterns without captures (words of a runtest line, ANSI escapes) are deterministic and
  are written out as the functions they match; the summary pattern, which uses classes of
  Unicode digits, goes through the regular expression parameter.
\<close>

definition MAX_STDOUT_BYTES :: nat where
  "MAX_STDOUT_BYTES = 8 * 1024 * 1024"

definition MAX_METADATA_BYTES :: nat where
  "MAX_METADATA_BYTES = 8 * 1024 * 1024"

record counts =
  ct_passed :: u32
  ct_failed :: u32
  ct_broken :: u32
  ct_skipped :: u32
  ct_warnings :: u32

definition counts_default :: counts where
  "counts_default = \<lparr> ct_passed = 0, ct_failed = 0, ct_broken = 0, ct_skipped = 0, ct_warnings = 0 \<rparr>"

section \<open>Words of a line\<close>

abbreviation dquote_char :: char where "dquote_char \<equiv> CHR 0x22"
abbreviation squote_char :: char where "squote_char \<equiv> CHR 0x27"

text \<open>The run of non-whitespace characters a string starts with.\<close>

fun word_run :: "string \<Rightarrow> string" where
  "word_run [] = []"
| "word_run (c # s) = (if ws_prefix (c # s) = 0 then c # word_run s else [])"

text \<open>A quoted group at the start of a string, when the closing quote is there.\<close>

definition quoted_group :: "char \<Rightarrow> string \<Rightarrow> string option" where
  "quoted_group q s =
     (case s of
        [] \<Rightarrow> None
      | c # r \<Rightarrow> if c = q \<and> q \<in> set r then Some (q # takeWhile (\<lambda>d. d \<noteq> q) r @ [q]) else None)"

text \<open>The match of \<open>(?:"[^"]*"|'[^']*'|\S+)\<close> at the start of a string.\<close>

definition match_word :: "string \<Rightarrow> string" where
  "match_word s =
     (case quoted_group dquote_char s of
        Some w \<Rightarrow> w
      | None \<Rightarrow>
          (case quoted_group squote_char s of
             Some w \<Rightarrow> w
           | None \<Rightarrow> word_run s))"

function split_cmd_args :: "string \<Rightarrow> string list" where
  "split_cmd_args s =
     (if s = [] then []
      else if match_word s = [] then split_cmd_args (tl s)
      else match_word s # split_cmd_args (drop (length (match_word s)) s))"
  by pat_completeness auto
termination
  by (relation "measure length") auto

declare split_cmd_args.simps [simp del]

section \<open>ANSI escapes\<close>

definition is_ansi_param :: "char \<Rightarrow> bool" where
  "is_ansi_param c \<longleftrightarrow> is_digit c \<or> c = CHR '';''"

definition is_letter :: "char \<Rightarrow> bool" where
  "is_letter c \<longleftrightarrow> (65 \<le> code c \<and> code c \<le> 90) \<or> (97 \<le> code c \<and> code c \<le> 122)"

text \<open>Length of the escape \<open>ESC [ parameters letter\<close> a string starts with, if it does.\<close>

definition match_ansi :: "string \<Rightarrow> nat option" where
  "match_ansi s =
     (case s of
        a # b # r \<Rightarrow>
          if a = CHR 0x1B \<and> b = CHR ''['' then
            (let ps = takeWhile is_ansi_param r; rest = drop (length ps) r
             in if ps \<noteq> [] \<and> rest \<noteq> [] \<and> is_letter (hd rest) then Some (length ps + 3) else None)
          else None
      | _ \<Rightarrow> None)"

function strip_ansi :: "string \<Rightarrow> string" where
  "strip_ansi s =
     (case match_ansi s of
        Some n \<Rightarrow> strip_ansi (drop n s)
      | None \<Rightarrow> (case s of [] \<Rightarrow> [] | c # r \<Rightarrow> c # strip_ansi r))"
  by pat_completeness auto
termination
proof (relation "measure length", simp)
  fix s n
  assume "match_ansi s = Some n"
  then have "0 < n" "s \<noteq> []" by (auto simp: match_ansi_def Let_def split: list.splits if_splits)
  then show "(drop n s, s) \<in> measure length" by simp
qed simp

declare strip_ansi.simps [simp del]

section \<open>Counters and status\<close>

definition SUMMARY_PATTERN :: string where
  "SUMMARY_PATTERN =
     (let field = (\<lambda>name. name @ [CHR 0x5C] @ ''s*(?P<'' @ name @ ''>'' @ [CHR 0x5C] @ ''d+)'' @ [CHR 0x0A])
      in ''Summary:'' @ [CHR 0x0A] @ field ''passed'' @ field ''failed'' @ field ''broken''
         @ field ''skipped'' @ field ''warnings'')"

definition summary_count :: "str_map \<Rightarrow> string \<Rightarrow> u32 option" where
  "summary_count groups name = Option.bind (groups name) (\<lambda>t. map_option of_nat (parse_u32 t))"

definition parse_summary :: "regex_captures \<Rightarrow> string \<Rightarrow> counts option" where
  "parse_summary captures stdout =
     (case captures SUMMARY_PATTERN stdout of
        Inr (Some groups) \<Rightarrow>
          Option.bind (summary_count groups ''passed'') (\<lambda>passed.
          Option.bind (summary_count groups ''failed'') (\<lambda>failed.
          Option.bind (summary_count groups ''broken'') (\<lambda>broken.
          Option.bind (summary_count groups ''skipped'') (\<lambda>skipped.
          Option.bind (summary_count groups ''warnings'') (\<lambda>warnings.
            Some \<lparr> ct_passed = passed, ct_failed = failed, ct_broken = broken,
                   ct_skipped = skipped, ct_warnings = warnings \<rparr>)))))
      | _ \<Rightarrow> None)"

text \<open>\<open>u32::try_from(..).unwrap_or(u32::MAX)\<close>.\<close>

definition saturate_u32 :: "nat \<Rightarrow> u32" where
  "saturate_u32 n = (if n < 2 ^ 32 then of_nat n else - 1)"

definition count_markers :: "string \<Rightarrow> counts" where
  "count_markers stdout =
     \<lparr> ct_passed = saturate_u32 (count_matches ''TPASS'' stdout),
       ct_failed = saturate_u32 (count_matches ''TFAIL'' stdout),
       ct_broken = saturate_u32 (count_matches ''TBROK'' stdout),
       ct_skipped = saturate_u32 (count_matches ''TSKIP'' stdout),
       ct_warnings = saturate_u32 (count_matches ''TWARN'' stdout) \<rparr>"

definition retcode_status :: "int \<Rightarrow> int" where
  "retcode_status retcode =
     (if retcode = 0 then status_PASS
      else if retcode = 2 \<or> retcode = - 1 then status_BROK
      else if retcode = 4 then status_WARN
      else if retcode = 32 then status_CONF
      else status_FAIL)"

text \<open>\<open>debug\<close> is the rendering \<open>{:?}\<close> of a string.\<close>

definition validate_suite_name :: "(string \<Rightarrow> string) \<Rightarrow> string \<Rightarrow> unit result" where
  "validate_suite_name debug name =
     (if contains_char name (CHR ''/'') \<or> contains_char name (CHR 0x5C) \<or> contains_char name (CHR 0x00)
         \<or> contains name ''..''
      then Err (FrameworkE (''invalid suite name: '' @ debug name))
      else Ok ())"

definition truncate_stdout :: "string \<Rightarrow> string" where
  "truncate_stdout stdout =
     (if length stdout \<le> MAX_STDOUT_BYTES then stdout
      else take (floor_char_boundary stdout MAX_STDOUT_BYTES) stdout)"

section \<open>Splitting and joining again\<close>

lemma word_run_prefix: "prefix (word_run s) s"
  by (induction s) auto

lemma quoted_group_prefix: "quoted_group q s = Some w \<Longrightarrow> prefix w s \<and> w \<noteq> []"
proof -
  assume "quoted_group q s = Some w"
  then obtain r where s: "s = q # r" "q \<in> set r" and w: "w = q # takeWhile (\<lambda>d. d \<noteq> q) r @ [q]"
    by (auto simp: quoted_group_def split: list.splits if_splits)
  have "r = takeWhile (\<lambda>d. d \<noteq> q) r @ dropWhile (\<lambda>d. d \<noteq> q) r" by simp
  moreover have "dropWhile (\<lambda>d. d \<noteq> q) r = q # tl (dropWhile (\<lambda>d. d \<noteq> q) r)"
    using s(2) by (metis (mono_tags, lifting) dropWhile_eq_Nil_conv hd_dropWhile list.collapse)
  ultimately have "r = (takeWhile (\<lambda>d. d \<noteq> q) r @ [q]) @ tl (dropWhile (\<lambda>d. d \<noteq> q) r)" by simp
  then have "prefix (takeWhile (\<lambda>d. d \<noteq> q) r @ [q]) r" unfolding prefix_def by blast
  with s w show ?thesis by simp
qed

lemma match_word_prefix: "prefix (match_word s) s"
  using word_run_prefix [of s] quoted_group_prefix
  by (auto simp: match_word_def split: option.splits)

lemma split_cmd_args_Nil [simp]: "split_cmd_args [] = []"
  by (simp add: split_cmd_args.simps)

lemma split_cmd_args_word:
  "match_word s = w \<Longrightarrow> w \<noteq> [] \<Longrightarrow> s = w @ t \<Longrightarrow> split_cmd_args s = w # split_cmd_args t"
  by (subst split_cmd_args.simps) auto

lemma split_cmd_args_skip:
  "match_word (c # s) = [] \<Longrightarrow> split_cmd_args (c # s) = split_cmd_args s"
  by (subst split_cmd_args.simps) simp

lemma match_word_space [simp]: "match_word (CHR '' '' # s) = []"
  by (simp add: match_word_def quoted_group_def ws1_def)

text \<open>A space after a word does not turn its last bytes into whitespace.\<close>

lemma ws_prefix_0:
  "ws_prefix (a # s) = 0 \<longleftrightarrow> \<not> ws1 (code a) \<and>
     (case s of [] \<Rightarrow> True
      | b # t \<Rightarrow> \<not> ws2 (code a) (code b) \<and>
          (case t of [] \<Rightarrow> True | c # _ \<Rightarrow> \<not> ws3 (code a) (code b) (code c)))"
  by (simp split: list.split)

lemma no_space_inside: "\<not> ws2 a 32" "\<not> ws3 a 32 c" "\<not> ws3 a b 32"
  by (simp_all add: ws2_def ws3_def)

lemma ws_prefix_cut:
  assumes "u \<noteq> []" and "ws_prefix (u @ t) = 0"
  shows "ws_prefix (u @ CHR '' '' # x) = 0 \<and> ws_prefix u = 0"
proof -
  from assms(1) consider a where "u = [a]" | a b where "u = [a, b]" | a b c v where "u = a # b # c # v"
    by (cases u; cases "tl u"; cases "tl (tl u)") auto
  then show ?thesis
  proof cases
    case 1
    with assms(2) show ?thesis
      by (simp add: ws_prefix_0 no_space_inside del: ws_prefix.simps split: list.splits)
  next
    case 2
    with assms(2) show ?thesis
      by (simp add: ws_prefix_0 no_space_inside del: ws_prefix.simps)
  next
    case 3
    with assms(2) show ?thesis by (simp add: ws_prefix_0 del: ws_prefix.simps)
  qed
qed

lemma word_run_cut:
  "word_run (w @ t) = w \<Longrightarrow> word_run (w @ CHR '' '' # x) = w \<and> word_run w = w"
proof (induction w)
  case Nil
  then show ?case by (simp add: ws1_def)
next
  case (Cons c w)
  from Cons.prems have "ws_prefix (c # w @ t) = 0" and "word_run (w @ t) = w"
    by (simp_all split: if_splits)
  with Cons.IH ws_prefix_cut [of "c # w" t x] show ?case by (simp del: ws_prefix.simps)
qed

lemma quoted_group_cut:
  "quoted_group q (w @ t) = Some w \<Longrightarrow> quoted_group q (w @ x) = Some w"
proof -
  assume "quoted_group q (w @ t) = Some w"
  then obtain r where s: "w @ t = q # r" "q \<in> set r" and w: "w = q # takeWhile (\<lambda>d. d \<noteq> q) r @ [q]"
    by (auto simp: quoted_group_def split: list.splits if_splits)
  define body where "body = takeWhile (\<lambda>d. d \<noteq> q) r"
  have "\<forall>d \<in> set body. d \<noteq> q" by (auto simp: body_def dest: set_takeWhileD)
  then have "takeWhile (\<lambda>d. d \<noteq> q) (body @ q # x) = body" by (simp add: takeWhile_append2)
  with w show ?thesis by (simp add: quoted_group_def body_def [symmetric])
qed

lemma quoted_group_None: "q \<notin> set (tl s) \<Longrightarrow> quoted_group q s = None"
  by (cases s) (auto simp: quoted_group_def)

lemma quoted_group_None_cut:
  assumes "quoted_group q (w @ t) = None" and "w \<noteq> []" and "q \<notin> set t \<longrightarrow> q \<notin> set x"
  shows "quoted_group q (w @ x) = None"
  using assms by (cases w) (auto simp: quoted_group_def split: if_splits)

text \<open>A word is matched again in front of a space, provided what follows brings no new quote.\<close>

lemma match_word_cut:
  assumes "match_word (w @ t) = w" and "w \<noteq> []" and "set x \<subseteq> set t \<union> {CHR '' ''}"
    and "x = [] \<or> (\<exists>y. x = CHR '' '' # y)"
  shows "match_word (w @ x) = w"
proof -
  have new: "q \<notin> set t \<longrightarrow> q \<notin> set x" if "q = dquote_char \<or> q = squote_char" for q
    using assms(3) that by auto
  have run: "word_run (w @ x) = w" if "word_run (w @ t) = w"
    using word_run_cut [OF that] assms(4) by auto
  consider "quoted_group dquote_char (w @ t) = Some w"
    | "quoted_group dquote_char (w @ t) = None" "quoted_group squote_char (w @ t) = Some w"
    | "quoted_group dquote_char (w @ t) = None" "quoted_group squote_char (w @ t) = None"
      "word_run (w @ t) = w"
    using assms(1) by (auto simp: match_word_def split: option.splits)
  then show ?thesis
  proof cases
    case 1
    then show ?thesis using quoted_group_cut [of dquote_char w t x] by (simp add: match_word_def)
  next
    case 2
    then show ?thesis
      using quoted_group_cut [of squote_char w t x] new
        quoted_group_None_cut [OF 2(1) assms(2), of x] by (simp add: match_word_def)
  next
    case 3
    then show ?thesis
      using run new quoted_group_None_cut [OF 3(1) assms(2), of x]
        quoted_group_None_cut [OF 3(2) assms(2), of x] by (simp add: match_word_def)
  qed
qed

lemma set_join_space: "set (join '' '' ws) \<subseteq> (\<Union>w \<in> set ws. set w) \<union> {CHR '' ''}"
proof (induction ws)
  case Nil
  then show ?case by simp
next
  case (Cons w ws)
  then show ?case by (cases "ws = []") (auto simp: join_Cons)
qed

lemma split_cmd_args_chars: "w \<in> set (split_cmd_args s) \<Longrightarrow> w \<noteq> [] \<and> set w \<subseteq> set s"
proof (induction "length s" arbitrary: s w rule: less_induct)
  case less
  show ?case
  proof (cases s)
    case Nil
    with less.prems show ?thesis by simp
  next
    case (Cons c r)
    show ?thesis
    proof (cases "match_word s = []")
      case True
      then have "w \<in> set (split_cmd_args r)" using less.prems Cons split_cmd_args_skip by simp
      with less.hyps [of r w] Cons show ?thesis by auto
    next
      case False
      obtain t where t: "s = match_word s @ t" using match_word_prefix [of s] by (auto simp: prefix_def)
      have "length t < length s" using arg_cong [OF t, of length] False by simp
      moreover have "w = match_word s \<or> w \<in> set (split_cmd_args t)"
        using less.prems split_cmd_args_word [of s, OF refl False t] by auto
      moreover have "set (match_word s) \<subseteq> set s" "set t \<subseteq> set s"
        by (subst (2) t, simp, subst t, simp)
      ultimately show ?thesis using False less.hyps [of t w] by auto
    qed
  qed
qed

lemma split_join: "split_cmd_args (join '' '' (split_cmd_args s)) = split_cmd_args s"
proof (induction "length s" arbitrary: s rule: less_induct)
  case less
  show ?case
  proof (cases "s = [] \<or> match_word s = []")
    case True
    then show ?thesis
    proof (cases s)
      case (Cons c r)
      with True have "split_cmd_args s = split_cmd_args r" using split_cmd_args_skip by simp
      with less [of r] Cons show ?thesis by simp
    qed simp
  next
    case False
    define w where "w = match_word s"
    obtain t where t: "s = w @ t" using match_word_prefix [of s] by (auto simp: w_def prefix_def)
    have ne: "w \<noteq> []" using False by (simp add: w_def)
    have match: "match_word (w @ t) = w" unfolding t [symmetric] by (simp add: w_def)
    note w = ne match
    have split: "split_cmd_args s = w # split_cmd_args t"
      by (rule split_cmd_args_word [OF w_def [symmetric] ne t])
    have IH: "split_cmd_args (join '' '' (split_cmd_args t)) = split_cmd_args t"
      using less [of t] w(1) t by simp
    show ?thesis
    proof (cases "split_cmd_args t = []")
      case True
      have "match_word w = w" using match_word_cut [OF w(2,1), of "[]"] by simp
      then show ?thesis using True split split_cmd_args_word [of w w "[]"] w(1) by simp
    next
      case more: False
      let ?x = "CHR '' '' # join '' '' (split_cmd_args t)"
      have "set ?x \<subseteq> set t \<union> {CHR '' ''}"
        using set_join_space [of "split_cmd_args t"] split_cmd_args_chars [of _ t] by fastforce
      then have "match_word (w @ ?x) = w" by (rule match_word_cut [OF w(2,1)]) simp
      then have "split_cmd_args (w @ ?x) = w # split_cmd_args ?x"
        using split_cmd_args_word [of "w @ ?x" w ?x] w(1) by simp
      then show ?thesis using IH split more by (simp add: join_Cons split_cmd_args_skip)
    qed
  qed
qed

text \<open>
  Joining the words of a runtest line or of a command with single spaces and splitting
  again gives the same words: quoted groups stay whole and no word is empty.
\<close>

theorem split_join_split:
  "split_cmd_args (join '' '' (split_cmd_args s)) = split_cmd_args s \<and> [] \<notin> set (split_cmd_args s)"
  using split_join split_cmd_args_chars [of "[]" s] by auto

section \<open>Plain words\<close>

text \<open>Words of printing ASCII characters without quotes.\<close>

definition plain_char :: "char \<Rightarrow> bool" where
  "plain_char c \<longleftrightarrow> 33 \<le> code c \<and> code c < 127 \<and> c \<noteq> dquote_char \<and> c \<noteq> squote_char"

definition plain_word :: "string \<Rightarrow> bool" where
  "plain_word w \<longleftrightarrow> w \<noteq> [] \<and> list_all plain_char w"

lemma plain_not_ws: "plain_char c \<Longrightarrow> ws_prefix (c # s) = 0"
  by (auto simp: plain_char_def ws_prefix_0 ws1_def ws2_def ws3_def simp del: ws_prefix.simps
      split: list.splits)

lemma plain_not_ws_end: "plain_char c \<Longrightarrow> ws_suffix (s @ [c]) = 0"
  by (auto simp: plain_char_def ws_suffix_def ws1_def ws2_def ws3_def split: list.splits)

lemma plain_trim: "plain_char (hd s) \<Longrightarrow> plain_char (last s) \<Longrightarrow> s \<noteq> [] \<Longrightarrow> trim s = s"
proof -
  assume a: "plain_char (hd s)" "plain_char (last s)" "s \<noteq> []"
  have "trim_start s = s" using a plain_not_ws [of "hd s" "tl s"] by (simp add: trim_start_id)
  moreover have "trim_end s = s"
    using a plain_not_ws_end [of "last s" "butlast s"] by (simp add: trim_end_id)
  ultimately show ?thesis by (simp add: trim_def)
qed

lemma word_run_plain:
  "list_all plain_char w \<Longrightarrow> x = [] \<or> (\<exists>y. x = CHR '' '' # y) \<Longrightarrow> word_run (w @ x) = w"
proof (induction w)
  case Nil
  then show ?case by (auto simp: ws1_def)
next
  case (Cons c w)
  then show ?case using plain_not_ws [of c "w @ x"] by (simp del: ws_prefix.simps)
qed

lemma match_word_plain:
  assumes "plain_word w" and "x = [] \<or> (\<exists>y. x = CHR '' '' # y)"
  shows "match_word (w @ x) = w"
proof -
  from assms(1) obtain c r where w: "w = c # r" "plain_char c" by (cases w) (auto simp: plain_word_def)
  then have "quoted_group dquote_char (w @ x) = None" "quoted_group squote_char (w @ x) = None"
    by (auto simp: quoted_group_def plain_char_def)
  with word_run_plain [of w x] assms show ?thesis by (simp add: match_word_def plain_word_def)
qed

lemma split_plain_words: "list_all plain_word ws \<Longrightarrow> split_cmd_args (join '' '' ws) = ws"
proof (induction ws)
  case Nil
  then show ?case by simp
next
  case (Cons w ws)
  then have w: "plain_word w" "w \<noteq> []" by (auto simp: plain_word_def)
  show ?case
  proof (cases "ws = []")
    case True
    then show ?thesis
      using split_cmd_args_word [of w w "[]"] match_word_plain [OF w(1), of "[]"] w(2) by simp
  next
    case False
    let ?x = "CHR '' '' # join '' '' ws"
    have "split_cmd_args (w @ ?x) = w # split_cmd_args ?x"
      using split_cmd_args_word [of "w @ ?x" w ?x] match_word_plain [OF w(1), of ?x] w(2) by simp
    then show ?thesis using Cons False by (simp add: join_Cons split_cmd_args_skip)
  qed
qed

lemma join_plain_ends:
  assumes "list_all plain_word ws" and "ws \<noteq> []"
  shows "join '' '' ws \<noteq> [] \<and> plain_char (hd (join '' '' ws)) \<and> plain_char (last (join '' '' ws)) \<and>
    hd (join '' '' ws) = hd (hd ws) \<and> CHR 0x0A \<notin> set (join '' '' ws)"
  using assms
proof (induction ws)
  case Nil
  then show ?case by simp
next
  case (Cons w ws)
  then have w: "w \<noteq> []" "list_all plain_char w" by (auto simp: plain_word_def)
  have all: "\<forall>c \<in> set w. plain_char c" using w(2) by (simp add: list_all_iff)
  then have ends: "plain_char (hd w)" "plain_char (last w)" using w(1) by simp_all
  have "\<not> plain_char (CHR 0x0A)" by (simp add: plain_char_def)
  then have nl: "CHR 0x0A \<notin> set w" using all by blast
  show ?case
  proof (cases "ws = []")
    case True
    with w ends nl show ?thesis by simp
  next
    case False
    with Cons have IH: "join '' '' ws \<noteq> []" "plain_char (last (join '' '' ws))"
      "CHR 0x0A \<notin> set (join '' '' ws)"
      by simp_all
    have "join '' '' (w # ws) = w @ CHR '' '' # join '' '' ws" using False by (simp add: join_Cons)
    then show ?thesis using IH w(1) ends nl by simp
  qed
qed

end
