(* ===== verification/Framework.thy ===== *)
theory Framework
  imports Com
begin

text \<open>
  The trait \<open>Framework\<close> of \<open>kirk-ltp\<close> (\<open>framework.rs\<close>): what a test framework offers over a channel, as a
  record of operations, and what a session relies on, as a locale. It is interpreted on the LTP
  framework in \<open>Ltp\<close>.
\<close>

record 'c framework_ops =
  fo_get_suites :: "'c \<Rightarrow> string list result \<times> 'c"
  fo_find_command :: "string \<Rightarrow> 'c \<Rightarrow> test result \<times> 'c"
  fo_find_suite :: "string \<Rightarrow> 'c \<Rightarrow> suite result \<times> 'c"
  fo_read_result :: "test \<Rightarrow> string \<Rightarrow> int \<Rightarrow> f64 \<Rightarrow> test_results result"

text \<open>What is true of a channel however commands are run on it and files fetched from it.\<close>

definition channel_keeps :: "'c com_channel \<Rightarrow> ('c \<Rightarrow> bool) \<Rightarrow> bool" where
  "channel_keeps C I \<longleftrightarrow>
     (\<forall>ch. I ch \<longrightarrow> (\<forall>cmd cwd env. I (fut_done (cc_run_command C cmd cwd env ch))) \<and>
        (\<forall>path. I (snd (cc_fetch_file C path ch))))"

lemma channel_keepsD:
  assumes "channel_keeps C I" and "I ch"
  shows "I (fut_done (cc_run_command C cmd cwd env ch))" and "I (snd (cc_fetch_file C path ch))"
  using assms by (auto simp: channel_keeps_def)

text \<open>The lookups of a session.\<close>

datatype lookup = All_Suites | The_Command string | The_Suite string

fun look :: "'c framework_ops \<Rightarrow> lookup \<Rightarrow> 'c \<Rightarrow> 'c" where
  "look F All_Suites ch = snd (fo_get_suites F ch)"
| "look F (The_Command command) ch = snd (fo_find_command F command ch)"
| "look F (The_Suite name) ch = snd (fo_find_suite F name ch)"

text \<open>
  Empty names and commands are refused before the channel is used, the channel is used by its
  operations only, and a result is that of the test and the return code it was read for.
\<close>

locale framework_contract =
  fixes C :: "'c com_channel" and F :: "'c framework_ops"
  assumes empty_command: "\<exists>m. fo_find_command F [] ch = (Err (FrameworkE m), ch)"
    and empty_name: "\<exists>m. fo_find_suite F [] ch = (Err (FrameworkE m), ch)"
    and get_suites_uses: "channel_keeps C I \<Longrightarrow> I ch \<Longrightarrow> I (snd (fo_get_suites F ch))"
    and find_command_uses: "channel_keeps C I \<Longrightarrow> I ch \<Longrightarrow> I (snd (fo_find_command F command ch))"
    and find_suite_uses: "channel_keeps C I \<Longrightarrow> I ch \<Longrightarrow> I (snd (fo_find_suite F name ch))"
    and result_of_test: "fo_read_result F t out rc x = Inr r \<Longrightarrow> r_test r = t \<and> r_retcode r = rc"
begin

lemma look_keeps: "channel_keeps C I \<Longrightarrow> I ch \<Longrightarrow> I (look F l ch)"
  by (cases l) (simp_all add: get_suites_uses find_command_uses find_suite_uses)

lemma lookups_keep: "channel_keeps C I \<Longrightarrow> I ch \<Longrightarrow> I (fold (look F) ls ch)"
  by (induction ls arbitrary: ch) (simp_all add: look_keeps)

lemma empty_lookups_do_nothing: "look F (The_Command []) ch = ch" "look F (The_Suite []) ch = ch"
  using empty_command [of ch] empty_name [of ch] by auto

end

end
