(* ===== verification/Ltp.thy ===== *)
theory Ltp
  imports Ltp_Parse Core_Dict Test_Sched Framework
begin

text \<open>
  Crate \<open>kirk-ltp\<close>, \<open>ltp.rs\<close>: the Linux Test Project framework. Its operations run commands and
  fetch files over a channel, in the order of the code, and stop at the first error. The
  environment of the process and the libraries the code calls are parameters: the variables,
  \<open>str::parse::<f64>\<close>, \<open>from_utf8_lossy\<close>, the JSON parser and the rendering of a float.
\<close>

definition DEFAULT_ROOT :: string where
  "DEFAULT_ROOT = ''/opt/ltp''"

definition PARALLEL_BLACKLIST :: "string list" where
  "PARALLEL_BLACKLIST =
     [''needs_root'', ''needs_device'', ''mount_device'', ''mntpoint'', ''resource_file'',
      ''format_device'', ''save_restore'', ''max_runtime'']"

definition SUPPORTED_ENV :: "string list" where
  "SUPPORTED_ENV =
     [''PATH'', ''KCONFIG_PATH'', ''KCONFIG_SKIP_CHECK'', ''RHOST'', ''IPV4_LHOST'', ''IPV4_RHOST'',
      ''IPV6_LHOST'', ''IPV6_RHOST'', ''LHOST_IFACES'', ''RHOST_IFACES'', ''NS_DURATION'',
      ''NS_TIMES'', ''CONNECTION_TOTAL'', ''IP_TOTAL'', ''IP_TOTAL_FOR_TCPIP'', ''ROUTE_TOTAL'',
      ''ROUTE_CHANGE_IP'', ''ROUTE_CHANGE_NETLINK'', ''MTU_CHANGE_TIMES'', ''IF_UPDOWN_TIMES'',
      ''PING_MAX'', ''NS_ICMPV4_SENDER_DATA_MAXSIZE'', ''NS_ICMPV6_SENDER_DATA_MAXSIZE'',
      ''MCASTNUM_NORMAL'', ''MCASTNUM_HEAVY'', ''DOWNLOAD_BIGFILESIZE'', ''DOWNLOAD_REGFILESIZE'',
      ''UPLOAD_BIGFILESIZE'', ''UPLOAD_REGFILESIZE'', ''HTTP_DOWNLOAD_DIR'', ''FTP_DOWNLOAD_DIR'',
      ''FTP_UPLOAD_DIR'', ''FTP_UPLOAD_URLDIR'', ''IPSEC_MODE'', ''IPSEC_PROTO'',
      ''VIRT_PERF_THRESHOLD'']"

definition PRESET_ENV :: "string list" where
  "PRESET_ENV = [''LTPROOT'', ''TMPDIR'', ''LTP_COLORIZE_OUTPUT'', ''LTP_TIMEOUT_MUL'']"

record ltp_ext =
  lx_vars :: "(string \<times> string) list"
  lx_captures :: regex_captures
  lx_parse_f64 :: "string \<Rightarrow> f64 option"
  lx_lossy :: "string \<Rightarrow> string"
  lx_json :: "string \<Rightarrow> string + json"
  lx_timeout_mul :: "f64 \<Rightarrow> string" \<comment> \<open>\<open>format!("{}", (timeout * 0.9) / 300.0)\<close>\<close>
  lx_debug :: "string \<Rightarrow> string"
  lx_rounding :: rounding

record ltp_framework =
  lf_max_runtime :: f64
  lf_root :: string
  lf_tc_folder :: string
  lf_env :: str_map

section \<open>Construction\<close>

definition env_var :: "ltp_ext \<Rightarrow> string \<Rightarrow> string option" where
  "env_var X name = map_of (lx_vars X) name"

definition var_or :: "ltp_ext \<Rightarrow> string \<Rightarrow> string \<Rightarrow> string" where
  "var_or X name d = (case env_var X name of Some v \<Rightarrow> v | None \<Rightarrow> d)"

definition forwarded :: "string \<Rightarrow> bool" where
  "forwarded key \<longleftrightarrow> key \<notin> set PRESET_ENV \<and>
     (key \<in> set SUPPORTED_ENV \<or> starts_with ''LTP_'' key \<or> starts_with ''TST_'' key)"

definition update_env_vars :: "ltp_ext \<Rightarrow> f64 \<Rightarrow> ltp_framework \<Rightarrow> ltp_framework" where
  "update_env_vars X timeout f =
     (let env1 = (lf_env f)(''LTPROOT'' \<mapsto> lf_root f);
          env2 = env1(''TMPDIR'' \<mapsto> var_or X ''TMPDIR'' ''/tmp'');
          env3 = env2(''LTP_COLORIZE_OUTPUT'' \<mapsto> var_or X ''LTP_COLORIZE_OUTPUT'' ''1'');
          env4 = (case env_var X ''LTP_TIMEOUT_MUL'' of
                    Some multiplier \<Rightarrow> env3(''LTP_TIMEOUT_MUL'' \<mapsto> multiplier)
                  | None \<Rightarrow>
                      if \<not> f64_eq timeout f64_zero
                      then env3(''LTP_TIMEOUT_MUL'' \<mapsto> lx_timeout_mul X timeout) else env3)
      in f\<lparr>lf_env := fold (\<lambda>(key, value) env. if forwarded key then env(key \<mapsto> value) else env)
             (lx_vars X) env4\<rparr>)"

definition ltp_with_root :: "ltp_ext \<Rightarrow> string \<Rightarrow> f64 \<Rightarrow> f64 \<Rightarrow> ltp_framework" where
  "ltp_with_root X dir max_runtime timeout =
     update_env_vars X timeout
       \<lparr> lf_max_runtime = max_runtime, lf_root = dir, lf_tc_folder = dir @ ''/testcases/bin'',
         lf_env = Map.empty \<rparr>"

definition ltp_new :: "ltp_ext \<Rightarrow> f64 \<Rightarrow> f64 \<Rightarrow> ltp_framework" where
  "ltp_new X max_runtime timeout = ltp_with_root X (var_or X ''LTPROOT'' DEFAULT_ROOT) max_runtime timeout"

section \<open>Reading runtest files\<close>

definition ltp_error :: "string \<Rightarrow> 'a result" where
  "ltp_error m = Err (FrameworkE m)"

definition succeeded :: "cmd_result option \<Rightarrow> bool" where
  "succeeded r \<longleftrightarrow> (case r of Some res \<Rightarrow> cr_returncode res = 0 | None \<Rightarrow> False)"

definition read_path :: "'c com_channel \<Rightarrow> ltp_framework \<Rightarrow> 'c \<Rightarrow> str_map result \<times> 'c" where
  "read_path C f ch =
     (case lf_env f ''PATH'' of
        Some path \<Rightarrow> (Ok ((lf_env f)(''PATH'' \<mapsto> path @ '':'' @ lf_tc_folder f)), ch)
      | None \<Rightarrow>
          (case run_now C ''echo -n $PATH'' ch of
             (Inl e, ch1) \<Rightarrow> (Err e, ch1)
           | (Inr reported, ch1) \<Rightarrow>
               (case reported of
                  Some res \<Rightarrow>
                    if cr_returncode res = 0
                    then (Ok ((lf_env f)(''PATH'' \<mapsto> trim (cr_stdout res) @ '':'' @ lf_tc_folder f)), ch1)
                    else (ltp_error (''Can'' @ [squote_char] @ ''t read PATH variable''), ch1)
                | None \<Rightarrow> (ltp_error (''Can'' @ [squote_char] @ ''t read PATH variable''), ch1))))"

definition is_addable :: "ltp_ext \<Rightarrow> ltp_framework \<Rightarrow> json_map \<Rightarrow> bool" where
  "is_addable X f params =
     (if f64_eq (lf_max_runtime f) f64_zero then True
      else
        (case map_of params ''max_runtime'' of
           None \<Rightarrow> True
         | Some JNull \<Rightarrow> True
         | Some runtime \<Rightarrow>
             (let v = (case runtime of
                         JInt _ \<Rightarrow> num_as_f64 (lx_rounding X) runtime
                       | JFloat _ \<Rightarrow> num_as_f64 (lx_rounding X) runtime
                       | JStr t \<Rightarrow> lx_parse_f64 X t
                       | JBool flag \<Rightarrow> Some (if flag then F64_Fin 1 else f64_zero)
                       | _ \<Rightarrow> None)
              in \<not> (case v of Some x \<Rightarrow> f64_le (lf_max_runtime f) x | None \<Rightarrow> False))))"

definition metadata_tests :: "json option \<Rightarrow> json_map option" where
  "metadata_tests metadata =
     (case metadata of
        Some (JObj kvs) \<Rightarrow> (case map_of kvs ''tests'' of Some (JObj ts) \<Rightarrow> Some ts | _ \<Rightarrow> None)
      | _ \<Rightarrow> None)"

text \<open>One line: an error, nothing (a blank, a comment, a filtered test) or a test.\<close>

definition known_params :: "json_map option \<Rightarrow> string \<Rightarrow> json_map option" where
  "known_params known name =
     (case known of
        Some ts \<Rightarrow> (case map_of ts name of Some (JObj params) \<Rightarrow> Some params | _ \<Rightarrow> None)
      | None \<Rightarrow> None)"

definition read_line ::
  "ltp_ext \<Rightarrow> ltp_framework \<Rightarrow> str_map \<Rightarrow> json_map option \<Rightarrow> string \<Rightarrow> test option result" where
  "read_line X f env known raw_line =
     (let line = trim raw_line
      in if line = [] \<or> starts_with ''#'' line then Ok None
         else
           (let parts = split_cmd_args line
            in if length parts < 2 then ltp_error ''runtest file is not defining test command''
               else
                 (let test_name = parts ! 0; test_cmd = parts ! 1; args = drop 2 parts;
                      params = known_params known test_name;
                      parallelizable =
                        (case params of
                           Some ps \<Rightarrow> list_all (\<lambda>tag. map_of ps tag = None) PARALLEL_BLACKLIST
                         | None \<Rightarrow> False)
                  in if (case params of Some ps \<Rightarrow> \<not> is_addable X f ps | None \<Rightarrow> False) then Ok None
                     else
                       and_then (test_new test_name test_cmd) (\<lambda>t.
                         Ok (Some (with_parallelizable parallelizable
                           (with_env env (with_cwd (lf_tc_folder f) (with_args args t)))))))))"

fun read_lines ::
  "ltp_ext \<Rightarrow> ltp_framework \<Rightarrow> str_map \<Rightarrow> json_map option \<Rightarrow> string list \<Rightarrow> test list result" where
  "read_lines X f env known [] = Ok []"
| "read_lines X f env known (l # ls) =
     and_then (read_line X f env known l) (\<lambda>t.
     and_then (read_lines X f env known ls) (\<lambda>ts.
       Ok (case t of None \<Rightarrow> ts | Some x \<Rightarrow> x # ts)))"

definition read_runtest ::
  "'c com_channel \<Rightarrow> ltp_ext \<Rightarrow> ltp_framework \<Rightarrow> string \<Rightarrow> string \<Rightarrow> json option \<Rightarrow> 'c
     \<Rightarrow> suite result \<times> 'c" where
  "read_runtest C X f suite_name content metadata ch =
     (case read_path C f ch of
        (Inl e, ch1) \<Rightarrow> (Err e, ch1)
      | (Inr env, ch1) \<Rightarrow>
          (and_then (read_lines X f env (metadata_tests metadata) (split_on (CHR 0x0A) content))
             (\<lambda>tests. Ok (suite_new suite_name tests)), ch1))"

section \<open>The trait \<open>Framework\<close>\<close>

text \<open>A probe \<open>test -d\<close> or \<open>test -f\<close>: go on when it succeeds, else fail with the message.\<close>

definition probe ::
  "'c com_channel \<Rightarrow> string \<Rightarrow> string \<Rightarrow> ('c \<Rightarrow> 'a result \<times> 'c) \<Rightarrow> 'c \<Rightarrow> 'a result \<times> 'c" where
  "probe C cmd msg k ch =
     (case run_now C cmd ch of
        (Inl e, ch1) \<Rightarrow> (Err e, ch1)
      | (Inr present, ch1) \<Rightarrow> if succeeded present then k ch1 else (ltp_error msg, ch1))"

definition no_root_message :: "ltp_framework \<Rightarrow> string" where
  "no_root_message f = ''LTP folder doesn'' @ [squote_char] @ ''t exist: '' @ lf_root f"

definition get_suites :: "'c com_channel \<Rightarrow> ltp_framework \<Rightarrow> 'c \<Rightarrow> string list result \<times> 'c" where
  "get_suites C f =
     (let runtest_dir = lf_root f @ ''/runtest''
      in probe C (''test -d '' @ lf_root f) (no_root_message f)
        (probe C (''test -d '' @ runtest_dir)
           (quoted runtest_dir @ '' doesn'' @ [squote_char] @ ''t exist inside SUT'')
           (\<lambda>ch. case run_now C (''ls --format=single-column '' @ runtest_dir) ch of
               (Inl e, ch1) \<Rightarrow> (Err e, ch1)
             | (Inr None, ch1) \<Rightarrow>
                 (ltp_error (''Can'' @ [squote_char] @ ''t communicate with SUT''), ch1)
             | (Inr (Some res), ch1) \<Rightarrow>
                 if cr_returncode res \<noteq> 0 then (ltp_error (''command failed with: '' @ cr_stdout res), ch1)
                 else (Ok (filter (\<lambda>l. l \<noteq> []) (split_on (CHR 0x0A) (cr_stdout res))), ch1))))"

definition find_command :: "'c com_channel \<Rightarrow> ltp_framework \<Rightarrow> string \<Rightarrow> 'c \<Rightarrow> test result \<times> 'c" where
  "find_command C f command ch =
     (if command = [] then (ltp_error ''command is empty'', ch)
      else
        (case split_cmd_args command of
           [] \<Rightarrow> (ltp_error ''command is empty'', ch)
         | name # args \<Rightarrow>
             (let build = (\<lambda>cwd env ch'.
                (and_then (test_new name name) (\<lambda>t.
                   let t1 = with_parallelizable False (with_env env (with_args args t))
                   in Ok (case cwd of Some dir \<Rightarrow> with_cwd dir t1 | None \<Rightarrow> t1)), ch'))
              in case run_now C (''test -d '' @ lf_tc_folder f) ch of
                   (Inl e, ch1) \<Rightarrow> (Err e, ch1)
                 | (Inr present, ch1) \<Rightarrow>
                     if succeeded present then
                       (case read_path C f ch1 of
                          (Inl e, ch2) \<Rightarrow> (Err e, ch2)
                        | (Inr env, ch2) \<Rightarrow> build (Some (lf_tc_folder f)) env ch2)
                     else build None Map.empty ch1)))"

definition read_metadata ::
  "'c com_channel \<Rightarrow> ltp_ext \<Rightarrow> ltp_framework \<Rightarrow> 'c \<Rightarrow> json option result \<times> 'c" where
  "read_metadata C X f ch =
     (let metadata_path = lf_root f @ ''/metadata/ltp.json''
      in case run_now C (''test -f '' @ metadata_path) ch of
           (Inl e, ch1) \<Rightarrow> (Err e, ch1)
         | (Inr present, ch1) \<Rightarrow>
             if succeeded present then
               (case cc_fetch_file C metadata_path ch1 of
                  (Inl e, ch2) \<Rightarrow> (Err e, ch2)
                | (Inr bytes, ch2) \<Rightarrow>
                    if MAX_METADATA_BYTES < length bytes then
                      (ltp_error (''ltp.json exceeds '' @ show_nat MAX_METADATA_BYTES @ '' byte cap''), ch2)
                    else
                      (case lx_json X bytes of
                         Inl err \<Rightarrow> (ltp_error (''invalid ltp.json: '' @ err), ch2)
                       | Inr v \<Rightarrow> (Ok (Some v), ch2)))
             else (Ok None, ch1))"

definition suite_path :: "ltp_framework \<Rightarrow> string \<Rightarrow> string" where
  "suite_path f name = lf_root f @ ''/runtest/'' @ name"

definition find_suite ::
  "'c com_channel \<Rightarrow> ltp_ext \<Rightarrow> ltp_framework \<Rightarrow> string \<Rightarrow> 'c \<Rightarrow> suite result \<times> 'c" where
  "find_suite C X f name ch =
     (if name = [] then (ltp_error ''name is empty'', ch)
      else
        (case validate_suite_name (lx_debug X) name of
           Inl e \<Rightarrow> (Err e, ch)
         | Inr _ \<Rightarrow>
             probe C (''test -d '' @ lf_root f) (no_root_message f)
               (probe C (''test -f '' @ suite_path f name)
                  (quoted name @ '' suite doesn'' @ [squote_char] @ ''t exist'')
                  (\<lambda>ch2. case cc_fetch_file C (suite_path f name) ch2 of
                      (Inl e, ch3) \<Rightarrow> (Err e, ch3)
                    | (Inr bytes, ch3) \<Rightarrow>
                        (case read_metadata C X f ch3 of
                           (Inl e, ch4) \<Rightarrow> (Err e, ch4)
                         | (Inr metadata, ch4) \<Rightarrow>
                             read_runtest C X f name (lx_lossy X bytes) metadata ch4))) ch))"

definition adjust_counts :: "int \<Rightarrow> counts \<Rightarrow> counts" where
  "adjust_counts retcode c =
     (let c1 = (if c = counts_default then
                  (if retcode = 0 then c\<lparr>ct_passed := 1\<rparr>
                   else if retcode = 4 then c\<lparr>ct_warnings := 1\<rparr>
                   else if retcode = 32 then c\<lparr>ct_skipped := 1\<rparr>
                   else if retcode = - 1 then c
                   else c\<lparr>ct_failed := 1\<rparr>)
                else c)
      in if retcode = - 1 then c1\<lparr>ct_broken := 1\<rparr> else c1)"

definition ltp_read_result ::
  "ltp_ext \<Rightarrow> test \<Rightarrow> string \<Rightarrow> int \<Rightarrow> f64 \<Rightarrow> test_results result" where
  "ltp_read_result X test stdout0 retcode exec_time =
     (let stdout = strip_ansi (truncate_stdout stdout0);
          counts0 = (case parse_summary (lx_captures X) stdout of
                       Some c \<Rightarrow> c | None \<Rightarrow> count_markers stdout);
          c = adjust_counts retcode counts0
      in Ok (with_stdout stdout (with_retcode retcode (with_status (retcode_status retcode)
           (with_exec_time exec_time (with_warnings (ct_warnings c) (with_skipped (ct_skipped c)
           (with_broken (ct_broken c) (with_passed (ct_passed c) (with_failed (ct_failed c)
             (test_results_new test)))))))))))"

section \<open>Results\<close>

lemma ltp_names_its_test: "ltp_read_result X t out rc x = Inr r \<Longrightarrow> r_test r = t"
  by (auto simp: ltp_read_result_def result_defs Let_def)

text \<open>The framework keeps the contract the test scheduler relies on.\<close>

lemma ltp_keeps_contract: "names_its_test (E\<lparr>fw_read_result := ltp_read_result X\<rparr>)"
  using ltp_names_its_test by (simp add: names_its_test_def)

lemma adjust_counts_nonzero:
  "ct_passed (adjust_counts rc c) \<noteq> 0 \<or> ct_failed (adjust_counts rc c) \<noteq> 0 \<or>
   ct_broken (adjust_counts rc c) \<noteq> 0 \<or> ct_skipped (adjust_counts rc c) \<noteq> 0 \<or>
   ct_warnings (adjust_counts rc c) \<noteq> 0"
proof (cases "c = counts_default")
  case True
  then show ?thesis by (simp add: adjust_counts_def counts_default_def)
next
  case False
  then show ?thesis
    by (cases c) (auto simp: adjust_counts_def counts_default_def Let_def)
qed

text \<open>
  Reading a result never fails: whatever the output, the result is the one of the test,
  its status is the one of the return code, at least one of its counters is not zero, a return code
  of -1 counts as broken, and output without a summary and without a marker counts once, by the
  return code.
\<close>

theorem read_result_is_total:
  "\<exists>r. ltp_read_result X test stdout rc x = Inr r \<and> r_test r = test \<and> r_retcode r = rc \<and>
     r_exec_time r = x \<and> r_status r = retcode_status rc \<and>
     r_stdout r = strip_ansi (truncate_stdout stdout) \<and>
     (r_passed r \<noteq> 0 \<or> r_failed r \<noteq> 0 \<or> r_broken r \<noteq> 0 \<or> r_skipped r \<noteq> 0 \<or> r_warnings r \<noteq> 0) \<and>
     (rc = - 1 \<longrightarrow> r_broken r = 1) \<and>
     (parse_summary (lx_captures X) (r_stdout r) = None \<and> count_markers (r_stdout r) = counts_default \<longrightarrow>
        unat (r_passed r) + unat (r_failed r) + unat (r_broken r) + unat (r_skipped r) + unat (r_warnings r) = 1 \<and>
        (r_passed r = 1 \<longleftrightarrow> rc = 0) \<and> (r_failed r = 1 \<longleftrightarrow> rc \<notin> {0, 4, 32, - 1}))"
proof -
  define out where "out = strip_ansi (truncate_stdout stdout)"
  define c where "c = adjust_counts rc (case parse_summary (lx_captures X) out of
      Some c \<Rightarrow> c | None \<Rightarrow> count_markers out)"
  have one: "adjust_counts rc counts_default =
      (if rc = - 1 then counts_default\<lparr>ct_broken := 1\<rparr>
       else if rc = 0 then counts_default\<lparr>ct_passed := 1\<rparr>
       else if rc = 4 then counts_default\<lparr>ct_warnings := 1\<rparr>
       else if rc = 32 then counts_default\<lparr>ct_skipped := 1\<rparr>
       else counts_default\<lparr>ct_failed := 1\<rparr>)"
    by (simp add: adjust_counts_def)
  have "rc = - 1 \<longrightarrow> ct_broken c = 1" by (simp add: c_def adjust_counts_def Let_def)
  moreover note adjust_counts_nonzero [of rc]
  ultimately show ?thesis
    using one
    by (auto simp: ltp_read_result_def result_defs Let_def out_def [symmetric] c_def counts_default_def)
qed

section \<open>Suite names stay in the runtest directory\<close>

lemma split_on_two:
  "split_on c (a @ c # b) = split_on c a @ split_on c b"
  by (induction a) (auto split: list.splits)

text \<open>
  A suite name that passes the check names one entry of the runtest directory: the path
  that is fetched has the components of the root followed by \<open>runtest\<close> and the name, and the name
  does not lead out of it.
\<close>

theorem suite_path_is_confined:
  assumes "validate_suite_name debug name = Inr ()"
  shows "split_on (CHR ''/'') (suite_path f name) = split_on (CHR ''/'') (lf_root f) @ [''runtest'', name] \<and>
    name \<noteq> ''..'' \<and> CHR 0x00 \<notin> set name"
proof -
  have name: "CHR ''/'' \<notin> set name" "CHR 0x00 \<notin> set name" "\<not> sublist ''..'' name"
    using assms by (auto simp: validate_suite_name_def contains_char_def contains_sublist split: if_splits)
  have "split_on (CHR ''/'') (suite_path f name) =
      split_on (CHR ''/'') (lf_root f) @ split_on (CHR ''/'') (''runtest'' @ CHR ''/'' # name)"
    using split_on_two [of "CHR ''/''" "lf_root f" "''runtest/'' @ name"] by (simp add: suite_path_def)
  also have "split_on (CHR ''/'') (''runtest'' @ CHR ''/'' # name) = [''runtest'', name]"
    using split_on_two [of "CHR ''/''" "''runtest''" name] split_on_id [OF name(1)]
      split_on_id [of "CHR ''/''" "''runtest''"] by simp
  finally show ?thesis using name by auto
qed

lemma suite_path_is_confined_witness:
  "split_on (CHR ''/'') (suite_path \<lparr> lf_max_runtime = f64_zero, lf_root = ''/opt/ltp'',
      lf_tc_folder = [], lf_env = Map.empty \<rparr> ''syscalls'')
   = split_on (CHR ''/'') ''/opt/ltp'' @ [''runtest'', ''syscalls'']"
proof -
  have "validate_suite_name (\<lambda>s. s) ''syscalls'' = Inr ()"
    by (simp add: validate_suite_name_def contains_char_def contains_def starts_with_def)
  from suite_path_is_confined [OF this] show ?thesis by simp
qed

section \<open>Runtest files\<close>

record runtest_entry =
  re_name :: string
  re_command :: string
  re_args :: "string list"

definition entry_words :: "runtest_entry \<Rightarrow> string list" where
  "entry_words e = re_name e # re_command e # re_args e"

definition entry_test :: "ltp_framework \<Rightarrow> str_map \<Rightarrow> runtest_entry \<Rightarrow> test" where
  "entry_test f env e = \<lparr> t_name = re_name e, t_command = re_command e, t_cwd = Some (lf_tc_folder f),
     t_env = env, t_args = re_args e, t_parallelizable = False \<rparr>"

definition entry_ok :: "runtest_entry \<Rightarrow> bool" where
  "entry_ok e \<longleftrightarrow> list_all plain_word (entry_words e) \<and> hd (re_name e) \<noteq> CHR ''#''"

lemma read_line_entry:
  assumes "entry_ok e"
  shows "read_line X f env None (join '' '' (entry_words e)) = Inr (Some (entry_test f env e))"
proof -
  let ?l = "join '' '' (entry_words e)"
  have words: "list_all plain_word (entry_words e)" and ne: "entry_words e \<noteq> []"
    using assms by (simp_all add: entry_ok_def entry_words_def)
  note ends = join_plain_ends [OF words ne]
  have "trim ?l = ?l" using ends plain_trim [of ?l] by blast
  moreover have "\<not> starts_with ''#'' ?l"
    using ends assms by (cases ?l) (auto simp: starts_with_def entry_ok_def entry_words_def)
  moreover have "split_cmd_args ?l = entry_words e" by (rule split_plain_words [OF words])
  moreover have "re_name e \<noteq> []" "re_command e \<noteq> []"
    using words by (auto simp: entry_words_def plain_word_def)
  ultimately show ?thesis
    using ends
    by (simp add: read_line_def Let_def entry_words_def known_params_def test_new_def entry_test_def with_defs)
qed

lemma read_lines_entries:
  "list_all entry_ok es \<Longrightarrow>
   read_lines X f env None (map (\<lambda>e. join '' '' (entry_words e)) es) = Inr (map (entry_test f env) es)"
  by (induction es) (simp_all add: read_line_entry)

text \<open>
  Claim C29: a runtest file is read back: the entries written one per line, with words of printing
  characters and no quotes, give a suite with exactly their tests, in order, run in the testcases
  folder with the environment of the framework and not in parallel.
\<close>

theorem read_runtest_roundtrip:
  assumes "list_all entry_ok es" and "es \<noteq> []" and "lf_env f ''PATH'' = Some path"
  shows "read_runtest C X f name (join [CHR 0x0A] (map (\<lambda>e. join '' '' (entry_words e)) es)) None ch =
    (Inr (suite_new name (map (entry_test f ((lf_env f)(''PATH'' \<mapsto> path @ '':'' @ lf_tc_folder f))) es)), ch)"
proof -
  have "\<forall>l \<in> set (map (\<lambda>e. join '' '' (entry_words e)) es). CHR 0x0A \<notin> set l"
  proof
    fix l
    assume "l \<in> set (map (\<lambda>e. join '' '' (entry_words e)) es)"
    then obtain e where e: "e \<in> set es" "l = join '' '' (entry_words e)" by auto
    then have "list_all plain_word (entry_words e)" using assms(1) by (auto simp: list_all_iff entry_ok_def)
    from join_plain_ends [OF this] e(2) show "CHR 0x0A \<notin> set l" by (simp add: entry_words_def)
  qed
  then have "split_on (CHR 0x0A) (join [CHR 0x0A] (map (\<lambda>e. join '' '' (entry_words e)) es))
      = map (\<lambda>e. join '' '' (entry_words e)) es"
    using assms(2) by (intro split_on_join) simp_all
  then show ?thesis
    using assms read_lines_entries [OF assms(1)]
    by (simp add: read_runtest_def read_path_def metadata_tests_def)
qed

text \<open>Where a parallelizable test comes from.\<close>

lemma read_line_parallel:
  "read_line X f env known l = Inr (Some t) \<Longrightarrow> t_parallelizable t \<Longrightarrow>
   \<exists>params. known_params known (t_name t) = Some params \<and> is_addable X f params \<and>
     (\<forall>tag \<in> set PARALLEL_BLACKLIST. map_of params tag = None)"
  by (auto simp: read_line_def Let_def ltp_error_def and_then_Ok test_new_def with_defs list_all_iff
      split: if_splits option.splits)

lemma read_lines_parallel:
  "read_lines X f env known ls = Inr ts \<Longrightarrow> t \<in> set ts \<Longrightarrow> t_parallelizable t \<Longrightarrow>
   \<exists>params. known_params known (t_name t) = Some params \<and> is_addable X f params \<and>
     (\<forall>tag \<in> set PARALLEL_BLACKLIST. map_of params tag = None)"
proof (induction ls arbitrary: ts)
  case Nil
  then show ?case by simp
next
  case (Cons l ls)
  then obtain x us where l: "read_line X f env known l = Inr x" "read_lines X f env known ls = Inr us"
    "ts = (case x of None \<Rightarrow> us | Some y \<Rightarrow> y # us)"
    by (auto simp: and_then_Ok)
  show ?case
  proof (cases "t \<in> set us")
    case True
    with Cons.IH [OF l(2)] Cons.prems(3) show ?thesis by blast
  next
    case False
    with l Cons.prems(2) have "read_line X f env known l = Inr (Some t)" by (auto split: option.splits)
    from read_line_parallel [OF this Cons.prems(3)] show ?thesis .
  qed
qed

text \<open>
  Claim C30: a test of a suite read from a runtest file is run in parallel only when the metadata
  lists it and none of the tags that need exclusive resources is among its parameters.
\<close>

theorem parallel_tests_have_no_blacklisted_tag:
  assumes "fst (read_runtest C X f name content metadata ch) = Inr s"
    and "t \<in> set (s_tests s)" and "t_parallelizable t"
  shows "\<exists>params. known_params (metadata_tests metadata) (t_name t) = Some params \<and>
    (\<forall>tag \<in> set PARALLEL_BLACKLIST. map_of params tag = None)"
proof -
  from assms(1) obtain env where
    "read_lines X f env (metadata_tests metadata) (split_on (CHR 0x0A) content) = Inr (s_tests s)"
    by (auto simp: read_runtest_def and_then_Ok split: prod.splits sum.splits)
  from read_lines_parallel [OF this assms(2,3)] show ?thesis by blast
qed

text \<open>
  The test built for a command line carries the whole line: its full command splits into
  the words of the line, its name is the first of them, and it never runs in parallel.
\<close>

theorem find_command_keeps_words:
  assumes "fst (find_command C f command ch) = Inr t"
  shows "split_cmd_args (full_command t) = split_cmd_args command \<and>
    split_cmd_args command = t_name t # t_args t \<and> \<not> t_parallelizable t"
proof -
  obtain name args where words: "split_cmd_args command = name # args"
    using assms by (cases "split_cmd_args command") (auto simp: find_command_def ltp_error_def split: if_splits)
  with assms have t: "t_name t = name \<and> t_command t = name \<and> t_args t = args \<and> \<not> t_parallelizable t"
    by (auto simp: find_command_def ltp_error_def Let_def and_then_Ok test_new_def with_defs
        split: if_splits prod.splits sum.splits option.splits)
  have "full_command t = join '' '' (split_cmd_args command)"
    using t words by (cases args) (simp_all add: full_command_def)
  with split_join [of command] words t show ?thesis by simp
qed

section \<open>Examples\<close>

definition demo_ext :: ltp_ext where
  "demo_ext = \<lparr> lx_vars = [(''PATH'', ''/bin'')], lx_captures = \<lambda>_ _. Inr None,
     lx_parse_f64 = \<lambda>_. None, lx_lossy = \<lambda>s. s, lx_json = \<lambda>_. Inl ''no json'',
     lx_timeout_mul = \<lambda>_. ''0.09'', lx_debug = \<lambda>s. s, lx_rounding = F64_Fin \<rparr>"

definition demo_framework :: ltp_framework where
  "demo_framework = \<lparr> lf_max_runtime = f64_zero, lf_root = ''/opt/ltp'',
     lf_tc_folder = ''/opt/ltp/testcases/bin'', lf_env = [''PATH'' \<mapsto> ''/bin''] \<rparr>"

definition demo_entry :: runtest_entry where
  "demo_entry = \<lparr> re_name = ''brk01'', re_command = ''brk01'', re_args = [''-v''] \<rparr>"

lemma demo_entry_ok: "entry_ok demo_entry"
  by (simp add: entry_ok_def demo_entry_def entry_words_def plain_word_def plain_char_def)

lemma read_result_is_total_witness:
  "\<exists>r. ltp_read_result demo_ext
     \<lparr> t_name = ''a'', t_command = ''a'', t_cwd = None, t_env = Map.empty, t_args = [], t_parallelizable = False \<rparr>
     [] (- 1) f64_zero = Inr r \<and> r_broken r = 1 \<and> r_retcode r = - 1"
  using read_result_is_total [of demo_ext
     "\<lparr> t_name = ''a'', t_command = ''a'', t_cwd = None, t_env = Map.empty, t_args = [], t_parallelizable = False \<rparr>"
     "[]" "- 1" f64_zero]
  by blast

lemma read_runtest_roundtrip_witness:
  "fst (read_runtest (shell_channel echo_os) demo_ext demo_framework ''s''
     (join [CHR 0x0A] (map (\<lambda>e. join '' '' (entry_words e)) [demo_entry])) None shell_new)
   = Inr (suite_new ''s'' [entry_test demo_framework [''PATH'' \<mapsto> ''/bin:/opt/ltp/testcases/bin''] demo_entry])"
  using read_runtest_roundtrip [of "[demo_entry]" demo_framework "''/bin''" "shell_channel echo_os"
      demo_ext "''s''" shell_new] demo_entry_ok
  by (simp add: demo_framework_def)

definition demo_metadata :: json where
  "demo_metadata = JObj [(''tests'', JObj [(''brk01'', JObj [(''tags'', JNull)])])]"

lemma parallel_tests_have_no_blacklisted_tag_witness:
  "\<exists>s t. fst (read_runtest (shell_channel echo_os) demo_ext demo_framework ''s'' ''brk01 brk01''
       (Some demo_metadata) shell_new) = Inr s \<and> t \<in> set (s_tests s) \<and>
     (\<exists>params. known_params (metadata_tests (Some demo_metadata)) (t_name t) = Some params \<and>
        (\<forall>tag \<in> set PARALLEL_BLACKLIST. map_of params tag = None))"
proof -
  let ?ws = "[''brk01'', ''brk01'']"
  have ws: "list_all plain_word ?ws" by (simp add: plain_word_def plain_char_def)
  have join: "join '' '' ?ws = ''brk01 brk01''" by simp
  have split: "split_cmd_args ''brk01 brk01'' = ?ws" using split_plain_words [OF ws] by simp
  have trim: "trim ''brk01 brk01'' = ''brk01 brk01''"
    by (rule plain_trim) (simp_all add: plain_char_def)
  obtain t where line: "\<And>env. read_line demo_ext demo_framework env (metadata_tests (Some demo_metadata))
      ''brk01 brk01'' = Inr (Some (t\<lparr>t_env := env\<rparr>))" and t: "t_name t = ''brk01''" "t_parallelizable t"
    using that [of "\<lparr> t_name = ''brk01'', t_command = ''brk01'', t_cwd = Some ''/opt/ltp/testcases/bin'',
        t_env = Map.empty, t_args = [], t_parallelizable = True \<rparr>"] split trim
    by (simp add: read_line_def metadata_tests_def demo_metadata_def known_params_def is_addable_def
        demo_framework_def test_new_def with_defs PARALLEL_BLACKLIST_def starts_with_def Let_def)
  define env where "env = (lf_env demo_framework)(''PATH'' \<mapsto> ''/bin:/opt/ltp/testcases/bin'')"
  have s: "fst (read_runtest (shell_channel echo_os) demo_ext demo_framework ''s'' ''brk01 brk01''
       (Some demo_metadata) shell_new) = Inr (suite_new ''s'' [t\<lparr>t_env := env\<rparr>])"
    using line [of env]
    by (simp add: read_runtest_def read_path_def env_def demo_framework_def)
  show ?thesis
    using parallel_tests_have_no_blacklisted_tag [OF s, of "t\<lparr>t_env := env\<rparr>"] s t(2) by auto
qed

lemma find_command_keeps_words_witness:
  "\<exists>t. fst (find_command (shell_channel echo_os) demo_framework ''ls -l'' (shell_new\<lparr>sh_active := True\<rparr>)) = Inr t
     \<and> split_cmd_args (full_command t) = [''ls'', ''-l'']"
proof -
  have ws: "list_all plain_word [''ls'', ''-l'']" by (simp add: plain_word_def plain_char_def)
  have split: "split_cmd_args ''ls -l'' = [''ls'', ''-l'']" using split_plain_words [OF ws] by simp
  have "trim (''test -d /opt/ltp/testcases/bin'') \<noteq> []" by (simp add: trim_graphic)
  then have "\<exists>t. fst (find_command (shell_channel echo_os) demo_framework ''ls -l''
      (shell_new\<lparr>sh_active := True\<rparr>)) = Inr t"
    using split
    by (simp add: find_command_def demo_framework_def run_now_def shell_channel_def shell_run_command_def
        echo_os_def sleep_os_def sleep_process_def shell_new_def try_register_def drop_tracked_def
        unregister_pid_def await_def command_outcome_def read_loop_def read_init_def exit_code_def
        succeeded_def read_path_def test_new_def Let_def)
  then obtain t where t: "fst (find_command (shell_channel echo_os) demo_framework ''ls -l''
      (shell_new\<lparr>sh_active := True\<rparr>)) = Inr t" ..
  from find_command_keeps_words [OF t] split t show ?thesis by simp
qed

section \<open>The contract of the framework\<close>

definition ltp_framework_ops :: "'c com_channel \<Rightarrow> ltp_ext \<Rightarrow> ltp_framework \<Rightarrow> 'c framework_ops" where
  "ltp_framework_ops C X f =
     \<lparr> fo_get_suites = get_suites C f, fo_find_command = find_command C f, fo_find_suite = find_suite C X f,
       fo_read_result = ltp_read_result X \<rparr>"

lemma run_now_keeps: "channel_keeps C I \<Longrightarrow> I ch \<Longrightarrow> run_now C cmd ch = (r, ch1) \<Longrightarrow> I ch1"
  by (auto simp: run_now_def await_def dest: channel_keepsD)

lemma fetch_keeps: "channel_keeps C I \<Longrightarrow> I ch \<Longrightarrow> cc_fetch_file C path ch = (r, ch1) \<Longrightarrow> I ch1"
  using channel_keepsD(2) [of C I ch path] by simp

lemma probe_keeps:
  assumes "channel_keeps C I" and "I ch" and "\<And>ch1. I ch1 \<Longrightarrow> I (snd (k ch1))"
  shows "I (snd (probe C cmd msg k ch))"
  using assms run_now_keeps [OF assms(1,2), of cmd]
  by (auto simp: probe_def ltp_error_def split: prod.splits sum.splits)

lemma read_path_keeps:
  assumes "channel_keeps C I" and "I ch"
  shows "I (snd (read_path C f ch))"
  using assms(2) run_now_keeps [OF assms, of "''echo -n $PATH''"]
  by (auto simp: read_path_def ltp_error_def split: option.splits prod.splits sum.splits)

lemma read_metadata_keeps:
  assumes "channel_keeps C I" and "I ch"
  shows "I (snd (read_metadata C X f ch))"
proof -
  obtain r ch1 where run: "run_now C (''test -f '' @ lf_root f @ ''/metadata/ltp.json'') ch = (r, ch1)" by fastforce
  note I1 = run_now_keeps [OF assms run]
  obtain b ch2 where "cc_fetch_file C (lf_root f @ ''/metadata/ltp.json'') ch1 = (b, ch2)" by fastforce
  with fetch_keeps [OF assms(1) I1 this] I1 run show ?thesis
    by (auto simp: read_metadata_def ltp_error_def Let_def split: sum.splits)
qed

lemma read_runtest_keeps:
  assumes "channel_keeps C I" and "I ch"
  shows "I (snd (read_runtest C X f name content metadata ch))"
  using read_path_keeps [OF assms, of f]
  by (cases "read_path C f ch") (auto simp: read_runtest_def split: sum.splits)

interpretation ltp: framework_contract C "ltp_framework_ops C X f" for C X f
proof (unfold_locales, goal_cases)
  case (3 I ch)
  have "I (snd (case run_now C cmd ch1 of (Inl e, ch2) \<Rightarrow> (Err e, ch2)
      | (Inr None, ch2) \<Rightarrow> (g, ch2)
      | (Inr (Some res), ch2) \<Rightarrow> if p res then (h res, ch2) else (k res, ch2)))"
    if "I ch1" for cmd ch1 g h k and p :: "cmd_result \<Rightarrow> bool"
    using run_now_keeps [OF 3(1) that, of cmd] by (auto split: prod.splits sum.splits option.splits)
  then show ?case
    unfolding ltp_framework_ops_def get_suites_def framework_ops.simps Let_def
    by (intro probe_keeps [OF 3(1)] 3(2)) (assumption | simp)+
next
  case (4 I ch command)
  obtain r ch1 where run: "run_now C (''test -d '' @ lf_tc_folder f) ch = (r, ch1)" by fastforce
  note I1 = run_now_keeps [OF 4 run]
  obtain q ch2 where path: "read_path C f ch1 = (q, ch2)" by fastforce
  have "I ch2" using read_path_keeps [OF 4(1) I1, of f] path by simp
  with 4 I1 run path show ?case
    by (simp add: ltp_framework_ops_def find_command_def ltp_error_def Let_def split: list.splits sum.splits)
next
  case (5 I ch name)
  have "I (snd (case cc_fetch_file C path ch1 of (Inl e, ch3) \<Rightarrow> (Err e, ch3)
      | (Inr bytes, ch3) \<Rightarrow>
          (case read_metadata C X f ch3 of (Inl e, ch4) \<Rightarrow> (Err e, ch4)
           | (Inr metadata, ch4) \<Rightarrow> read_runtest C X f name (lx_lossy X bytes) metadata ch4)))"
    if "I ch1" for path ch1
  proof -
    obtain b ch3 where fetch: "cc_fetch_file C path ch1 = (b, ch3)" by fastforce
    note I3 = fetch_keeps [OF 5(1) that fetch]
    obtain m ch4 where meta: "read_metadata C X f ch3 = (m, ch4)" by fastforce
    have "I ch4" using read_metadata_keeps [OF 5(1) I3, of X f] meta by simp
    with I3 fetch meta read_runtest_keeps [OF 5(1)] show ?thesis by (simp split: sum.splits)
  qed
  note tail = this
  show ?case
  proof (cases "name = [] \<or> (\<exists>e. validate_suite_name (lx_debug X) name = Inl e)")
    case True
    then show ?thesis using 5(2) by (auto simp: ltp_framework_ops_def find_suite_def ltp_error_def)
  next
    case False
    then obtain u where "name \<noteq> []" and "validate_suite_name (lx_debug X) name = Inr u"
      by (cases "validate_suite_name (lx_debug X) name") auto
    then show ?thesis
      unfolding ltp_framework_ops_def find_suite_def framework_ops.simps
      by (simp only: if_False sum.case) (intro probe_keeps [OF 5(1)] 5(2) tail)
  qed
next
  case (6 t out rc x r)
  then show ?case by (auto simp: ltp_framework_ops_def ltp_read_result_def result_defs Let_def)
qed (simp_all add: ltp_framework_ops_def find_command_def find_suite_def ltp_error_def)

text \<open>The lookups of a session leave the local shell as it was: running, or not.\<close>

lemma shell_keeps_lifecycle: "channel_keeps (shell_channel os) (\<lambda>s. sh_active s = on)"
  by (auto simp: channel_keeps_def shell_channel_def shell_run_command_def shell_fetch_file_def try_register_def
      drop_tracked_def unregister_pid_def ready_def Let_def split: sum.splits)

lemma lookups_leave_shell_running:
  "sh_active (fold (look (ltp_framework_ops (shell_channel os) X f)) ls s) = sh_active s"
  by (rule ltp.lookups_keep [OF shell_keeps_lifecycle]) simp

end
