(* ===== verification/Support_Files.thy ===== *)
theory Support_Files
  imports Core_Types
begin

text \<open>
  Crate \<open>kirk-support\<close>, \<open>io.rs\<close> and what its writers share: paths as \<open>std::path\<close> reads them, the
  confinement of a file to its canonical parent directory, and the file handle \<open>AsyncFile\<close> over a
  store of file contents. What the operating system refuses is an environment of predicates.
\<close>

section \<open>Paths\<close>

text \<open>
  The components of \<open>std::path\<close>: separators collapse and dots go, but for a leading one. An absolute
  path is told apart by its first character.
\<close>

definition path_components :: "string \<Rightarrow> string list" where
  "path_components p =
     (let cs = split_on (CHR ''/'') p;
          normal = filter (\<lambda>c. c \<noteq> [] \<and> c \<noteq> ''.'') cs
      in if hd cs = ''.'' then ''.'' # normal else normal)"

definition path_is_absolute :: "string \<Rightarrow> bool" where
  "path_is_absolute p \<longleftrightarrow> starts_with ''/'' p"

definition path_file_name :: "string \<Rightarrow> string option" where
  "path_file_name p =
     (case rev (path_components p) of
        [] \<Rightarrow> None
      | c # _ \<Rightarrow> if c = ''.'' \<or> c = ''..'' then None else Some c)"

text \<open>\<open>Path::parent\<close> as text; \<open>None\<close> for a root and for the empty path.\<close>

definition path_parent :: "string \<Rightarrow> string option" where
  "path_parent p =
     (if path_components p = [] then None
      else Some ((if path_is_absolute p then ''/'' else []) @ join ''/'' (butlast (path_components p))))"

definition path_join :: "string \<Rightarrow> string \<Rightarrow> string" where
  "path_join dir name =
     (if dir = [] \<or> last dir = CHR ''/'' then dir @ name else dir @ ''/'' @ name)"

section \<open>The file system\<close>

text \<open>
  \<open>fe_canonicalize\<close>, \<open>fe_current_dir\<close> and \<open>fe_exists\<close> answer with an error text when they fail; \<open>fe_open_error\<close>
  and \<open>fe_write_error\<close> tell the error of opening a path and of writing to it, \<open>None\<close> when it works.
  \<open>fe_not_found\<close> is the error text for a missing file, \<open>fe_decode_error\<close> the one for bytes that are no
  UTF-8.
\<close>

record file_env =
  fe_canonicalize :: "string \<Rightarrow> string + string"
  fe_current_dir :: "string + string"
  fe_exists_error :: "string \<Rightarrow> string option"
  fe_open_error :: "string \<Rightarrow> string option"
  fe_write_error :: "string \<Rightarrow> string option"
  fe_not_found :: string
  fe_read_only :: string
  fe_decode_error :: "string \<Rightarrow> string option"

type_synonym files = "string \<rightharpoonup> string"

record async_file =
  af_path :: string
  af_mode :: string
  af_readable :: bool
  af_pos :: "nat option"

text \<open>\<open>af_pos\<close> is the handle: \<open>None\<close> is closed, otherwise the place reads continue from.\<close>

definition mode_has :: "char \<Rightarrow> string \<Rightarrow> bool" where
  "mode_has c mode \<longleftrightarrow> contains_char mode c"

definition async_file_new :: "string \<Rightarrow> string \<Rightarrow> async_file" where
  "async_file_new path mode =
     \<lparr> af_path = path, af_mode = mode,
       af_readable = (mode_has (CHR ''r'') mode \<or> mode_has (CHR ''+'') mode), af_pos = None \<rparr>"

text \<open>
  \<open>open\<close>: a second call does nothing; \<open>w\<close> truncates, \<open>w\<close> and \<open>a\<close> create, \<open>r\<close> needs the file. The
  flags of a mode accumulate, as they do in \<open>OpenOptions\<close>.
\<close>

definition file_open ::
  "file_env \<Rightarrow> async_file \<Rightarrow> files \<Rightarrow> unit result \<times> async_file \<times> files" where
  "file_open V f fs =
     (if af_pos f \<noteq> None then (Ok (), f, fs)
      else if \<not> (mode_has (CHR ''r'') (af_mode f) \<or> mode_has (CHR ''w'') (af_mode f) \<or> mode_has (CHR ''a'') (af_mode f))
      then (Err (SessionE (''invalid file mode: '' @ [CHR 0x27] @ af_mode f @ [CHR 0x27])), f, fs)
      else (case fe_open_error V (af_path f) of
          Some err \<Rightarrow> (Err (SessionE (''can'' @ [CHR 0x27] @ ''t open file: '' @ err)), f, fs)
        | None \<Rightarrow>
            (let creates = mode_has (CHR ''w'') (af_mode f) \<or> mode_has (CHR ''a'') (af_mode f);
                 opened = (if mode_has (CHR ''w'') (af_mode f) then Some []
                           else if creates then Some (case fs (af_path f) of Some c \<Rightarrow> c | None \<Rightarrow> [])
                           else fs (af_path f))
             in (case opened of
                   None \<Rightarrow> (Err (SessionE (''can'' @ [CHR 0x27] @ ''t open file: '' @ fe_not_found V)), f, fs)
                 | Some c \<Rightarrow> (Ok (), f\<lparr>af_pos := Some 0\<rparr>, fs(af_path f \<mapsto> c))))))"

definition file_close :: "async_file \<Rightarrow> async_file" where
  "file_close f = f\<lparr>af_pos := None\<rparr>"

text \<open>
  Writing is appending for the modes the program uses: \<open>a\<close> appends by definition, and a file opened
  with \<open>w\<close> is only ever written forwards. A file that is not open takes nothing; writing through a
  handle opened only for reading fails with the text \<open>fe_read_only\<close>.
\<close>

definition file_write ::
  "file_env \<Rightarrow> async_file \<Rightarrow> string \<Rightarrow> files \<Rightarrow> unit result \<times> files" where
  "file_write V f data fs =
     (case af_pos f of
        None \<Rightarrow> (Ok (), fs)
      | Some _ \<Rightarrow>
          if \<not> (mode_has (CHR ''w'') (af_mode f) \<or> mode_has (CHR ''a'') (af_mode f) \<or> mode_has (CHR ''+'') (af_mode f))
          then (Err (SessionE (''write failed: '' @ fe_read_only V)), fs)
          else (case fe_write_error V (af_path f) of
             Some err \<Rightarrow> (Err (SessionE (''write failed: '' @ err)), fs)
           | None \<Rightarrow> (Ok (), fs(af_path f \<mapsto> (case fs (af_path f) of Some c \<Rightarrow> c | None \<Rightarrow> []) @ data))))"

text \<open>\<open>readline\<close>: up to and with the next newline, the empty string at the end of the file.\<close>

fun line_of :: "string \<Rightarrow> string" where
  "line_of [] = []"
| "line_of (c # s) = (if c = CHR 0x0A then [c] else c # line_of s)"

definition readline :: "file_env \<Rightarrow> async_file \<Rightarrow> files \<Rightarrow> string option result \<times> async_file" where
  "readline V f fs =
     (case af_pos f of
        None \<Rightarrow> (Ok None, f)
      | Some pos \<Rightarrow>
          (let line = line_of (drop pos (case fs (af_path f) of Some c \<Rightarrow> c | None \<Rightarrow> []));
               f' = f\<lparr>af_pos := Some (pos + length line)\<rparr>
           in (case fe_decode_error V line of
                 Some err \<Rightarrow> (Err (SessionE (''readline failed: '' @ err)), f')
               | None \<Rightarrow> (Ok (Some line), f'))))"

definition next_line :: "file_env \<Rightarrow> async_file \<Rightarrow> files \<Rightarrow> string option result \<times> async_file" where
  "next_line V f fs =
     (if \<not> af_readable f then (Err (SessionE ''file must be open in read mode''), f)
      else if af_pos f = None then (Ok None, f)
      else (case readline V f fs of
              (Inl e, f') \<Rightarrow> (Err e, f')
            | (Inr line, f') \<Rightarrow>
                (let l = (case line of Some l \<Rightarrow> l | None \<Rightarrow> [])
                 in (Ok (if l = [] then None else Some l), f'))))"

text \<open>The loop over \<open>next_line\<close> to the end of the file; \<open>None\<close> is running out of fuel.\<close>

fun read_all_lines ::
  "nat \<Rightarrow> file_env \<Rightarrow> async_file \<Rightarrow> files \<Rightarrow> (string list result \<times> async_file) option" where
  "read_all_lines 0 V f fs = None"
| "read_all_lines (Suc n) V f fs =
     (case next_line V f fs of
        (Inl e, f') \<Rightarrow> Some (Err e, f')
      | (Inr None, f') \<Rightarrow> Some (Ok [], f')
      | (Inr (Some l), f') \<Rightarrow>
          map_option (\<lambda>(r, f''). (and_then r (\<lambda>ls. Ok (l # ls)), f'')) (read_all_lines n V f' fs))"

section \<open>Lines\<close>

definition whole_line :: "string \<Rightarrow> bool" where
  "whole_line l \<longleftrightarrow> (\<exists>s. l = s @ [CHR 0x0A] \<and> CHR 0x0A \<notin> set s)"

lemma line_of_whole: "whole_line l \<Longrightarrow> line_of (l @ rest) = l"
proof -
  have "CHR 0x0A \<notin> set s \<Longrightarrow> line_of (s @ CHR 0x0A # rest) = s @ [CHR 0x0A]" for s
    by (induction s) auto
  then show "whole_line l \<Longrightarrow> ?thesis" by (auto simp: whole_line_def)
qed

lemma line_of_nonempty: "s \<noteq> [] \<Longrightarrow> line_of s \<noteq> []"
  by (cases s) auto

lemma line_of_le: "length (line_of s) \<le> length s"
  by (induction s) auto

lemma take_line_of: "take (length (line_of s)) s = line_of s"
  by (induction s) auto

lemma read_all_lines_whole:
  assumes "af_readable f" and "fe_decode_error V = (\<lambda>_. None)"
  shows "list_all whole_line ls \<Longrightarrow> af_pos f = Some pos \<Longrightarrow> fs (af_path f) = Some c \<Longrightarrow>
    drop pos c = concat ls \<Longrightarrow> length ls < n \<Longrightarrow>
    \<exists>f'. read_all_lines n V f fs = Some (Inr ls, f')"
  using assms(1)
proof (induction ls arbitrary: n f pos)
  case Nil
  then obtain m where "n = Suc m" by (cases n) auto
  with Nil assms(2) show ?case
    by (simp add: next_line_def readline_def Let_def)
next
  case (Cons l ls)
  from Cons.prems obtain m where m: "n = Suc m" "length ls < m" by (cases n) auto
  define f1 where "f1 = f\<lparr>af_pos := Some (pos + length l)\<rparr>"
  have l: "l \<noteq> []" using Cons.prems(1) by (auto simp: whole_line_def)
  have line: "line_of (drop pos c) = l"
    using Cons.prems(1,4) line_of_whole [of l "concat ls"] by simp
  have one: "next_line V f fs = (Inr (Some l), f1)"
    using Cons.prems assms(2) l line by (simp add: next_line_def readline_def Let_def f1_def)
  have "drop (pos + length l) c = drop (length l) (drop pos c)" by (simp add: add.commute)
  also have "\<dots> = concat ls" using Cons.prems(4) by simp
  finally have rest: "drop (pos + length l) c = concat ls" .
  have "\<exists>f'. read_all_lines m V f1 fs = Some (Inr ls, f')"
  proof (rule Cons.IH)
    show "list_all whole_line ls" "length ls < m" "af_readable f1"
      using Cons.prems m(2) by (simp_all add: f1_def)
    show "af_pos f1 = Some (pos + length l)" "fs (af_path f1) = Some c"
      using Cons.prems by (simp_all add: f1_def)
    show "drop (pos + length l) c = concat ls" by (rule rest)
  qed
  then obtain f' where "read_all_lines m V f1 fs = Some (Inr ls, f')" by blast
  with one m(1) show ?case by simp
qed

text \<open>Writing a list of texts through one handle, up to the first failure.\<close>

fun write_all :: "file_env \<Rightarrow> async_file \<Rightarrow> string list \<Rightarrow> files \<Rightarrow> unit result \<times> files" where
  "write_all V f [] fs = (Ok (), fs)"
| "write_all V f (d # ds) fs =
     (case file_write V f d fs of
        (Inl e, fs') \<Rightarrow> (Err e, fs')
      | (Inr _, fs') \<Rightarrow> write_all V f ds fs')"

lemma write_all_appends:
  assumes "fe_write_error V (af_path f) = None" and "af_pos f \<noteq> None" and "mode_has (CHR ''a'') (af_mode f)"
  shows "fs (af_path f) = Some c \<Longrightarrow> write_all V f ds fs = (Inr (), fs(af_path f \<mapsto> c @ concat ds))"
  using assms
proof (induction ds arbitrary: fs c)
  case Nil
  then show ?case by (simp add: map_upd_triv)
next
  case (Cons d ds)
  have one: "file_write V f d fs = (Inr (), fs(af_path f \<mapsto> c @ d))"
    using Cons.prems by (auto simp: file_write_def)
  from Cons.IH [of "fs(af_path f \<mapsto> c @ d)" "c @ d"] Cons.prems(2-)
  have "write_all V f ds (fs(af_path f \<mapsto> c @ d)) = (Inr (), fs(af_path f \<mapsto> (c @ d) @ concat ds))"
    by (simp only: fun_upd_same fun_upd_upd simp_thms HOL.refl True_implies_equals)
  with one show ?case by (simp add: fun_eq_iff)
qed

definition file_works :: "file_env \<Rightarrow> string \<Rightarrow> bool" where
  "file_works V path \<longleftrightarrow> fe_open_error V path = None \<and> fe_write_error V path = None \<and>
     fe_decode_error V = (\<lambda>_. None)"

lemma mode_flags:
  "mode_has (CHR ''a'') ''a''" "\<not> mode_has (CHR ''w'') ''a''" "\<not> mode_has (CHR ''r'') ''a''"
  "mode_has (CHR ''r'') ''r''" "\<not> mode_has (CHR ''w'') ''r''" "\<not> mode_has (CHR ''a'') ''r''"
  "mode_has (CHR ''w'') ''w''" "\<not> mode_has (CHR ''a'') ''w''" "\<not> mode_has (CHR ''r'') ''w''"
  by (simp_all add: mode_has_def contains_char_def)

text \<open>
  Lines appended to a file are read back: opened for appending, the file keeps what it had
  and takes the new lines at its end; opened for reading, the loop over its lines returns exactly the
  old and the new ones, in order, after as many reads as there are lines and one.
\<close>

theorem appended_lines_read_back:
  assumes "file_works V path" and "list_all whole_line (old @ new)"
    and "file_open V (async_file_new path ''a'') (fs(path \<mapsto> concat old)) = (r1, f1, fs1)"
    and "write_all V f1 new fs1 = (r2, fs2)"
    and "file_open V (async_file_new path ''r'') fs2 = (r3, f3, fs3)"
  shows "r1 = Inr () \<and> r2 = Inr () \<and> r3 = Inr () \<and> fs3 = fs(path \<mapsto> concat (old @ new)) \<and>
    map_option fst (read_all_lines (length (old @ new) + 1) V f3 fs3) = Some (Inr (old @ new))"
proof -
  have opened: "r1 = Inr ()" "fs1 = fs(path \<mapsto> concat old)" "af_path f1 = path" "af_pos f1 \<noteq> None"
    "mode_has (CHR ''a'') (af_mode f1)"
    using assms(1,3) by (auto simp: file_open_def async_file_new_def mode_flags file_works_def Let_def)
  have written: "r2 = Inr ()" "fs2 = fs(path \<mapsto> concat (old @ new))"
    using write_all_appends [of V f1 fs1 "concat old" new] opened assms(1,4) by (auto simp: file_works_def)
  have reopened: "r3 = Inr ()" "fs3 = fs(path \<mapsto> concat (old @ new))" "af_path f3 = path" "af_pos f3 = Some 0"
    "af_readable f3"
    using assms(1,5) written by (auto simp: file_open_def async_file_new_def mode_flags file_works_def Let_def)
  obtain f' where "read_all_lines (length (old @ new) + 1) V f3 fs3 = Some (Inr (old @ new), f')"
    using read_all_lines_whole [of f3 V "old @ new" 0 fs3 "concat (old @ new)" "length (old @ new) + 1"]
      reopened assms(1,2) by (auto simp: file_works_def)
  with opened written reopened show ?thesis by simp
qed

definition demo_file_env :: file_env where
  "demo_file_env =
     \<lparr> fe_canonicalize = \<lambda>p. Inr (''/real'' @ p), fe_current_dir = Inr ''/work'', fe_exists_error = \<lambda>_. None,
       fe_open_error = \<lambda>_. None, fe_write_error = \<lambda>_. None, fe_not_found = ''not found'', fe_read_only = ''bad file descriptor'',
       fe_decode_error = \<lambda>_. None \<rparr>"

lemma appended_lines_read_back_witness:
  "\<exists>r1 f1 fs1 r2 fs2 r3 f3 fs3.
     file_open demo_file_env (async_file_new ''/x'' ''a'') [''/x'' \<mapsto> ''a'' @ [CHR 0x0A]] = (r1, f1, fs1) \<and>
     write_all demo_file_env f1 [''b'' @ [CHR 0x0A]] fs1 = (r2, fs2) \<and>
     file_open demo_file_env (async_file_new ''/x'' ''r'') fs2 = (r3, f3, fs3) \<and>
     map_option fst (read_all_lines 3 demo_file_env f3 fs3) = Some (Inr [''a'' @ [CHR 0x0A], ''b'' @ [CHR 0x0A]])"
proof -
  obtain r1 f1 fs1 where 1: "file_open demo_file_env (async_file_new ''/x'' ''a'')
      (Map.empty(''/x'' \<mapsto> concat [''a'' @ [CHR 0x0A]])) = (r1, f1, fs1)" using prod_cases3 by blast
  obtain r2 fs2 where 2: "write_all demo_file_env f1 [''b'' @ [CHR 0x0A]] fs1 = (r2, fs2)" by fastforce
  obtain r3 f3 fs3 where 3: "file_open demo_file_env (async_file_new ''/x'' ''r'') fs2 = (r3, f3, fs3)"
    using prod_cases3 by blast
  have "whole_line (''a'' @ [CHR 0x0A])" "whole_line (''b'' @ [CHR 0x0A])" by (auto simp: whole_line_def)
  then show ?thesis
    using appended_lines_read_back [OF _ _ 1 2 3] 1 2 3
    by (simp add: file_works_def demo_file_env_def numeral_3_eq_3) blast
qed

text \<open>Every read of a file returns: each line moves the place forward.\<close>

lemma read_all_lines_returns:
  assumes "af_readable f"
  shows "af_pos f = Some pos \<Longrightarrow> length (case fs (af_path f) of Some c \<Rightarrow> c | None \<Rightarrow> []) - pos < n \<Longrightarrow>
    read_all_lines n V f fs \<noteq> None"
  using assms
proof (induction n arbitrary: f pos)
  case 0
  then show ?case by simp
next
  case (Suc n)
  define c where "c = (case fs (af_path f) of Some c \<Rightarrow> c | None \<Rightarrow> [])"
  define l where "l = line_of (drop pos c)"
  define f1 where "f1 = f\<lparr>af_pos := Some (pos + length l)\<rparr>"
  have step: "next_line V f fs = (case fe_decode_error V l of
      Some err \<Rightarrow> (Inl (SessionE (''readline failed: '' @ err)), f1)
    | None \<Rightarrow> (Inr (if l = [] then None else Some l), f1))"
    using Suc.prems by (simp add: next_line_def readline_def Let_def c_def [symmetric] l_def [symmetric]
        f1_def split: option.split)
  show ?case
  proof (cases "fe_decode_error V l = None \<and> l \<noteq> []")
    case False
    with step show ?thesis by (auto split: option.splits)
  next
    case True
    then have "0 < length l" by simp
    moreover have "pos < length c"
    proof (rule ccontr)
      assume "\<not> pos < length c"
      then have "l = []" by (simp add: l_def)
      with True show False by simp
    qed
    ultimately have "length c - (pos + length l) < n"
      using Suc.prems(2) unfolding c_def [symmetric] by linarith
    then have "read_all_lines n V f1 fs \<noteq> None"
      using Suc.IH [of f1 "pos + length l"] Suc.prems(3) by (simp add: f1_def c_def)
    with step True show ?thesis by auto
  qed
qed

section \<open>Confined targets\<close>

text \<open>
  What \<open>resolve_report_path\<close> and the constructor of the monitor compute: the name stays, its
  folder is replaced by the canonical one. The error is the text of the failing step.
\<close>

datatype path_error = BadName | NoFolder string | NoCurrentDir string

definition confine_path :: "file_env \<Rightarrow> string \<Rightarrow> path_error + string" where
  "confine_path V path =
     (case path_file_name path of
        None \<Rightarrow> Err BadName
      | Some name \<Rightarrow>
          (case path_parent path of
             Some parent \<Rightarrow>
               if parent = [] then
                 (case fe_current_dir V of
                    Inl err \<Rightarrow> Err (NoCurrentDir err)
                  | Inr cwd \<Rightarrow> Ok (path_join cwd name))
               else
                 (case fe_canonicalize V parent of
                    Inl err \<Rightarrow> Err (NoFolder err)
                  | Inr dir \<Rightarrow> Ok (path_join dir name))
           | None \<Rightarrow>
               (case fe_current_dir V of
                  Inl err \<Rightarrow> Err (NoCurrentDir err)
                | Inr cwd \<Rightarrow> Ok (path_join cwd name))))"

lemma path_components_no_slash: "c \<in> set (path_components p) \<Longrightarrow> CHR ''/'' \<notin> set c"
  using split_on_no_sep [of _ "CHR ''/''" p]
  by (auto simp: path_components_def Let_def split: if_splits)

lemma file_name_plain:
  assumes "path_file_name p = Some name"
  shows "CHR ''/'' \<notin> set name \<and> name \<noteq> [] \<and> name \<noteq> ''.'' \<and> name \<noteq> ''..''"
proof -
  from assms obtain r where r: "rev (path_components p) = name # r" and n: "name \<noteq> ''.''" "name \<noteq> ''..''"
    by (auto simp: path_file_name_def split: list.splits if_splits)
  from r have "name \<in> set (path_components p)" by (metis list.set_intros(1) set_rev)
  moreover have "[] \<notin> set (path_components p)" by (simp add: path_components_def Let_def)
  ultimately show ?thesis using n path_components_no_slash by metis
qed

text \<open>The confined path is a plain name directly inside a canonical folder or the working one.\<close>

lemma confine_path_inside:
  assumes "confine_path V path = Inr target"
  shows "\<exists>dir name. target = path_join dir name \<and> CHR ''/'' \<notin> set name \<and> name \<noteq> [] \<and>
    name \<noteq> ''.'' \<and> name \<noteq> ''..'' \<and>
    (fe_current_dir V = Inr dir \<or> (\<exists>parent. path_parent path = Some parent \<and> fe_canonicalize V parent = Inr dir))"
proof -
  from assms obtain name where name: "path_file_name path = Some name"
    by (auto simp: confine_path_def split: option.splits)
  with assms obtain dir where "target = path_join dir name"
    "fe_current_dir V = Inr dir \<or> (\<exists>parent. path_parent path = Some parent \<and> fe_canonicalize V parent = Inr dir)"
    by (auto simp: confine_path_def split: option.splits if_splits sum.splits)
  with file_name_plain [OF name] show ?thesis by blast
qed

end
