(* ===== verification/Session_Select.thy ===== *)
theory Session_Select
  imports Support_Files
begin

text \<open>
  Crate \<open>kirk-session\<close>, the choice of what is run: the filters on test names, the iterations of a
  suite, the forced parallelism, and the \<open>executed\<close> file of a previous run with what is restored
  from it. Functions on suites; the session composes them.
\<close>

section \<open>Selecting tests\<close>

text \<open>A compiled filter: \<open>Regex::new\<close> fails, or gives the predicate \<open>is_match\<close>.\<close>

type_synonym regex_new = "string \<Rightarrow> string + (string \<Rightarrow> bool)"

definition non_empty :: "string option \<Rightarrow> string option" where
  "non_empty s = (case s of Some r \<Rightarrow> if r = [] then None else Some r | None \<Rightarrow> None)"

definition keep_tests :: "(test \<Rightarrow> bool) \<Rightarrow> suite \<Rightarrow> suite" where
  "keep_tests P s = suite_new (s_name s) (filter P (s_tests s))"

definition filter_tests ::
  "regex_new \<Rightarrow> string option \<Rightarrow> bool \<Rightarrow> suite list \<Rightarrow> suite list result" where
  "filter_tests regex_new regex when_matching suites =
     (case non_empty regex of
        None \<Rightarrow> Ok suites
      | Some r \<Rightarrow>
          (case regex_new r of
             Inl err \<Rightarrow> Err (SessionE (''invalid test filter: '' @ err))
           | Inr is_match \<Rightarrow>
               Ok (map (keep_tests (\<lambda>t. is_match (t_name t) \<noteq> when_matching)) suites)))"

definition iterated_name :: "string \<Rightarrow> nat \<Rightarrow> string" where
  "iterated_name name i = name @ ''['' @ show_nat i @ '']''"

definition apply_iterate :: "suite list \<Rightarrow> nat \<Rightarrow> suite list" where
  "apply_iterate suites iterate =
     (if iterate \<le> 1 then suites
      else concat (map (\<lambda>s. map (\<lambda>i. suite_new (iterated_name (s_name s) i) (s_tests s)) [0..<iterate]) suites))"

text \<open>The \<open>executed\<close> file: one line per result, and the entries read back from its lines.\<close>

definition executed_line :: "string \<Rightarrow> string \<Rightarrow> string" where
  "executed_line suite_name test_name = suite_name @ ''::'' @ test_name @ [CHR 0x0A]"

definition executed_lines :: "suite_results list \<Rightarrow> string list" where
  "executed_lines results =
     concat (map (\<lambda>r. map (\<lambda>t. executed_line (s_name (sr_suite r)) (t_name (r_test t))) (sr_tests r)) results)"

definition executed_entry :: "string \<Rightarrow> (string \<times> string) option" where
  "executed_entry line =
     (case split_once ''::'' line of
        None \<Rightarrow> None
      | Some (suite, test) \<Rightarrow>
          if suite = [] \<or> trim_end test = [] then None else Some (suite, trim_end test))"

definition restored_entries :: "string list \<Rightarrow> (string \<times> string) list" where
  "restored_entries lines = List.map_filter executed_entry lines"

text \<open>
  The file is text: its lines are what \<open>next_line\<close> returns until the end, each with its newline, the
  last one perhaps without.
\<close>

function file_lines :: "string \<Rightarrow> string list" where
  "file_lines content =
     (if content = [] then [] else line_of content # file_lines (drop (length (line_of content)) content))"
  by pat_completeness auto
termination
proof (relation "measure length")
  fix content :: string
  assume "content \<noteq> []"
  then show "(drop (length (line_of content)) content, content) \<in> measure length" by (cases content) simp_all
qed simp

declare file_lines.simps [simp del]

definition restored_from :: "string \<Rightarrow> (string \<times> string) list" where
  "restored_from content = restored_entries (file_lines content)"

text \<open>\<open>restored.get(name)\<close>: the tests listed under a suite, \<open>None\<close> when there is none.\<close>

definition restored_get :: "(string \<times> string) list \<Rightarrow> string \<Rightarrow> string list option" where
  "restored_get restored name =
     (let done_tests = map snd (filter (\<lambda>(s, _). s = name) restored)
      in if done_tests = [] then None else Some done_tests)"

definition restore_suites :: "(string \<times> string) list \<Rightarrow> suite list \<Rightarrow> suite list" where
  "restore_suites restored suites =
     map (\<lambda>s. case restored_get restored (s_name s) of
                None \<Rightarrow> s
              | Some done_tests \<Rightarrow> keep_tests (\<lambda>t. t_name t \<notin> set done_tests) s) suites"

definition force_parallel_suite :: "suite \<Rightarrow> suite" where
  "force_parallel_suite s = suite_new (s_name s) (map force_parallel (s_tests s))"

definition count_tests :: "suite list \<Rightarrow> nat" where
  "count_tests suites = sum_list (map (\<lambda>s. length (s_tests s)) suites)"

section \<open>The executed file read back\<close>

text \<open>
  Names the file can carry: a suite without a colon, a test that does not end in blanks, and no
  newline in either.
\<close>

definition suite_name_ok :: "string \<Rightarrow> bool" where
  "suite_name_ok n \<longleftrightarrow> n \<noteq> [] \<and> CHR '':'' \<notin> set n \<and> CHR 0x0A \<notin> set n"

definition test_name_ok :: "string \<Rightarrow> bool" where
  "test_name_ok n \<longleftrightarrow> n \<noteq> [] \<and> ws_suffix n = 0 \<and> CHR 0x0A \<notin> set n"

definition results_named :: "suite_results list \<Rightarrow> bool" where
  "results_named rs \<longleftrightarrow>
     list_all (\<lambda>r. suite_name_ok (s_name (sr_suite r)) \<and>
       list_all (\<lambda>t. test_name_ok (t_name (r_test t))) (sr_tests r)) rs"

definition executed_pairs :: "suite_results list \<Rightarrow> (string \<times> string) list" where
  "executed_pairs rs = concat (map (\<lambda>r. map (\<lambda>t. (s_name (sr_suite r), t_name (r_test t))) (sr_tests r)) rs)"

lemma split_once_line:
  assumes "CHR '':'' \<notin> set a"
  shows "split_once ''::'' (a @ ''::'' @ b) = Some (a, b)"
  using str_find_skip [OF assms, of "'':''" b] by (simp add: split_once_def)

lemma ws_suffix_newline: "ws_suffix (s @ [CHR 0x0A]) = 1"
  by (simp add: ws_suffix_def ws1_def)

lemma trim_end_newline: "ws_suffix n = 0 \<Longrightarrow> trim_end (n @ [CHR 0x0A]) = n"
  by (subst trim_end.simps) (simp add: ws_suffix_newline trim_end_id)

lemma executed_entry_line:
  assumes "suite_name_ok a" and "test_name_ok n"
  shows "executed_entry (executed_line a n) = Some (a, n)"
  using assms split_once_line [of a "n @ [CHR 0x0A]"]
  by (simp add: executed_entry_def executed_line_def suite_name_ok_def test_name_ok_def trim_end_newline)

lemma map_filter_app: "List.map_filter f (xs @ ys) = List.map_filter f xs @ List.map_filter f ys"
  by (simp add: List.map_filter_def)

lemma restored_entries_executed:
  assumes "results_named rs"
  shows "restored_entries (executed_lines rs) = executed_pairs rs"
proof -
  have one: "List.map_filter executed_entry (map (\<lambda>t. executed_line a (t_name (r_test t))) ts)
      = map (\<lambda>t. (a, t_name (r_test t))) ts"
    if "suite_name_ok a" and "list_all (\<lambda>t. test_name_ok (t_name (r_test t))) ts" for a ts
    using that(2) by (induction ts) (simp_all add: List.map_filter_simps executed_entry_line that(1))
  show ?thesis
    using assms unfolding results_named_def
    by (induction rs)
      (auto simp: restored_entries_def executed_lines_def executed_pairs_def one
        List.map_filter_simps map_filter_app)
qed

text \<open>The file is its lines again, for lines that end with their only newline.\<close>

lemma file_lines_concat: "list_all whole_line ls \<Longrightarrow> file_lines (concat ls) = ls"
proof (induction ls)
  case Nil
  show ?case by (simp add: file_lines.simps)
next
  case (Cons l ls)
  then have "line_of (l @ concat ls) = l" and "l \<noteq> []" by (auto simp: line_of_whole whole_line_def)
  with Cons show ?case by (subst file_lines.simps) simp
qed

lemma executed_line_whole: "suite_name_ok a \<Longrightarrow> test_name_ok n \<Longrightarrow> whole_line (executed_line a n)"
  by (auto simp: executed_line_def whole_line_def suite_name_ok_def test_name_ok_def
      intro!: exI [of _ "a @ ''::'' @ n"])

lemma restored_from_executed:
  assumes "results_named rs"
  shows "restored_from (concat (executed_lines rs)) = executed_pairs rs"
proof -
  have "list_all whole_line (executed_lines rs)"
    using assms by (auto simp: results_named_def executed_lines_def list_all_iff intro!: executed_line_whole)
  then show ?thesis by (simp add: restored_from_def file_lines_concat restored_entries_executed [OF assms])
qed

text \<open>Reading an open file line by line, as the session does, gives these lines.\<close>

lemma read_all_lines_file_lines:
  assumes "fe_decode_error V = (\<lambda>_. None)"
  shows "af_readable f \<Longrightarrow> af_pos f = Some pos \<Longrightarrow> fs (af_path f) = Some content \<Longrightarrow> length content - pos < n \<Longrightarrow>
    map_option fst (read_all_lines n V f fs) = Some (Ok (file_lines (drop pos content)))"
proof (induction n arbitrary: f pos)
  case 0
  then show ?case by simp
next
  case (Suc n)
  let ?line = "line_of (drop pos content)"
  show ?case
  proof (cases "drop pos content = []")
    case True
    with Suc.prems assms show ?thesis by (simp add: next_line_def readline_def file_lines.simps)
  next
    case False
    then have line: "?line \<noteq> []" by (rule line_of_nonempty)
    let ?f = "f\<lparr>af_pos := Some (pos + length ?line)\<rparr>"
    have step: "next_line V f fs = (Inr (Some ?line), ?f)"
      using Suc.prems line assms by (simp add: next_line_def readline_def Let_def)
    have less: "length content - (pos + length ?line) < n"
      using Suc.prems(4) line False by (cases ?line) auto
    have "map_option fst (read_all_lines n V ?f fs) = Some (Ok (file_lines (drop (pos + length ?line) content)))"
      by (rule Suc.IH) (use Suc.prems less in simp_all)
    then obtain g where "read_all_lines n V ?f fs = Some (Ok (file_lines (drop (pos + length ?line) content)), g)"
      by auto
    with step False show ?thesis
      by (subst file_lines.simps) (simp add: add.commute)
  qed
qed

lemma keep_all: "(\<And>t. t \<in> set (s_tests s) \<Longrightarrow> P t) \<Longrightarrow> keep_tests P s = s"
  by (simp add: keep_tests_def suite_new_def)

lemma keep_tests_cong:
  assumes "\<And>t. P t = Q t"
  shows "keep_tests P s = keep_tests Q s"
proof -
  have "P = Q" using assms by blast
  then show ?thesis by simp
qed

lemma restore_one:
  "(case restored_get es (s_name s) of None \<Rightarrow> s
    | Some done_tests \<Rightarrow> keep_tests (\<lambda>t. t_name t \<notin> set done_tests) s)
   = keep_tests (\<lambda>t. (s_name s, t_name t) \<notin> set es) s"
proof (cases "\<exists>n. (s_name s, n) \<in> set es")
  case False
  then have "filter (\<lambda>(a, _). a = s_name s) es = []" by (auto simp: filter_empty_conv)
  with False show ?thesis by (simp add: restored_get_def keep_all)
next
  case True
  then have "filter (\<lambda>(a, _). a = s_name s) es \<noteq> []" by (auto simp: filter_empty_conv)
  then show ?thesis
    by (auto simp: restored_get_def Let_def image_iff intro!: keep_tests_cong)
qed

text \<open>
  A later session given the \<open>executed\<close> file of a run skips exactly the tests that run
  has a result for: a test stays in its suite unless the run recorded a test of that name in a
  suite of that name; names, order and suites are kept.
\<close>

theorem restore_skips_what_was_executed:
  assumes "results_named rs"
  shows "restore_suites (restored_entries (executed_lines rs)) suites =
    map (\<lambda>s. keep_tests (\<lambda>t. (s_name s, t_name t) \<notin> set (executed_pairs rs)) s) suites"
  using assms by (simp add: restore_suites_def restore_one restored_entries_executed)

definition demo_case :: "string \<Rightarrow> test" where
  "demo_case name = \<lparr> t_name = name, t_command = ''true'', t_cwd = None, t_env = Map.empty,
     t_args = [], t_parallelizable = False \<rparr>"

definition demo_done :: "string \<Rightarrow> string list \<Rightarrow> suite_results" where
  "demo_done suite names =
     with_tests (map (\<lambda>n. test_results_new (demo_case n)) names) (suite_results_new (suite_new suite (map demo_case names)))"

lemma restore_skips_what_was_executed_witness:
  "map (\<lambda>s. map t_name (s_tests s))
     (restore_suites (restored_entries (executed_lines [demo_done ''a'' [''x'']]))
       [suite_new ''a'' [demo_case ''x'', demo_case ''y''], suite_new ''b'' [demo_case ''x'']])
   = [[''y''], [''x'']]"
proof -
  have "results_named [demo_done ''a'' [''x'']]"
    by (simp add: results_named_def demo_done_def demo_case_def suite_result_defs result_defs
        suite_name_ok_def test_name_ok_def ws_suffix_def ws1_def)
  from restore_skips_what_was_executed [OF this] show ?thesis
    by (simp add: executed_pairs_def demo_done_def demo_case_def suite_result_defs result_defs keep_tests_def)
qed

section \<open>Iterations\<close>

lemma append_last_sep:
  assumes "c \<notin> set x" and "c \<notin> set y"
  shows "a @ c # x = b @ c # y \<longleftrightarrow> a = b \<and> x = y"
proof (induction a arbitrary: b)
  case Nil
  then show ?case using assms by (cases b) auto
next
  case (Cons z a)
  show ?case
  proof (cases b)
    case Nil
    have "z # a @ c # x \<noteq> c # y"
    proof
      assume "z # a @ c # x = c # y"
      then have "c \<in> set y" by (auto simp del: set_append) (metis in_set_conv_decomp)
      with assms(2) show False by simp
    qed
    with Nil show ?thesis by simp
  next
    case (Cons w b')
    with Cons.IH [of b'] show ?thesis by simp
  qed
qed

lemma show_nat_no_bracket: "CHR ''['' \<notin> set (show_nat n @ '']'')"
proof
  assume "CHR ''['' \<in> set (show_nat n @ '']'')"
  then have "is_digit CHR ''[''" using show_nat_digits [of n] by (auto simp: list_all_iff)
  then show False by (simp add: is_digit_def)
qed

lemma iterated_name_inj: "iterated_name a i = iterated_name b j \<longleftrightarrow> a = b \<and> i = j"
  using append_last_sep [OF show_nat_no_bracket [of i] show_nat_no_bracket [of j], of a b]
  by (simp add: iterated_name_def show_nat_inj)

lemma apply_iterate_names:
  "1 < n \<Longrightarrow> map s_name (apply_iterate suites n) =
     concat (map (\<lambda>s. map (iterated_name (s_name s)) [0..<n]) suites)"
  by (simp add: apply_iterate_def map_concat comp_def)

lemma distinct_iterated:
  "distinct names \<Longrightarrow> distinct (concat (map (\<lambda>a. map (iterated_name a) [0..<n]) names))"
  by (induction names) (auto simp: distinct_map inj_on_def iterated_name_inj)

text \<open>
  Iterating keeps apart what it multiplies: suites with distinct names become
  \<open>n\<close> times as many suites, still with distinct names, each with the tests of the suite it came
  from.
\<close>

theorem iterations_stay_distinct:
  assumes "distinct (map s_name suites)" and "1 < n"
  shows "distinct (map s_name (apply_iterate suites n)) \<and>
    length (apply_iterate suites n) = n * length suites \<and>
    s_tests ` set (apply_iterate suites n) = s_tests ` set suites"
proof -
  have "distinct (map s_name (apply_iterate suites n))"
    using distinct_iterated [OF assms(1), of n] assms(2) by (simp add: apply_iterate_names comp_def)
  moreover have "length (apply_iterate suites n) = n * length suites"
    using assms(2) by (simp add: apply_iterate_def length_concat comp_def sum_list_triv)
  moreover have "s_tests ` set (apply_iterate suites n) = s_tests ` set suites"
    using assms(2) using \<open>1 < n\<close> by (force simp: apply_iterate_def image_iff)
  ultimately show ?thesis by blast
qed

lemma iterations_stay_distinct_witness:
  "distinct (map s_name (apply_iterate [suite_new ''a'' [], suite_new ''b'' []] 3)) \<and>
   length (apply_iterate [suite_new ''a'' [], suite_new ''b'' []] 3) = 6"
  using iterations_stay_distinct [of "[suite_new ''a'' [], suite_new ''b'' []]" 3] by simp

lemma restore_other_names:
  assumes "\<And>s e. s \<in> set suites \<Longrightarrow> e \<in> set es \<Longrightarrow> fst e \<noteq> s_name s"
  shows "restore_suites es suites = suites"
proof -
  have "keep_tests (\<lambda>t. (s_name s, t_name t) \<notin> set es) s = s" if "s \<in> set suites" for s
    by (rule keep_all) (use assms that in force)
  then show ?thesis by (simp add: restore_suites_def restore_one map_idI)
qed

text \<open>
  An iterated run cannot be restored: its \<open>executed\<close> file names the suites of the
  iterations, and restoring compares them with the names before iterating, so every suite keeps
  all its tests whatever was run.
\<close>

theorem iterated_run_is_not_restored:
  assumes "results_named rs" and "1 < n" and "sr_suite ` set rs \<subseteq> set (apply_iterate suites n)"
    and "\<forall>s \<in> set suites. \<forall>s' \<in> set suites. \<forall>i. s_name s \<noteq> iterated_name (s_name s') i"
  shows "restore_suites (restored_entries (executed_lines rs)) suites = suites"
proof -
  have "fst e \<noteq> s_name s" if "s \<in> set suites" and "e \<in> set (executed_pairs rs)" for s e
  proof -
    from that(2) obtain r where "r \<in> set rs" and e: "fst e = s_name (sr_suite r)"
      by (auto simp: executed_pairs_def)
    with assms(3) have "s_name (sr_suite r) \<in> set (map s_name (apply_iterate suites n))" by auto
    with assms(2,4) that(1) e show ?thesis unfolding apply_iterate_names [OF assms(2)] by auto
  qed
  then show ?thesis
    unfolding restored_entries_executed [OF assms(1)] by (rule restore_other_names)
qed

lemma iterated_run_is_not_restored_witness:
  "restore_suites (restored_entries (executed_lines [demo_done ''a[0]'' [''x'']]))
     [suite_new ''a'' [demo_case ''x'']] = [suite_new ''a'' [demo_case ''x'']]"
proof (rule iterated_run_is_not_restored [where n = 2])
  have show_zero: "show_nat 0 = ''0''" by code_simp
  show "results_named [demo_done ''a[0]'' [''x'']]"
    by (simp add: results_named_def demo_done_def demo_case_def suite_result_defs result_defs
        suite_name_ok_def test_name_ok_def ws_suffix_def ws1_def)
  show "sr_suite ` set [demo_done ''a[0]'' [''x'']] \<subseteq> set (apply_iterate [suite_new ''a'' [demo_case ''x'']] 2)"
    using show_zero by (simp add: demo_done_def suite_result_defs apply_iterate_def iterated_name_def numeral_2_eq_2)
qed (auto simp: iterated_name_def)

end
