(* ===== verification/Session.thy ===== *)
theory Session
  imports Suite_Sched Ltp Session_Select "HOL-Library.Multiset"
begin

text \<open>
  Crate \<open>kirk-session\<close>: the session drives the suite scheduler over the selected suites and
  records, exports and cleans up. What the
  session asks of the SUT, the framework and the file system is a record of actions; loops that
  may not end take fuel, with \<open>None\<close> for running out of it.
\<close>

section \<open>The session\<close>

record run_options =
  op_command :: "string option"
  op_suites :: "string list"
  op_pattern :: "string option"
  op_skip_tests :: "string option"
  op_report_path :: "string option"
  op_restore_path :: "string option"
  op_suite_iterate :: nat
  op_randomize :: bool
  op_runtime :: f64
  op_fault_prob :: u32
  op_fault_interval :: u32
  op_dry_run :: bool

text \<open>
  \<open>sx_executed_text\<close> is the text of a previous \<open>executed\<close> file: \<open>None\<close> when the folder does
  not resolve or has no such file, an error when it cannot be opened, read or decoded.
\<close>

record 'w session_env =
  sx_env :: "'w sched_env"
  sx_cfg :: "'w suite_cfg"
  sx_exec_timeout :: f64
  sx_force_parallel :: bool
  sx_fuel :: nat
  sx_tmpdir :: string
  sx_start :: "(unit result, 'w) action"
  sx_stop :: "(unit result, 'w) action"
  sx_is_running :: "(bool result, 'w) action"
  sx_parallel :: bool
  sx_root :: "(bool result, 'w) action"
  sx_fault_enabled :: "(bool result, 'w) action"
  sx_setup_fault :: "u32 \<Rightarrow> u32 \<Rightarrow> (unit result, 'w) action"
  sx_run_command :: "string \<Rightarrow> string option \<Rightarrow> str_map \<Rightarrow> (cmd_result option result, 'w) action"
  sx_find_suite :: "string \<Rightarrow> (suite result, 'w) action"
  sx_find_command :: "string \<Rightarrow> (test result, 'w) action"
  sx_executed_text :: "string \<Rightarrow> (string option result, 'w) action"
  sx_open_executed :: "(bool, 'w) action"
  sx_write_executed :: "string \<Rightarrow> (bool, 'w) action"
  sx_save_file :: "suite_results list \<Rightarrow> string \<Rightarrow> (unit result, 'w) action"
  sx_regex_new :: regex_new
  sx_shuffle :: "'w \<Rightarrow> suite list \<Rightarrow> suite list"
  sx_debug :: "string \<Rightarrow> string"
  sx_stop_flag :: "'w \<Rightarrow> bool"
  sx_set_stop_flag :: "bool \<Rightarrow> 'w \<Rightarrow> 'w"

record 'w session =
  se_suites :: "'w suite_sched"
  se_results :: "suite_results list"

definition session_new :: "'w \<Rightarrow> 'w session" where
  "session_new w = \<lparr> se_suites = suite_sched_new w, se_results = [] \<rparr>"

record session_config =
  sg_exec_timeout :: f64
  sg_suite_timeout :: f64
  sg_workers :: nat
  sg_force_parallel :: bool

definition session_config_default :: session_config where
  "session_config_default =
     \<lparr> sg_exec_timeout = F64_Fin 3600, sg_suite_timeout = F64_Fin 3600, sg_workers = 1,
       sg_force_parallel = False \<rparr>"

text \<open>What \<open>Session::new\<close> makes of a configuration; running tests in parallel is the task pool's.\<close>

definition configured_session ::
  "session_config \<Rightarrow> (test list \<Rightarrow> (unit result, 'w sched) action) \<Rightarrow> rounding \<Rightarrow> 'w session_env \<Rightarrow> 'w session_env" where
  "configured_session config par rnd X =
     X\<lparr>sx_cfg := suite_cfg_new (sg_suite_timeout config) (sg_exec_timeout config) (sg_workers config) par rnd,
       sx_exec_timeout := sg_exec_timeout config, sx_force_parallel := sg_force_parallel config\<rparr>"

definition on_suites :: "('a, 'w suite_sched) action \<Rightarrow> ('a, 'w session) action" where
  "on_suites a = on_part se_suites (\<lambda>p s. s\<lparr>se_suites := p\<rparr>) a"

definition on_env :: "('a, 'w) action \<Rightarrow> ('a, 'w session) action" where
  "on_env a = on_suites (on_inner (on_world a))"

definition notify :: "string \<Rightarrow> event_payload \<Rightarrow> (unit, 'w session) action" where
  "notify name payload = on_suites (on_inner (fire_event name payload))"

definition world_of :: "'w session \<Rightarrow> 'w" where
  "world_of s = sc_world (su_inner (se_suites s))"

definition session_stopping :: "'w session_env \<Rightarrow> (bool, 'w session) action" where
  "session_stopping X = get (\<lambda>s. sx_stop_flag X (world_of s))"

text \<open>Sequencing fallible actions: the \<open>?\<close> operator, alone and under fuel.\<close>

definition try_bind ::
  "('a result, 's) action \<Rightarrow> ('a \<Rightarrow> ('b result, 's) action) \<Rightarrow> ('b result, 's) action" where
  "try_bind a k = bind a (\<lambda>r. case r of Inl e \<Rightarrow> pure (Err e) | Inr x \<Rightarrow> k x)"

definition start_sut :: "'w session_env \<Rightarrow> (unit result, 'w session) action" where
  "start_sut X =
     bind (notify ''sut_start'' (P_Text (ss_name (sx_env X)))) (\<lambda>_. on_env (sx_start X))"

definition stop_sut :: "'w session_env \<Rightarrow> (unit result, 'w session) action" where
  "stop_sut X =
     try_bind (on_env (sx_is_running X)) (\<lambda>running.
       if \<not> running then pure (Ok ())
       else bind (notify ''sut_stop'' (P_Text (ss_name (sx_env X)))) (\<lambda>_. on_env (sx_stop X)))"

fun find_suites :: "'w session_env \<Rightarrow> string list \<Rightarrow> (suite list result, 'w session) action" where
  "find_suites X [] = pure (Ok [])"
| "find_suites X (name # names) =
     try_bind (on_env (sx_find_suite X name)) (\<lambda>s.
     try_bind (find_suites X names) (\<lambda>ss. pure (Ok (s # ss))))"

definition get_suites_objects :: "'w session_env \<Rightarrow> string list \<Rightarrow> (suite list result, 'w session) action" where
  "get_suites_objects X names =
     (if names = [] then pure (Err (FrameworkE ''can't find suites: []'')) else find_suites X names)"

definition restore_tests ::
  "'w session_env \<Rightarrow> string option \<Rightarrow> suite list \<Rightarrow> (suite list result, 'w session) action" where
  "restore_tests X restore_path suites =
     (case non_empty restore_path of
        None \<Rightarrow> pure (Ok suites)
      | Some path \<Rightarrow>
          try_bind (on_env (sx_executed_text X path)) (\<lambda>file.
            let restored = (case file of None \<Rightarrow> [] | Some content \<Rightarrow> restored_from content)
            in if restored = [] then pure (Ok suites)
               else bind (notify ''session_restore'' (P_Text path))
                      (\<lambda>_. pure (Ok (restore_suites restored suites)))))"

definition select_suites :: "'w session_env \<Rightarrow> run_options \<Rightarrow> suite list \<Rightarrow> suite list result" where
  "select_suites X opts suites =
     and_then (filter_tests (sx_regex_new X) (op_pattern opts) False suites) (\<lambda>s1.
     and_then (filter_tests (sx_regex_new X) (op_skip_tests opts) True s1) (\<lambda>s2.
       if count_tests s2 = 0 then Err (SessionE ''no tests selected'')
       else Ok (if sx_force_parallel X then map force_parallel_suite s2 else s2)))"

definition read_suites :: "'w session_env \<Rightarrow> run_options \<Rightarrow> (suite list result, 'w session) action" where
  "read_suites X opts =
     try_bind (get_suites_objects X (op_suites opts)) (\<lambda>suites.
     try_bind (restore_tests X (op_restore_path opts) suites) (\<lambda>suites.
       pure (select_suites X opts suites)))"

definition exec_command_timeout :: "'w session_env \<Rightarrow> string \<Rightarrow> kirk_error" where
  "exec_command_timeout X command = SessionE (''command timeout: '' @ sx_debug X command)"

definition exec_session_command :: "'w session_env \<Rightarrow> string \<Rightarrow> (unit result, 'w session) action" where
  "exec_session_command X command =
     bind (session_stopping X) (\<lambda>stopping. if stopping then pure (Ok ()) else
     bind (notify ''run_cmd_start'' (P_Text command)) (\<lambda>_.
     try_bind (on_env (sx_find_command X command)) (\<lambda>test.
       let full = full_command test
       in bind (limited (sx_exec_timeout X) (on_env (sx_run_command X full (t_cwd test) (t_env test)))) (\<lambda>r.
            case r of
              None \<Rightarrow> pure (Err (exec_command_timeout X command))
            | Some (Inl e) \<Rightarrow> pure (Err e)
            | Some (Inr None) \<Rightarrow> pure (Err (SessionE (''can't execute command '' @ quoted full)))
            | Some (Inr (Some row)) \<Rightarrow>
                bind (notify ''run_cmd_stop'' (P_RunCmdStop command (cr_stdout row) (cr_returncode row)))
                  (\<lambda>_. pure (Ok ()))))))"

definition fault_warning ::
  "'w session_env \<Rightarrow> u32 \<Rightarrow> u32 \<Rightarrow> (string option, 'w session) action" where
  "fault_warning X prob interval =
     bind (on_env (sx_root X)) (\<lambda>root.
       case root of
         Inl _ \<Rightarrow> pure None
       | Inr False \<Rightarrow>
           pure (if prob \<noteq> 0 then Some ''run as root to use kernel fault injection'' else None)
       | Inr True \<Rightarrow>
           bind (on_env (sx_fault_enabled X)) (\<lambda>enabled.
             case enabled of
               Inr True \<Rightarrow>
                 bind (on_env (sx_setup_fault X prob interval)) (\<lambda>r.
                   pure (if is_ok r then None else Some ''can't setup kernel fault injection''))
             | _ \<Rightarrow>
                 pure (if prob \<noteq> 0
                       then Some ''fault injection is not enabled. running tests normally'' else None)))"

definition apply_fault_injection :: "'w session_env \<Rightarrow> u32 \<Rightarrow> u32 \<Rightarrow> (unit, 'w session) action" where
  "apply_fault_injection X prob interval =
     bind (fault_warning X prob interval) (\<lambda>warn.
       case warn of None \<Rightarrow> pure () | Some msg \<Rightarrow> notify ''session_warning'' (P_Text msg))"

text \<open>Writing stops at the first failure of a suite; the next suite is tried again.\<close>

fun write_lines :: "'w session_env \<Rightarrow> string list \<Rightarrow> (unit, 'w session) action" where
  "write_lines X [] = pure ()"
| "write_lines X (l # ls) =
     bind (on_env (sx_write_executed X l)) (\<lambda>ok. if ok then write_lines X ls else pure ())"

fun write_suites :: "'w session_env \<Rightarrow> suite_results list \<Rightarrow> (unit, 'w session) action" where
  "write_suites X [] = pure ()"
| "write_suites X (r # rs) =
     bind (write_lines X (executed_lines [r])) (\<lambda>_. write_suites X rs)"

definition append_executed :: "'w session_env \<Rightarrow> suite_results list \<Rightarrow> (unit, 'w session) action" where
  "append_executed X results =
     (if sx_tmpdir X = [] \<or> results = [] then pure ()
      else bind (on_env (sx_open_executed X)) (\<lambda>ok.
             if ok then write_suites X results else pure ()))"

definition schedule_once :: "'w session_env \<Rightarrow> suite list \<Rightarrow> (unit result option, 'w session) action" where
  "schedule_once X suites =
     bind (on_suites (schedule_suites (sx_fuel X) (sx_env X) (sx_cfg X) suites)) (\<lambda>outcome.
     bind (get (\<lambda>s. su_results (se_suites s))) (\<lambda>fresh.
     bind (upd (\<lambda>s. s\<lparr>se_results := se_results s @ fresh\<rparr>)) (\<lambda>_.
     bind (append_executed X fresh) (\<lambda>_. pure outcome))))"

fun schedule_infinite ::
  "nat \<Rightarrow> 'w session_env \<Rightarrow> suite list \<Rightarrow> nat \<Rightarrow> (unit result option, 'w session) action" where
  "schedule_infinite 0 X suites n = pure None"
| "schedule_infinite (Suc fuel) X suites n =
     bind (session_stopping X) (\<lambda>stopping. if stopping then pure (Some (Ok ())) else
     bind (schedule_once X (map (\<lambda>s. suite_new (iterated_name (s_name s) n) (s_tests s)) suites)) (\<lambda>r.
       case r of
         Some (Inr _) \<Rightarrow>
           bind (get (\<lambda>s. su_stopped (se_suites s))) (\<lambda>stopped.
             if stopped then pure (Some (Ok ())) else schedule_infinite fuel X suites (n + 1))
       | _ \<Rightarrow> pure r))"

text \<open>
  With a run time the outcome of the scheduling is discarded; \<open>limited\<close> is the timeout, which
  the guard has switched on.
\<close>

definition run_scheduler :: "'w session_env \<Rightarrow> suite list \<Rightarrow> f64 \<Rightarrow> (unit result option, 'w session) action" where
  "run_scheduler X suites runtime =
     (if timeout_on runtime then
        bind (limited runtime (schedule_infinite (sx_fuel X) X suites 1)) (\<lambda>r.
          if r = Some None then pure None
          else bind (on_suites (stop_suites (sx_env X))) (\<lambda>_. pure (Some (Ok ()))))
      else schedule_once X suites)"

definition inner_stop :: "'w session_env \<Rightarrow> (unit, 'w session) action" where
  "inner_stop X =
     bind (on_suites (stop_suites (sx_env X))) (\<lambda>_. bind (stop_sut X) (\<lambda>_. pure ()))"

definition session_stop :: "'w session_env \<Rightarrow> (unit, 'w session) action" where
  "session_stop X =
     bind (session_stopping X) (\<lambda>already_stopped.
     bind (on_env (upd (sx_set_stop_flag X True))) (\<lambda>_.
     bind (inner_stop X) (\<lambda>_.
     bind (do_when (\<not> already_stopped) (notify ''session_stopped'' P_None)) (\<lambda>_.
     on_env (upd (sx_set_stop_flag X False))))))"

definition announce_run :: "'w session_env \<Rightarrow> run_options \<Rightarrow> (unit, 'w session) action" where
  "announce_run X opts =
     bind (notify ''session_started'' (P_SessionStarted (length (op_suites opts)) (sx_tmpdir X))) (\<lambda>_.
     bind (do_when (\<not> sx_parallel X)
       (notify ''session_warning'' (P_Text ''SUT doesn't support parallel execution''))) (\<lambda>_.
     (case op_command opts of
        Some command \<Rightarrow>
          do_when (op_dry_run opts) (notify ''session_dry_run_command'' (P_Text command))
      | None \<Rightarrow> pure ())))"

definition prepare_run :: "'w session_env \<Rightarrow> run_options \<Rightarrow> (unit result, 'w session) action" where
  "prepare_run X opts =
     try_bind (if op_suites opts \<noteq> [] \<or> \<not> op_dry_run opts then start_sut X else pure (Ok ())) (\<lambda>_.
     if op_dry_run opts then pure (Ok ())
     else
       try_bind (case op_command opts of
                   Some command \<Rightarrow> exec_session_command X command | None \<Rightarrow> pure (Ok ())) (\<lambda>_.
       bind (do_when (op_fault_prob opts \<noteq> 0)
         (apply_fault_injection X (op_fault_prob opts) (op_fault_interval opts))) (\<lambda>_.
       pure (Ok ()))))"

definition run_selected :: "'w session_env \<Rightarrow> run_options \<Rightarrow> (unit result option, 'w session) action" where
  "run_selected X opts =
     (if op_suites opts = [] then pure (Some (Ok ()))
      else
        bind (read_suites X opts) (\<lambda>r.
          case r of
            Inl e \<Rightarrow> pure (Some (Err e))
          | Inr suites \<Rightarrow>
              bind (get (\<lambda>s. let it = apply_iterate suites (op_suite_iterate opts)
                             in if op_randomize opts then sx_shuffle X (world_of s) it else it)) (\<lambda>chosen.
                if op_dry_run opts then
                  bind (notify ''session_dry_run'' (P_Suites chosen)) (\<lambda>_. pure (Some (Ok ())))
                else run_scheduler X chosen (op_runtime opts))))"

definition run_inner :: "'w session_env \<Rightarrow> run_options \<Rightarrow> (unit result option, 'w session) action" where
  "run_inner X opts =
     bind (announce_run X opts) (\<lambda>_.
     bind (prepare_run X opts) (\<lambda>r.
       case r of Inl e \<Rightarrow> pure (Some (Err e)) | Inr _ \<Rightarrow> run_selected X opts))"

fun short_error :: "kirk_error \<Rightarrow> string" where
  "short_error (SessionE m) = error_display (SessionE m)"
| "short_error (SchedulerE m) = error_display (SchedulerE m)"
| "short_error (FrameworkE m) = error_display (FrameworkE m)"
| "short_error (CommunicationE m) = error_display (CommunicationE m)"
| "short_error (SutE m) = error_display (SutE m)"
| "short_error _ = ''session failed''"

definition export_targets :: "'w session_env \<Rightarrow> run_options \<Rightarrow> string list" where
  "export_targets X opts =
     (if sx_tmpdir X = [] then [] else [sx_tmpdir X @ ''/results.json'']) @
     (case non_empty (op_report_path opts) of Some report \<Rightarrow> [report] | None \<Rightarrow> [])"

fun export_all ::
  "'w session_env \<Rightarrow> suite_results list \<Rightarrow> unit result \<Rightarrow> string list \<Rightarrow> (unit result, 'w session) action" where
  "export_all X results outcome [] = pure outcome"
| "export_all X results outcome (target # targets) =
     bind (on_env (sx_save_file X results target)) (\<lambda>r.
       case r of
         Inl err \<Rightarrow> bind (notify ''session_error'' (P_Text (short_error err))) (\<lambda>_. pure (Err err))
       | Inr _ \<Rightarrow> export_all X results outcome targets)"

definition hand_over ::
  "'w session_env \<Rightarrow> run_options \<Rightarrow> unit result \<Rightarrow> (unit result, 'w session) action" where
  "hand_over X opts outcome =
     bind (get se_results) (\<lambda>results.
     bind (upd (\<lambda>s. s\<lparr>se_results := []\<rparr>)) (\<lambda>_.
     bind (if results = [] then pure outcome
           else export_all X results outcome (export_targets X opts)) (\<lambda>outcome.
     bind (inner_stop X) (\<lambda>_.
     bind (notify ''session_completed'' (P_SessionCompleted results)) (\<lambda>_.
     pure outcome)))))"

definition report_failure :: "'w session_env \<Rightarrow> unit result \<Rightarrow> (unit, 'w session) action" where
  "report_failure X outcome =
     bind (session_stopping X) (\<lambda>stopping.
       case outcome of
         Inl err \<Rightarrow> do_when (\<not> stopping) (notify ''session_error'' (P_Text (short_error err)))
       | Inr _ \<Rightarrow> pure ())"

definition finish_run ::
  "'w session_env \<Rightarrow> run_options \<Rightarrow> unit result \<Rightarrow> (unit result, 'w session) action" where
  "finish_run X opts outcome =
     bind (report_failure X outcome) (\<lambda>_.
     bind (do_when (op_fault_prob opts \<noteq> 0 \<and> \<not> op_dry_run opts) (apply_fault_injection X 0 1)) (\<lambda>_.
     hand_over X opts outcome))"

definition session_run :: "'w session_env \<Rightarrow> run_options \<Rightarrow> (unit result option, 'w session) action" where
  "session_run X opts =
     bind (run_inner X opts) (\<lambda>r.
       case r of
         None \<Rightarrow> pure None
       | Some outcome \<Rightarrow> bind (finish_run X opts outcome) (\<lambda>x. pure (Some x)))"

section \<open>Frames\<close>

lemma on_suites_sel [simp]:
  "fut_value (on_suites a s) = fut_value (a (se_suites s))"
  "se_suites (fut_done (on_suites a s)) = fut_done (a (se_suites s))"
  "se_results (fut_done (on_suites a s)) = se_results s"
  "se_results (fut_dropped (on_suites a s) t) = se_results s"
  "fut_time (on_suites a s) = fut_time (a (se_suites s))"
  by (simp_all add: on_suites_def)

definition events_of :: "'w session \<Rightarrow> (string \<times> event_payload) list" where
  "events_of s = sc_events (su_inner (se_suites s))"

lemma on_env_sel [simp]:
  "fut_value (on_env a s) = fut_value (a (world_of s))"
  "se_results (fut_done (on_env a s)) = se_results s"
  "events_of (fut_done (on_env a s)) = events_of s"
  "world_of (fut_done (on_env a s)) = fut_done (a (world_of s))"
  by (simp_all add: on_env_def events_of_def world_of_def)

lemma notify_sel [simp]:
  "se_results (fut_done (notify n p s)) = se_results s"
  "events_of (fut_done (notify n p s)) = events_of s @ [(n, p)]"
  "world_of (fut_done (notify n p s)) = world_of s"
  by (simp_all add: notify_def events_of_def world_of_def)

lemma session_stopping_sel [simp]:
  "fut_value (session_stopping X s) = sx_stop_flag X (world_of s)"
  "fut_done (session_stopping X s) = s"
  by (simp_all add: session_stopping_def)

lemma try_bind_sel:
  "fut_value (try_bind a k s) =
     (case fut_value (a s) of Inl e \<Rightarrow> Inl e | Inr x \<Rightarrow> fut_value (k x (fut_done (a s))))"
  "fut_done (try_bind a k s) =
     (case fut_value (a s) of Inl e \<Rightarrow> fut_done (a s) | Inr x \<Rightarrow> fut_done (k x (fut_done (a s))))"
  by (simp_all add: try_bind_def split: sum.split)

text \<open>Everything but the scheduling leaves the results collected so far alone.\<close>

definition same_results :: "('a, 'w session) action \<Rightarrow> bool" where
  "same_results a \<longleftrightarrow> (\<forall>rs. keeps (\<lambda>s. se_results s = rs) a)"

lemma same_results_done: "same_results a \<Longrightarrow> se_results (fut_done (a s)) = se_results s"
  by (auto simp: same_results_def keeps_def spec_def)

lemma same_results_intros [intro!]:
  "same_results (pure x)" "same_results (get f)"
  "same_results (on_suites c)" "same_results (on_env d)" "same_results (notify n p)"
  "same_results (session_stopping X)"
  unfolding same_results_def on_env_def notify_def session_stopping_def on_suites_def
  by (auto intro!: keeps_on_part)

lemma same_results_bind [intro!]:
  "same_results a \<Longrightarrow> (\<And>x. same_results (k x)) \<Longrightarrow> same_results (bind a k)"
  by (auto simp: same_results_def intro: keeps_bind)

lemma same_results_try [intro!]:
  "same_results a \<Longrightarrow> (\<And>x. same_results (k x)) \<Longrightarrow> same_results (try_bind a k)"
  unfolding try_bind_def by (auto split: sum.split)

lemma same_results_when [intro!]: "same_results a \<Longrightarrow> same_results (do_when b a)"
  by (auto simp: do_when_def)

lemma same_results_limited [intro!]: "same_results a \<Longrightarrow> same_results (limited t a)"
  by (auto simp: same_results_def intro: keeps_limited)

lemma same_results_start: "same_results (start_sut X)"
  by (auto simp: start_sut_def)

lemma same_results_stop: "same_results (stop_sut X)"
  by (auto simp: stop_sut_def)

lemma same_results_find: "same_results (find_suites X names)"
  by (induction names) auto

lemma same_results_read: "same_results (read_suites X opts)"
  unfolding read_suites_def get_suites_objects_def restore_tests_def Let_def
  by (auto simp: same_results_find split: option.split)

lemma same_results_exec: "same_results (exec_session_command X c)"
  unfolding exec_session_command_def Let_def
  by (auto split: option.split sum.split)

lemma same_results_fault: "same_results (apply_fault_injection X p i)"
  unfolding apply_fault_injection_def fault_warning_def
  by (auto split: option.split sum.split bool.split)

lemma same_results_write: "same_results (write_lines X ls)"
  by (induction ls) auto

lemma same_results_append: "same_results (append_executed X rs)"
proof -
  have "same_results (write_suites X rs)"
    by (induction rs) (auto simp: same_results_write)
  then show ?thesis by (auto simp: append_executed_def)
qed

lemma same_results_inner_stop: "same_results (inner_stop X)"
  by (auto simp: inner_stop_def same_results_stop)

lemma same_results_announce: "same_results (announce_run X opts)"
  by (auto simp: announce_run_def split: option.split)

lemma same_results_prepare: "same_results (prepare_run X opts)"
  unfolding prepare_run_def
  by (auto simp: same_results_start same_results_exec same_results_fault split: option.split)

lemma same_results_export: "same_results (export_all X rs outcome targets)"
  by (induction targets) (auto split: sum.split)

lemmas same_results_ops = same_results_start same_results_stop same_results_read same_results_exec
  same_results_fault same_results_append same_results_inner_stop same_results_announce
  same_results_prepare same_results_export

section \<open>What is fired\<close>

text \<open>The events an action fires, by name.\<close>

definition fires_only :: "string set \<Rightarrow> ('a, 'w session) action \<Rightarrow> bool" where
  "fires_only names a \<longleftrightarrow>
     (\<forall>s. \<exists>es. events_of (fut_done (a s)) = events_of s @ es \<and> fst ` set es \<subseteq> names)"

lemma fires_only_pure [intro!]: "fires_only names (pure x)" and
  fires_only_get [intro!]: "fires_only names (get f)" and
  fires_only_env [intro!]: "fires_only names (on_env d)" and
  fires_only_stopping [intro!]: "fires_only names (session_stopping X)"
  by (simp_all add: fires_only_def)

lemma fires_only_notify [intro!]: "n \<in> names \<Longrightarrow> fires_only names (notify n p)"
  by (simp add: fires_only_def)

lemma fires_only_bind [intro!]:
  assumes "fires_only names a" and "\<And>x. fires_only names (k x)"
  shows "fires_only names (bind a k)"
  unfolding fires_only_def
proof
  fix s
  obtain es where 1: "events_of (fut_done (a s)) = events_of s @ es" "fst ` set es \<subseteq> names"
    using assms(1) unfolding fires_only_def by blast
  obtain fs where "events_of (fut_done (k (fut_value (a s)) (fut_done (a s)))) =
      events_of (fut_done (a s)) @ fs" "fst ` set fs \<subseteq> names"
    using assms(2) unfolding fires_only_def by blast
  with 1 show "\<exists>es. events_of (fut_done (bind a k s)) = events_of s @ es \<and> fst ` set es \<subseteq> names"
    by (intro exI [of _ "es @ fs"]) auto
qed

lemma fires_only_try [intro!]:
  "fires_only names a \<Longrightarrow> (\<And>x. fires_only names (k x)) \<Longrightarrow> fires_only names (try_bind a k)"
  unfolding try_bind_def by (auto split: sum.split)

lemma fires_only_when [intro!]: "(b \<Longrightarrow> fires_only names a) \<Longrightarrow> fires_only names (do_when b a)"
  by (auto simp: do_when_def)

lemma fires_only_upd_results [intro!]: "fires_only names (upd (\<lambda>s. s\<lparr>se_results := rs\<rparr>))"
  by (simp add: fires_only_def events_of_def)

lemma fires_only_stop_suites [intro!]: "fires_only names (on_suites (stop_suites E))"
  by (simp add: fires_only_def events_of_def stop_suites_def stop_tests_def do_when_def stop_cnt_def)

text \<open>Everything but the scheduling leaves it to the suites to announce that they are completed.\<close>

abbreviation others :: "string set" where
  "others \<equiv> - {''suite_completed''}"

lemma others_stop_sut: "fires_only others (stop_sut X)"
  by (auto simp: stop_sut_def)

lemma others_inner_stop: "fires_only others (inner_stop X)"
  by (auto simp: inner_stop_def others_stop_sut)

lemma others_fault: "fires_only others (apply_fault_injection X p i)"
  unfolding apply_fault_injection_def fault_warning_def
  by (auto split: option.split sum.split bool.split)

lemma others_exec: "fires_only others (exec_session_command X c)"
proof -
  have lim: "fires_only others (limited d (on_env a))" for d :: f64 and a :: "('b, 'a) action"
    by (simp add: fires_only_def limited_def with_timeout_def Let_def)
      (simp add: on_env_def on_suites_def on_inner_def on_world_def events_of_def)
  show ?thesis
    unfolding exec_session_command_def Let_def
    by (auto intro!: lim split: option.split sum.split)
qed

lemma others_announce: "fires_only others (announce_run X opts)"
  by (auto simp: announce_run_def split: option.split)

lemma others_prepare: "fires_only others (prepare_run X opts)"
  unfolding prepare_run_def start_sut_def
  by (auto intro!: others_exec others_fault split: option.split)

lemma others_find: "fires_only others (find_suites X names)"
  by (induction names) auto

lemma others_read: "fires_only others (read_suites X opts)"
  unfolding read_suites_def get_suites_objects_def restore_tests_def Let_def
  by (auto intro!: others_find split: option.split)

lemma others_append: "fires_only others (append_executed X rs)"
proof -
  have "fires_only others (write_lines X ls)" for ls by (induction ls) auto
  then have "fires_only others (write_suites X rs)" by (induction rs) auto
  then show ?thesis by (auto simp: append_executed_def)
qed

lemma others_export: "fires_only others (export_all X rs outcome targets)"
  by (induction targets) (auto split: sum.split)

lemma others_report: "fires_only others (report_failure X outcome)"
  by (auto simp: report_failure_def split: sum.split)

text \<open>The suites announced as completed, and the entries of the session that tell of them.\<close>

definition suites_told :: "'w session \<Rightarrow> event_payload list" where
  "suites_told s = suite_events (se_suites s)"

lemma suites_told_events: "suites_told s = map snd (filter (\<lambda>(n, _). n = ''suite_completed'') (events_of s))"
  by (simp add: suites_told_def suite_events_def fired_def events_of_def)

lemma others_told:
  assumes "fires_only others a"
  shows "suites_told (fut_done (a s)) = suites_told s"
proof -
  obtain es where "events_of (fut_done (a s)) = events_of s @ es" "fst ` set es \<subseteq> others"
    using assms unfolding fires_only_def by blast
  then show ?thesis by (force simp: suites_told_events filter_empty_conv)
qed

lemma upd_results_told [simp]: "suites_told (s\<lparr>se_results := rs\<rparr>) = suites_told s"
  by (simp add: suites_told_def)

lemma schedule_once_told:
  assumes "cf_max_workers (sx_cfg X) \<le> 1" and "suites \<noteq> []"
  shows "\<exists>new ps. se_results (fut_done (schedule_once X suites s)) = se_results s @ new \<and>
    suites_told (fut_done (schedule_once X suites s)) = suites_told s @ ps \<and> suite_reports new ps"
proof -
  let ?s = "(se_suites s)\<lparr>su_results := []\<rparr>"
  obtain new ps where run:
    "su_results (fut_done (run_suites (sx_fuel X) (sx_env X) (sx_cfg X) suites ?s)) = new"
    "suite_events (fut_done (run_suites (sx_fuel X) (sx_env X) (sx_cfg X) suites ?s)) = suite_events (se_suites s) @ ps"
    "suite_reports new ps"
    using run_suites_reports [OF assms(1), of "sx_fuel X" "sx_env X" suites ?s]
    by (auto simp: suite_events_def)
  then show ?thesis
    using assms(2)
    by (intro exI [of _ new] exI [of _ ps])
      (simp add: schedule_once_def schedule_suites_def same_results_done [OF same_results_append]
        others_told [OF others_append], simp add: suites_told_def)
qed

text \<open>Entries and announcements grow together, or not at all.\<close>

definition told_alike :: "'w session \<Rightarrow> 'w session \<Rightarrow> bool" where
  "told_alike s s' \<longleftrightarrow> (\<exists>new ps. se_results s' = se_results s @ new \<and> suites_told s' = suites_told s @ ps \<and>
     suite_reports new ps)"

lemma told_alike_refl: "se_results s' = se_results s \<Longrightarrow> suites_told s' = suites_told s \<Longrightarrow> told_alike s s'"
  by (simp add: told_alike_def suite_reports_def)

lemma told_alike_after: "se_results s1 = se_results s \<Longrightarrow> suites_told s1 = suites_told s \<Longrightarrow>
    told_alike s1 s' \<Longrightarrow> told_alike s s'"
  by (simp add: told_alike_def)

section \<open>What is selected\<close>

text \<open>A filter that compiles, with \<open>None\<close> for no filter, and the tests two filters admit.\<close>

definition compiled :: "regex_new \<Rightarrow> string option \<Rightarrow> (string \<Rightarrow> bool) option result" where
  "compiled regex_new regex =
     (case non_empty regex of
        None \<Rightarrow> Ok None
      | Some r \<Rightarrow> (case regex_new r of
                    Inl err \<Rightarrow> Err (SessionE (''invalid test filter: '' @ err))
                  | Inr m \<Rightarrow> Ok (Some m)))"

definition admitted :: "(string \<Rightarrow> bool) option \<Rightarrow> (string \<Rightarrow> bool) option \<Rightarrow> test \<Rightarrow> bool" where
  "admitted only skip t \<longleftrightarrow>
     (case only of None \<Rightarrow> True | Some m \<Rightarrow> m (t_name t)) \<and>
     (case skip of None \<Rightarrow> True | Some m \<Rightarrow> \<not> m (t_name t))"

lemma keep_tests_keep [simp]:
  "keep_tests P (keep_tests Q s) = keep_tests (\<lambda>t. Q t \<and> P t) s"
  by (simp add: keep_tests_def)

lemma keep_tests_true [simp]: "keep_tests (\<lambda>t. True) s = s"
  by (simp add: keep_all)

lemma filter_tests_compiled:
  "filter_tests rn regex wm suites =
     (case compiled rn regex of
        Inl e \<Rightarrow> Inl e
      | Inr m \<Rightarrow> Inr (map (keep_tests (\<lambda>t. case m of None \<Rightarrow> True | Some p \<Rightarrow> p (t_name t) \<noteq> wm)) suites))"
  by (simp add: filter_tests_def compiled_def map_idI split: option.split sum.split)

lemma count_kept: "count_tests (map (keep_tests P) suites) = 0 \<longleftrightarrow> filter P (concat (map s_tests suites)) = []"
  by (induction suites) (auto simp: count_tests_def keep_tests_def)

text \<open>
  What a session selects from the suites it found: both filters must compile; each suite
  keeps, in order, its tests that the pattern matches and the skip filter does not; suites left
  empty stay, an empty selection is an error, and \<open>force_parallel\<close> marks the tests of what is left.
\<close>

theorem selection_is_what_filters_admit:
  "select_suites X opts suites =
     and_then (compiled (sx_regex_new X) (op_pattern opts)) (\<lambda>only.
     and_then (compiled (sx_regex_new X) (op_skip_tests opts)) (\<lambda>skip.
       if filter (admitted only skip) (concat (map s_tests suites)) = []
       then Err (SessionE ''no tests selected'')
       else Ok (map (\<lambda>s. suite_new (s_name s)
              (map (if sx_force_parallel X then force_parallel else id)
                (filter (admitted only skip) (s_tests s)))) suites)))"
proof -
  have both: "(\<lambda>t. (case m of None \<Rightarrow> True | Some p \<Rightarrow> p (t_name t) \<noteq> False) \<and>
      (case k of None \<Rightarrow> True | Some p \<Rightarrow> p (t_name t) \<noteq> True)) = admitted m k" for m k
    by (simp add: admitted_def fun_eq_iff split: option.split)
  have kept: "map (keep_tests (\<lambda>t. case k of None \<Rightarrow> True | Some p \<Rightarrow> p (t_name t) \<noteq> True))
      (map (keep_tests (\<lambda>t. case m of None \<Rightarrow> True | Some p \<Rightarrow> p (t_name t) \<noteq> False)) suites)
      = map (keep_tests (admitted m k)) suites" for m k
    using both [of m k] by (simp add: comp_def)
  have forced: "map force_parallel_suite (map (keep_tests P) suites) =
      map (\<lambda>s. suite_new (s_name s) (map force_parallel (filter P (s_tests s)))) suites" for P
    by (simp add: force_parallel_suite_def keep_tests_def)
  have plain: "map (keep_tests P) suites = map (\<lambda>s. suite_new (s_name s) (filter P (s_tests s))) suites" for P
    by (simp add: keep_tests_def)
  show ?thesis
  proof (cases "compiled (sx_regex_new X) (op_pattern opts)")
    case (Inl e)
    then show ?thesis by (simp add: select_suites_def filter_tests_compiled)
  next
    case only: (Inr m)
    show ?thesis
    proof (cases "compiled (sx_regex_new X) (op_skip_tests opts)")
      case (Inl e)
      with only show ?thesis by (simp add: select_suites_def filter_tests_compiled)
    next
      case (Inr k)
      with only have "select_suites X opts suites =
        (if count_tests (map (keep_tests (admitted m k)) suites) = 0 then Err (SessionE ''no tests selected'')
         else Ok (if sx_force_parallel X then map force_parallel_suite (map (keep_tests (admitted m k)) suites)
                  else map (keep_tests (admitted m k)) suites))"
        by (simp only: select_suites_def filter_tests_compiled only Inr kept sum.case and_then.simps)
      with only Inr show ?thesis
        unfolding forced count_kept by (simp add: plain)
    qed
  qed
qed

section \<open>A run returns and covers what it selected\<close>

definition same_tests :: "suite \<Rightarrow> suite \<Rightarrow> bool" where
  "same_tests a b \<longleftrightarrow> s_name a = s_name b \<and> mset (s_tests a) = mset (s_tests b)"

text \<open>
  The contract of the session's surroundings: a SUT and a scheduler that account for tests, with no
  stop requested; a framework whose suites have distinct test names, fewer than the fuel; a
  shuffle that permutes the tests of each suite.
\<close>

definition session_fair :: "'w session_env \<Rightarrow> bool" where
  "session_fair X \<longleftrightarrow> runs_unstopped (sx_env X) (sx_cfg X) \<and>
     (\<forall>name w su. fut_value (sx_find_suite X name w) = Inr su \<longrightarrow> suite_bounded (sx_fuel X) su) \<and>
     (\<forall>w ss. list_all2 same_tests ss (sx_shuffle X w ss))"

lemma bounded_keep: "suite_bounded n s \<Longrightarrow> suite_bounded n (keep_tests P s)"
  unfolding suite_bounded_def keep_tests_def
  by (auto simp: distinct_map_filter intro: le_less_trans [OF length_filter_le])

lemma bounded_force: "suite_bounded n (force_parallel_suite s) \<longleftrightarrow> suite_bounded n s"
  by (simp add: suite_bounded_def force_parallel_suite_def comp_def frame_simps)

lemma bounded_same: "same_tests a b \<Longrightarrow> suite_bounded n a \<Longrightarrow> suite_bounded n b"
proof -
  assume same: "same_tests a b" and a: "suite_bounded n a"
  from same have "mset (map t_name (s_tests a)) = mset (map t_name (s_tests b))"
    by (simp add: same_tests_def)
  then have "distinct (map t_name (s_tests a)) = distinct (map t_name (s_tests b))"
    by (rule mset_eq_imp_distinct_iff)
  moreover have "length (s_tests a) = length (s_tests b)"
    using same by (auto simp: same_tests_def dest: mset_eq_length)
  ultimately show ?thesis using a by (simp add: suite_bounded_def)
qed

lemma bounded_iterate:
  "list_all (suite_bounded n) suites \<Longrightarrow> list_all (suite_bounded n) (apply_iterate suites k)"
  by (auto simp: apply_iterate_def list_all_iff suite_bounded_def)

lemma bounded_restore:
  "list_all (suite_bounded n) suites \<Longrightarrow> list_all (suite_bounded n) (restore_suites es suites)"
  by (auto simp: restore_suites_def restore_one list_all_iff bounded_keep)

lemma bounded_filter:
  "filter_tests rn regex wm suites = Inr out \<Longrightarrow> list_all (suite_bounded n) suites \<Longrightarrow>
   list_all (suite_bounded n) out"
  by (auto simp: filter_tests_def list_all_iff bounded_keep split: option.splits sum.splits)

lemma bounded_select:
  assumes "select_suites X opts suites = Inr out" and "list_all (suite_bounded n) suites"
  shows "list_all (suite_bounded n) out"
proof -
  from assms(1) obtain s1 s2 where
    1: "filter_tests (sx_regex_new X) (op_pattern opts) False suites = Inr s1"
    and 2: "filter_tests (sx_regex_new X) (op_skip_tests opts) True s1 = Inr s2"
    and out: "out = (if sx_force_parallel X then map force_parallel_suite s2 else s2)"
    by (auto simp: select_suites_def and_then_Ok split: if_splits)
  have "list_all (suite_bounded n) s2"
    by (rule bounded_filter [OF 2 bounded_filter [OF 1 assms(2)]])
  then show ?thesis by (simp add: out list_all_iff bounded_force)
qed

lemma bounded_shuffle:
  "list_all2 same_tests xs ys \<Longrightarrow> list_all (suite_bounded n) xs \<Longrightarrow> list_all (suite_bounded n) ys"
  by (induction rule: list_all2_induct) (auto intro: bounded_same)

lemma find_suites_bounded:
  assumes "session_fair X"
  shows "fut_value (find_suites X names s) = Inr found \<Longrightarrow> list_all (suite_bounded (sx_fuel X)) found"
proof (induction names arbitrary: s found)
  case Nil
  then show ?case by simp
next
  case (Cons name names)
  have one: "fut_value (sx_find_suite X name w) = Inr su \<Longrightarrow> suite_bounded (sx_fuel X) su" for w su
    using assms by (simp add: session_fair_def)
  from Cons.prems Cons.IH show ?case
    by (auto simp: try_bind_sel split: sum.splits dest: one)
qed

text \<open>What the framework answered for the names asked for, less what a restored session executed.\<close>

definition looked_up :: "'w session_env \<Rightarrow> run_options \<Rightarrow> suite list \<Rightarrow> bool" where
  "looked_up X opts found \<longleftrightarrow>
     (\<exists>answers. list_all2 (\<lambda>name su. \<exists>w. fut_value (sx_find_suite X name w) = Inr su) (op_suites opts) answers \<and>
        (found = answers \<or>
         (\<exists>path w content. non_empty (op_restore_path opts) = Some path \<and>
            fut_value (sx_executed_text X path w) = Inr (Some content) \<and>
            found = restore_suites (restored_from content) answers)))"

lemma find_suites_value:
  "fut_value (find_suites X names s) = Inr found \<Longrightarrow>
   list_all2 (\<lambda>name su. \<exists>w. fut_value (sx_find_suite X name w) = Inr su) names found"
proof (induction names arbitrary: s found)
  case (Cons name names)
  from Cons.prems Cons.IH show ?case by (auto simp: try_bind_sel split: sum.splits)
qed simp

lemma restore_tests_value:
  assumes "fut_value (restore_tests X p suites s) = Inr out"
  shows "out = suites \<or> (\<exists>path w content. non_empty p = Some path \<and>
     fut_value (sx_executed_text X path w) = Inr (Some content) \<and> out = restore_suites (restored_from content) suites)"
  using assms
  by (auto simp: restore_tests_def try_bind_sel Let_def split: option.splits sum.splits if_splits)

text \<open>What \<open>read_suites\<close> returns: suites of the framework, some tests restored away, then selected.\<close>

lemma read_suites_value:
  assumes "session_fair X" and "fut_value (read_suites X opts s) = Inr out"
  shows "(\<exists>found. looked_up X opts found \<and> select_suites X opts found = Inr out) \<and>
    list_all (suite_bounded (sx_fuel X)) out"
proof -
  from assms(2) obtain found where found: "fut_value (get_suites_objects X (op_suites opts) s) = Inr found"
    by (cases "fut_value (get_suites_objects X (op_suites opts) s)") (auto simp: read_suites_def try_bind_sel)
  define s1 where "s1 = fut_done (get_suites_objects X (op_suites opts) s)"
  from assms(2) found obtain kept where
    kept: "fut_value (restore_tests X (op_restore_path opts) found s1) = Inr kept"
    and sel: "select_suites X opts kept = Inr out"
    by (cases "fut_value (restore_tests X (op_restore_path opts) found s1)")
      (auto simp: read_suites_def try_bind_sel s1_def)
  have all: "fut_value (find_suites X (op_suites opts) s) = Inr found"
    using found by (auto simp: get_suites_objects_def split: if_splits)
  then have "list_all (suite_bounded (sx_fuel X)) kept"
    using find_suites_bounded [OF assms(1)] restore_tests_value [OF kept] by (auto intro: bounded_restore)
  moreover have "looked_up X opts kept"
    using find_suites_value [OF all] restore_tests_value [OF kept] unfolding looked_up_def by blast
  ultimately show ?thesis using bounded_select [OF sel] sel by blast
qed

lemma schedule_once_sel:
  "fut_value (schedule_once X suites s) =
     fut_value (schedule_suites (sx_fuel X) (sx_env X) (sx_cfg X) suites (se_suites s))"
  "se_results (fut_done (schedule_once X suites s)) = se_results s @
     su_results (fut_done (schedule_suites (sx_fuel X) (sx_env X) (sx_cfg X) suites (se_suites s)))"
  by (simp_all add: schedule_once_def same_results_done [OF same_results_append])

lemma schedule_once_covers:
  assumes "session_fair X" and "list_all (suite_bounded (sx_fuel X)) suites"
  shows "\<exists>x. fut_value (schedule_once X suites s) = Some x \<and>
    (is_ok x \<longrightarrow> (\<exists>new. se_results (fut_done (schedule_once X suites s)) = se_results s @ new \<and>
      list_all2 covers new suites))"
  using schedule_suites_covers [of "sx_env X" "sx_cfg X" "sx_fuel X" suites "se_suites s"] assms
  unfolding schedule_once_sel by (auto simp: session_fair_def)

text \<open>What a successful run was asked to cover.\<close>

definition chosen_by :: "'w session_env \<Rightarrow> run_options \<Rightarrow> suite list \<Rightarrow> bool" where
  "chosen_by X opts chosen \<longleftrightarrow>
     (\<exists>found selected. looked_up X opts found \<and> select_suites X opts found = Inr selected \<and>
       list_all2 same_tests (apply_iterate selected (op_suite_iterate opts)) chosen)"

lemma same_tests_refl: "list_all2 same_tests ss ss"
  by (simp add: list_all2_refl same_tests_def)

lemma run_selected_covers:
  assumes "session_fair X" and "\<not> timeout_on (op_runtime opts)"
  shows "\<exists>x. fut_value (run_selected X opts s) = Some x \<and>
    (is_ok x \<and> \<not> op_dry_run opts \<and> op_suites opts \<noteq> [] \<longrightarrow>
      (\<exists>chosen new. chosen_by X opts chosen \<and> list_all2 covers new chosen \<and>
        se_results (fut_done (run_selected X opts s)) = se_results s @ new))"
proof (cases "op_suites opts = []")
  case True
  then show ?thesis by (simp add: run_selected_def)
next
  case False
  define s1 where "s1 = fut_done (read_suites X opts s)"
  have s1: "se_results s1 = se_results s"
    by (simp add: s1_def same_results_done [OF same_results_read])
  show ?thesis
  proof (cases "fut_value (read_suites X opts s)")
    case (Inl e)
    with False show ?thesis by (simp add: run_selected_def)
  next
    case (Inr suites)
    define chosen where "chosen = (if op_randomize opts
      then sx_shuffle X (world_of s1) (apply_iterate suites (op_suite_iterate opts))
      else apply_iterate suites (op_suite_iterate opts))"
    from read_suites_value [OF assms(1) Inr] obtain found where
      sel: "looked_up X opts found" "select_suites X opts found = Inr suites"
      and b: "list_all (suite_bounded (sx_fuel X)) suites" by blast
    have same: "list_all2 same_tests (apply_iterate suites (op_suite_iterate opts)) chosen"
      using assms(1) by (simp add: chosen_def session_fair_def same_tests_refl)
    have "list_all (suite_bounded (sx_fuel X)) chosen"
      by (rule bounded_shuffle [OF same bounded_iterate [OF b]])
    from schedule_once_covers [OF assms(1) this, of s1] obtain x where
      x: "fut_value (schedule_once X chosen s1) = Some x" and
      new: "is_ok x \<longrightarrow> (\<exists>new. se_results (fut_done (schedule_once X chosen s1)) = se_results s1 @ new \<and>
        list_all2 covers new chosen)" by blast
    have "chosen_by X opts chosen" using sel same by (auto simp: chosen_by_def)
    moreover have "op_dry_run opts \<Longrightarrow> fut_value (run_selected X opts s) = Some (Inr ())"
      using False Inr by (simp add: run_selected_def)
    moreover have "\<not> op_dry_run opts \<Longrightarrow> fut_value (run_selected X opts s) = fut_value (schedule_once X chosen s1) \<and>
        se_results (fut_done (run_selected X opts s)) = se_results (fut_done (schedule_once X chosen s1))"
      using False Inr assms(2)
      by (simp add: run_selected_def run_scheduler_def chosen_def s1_def Let_def)
    ultimately show ?thesis using new s1 x by (cases "op_dry_run opts") auto
  qed
qed

lemma select_length: "select_suites X opts suites = Inr out \<Longrightarrow> length out = length suites"
  by (auto simp: select_suites_def and_then_Ok filter_tests_def split: if_splits option.splits sum.splits)

lemma looked_up_length: "looked_up X opts found \<Longrightarrow> length found = length (op_suites opts)"
  by (auto simp: looked_up_def restore_suites_def dest: list_all2_lengthD)

lemma iterate_nonempty: "suites \<noteq> [] \<Longrightarrow> apply_iterate suites n \<noteq> []"
  by (cases suites) (auto simp: apply_iterate_def)

lemma chosen_nonempty: "chosen_by X opts chosen \<Longrightarrow> op_suites opts \<noteq> [] \<Longrightarrow> chosen \<noteq> []"
  unfolding chosen_by_def
  by (auto dest!: select_length looked_up_length simp: iterate_nonempty) (metis iterate_nonempty length_0_conv list_all2_Nil2)

lemma run_selected_told:
  assumes "session_fair X" and "\<not> timeout_on (op_runtime opts)"
  shows "told_alike s (fut_done (run_selected X opts s))"
proof (cases "op_suites opts = []")
  case True
  then show ?thesis by (simp add: run_selected_def told_alike_refl)
next
  case False
  define s1 where "s1 = fut_done (read_suites X opts s)"
  have s1: "se_results s1 = se_results s" "suites_told s1 = suites_told s"
    by (simp_all add: s1_def same_results_done [OF same_results_read] others_told [OF others_read])
  show ?thesis
  proof (cases "fut_value (read_suites X opts s)")
    case (Inl e)
    with False s1 show ?thesis by (simp add: run_selected_def told_alike_refl s1_def)
  next
    case (Inr suites)
    define chosen where "chosen = (if op_randomize opts
      then sx_shuffle X (world_of s1) (apply_iterate suites (op_suite_iterate opts))
      else apply_iterate suites (op_suite_iterate opts))"
    from read_suites_value [OF assms(1) Inr] have "chosen_by X opts chosen"
      using assms(1) by (auto simp: chosen_by_def chosen_def session_fair_def same_tests_refl)
    then have "chosen \<noteq> []" using False by (rule chosen_nonempty)
    moreover have "cf_max_workers (sx_cfg X) \<le> 1"
      using assms(1) by (simp add: session_fair_def runs_unstopped_def runs_fairly_def)
    ultimately have once: "told_alike s (fut_done (schedule_once X chosen s1))"
      using schedule_once_told [of X chosen s1] s1 by (auto simp: told_alike_def)
    have dry: "suites_told (fut_done (notify ''session_dry_run'' p s1)) = suites_told s" for p
      using others_told [OF fires_only_notify, of "''session_dry_run''" p s1] s1 by simp
    show ?thesis
    proof (cases "op_dry_run opts")
      case True
      then show ?thesis
        using False Inr s1 dry by (simp add: run_selected_def s1_def told_alike_refl)
    next
      case wet: False
      then have "fut_done (run_selected X opts s) = fut_done (schedule_once X chosen s1)"
        using False Inr assms(2) by (simp add: run_selected_def run_scheduler_def chosen_def s1_def Let_def)
      with once show ?thesis by simp
    qed
  qed
qed

lemma run_inner_told:
  assumes "session_fair X" and "\<not> timeout_on (op_runtime opts)"
  shows "told_alike s (fut_done (run_inner X opts s))"
proof -
  define s1 where "s1 = fut_done (announce_run X opts s)"
  define s2 where "s2 = fut_done (prepare_run X opts s1)"
  have s2: "se_results s2 = se_results s" "suites_told s2 = suites_told s"
    by (simp_all add: s2_def s1_def same_results_done [OF same_results_prepare] others_told [OF others_prepare]
        same_results_done [OF same_results_announce] others_told [OF others_announce])
  show ?thesis
    using told_alike_after [OF s2 run_selected_told [OF assms]] s2
    by (cases "fut_value (prepare_run X opts s1)")
      (simp_all add: run_inner_def s1_def [symmetric] s2_def [symmetric] told_alike_refl)
qed

lemma run_inner_covers:
  assumes "session_fair X" and "\<not> timeout_on (op_runtime opts)"
  shows "\<exists>x. fut_value (run_inner X opts s) = Some x \<and>
    (is_ok x \<and> \<not> op_dry_run opts \<and> op_suites opts \<noteq> [] \<longrightarrow>
      (\<exists>chosen new. chosen_by X opts chosen \<and> list_all2 covers new chosen \<and>
        se_results (fut_done (run_inner X opts s)) = se_results s @ new))"
proof -
  define s1 where "s1 = fut_done (announce_run X opts s)"
  define s2 where "s2 = fut_done (prepare_run X opts s1)"
  have s2: "se_results s2 = se_results s"
    by (simp add: s2_def s1_def same_results_done [OF same_results_prepare]
        same_results_done [OF same_results_announce])
  show ?thesis
  proof (cases "fut_value (prepare_run X opts s1)")
    case (Inl e)
    then show ?thesis by (simp add: run_inner_def s1_def)
  next
    case (Inr u)
    then have "fut_value (run_inner X opts s) = fut_value (run_selected X opts s2)"
      "fut_done (run_inner X opts s) = fut_done (run_selected X opts s2)"
      by (simp_all add: run_inner_def s1_def s2_def)
    with run_selected_covers [OF assms, of s2] s2 show ?thesis by simp
  qed
qed

lemma export_all_fails: "\<not> is_ok outcome \<Longrightarrow> \<not> is_ok (fut_value (export_all X rs outcome targets s))"
  by (induction targets arbitrary: s) (auto split: sum.split)

lemma hand_over_sel:
  "se_results (fut_done (hand_over X opts outcome s)) = []"
  "\<exists>pre. events_of (fut_done (hand_over X opts outcome s)) =
      pre @ [(''session_completed'', P_SessionCompleted (se_results s))]"
  "\<not> is_ok outcome \<Longrightarrow> \<not> is_ok (fut_value (hand_over X opts outcome s))"
proof -
  show "se_results (fut_done (hand_over X opts outcome s)) = []"
    by (simp add: hand_over_def same_results_done [OF same_results_export]
        same_results_done [OF same_results_inner_stop])
  show "\<exists>pre. events_of (fut_done (hand_over X opts outcome s)) =
      pre @ [(''session_completed'', P_SessionCompleted (se_results s))]"
    by (simp add: hand_over_def)
  show "\<not> is_ok outcome \<Longrightarrow> \<not> is_ok (fut_value (hand_over X opts outcome s))"
    by (simp add: hand_over_def export_all_fails)
qed

lemma finish_run_sel:
  "se_results (fut_done (finish_run X opts outcome s)) = []"
  "\<exists>pre. events_of (fut_done (finish_run X opts outcome s)) =
      pre @ [(''session_completed'', P_SessionCompleted (se_results s))]"
  "\<not> is_ok outcome \<Longrightarrow> \<not> is_ok (fut_value (finish_run X opts outcome s))"
proof -
  have reported: "same_results (report_failure X outcome)"
    by (auto simp: report_failure_def split: sum.split)
  have cleared: "same_results (do_when b (apply_fault_injection X 0 1))" for b
    by (auto simp: same_results_fault)
  note frames = same_results_done [OF reported] same_results_done [OF cleared]
  show "se_results (fut_done (finish_run X opts outcome s)) = []"
    by (simp add: finish_run_def hand_over_sel)
  show "\<exists>pre. events_of (fut_done (finish_run X opts outcome s)) =
      pre @ [(''session_completed'', P_SessionCompleted (se_results s))]"
    using hand_over_sel(2) [of X opts outcome "fut_done (do_when (op_fault_prob opts \<noteq> 0 \<and> \<not> op_dry_run opts)
      (apply_fault_injection X 0 1) (fut_done (report_failure X outcome s)))"]
    by (simp add: finish_run_def frames)
  show "\<not> is_ok outcome \<Longrightarrow> \<not> is_ok (fut_value (finish_run X opts outcome s))"
    by (simp add: finish_run_def hand_over_sel)
qed

lemma session_run_sel:
  assumes "fut_value (run_inner X opts s) = Some outcome"
  shows "fut_value (session_run X opts s) = Some (fut_value (finish_run X opts outcome (fut_done (run_inner X opts s))))"
    and "fut_done (session_run X opts s) = fut_done (finish_run X opts outcome (fut_done (run_inner X opts s)))"
  using assms by (simp_all add: session_run_def)

lemma finish_run_told: "suites_told (fut_done (finish_run X opts outcome s)) = suites_told s"
proof -
  have "fires_only others (upd (\<lambda>s. s\<lparr>se_results := []\<rparr>))" ..
  then have "fires_only others (finish_run X opts outcome)"
    unfolding finish_run_def hand_over_def
    by (auto intro!: others_report others_fault others_export others_inner_stop)
  then show ?thesis by (rule others_told)
qed

lemma session_run_accounts:
  assumes "session_fair X" and "\<not> timeout_on (op_runtime opts)" and "\<not> op_dry_run opts"
    and "op_suites opts \<noteq> []" and "se_results s = []"
  shows "\<exists>x pre results. fut_value (session_run X opts s) = Some x \<and>
    se_results (fut_done (session_run X opts s)) = [] \<and>
    events_of (fut_done (session_run X opts s)) = pre @ [(''session_completed'', P_SessionCompleted results)] \<and>
    (\<exists>ps. suites_told (fut_done (session_run X opts s)) = suites_told s @ ps \<and> suite_reports results ps) \<and>
    (is_ok x \<longrightarrow> (\<exists>chosen. chosen_by X opts chosen \<and> list_all2 covers results chosen))"
proof -
  define s1 where "s1 = fut_done (run_inner X opts s)"
  from run_inner_covers [OF assms(1,2), of s] assms(3-5) obtain outcome where
    o: "fut_value (run_inner X opts s) = Some outcome" and
    cov: "is_ok outcome \<longrightarrow> (\<exists>chosen. chosen_by X opts chosen \<and> list_all2 covers (se_results s1) chosen)"
    by (auto simp: s1_def)
  have told: "\<exists>ps. suites_told (fut_done (finish_run X opts outcome s1)) = suites_told s @ ps \<and>
      suite_reports (se_results s1) ps"
    using run_inner_told [OF assms(1,2), of s] assms(5) by (simp add: told_alike_def s1_def finish_run_told)
  obtain pre where pre: "events_of (fut_done (finish_run X opts outcome s1)) =
      pre @ [(''session_completed'', P_SessionCompleted (se_results s1))]"
    using finish_run_sel(2) by blast
  have "is_ok (fut_value (finish_run X opts outcome s1)) \<longrightarrow>
      (\<exists>chosen. chosen_by X opts chosen \<and> list_all2 covers (se_results s1) chosen)"
    using cov finish_run_sel(3) by blast
  with pre told show ?thesis
    unfolding session_run_sel [OF o] s1_def [symmetric]
    by (intro exI [of _ "fut_value (finish_run X opts outcome s1)"] exI [of _ pre] exI [of _ "se_results s1"])
      (simp add: finish_run_sel)
qed

text \<open>
  Claim C21: in fair surroundings, one worker among them, a run without a run time always returns, takes the results it
  collected out of the session, and ends by announcing them. Whether it succeeds or fails, what it
  announces is one entry for each suite the suite scheduler has announced as completed during the
  run, with the same content and in the same order. If it reports success, every suite of the
  selection has its entry, in order, with one result for each of its tests. The selection is what
  the framework answered for the names asked for, less what a restored session had executed,
  filtered by the patterns and repeated.
\<close>

theorem session_run_covers_selection:
  assumes "session_fair X" and "\<not> timeout_on (op_runtime opts)" and "\<not> op_dry_run opts"
    and "op_suites opts \<noteq> []" and "se_results s = []"
  shows "\<exists>x pre results told. fut_value (session_run X opts s) = Some x \<and>
    se_results (fut_done (session_run X opts s)) = [] \<and>
    events_of (fut_done (session_run X opts s)) = pre @ [(''session_completed'', P_SessionCompleted results)] \<and>
    suites_told (fut_done (session_run X opts s)) = suites_told s @ told \<and>
    list_all2 (\<lambda>r p. \<exists>time. p = P_SuiteCompleted r time) results told \<and>
    (is_ok x \<longrightarrow> (\<exists>chosen. chosen_by X opts chosen \<and> list_all2 covers results chosen))"
  using session_run_accounts [OF assms] unfolding suite_reports_def by blast

text \<open>Surroundings for concrete runs: a SUT that answers at once, suites of two tests.\<close>

definition idle_env :: "'w sched_env" where
  "idle_env =
     \<lparr> ss_tainted = pure (Inr (0, [])), ss_run = \<lambda>_ _ _. pure (Inr None), ss_writes = \<lambda>_ _ _ _. [],
       ss_ping = pure (Inr f64_zero), ss_stop = pure (Inr ()), ss_restart = pure (Inr ()),
       ss_info = pure (Inr Map.empty), ss_name = ''idle'', ss_acquire = pure (),
       ss_stop_cnt = \<lambda>_. 0, ss_set_stop_cnt = \<lambda>_ w. w, ss_stop_flag = \<lambda>_. False,
       ss_set_stop_flag = \<lambda>_ w. w, ss_elapsed = \<lambda>_ _. f64_zero, ss_pid = 1,
       fw_read_result = \<lambda>t _ rc _. Inr ((test_results_new t)\<lparr>r_retcode := rc\<rparr>) \<rparr>"

definition idle_session :: "'w session_env" where
  "idle_session =
     \<lparr> sx_env = idle_env, sx_cfg = suite_cfg_new f64_zero f64_zero 1 (\<lambda>_. pure (Inr ())) F64_Fin,
       sx_exec_timeout = f64_zero, sx_force_parallel = False,
       sx_fuel = 5, sx_tmpdir = ''/tmp/k'', sx_start = pure (Inr ()), sx_stop = pure (Inr ()),
       sx_is_running = pure (Inr True), sx_parallel = False, sx_root = pure (Inr True),
       sx_fault_enabled = pure (Inr False), sx_setup_fault = \<lambda>_ _. pure (Inr ()),
       sx_run_command = \<lambda>_ _ _. pure (Inr None),
       sx_find_suite = \<lambda>n. pure (Inr (suite_new n [demo_test ''a'', demo_test ''b''])),
       sx_find_command = \<lambda>n. pure (Inr (demo_test n)),
       sx_executed_text = \<lambda>_. pure (Inr None), sx_open_executed = pure True,
       sx_write_executed = \<lambda>_. pure True, sx_save_file = \<lambda>_ _. pure (Inr ()),
       sx_regex_new = \<lambda>r. Inr (\<lambda>n. sublist r n), sx_shuffle = \<lambda>_ ss. ss, sx_debug = id,
       sx_stop_flag = \<lambda>_. False, sx_set_stop_flag = \<lambda>_ w. w \<rparr>"

definition demo_session :: "nat session_env" where
  "demo_session = idle_session\<lparr>sx_env := demo_env, sx_cfg := demo_cfg\<rparr>"

definition demo_options :: "string list \<Rightarrow> run_options" where
  "demo_options suites =
     \<lparr> op_command = None, op_suites = suites, op_pattern = None, op_skip_tests = None,
       op_report_path = None, op_restore_path = None, op_suite_iterate = 1, op_randomize = False,
       op_runtime = f64_zero, op_fault_prob = 0, op_fault_interval = 1, op_dry_run = False \<rparr>"

lemma demo_session_fair: "session_fair demo_session"
  using demo_cfg_fair
  by (auto simp: session_fair_def demo_session_def idle_session_def runs_unstopped_def suite_bounded_def demo_test_def
      same_tests_refl demo_env_def)

lemma session_run_covers_selection_witness:
  "\<exists>x pre results. fut_value (session_run demo_session (demo_options [''syscalls'']) (session_new 0)) = Some x \<and>
    events_of (fut_done (session_run demo_session (demo_options [''syscalls'']) (session_new 0)))
      = pre @ [(''session_completed'', P_SessionCompleted results)]"
  using session_run_covers_selection
    [OF demo_session_fair, of "demo_options [''syscalls'']" "session_new 0"]
  by (auto simp: demo_options_def session_new_def)

section \<open>A run time\<close>

lemma stop_suites_results [simp]: "su_results (fut_done (stop_suites E s)) = su_results s"
  by (simp add: stop_suites_def)

lemma infinite_dropped_in_round:
  assumes "\<not> sx_stop_flag X (world_of s)"
    and "d < fut_time (schedule_once X (map (\<lambda>s. suite_new (iterated_name (s_name s) k) (s_tests s)) suites) s)"
  shows "d < fut_time (schedule_infinite (Suc n) X suites k s) \<and>
    fut_dropped (schedule_infinite (Suc n) X suites k s) d =
      fut_dropped (schedule_once X (map (\<lambda>s. suite_new (iterated_name (s_name s) k) (s_tests s)) suites) s) d"
  using assms by (simp add: bind_dropped session_stopping_def)

text \<open>
  A run time hides what happened: \<open>run_scheduler\<close> never reports an error, and when the
  time is up during the first round the results the suite scheduler has recorded by then are
  not among those of the session.
\<close>

theorem runtime_loses_the_round:
  assumes "timeout_on runtime" and "\<not> sx_stop_flag X (world_of s)" and "0 < sx_fuel X"
    and "round1 = map (\<lambda>s. suite_new (iterated_name (s_name s) 1) (s_tests s)) suites"
    and "running = schedule_suites (sx_fuel X) (sx_env X) (sx_cfg X) round1 (se_suites s)"
    and "duration_ns runtime < fut_time running"
  shows "fut_value (run_scheduler X suites runtime s) = Some (Ok ()) \<and>
    se_results (fut_done (run_scheduler X suites runtime s)) = se_results s \<and>
    su_results (se_suites (fut_done (run_scheduler X suites runtime s))) =
      su_results (fut_dropped running (duration_ns runtime))"
proof -
  define d where "d = duration_ns runtime"
  obtain n where n: "sx_fuel X = Suc n" using assms(3) by (cases "sx_fuel X") auto
  define once where "once = schedule_once X round1"
  have late: "d < fut_time (once s)" and at: "fut_dropped (once s) d = s\<lparr>se_suites := fut_dropped running d\<rparr>"
    using assms(5,6)
    by (simp_all add: once_def schedule_once_def bind_dropped d_def on_suites_def)
  from infinite_dropped_in_round [OF assms(2), of d 1 suites n] late
  have late2: "d < fut_time (schedule_infinite (sx_fuel X) X suites 1 s)"
    and at2: "fut_dropped (schedule_infinite (sx_fuel X) X suites 1 s) d = fut_dropped (once s) d"
    unfolding n once_def assms(4) by blast+
  have lim: "fut_value (limited runtime (schedule_infinite (sx_fuel X) X suites 1) s) = None"
    "fut_done (limited runtime (schedule_infinite (sx_fuel X) X suites 1) s) = s\<lparr>se_suites := fut_dropped running d\<rparr>"
    using with_timeout_expired [of d "schedule_infinite (sx_fuel X) X suites 1" s] late2 at at2 assms(1)
    by (simp_all only: limited_def d_def if_True simp_thms)
  then show ?thesis
    using assms(1) by (simp add: run_scheduler_def d_def)
qed

text \<open>A SUT whose information takes ten seconds to come, against a run time of a nanosecond.\<close>

lemma runtime_loses_the_round_witness:
  "se_results (fut_done (run_scheduler
      (demo_session\<lparr>sx_env := demo_env\<lparr>ss_info := \<lambda>w. (ready (Inr Map.empty) w)\<lparr>fut_time := seconds 10\<rparr>\<rparr>\<rparr>)
      [demo_suite] (F64_Fin (1 / 1000000000)) (session_new 0))) = []"
proof -
  let ?X = "demo_session\<lparr>sx_env := demo_env\<lparr>ss_info := \<lambda>w. (ready (Inr Map.empty) w)\<lparr>fut_time := seconds 10\<rparr>\<rparr>\<rparr>"
  let ?round = "[suite_new (iterated_name (s_name demo_suite) 1) (s_tests demo_suite)]"
  have "\<lfloor>3 / 2 :: rat\<rfloor> = 1" by (simp add: floor_eq_iff)
  then have "duration_ns (F64_Fin (1 / 1000000000)) = 1" by simp
  moreover have "1 < fut_time (schedule_suites (sx_fuel ?X) (sx_env ?X) (sx_cfg ?X) ?round (se_suites (session_new 0)))"
    by (simp add: demo_session_def idle_session_def schedule_suites_def run_suite_def on_inner_def fire_event_def on_world_def)
  ultimately show ?thesis
    using runtime_loses_the_round [of "F64_Fin (1 / 1000000000)" ?X "session_new 0" ?round "[demo_suite]"
      "schedule_suites (sx_fuel ?X) (sx_env ?X) (sx_cfg ?X) ?round (se_suites (session_new 0))"]
    by (simp add: timeout_on_def demo_session_def idle_session_def session_new_def)
qed

section \<open>The executed file\<close>

text \<open>An \<open>executed\<close> file that takes every write: \<open>written\<close> says of a world what the file holds.\<close>

definition file_accepts :: "'w session_env \<Rightarrow> ('w \<Rightarrow> string) \<Rightarrow> bool" where
  "file_accepts X written \<longleftrightarrow>
     (\<forall>w. fut_value (sx_open_executed X w) \<and> written (fut_done (sx_open_executed X w)) = written w) \<and>
     (\<forall>l w. fut_value (sx_write_executed X l w) \<and> written (fut_done (sx_write_executed X l w)) = written w @ l)"

lemma write_lines_log:
  assumes "file_accepts X written"
  shows "written (world_of (fut_done (write_lines X ls s))) = written (world_of s) @ concat ls"
proof (induction ls arbitrary: s)
  case Nil
  then show ?case by simp
next
  case (Cons l ls)
  with assms show ?case by (simp add: file_accepts_def)
qed

lemma write_suites_log:
  assumes "file_accepts X written"
  shows "written (world_of (fut_done (write_suites X rs s))) = written (world_of s) @ concat (executed_lines rs)"
proof (induction rs arbitrary: s)
  case Nil
  then show ?case by (simp add: executed_lines_def)
next
  case (Cons r rs)
  then show ?case by (simp add: write_lines_log [OF assms]) (simp add: executed_lines_def)
qed

lemma append_executed_log:
  assumes "file_accepts X written" and "sx_tmpdir X \<noteq> []"
  shows "written (world_of (fut_done (append_executed X rs s))) = written (world_of s) @ concat (executed_lines rs)"
proof (cases "rs = []")
  case True
  then show ?thesis by (simp add: append_executed_def executed_lines_def)
next
  case False
  with assms show ?thesis
    by (simp add: append_executed_def write_suites_log [OF assms(1)]) (simp add: file_accepts_def)
qed

text \<open>
  Claim C28: what a session appends to its \<open>executed\<close> file is what a later session needs: the
  restore reads the text of the file line by line and leaves in each suite exactly the tests without
  a result, whatever the names are as long as suites have no colon, tests do not end in blanks and
  neither has a newline.
\<close>

theorem executed_file_restores:
  assumes "file_accepts X written" and "sx_tmpdir X \<noteq> []" and "results_named rs"
    and "written (world_of s) = []" and "path \<noteq> []"
    and "\<forall>w. fut_value (sx_executed_text Y path w) = Ok (Some (written (world_of (fut_done (append_executed X rs s)))))"
  shows "fut_value (restore_tests Y (Some path) suites s') =
    Ok (map (\<lambda>s. keep_tests (\<lambda>t. (s_name s, t_name t) \<notin> set (executed_pairs rs)) s) suites)"
proof -
  have "written (world_of (fut_done (append_executed X rs s))) = concat (executed_lines rs)"
    using append_executed_log [OF assms(1,2)] assms(4) by simp
  with assms(5,6) have "fut_value (restore_tests Y (Some path) suites s') = Ok (restore_suites (executed_pairs rs) suites)"
    by (simp add: restore_tests_def non_empty_def try_bind_sel restored_from_executed [OF assms(3)] Let_def)
      (simp add: restore_suites_def restored_get_def)
  then show ?thesis by (simp add: restore_suites_def restore_one)
qed

text \<open>A session whose world is the text of the file.\<close>

definition log_session :: "string session_env" where
  "log_session = idle_session\<lparr>sx_write_executed := \<lambda>l. bind (upd (\<lambda>w. w @ l)) (\<lambda>_. pure True),
     sx_executed_text := \<lambda>_. pure (Ok (Some (''a::x'' @ [CHR 0x0A])))\<rparr>"

lemma executed_file_restores_witness:
  "fut_value (restore_tests log_session (Some ''/tmp/last'') [suite_new ''a'' [demo_case ''x'', demo_case ''y'']] (session_new []))
     = Ok [suite_new ''a'' [demo_case ''y'']]"
proof -
  have named: "results_named [demo_done ''a'' [''x'']]"
    by (simp add: results_named_def demo_done_def demo_case_def suite_result_defs result_defs
        suite_name_ok_def test_name_ok_def ws_suffix_def ws1_def)
  have accepts: "file_accepts log_session (\<lambda>w. w)"
    by (simp add: file_accepts_def log_session_def idle_session_def)
  have lines: "executed_lines [demo_done ''a'' [''x'']] = [''a::x'' @ [CHR 0x0A]]"
    by (simp add: executed_lines_def executed_line_def demo_done_def demo_case_def suite_result_defs result_defs)
  have tmp: "sx_tmpdir log_session \<noteq> []" by (simp add: log_session_def idle_session_def)
  have empty: "world_of (session_new []) = []"
    by (simp add: world_of_def session_new_def suite_sched_new_def sched_new_def)
  show ?thesis
    using executed_file_restores [OF accepts tmp named empty, of "''/tmp/last''" log_session]
      append_executed_log [OF accepts tmp, of "[demo_done ''a'' [''x'']]" "session_new []"]
    by (simp add: empty lines) (simp add: log_session_def executed_pairs_def demo_done_def demo_case_def
        suite_result_defs result_defs keep_tests_def)
qed

section \<open>A dry run\<close>

definition dry_events :: "string set" where
  "dry_events = {''session_started'', ''session_warning'', ''session_dry_run_command'', ''sut_start'',
     ''session_restore'', ''session_dry_run'', ''session_error'', ''sut_stop'', ''session_completed''}"

lemma dry_find: "fires_only dry_events (find_suites X names)"
  by (induction names) auto

lemma dry_read: "fires_only dry_events (read_suites X opts)"
  unfolding read_suites_def get_suites_objects_def restore_tests_def Let_def
  by (auto simp: dry_find dry_events_def [symmetric] split: option.split intro!: fires_only_notify)
    (simp_all add: dry_events_def)

lemma dry_inner:
  assumes "op_dry_run opts"
  shows "fires_only dry_events (run_inner X opts)"
proof -
  have "fires_only dry_events (announce_run X opts)"
    by (auto simp: announce_run_def dry_events_def split: option.split)
  moreover have "fires_only dry_events (prepare_run X opts)"
    using assms by (auto simp: prepare_run_def start_sut_def dry_events_def)
  moreover have "fires_only dry_events (run_selected X opts)"
    using assms dry_read by (auto simp: run_selected_def split: sum.split) (simp add: dry_events_def)
  ultimately show ?thesis by (auto simp: run_inner_def split: sum.split)
qed

lemma dry_finish:
  assumes "op_dry_run opts"
  shows "fires_only dry_events (finish_run X opts outcome)"
proof -
  have "fires_only dry_events (export_all X rs outcome ts)" for rs ts
    by (induction ts) (auto simp: dry_events_def split: sum.split)
  moreover have "fires_only dry_events (inner_stop X)"
    by (auto simp: inner_stop_def stop_sut_def dry_events_def)
  moreover have "fires_only dry_events (report_failure X outcome)"
    by (auto simp: report_failure_def dry_events_def split: sum.split)
  ultimately show ?thesis
    using assms by (auto simp: finish_run_def hand_over_def) (simp add: dry_events_def)
qed

lemma dry_returns: "op_dry_run opts \<Longrightarrow> \<exists>outcome. fut_value (run_inner X opts s) = Some outcome"
  by (auto simp: run_inner_def run_selected_def split: sum.split)

text \<open>
  A dry run returns and executes nothing: of the events of a session only its
  announcements are fired, no test or suite is started and no command is run, and no results are
  left behind.
\<close>

theorem dry_run_only_announces:
  assumes "op_dry_run opts"
  shows "\<exists>x es. fut_value (session_run X opts s) = Some x \<and>
    events_of (fut_done (session_run X opts s)) = events_of s @ es \<and>
    fst ` set es \<subseteq> dry_events \<and> se_results (fut_done (session_run X opts s)) = []"
proof -
  obtain outcome where o: "fut_value (run_inner X opts s) = Some outcome"
    using dry_returns [OF assms] by blast
  have "fires_only dry_events (bind (run_inner X opts) (\<lambda>_. finish_run X opts outcome))"
    using dry_inner [OF assms] dry_finish [OF assms] by blast
  then show ?thesis
    unfolding session_run_sel [OF o] by (auto simp: fires_only_def finish_run_sel)
qed

lemma dry_run_only_announces_witness:
  "\<exists>x es. fut_value (session_run demo_session (demo_options [''a'']\<lparr>op_dry_run := True\<rparr>) (session_new 0)) = Some x \<and>
     events_of (fut_done (session_run demo_session (demo_options [''a'']\<lparr>op_dry_run := True\<rparr>) (session_new 0))) = es \<and>
     fst ` set es \<subseteq> dry_events"
  using dry_run_only_announces [of "demo_options [''a'']\<lparr>op_dry_run := True\<rparr>" demo_session "session_new 0"]
  by (auto simp: events_of_def session_new_def suite_sched_new_def sched_new_def demo_options_def)

end
