(* ===== verification/Support_Export.thy ===== *)
theory Support_Export
  imports Core_Dict Support_Files
begin

text \<open>
  Crate \<open>kirk-support\<close>, \<open>export.rs\<close>: the report document built from the results of a session and the
  write that saves it. A JSON object is its list of entries, in the order they are inserted; the
  pretty printer is a parameter.
\<close>

section \<open>The report document\<close>

definition number :: "u32 \<Rightarrow> json" where
  "number n = JInt (uint n)"

definition float :: "f64 \<Rightarrow> json" where
  "float x = (if f64_is_finite x then JFloat x else JNull)"

definition status_str :: "int \<Rightarrow> string" where
  "status_str status =
     (if status = status_PASS then ''pass''
      else if status = status_BROK then ''brok''
      else if status = status_WARN then ''warn''
      else if status = status_CONF then ''conf''
      else ''fail'')"

definition test_detail :: "test_results \<Rightarrow> json_map" where
  "test_detail r =
     [(''command'', JStr (t_command (r_test r))),
      (''arguments'', JArr (map JStr (t_args (r_test r)))),
      (''log'', JStr (r_stdout r)),
      (''retval'', JArr [JStr (show_int (r_retcode r))]),
      (''duration'', float (r_exec_time r)),
      (''failed'', number (r_failed r)),
      (''passed'', number (r_passed r)),
      (''broken'', number (r_broken r)),
      (''skipped'', number (r_skipped r)),
      (''warnings'', number (r_warnings r)),
      (''result'', JStr (status_str (r_status r)))]"

definition test_entry :: "test_results \<Rightarrow> json" where
  "test_entry r =
     JObj [(''test_fqn'', JStr (t_name (r_test r))),
           (''status'', JStr (status_str (r_status r))),
           (''test'', JObj (test_detail r))]"

definition stats_value :: "rounding \<Rightarrow> suite_results list \<Rightarrow> json" where
  "stats_value rnd results =
     JObj [(''runtime'', float (f64_sum rnd (map (suite_exec_time rnd) results))),
           (''passed'', number (sum_u32 (map suite_passed results))),
           (''failed'', number (sum_u32 (map suite_failed results))),
           (''broken'', number (sum_u32 (map suite_broken results))),
           (''skipped'', number (sum_u32 (map suite_skipped results))),
           (''warnings'', number (sum_u32 (map suite_warnings results)))]"

definition or_empty :: "string option \<Rightarrow> json" where
  "or_empty v = JStr (case v of Some s \<Rightarrow> s | None \<Rightarrow> [])"

definition environment_value :: "suite_results \<Rightarrow> json" where
  "environment_value r =
     JObj [(''distribution'', or_empty (sr_distro r)),
           (''distribution_version'', or_empty (sr_distro_ver r)),
           (''kernel'', or_empty (sr_kernel r)),
           (''cmdline'', or_empty (sr_cmdline r)),
           (''arch'', or_empty (sr_arch r)),
           (''cpu'', or_empty (sr_cpu r)),
           (''swap'', or_empty (sr_swap r)),
           (''RAM'', or_empty (sr_ram r))]"

definition report_value :: "rounding \<Rightarrow> suite_results list \<Rightarrow> json" where
  "report_value rnd results =
     JObj [(''results'', JArr (concat (map (\<lambda>r. map test_entry (sr_tests r)) results))),
           (''stats'', stats_value rnd results),
           (''environment'', (case results of [] \<Rightarrow> JObj [] | r # _ \<Rightarrow> environment_value r))]"

section \<open>Saving it\<close>

definition resolve_report_path :: "file_env \<Rightarrow> string \<Rightarrow> string result" where
  "resolve_report_path V path =
     (case confine_path V path of
        Inr target \<Rightarrow> Ok target
      | Inl BadName \<Rightarrow> Err (ExporterE (''invalid report path: '' @ [CHR 0x27] @ path @ [CHR 0x27]))
      | Inl (NoFolder err) \<Rightarrow> Err (ExporterE (''report folder is missing: '' @ err))
      | Inl (NoCurrentDir err) \<Rightarrow>
          Err (ExporterE (''can'' @ [CHR 0x27] @ ''t resolve report path: '' @ err)))"

text \<open>
  The write through an \<open>AsyncFile\<close>: its session errors become exporter errors. A failed write leaves
  the file it has just created.
\<close>

definition exporter_error :: "kirk_error \<Rightarrow> kirk_error" where
  "exporter_error e = ExporterE (error_display e)"

definition write_report :: "file_env \<Rightarrow> string \<Rightarrow> string \<Rightarrow> files \<Rightarrow> unit result \<times> files" where
  "write_report V target txt fs =
     (case file_open V (async_file_new target ''w'') fs of
        (Inl e, _, fs1) \<Rightarrow> (Err (exporter_error e), fs1)
      | (Inr _, f, fs1) \<Rightarrow>
          (case file_write V f txt fs1 of
             (Inl e, fs2) \<Rightarrow> (Err (exporter_error e), fs2)
           | (Inr _, fs2) \<Rightarrow> (Ok (), fs2)))"

text \<open>\<open>to_pretty\<close> is \<open>serde_json::to_string_pretty\<close>: a text, or the text of its error.\<close>

definition save_file ::
  "file_env \<Rightarrow> rounding \<Rightarrow> (json \<Rightarrow> string + string) \<Rightarrow> suite_results list \<Rightarrow> string \<Rightarrow> files
     \<Rightarrow> unit result \<times> files" where
  "save_file V rnd to_pretty results path fs =
     (if results = [] then (Err (ExporterE ''results is empty''), fs)
      else if path = [] then (Err (ExporterE ''path is empty''), fs)
      else (case resolve_report_path V path of
          Inl e \<Rightarrow> (Err e, fs)
        | Inr target \<Rightarrow>
            (case fe_exists_error V target of
               Some err \<Rightarrow> (Err (ExporterE (''can'' @ [CHR 0x27] @ ''t check report path: '' @ err)), fs)
             | None \<Rightarrow>
                 if fs target \<noteq> None
                 then (Err (ExporterE ([CHR 0x27] @ path @ [CHR 0x27] @ '' already exists'')), fs)
                 else (case to_pretty (report_value rnd results) of
                     Inl err \<Rightarrow> (Err (ExporterE (''can'' @ [CHR 0x27] @ ''t encode report: '' @ err)), fs)
                   | Inr txt \<Rightarrow> write_report V target txt fs))))"

section \<open>The report adds up\<close>

fun json_get :: "string \<Rightarrow> json \<Rightarrow> json option" where
  "json_get k (JObj es) = map_of es k"
| "json_get k _ = None"

definition all_tests :: "suite_results list \<Rightarrow> test_results list" where
  "all_tests results = concat (map sr_tests results)"

definition grand_total :: "(test_results \<Rightarrow> u32) \<Rightarrow> suite_results list \<Rightarrow> nat" where
  "grand_total f results = sum_list (map (\<lambda>r. unat (f r)) (all_tests results))"

lemma sum_of_sums:
  "sum_u32 (map (\<lambda>r. sum_u32 (map f (sr_tests r))) results) = sum_u32 (map f (all_tests results))"
  by (induction results) (simp_all add: all_tests_def sum_u32_sum_list)

lemma total_exact:
  "grand_total f results < 2 ^ 32 \<Longrightarrow>
   number (sum_u32 (map (\<lambda>r. sum_u32 (map f (sr_tests r))) results)) = JInt (int (grand_total f results))"
  using sum_u32_exact [of "map f (all_tests results)"]
  by (simp add: sum_of_sums number_def grand_total_def comp_def uint_nat)

lemma stats_totals:
  assumes "grand_total r_passed rs < 2 ^ 32" and "grand_total r_failed rs < 2 ^ 32" and "grand_total r_broken rs < 2 ^ 32"
    and "grand_total r_skipped rs < 2 ^ 32" and "grand_total r_warnings rs < 2 ^ 32"
  shows "map (\<lambda>k. json_get k (stats_value rnd rs)) [''passed'', ''failed'', ''broken'', ''skipped'', ''warnings''] =
    map (\<lambda>f. Some (JInt (int (grand_total f rs)))) [r_passed, r_failed, r_broken, r_skipped, r_warnings]"
  using total_exact [OF assms(1)] total_exact [OF assms(2)] total_exact [OF assms(3)]
    total_exact [OF assms(4)] total_exact [OF assms(5)]
  by (simp add: stats_value_def suite_sum_defs [abs_def])

text \<open>
  Claim C31: the report adds up: it lists one entry per recorded test, in the order of suites and
  tests, under the test's name and with the word for its status; and while no total reaches
  \<open>2 ^ 32\<close> each counter of its statistics is the sum over those entries.
\<close>

theorem report_adds_up:
  assumes "\<forall>f \<in> {r_passed, r_failed, r_broken, r_skipped, r_warnings}. grand_total f results < 2 ^ 32"
  shows "\<exists>entries stats. json_get ''results'' (report_value rnd results) = Some (JArr entries) \<and>
    map (json_get ''test_fqn'') entries = map (\<lambda>r. Some (JStr (t_name (r_test r)))) (all_tests results) \<and>
    map (json_get ''status'') entries = map (\<lambda>r. Some (JStr (status_str (r_status r)))) (all_tests results) \<and>
    json_get ''stats'' (report_value rnd results) = Some stats \<and>
    map (\<lambda>k. json_get k stats) [''passed'', ''failed'', ''broken'', ''skipped'', ''warnings''] =
      map (\<lambda>f. Some (JInt (int (grand_total f results)))) [r_passed, r_failed, r_broken, r_skipped, r_warnings]"
proof (intro exI conjI)
  show "json_get ''results'' (report_value rnd results) = Some (JArr (map test_entry (all_tests results)))"
    by (simp add: report_value_def all_tests_def map_concat comp_def)
  show "json_get ''stats'' (report_value rnd results) = Some (stats_value rnd results)"
    by (simp add: report_value_def)
  show "map (\<lambda>k. json_get k (stats_value rnd results)) [''passed'', ''failed'', ''broken'', ''skipped'', ''warnings''] =
      map (\<lambda>f. Some (JInt (int (grand_total f results)))) [r_passed, r_failed, r_broken, r_skipped, r_warnings]"
    by (rule stats_totals) (use assms in simp_all)
qed (simp_all add: test_entry_def)

definition demo_result :: test_results where
  "demo_result = with_passed 2 (test_results_new
     \<lparr> t_name = ''a'', t_command = ''ls'', t_cwd = None, t_env = Map.empty, t_args = [], t_parallelizable = False \<rparr>)"

lemma report_adds_up_witness:
  "\<exists>entries stats. json_get ''results'' (report_value F64_Fin [with_tests [demo_result, demo_result]
        (suite_results_new (suite_new ''s'' []))]) = Some (JArr entries) \<and>
     map (json_get ''test_fqn'') entries = [Some (JStr ''a''), Some (JStr ''a'')] \<and>
     json_get ''passed'' stats = Some (JInt 4)"
  using report_adds_up [of "[with_tests [demo_result, demo_result] (suite_results_new (suite_new ''s'' []))]" F64_Fin]
  by (auto simp: grand_total_def all_tests_def demo_result_def result_defs suite_result_defs)

section \<open>Saving is safe\<close>

lemma write_report_fresh:
  assumes "fs target = None"
  shows "\<exists>c. snd (write_report V target txt fs) = fs \<or> snd (write_report V target txt fs) = fs(target \<mapsto> c)"
    and "fst (write_report V target txt fs) = Inr () \<Longrightarrow> snd (write_report V target txt fs) = fs(target \<mapsto> txt)"
  by (auto simp: write_report_def file_open_def file_write_def async_file_new_def mode_has_def
      contains_char_def Let_def split: option.split option.splits)

text \<open>
  Saving a report never touches a file that is there, whatever fails on the way: at most
  one new file appears, with a plain name directly inside a canonical folder or the working one, and
  a successful save has written exactly the encoded report to it.
\<close>

theorem save_file_is_confined:
  assumes "save_file V rnd to_pretty results path fs = (r, fs')"
  shows "(fs' = fs \<or>
    (\<exists>dir name c. fs (path_join dir name) = None \<and> fs' = fs(path_join dir name \<mapsto> c) \<and>
      CHR ''/'' \<notin> set name \<and> name \<noteq> [] \<and> name \<noteq> ''.'' \<and> name \<noteq> ''..'' \<and>
      (fe_current_dir V = Inr dir \<or> (\<exists>parent. path_parent path = Some parent \<and> fe_canonicalize V parent = Inr dir)))) \<and>
    (r = Inr () \<longrightarrow> (\<exists>target txt. confine_path V path = Inr target \<and> fs target = None \<and>
      to_pretty (report_value rnd results) = Inr txt \<and> fs' = fs(target \<mapsto> txt)))"
proof (cases "\<exists>target txt. confine_path V path = Inr target \<and> fs target = None \<and>
    to_pretty (report_value rnd results) = Inr txt \<and> (r, fs') = write_report V target txt fs")
  case True
  then obtain target report_text where t: "confine_path V path = Inr target" "fs target = None"
    "to_pretty (report_value rnd results) = Inr report_text" "(r, fs') = write_report V target report_text fs" by blast
  have w: "r = fst (write_report V target report_text fs)" "fs' = snd (write_report V target report_text fs)"
    using t(4) by (metis fst_conv, metis snd_conv)
  obtain c where c: "fs' = fs \<or> fs' = fs(target \<mapsto> c)"
    using write_report_fresh(1) [of fs target V report_text] t(2) w(2) by auto
  from write_report_fresh(2) [of fs target V report_text] t(2) w
  have ok: "r = Inr () \<longrightarrow> fs' = fs(target \<mapsto> report_text)" by auto
  from confine_path_inside [OF t(1)] obtain dir name where "target = path_join dir name"
    "CHR ''/'' \<notin> set name" "name \<noteq> []" "name \<noteq> ''.''" "name \<noteq> ''..''"
    "fe_current_dir V = Inr dir \<or> (\<exists>parent. path_parent path = Some parent \<and> fe_canonicalize V parent = Inr dir)"
    by blast
  with c ok t(1-3) show ?thesis by metis
next
  case False
  then have "fs' = fs \<and> r \<noteq> Inr ()"
    using assms by (auto simp: save_file_def resolve_report_path_def
        split: if_splits sum.splits option.splits path_error.splits)
  then show ?thesis by blast
qed

lemma save_file_is_confined_witness:
  "snd (save_file demo_file_env F64_Fin (\<lambda>_. Inr ''{}'') [suite_results_new (suite_new ''s'' [])] ''/a/report'' Map.empty)
     = [''/real/a/report'' \<mapsto> ''{}'']"
proof -
  have c: "confine_path demo_file_env ''/a/report'' = Inr ''/real/a/report''"
    by (simp add: confine_path_def path_file_name_def path_parent_def path_components_def path_is_absolute_def
        starts_with_def path_join_def demo_file_env_def Let_def)
  obtain r fs' where s: "save_file demo_file_env F64_Fin (\<lambda>_. Inr ''{}'')
      [suite_results_new (suite_new ''s'' [])] ''/a/report'' Map.empty = (r, fs')" by fastforce
  have "r = Inr ()"
    using s c by (auto simp: save_file_def resolve_report_path_def demo_file_env_def write_report_def
        file_open_def file_write_def async_file_new_def mode_has_def contains_char_def)
  with save_file_is_confined [OF s] c s show ?thesis by auto
qed

end
