(* ===== verification/Support_Monitor.thy ===== *)
theory Support_Monitor
  imports Support_Export Session
begin

text \<open>
  Crate \<open>kirk-support\<close>, \<open>monitor.rs\<close>: the monitor that keeps the last event of a session in a file.
  Each recorder is the message it writes; \<open>attach\<close> subscribes one handler per event name, which
  ignores payloads of another shape. The lemmas compare those shapes with what the schedulers and
  the session fire.
\<close>

section \<open>Messages\<close>

definition EVENT_TYPES :: "string list" where
  "EVENT_TYPES =
     [''session_restore'', ''session_started'', ''session_stopped'', ''sut_stdout'', ''sut_start'',
      ''sut_stop'', ''sut_restart'', ''sut_not_responding'', ''run_cmd_start'', ''run_cmd_stop'',
      ''test_stdout'', ''test_started'', ''test_completed'', ''test_timed_out'', ''suite_started'',
      ''suite_completed'', ''suite_timeout'', ''session_warning'', ''session_error'', ''kernel_panic'',
      ''kernel_tainted'']"

text \<open>\<open>env_json\<close> is the serialisation of a hash map, whose order is not specified.\<close>

definition test_dict :: "(str_map \<Rightarrow> json) \<Rightarrow> test \<Rightarrow> json" where
  "test_dict env_json t =
     JObj [(''name'', JStr (t_name t)),
           (''command'', JStr (t_command t)),
           (''arguments'', JArr (map JStr (t_args t))),
           (''parallelizable'', JBool (t_parallelizable t)),
           (''cwd'', (case t_cwd t of Some d \<Rightarrow> JStr d | None \<Rightarrow> JNull)),
           (''env'', env_json (t_env t))]"

definition suite_dict :: "(str_map \<Rightarrow> json) \<Rightarrow> suite \<Rightarrow> json" where
  "suite_dict env_json s =
     JObj [(''name'', JStr (s_name s)), (''tests'', JArr (map (test_dict env_json) (s_tests s)))]"

definition test_completed_message :: "(str_map \<Rightarrow> json) \<Rightarrow> test_results \<Rightarrow> json" where
  "test_completed_message env_json r =
     JObj [(''test'', test_dict env_json (r_test r)),
           (''stdout'', JStr (r_stdout r)),
           (''status'', JInt (r_status r)),
           (''exec_time'', float (r_exec_time r)),
           (''passed'', number (r_passed r)),
           (''failed'', number (r_failed r)),
           (''broken'', number (r_broken r)),
           (''skipped'', number (r_skipped r)),
           (''warnings'', number (r_warnings r))]"

definition suite_completed_message :: "(str_map \<Rightarrow> json) \<Rightarrow> suite_results \<Rightarrow> f64 \<Rightarrow> json" where
  "suite_completed_message env_json r exec_time =
     JObj [(''suite'', suite_dict env_json (sr_suite r)),
           (''exec_time'', float exec_time),
           (''total_run'', JInt (int (length (s_tests (sr_suite r))))),
           (''passed'', number (suite_passed r)),
           (''failed'', number (suite_failed r)),
           (''skipped'', number (suite_skipped r)),
           (''broken'', number (suite_broken r)),
           (''warnings'', number (suite_warnings r)),
           (''kernel_version'', or_empty (sr_kernel r)),
           (''cmdline'', or_empty (sr_cmdline r)),
           (''cpu'', or_empty (sr_cpu r)),
           (''arch'', or_empty (sr_arch r)),
           (''ram'', or_empty (sr_ram r)),
           (''swap'', or_empty (sr_swap r)),
           (''distro'', or_empty (sr_distro r)),
           (''distro_version'', or_empty (sr_distro_ver r))]"

text \<open>
  The handlers \<open>attach\<close> wires, by event name: the message of the recorder the payload goes to, \<open>None\<close>
  when its shape does not match and nothing is written.
\<close>

definition text_message :: "string \<Rightarrow> event_payload \<Rightarrow> json option" where
  "text_message key payload = map_option (\<lambda>t. JObj [(key, JStr t)]) (as_text payload)"

fun test_message :: "(str_map \<Rightarrow> json) \<Rightarrow> string \<Rightarrow> event_payload \<Rightarrow> json option" where
  "test_message J name (P_TestStdout t txt) =
     (if name = ''test_stdout'' then Some (JObj [(''test'', test_dict J t), (''data'', JStr txt)]) else None)"
| "test_message J name (P_Test t) =
     (if name = ''test_started'' then Some (JObj [(''test'', test_dict J t)]) else None)"
| "test_message J name (P_TestResults r) =
     (if name = ''test_completed'' then Some (test_completed_message J r) else None)"
| "test_message J name (P_TestTimedOut t timeout) =
     (if name = ''test_timed_out''
      then Some (JObj [(''test'', test_dict J t), (''timeout'', float timeout)]) else None)"
| "test_message J name (P_Suite s) = (if name = ''suite_started'' then Some (suite_dict J s) else None)"
| "test_message J name (P_SuiteCompleted r exec_time) =
     (if name = ''suite_completed'' then Some (suite_completed_message J r exec_time) else None)"
| "test_message J name (P_SuiteTimeout s timeout) =
     (if name = ''suite_timeout''
      then Some (JObj [(''suite'', suite_dict J s), (''timeout'', float timeout)]) else None)"
| "test_message J name (P_SessionStarted n tmpdir) =
     (if name = ''session_started'' then Some (JObj [(''tmpdir'', JStr tmpdir)]) else None)"
| "test_message J name (P_SutStdout sut txt) =
     (if name = ''sut_stdout'' then Some (JObj [(''sut'', JStr sut), (''data'', JStr txt)]) else None)"
| "test_message J name (P_RunCmdStop command txt rc) =
     (if name = ''run_cmd_stop''
      then Some (JObj [(''command'', JStr command), (''stdout'', JStr txt), (''returncode'', JInt rc)])
      else None)"
| "test_message J name _ = None"

definition attached_message :: "(str_map \<Rightarrow> json) \<Rightarrow> string \<Rightarrow> event_payload \<Rightarrow> json option" where
  "attached_message J name payload =
     (if name \<in> {''session_stopped'', ''sut_not_responding'', ''kernel_panic''} then Some (JObj [])
      else if name = ''session_restore'' then text_message ''restore'' payload
      else if name \<in> {''sut_start'', ''sut_stop'', ''sut_restart''} then text_message ''sut'' payload
      else if name = ''run_cmd_start'' then text_message ''cmd'' payload
      else if name \<in> {''session_warning'', ''kernel_tainted''} then text_message ''message'' payload
      else if name = ''session_error'' then text_message ''error'' payload
      else test_message J name payload)"

section \<open>The monitor\<close>

record monitor =
  mo_path :: string

definition monitor_new :: "file_env \<Rightarrow> string \<Rightarrow> monitor result" where
  "monitor_new V path =
     (if path = [] then Err (SessionE ''monitor path is empty'')
      else (case confine_path V path of
          Inr target \<Rightarrow> Ok \<lparr> mo_path = target \<rparr>
        | Inl BadName \<Rightarrow> Err (SessionE (''invalid monitor path: '' @ [CHR 0x27] @ path @ [CHR 0x27]))
        | Inl (NoFolder _) \<Rightarrow> Err (SessionE (''monitor folder is missing: '' @ [CHR 0x27] @ path @ [CHR 0x27]))
        | Inl (NoCurrentDir err) \<Rightarrow> Err (SessionE (''can'' @ [CHR 0x27] @ ''t resolve monitor path: '' @ err))))"

definition monitor_document :: "string \<Rightarrow> json \<Rightarrow> json" where
  "monitor_document msg_type message = JObj [(''type'', JStr msg_type), (''message'', message)]"

definition session_error_of :: "kirk_error \<Rightarrow> kirk_error" where
  "session_error_of e = SessionE (error_display e)"

text \<open>\<open>to_string\<close> is \<open>serde_json::to_string\<close>.\<close>

definition monitor_record ::
  "file_env \<Rightarrow> (json \<Rightarrow> string + string) \<Rightarrow> monitor \<Rightarrow> string \<Rightarrow> json \<Rightarrow> files \<Rightarrow> unit result \<times> files" where
  "monitor_record V to_string m msg_type message fs =
     (case to_string (monitor_document msg_type message) of
        Inl err \<Rightarrow> (Err (SessionE (''can'' @ [CHR 0x27] @ ''t encode monitor data: '' @ err)), fs)
      | Inr txt \<Rightarrow>
          (case file_open V (async_file_new (mo_path m) ''w'') fs of
             (Inl e, _, fs1) \<Rightarrow> (Err (session_error_of e), fs1)
           | (Inr _, f, fs1) \<Rightarrow>
               (case file_write V f txt fs1 of
                  (Inl e, fs2) \<Rightarrow> (Err (session_error_of e), fs2)
                | (Inr _, fs2) \<Rightarrow> (Ok (), fs2))))"

text \<open>A handler call: an ignored payload is a success, any failure becomes one fixed text.\<close>

definition monitor_handle ::
  "file_env \<Rightarrow> (json \<Rightarrow> string + string) \<Rightarrow> (str_map \<Rightarrow> json) \<Rightarrow> monitor \<Rightarrow> event_args \<Rightarrow> files
     \<Rightarrow> (string + unit) \<times> files" where
  "monitor_handle V to_string J m a fs =
     (case attached_message J (ea_event a) (ea_payload a) of
        None \<Rightarrow> (Ok (), fs)
      | Some message \<Rightarrow>
          (case monitor_record V to_string m (ea_event a) message fs of
             (Inl _, fs') \<Rightarrow> (Err ''monitor write failed'', fs')
           | (Inr _, fs') \<Rightarrow> (Ok (), fs')))"

text \<open>\<open>ids\<close> gives the pointer of the handler made for each event name.\<close>

definition attach :: "(string \<Rightarrow> handler) \<Rightarrow> registry \<Rightarrow> unit result \<times> registry" where
  "attach ids r = try_fold (\<lambda>r name. register name (ids name) False r) EVENT_TYPES r"

definition detach :: "registry \<Rightarrow> unit result \<times> registry" where
  "detach r = try_fold (\<lambda>r name. unregister name None r) EVENT_TYPES r"

section \<open>The file shows the last event\<close>

definition recorded :: "(str_map \<Rightarrow> json) \<Rightarrow> event_args \<Rightarrow> bool" where
  "recorded J a \<longleftrightarrow> attached_message J (ea_event a) (ea_payload a) \<noteq> None"

definition shown :: "(json \<Rightarrow> string) \<Rightarrow> (str_map \<Rightarrow> json) \<Rightarrow> event_args \<Rightarrow> string" where
  "shown enc J a = enc (monitor_document (ea_event a) (the (attached_message J (ea_event a) (ea_payload a))))"

lemma mode_w: "mode_has (CHR ''w'') ''w''" "\<not> mode_has (CHR ''a'') ''w''" "\<not> mode_has (CHR ''r'') ''w''"
  by (simp_all add: mode_has_def contains_char_def)

lemma monitor_handle_works:
  assumes "fe_open_error V (mo_path m) = None" and "fe_write_error V (mo_path m) = None"
  shows "monitor_handle V (\<lambda>j. Inr (enc j)) J m a fs =
    (Inr (), if recorded J a then fs(mo_path m \<mapsto> shown enc J a) else fs)"
  using assms
  by (auto simp: monitor_handle_def recorded_def shown_def monitor_record_def file_open_def file_write_def
      async_file_new_def mode_w Let_def)

text \<open>The calls of the monitor's handlers for a sequence of events, with what each returned.\<close>

fun monitor_run ::
  "file_env \<Rightarrow> (json \<Rightarrow> string + string) \<Rightarrow> (str_map \<Rightarrow> json) \<Rightarrow> monitor \<Rightarrow> event_args list \<Rightarrow> files
     \<Rightarrow> (string + unit) list \<times> files" where
  "monitor_run V to_string J m [] fs = ([], fs)"
| "monitor_run V to_string J m (a # as) fs =
     (case monitor_handle V to_string J m a fs of
        (r, fs1) \<Rightarrow> (case monitor_run V to_string J m as fs1 of (rs, fs2) \<Rightarrow> (r # rs, fs2)))"

text \<open>
  While the monitor can write, its file shows, after any sequence of events, exactly the
  document of the last one that has a recorder; what came before is gone, other files are untouched
  and no handler reports an error.
\<close>

theorem monitor_shows_last_event:
  assumes "fe_open_error V (mo_path m) = None" and "fe_write_error V (mo_path m) = None"
  shows "monitor_run V (\<lambda>j. Inr (enc j)) J m as fs =
    (replicate (length as) (Inr ()),
     case filter (recorded J) as of [] \<Rightarrow> fs | rs \<Rightarrow> fs(mo_path m \<mapsto> shown enc J (last rs)))"
proof (induction as arbitrary: fs)
  case Nil
  then show ?case by simp
next
  case (Cons a as)
  show ?case
    by (simp add: monitor_handle_works [OF assms] Cons.IH split: list.split)
qed

lemma monitor_shows_last_event_witness:
  "snd (monitor_run demo_file_env (\<lambda>j. Inr (case json_get ''type'' j of Some (JStr t) \<Rightarrow> t | _ \<Rightarrow> []))
      (\<lambda>_. JNull) \<lparr> mo_path = ''/m'' \<rparr>
      [\<lparr> ea_event = ''sut_start'', ea_payload = P_Text ''qemu'' \<rparr>,
       \<lparr> ea_event = ''session_completed'', ea_payload = P_SessionCompleted [] \<rparr>] Map.empty)
    = [''/m'' \<mapsto> ''sut_start'']"
  using monitor_shows_last_event [of demo_file_env "\<lparr> mo_path = ''/m'' \<rparr>"
      "\<lambda>j. case json_get ''type'' j of Some (JStr t) \<Rightarrow> t | _ \<Rightarrow> []" "\<lambda>_. JNull"
      "[\<lparr> ea_event = ''sut_start'', ea_payload = P_Text ''qemu'' \<rparr>,
        \<lparr> ea_event = ''session_completed'', ea_payload = P_SessionCompleted [] \<rparr>]" Map.empty]
  by (simp add: demo_file_env_def recorded_def shown_def attached_message_def text_message_def monitor_document_def)

section \<open>Detaching\<close>

lemma unregister_all:
  "[] \<notin> set names \<Longrightarrow>
   fst (try_fold (\<lambda>r name. unregister name None r) names r) = Inr () \<and>
   rg_events (snd (try_fold (\<lambda>r name. unregister name None r) names r)) = rg_events r |` (- set names)"
proof (induction names arbitrary: r)
  case Nil
  then show ?case by (simp add: restrict_map_def)
next
  case (Cons n names)
  from Cons.prems have "n \<noteq> []" by auto
  then have "unregister n None r = (Inr (), r\<lparr>rg_events := (rg_events r)(n := None)\<rparr>)"
    by (simp add: unregister_def)
  with Cons show ?case by (auto simp: restrict_map_def fun_eq_iff)
qed

lemma event_types_named: "[] \<notin> set EVENT_TYPES"
  by (simp add: EVENT_TYPES_def)

text \<open>
  Detaching a monitor removes more than the monitor: for each of its event names every
  handler goes, also those other subscribers (the user interface) registered, while the handlers of
  other events stay.
\<close>

theorem detach_removes_other_subscribers:
  "fst (detach r) = Inr () \<and>
   (\<forall>name. rg_events (snd (detach (snd (register name h ordered (snd (attach ids r)))))) name =
      (if name \<in> set EVENT_TYPES then None
       else rg_events (snd (register name h ordered (snd (attach ids r)))) name))"
  using unregister_all [OF event_types_named] by (simp add: detach_def restrict_map_def)

section \<open>What is fired has the shape the monitor expects\<close>

text \<open>The event names each payload is fired under.\<close>

fun shape_names :: "event_payload \<Rightarrow> string set" where
  "shape_names P_None = {''session_stopped'', ''sut_not_responding'', ''kernel_panic''}"
| "shape_names (P_Text _) =
     {''session_restore'', ''sut_start'', ''sut_stop'', ''sut_restart'', ''run_cmd_start'',
      ''session_warning'', ''session_error'', ''kernel_tainted'', ''session_dry_run_command''}"
| "shape_names (P_SessionStarted _ _) = {''session_started''}"
| "shape_names (P_Test _) = {''test_started''}"
| "shape_names (P_TestResults _) = {''test_completed''}"
| "shape_names (P_TestTimedOut _ _) = {}"
| "shape_names (P_Suite _) = {''suite_started''}"
| "shape_names (P_SuiteCompleted _ _) = {''suite_completed''}"
| "shape_names (P_SuiteTimeout _ _) = {''suite_timeout''}"
| "shape_names (P_Suites _) = {''session_dry_run''}"
| "shape_names (P_SessionCompleted _) = {''session_completed''}"
| "shape_names (P_RunCmdStop _ _ _) = {''run_cmd_stop''}"
| "shape_names (P_SutStdout _ _) = {''sut_stdout''}"
| "shape_names (P_TestStdout _ _) = {''test_stdout''}"

definition shaped :: "string \<times> event_payload \<Rightarrow> bool" where
  "shaped e \<longleftrightarrow> fst e \<in> shape_names (snd e)"

lemma shaped_recorded:
  "shaped (n, p) \<Longrightarrow> n \<in> set EVENT_TYPES \<Longrightarrow> attached_message J n p \<noteq> None"
  by (cases p) (auto simp: shaped_def EVENT_TYPES_def attached_message_def text_message_def)

lemma shaped_not_timed_out: "shaped e \<Longrightarrow> fst e \<noteq> ''test_timed_out''"
  by (cases e; cases "snd e") (auto simp: shaped_def)

definition fired_shaped :: "'w sched \<Rightarrow> bool" where
  "fired_shaped s \<longleftrightarrow> list_all shaped (sc_events s)"

lemma shaped_fire [intro!]: "shaped (n, p) \<Longrightarrow> keeps fired_shaped (fire_event n p)"
  unfolding fire_event_def by (rule keeps_upd) (simp add: fired_shaped_def)

lemma shaped_world [intro!]: "keeps fired_shaped (on_world a)"
  unfolding on_world_def by (rule keeps_on_part) (simp add: fired_shaped_def)

lemma shaped_stop_cnt [intro!]: "keeps fired_shaped (stop_cnt E)"
  by (simp add: stop_cnt_def)

text \<open>The events a test can cause, and actions that fire no others.\<close>

definition task_event :: "test \<Rightarrow> string \<times> event_payload \<Rightarrow> bool" where
  "task_event test e \<longleftrightarrow>
     e = (''test_started'', P_Test test) \<or> (\<exists>txt. e = (''test_stdout'', P_TestStdout test txt)) \<or>
     (\<exists>r. e = (''test_completed'', P_TestResults r)) \<or> (\<exists>m. e = (''kernel_tainted'', P_Text m)) \<or>
     e = (''kernel_panic'', P_None) \<or> e = (''sut_not_responding'', P_None)"

definition added ::
  "(string \<times> event_payload \<Rightarrow> bool) \<Rightarrow> (string \<times> event_payload) list \<Rightarrow> 'w sched \<Rightarrow> bool" where
  "added T base s \<longleftrightarrow> (\<exists>es. sc_events s = base @ es \<and> list_all T es)"

definition adds :: "(string \<times> event_payload \<Rightarrow> bool) \<Rightarrow> ('a, 'w sched) action \<Rightarrow> bool" where
  "adds T a \<longleftrightarrow> (\<forall>base. keeps (added T base) a)"

lemma added_update [simp]:
  "added T base (s\<lparr>sc_world := w\<rparr>) = added T base s" "added T base (s\<lparr>sc_results := rs\<rparr>) = added T base s"
  "added T base (s\<lparr>sc_capture := c\<rparr>) = added T base s"
  by (simp_all add: added_def)

lemma added_event: "added T base s \<Longrightarrow> T e \<Longrightarrow> added T base (s\<lparr>sc_events := sc_events s @ [e]\<rparr>)"
  by (auto simp: added_def)

lemma adds_simple [intro!]:
  "adds T (pure x)" "adds T (get f)" "adds T (on_world c)" "adds T (stop_cnt E)"
  "adds T (upd (\<lambda>s. s\<lparr>sc_capture := h s\<rparr>))" "adds T (upd (\<lambda>s. s\<lparr>sc_results := g s\<rparr>))"
  by (auto simp: adds_def on_world_def intro!: keeps_on_part keeps_upd)

lemma adds_fire [intro!]: "T (n, p) \<Longrightarrow> adds T (fire_event n p)"
  by (auto simp: adds_def fire_event_def intro!: keeps_upd added_event)

lemma adds_bind [intro!]: "adds T a \<Longrightarrow> (\<And>x. adds T (k x)) \<Longrightarrow> adds T (bind a k)"
  by (auto simp: adds_def intro: keeps_bind)

lemma adds_limited [intro!]: "adds T a \<Longrightarrow> adds T (limited d a)"
  and adds_timeout [intro!]: "adds T a \<Longrightarrow> adds T (with_timeout k a)"
  by (auto simp: adds_def intro: keeps_limited keeps_with_timeout)

lemma adds_streaming [intro!]: "adds (task_event test) (run_streaming E test c)"
proof -
  have "added (task_event test) base (fold (push test) xs s)" if "added (task_event test) base s"
    for base xs and s :: "'a sched"
    using that
    by (induction xs arbitrary: s) (auto simp: push_def added_def task_event_def)
  then show ?thesis
    by (auto simp: adds_def keeps_def spec_def run_streaming_def Let_def)
qed

lemma adds_kmsg [intro!]: "adds T (write_kmsg E test parsed)"
  by (auto simp: write_kmsg_def Let_def)

lemma adds_exec [intro!]: "adds (task_event test) (exec_test E tmo test)"
  unfolding exec_test_def exec_command_def diagnose_def judge_def post_taint_def Let_def
  by (intro adds_bind adds_limited adds_simple)
    (auto split: sum.splits kirk_error.splits option.splits prod.splits simp: task_event_def)

text \<open>Whatever the SUT does, a task of the pool fires the events of its test only.\<close>

lemma adds_one: "adds (task_event test) (run_one E tmo test)"
proof -
  have raised: "adds (task_event test) (raise_status st detail)" for st detail
    by (auto simp: raise_status_def task_event_def split: test_status.split)
  show ?thesis
    unfolding run_one_def record_result_def
    by (auto intro!: raised split: option.split sum.split) (simp_all add: task_event_def)
qed

definition fires_tasks :: "(test list \<Rightarrow> ('a, 'w sched) action) \<Rightarrow> bool" where
  "fires_tasks par \<longleftrightarrow> (\<forall>ts. adds (\<lambda>e. \<exists>test\<in>set ts. task_event test e) (par ts))"

lemma adds_mono:
  fixes a :: "('a, 'w sched) action"
  assumes "adds T a" and "\<And>e. T e \<Longrightarrow> T' e"
  shows "adds T' a"
  unfolding adds_def keeps_def
proof (intro allI specI)
  have grow: "\<exists>es. sc_events u = base @ es \<and> list_all T' es"
    if "added T (sc_events s) u" and "added T' base s" for base and s u :: "'w sched"
  proof -
    from that obtain es es' where "sc_events u = base @ es @ es'" "list_all T' es" "list_all T es'"
      by (auto simp: added_def)
    moreover from this(3) have "list_all T' es'" using assms(2) by (auto simp: list_all_iff)
    ultimately show ?thesis by (intro exI [of _ "es @ es'"]) simp
  qed
  fix base and s :: "'w sched"
  assume s: "added T' base s"
  have here: "added T (sc_events s) s" by (simp add: added_def)
  have "keeps (added T (sc_events s)) a" using assms(1) by (simp add: adds_def)
  with here have "added T (sc_events s) (fut_done (a s))" "added T (sc_events s) (fut_dropped (a s) t)" for t
    by (simp_all add: keeps_def spec_def)
  note after = this
  from s show "added T' base (fut_done (a s))" "added T' base (fut_dropped (a s) t)" for t
    using grow [OF after(1)] grow [OF after(2)] unfolding added_def by blast+
qed

lemma run_tests_fires_tasks: "fires_tasks (run_tests E tmo)"
  unfolding fires_tasks_def
proof
  fix ts
  show "adds (\<lambda>e. \<exists>test\<in>set ts. task_event test e) (run_tests E tmo ts)"
  proof (induction ts)
    case Nil
    show ?case by (simp add: adds_simple)
  next
    case (Cons t ts)
    then have "adds (\<lambda>e. \<exists>test\<in>set (t # ts). task_event test e) (run_tests E tmo ts)"
      by (rule adds_mono) auto
    moreover have "adds (\<lambda>e. \<exists>test\<in>set (t # ts). task_event test e) (run_one E tmo t)"
      using adds_one by (rule adds_mono) auto
    ultimately show ?case by (auto split: option.split)
  qed
qed

lemma task_event_shaped: "task_event test e \<Longrightarrow> shaped e"
  by (auto simp: task_event_def shaped_def)

lemma fires_tasks_shaped:
  fixes par :: "test list \<Rightarrow> ('a, 'w sched) action"
  assumes "fires_tasks par"
  shows "keeps fired_shaped (par ts)"
proof -
  have "adds (\<lambda>e. \<exists>test\<in>set ts. task_event test e) (par ts)" using assms by (simp add: fires_tasks_def)
  then have "adds shaped (par ts)" by (rule adds_mono) (auto intro: task_event_shaped)
  then have "keeps (added shaped []) (par ts)" by (simp add: adds_def)
  moreover have eq: "fired_shaped = (added shaped [] :: 'w sched \<Rightarrow> bool)"
    by (simp add: fun_eq_iff fired_shaped_def added_def)
  ultimately show ?thesis unfolding eq by blast
qed

lemma shaped_tests [intro!]: "keeps fired_shaped (run_tests E tmo ts)"
  by (rule fires_tasks_shaped [OF run_tests_fires_tasks])

text \<open>
  A scheduler whose pool, where it is used, runs the tests it is given: with more than one worker,
  \<open>run_parallel\<close> fires nothing of its own and each of its tasks is \<open>run_one\<close> of one of the tests.
\<close>

definition pool_of_tasks :: "'w suite_cfg \<Rightarrow> bool" where
  "pool_of_tasks cfg \<longleftrightarrow> cf_max_workers cfg \<le> 1 \<or> fires_tasks (cf_par cfg)"

lemma shaped_schedule:
  assumes "mw \<le> 1 \<or> fires_tasks par"
  shows "keeps fired_shaped (schedule_tests E tmo mw par ts)"
proof -
  have pool: "1 < mw \<Longrightarrow> keeps fired_shaped (par us)" for us
    using assms fires_tasks_shaped [of par us] by auto
  have "keeps fired_shaped (upd (\<lambda>s. s\<lparr>sc_results := []\<rparr>))"
    by (auto intro!: keeps_upd simp: fired_shaped_def)
  then show ?thesis
    unfolding schedule_tests_def drive_def run_sequential_def
    by (auto intro!: keeps_bind pool split: sum.split)
qed

lemma shaped_stop [intro!]: "keeps fired_shaped (stop_tests E)"
  unfolding stop_tests_def
  by (auto intro!: keeps_bind keeps_when keeps_upd simp: fired_shaped_def)

lemma shaped_drive [intro!]:
  assumes "pool_of_tasks cfg"
  shows "keeps fired_shaped (drive_suite n E cfg suite left loop)"
proof -
  have rounds: "keeps fired_shaped (suite_round E cfg suite ts l)" for ts l
    using shaped_schedule [OF assms [unfolded pool_of_tasks_def]]
    unfolding suite_round_def settle_def inner_schedule_def restart_sut_def Let_def
    by (auto intro!: keeps_bind keeps_limited shaped_fire simp: shaped_def split: option.split prod.split sum.split)
  show ?thesis
    by (induction n arbitrary: left loop)
      (auto intro!: keeps_bind rounds simp: Let_def split: prod.split sum.split)
qed

section \<open>A whole session\<close>

definition suites_shaped :: "'w suite_sched \<Rightarrow> bool" where
  "suites_shaped s \<longleftrightarrow> fired_shaped (su_inner s)"

definition session_shaped :: "'w session \<Rightarrow> bool" where
  "session_shaped s \<longleftrightarrow> suites_shaped (se_suites s)"

lemma keeps_part:
  assumes "keeps Q a" and "\<And>s. P s \<longleftrightarrow> Q (part s)" and "\<And>p s. part (put p s) = p"
  shows "keeps P (on_part part put a)"
  using assms by (simp add: keeps_def spec_def)

lemma shaped_inner [intro!]: "keeps fired_shaped a \<Longrightarrow> keeps suites_shaped (on_inner a)"
  unfolding on_inner_def by (rule keeps_part) (auto simp: suites_shaped_def)

lemma shaped_suites [intro!]: "keeps suites_shaped a \<Longrightarrow> keeps session_shaped (on_suites a)"
  unfolding on_suites_def by (rule keeps_part) (auto simp: session_shaped_def)

lemma shaped_run_suites:
  assumes "pool_of_tasks cfg"
  shows "keeps suites_shaped (run_suites n E cfg suites)"
proof -
  have "keeps suites_shaped (run_suite n E cfg suite)" for suite
    unfolding run_suite_def Let_def
    by (auto intro!: keeps_bind keeps_upd shaped_drive [OF assms] shaped_fire simp: shaped_def suites_shaped_def
        split: sum.split option.split prod.split)
  then show ?thesis
    by (induction suites) (auto intro!: keeps_bind split: option.split sum.split)
qed

lemma shaped_schedule_suites:
  "pool_of_tasks cfg \<Longrightarrow> keeps suites_shaped (schedule_suites n E cfg suites)"
  unfolding schedule_suites_def
  by (auto intro!: keeps_bind keeps_upd shaped_run_suites simp: suites_shaped_def)

lemma shaped_stop_suites [intro!]: "keeps suites_shaped (stop_suites E)"
  unfolding stop_suites_def
  by (auto intro!: keeps_bind keeps_upd shaped_inner simp: suites_shaped_def fired_shaped_def)

lemma shaped_notify [intro!]: "shaped (n, p) \<Longrightarrow> keeps session_shaped (notify n p)"
  unfolding notify_def by auto

lemma shaped_on_env [intro!]: "keeps session_shaped (on_env d)"
  unfolding on_env_def by auto

lemma shaped_stopping [intro!]: "keeps session_shaped (session_stopping X)"
  by (simp add: session_stopping_def)

lemma shaped_results [intro!]: "keeps session_shaped (upd (\<lambda>s. s\<lparr>se_results := f s\<rparr>))"
  by (rule keeps_upd) (simp add: session_shaped_def)

lemma shaped_try [intro!]:
  "keeps session_shaped a \<Longrightarrow> (\<And>x. keeps session_shaped (k x)) \<Longrightarrow> keeps session_shaped (try_bind a k)"
  unfolding try_bind_def by (auto intro!: keeps_bind split: sum.split)

lemmas shaped_intros = keeps_bind keeps_when keeps_limited shaped_notify shaped_on_env shaped_stopping
  shaped_results shaped_try shaped_suites shaped_stop_suites

lemma shaped_find [intro!]: "keeps session_shaped (find_suites X names)"
  by (induction names) (auto intro!: shaped_intros)

lemma shaped_read [intro!]: "keeps session_shaped (read_suites X opts)"
  unfolding read_suites_def get_suites_objects_def restore_tests_def Let_def
  by (auto intro!: shaped_intros split: option.split simp: shaped_def)

lemma shaped_command [intro!]: "keeps session_shaped (exec_session_command X c)"
  unfolding exec_session_command_def Let_def
  by (auto intro!: shaped_intros split: option.split sum.split simp: shaped_def)

lemma shaped_fault [intro!]: "keeps session_shaped (apply_fault_injection X p i)"
  unfolding apply_fault_injection_def fault_warning_def
  by (auto intro!: shaped_intros split: option.split sum.split bool.split simp: shaped_def)

lemma shaped_lines [intro!]: "keeps session_shaped (write_lines X ls)"
  by (induction ls) (auto intro!: shaped_intros)

lemma shaped_append [intro!]: "keeps session_shaped (append_executed X rs)"
proof -
  have "keeps session_shaped (write_suites X rs)" by (induction rs) (auto intro!: shaped_intros)
  then show ?thesis by (auto simp: append_executed_def intro!: shaped_intros)
qed

lemma shaped_stop_session [intro!]: "keeps session_shaped (inner_stop X)"
  unfolding inner_stop_def stop_sut_def by (auto intro!: shaped_intros simp: shaped_def)

lemma shaped_once:
  "pool_of_tasks (sx_cfg X) \<Longrightarrow> keeps session_shaped (schedule_once X suites)"
  unfolding schedule_once_def by (auto intro!: shaped_intros shaped_schedule_suites)

lemma shaped_infinite:
  "pool_of_tasks (sx_cfg X) \<Longrightarrow> keeps session_shaped (schedule_infinite n X suites k)"
  by (induction n arbitrary: k)
    (auto intro!: shaped_intros shaped_once split: option.split sum.split)

lemma shaped_inner_run:
  assumes "pool_of_tasks (sx_cfg X)"
  shows "keeps session_shaped (run_inner X opts)"
proof -
  have "keeps session_shaped (run_scheduler X suites runtime)" for suites runtime
    using assms unfolding run_scheduler_def
    by (auto intro!: shaped_intros shaped_infinite shaped_once)
  then have "keeps session_shaped (run_selected X opts)"
    unfolding run_selected_def Let_def by (auto intro!: shaped_intros split: sum.split simp: shaped_def)
  moreover have "keeps session_shaped (announce_run X opts)"
    unfolding announce_run_def by (auto intro!: shaped_intros split: option.split simp: shaped_def)
  moreover have "keeps session_shaped (prepare_run X opts)"
    unfolding prepare_run_def start_sut_def by (auto intro!: shaped_intros split: option.split simp: shaped_def)
  ultimately show ?thesis unfolding run_inner_def by (auto intro!: shaped_intros split: sum.split)
qed

lemma shaped_finish: "keeps session_shaped (finish_run X opts outcome)"
proof -
  have "keeps session_shaped (export_all X rs out ts)" for rs out ts
    by (induction ts) (auto intro!: shaped_intros split: sum.split simp: shaped_def)
  then show ?thesis
    unfolding finish_run_def report_failure_def hand_over_def
    by (auto intro!: shaped_intros split: sum.split simp: shaped_def)
qed

lemma shaped_session:
  "pool_of_tasks (sx_cfg X) \<Longrightarrow> keeps session_shaped (session_run X opts)"
  unfolding session_run_def by (auto intro!: shaped_intros shaped_inner_run shaped_finish split: option.split)

lemma session_events_shaped:
  assumes "pool_of_tasks (sx_cfg X)" and "events_of s = []"
    and "e \<in> set (events_of (fut_done (session_run X opts s))) \<or>
      e \<in> set (events_of (fut_dropped (session_run X opts s) t))"
  shows "shaped e"
proof -
  have "session_shaped s" using assms(2)
    by (simp add: session_shaped_def suites_shaped_def fired_shaped_def events_of_def)
  with shaped_session [OF assms(1), of opts] have
    "session_shaped (fut_done (session_run X opts s))" "session_shaped (fut_dropped (session_run X opts s) t)"
    by (simp_all add: keeps_def spec_def)
  with assms(3) show "shaped e"
    by (auto simp: session_shaped_def suites_shaped_def fired_shaped_def events_of_def list_all_iff)
qed

text \<open>
  The monitor never has to skip what a session fires: each event of a run,
  finished or cancelled at any time, that has a recorder carries the payload this recorder takes.
  The recorder of \<open>test_timed_out\<close> is never used: a test that times out fires no such event.
\<close>

theorem session_events_are_recorded:
  assumes "pool_of_tasks (sx_cfg X)" and "events_of s = []"
    and "e \<in> set (events_of (fut_done (session_run X opts s))) \<or>
      e \<in> set (events_of (fut_dropped (session_run X opts s) t))"
  shows "(fst e \<in> set EVENT_TYPES \<longrightarrow> attached_message J (fst e) (snd e) \<noteq> None) \<and> fst e \<noteq> ''test_timed_out''"
  using session_events_shaped [OF assms] shaped_recorded shaped_not_timed_out by (metis prod.collapse)

lemma session_events_are_recorded_witness:
  "list_all (\<lambda>e. fst e \<noteq> ''test_timed_out'')
     (events_of (fut_done (session_run demo_session (demo_options [''syscalls'']) (session_new 0))))"
  unfolding list_all_iff
proof
  fix e
  assume "e \<in> set (events_of (fut_done (session_run demo_session (demo_options [''syscalls'']) (session_new 0))))"
  then show "fst e \<noteq> ''test_timed_out''"
    using session_events_are_recorded [of demo_session "session_new 0" e "demo_options [''syscalls'']" 0 "\<lambda>_. JNull"]
    by (simp add: demo_session_def demo_cfg_def suite_cfg_new_def clamp_workers_def pool_of_tasks_def events_of_def session_new_def
        suite_sched_new_def sched_new_def)
qed

end
