(* ===== verification/Ltx_Request.thy ===== *)
theory Ltx_Request
  imports Core_Types
begin

text \<open>
  Crate \<open>kirk-com-ltx\<close>, \<open>request.rs\<close>: the requests of the LTX protocol as state machines. A frame is a
  flat list of scalar fields; each request is fed every frame the peer sends and gives its reply once.
  The msgpack encoding itself is a parameter of the transport; here are the fields that are packed
  and the visitors that turn a decoded value into a frame.
\<close>

definition OP_ERROR :: u8 where "OP_ERROR = 0xFF"
definition OP_VERSION :: u8 where "OP_VERSION = 0x00"
definition OP_PING :: u8 where "OP_PING = 0x01"
definition OP_PONG :: u8 where "OP_PONG = 0x02"
definition OP_GET_FILE :: u8 where "OP_GET_FILE = 0x03"
definition OP_SET_FILE :: u8 where "OP_SET_FILE = 0x04"
definition OP_ENV :: u8 where "OP_ENV = 0x05"
definition OP_CWD :: u8 where "OP_CWD = 0x06"
definition OP_EXEC :: u8 where "OP_EXEC = 0x07"
definition OP_RESULT :: u8 where "OP_RESULT = 0x08"
definition OP_LOG :: u8 where "OP_LOG = 0x09"
definition OP_DATA :: u8 where "OP_DATA = 0xA0"
definition OP_KILL :: u8 where "OP_KILL = 0xA1"

lemmas opcodes = OP_ERROR_def OP_VERSION_def OP_PING_def OP_PONG_def OP_GET_FILE_def OP_SET_FILE_def
  OP_ENV_def OP_CWD_def OP_EXEC_def OP_RESULT_def OP_LOG_def OP_DATA_def OP_KILL_def

definition MAX_SLOTS :: u8 where "MAX_SLOTS = 127"
definition ALL_SLOTS :: u8 where "ALL_SLOTS = 128"
definition MAX_FIELDS :: nat where "MAX_FIELDS = 8"
definition MAX_FIELD_BYTES :: nat where "MAX_FIELD_BYTES = 8 * 2 ^ 20"
definition LTX_STDOUT_BYTES :: nat where "LTX_STDOUT_BYTES = 16 * 2 ^ 20"
definition MAX_FILE_BYTES :: nat where "MAX_FILE_BYTES = 64 * 2 ^ 20"

definition slot_id_new :: "u8 \<Rightarrow> u8 result" where
  "slot_id_new i =
     (if i \<le> MAX_SLOTS then Ok i
      else Err (LtxE (''Out of bounds slot ID [0-'' @ show_nat (unat MAX_SLOTS) @ '']'')))"

definition check_broadcast_slot :: "u8 option \<Rightarrow> u8 result" where
  "check_broadcast_slot slot =
     (case slot of
        None \<Rightarrow> Ok ALL_SLOTS
      | Some i \<Rightarrow>
          if i \<le> ALL_SLOTS then Ok i
          else Err (LtxE (''Out of bounds slot ID [0-'' @ show_nat (unat ALL_SLOTS) @ '']'')))"

section \<open>Fields\<close>

datatype field =
    F_Nil
  | F_Bool bool
  | F_U64 u64
  | F_I64 u64
  | F_F64 f64
  | F_Str string
  | F_Bin string

text \<open>\<open>F_I64\<close> holds the bits of an \<open>i64\<close>, read with \<open>sint\<close>.\<close>

definition no_opcode :: "int \<Rightarrow> kirk_error" where
  "no_opcode v = LtxE (''integer '' @ show_int v @ '' does not fit in a msgpack opcode'')"

fun as_u8 :: "field \<Rightarrow> u8 result" where
  "as_u8 (F_U64 v) = (if unat v < 256 then Ok (of_nat (unat v)) else Err (no_opcode (uint v)))"
| "as_u8 (F_I64 v) =
     (if 0 \<le> sint v \<and> sint v < 256 then Ok (of_int (sint v)) else Err (no_opcode (sint v)))"
| "as_u8 _ = Err (LtxE ''message opcode must be an integer'')"

fun as_u64 :: "field \<Rightarrow> u64 result" where
  "as_u64 (F_U64 v) = Ok v"
| "as_u64 (F_I64 v) =
     (if 0 \<le> sint v then Ok (of_int (sint v)) else Err (LtxE (''negative timestamp '' @ show_int (sint v))))"
| "as_u64 _ = Err (LtxE ''expected an integer field'')"

definition i32_of :: "int \<Rightarrow> int result" where
  "i32_of v =
     (if in_i32 v then Ok v else Err (LtxE (''integer '' @ show_int v @ '' does not fit in i32'')))"

fun as_i32 :: "field \<Rightarrow> int result" where
  "as_i32 (F_U64 v) =
     (if in_i64 (uint v) then i32_of (uint v)
      else Err (LtxE (''integer '' @ show_int (uint v) @ '' does not fit in i32'')))"
| "as_i32 (F_I64 v) = i32_of (sint v)"
| "as_i32 _ = Err (LtxE ''expected an integer field'')"

fun as_str :: "field \<Rightarrow> string result" where
  "as_str (F_Str s) = Ok s"
| "as_str _ = Err (LtxE ''expected a string field'')"

fun as_bytes :: "field \<Rightarrow> string result" where
  "as_bytes (F_Bin b) = Ok b"
| "as_bytes (F_Str s) = Ok s"
| "as_bytes _ = Err (LtxE ''expected a bytes field'')"

section \<open>Decoding\<close>

text \<open>
  The msgpack reader is a parameter: from the head of a buffer it reads one token (a scalar, or the
  head of an array or a map with its length) and the bytes it took, runs out of bytes, or fails.
  The visitors the reader drives are below: over-long and nested fields are refused, and so is a
  frame of more than \<open>MAX_FIELDS\<close> fields or a message that is no array.
\<close>

datatype token =
    T_Nil
  | T_Bool bool
  | T_Unsigned u64
  | T_Signed u64
  | T_Float f64
  | T_Str string
  | T_Bin string
  | T_Array nat
  | T_Map nat

datatype decode_error =
    Truncated
  | Corrupt string

type_synonym token_reader = "string \<Rightarrow> decode_error + (token \<times> nat)"

definition check_field_len :: "nat \<Rightarrow> decode_error + unit" where
  "check_field_len len =
     (if len \<le> MAX_FIELD_BYTES then Ok ()
      else Err (Corrupt
        (''field of '' @ show_nat len @ '' bytes exceeds '' @ show_nat MAX_FIELD_BYTES @ '' bytes'')))"

fun field_visit :: "token \<Rightarrow> decode_error + field" where
  "field_visit T_Nil = Ok F_Nil"
| "field_visit (T_Bool b) = Ok (F_Bool b)"
| "field_visit (T_Unsigned v) = Ok (F_U64 v)"
| "field_visit (T_Signed v) = Ok (F_I64 v)"
| "field_visit (T_Float x) = Ok (F_F64 x)"
| "field_visit (T_Str s) = and_then (check_field_len (length s)) (\<lambda>_. Ok (F_Str s))"
| "field_visit (T_Bin b) = and_then (check_field_len (length b)) (\<lambda>_. Ok (F_Bin b))"
| "field_visit (T_Array _) = Err (Corrupt ''nested arrays are not valid LTX fields'')"
| "field_visit (T_Map _) = Err (Corrupt ''nested maps are not valid LTX fields'')"

type_synonym frame = "field list"

text \<open>\<open>visit_seq\<close> of a frame: \<open>n\<close> elements are left, \<open>acc\<close> was read, \<open>used\<close> bytes were taken.\<close>

fun visit_seq :: "token_reader \<Rightarrow> nat \<Rightarrow> frame \<Rightarrow> nat \<Rightarrow> string \<Rightarrow> decode_error + (frame \<times> nat)" where
  "visit_seq rd 0 acc used buf = Ok (acc, used)"
| "visit_seq rd (Suc n) acc used buf =
     and_then (rd buf) (\<lambda>(t, k).
       and_then (field_visit t) (\<lambda>f.
         if MAX_FIELDS < length acc + 1 then Err (Corrupt ''message has too many fields'')
         else visit_seq rd n (acc @ [f]) (used + k) (drop k buf)))"

definition frame_deserialize :: "token_reader \<Rightarrow> string \<Rightarrow> decode_error + (frame \<times> nat)" where
  "frame_deserialize rd buf =
     and_then (rd buf) (\<lambda>(t, k).
       case t of
         T_Array n \<Rightarrow> visit_seq rd n [] k (drop k buf)
       | _ \<Rightarrow> Err (Corrupt ''expected an LTX message array''))"

section \<open>Requests and replies\<close>

datatype reply =
    Reply_Version string
  | Reply_Ping u64
  | Reply_Env u8 string string
  | Reply_Cwd u8 string
  | Reply_GetFile string string
  | Reply_SetFile string string
  | Reply_Execute u64 int int string
  | Reply_Kill u8

record version_req =
  ve_completed :: bool

record ping_req =
  pi_completed :: bool
  pi_echoed :: bool

record env_req =
  en_completed :: bool
  en_slot :: u8
  en_key :: string
  en_value :: string

record cwd_req =
  cw_completed :: bool
  cw_slot :: u8
  cw_path :: string

record get_file_req =
  gf_completed :: bool
  gf_path :: string
  gf_data :: string

record set_file_req =
  sf_completed :: bool
  sf_path :: string
  sf_data :: string

text \<open>\<open>ex_stdout_tx\<close>: the chunks sent to the stdout channel, when there is one.\<close>

record execute_req =
  ex_completed :: bool
  ex_echoed :: bool
  ex_slot :: u8
  ex_command :: string
  ex_stdout_tx :: "string list option"
  ex_stdout :: string

record kill_req =
  ki_completed :: bool
  ki_slot :: u8

datatype request =
    R_Version version_req
  | R_Ping ping_req
  | R_Env env_req
  | R_Cwd cwd_req
  | R_GetFile get_file_req
  | R_SetFile set_file_req
  | R_Execute execute_req
  | R_Kill kill_req

definition req_version :: request where
  "req_version = R_Version \<lparr> ve_completed = False \<rparr>"

definition req_ping :: request where
  "req_ping = R_Ping \<lparr> pi_completed = False, pi_echoed = False \<rparr>"

definition req_env :: "u8 option \<Rightarrow> string \<Rightarrow> string \<Rightarrow> request result" where
  "req_env slot key val =
     and_then (check_broadcast_slot slot) (\<lambda>slot.
       if key = [] then Err (LtxE ''key is empty'')
       else if val = [] then Err (LtxE ''value is empty'')
       else Ok (R_Env \<lparr> en_completed = False, en_slot = slot, en_key = key, en_value = val \<rparr>))"

definition req_cwd :: "u8 option \<Rightarrow> string \<Rightarrow> request result" where
  "req_cwd slot path =
     and_then (check_broadcast_slot slot) (\<lambda>slot.
       if path = [] then Err (LtxE ''path is empty'')
       else Ok (R_Cwd \<lparr> cw_completed = False, cw_slot = slot, cw_path = path \<rparr>))"

definition req_get_file :: "string \<Rightarrow> request result" where
  "req_get_file path =
     (if path = [] then Err (LtxE ''path is empty'')
      else Ok (R_GetFile \<lparr> gf_completed = False, gf_path = path, gf_data = [] \<rparr>))"

definition req_set_file :: "string \<Rightarrow> string \<Rightarrow> request result" where
  "req_set_file path content =
     (if path = [] then Err (LtxE ''path is empty'')
      else if content = [] then Err (LtxE ''data is empty'')
      else Ok (R_SetFile \<lparr> sf_completed = False, sf_path = path, sf_data = content \<rparr>))"

definition execute_inner :: "u8 \<Rightarrow> string \<Rightarrow> string list option \<Rightarrow> request result" where
  "execute_inner slot command stdout_tx =
     (if command = [] then Err (LtxE ''Command is empty'')
      else Ok (R_Execute \<lparr> ex_completed = False, ex_echoed = False, ex_slot = slot,
                 ex_command = command, ex_stdout_tx = stdout_tx, ex_stdout = [] \<rparr>))"

definition req_execute :: "u8 \<Rightarrow> string \<Rightarrow> request result" where
  "req_execute slot command = execute_inner slot command None"

definition req_execute_with_stdout :: "u8 \<Rightarrow> string \<Rightarrow> request result" where
  "req_execute_with_stdout slot command = execute_inner slot command (Some [])"

definition req_kill :: "u8 \<Rightarrow> request" where
  "req_kill slot = R_Kill \<lparr> ki_completed = False, ki_slot = slot \<rparr>"

text \<open>How the peer and the packer write an opcode.\<close>

abbreviation op :: "u8 \<Rightarrow> field" where
  "op c \<equiv> F_U64 (ucast c)"

section \<open>Feeding frames\<close>

definition get_field :: "nat \<Rightarrow> frame \<Rightarrow> field option" where
  "get_field i msg = (if i < length msg then Some (msg ! i) else None)"

definition frame_opcode :: "frame \<Rightarrow> u8 option" where
  "frame_opcode msg = (case msg of [] \<Rightarrow> None | f # _ \<Rightarrow> (case as_u8 f of Inr v \<Rightarrow> Some v | Inl _ \<Rightarrow> None))"

text \<open>A frame without a slot field matches every slot; a slot is only read from an unsigned field.\<close>

definition frame_targets_slot :: "frame \<Rightarrow> u8 \<Rightarrow> bool" where
  "frame_targets_slot msg slot =
     (if length msg \<le> 1 then True
      else (case get_field 1 msg of Some (F_U64 i) \<Rightarrow> i = ucast slot | _ \<Rightarrow> False))"

definition field_at :: "string \<Rightarrow> nat \<Rightarrow> (field \<Rightarrow> 'a result) \<Rightarrow> frame \<Rightarrow> 'a result" where
  "field_at malformed i read msg = and_then (ok_or (LtxE malformed) (get_field i msg)) read"

definition version_feed :: "version_req \<Rightarrow> frame \<Rightarrow> reply option result \<times> version_req" where
  "version_feed r msg =
     (if ve_completed r then (Ok None, r)
      else if frame_opcode msg = Some OP_VERSION then
        (case field_at ''malformed VERSION reply'' 1 as_str msg of
           Inl e \<Rightarrow> (Err e, r)
         | Inr v \<Rightarrow> (Ok (Some (Reply_Version v)), r\<lparr>ve_completed := True\<rparr>))
      else (Ok None, r))"

definition ping_feed :: "ping_req \<Rightarrow> frame \<Rightarrow> reply option result \<times> ping_req" where
  "ping_feed r msg =
     (if pi_completed r then (Ok None, r)
      else if frame_opcode msg = Some OP_PING then (Ok None, r\<lparr>pi_echoed := True\<rparr>)
      else if frame_opcode msg = Some OP_PONG then
        (if \<not> pi_echoed r then (Err (LtxE ''PONG received without PING echo''), r)
         else
           (case field_at ''malformed PONG reply'' 1 as_u64 msg of
              Inl e \<Rightarrow> (Err e, r)
            | Inr t \<Rightarrow> (Ok (Some (Reply_Ping t)), r\<lparr>pi_completed := True\<rparr>)))
      else (Ok None, r))"

definition env_feed :: "env_req \<Rightarrow> frame \<Rightarrow> reply option \<times> env_req" where
  "env_feed r msg =
     (if en_completed r then (None, r)
      else if \<not> frame_targets_slot msg (en_slot r) then (None, r)
      else if frame_opcode msg = Some OP_ENV then
        (Some (Reply_Env (en_slot r) (en_key r) (en_value r)), r\<lparr>en_completed := True\<rparr>)
      else (None, r))"

definition cwd_feed :: "cwd_req \<Rightarrow> frame \<Rightarrow> reply option \<times> cwd_req" where
  "cwd_feed r msg =
     (if cw_completed r then (None, r)
      else if \<not> frame_targets_slot msg (cw_slot r) then (None, r)
      else if frame_opcode msg = Some OP_CWD then
        (Some (Reply_Cwd (cw_slot r) (cw_path r)), r\<lparr>cw_completed := True\<rparr>)
      else (None, r))"

definition get_file_feed :: "get_file_req \<Rightarrow> frame \<Rightarrow> reply option result \<times> get_file_req" where
  "get_file_feed r msg =
     (if gf_completed r then (Ok None, r)
      else if frame_opcode msg = Some OP_DATA then
        (case field_at ''malformed DATA frame'' 1 as_bytes msg of
           Inl e \<Rightarrow> (Err e, r)
         | Inr chunk \<Rightarrow>
             (let size = length (gf_data r) + length chunk
              in if MAX_FILE_BYTES < size then
                   (Err (LtxE (''GET_FILE payload of '' @ show_nat size @ '' bytes exceeds '' @
                      show_nat MAX_FILE_BYTES @ '' bytes'')), r)
                 else (Ok None, r\<lparr>gf_data := gf_data r @ chunk\<rparr>)))
      else if frame_opcode msg = Some OP_GET_FILE then
        (Ok (Some (Reply_GetFile (gf_path r) (gf_data r))), r\<lparr>gf_completed := True, gf_data := []\<rparr>)
      else (Ok None, r))"

definition set_file_feed :: "set_file_req \<Rightarrow> frame \<Rightarrow> reply option \<times> set_file_req" where
  "set_file_feed r msg =
     (if sf_completed r then (None, r)
      else if frame_opcode msg = Some OP_SET_FILE \<and>
          (case get_field 1 msg of Some f \<Rightarrow> as_str f = Inr (sf_path r) | None \<Rightarrow> False) then
        (Some (Reply_SetFile (sf_path r) (sf_data r)), r\<lparr>sf_completed := True, sf_data := []\<rparr>)
      else (None, r))"

definition log_feed :: "execute_req \<Rightarrow> frame \<Rightarrow> reply option result \<times> execute_req" where
  "log_feed r msg =
     (if \<not> ex_echoed r then (Err (LtxE ''LOG received without EXEC echo''), r)
      else
        (case field_at ''malformed LOG frame'' 3 as_str msg of
           Inl e \<Rightarrow> (Err e, r)
         | Inr out \<Rightarrow>
             if out = [] then (Ok None, r)
             else
               (let size = length (ex_stdout r) + length out
                in if LTX_STDOUT_BYTES < size then
                     (Err (LtxE (''EXEC stdout of '' @ show_nat size @ '' bytes exceeds '' @
                        show_nat LTX_STDOUT_BYTES @ '' bytes'')), r)
                   else
                     (Ok None, r\<lparr>ex_stdout := ex_stdout r @ out,
                                 ex_stdout_tx := map_option (\<lambda>sent. sent @ [out]) (ex_stdout_tx r)\<rparr>))))"

definition result_feed :: "execute_req \<Rightarrow> frame \<Rightarrow> reply option result \<times> execute_req" where
  "result_feed r msg =
     (if \<not> ex_echoed r then (Err (LtxE ''RESULT received without EXEC echo''), r)
      else
        (case and_then (field_at ''malformed RESULT frame'' 2 as_u64 msg) (\<lambda>time_ns.
                and_then (field_at ''malformed RESULT frame'' 3 as_i32 msg) (\<lambda>si_code.
                  and_then (field_at ''malformed RESULT frame'' 4 as_i32 msg) (\<lambda>si_status.
                    Ok (Reply_Execute time_ns si_code si_status (ex_stdout r))))) of
           Inl e \<Rightarrow> (Err e, r)
         | Inr reply \<Rightarrow> (Ok (Some reply), r\<lparr>ex_completed := True, ex_stdout := []\<rparr>)))"

definition execute_feed :: "execute_req \<Rightarrow> frame \<Rightarrow> reply option result \<times> execute_req" where
  "execute_feed r msg =
     (if ex_completed r then (Ok None, r)
      else if \<not> frame_targets_slot msg (ex_slot r) then (Ok None, r)
      else if frame_opcode msg = Some OP_EXEC then (Ok None, r\<lparr>ex_echoed := True\<rparr>)
      else if frame_opcode msg = Some OP_LOG then log_feed r msg
      else if frame_opcode msg = Some OP_RESULT then result_feed r msg
      else (Ok None, r))"

definition kill_feed :: "kill_req \<Rightarrow> frame \<Rightarrow> reply option \<times> kill_req" where
  "kill_feed r msg =
     (if ki_completed r then (None, r)
      else if \<not> frame_targets_slot msg (ki_slot r) then (None, r)
      else if frame_opcode msg = Some OP_KILL then
        (Some (Reply_Kill (ki_slot r)), r\<lparr>ki_completed := True\<rparr>)
      else (None, r))"

fun feed :: "request \<Rightarrow> frame \<Rightarrow> reply option result \<times> request" where
  "feed (R_Version r) msg = map_prod id R_Version (version_feed r msg)"
| "feed (R_Ping r) msg = map_prod id R_Ping (ping_feed r msg)"
| "feed (R_Env r) msg = map_prod Inr R_Env (env_feed r msg)"
| "feed (R_Cwd r) msg = map_prod Inr R_Cwd (cwd_feed r msg)"
| "feed (R_GetFile r) msg = map_prod id R_GetFile (get_file_feed r msg)"
| "feed (R_SetFile r) msg = map_prod Inr R_SetFile (set_file_feed r msg)"
| "feed (R_Execute r) msg = map_prod id R_Execute (execute_feed r msg)"
| "feed (R_Kill r) msg = map_prod Inr R_Kill (kill_feed r msg)"

lemmas feed_defs = version_feed_def ping_feed_def env_feed_def cwd_feed_def get_file_feed_def
  set_file_feed_def log_feed_def result_feed_def execute_feed_def kill_feed_def


section \<open>One reply per request\<close>

fun request_completed :: "request \<Rightarrow> bool" where
  "request_completed (R_Version r) = ve_completed r"
| "request_completed (R_Ping r) = pi_completed r"
| "request_completed (R_Env r) = en_completed r"
| "request_completed (R_Cwd r) = cw_completed r"
| "request_completed (R_GetFile r) = gf_completed r"
| "request_completed (R_SetFile r) = sf_completed r"
| "request_completed (R_Execute r) = ex_completed r"
| "request_completed (R_Kill r) = ki_completed r"

text \<open>The replies a machine gives to a list of messages, and the state they leave.\<close>

fun replies_to :: "('r \<Rightarrow> 'm \<Rightarrow> 'a option result \<times> 'r) \<Rightarrow> 'r \<Rightarrow> 'm list \<Rightarrow> 'a list" where
  "replies_to step r [] = []"
| "replies_to step r (m # ms) =
     (case step r m of
        (Inr (Some a), r') \<Rightarrow> a # replies_to step r' ms
      | (_, r') \<Rightarrow> replies_to step r' ms)"

fun state_after :: "('r \<Rightarrow> 'm \<Rightarrow> 'a option result \<times> 'r) \<Rightarrow> 'r \<Rightarrow> 'm list \<Rightarrow> 'r" where
  "state_after step r [] = r"
| "state_after step r (m # ms) = state_after step (snd (step r m)) ms"

text \<open>The contract of a request towards the transport: it answers by completing, then is silent.\<close>

locale echo_machine =
  fixes step :: "'r \<Rightarrow> 'm \<Rightarrow> 'a option result \<times> 'r" and completed :: "'r \<Rightarrow> bool"
  assumes completed_silent: "completed r \<Longrightarrow> step r m = (Inr None, r)"
    and reply_completes: "fst (step r m) = Inr (Some a) \<Longrightarrow> completed (snd (step r m))"
    and silence_keeps: "\<nexists>a. fst (step r m) = Inr (Some a) \<Longrightarrow> completed (snd (step r m)) = completed r"
begin

lemma completed_no_reply: "completed r \<Longrightarrow> replies_to step r ms = []"
  by (induction ms) (simp_all add: completed_silent)

lemma completed_stays: "completed r \<Longrightarrow> state_after step r ms = r"
  by (induction ms) (simp_all add: completed_silent)

lemma at_most_one_reply: "length (replies_to step r ms) \<le> 1"
proof (induction ms arbitrary: r)
  case (Cons m ms)
  obtain x r' where st: "step r m = (x, r')" by fastforce
  show ?case
  proof (cases "\<exists>a. x = Inr (Some a)")
    case True
    then have "completed r'" using reply_completes [of r m] st by auto
    then show ?thesis using st True by (auto simp: completed_no_reply)
  next
    case False
    then show ?thesis using Cons.IH [of r'] st by (auto split: sum.splits option.splits)
  qed
qed simp

lemma reply_iff_completed: "\<not> completed r \<Longrightarrow> replies_to step r ms \<noteq> [] \<longleftrightarrow> completed (state_after step r ms)"
proof (induction ms arbitrary: r)
  case (Cons m ms)
  obtain x r' where st: "step r m = (x, r')" by fastforce
  show ?case
  proof (cases "\<exists>a. x = Inr (Some a)")
    case True
    then have "completed r'" using reply_completes [of r m] st by auto
    then show ?thesis using st True by (auto simp: completed_stays)
  next
    case False
    then have "\<not> completed r'" using silence_keeps [of r m] st Cons.prems by auto
    then show ?thesis using Cons.IH [of r'] st False by (auto split: sum.splits option.splits)
  qed
qed simp

end

interpretation request: echo_machine feed request_completed
proof
  fix r m and a :: reply
  show "request_completed r \<Longrightarrow> feed r m = (Inr None, r)"
    by (cases r) (simp_all add: feed_defs)
  show "fst (feed r m) = Inr (Some a) \<Longrightarrow> request_completed (snd (feed r m))"
    by (cases r) (auto simp: feed_defs Let_def split: if_splits sum.splits)
  show "\<nexists>a. fst (feed r m) = Inr (Some a) \<Longrightarrow> request_completed (snd (feed r m)) = request_completed r"
    by (cases r) (auto simp: feed_defs Let_def split: if_splits sum.splits)
qed

text \<open>However many frames a request is fed, it answers at most once, and exactly when it completes.\<close>

lemma request_answers_once:
  assumes "\<not> request_completed r"
  shows "length (replies_to feed r msgs) \<le> 1 \<and>
     (replies_to feed r msgs \<noteq> [] \<longleftrightarrow> request_completed (state_after feed r msgs))"
  using request.at_most_one_reply request.reply_iff_completed [OF assms] by blast

text \<open>Which replies answer a request: those of its kind, with what it asked for.\<close>

fun answers :: "request \<Rightarrow> reply \<Rightarrow> bool" where
  "answers (R_Version _) (Reply_Version _) = True"
| "answers (R_Ping _) (Reply_Ping _) = True"
| "answers (R_Env r) (Reply_Env slot key val) =
     (slot = en_slot r \<and> key = en_key r \<and> val = en_value r)"
| "answers (R_Cwd r) (Reply_Cwd slot path) = (slot = cw_slot r \<and> path = cw_path r)"
| "answers (R_GetFile r) (Reply_GetFile path _) = (path = gf_path r)"
| "answers (R_SetFile r) (Reply_SetFile path bytes) = (path = sf_path r \<and> bytes = sf_data r)"
| "answers (R_Execute _) (Reply_Execute _ si_code si_status out) =
     (in_i32 si_code \<and> in_i32 si_status \<and> length out \<le> LTX_STDOUT_BYTES)"
| "answers (R_Kill r) (Reply_Kill slot) = (slot = ki_slot r)"
| "answers _ _ = False"

lemma as_i32_range: "as_i32 f = Inr v \<Longrightarrow> in_i32 v"
  by (cases f) (auto simp: i32_of_def split: if_splits)

text \<open>The output a request has gathered stays below its cap.\<close>

fun within_caps :: "request \<Rightarrow> bool" where
  "within_caps (R_GetFile r) = (length (gf_data r) \<le> MAX_FILE_BYTES)"
| "within_caps (R_Execute r) = (length (ex_stdout r) \<le> LTX_STDOUT_BYTES)"
| "within_caps _ = True"

lemma feed_within_caps: "within_caps r \<Longrightarrow> within_caps (snd (feed r m))"
  by (cases r) (auto simp: feed_defs Let_def split: if_splits sum.splits)

lemma feed_reply_answers: "within_caps r \<Longrightarrow> fst (feed r m) = Inr (Some a) \<Longrightarrow> answers r a"
  by (cases r)
     (auto simp: feed_defs field_at_def and_then_Ok Let_def dest!: as_i32_range
       split: if_splits sum.splits)

lemma feed_silent_same: "fst (feed r m) = Inr None \<Longrightarrow> answers (snd (feed r m)) = answers r"
proof (rule ext)
  fix a
  assume "fst (feed r m) = Inr None"
  then show "answers (snd (feed r m)) a = answers r a"
    by (cases r; cases a) (auto simp: feed_defs Let_def split: if_splits sum.splits)
qed

end
