(* ===== verification/Ltx_Execute.thy ===== *)
theory Ltx_Execute
  imports Ltx_Request
begin

text \<open>
  What the requests of \<open>request.rs\<close> make of the frames of a peer: the output of a command is gathered
  from the frames of its own slot, whatever else arrives in between, while the frames of a download
  name no request and reach every pending one.
\<close>

section \<open>Frames of the peer\<close>

definition exec_echo :: "u8 \<Rightarrow> frame" where
  "exec_echo slot = [op OP_EXEC, F_U64 (ucast slot)]"

definition log_frame :: "u8 \<Rightarrow> u64 \<Rightarrow> string \<Rightarrow> frame" where
  "log_frame slot time_ns out = [op OP_LOG, F_U64 (ucast slot), F_U64 time_ns, F_Str out]"

definition result_frame :: "u8 \<Rightarrow> u64 \<Rightarrow> field \<Rightarrow> field \<Rightarrow> frame" where
  "result_frame slot time_ns si_code si_status =
     [op OP_RESULT, F_U64 (ucast slot), F_U64 time_ns, si_code, si_status]"

definition data_frame :: "string \<Rightarrow> frame" where
  "data_frame chunk = [op OP_DATA, F_Bin chunk]"

definition get_file_echo :: "string \<Rightarrow> frame" where
  "get_file_echo path = [op OP_GET_FILE, F_Str path]"

lemmas peer_frames = exec_echo_def log_frame_def result_frame_def data_frame_def get_file_echo_def

lemma unat_ucast_u8: "unat (ucast (c :: u8) :: u64) = unat c"
proof -
  have "unat c < 2 ^ LENGTH(8)" by (rule unsigned_less)
  then have "unat c < 2 ^ 64" by simp
  then show ?thesis by (simp add: unsigned_ucast_eq take_bit_nat_eq_self)
qed

lemma as_u8_ucast [simp]: "as_u8 (F_U64 (ucast (c :: u8))) = Inr c"
proof -
  have "unat c < 2 ^ LENGTH(8)" by (rule unsigned_less)
  then show ?thesis by (simp add: unat_ucast_u8)
qed

lemma opcode_op [simp]: "frame_opcode (op c # fs) = Some c"
  by (simp add: frame_opcode_def del: as_u8.simps)

lemma targets_own [simp]: "frame_targets_slot (f # F_U64 (ucast s) # fs) s"
  by (simp add: frame_targets_slot_def get_field_def)

text \<open>The frames an \<open>EXEC\<close> request of a slot reacts to.\<close>

definition execute_frame :: "u8 \<Rightarrow> frame \<Rightarrow> bool" where
  "execute_frame slot msg \<longleftrightarrow>
     frame_targets_slot msg slot \<and> frame_opcode msg \<in> {Some OP_EXEC, Some OP_LOG, Some OP_RESULT}"

lemma execute_frame_own [simp]:
  "execute_frame s (exec_echo s)" "execute_frame s (log_frame s t out)"
  "execute_frame s (result_frame s t c st)"
  by (simp_all add: execute_frame_def peer_frames)

lemma execute_ignores: "\<not> execute_frame (ex_slot r) m \<Longrightarrow> execute_feed r m = (Inr None, r)"
  by (auto simp: execute_frame_def execute_feed_def)

lemma execute_slot [simp]: "ex_slot (snd (execute_feed r m)) = ex_slot r"
  by (simp add: execute_feed_def log_feed_def result_feed_def Let_def split: sum.splits)

lemma execute_filter:
  "replies_to feed (R_Execute r) ms = replies_to feed (R_Execute r) (filter (execute_frame (ex_slot r)) ms)"
proof (induction ms arbitrary: r)
  case (Cons m ms)
  obtain x r' where st: "execute_feed r m = (x, r')" by fastforce
  have slot: "ex_slot r' = ex_slot r" using execute_slot [of r m] st by simp
  show ?case
  proof (cases "execute_frame (ex_slot r) m")
    case True
    then show ?thesis
      using Cons.IH [of r'] st slot by (auto split: sum.splits option.splits)
  next
    case False
    then show ?thesis using Cons.IH [of r] execute_ignores [of r m] by simp
  qed
qed simp

lemma opcode_distinct [simp]:
  "OP_LOG \<noteq> OP_EXEC" "OP_RESULT \<noteq> OP_EXEC" "OP_RESULT \<noteq> OP_LOG" "OP_GET_FILE \<noteq> OP_DATA"
  by (simp_all add: opcodes)

text \<open>An echoed request gathers its logs and answers with the result.\<close>

lemma log_step:
  assumes "ex_echoed r" and "\<not> ex_completed r"
    and "length (ex_stdout r) + length out \<le> LTX_STDOUT_BYTES"
  shows "execute_feed r (log_frame (ex_slot r) t out) =
     (Inr None, r\<lparr>ex_stdout := ex_stdout r @ out,
        ex_stdout_tx := map_option (\<lambda>sent. sent @ filter (\<lambda>c. c \<noteq> []) [out]) (ex_stdout_tx r)\<rparr>)"
  using assms
  by (cases "ex_stdout_tx r")
     (simp_all add: execute_feed_def log_feed_def log_frame_def field_at_def get_field_def)

lemma result_step:
  assumes "ex_echoed r" and "\<not> ex_completed r" and "as_i32 c = Inr si_code" and "as_i32 st = Inr si_status"
  shows "execute_feed r (result_frame (ex_slot r) t c st) =
     (Inr (Some (Reply_Execute t si_code si_status (ex_stdout r))), r\<lparr>ex_completed := True, ex_stdout := []\<rparr>)"
  using assms
  by (simp add: execute_feed_def result_feed_def result_frame_def field_at_def get_field_def)

lemma gather_logs:
  assumes "ex_echoed r" and "\<not> ex_completed r" and "as_i32 c = Inr si_code" and "as_i32 st = Inr si_status"
    and "length (ex_stdout r) + sum_list (map (length \<circ> snd) logs) \<le> LTX_STDOUT_BYTES"
    and "ex_slot r = slot"
  shows "replies_to feed (R_Execute r)
       (map (\<lambda>(t, out). log_frame slot t out) logs @ [result_frame slot t c st]) =
     [Reply_Execute t si_code si_status (ex_stdout r @ concat (map snd logs))]"
  using assms
proof (induction logs arbitrary: r)
  case Nil
  then show ?case using result_step [of r c si_code st si_status t] by simp
next
  case (Cons l logs)
  obtain t0 out where l: "l = (t0, out)" by fastforce
  let ?r = "r\<lparr>ex_stdout := ex_stdout r @ out,
        ex_stdout_tx := map_option (\<lambda>sent. sent @ filter (\<lambda>c. c \<noteq> []) [out]) (ex_stdout_tx r)\<rparr>"
  have "execute_feed r (log_frame slot t0 out) = (Inr None, ?r)"
    using log_step [of r out t0] Cons.prems l by simp
  then show ?case using Cons.IH [of ?r] Cons.prems l by simp
qed

text \<open>
  The reply of a command on a slot is made of the frames of that slot alone. Whatever
  frames of other slots or other requests arrive in between, a request whose own frames are the
  echo, any logs within the cap and the result answers exactly once, with the logs joined in order
  and the peer's status.
\<close>

theorem execute_gathers_its_slot:
  assumes "req_execute_with_stdout slot command = Inr r"
    and "filter (execute_frame slot) msgs =
       exec_echo slot # map (\<lambda>(t, out). log_frame slot t out) logs @ [result_frame slot time_ns c st]"
    and "as_i32 c = Inr si_code" and "as_i32 st = Inr si_status"
    and "sum_list (map (length \<circ> snd) logs) \<le> LTX_STDOUT_BYTES"
  shows "replies_to feed r msgs = [Reply_Execute time_ns si_code si_status (concat (map snd logs))]"
proof -
  obtain q where r: "r = R_Execute q" and q: "\<not> ex_completed q" "ex_stdout q = []" "ex_slot q = slot"
    using assms(1) by (auto simp: req_execute_with_stdout_def execute_inner_def split: if_splits)
  have echo: "execute_feed q (exec_echo slot) = (Inr None, q\<lparr>ex_echoed := True\<rparr>)"
    using q by (simp add: execute_feed_def exec_echo_def)
  have "replies_to feed r msgs = replies_to feed (R_Execute (q\<lparr>ex_echoed := True\<rparr>))
      (map (\<lambda>(t, out). log_frame slot t out) logs @ [result_frame slot time_ns c st])"
    using execute_filter [of q msgs] assms(2) echo by (simp add: r q)
  also have "\<dots> = [Reply_Execute time_ns si_code si_status (concat (map snd logs))]"
    using gather_logs [of "q\<lparr>ex_echoed := True\<rparr>" c si_code st si_status logs slot time_ns] assms q
    by simp
  finally show ?thesis .
qed

lemma execute_gathers_its_slot_witness:
  "replies_to feed (R_Execute \<lparr> ex_completed = False, ex_echoed = False, ex_slot = 3,
        ex_command = ''id'', ex_stdout_tx = Some [], ex_stdout = [] \<rparr>)
     [exec_echo 3, log_frame 4 8 ''other'', log_frame 3 9 ''uid'', [op OP_PING], log_frame 3 10 ''=0'',
      result_frame 4 11 (F_U64 1) (F_U64 1), result_frame 3 12 (F_U64 1) (F_I64 0)]
   = [Reply_Execute 12 1 0 ''uid=0'']"
proof -
  have "filter (execute_frame 3)
     [exec_echo 3, log_frame 4 8 ''other'', log_frame 3 9 ''uid'', [op OP_PING], log_frame 3 10 ''=0'',
      result_frame 4 11 (F_U64 1) (F_U64 1), result_frame 3 12 (F_U64 1) (F_I64 0)]
   = exec_echo 3 # map (\<lambda>(t, out). log_frame 3 t out) [(9, ''uid''), (10, ''=0'')]
      @ [result_frame 3 12 (F_U64 1) (F_I64 0)]"
    by code_simp
  note own = this
  have made: "req_execute_with_stdout 3 ''id'' = Inr (R_Execute \<lparr> ex_completed = False,
      ex_echoed = False, ex_slot = 3, ex_command = ''id'', ex_stdout_tx = Some [], ex_stdout = [] \<rparr>)"
    by (simp add: req_execute_with_stdout_def execute_inner_def)
  have numbers: "as_i32 (F_U64 1) = Inr 1" "as_i32 (F_I64 0) = Inr 0"
    by (simp_all add: i32_of_def in_i32_def in_i64_def)
  show ?thesis
    using execute_gathers_its_slot [OF made own numbers] by (simp add: LTX_STDOUT_BYTES_def)
qed

text \<open>The rest of the frames of the slot is streamed as it comes: the chunks sent are the logs.\<close>

lemma stream_logs:
  assumes "ex_echoed r" and "\<not> ex_completed r" and "ex_slot r = slot" and "ex_stdout_tx r = Some sent"
    and "length (ex_stdout r) + sum_list (map (length \<circ> snd) logs) \<le> LTX_STDOUT_BYTES"
  shows "\<exists>q. state_after feed (R_Execute r) (map (\<lambda>(t, out). log_frame slot t out) logs) = R_Execute q \<and>
     ex_stdout_tx q = Some (sent @ filter (\<lambda>c. c \<noteq> []) (map snd logs)) \<and>
     ex_stdout q = ex_stdout r @ concat (map snd logs)"
  using assms
proof (induction logs arbitrary: r sent)
  case (Cons l logs)
  obtain t0 out where l: "l = (t0, out)" by fastforce
  let ?r = "r\<lparr>ex_stdout := ex_stdout r @ out,
        ex_stdout_tx := map_option (\<lambda>sent. sent @ filter (\<lambda>c. c \<noteq> []) [out]) (ex_stdout_tx r)\<rparr>"
  have "execute_feed r (log_frame slot t0 out) = (Inr None, ?r)"
    using log_step [of r out t0] Cons.prems l by simp
  then show ?case
    using Cons.IH [of ?r "sent @ filter (\<lambda>c. c \<noteq> []) [out]"] Cons.prems l by auto
qed simp

end
