(* ===== verification/Ltx_Transport.thy ===== *)
theory Ltx_Transport
  imports Ltx_Execute "HOL-Library.AList"
begin

text \<open>
  Crate \<open>kirk-com-ltx\<close>, \<open>ltx.rs\<close>: the transport that multiplexes requests over a pair of FIFOs. The
  state behind its mutexes and flags is one record; the operations are its critical sections:
  connecting, registering a batch, writing it, dispatching a frame, polling the output, collecting
  the replies of a batch, disconnecting. What the operating system answers to an open, a read or a
  write, and whether \<open>try_lock\<close> finds the state locked, are inputs.
\<close>

definition READ_CHUNK :: nat where "READ_CHUNK = 2 ^ 21"
definition MAX_BUFFERED_BYTES :: nat where "MAX_BUFFERED_BYTES = 8 * 2 ^ 20"

definition DESYNC_ERROR :: string where
  "DESYNC_ERROR = ''LTX connection desynchronized by an interrupted send; reconnect required''"

definition not_connected :: kirk_error where
  "not_connected = LtxE ''Client is not connected to LTX''"

section \<open>State\<close>

record pending =
  pe_id :: u64
  pe_request :: request

text \<open>
  \<open>lx_contended\<close> is the outcome of the coming \<open>try_lock\<close> calls: \<open>True\<close> where another task holds the
  state. Past its end the lock is free. \<open>lx_wire\<close> is a history: all bytes written to the input.
\<close>

record ltx_conn =
  lx_pending :: "pending list"
  lx_replies :: "(u64 \<times> reply) list"
  lx_next_id :: u64
  lx_fatal :: "string option"
  lx_stop :: bool
  lx_running :: bool
  lx_desynced :: bool
  lx_wire :: string
  lx_contended :: "bool list"

definition ltx_new :: ltx_conn where
  "ltx_new = \<lparr> lx_pending = [], lx_replies = [], lx_next_id = 0, lx_fatal = None, lx_stop = False,
     lx_running = False, lx_desynced = False, lx_wire = [], lx_contended = [] \<rparr>"

text \<open>Opening the output FIFO for reading; \<open>raw\<close> is what the operating system answers.\<close>

definition fifo_open_read :: "string \<Rightarrow> string + unit \<Rightarrow> string + unit" where
  "fifo_open_read path raw =
     (case raw of
        Inl e \<Rightarrow> Inl (''can'' @ [CHR 0x27] @ ''t open LTX output '' @ quoted path @ '': '' @ e)
      | Inr _ \<Rightarrow> Inr ())"

text \<open>\<open>opened\<close> is the outcome of the probe of the output FIFO, the text of its error otherwise.\<close>

definition ltx_connect :: "string + unit \<Rightarrow> ltx_conn \<Rightarrow> unit result \<times> ltx_conn" where
  "ltx_connect opened c =
     (if lx_running c then (Ok (), c)
      else
        (case opened of
           Inl e \<Rightarrow> (Err (LtxE e), c)
         | Inr _ \<Rightarrow>
             (Ok (), c\<lparr>lx_stop := False, lx_desynced := False, lx_fatal := None, lx_pending := [],
                       lx_replies := [], lx_next_id := 0, lx_running := True, lx_wire := []\<rparr>)))"

definition ltx_disconnect :: "ltx_conn \<Rightarrow> unit result \<times> ltx_conn" where
  "ltx_disconnect c =
     (if \<not> lx_running c then (Ok (), c)
      else
        (let c1 = c\<lparr>lx_stop := False, lx_running := False\<rparr>
         in case lx_fatal c1 of Some m \<Rightarrow> (Err (LtxE m), c1) | None \<Rightarrow> (Ok (), c1)))"

text \<open>
  Dropping a handle of a connected transport: the poll task is told to stop and, when the lock around
  it is free, aborted. The flag says whether the task lives.
\<close>

definition ltx_drop :: "bool \<Rightarrow> bool \<times> ltx_conn \<Rightarrow> bool \<times> ltx_conn" where
  "ltx_drop unlocked h =
     (case h of (poll, c) \<Rightarrow>
        if lx_running c then (if unlocked then False else poll, c\<lparr>lx_stop := True\<rparr>) else (poll, c))"

text \<open>
  The clones of a handle share the task: dropping one leaves the others connected, with nobody who
  reads replies, and connecting again does nothing. The program keeps one handle, behind an \<open>Arc\<close>.
\<close>

lemma dropped_clone_ends_polling:
  assumes "lx_running c" and "ltx_drop True (True, c) = (poll, c1)"
  shows "\<not> poll \<and> lx_running c1 \<and> ltx_connect opened c1 = (Ok (), c1)"
  using assms by (auto simp: ltx_drop_def ltx_connect_def)

lemma drop_after_disconnect: "ltx_drop unlocked (poll, snd (ltx_disconnect c)) = (poll, snd (ltx_disconnect c))"
  by (simp add: ltx_drop_def ltx_disconnect_def Let_def split: option.splits)

section \<open>Sending\<close>

text \<open>The msgpack writer is a parameter: a tuple of fields becomes bytes or fails.\<close>

type_synonym packer = "frame \<Rightarrow> string + string"

definition packed :: "packer \<Rightarrow> string \<Rightarrow> frame \<Rightarrow> string result" where
  "packed pk label tuple =
     (case pk tuple of
        Inl e \<Rightarrow> Err (LtxE (''Can'' @ [CHR 0x27] @ ''t pack '' @ label @ '' request: '' @ e))
      | Inr bytes \<Rightarrow> Ok bytes)"

definition version_pack :: "packer \<Rightarrow> string result" where
  "version_pack pk = packed pk ''VERSION'' [op OP_VERSION]"

definition ping_pack :: "packer \<Rightarrow> string result" where
  "ping_pack pk = packed pk ''PING'' [op OP_PING]"

definition env_pack :: "packer \<Rightarrow> env_req \<Rightarrow> string result" where
  "env_pack pk r = packed pk ''ENV'' [op OP_ENV, F_U64 (ucast (en_slot r)), F_Str (en_key r), F_Str (en_value r)]"

definition cwd_pack :: "packer \<Rightarrow> cwd_req \<Rightarrow> string result" where
  "cwd_pack pk r = packed pk ''CWD'' [op OP_CWD, F_U64 (ucast (cw_slot r)), F_Str (cw_path r)]"

definition get_file_pack :: "packer \<Rightarrow> get_file_req \<Rightarrow> string result" where
  "get_file_pack pk r = packed pk ''GET_FILE'' [op OP_GET_FILE, F_Str (gf_path r)]"

definition set_file_pack :: "packer \<Rightarrow> set_file_req \<Rightarrow> string result" where
  "set_file_pack pk r = packed pk ''SET_FILE'' [op OP_SET_FILE, F_Str (sf_path r), F_Bin (sf_data r)]"

definition execute_pack :: "packer \<Rightarrow> execute_req \<Rightarrow> string result" where
  "execute_pack pk r = packed pk ''EXEC'' [op OP_EXEC, F_U64 (ucast (ex_slot r)), F_Str (ex_command r)]"

definition kill_pack :: "packer \<Rightarrow> kill_req \<Rightarrow> string result" where
  "kill_pack pk r = packed pk ''KILL'' [op OP_KILL, F_U64 (ucast (ki_slot r))]"

fun pack :: "packer \<Rightarrow> request \<Rightarrow> string result" where
  "pack pk (R_Version _) = version_pack pk"
| "pack pk (R_Ping _) = ping_pack pk"
| "pack pk (R_Env r) = env_pack pk r"
| "pack pk (R_Cwd r) = cwd_pack pk r"
| "pack pk (R_GetFile r) = get_file_pack pk r"
| "pack pk (R_SetFile r) = set_file_pack pk r"
| "pack pk (R_Execute r) = execute_pack pk r"
| "pack pk (R_Kill r) = kill_pack pk r"

lemmas pack_defs = packed_def version_pack_def ping_pack_def env_pack_def cwd_pack_def get_file_pack_def
  set_file_pack_def execute_pack_def kill_pack_def

fun pack_all :: "packer \<Rightarrow> request list \<Rightarrow> string result" where
  "pack_all pk [] = Ok []"
| "pack_all pk (r # rs) =
     and_then (pack pk r) (\<lambda>b. and_then (pack_all pk rs) (\<lambda>bs. Ok (b @ bs)))"

text \<open>\<open>send\<close> up to the write lock: the checks and the packed bytes.\<close>

definition send_prepare :: "packer \<Rightarrow> request list \<Rightarrow> ltx_conn \<Rightarrow> string result" where
  "send_prepare pk requests c =
     (if requests = [] then Err (LtxE ''No requests given'')
      else if \<not> lx_running c then Err not_connected
      else if lx_desynced c then Err (LtxE DESYNC_ERROR)
      else pack_all pk requests)"

fun push_pending :: "request list \<Rightarrow> ltx_conn \<Rightarrow> u64 list \<times> ltx_conn" where
  "push_pending [] c = ([], c)"
| "push_pending (r # rs) c =
     (let i = lx_next_id c;
          c1 = c\<lparr>lx_next_id := i + 1, lx_pending := lx_pending c @ [\<lparr> pe_id = i, pe_request = r \<rparr>]\<rparr>;
          (ids, c2) = push_pending rs c1
      in (i # ids, c2))"

text \<open>Under the write lock: the batch gets its ids, or the checks fail and nothing is registered.\<close>

definition send_register :: "request list \<Rightarrow> ltx_conn \<Rightarrow> u64 list result \<times> ltx_conn" where
  "send_register requests c =
     (if lx_desynced c then (Err (LtxE DESYNC_ERROR), c)
      else
        (case lx_fatal c of
           Some m \<Rightarrow> (Err (LtxE m), c)
         | None \<Rightarrow>
             if 2 ^ 64 \<le> unat (lx_next_id c) + length requests
             then (Err (LtxE ''request id overflow''), c)
             else (let (ids, c1) = push_pending requests c in (Ok ids, c1))))"

text \<open>
  Opening and writing: each event is what one system call answers. The result is \<open>None\<close> while the
  loop is still going when the events end; \<open>No_reader\<close> carries whether the client is connected then.
\<close>

datatype open_event = Opened | No_reader bool | Open_failed string

fun open_infile :: "string \<Rightarrow> open_event list \<Rightarrow> unit result option" where
  "open_infile path [] = None"
| "open_infile path (Opened # _) = Some (Ok ())"
| "open_infile path (No_reader conn # evs) =
     (if \<not> conn then Some (Err not_connected) else open_infile path evs)"
| "open_infile path (Open_failed e # _) =
     Some (Err (LtxE (''can'' @ [CHR 0x27] @ ''t open LTX input '' @ quoted path @ '': '' @ e)))"

datatype write_event = Wrote nat | Would_block | Write_failed string

fun write_all_fifo :: "write_event list \<Rightarrow> string \<Rightarrow> unit result option \<times> string" where
  "write_all_fifo evs [] = (Some (Ok ()), [])"
| "write_all_fifo [] (b # bs) = (None, [])"
| "write_all_fifo (Wrote n # evs) (b # bs) =
     (if n = 0 then (Some (Err (LtxE (''can'' @ [CHR 0x27] @ ''t write to LTX input: no reader''))), [])
      else if length (b # bs) < n then (Some (Err (LtxE ''short LTX write'')), b # bs)
      else map_prod id ((@) (take n (b # bs))) (write_all_fifo evs (drop n (b # bs))))"
| "write_all_fifo (Would_block # evs) (b # bs) = write_all_fifo evs (b # bs)"
| "write_all_fifo (Write_failed e # evs) (b # bs) =
     (Some (Err (LtxE (''can'' @ [CHR 0x27] @ ''t write to LTX input: '' @ e))), [])"

text \<open>Dropping the guard of a send: unless the write was completed, the stream is out of step.\<close>

definition send_guard_drop :: "bool \<Rightarrow> ltx_conn \<Rightarrow> ltx_conn" where
  "send_guard_drop committed c = (if committed then c else c\<lparr>lx_desynced := True\<rparr>)"

definition write_infile ::
  "string \<Rightarrow> open_event list \<Rightarrow> write_event list \<Rightarrow> string \<Rightarrow> unit result option \<times> string" where
  "write_infile path opens writes bytes =
     (case open_infile path opens of
        None \<Rightarrow> (None, [])
      | Some (Inl e) \<Rightarrow> (Some (Err e), [])
      | Some (Inr _) \<Rightarrow> write_all_fifo writes bytes)"

section \<open>Receiving\<close>

text \<open>\<open>record_fatal\<close> keeps the first error, when it gets the lock.\<close>

definition get_or_insert :: "string option \<Rightarrow> string \<Rightarrow> string option" where
  "get_or_insert old m = (case old of None \<Rightarrow> Some m | Some _ \<Rightarrow> old)"

definition record_fatal :: "string \<Rightarrow> ltx_conn \<Rightarrow> ltx_conn" where
  "record_fatal m c =
     (case lx_contended c of
        [] \<Rightarrow> c\<lparr>lx_fatal := get_or_insert (lx_fatal c) m\<rparr>
      | True # rest \<Rightarrow> c\<lparr>lx_contended := rest\<rparr>
      | False # rest \<Rightarrow> c\<lparr>lx_fatal := get_or_insert (lx_fatal c) m, lx_contended := rest\<rparr>)"

fun dispatch_pending ::
  "frame \<Rightarrow> pending list \<Rightarrow> (u64 \<times> reply) list \<Rightarrow> string option
     \<Rightarrow> pending list \<times> (u64 \<times> reply) list \<times> string option" where
  "dispatch_pending msg [] replies fatal = ([], replies, fatal)"
| "dispatch_pending msg (p # ps) replies fatal =
     (case feed (pe_request p) msg of
        (Inr (Some reply), _) \<Rightarrow> dispatch_pending msg ps (AList.update (pe_id p) reply replies) fatal
      | (Inr None, q) \<Rightarrow>
          (let (ps1, replies1, fatal1) = dispatch_pending msg ps replies fatal
           in (p\<lparr>pe_request := q\<rparr> # ps1, replies1, fatal1))
      | (Inl e, q) \<Rightarrow> (p\<lparr>pe_request := q\<rparr> # ps, replies, get_or_insert fatal (error_display e)))"

definition dispatch_feed :: "frame \<Rightarrow> ltx_conn \<Rightarrow> ltx_conn" where
  "dispatch_feed msg c =
     (let (ps, replies, fatal) = dispatch_pending msg (lx_pending c) (lx_replies c) (lx_fatal c)
      in c\<lparr>lx_pending := ps, lx_replies := replies, lx_fatal := fatal\<rparr>)"

definition error_detail :: "frame \<Rightarrow> string" where
  "error_detail msg =
     (case get_field 1 msg of
        Some f \<Rightarrow> (case as_str f of Inr s \<Rightarrow> s | Inl _ \<Rightarrow> ''unknown LTX error'')
      | None \<Rightarrow> ''unknown LTX error'')"

definition dispatch :: "frame \<Rightarrow> ltx_conn \<Rightarrow> ltx_conn" where
  "dispatch msg c =
     (if msg = [] then c
      else
        (case as_u8 (hd msg) of
           Inl _ \<Rightarrow> record_fatal ''LTX error: message opcode must be an integer'' c
         | Inr opcode \<Rightarrow>
             if opcode = OP_ERROR then record_fatal (''LTX error: '' @ error_detail msg) c
             else dispatch_feed msg c))"

definition decode_one :: "token_reader \<Rightarrow> string \<Rightarrow> (frame \<times> nat) option result" where
  "decode_one rd buf =
     (if buf = [] then Ok None
      else
        (case frame_deserialize rd buf of
           Inr (msg, used) \<Rightarrow> Ok (Some (msg, used))
         | Inl Truncated \<Rightarrow> Ok None
         | Inl (Corrupt e) \<Rightarrow> Err (LtxE (''can'' @ [CHR 0x27] @ ''t decode LTX frame: '' @ e))))"

text \<open>
  The inner loop of \<open>poll_loop\<close>. A frame takes at least one byte, so one step more than there are
  bytes is enough fuel; \<open>None\<close> is a loop that does not end.
\<close>

fun drain_frames :: "token_reader \<Rightarrow> nat \<Rightarrow> string \<Rightarrow> ltx_conn \<Rightarrow> (string \<times> ltx_conn) option" where
  "drain_frames rd 0 buf c = None"
| "drain_frames rd (Suc n) buf c =
     (case decode_one rd buf of
        Inl e \<Rightarrow> Some (buf, record_fatal (error_display e) c)
      | Inr None \<Rightarrow> Some (buf, c)
      | Inr (Some (msg, used)) \<Rightarrow>
          (let c1 = dispatch msg c; rest = drop used buf
           in if lx_fatal c1 \<noteq> None then Some (rest, c1) else drain_frames rd n rest c1))"

text \<open>
  Reading one chunk: the readiness wait may fail, a read may find nothing yet, fail, or give bytes
  (none once all writers are gone). \<open>None\<close> is still waiting when the events end.
\<close>

datatype read_event = Wait_failed string | Not_ready | Read_failed string | Read_bytes string

fun fifo_read_chunk :: "read_event list \<Rightarrow> string result option" where
  "fifo_read_chunk [] = None"
| "fifo_read_chunk (Wait_failed e # _) = Some (Err (LtxE (''can'' @ [CHR 0x27] @ ''t wait for LTX output: '' @ e)))"
| "fifo_read_chunk (Not_ready # evs) = fifo_read_chunk evs"
| "fifo_read_chunk (Read_failed e # _) = Some (Err (LtxE (''can'' @ [CHR 0x27] @ ''t read LTX output: '' @ e)))"
| "fifo_read_chunk (Read_bytes bytes # _) = Some (Ok (take READ_CHUNK bytes))"

datatype poll_state =
    Polling string ltx_conn
  | Poll_Ended ltx_conn

definition poll_end :: "ltx_conn \<Rightarrow> poll_state" where
  "poll_end c = Poll_Ended (c\<lparr>lx_running := False\<rparr>)"

definition poll_read :: "token_reader \<Rightarrow> string result \<Rightarrow> string \<Rightarrow> ltx_conn \<Rightarrow> poll_state option" where
  "poll_read rd ev buf c =
     (if lx_stop c then Some (poll_end c)
      else
        (case ev of
           Inl e \<Rightarrow> Some (poll_end (record_fatal (error_display e) c))
         | Inr bytes \<Rightarrow>
             if bytes = [] then Some (poll_end (record_fatal ''LTX output closed'' c))
             else
               (let size = length buf + length bytes
                in if MAX_BUFFERED_BYTES < size then
                     Some (poll_end (record_fatal
                       (''buffered '' @ show_nat size @ '' bytes exceed '' @ show_nat MAX_BUFFERED_BYTES
                          @ '' bytes'') c))
                   else
                     (case drain_frames rd (Suc size) (buf @ bytes) c of
                        None \<Rightarrow> None
                      | Some (rest, c1) \<Rightarrow>
                          Some (if lx_fatal c1 \<noteq> None then poll_end c1 else Polling rest c1)))))"

fun poll_reads :: "token_reader \<Rightarrow> string result list \<Rightarrow> string \<Rightarrow> ltx_conn \<Rightarrow> poll_state option" where
  "poll_reads rd [] buf c = Some (Polling buf c)"
| "poll_reads rd (ev # evs) buf c =
     (case poll_read rd ev buf c of
        Some (Polling rest c1) \<Rightarrow> poll_reads rd evs rest c1
      | other \<Rightarrow> other)"

text \<open>The poll task opens the output first; what each of its reads gives is the list.\<close>

definition poll_loop :: "token_reader \<Rightarrow> string + unit \<Rightarrow> string result list \<Rightarrow> ltx_conn \<Rightarrow> poll_state option" where
  "poll_loop rd opened evs c =
     (case opened of
        Inl e \<Rightarrow> Some (poll_end (record_fatal (error_display (LtxE e)) c))
      | Inr _ \<Rightarrow> poll_reads rd evs [] c)"

section \<open>Collecting\<close>

fun take_replies :: "u64 list \<Rightarrow> (u64 \<times> reply) list \<Rightarrow> reply list \<times> (u64 \<times> reply) list" where
  "take_replies [] replies = ([], replies)"
| "take_replies (i # ids) replies =
     (case map_of replies i of
        None \<Rightarrow> take_replies ids replies
      | Some a \<Rightarrow> map_prod ((#) a) id (take_replies ids (AList.delete i replies)))"

text \<open>One round of the loop of \<open>gather\<close>: \<open>None\<close> goes on waiting.\<close>

definition gather_round :: "nat \<Rightarrow> u64 list \<Rightarrow> ltx_conn \<Rightarrow> (reply list result \<times> ltx_conn) option" where
  "gather_round count ids c =
     (case lx_fatal c of
        Some m \<Rightarrow> Some (Err (LtxE m), c)
      | None \<Rightarrow>
          if lx_desynced c then Some (Err (LtxE DESYNC_ERROR), c)
          else if \<not> lx_running c then Some (Err not_connected, c)
          else if count \<le> length (lx_replies c) \<and> (\<forall>i \<in> set ids. i \<in> fst ` set (lx_replies c)) then
            (let (replies, rest) = take_replies ids (lx_replies c)
             in Some (Ok replies, c\<lparr>lx_replies := rest\<rparr>))
          else None)"

section \<open>Reads of any size\<close>

text \<open>
  What is relied on of the msgpack reader: a token takes at least one byte and no later than there
  are, and neither a token nor a corruption depends on the bytes that follow.
\<close>

definition reader_ok :: "token_reader \<Rightarrow> bool" where
  "reader_ok rd \<longleftrightarrow>
     (\<forall>buf t k. rd buf = Inr (t, k) \<longrightarrow> 0 < k \<and> k \<le> length buf \<and> (\<forall>later. rd (buf @ later) = Inr (t, k))) \<and>
     (\<forall>buf e. rd buf = Inl (Corrupt e) \<longrightarrow> (\<forall>later. rd (buf @ later) = Inl (Corrupt e)))"

lemma reader_token:
  "reader_ok rd \<Longrightarrow> rd buf = Inr (t, k) \<Longrightarrow> 0 < k \<and> k \<le> length buf \<and> rd (buf @ later) = Inr (t, k)"
  by (simp add: reader_ok_def)

lemma reader_corrupt: "reader_ok rd \<Longrightarrow> rd buf = Inl (Corrupt e) \<Longrightarrow> rd (buf @ later) = Inl (Corrupt e)"
  by (simp add: reader_ok_def)

lemma visit_seq_bounds:
  "reader_ok rd \<Longrightarrow> visit_seq rd n acc used buf = Inr (msg, k) \<Longrightarrow>
   used \<le> k \<and> k \<le> used + length buf \<and> visit_seq rd n acc used (buf @ later) = Inr (msg, k)"
proof (induction n arbitrary: acc used buf)
  case (Suc n)
  then obtain t j f where t: "rd buf = Inr (t, j)" and f: "field_visit t = Inr f"
    and few: "\<not> MAX_FIELDS < length acc + 1"
    and rest: "visit_seq rd n (acc @ [f]) (used + j) (drop j buf) = Inr (msg, k)"
    by (auto simp: and_then_Ok split: if_splits)
  show ?case
    using Suc.IH [OF Suc.prems(1) rest] reader_token [OF Suc.prems(1) t, of later] few f by auto
qed simp

lemma visit_seq_corrupt:
  "reader_ok rd \<Longrightarrow> visit_seq rd n acc used buf = Inl (Corrupt e) \<Longrightarrow>
   visit_seq rd n acc used (buf @ later) = Inl (Corrupt e)"
proof (induction n arbitrary: acc used buf)
  case (Suc n)
  show ?case
  proof (cases "rd buf")
    case (Inl d)
    then show ?thesis using Suc.prems reader_corrupt [of rd buf e later] by simp
  next
    case (Inr p)
    then obtain t j where t: "rd buf = Inr (t, j)" by (cases p) simp
    note tok = reader_token [OF Suc.prems(1) t, of later]
    show ?thesis
    proof (cases "field_visit t")
      case (Inl d)
      then show ?thesis using Suc.prems t tok by simp
    next
      case f: (Inr f)
      then show ?thesis
        using Suc.prems Suc.IH [OF Suc.prems(1), of "acc @ [f]" "used + j" "drop j buf"] t tok by auto
    qed
  qed
qed simp

lemma decode_frame:
  assumes "reader_ok rd" and "decode_one rd buf = Inr (Some (msg, k))"
  shows "0 < k \<and> k \<le> length buf \<and> decode_one rd (buf @ later) = Inr (Some (msg, k))"
proof -
  from assms(2) have d: "frame_deserialize rd buf = Inr (msg, k)" and ne: "buf \<noteq> []"
    by (auto simp: decode_one_def split: if_splits sum.splits decode_error.splits)
  from d obtain t j where t: "rd buf = Inr (t, j)"
    and u: "(case t of T_Array n \<Rightarrow> visit_seq rd n [] j (drop j buf)
       | _ \<Rightarrow> Err (Corrupt ''expected an LTX message array'')) = Inr (msg, k)"
    unfolding frame_deserialize_def and_then_Ok by auto
  from u obtain n where n: "t = T_Array n" and v: "visit_seq rd n [] j (drop j buf) = Inr (msg, k)"
    by (cases t) auto
  note tok = reader_token [OF assms(1) t, of later]
  from visit_seq_bounds [OF assms(1) v, of later] tok ne n show ?thesis
    by (simp add: decode_one_def frame_deserialize_def)
qed

lemma decode_corrupt:
  assumes "reader_ok rd" and "decode_one rd buf = Inl e"
  shows "decode_one rd (buf @ later) = Inl e"
proof -
  from assms(2) obtain m where e: "e = LtxE (''can'' @ [CHR 0x27] @ ''t decode LTX frame: '' @ m)"
    and d: "frame_deserialize rd buf = Inl (Corrupt m)" and ne: "buf \<noteq> []"
    by (auto simp: decode_one_def split: if_splits sum.splits decode_error.splits)
  have "frame_deserialize rd (buf @ later) = Inl (Corrupt m)"
  proof (cases "rd buf")
    case (Inl x)
    then show ?thesis using d reader_corrupt [OF assms(1), of buf m later]
      by (simp add: frame_deserialize_def)
  next
    case (Inr p)
    then obtain t j where t: "rd buf = Inr (t, j)" by (cases p) simp
    then show ?thesis
      using d reader_token [OF assms(1) t, of later] visit_seq_corrupt [OF assms(1), of _ "[]" j "drop j buf" m later]
      by (auto simp: frame_deserialize_def split: token.splits)
  qed
  with e ne show ?thesis by (simp add: decode_one_def)
qed

subsection \<open>Draining the buffer\<close>

lemma drain_error:
  "decode_one rd buf = Inl e \<Longrightarrow> drain_frames rd (Suc n) buf c = Some (buf, record_fatal (error_display e) c)"
  and drain_wait: "decode_one rd buf = Inr None \<Longrightarrow> drain_frames rd (Suc n) buf c = Some (buf, c)"
  and drain_step:
  "decode_one rd buf = Inr (Some (msg, k)) \<Longrightarrow>
   drain_frames rd (Suc n) buf c =
     (if lx_fatal (dispatch msg c) \<noteq> None then Some (drop k buf, dispatch msg c)
      else drain_frames rd n (drop k buf) (dispatch msg c))"
  by (simp_all add: Let_def)

declare drain_frames.simps(2) [simp del]

lemma decode_cases:
  obtains (corrupt) e where "decode_one rd buf = Inl e"
    | (wait) "decode_one rd buf = Inr None"
    | (frame) msg k where "decode_one rd buf = Inr (Some (msg, k))"
  by (metis not_None_eq old.sum.exhaust surj_pair)

lemma dispatch_frame [simp]:
  "lx_stop (dispatch msg c) = lx_stop c"
  "lx_contended c = [] \<Longrightarrow> lx_contended (dispatch msg c) = []"
  by (simp_all add: dispatch_def dispatch_feed_def record_fatal_def
      split: sum.splits list.splits bool.splits prod.splits)

lemma record_fatal_free [simp]:
  "lx_contended c = [] \<Longrightarrow> record_fatal m c = c\<lparr>lx_fatal := get_or_insert (lx_fatal c) m\<rparr>"
  by (simp add: record_fatal_def)

lemma get_or_insert_some [simp]: "get_or_insert f m \<noteq> None"
  by (cases f) (simp_all add: get_or_insert_def)

lemma drain_more:
  "drain_frames rd n buf c = Some r \<Longrightarrow> n \<le> m \<Longrightarrow> drain_frames rd m buf c = Some r"
proof (induction n arbitrary: m buf c)
  case (Suc n)
  then obtain m' where m: "m = Suc m'" "n \<le> m'" by (cases m) auto
  show ?case
  proof (cases rd buf rule: decode_cases)
    case frame
    then show ?thesis using Suc m by (simp add: drain_step split: if_splits)
  qed (use Suc.prems m in \<open>simp_all add: drain_error drain_wait\<close>)
qed simp

lemma drain_some:
  "reader_ok rd \<Longrightarrow> length buf < n \<Longrightarrow> \<exists>r. drain_frames rd n buf c = Some r"
proof (induction n arbitrary: buf c)
  case (Suc n)
  show ?case
  proof (cases rd buf rule: decode_cases)
    case (frame msg k)
    have "length (drop k buf) < n" using decode_frame [OF Suc.prems(1) frame, of "[]"] Suc.prems(2) by (simp; arith)
    then show ?thesis using Suc.IH [OF Suc.prems(1), of "drop k buf"] frame by (simp add: drain_step)
  qed (simp_all add: drain_error drain_wait)
qed simp

text \<open>Bytes that arrive later only matter once the buffer is drained, and not after an error.\<close>

lemma drain_frame:
  "lx_contended c = [] \<Longrightarrow> drain_frames rd n buf c = Some (rest, c1) \<Longrightarrow>
   lx_contended c1 = [] \<and> lx_stop c1 = lx_stop c"
proof (induction n arbitrary: buf c)
  case (Suc n)
  show ?case
  proof (cases rd buf rule: decode_cases)
    case (frame msg k)
    then show ?thesis
      using Suc.IH [of "dispatch msg c" "drop k buf"] Suc.prems by (auto simp: drain_step split: if_splits)
  qed (use Suc.prems in \<open>auto simp: drain_error drain_wait\<close>)
qed simp

lemma drain_fatal:
  "reader_ok rd \<Longrightarrow> lx_contended c = [] \<Longrightarrow> drain_frames rd n buf c = Some (rest, c1) \<Longrightarrow>
   lx_fatal c = None \<Longrightarrow> lx_fatal c1 \<noteq> None \<Longrightarrow> drain_frames rd n (buf @ later) c = Some (rest @ later, c1)"
proof (induction n arbitrary: buf c)
  case (Suc n)
  show ?case
  proof (cases rd buf rule: decode_cases)
    case (corrupt e)
    then show ?thesis
      using Suc.prems decode_corrupt [OF Suc.prems(1) corrupt, of later] by (auto simp: drain_error)
  next
    case wait
    then show ?thesis using Suc.prems by (simp add: drain_wait)
  next
    case (frame msg k)
    note dec = decode_frame [OF Suc.prems(1) frame, of later]
    then have later: "decode_one rd (buf @ later) = Inr (Some (msg, k))" by simp
    show ?thesis
    proof (cases "lx_fatal (dispatch msg c) = None")
      case True
      have "drain_frames rd n (drop k buf @ later) (dispatch msg c) = Some (rest @ later, c1)"
        by (rule Suc.IH) (use Suc.prems True frame in \<open>simp_all add: drain_step\<close>)
      then show ?thesis using True dec by (simp add: drain_step [OF later])
    next
      case False
      then show ?thesis using Suc.prems(3) dec by (simp add: drain_step [OF later] drain_step [OF frame])
    qed
  qed
qed simp

lemma drain_settles:
  "reader_ok rd \<Longrightarrow> lx_contended c = [] \<Longrightarrow> drain_frames rd n buf c = Some (rest, c1) \<Longrightarrow>
   lx_fatal c1 = None \<Longrightarrow>
   length rest \<le> length buf \<and> decode_one rd rest = Inr None \<and>
   (drain_frames rd m (rest @ later) c1 = Some r \<longrightarrow> drain_frames rd (n + m) (buf @ later) c = Some r)"
proof (induction n arbitrary: buf c)
  case (Suc n)
  show ?case
  proof (cases rd buf rule: decode_cases)
    case (corrupt e)
    then show ?thesis using Suc.prems by (auto simp: drain_error)
  next
    case wait
    then have "rest = buf" "c1 = c" using Suc.prems by (simp_all add: drain_wait)
    then show ?thesis using wait drain_more [of rd m "buf @ later" c r "Suc n + m"] by auto
  next
    case (frame msg k)
    note dec = decode_frame [OF Suc.prems(1) frame, of later]
    then have later: "decode_one rd (buf @ later) = Inr (Some (msg, k))" by simp
    have ok: "lx_fatal (dispatch msg c) = None"
      using Suc.prems(3,4) by (auto simp: drain_step [OF frame] split: if_splits)
    have "drain_frames rd n (drop k buf) (dispatch msg c) = Some (rest, c1)"
      using Suc.prems(3) ok by (simp add: drain_step [OF frame])
    from Suc.IH [OF Suc.prems(1) _ this Suc.prems(4)] Suc.prems(2) show ?thesis
      using ok dec drain_step [OF later, of "n + m" c] by auto
  qed
qed simp

lemma poll_read_bytes:
  assumes "reader_ok rd" and "lx_contended c = []" and "\<not> lx_stop c"
    and "bytes \<noteq> []" and "length buf + length bytes \<le> MAX_BUFFERED_BYTES"
    and "drain_frames rd n (buf @ bytes) c = Some (rest, c1)"
  shows "poll_read rd (Inr bytes) buf c =
     Some (if lx_fatal c1 \<noteq> None then poll_end c1 else Polling rest c1)"
proof -
  let ?s = "Suc (length buf + length bytes)"
  obtain r where r: "drain_frames rd ?s (buf @ bytes) c = Some r"
    using drain_some [OF assms(1), of "buf @ bytes" ?s c] by auto
  have "r = (rest, c1)"
    using drain_more [OF r, of "max n ?s"] drain_more [OF assms(6), of "max n ?s"] by simp
  with r assms show ?thesis by (simp add: poll_read_def Let_def)
qed

lemma poll_chunks:
  assumes "reader_ok rd" and "cs \<noteq> []" and "[] \<notin> set cs" and "lx_contended c = []" and "\<not> lx_stop c"
    and "lx_fatal c = None" and "length buf + length (concat cs) \<le> MAX_BUFFERED_BYTES"
  shows "poll_reads rd (map Inr cs) buf c = poll_reads rd [Inr (concat cs)] buf c"
  using assms(2-7)
proof (induction cs arbitrary: buf c)
  case (Cons x cs)
  show ?case
  proof (cases "cs = []")
    case False
    obtain rest c1 where d: "drain_frames rd (Suc (length (buf @ x))) (buf @ x) c = Some (rest, c1)"
      using drain_some [OF assms(1), of "buf @ x" "Suc (length (buf @ x))" c] by auto
    have x: "poll_read rd (Inr x) buf c = Some (if lx_fatal c1 \<noteq> None then poll_end c1 else Polling rest c1)"
      using poll_read_bytes [OF assms(1) Cons.prems(3,4) _ _ d] Cons.prems by auto
    have frame: "lx_contended c1 = []" "\<not> lx_stop c1"
      using drain_frame [OF Cons.prems(3) d] Cons.prems(4) by simp_all
    have whole: "x @ concat cs \<noteq> []" "length buf + length (x @ concat cs) \<le> MAX_BUFFERED_BYTES"
      using Cons.prems by auto
    show ?thesis
    proof (cases "lx_fatal c1 = None")
      case False
      then have "drain_frames rd (Suc (length (buf @ x))) (buf @ x @ concat cs) c = Some (rest @ concat cs, c1)"
        using drain_fatal [OF assms(1) Cons.prems(3) d Cons.prems(5)] by simp
      from poll_read_bytes [OF assms(1) Cons.prems(3,4) whole this] x False show ?thesis
        by (simp add: poll_end_def)
    next
      case True
      note settled = drain_settles [OF assms(1) Cons.prems(3) d True]
      then have "length rest \<le> length (buf @ x)" by blast
      then have cap: "length rest + length (concat cs) \<le> MAX_BUFFERED_BYTES" using whole by simp
      obtain r where r: "drain_frames rd (Suc (length (rest @ concat cs))) (rest @ concat cs) c1 = Some r"
        using drain_some [OF assms(1), of "rest @ concat cs" "Suc (length (rest @ concat cs))" c1] by auto
      obtain r1 r2 where rr: "r = (r1, r2)" by fastforce
      have "drain_frames rd (Suc (length (buf @ x)) + Suc (length (rest @ concat cs)))
          ((buf @ x) @ concat cs) c = Some r"
        using settled r by blast
      then obtain n where n: "drain_frames rd n (buf @ x @ concat cs) c = Some (r1, r2)"
        using rr by auto
      have ne: "concat cs \<noteq> []" using False Cons.prems by (cases cs) auto
      have "poll_reads rd (map Inr cs) rest c1 = poll_reads rd [Inr (concat cs)] rest c1"
        using Cons.IH [OF False _ frame True cap] Cons.prems by simp
      then show ?thesis
        using poll_read_bytes [OF assms(1) Cons.prems(3,4) whole n] x True
          poll_read_bytes [OF assms(1) frame ne cap r [unfolded rr]]
        by (simp add: poll_end_def)
    qed
  qed simp
qed simp

text \<open>
  Claim C17: how the peer's output is cut into reads does not matter. With a reader whose tokens do
  not depend on what follows them, any two ways of reading the same bytes, within the buffer cap,
  leave the transport in the same state: the same pending requests, replies and first error, and
  the same undecoded rest.
\<close>

theorem read_boundaries_do_not_matter:
  assumes "reader_ok rd" and "concat cs = concat ds" and "[] \<notin> set cs" and "[] \<notin> set ds"
    and "lx_fatal c = None" and "\<not> lx_stop c" and "lx_contended c = []"
    and "length (concat cs) \<le> MAX_BUFFERED_BYTES"
  shows "poll_loop rd (Inr ()) (map Inr cs) c = poll_loop rd (Inr ()) (map Inr ds) c \<and>
     poll_loop rd (Inr ()) (map Inr cs) c \<noteq> None"
proof (cases "cs = []")
  case True
  then have "ds = []" using assms(2,4) by (cases ds) auto
  with True show ?thesis by (simp add: poll_loop_def)
next
  case False
  then have "ds \<noteq> []" using assms(2,3) by (cases cs) auto
  have whole: "concat cs \<noteq> []" using False assms(3) by (cases cs) auto
  obtain r1 r2 where r: "drain_frames rd (Suc (length (concat cs))) (concat cs) c = Some (r1, r2)"
    using drain_some [OF assms(1), of "concat cs" "Suc (length (concat cs))" c] by auto
  then have "poll_reads rd [Inr (concat cs)] [] c \<noteq> None"
    using poll_read_bytes [OF assms(1,7,6) whole, of "[]"] assms(8) by (simp add: poll_end_def)
  then show ?thesis
    using poll_chunks [OF assms(1) False assms(3,7,6,5), of "[]"]
      poll_chunks [OF assms(1) \<open>ds \<noteq> []\<close> assms(4,7,6,5), of "[]"] assms(2,8)
    by (simp add: poll_loop_def)
qed

text \<open>A reader of the shortest msgpack forms: small integers, strings, arrays and nil.\<close>

definition small_reader :: token_reader where
  "small_reader buf =
     (case buf of
        [] \<Rightarrow> Inl Truncated
      | b # bs \<Rightarrow>
          (let n = (of_char b :: nat)
           in if n < 128 then Inr (T_Unsigned (of_nat n), 1)
              else if 144 \<le> n \<and> n < 160 then Inr (T_Array (n - 144), 1)
              else if 160 \<le> n \<and> n < 192 then
                (if n - 160 \<le> length bs then Inr (T_Str (take (n - 160) bs), Suc (n - 160))
                 else Inl Truncated)
              else if n = 192 then Inr (T_Nil, 1)
              else Inl (Corrupt ''unsupported marker'')))"

lemma small_reader_ok: "reader_ok small_reader"
  by (auto simp: reader_ok_def small_reader_def Let_def split: list.splits if_splits)

definition version_waiting :: ltx_conn where
  "version_waiting = ltx_new\<lparr>lx_running := True, lx_next_id := 1,
     lx_pending := [\<lparr> pe_id = 0, pe_request = req_version \<rparr>]\<rparr>"

lemma read_boundaries_do_not_matter_witness:
  "poll_loop small_reader (Inr ()) (map Inr [[CHR 0x92], [CHR 0x00, CHR 0xA3, CHR ''1''], ''.2'']) version_waiting
   = poll_loop small_reader (Inr ()) (map Inr [[CHR 0x92, CHR 0x00, CHR 0xA3, CHR ''1'', CHR ''.'', CHR ''2'']])
       version_waiting"
  using read_boundaries_do_not_matter [OF small_reader_ok,
      of "[[CHR 0x92], [CHR 0x00, CHR 0xA3, CHR ''1''], ''.2'']"
        "[[CHR 0x92, CHR 0x00, CHR 0xA3, CHR ''1'', CHR ''.'', CHR ''2'']]" version_waiting]
  by (simp add: version_waiting_def ltx_new_def MAX_BUFFERED_BYTES_def)

end
