(* ===== verification/Ltx_World.thy ===== *)
theory Ltx_World
  imports Ltx_Transport
begin

text \<open>
  The tasks of one LTX connection interleaved: senders that register a batch under the write lock and
  transmit it piece by piece, the poll task that dispatches frames, waiting callers that collect
  their replies, and callers that are dropped at any point. Each step is one critical section of
  \<open>ltx.rs\<close>. The transport is shown to refine a list of calls, each of which is waiting, answered and
  collected in this order.
\<close>

section \<open>Steps\<close>

text \<open>
  \<open>lw_log\<close> is a history: the requests registered so far, in the order of their ids. \<open>lw_writing\<close> is the
  batch that holds the write lock with the bytes left to write, \<open>lw_waiting\<close> the batches whose callers
  wait for replies.
\<close>

record ltx_world =
  lw_conn :: ltx_conn
  lw_log :: "request list"
  lw_writing :: "(u64 list \<times> string) option"
  lw_waiting :: "u64 list list"

definition fresh_request :: "request \<Rightarrow> bool" where
  "fresh_request r \<longleftrightarrow> \<not> request_completed r \<and> within_caps r"

definition world_init :: "bool list \<Rightarrow> ltx_world" where
  "world_init locks =
     \<lparr> lw_conn = snd (ltx_connect (Ok ()) (ltx_new\<lparr>lx_contended := locks\<rparr>)), lw_log = [],
       lw_writing = None, lw_waiting = [] \<rparr>"

definition put_wire :: "string \<Rightarrow> ltx_conn \<Rightarrow> ltx_conn" where
  "put_wire out c = c\<lparr>lx_wire := lx_wire c @ out\<rparr>"

inductive ltx_step :: "packer \<Rightarrow> ltx_world \<Rightarrow> ltx_world \<Rightarrow> bool" for pk where
  send:
    "lw_writing w = None \<Longrightarrow> reqs \<noteq> [] \<Longrightarrow> \<forall>r \<in> set reqs. fresh_request r \<Longrightarrow> pack_all pk reqs = Inr bytes \<Longrightarrow>
     send_register reqs (lw_conn w) = (Inr ids, c) \<Longrightarrow>
     ltx_step pk w (w\<lparr>lw_conn := c, lw_log := lw_log w @ reqs, lw_writing := Some (ids, bytes)\<rparr>)"
| write_some:
    "lw_writing w = Some (ids, bytes) \<Longrightarrow> write_all_fifo evs bytes = (None, out) \<Longrightarrow>
     ltx_step pk w (w\<lparr>lw_conn := put_wire out (lw_conn w),
                     lw_writing := Some (ids, drop (length out) bytes)\<rparr>)"
| write_rest:
    "lw_writing w = Some (ids, bytes) \<Longrightarrow> write_all_fifo evs bytes = (Some (Inr ()), out) \<Longrightarrow>
     ltx_step pk w (w\<lparr>lw_conn := send_guard_drop True (put_wire out (lw_conn w)), lw_writing := None,
                     lw_waiting := lw_waiting w @ [ids]\<rparr>)"
| write_error:
    "lw_writing w = Some (ids, bytes) \<Longrightarrow> write_infile path opens evs bytes = (Some (Inl e), out) \<Longrightarrow>
     ltx_step pk w (w\<lparr>lw_conn := send_guard_drop False (put_wire out (lw_conn w)), lw_writing := None\<rparr>)"
| send_dropped:
    "lw_writing w = Some (ids, bytes) \<Longrightarrow>
     ltx_step pk w (w\<lparr>lw_conn := send_guard_drop False (lw_conn w), lw_writing := None\<rparr>)"
| receive: "ltx_step pk w (w\<lparr>lw_conn := dispatch msg (lw_conn w)\<rparr>)"
| poll_error: "ltx_step pk w (w\<lparr>lw_conn := record_fatal m (lw_conn w)\<rparr>)"
| poll_ends: "ltx_step pk w (w\<lparr>lw_conn := (lw_conn w)\<lparr>lx_running := False\<rparr>\<rparr>)"
| collect:
    "ids \<in> set (lw_waiting w) \<Longrightarrow> gather_round (length ids) ids (lw_conn w) = Some (res, c) \<Longrightarrow>
     ltx_step pk w (w\<lparr>lw_conn := c, lw_waiting := remove1 ids (lw_waiting w)\<rparr>)"
| gather_dropped: "ltx_step pk w (w\<lparr>lw_waiting := remove1 ids (lw_waiting w)\<rparr>)"
| disconnect: "ltx_step pk w (w\<lparr>lw_conn := snd (ltx_disconnect (lw_conn w))\<rparr>)"

inductive ltx_reachable :: "packer \<Rightarrow> ltx_world \<Rightarrow> bool" for pk where
  init: "ltx_reachable pk (world_init locks)"
| step: "ltx_reachable pk w \<Longrightarrow> ltx_step pk w w' \<Longrightarrow> ltx_reachable pk w'"

text \<open>Every request the constructors make starts fresh.\<close>

lemma constructors_fresh:
  "fresh_request req_version" "fresh_request req_ping" "fresh_request (req_kill slot)"
  "req_env slot_opt key val = Inr r \<Longrightarrow> fresh_request r" "req_cwd slot_opt path = Inr r \<Longrightarrow> fresh_request r"
  "req_get_file path = Inr r \<Longrightarrow> fresh_request r" "req_set_file path bytes = Inr r \<Longrightarrow> fresh_request r"
  "req_execute slot command = Inr r \<Longrightarrow> fresh_request r"
  "req_execute_with_stdout slot command = Inr r \<Longrightarrow> fresh_request r"
  by (auto simp: fresh_request_def req_version_def req_ping_def req_kill_def req_env_def req_cwd_def
      req_get_file_def req_set_file_def req_execute_def req_execute_with_stdout_def
      execute_inner_def and_then_Ok split: if_splits)

section \<open>What the operations do to the queue\<close>

lemma feed_error_same: "fst (feed r m) = Inl e \<Longrightarrow> snd (feed r m) = r"
  by (cases r) (auto simp: feed_defs Let_def opcode_distinct [symmetric] split: if_splits sum.splits)

lemma update_fresh: "k \<notin> fst ` set al \<Longrightarrow> AList.update k v al = al @ [(k, v)]"
  by (induction al) auto

text \<open>
  One frame moves some requests from the pending list to the replies, in order, and leaves the others
  as the requests they are.
\<close>

definition moved ::
  "pending list \<Rightarrow> (u64 \<times> reply) list \<Rightarrow> pending list \<Rightarrow> (u64 \<times> reply) list \<Rightarrow> bool" where
  "moved ps rs ps1 rs1 \<longleftrightarrow>
     (\<exists>new. rs1 = rs @ new \<and> distinct (map pe_id ps1 @ map fst new) \<and>
        set (map pe_id ps1 @ map fst new) = set (map pe_id ps) \<and>
        (\<forall>q \<in> set ps1. within_caps (pe_request q) \<and>
           (\<exists>p \<in> set ps. pe_id p = pe_id q \<and> answers (pe_request q) = answers (pe_request p))) \<and>
        (\<forall>(i, a) \<in> set new. \<exists>p \<in> set ps. pe_id p = i \<and> answers (pe_request p) a))"

lemma moved_keep:
  assumes "moved ps rs ps1 rs1" and "pe_id p \<notin> set (map pe_id ps)"
    and "pe_id q = pe_id p" and "answers (pe_request q) = answers (pe_request p)" and "within_caps (pe_request q)"
  shows "moved (p # ps) rs (q # ps1) rs1"
proof -
  from assms(1) obtain new where new: "rs1 = rs @ new" "distinct (map pe_id ps1 @ map fst new)"
    "set (map pe_id ps1 @ map fst new) = set (map pe_id ps)"
    "\<forall>q \<in> set ps1. within_caps (pe_request q) \<and>
       (\<exists>p \<in> set ps. pe_id p = pe_id q \<and> answers (pe_request q) = answers (pe_request p))"
    "\<forall>(i, a) \<in> set new. \<exists>p \<in> set ps. pe_id p = i \<and> answers (pe_request p) a"
    unfolding moved_def by blast
  have fresh: "pe_id q \<notin> set (map pe_id ps1 @ map fst new)" using assms(2,3) new(3) by simp
  show ?thesis
    unfolding moved_def
  proof (intro exI [of _ new] conjI)
    show "distinct (map pe_id (q # ps1) @ map fst new)" using new(2) fresh by simp
    show "set (map pe_id (q # ps1) @ map fst new) = set (map pe_id (p # ps))" using new(3) assms(3) by simp
    show "\<forall>(i, a) \<in> set new. \<exists>p' \<in> set (p # ps). pe_id p' = i \<and> answers (pe_request p') a"
      using new(5) by fastforce
  qed (use new assms in auto)
qed

lemma moved_answer:
  assumes "moved ps (rs @ [(pe_id p, a)]) ps1 rs1" and "pe_id p \<notin> set (map pe_id ps)"
    and "answers (pe_request p) a"
  shows "moved (p # ps) rs ps1 rs1"
proof -
  from assms(1) obtain new where new: "rs1 = (rs @ [(pe_id p, a)]) @ new"
    "distinct (map pe_id ps1 @ map fst new)"
    "set (map pe_id ps1 @ map fst new) = set (map pe_id ps)"
    "\<forall>q \<in> set ps1. within_caps (pe_request q) \<and>
       (\<exists>p \<in> set ps. pe_id p = pe_id q \<and> answers (pe_request q) = answers (pe_request p))"
    "\<forall>(i, a) \<in> set new. \<exists>p \<in> set ps. pe_id p = i \<and> answers (pe_request p) a"
    unfolding moved_def by blast
  have fresh: "pe_id p \<notin> set (map pe_id ps1 @ map fst new)" using assms(2) new(3) by simp
  show ?thesis
    unfolding moved_def
  proof (intro exI [of _ "(pe_id p, a) # new"] conjI)
    show "distinct (map pe_id ps1 @ map fst ((pe_id p, a) # new))" using new(2) fresh by auto
    show "set (map pe_id ps1 @ map fst ((pe_id p, a) # new)) = set (map pe_id (p # ps))"
      using new(3) by auto
    show "\<forall>(i, b) \<in> set ((pe_id p, a) # new). \<exists>p' \<in> set (p # ps). pe_id p' = i \<and> answers (pe_request p') b"
      using new(5) assms(3) by fastforce
  qed (use new in auto)
qed

lemma moved_refl:
  "distinct (map pe_id ps) \<Longrightarrow> \<forall>p \<in> set ps. within_caps (pe_request p) \<Longrightarrow> moved ps rs ps rs"
  unfolding moved_def by (rule exI [of _ "[]"]) auto

lemma dispatch_moves:
  "dispatch_pending msg ps rs fatal = (ps1, rs1, fatal1) \<Longrightarrow> distinct (map pe_id ps) \<Longrightarrow>
   set (map pe_id ps) \<inter> fst ` set rs = {} \<Longrightarrow> \<forall>p \<in> set ps. within_caps (pe_request p) \<Longrightarrow>
   moved ps rs ps1 rs1"
proof (induction ps arbitrary: rs fatal ps1 rs1 fatal1)
  case Nil
  then show ?case by (simp add: moved_refl)
next
  case (Cons p ps)
  obtain x q where f: "feed (pe_request p) msg = (x, q)" by fastforce
  have caps: "within_caps q" using feed_within_caps [of "pe_request p" msg] f Cons.prems(4) by simp
  consider e where "x = Inl e" | "x = Inr None" | a where "x = Inr (Some a)" by (metis not_None_eq old.sum.exhaust)
  then show ?case
  proof cases
    case 1
    then have "q = pe_request p" using feed_error_same [of "pe_request p" msg e] f by simp
    then show ?thesis using Cons.prems f 1 by (auto intro!: moved_refl)
  next
    case 2
    then have same: "answers q = answers (pe_request p)" using feed_silent_same [of "pe_request p" msg] f by simp
    obtain ps2 rs2 fatal2 where d: "dispatch_pending msg ps rs fatal = (ps2, rs2, fatal2)"
      by (metis surj_pair)
    have "moved ps rs ps2 rs2" using Cons.IH [OF d] Cons.prems by auto
    then show ?thesis
      using moved_keep [of ps rs ps2 rs2 p "p\<lparr>pe_request := q\<rparr>"] Cons.prems f 2 d same caps by simp
  next
    case 3
    then have ans: "answers (pe_request p) a"
      using feed_reply_answers [of "pe_request p" msg a] f Cons.prems(4) by simp
    have fresh: "AList.update (pe_id p) a rs = rs @ [(pe_id p, a)]"
      using Cons.prems(3) by (intro update_fresh) auto
    have "dispatch_pending msg ps (rs @ [(pe_id p, a)]) fatal = (ps1, rs1, fatal1)"
      using Cons.prems(1) f 3 fresh by simp
    from Cons.IH [OF this] Cons.prems have "moved ps (rs @ [(pe_id p, a)]) ps1 rs1" by auto
    then show ?thesis using moved_answer ans Cons.prems(2) by simp
  qed
qed

text \<open>A registered batch gets the next ids, in order.\<close>

lemma push_pending_spec:
  "push_pending rs c =
     (map (\<lambda>k. lx_next_id c + of_nat k) [0..<length rs],
      c\<lparr>lx_next_id := lx_next_id c + of_nat (length rs),
        lx_pending := lx_pending c @
          map (\<lambda>k. \<lparr> pe_id = lx_next_id c + of_nat k, pe_request = rs ! k \<rparr>) [0..<length rs]\<rparr>)"
proof (induction rs arbitrary: c)
  case (Cons r rs)
  have upt: "[0..<Suc n] = 0 # map Suc [0..<n]" for n by (simp add: upt_conv_Cons map_Suc_upt)
  show ?case by (simp add: Cons.IH upt o_def add.assoc Let_def del: upt_Suc)
qed simp

lemma map_of_filter_other: "x \<noteq> i \<Longrightarrow> map_of (filter (\<lambda>(j, b). j \<noteq> i) rs) x = map_of rs x"
  by (induction rs) auto

lemma take_replies_spec:
  "distinct (map fst rs) \<Longrightarrow> distinct ids \<Longrightarrow> set ids \<subseteq> fst ` set rs \<Longrightarrow>
   take_replies ids rs = (map (\<lambda>i. the (map_of rs i)) ids, filter (\<lambda>(i, a). i \<notin> set ids) rs)"
proof (induction ids arbitrary: rs)
  case (Cons i ids)
  then obtain a where a: "map_of rs i = Some a" by (metis list.set_intros(1) map_of_eq_None_iff not_None_eq subsetD)
  have del: "AList.delete i rs = filter (\<lambda>(j, b). j \<noteq> i) rs" by (induction rs) auto
  have sub: "set ids \<subseteq> fst ` set (AList.delete i rs)" using Cons.prems by (auto simp: del image_iff) force
  have "distinct (map fst (AList.delete i rs))" using Cons.prems(1) by (simp add: distinct_delete)
  note ih = Cons.IH [OF this _ sub]
  have same: "map_of (filter (\<lambda>(j, b). j \<noteq> i) rs) x = map_of rs x" if "x \<in> set ids" for x
    using that Cons.prems(2) by (intro map_of_filter_other) auto
  from ih Cons.prems(2) a show ?case
    by (auto simp: del same intro!: filter_cong)
qed simp

section \<open>The invariant\<close>

definition tickets :: "ltx_world \<Rightarrow> u64 list" where
  "tickets w = concat (lw_waiting w) @ (case lw_writing w of Some (ids, _) \<Rightarrow> ids | None \<Rightarrow> [])"

text \<open>The queue: an id is pending or replied, not both, and belongs to the request it was given for.\<close>

definition queue_inv :: "request list \<Rightarrow> ltx_conn \<Rightarrow> bool" where
  "queue_inv reqs c \<longleftrightarrow>
     unat (lx_next_id c) = length reqs \<and>
     distinct (map pe_id (lx_pending c) @ map fst (lx_replies c)) \<and>
     (\<forall>p \<in> set (lx_pending c). unat (pe_id p) < length reqs \<and> within_caps (pe_request p) \<and>
        answers (pe_request p) = answers (reqs ! unat (pe_id p))) \<and>
     (\<forall>(i, a) \<in> set (lx_replies c). unat i < length reqs \<and> answers (reqs ! unat i) a)"

text \<open>Nothing is lost: what a caller waits for is pending or replied, and no two wait for the same.\<close>

definition ticket_inv :: "ltx_world \<Rightarrow> bool" where
  "ticket_inv w \<longleftrightarrow> distinct (tickets w) \<and>
     set (tickets w) \<subseteq> set (map pe_id (lx_pending (lw_conn w)) @ map fst (lx_replies (lw_conn w)))"

text \<open>The stream: whole packed requests in the order of their ids, except after a desynchronization.\<close>

definition wire_inv :: "packer \<Rightarrow> ltx_world \<Rightarrow> bool" where
  "wire_inv pk w \<longleftrightarrow>
     (\<exists>bytes. pack_all pk (lw_log w) = Inr bytes \<and>
        (case lw_writing w of
           Some (_, rest) \<Rightarrow> \<not> lx_desynced (lw_conn w) \<and> lx_wire (lw_conn w) @ rest = bytes
         | None \<Rightarrow> if lx_desynced (lw_conn w) then prefix (lx_wire (lw_conn w)) bytes
                   else lx_wire (lw_conn w) = bytes))"

definition same_queue :: "ltx_conn \<Rightarrow> ltx_conn \<Rightarrow> bool" where
  "same_queue c d \<longleftrightarrow> lx_pending d = lx_pending c \<and> lx_replies d = lx_replies c \<and> lx_next_id d = lx_next_id c"

lemma queue_inv_same: "same_queue c d \<Longrightarrow> queue_inv reqs d = queue_inv reqs c"
  by (simp add: same_queue_def queue_inv_def)

lemma put_wire_same [simp]: "same_queue c (put_wire out c)"
  and guard_same [simp]: "same_queue c (send_guard_drop b c)"
  and guard_wire_same [simp]: "same_queue c (send_guard_drop b (put_wire out c))"
  and fatal_same [simp]: "same_queue c (record_fatal m c)"
  and running_same [simp]: "same_queue c (c\<lparr>lx_running := False\<rparr>)"
  and disconnect_same [simp]: "same_queue c (snd (ltx_disconnect c))"
  by (simp_all add: same_queue_def put_wire_def send_guard_drop_def record_fatal_def
      ltx_disconnect_def Let_def split: list.splits bool.splits option.splits)

lemma wire_frame [simp]:
  "lx_wire (put_wire out c) = lx_wire c @ out" "lx_desynced (put_wire out c) = lx_desynced c"
  "lx_wire (send_guard_drop b c) = lx_wire c" "lx_desynced (send_guard_drop b c) = (\<not> b \<or> lx_desynced c)"
  "lx_wire (record_fatal m c) = lx_wire c" "lx_desynced (record_fatal m c) = lx_desynced c"
  "lx_wire (snd (ltx_disconnect c)) = lx_wire c" "lx_desynced (snd (ltx_disconnect c)) = lx_desynced c"
  by (simp_all add: put_wire_def send_guard_drop_def record_fatal_def ltx_disconnect_def Let_def
      split: list.splits bool.splits option.splits)

text \<open>Dispatching either leaves the queue alone or moves requests to the replies.\<close>

lemma dispatch_cases:
  assumes "distinct (map pe_id (lx_pending c) @ map fst (lx_replies c))"
    and "\<forall>p \<in> set (lx_pending c). within_caps (pe_request p)"
  shows "moved (lx_pending c) (lx_replies c) (lx_pending (dispatch msg c)) (lx_replies (dispatch msg c))"
    and "lx_next_id (dispatch msg c) = lx_next_id c" and "lx_wire (dispatch msg c) = lx_wire c"
    and "lx_desynced (dispatch msg c) = lx_desynced c"
proof -
  have refl: "moved (lx_pending c) (lx_replies c) (lx_pending c) (lx_replies c)"
    using assms by (intro moved_refl) auto
  have fed: "moved (lx_pending c) (lx_replies c) (lx_pending (dispatch_feed msg c)) (lx_replies (dispatch_feed msg c))"
  proof -
    obtain ps1 rs1 f1 where d: "dispatch_pending msg (lx_pending c) (lx_replies c) (lx_fatal c) = (ps1, rs1, f1)"
      by (metis surj_pair)
    then show ?thesis
      using dispatch_moves [OF d] assms by (simp add: dispatch_feed_def disjoint_iff)
  qed
  have fatal: "lx_pending (record_fatal m c) = lx_pending c" "lx_replies (record_fatal m c) = lx_replies c" for m
    using fatal_same [of c m] unfolding same_queue_def by blast+
  show "moved (lx_pending c) (lx_replies c) (lx_pending (dispatch msg c)) (lx_replies (dispatch msg c))"
    using refl fed by (simp add: dispatch_def fatal split: sum.splits)
  show "lx_next_id (dispatch msg c) = lx_next_id c" and "lx_wire (dispatch msg c) = lx_wire c"
    and "lx_desynced (dispatch msg c) = lx_desynced c"
    by (simp_all add: dispatch_def dispatch_feed_def record_fatal_def
        split: sum.splits prod.splits list.splits bool.splits)
qed

lemma queue_inv_moved:
  assumes "queue_inv reqs c" and "moved (lx_pending c) (lx_replies c) (lx_pending d) (lx_replies d)"
    and "lx_next_id d = lx_next_id c"
  shows "queue_inv reqs d"
proof -
  from assms(2) obtain new where new: "lx_replies d = lx_replies c @ new"
    "distinct (map pe_id (lx_pending d) @ map fst new)"
    "set (map pe_id (lx_pending d) @ map fst new) = set (map pe_id (lx_pending c))"
    "\<forall>q \<in> set (lx_pending d). within_caps (pe_request q) \<and>
       (\<exists>p \<in> set (lx_pending c). pe_id p = pe_id q \<and> answers (pe_request q) = answers (pe_request p))"
    "\<forall>(i, a) \<in> set new. \<exists>p \<in> set (lx_pending c). pe_id p = i \<and> answers (pe_request p) a"
    unfolding moved_def by blast
  have disj: "set (map pe_id (lx_pending c)) \<inter> set (map fst (lx_replies c)) = {}"
    using assms(1) unfolding queue_inv_def by auto
  have d: "distinct (map pe_id (lx_pending d) @ map fst (lx_replies d))"
  proof -
    have "set (map pe_id (lx_pending d)) \<inter> set (map fst (lx_replies c)) = {}"
      and "set (map fst new) \<inter> set (map fst (lx_replies c)) = {}"
      using new(3) disj by auto
    moreover have "distinct (map fst (lx_replies c))" using assms(1) unfolding queue_inv_def by simp
    ultimately show ?thesis using new(1,2) by auto
  qed
  have ps: "unat (pe_id q) < length reqs \<and> within_caps (pe_request q) \<and>
      answers (pe_request q) = answers (reqs ! unat (pe_id q))" if "q \<in> set (lx_pending d)" for q
    using new(4) that assms(1) unfolding queue_inv_def by metis
  have rs: "unat i < length reqs \<and> answers (reqs ! unat i) a" if "(i, a) \<in> set (lx_replies d)" for i a
  proof (cases "(i, a) \<in> set new")
    case True
    then obtain p where "p \<in> set (lx_pending c)" "pe_id p = i" "answers (pe_request p) a" using new(5) by blast
    then show ?thesis using assms(1) unfolding queue_inv_def by metis
  next
    case False
    then have "(i, a) \<in> set (lx_replies c)" using that new(1) by simp
    then show ?thesis using assms(1) unfolding queue_inv_def by blast
  qed
  show ?thesis using assms(1,3) d ps rs unfolding queue_inv_def by auto
qed

section \<open>Every step keeps it\<close>

lemma unat_plus_nat:
  assumes "unat (x :: u64) + k < 2 ^ 64"
  shows "unat (x + of_nat k) = unat x + k"
proof -
  have k: "unat (of_nat k :: u64) = k" using assms by (simp add: unat_of_nat take_bit_nat_eq_self)
  then have "unat x + unat (of_nat k :: u64) < 2 ^ LENGTH(64)" using assms by simp
  with k show ?thesis using unat_add_lem [of x "of_nat k"] by simp
qed

lemma send_register_spec:
  assumes "send_register reqs c = (Inr ids, d)"
  shows "unat (lx_next_id c) + length reqs < 2 ^ 64 \<and> \<not> lx_desynced c \<and> lx_fatal c = None \<and>
     ids = map (\<lambda>k. lx_next_id c + of_nat k) [0..<length reqs] \<and>
     d = c\<lparr>lx_next_id := lx_next_id c + of_nat (length reqs),
           lx_pending := lx_pending c @
             map (\<lambda>k. \<lparr> pe_id = lx_next_id c + of_nat k, pe_request = reqs ! k \<rparr>) [0..<length reqs]\<rparr>"
  using assms
  by (auto simp: send_register_def push_pending_spec split: if_splits option.splits)

lemma next_ids:
  assumes "unat (n :: u64) + m < 2 ^ 64"
  shows "distinct (map (\<lambda>k. n + of_nat k) [0..<m])"
    and "i \<in> set (map (\<lambda>k. n + of_nat k) [0..<m]) \<Longrightarrow> unat n \<le> unat i \<and> unat i < unat n + m"
proof -
  have u: "unat (n + of_nat k) = unat n + k" if "k < m" for k
    using that assms by (intro unat_plus_nat) simp
  have "inj_on (\<lambda>k. n + of_nat k) {0..<m}"
    using u by (intro inj_onI) (metis add_left_cancel atLeastLessThan_iff)
  then show "distinct (map (\<lambda>k. n + of_nat k) [0..<m])" by (simp add: distinct_map)
  show "i \<in> set (map (\<lambda>k. n + of_nat k) [0..<m]) \<Longrightarrow> unat n \<le> unat i \<and> unat i < unat n + m"
    using u by auto
qed

lemma queue_inv_send:
  assumes "queue_inv reqs c" and "send_register new c = (Inr ids, d)" and "\<forall>r \<in> set new. within_caps r"
  shows "queue_inv (reqs @ new) d"
proof -
  note reg = send_register_spec [OF assms(2)]
  let ?n = "lx_next_id c"
  have n: "unat ?n = length reqs" using assms(1) by (simp add: queue_inv_def)
  have bound: "unat ?n + length new < 2 ^ 64" using reg by blast
  have u: "unat (?n + of_nat k) = length reqs + k" if "k \<le> length new" for k
    using that bound unat_plus_nat [of ?n k] n by simp
  have old: "unat i < length reqs" if "i \<in> set (map pe_id (lx_pending c) @ map fst (lx_replies c))" for i
    using assms(1) that unfolding queue_inv_def by auto
  have fresh: "length reqs \<le> unat i" if "i \<in> set ids" for i
    using next_ids(2) [OF bound, of i] that reg n by simp
  have ids: "map pe_id (lx_pending d) = map pe_id (lx_pending c) @ ids" using reg by (simp add: o_def)
  have dist: "distinct (map pe_id (lx_pending d) @ map fst (lx_replies d))"
  proof -
    have "distinct ids" using next_ids(1) [OF bound] reg by simp
    moreover have "set ids \<inter> set (map pe_id (lx_pending c) @ map fst (lx_replies c)) = {}"
      using old fresh by (meson disjoint_iff not_le)
    moreover have "lx_replies d = lx_replies c" using reg by simp
    ultimately show ?thesis using assms(1) ids unfolding queue_inv_def by auto
  qed
  have ps: "unat (pe_id p) < length (reqs @ new) \<and> within_caps (pe_request p) \<and>
      answers (pe_request p) = answers ((reqs @ new) ! unat (pe_id p))" if p: "p \<in> set (lx_pending d)" for p
  proof (cases "p \<in> set (lx_pending c)")
    case True
    then show ?thesis using assms(1) unfolding queue_inv_def by (auto simp: nth_append)
  next
    case False
    then obtain k where "k < length new" and "p = \<lparr> pe_id = ?n + of_nat k, pe_request = new ! k \<rparr>"
      using p reg by auto
    then show ?thesis using u [of k] assms(3) by (simp add: nth_append)
  qed
  have rs: "unat i < length (reqs @ new) \<and> answers ((reqs @ new) ! unat i) a" if "(i, a) \<in> set (lx_replies d)" for i a
  proof -
    have "(i, a) \<in> set (lx_replies c)" using that reg by simp
    then show ?thesis using assms(1) unfolding queue_inv_def by (auto simp: nth_append)
  qed
  have "unat (lx_next_id d) = length (reqs @ new)" using u [of "length new"] reg by simp
  with dist ps rs show ?thesis unfolding queue_inv_def by auto
qed

text \<open>Collecting either changes nothing or takes the replies of the batch out.\<close>

lemma gather_round_spec:
  assumes "gather_round n ids c = Some (res, d)" and "distinct (map fst (lx_replies c))" and "distinct ids"
  shows "(\<exists>e. res = Inl e) \<and> d = c \<or>
     res = Inr (map (\<lambda>i. the (map_of (lx_replies c) i)) ids) \<and> set ids \<subseteq> fst ` set (lx_replies c) \<and>
     d = c\<lparr>lx_replies := filter (\<lambda>(i, a). i \<notin> set ids) (lx_replies c)\<rparr>"
proof (cases "lx_fatal c")
  case None
  show ?thesis
  proof (cases "set ids \<subseteq> fst ` set (lx_replies c)")
    case True
    then show ?thesis
      using assms(1) None take_replies_spec [OF assms(2,3) True]
      by (auto simp: gather_round_def split: if_splits)
  next
    case False
    then show ?thesis using assms(1) None by (auto simp: gather_round_def split: if_splits)
  qed
qed (use assms(1) in \<open>auto simp: gather_round_def\<close>)

lemma queue_inv_collect:
  assumes "queue_inv reqs c"
  shows "queue_inv reqs (c\<lparr>lx_replies := filter P (lx_replies c)\<rparr>)"
  using assms by (auto simp: queue_inv_def distinct_map_filter)

lemma concat_remove1:
  assumes "x \<in> set xs" and "distinct (concat xs @ ys)"
  shows "set (concat (remove1 x xs) @ ys) = set (concat xs @ ys) - set x \<and> distinct (concat (remove1 x xs) @ ys)"
proof -
  obtain as bs where "xs = as @ x # bs" and "x \<notin> set as" using assms(1) by (meson split_list_first)
  then show ?thesis using assms(2) by (auto simp: remove1_append)
qed

definition queue_ids :: "ltx_conn \<Rightarrow> u64 set" where
  "queue_ids c = set (map pe_id (lx_pending c) @ map fst (lx_replies c))"

lemma moved_queue_ids:
  "moved (lx_pending c) (lx_replies c) (lx_pending d) (lx_replies d) \<Longrightarrow> queue_ids d = queue_ids c"
  unfolding moved_def queue_ids_def by (clarsimp simp del: set_map) blast

lemma same_queue_ids: "same_queue c d \<Longrightarrow> queue_ids d = queue_ids c"
  by (simp add: same_queue_def queue_ids_def)

lemma ticket_inv_alt: "ticket_inv w \<longleftrightarrow> distinct (tickets w) \<and> set (tickets w) \<subseteq> queue_ids (lw_conn w)"
  by (simp add: ticket_inv_def queue_ids_def)

lemma queue_inv_dispatch: "queue_inv reqs c \<Longrightarrow> queue_inv reqs (dispatch msg c)"
  using queue_inv_moved [of reqs c "dispatch msg c"] dispatch_cases [of c msg] by (simp add: queue_inv_def)

lemma queue_ids_dispatch: "queue_inv reqs c \<Longrightarrow> queue_ids (dispatch msg c) = queue_ids c"
  using moved_queue_ids [of c "dispatch msg c"] dispatch_cases [of c msg] by (simp add: queue_inv_def)

definition world_inv :: "packer \<Rightarrow> ltx_world \<Rightarrow> bool" where
  "world_inv pk w \<longleftrightarrow> queue_inv (lw_log w) (lw_conn w) \<and> ticket_inv w \<and> wire_inv pk w"

lemma write_all_prefix:
  "write_all_fifo evs bytes = (res, out) \<Longrightarrow> prefix out bytes \<and> (res = Some (Inr ()) \<longrightarrow> out = bytes)"
proof (induction evs bytes arbitrary: res out rule: write_all_fifo.induct)
  case (3 n evs b bs)
  show ?case
  proof (cases "n = 0 \<or> length (b # bs) < n")
    case True
    then show ?thesis using "3.prems" by (auto split: if_splits)
  next
    case False
    then have n: "n \<noteq> 0" "\<not> length (b # bs) < n" by auto
    obtain res1 out1 where w: "write_all_fifo evs (drop n (b # bs)) = (res1, out1)" by fastforce
    from "3.IH" [OF n w] have "prefix out1 (drop n (b # bs)) \<and> (res1 = Some (Inr ()) \<longrightarrow> out1 = drop n (b # bs))" .
    moreover have "res = res1" "out = take n (b # bs) @ out1" using "3.prems" w n by auto
    ultimately show ?thesis by (metis append_take_drop_id same_prefix_prefix)
  qed
qed auto

lemma pack_all_append:
  "pack_all pk rs = Inr xs \<Longrightarrow> pack_all pk ss = Inr ys \<Longrightarrow> pack_all pk (rs @ ss) = Inr (xs @ ys)"
  by (induction rs arbitrary: xs) (auto simp: and_then_Ok)

lemma queue_inv_step:
  assumes "ltx_step pk w w'" and "world_inv pk w"
  shows "queue_inv (lw_log w') (lw_conn w')"
  using assms
proof (cases rule: ltx_step.cases)
  case (send reqs bytes ids c)
  then show ?thesis
    using assms(2) queue_inv_send [of "lw_log w" "lw_conn w" reqs ids c]
    by (simp add: world_inv_def fresh_request_def)
next
  case (collect ids res c)
  have d: "distinct (map fst (lx_replies (lw_conn w)))" "distinct ids"
    using assms(2) collect by (auto simp: world_inv_def queue_inv_def ticket_inv_def tickets_def distinct_concat_iff)
  have q: "queue_inv (lw_log w) (lw_conn w)" using assms(2) by (simp add: world_inv_def)
  show ?thesis
    using gather_round_spec [OF collect(3) d] queue_inv_collect [OF q] q collect(1) by auto
qed (use assms(2) in \<open>auto simp: world_inv_def queue_inv_same [OF put_wire_same]
      queue_inv_same [OF guard_same] queue_inv_same [OF guard_wire_same] queue_inv_same [OF fatal_same]
      queue_inv_same [OF running_same] queue_inv_same [OF disconnect_same] queue_inv_dispatch\<close>)

lemma ticket_inv_same:
  assumes "ticket_inv w" and "queue_ids c = queue_ids (lw_conn w)"
    and "lw_conn w' = c" and "distinct (tickets w')" and "set (tickets w') \<subseteq> set (tickets w)"
  shows "ticket_inv w'"
  using assms by (auto simp: ticket_inv_alt)

lemma ticket_inv_step:
  assumes "ltx_step pk w w'" and "world_inv pk w"
  shows "ticket_inv w'"
proof -
  have q: "queue_inv (lw_log w) (lw_conn w)" and t: "ticket_inv w" using assms(2) by (simp_all add: world_inv_def)
  have td: "distinct (tickets w)" and ts: "set (tickets w) \<subseteq> queue_ids (lw_conn w)"
    using t by (simp_all add: ticket_inv_alt)
  from assms(1) show ?thesis
  proof (cases rule: ltx_step.cases)
    case (send reqs bytes ids c)
    note reg = send_register_spec [OF send(6)]
    have bound: "unat (lx_next_id (lw_conn w)) + length reqs < 2 ^ 64" using reg by blast
    have fresh: "length (lw_log w) \<le> unat i" if "i \<in> set ids" for i
      using next_ids(2) [OF bound, of i] that reg q by (simp add: queue_inv_def)
    have old: "unat i < length (lw_log w)" if "i \<in> queue_ids (lw_conn w)" for i
      using q that by (auto simp: queue_inv_def queue_ids_def)
    have disj: "set ids \<inter> set (tickets w) = {}" using fresh old ts by (meson disjoint_iff not_le subsetD)
    have "distinct ids" using next_ids(1) [OF bound] reg by simp
    moreover have "tickets w' = tickets w @ ids" using send by (simp add: tickets_def)
    moreover have "queue_ids (lw_conn w') = queue_ids (lw_conn w) \<union> set ids"
      using send reg by (auto simp: queue_ids_def o_def)
    ultimately show ?thesis using td ts disj by (auto simp: ticket_inv_alt)
  next
    case (write_some ids bytes evs out)
    then show ?thesis using t same_queue_ids [OF put_wire_same]
      by (simp add: ticket_inv_alt tickets_def)
  next
    case (write_rest ids bytes evs out)
    then show ?thesis using t same_queue_ids [OF guard_wire_same] by (simp add: ticket_inv_alt tickets_def)
  next
    case (write_error ids bytes path opens evs e out)
    then show ?thesis using t same_queue_ids [OF guard_wire_same] by (simp add: ticket_inv_alt tickets_def)
  next
    case (send_dropped ids bytes)
    then show ?thesis using t same_queue_ids [OF guard_same] by (simp add: ticket_inv_alt tickets_def)
  next
    case (receive msg)
    then show ?thesis using t queue_ids_dispatch [OF q] by (simp add: ticket_inv_alt tickets_def)
  next
    case (poll_error m)
    then show ?thesis using t same_queue_ids [OF fatal_same] by (simp add: ticket_inv_alt tickets_def)
  next
    case poll_ends
    then show ?thesis using t same_queue_ids [OF running_same] by (simp add: ticket_inv_alt tickets_def)
  next
    case (collect ids res c)
    let ?held = "case lw_writing w of Some (ids, _) \<Rightarrow> ids | None \<Rightarrow> []"
    have rest: "set (tickets w') = set (tickets w) - set ids \<and> distinct (tickets w')"
      using concat_remove1 [OF collect(2), of ?held] td collect(1) by (simp add: tickets_def)
    have d: "distinct (map fst (lx_replies (lw_conn w)))" "distinct ids"
      using q td collect(2) by (auto simp: queue_inv_def tickets_def distinct_concat_iff)
    have "queue_ids (lw_conn w) - set ids \<subseteq> queue_ids c"
      using gather_round_spec [OF collect(3) d] by (auto simp: queue_ids_def)
    then show ?thesis using rest ts collect(1) by (auto simp: ticket_inv_alt)
  next
    case (gather_dropped ids)
    let ?held = "case lw_writing w of Some (ids, _) \<Rightarrow> ids | None \<Rightarrow> []"
    show ?thesis
    proof (cases "ids \<in> set (lw_waiting w)")
      case True
      have "set (tickets w') = set (tickets w) - set ids \<and> distinct (tickets w')"
        using concat_remove1 [OF True, of ?held] td gather_dropped by (simp add: tickets_def)
      then show ?thesis using ts gather_dropped by (auto simp: ticket_inv_alt)
    next
      case False
      then have "w' = w" using gather_dropped by (simp add: remove1_idem)
      then show ?thesis using t by simp
    qed
  next
    case disconnect
    then show ?thesis using t same_queue_ids [OF disconnect_same] by (simp add: ticket_inv_alt tickets_def)
  qed
qed

lemma wire_inv_step:
  assumes "ltx_step pk w w'" and "world_inv pk w"
  shows "wire_inv pk w'"
proof -
  have q: "queue_inv (lw_log w) (lw_conn w)" and i: "wire_inv pk w" using assms(2) by (simp_all add: world_inv_def)
  note dispatched = dispatch_cases(3,4) [of "lw_conn w"]
  from assms(1) show ?thesis
  proof (cases rule: ltx_step.cases)
    case (send reqs bytes ids c)
    note reg = send_register_spec [OF send(6)]
    obtain before where b: "pack_all pk (lw_log w) = Inr before" "lx_wire (lw_conn w) = before"
      using i send(2) reg by (auto simp: wire_inv_def)
    show ?thesis using send reg b pack_all_append [OF b(1) send(5)] by (simp add: wire_inv_def)
  next
    case (write_some ids bytes evs out)
    have "prefix out bytes" using write_all_prefix [OF write_some(3)] by simp
    then have "out @ drop (length out) bytes = bytes" by (auto simp: prefix_def)
    then show ?thesis using i write_some by (auto simp: wire_inv_def)
  next
    case (write_rest ids bytes evs out)
    have "out = bytes" using write_all_prefix [OF write_rest(3)] by simp
    then show ?thesis using i write_rest by (auto simp: wire_inv_def)
  next
    case (write_error ids bytes path opens evs e out)
    have "prefix out bytes"
      using write_error(3) write_all_prefix [of evs bytes]
      by (auto simp: write_infile_def split: option.splits sum.splits)
    then show ?thesis using i write_error by (auto simp: wire_inv_def)
  next
    case (receive msg)
    have "lx_wire (dispatch msg (lw_conn w)) = lx_wire (lw_conn w)"
      and "lx_desynced (dispatch msg (lw_conn w)) = lx_desynced (lw_conn w)"
      using dispatched [of msg] q by (auto simp: queue_inv_def)
    then show ?thesis using i receive by (auto simp: wire_inv_def split: option.splits if_splits)
  next
    case (collect ids res c)
    have d: "distinct (map fst (lx_replies (lw_conn w)))" "distinct ids"
      using q assms(2) collect(2)
      by (auto simp: queue_inv_def world_inv_def ticket_inv_def tickets_def distinct_concat_iff)
    have "lx_wire c = lx_wire (lw_conn w)" "lx_desynced c = lx_desynced (lw_conn w)"
      using gather_round_spec [OF collect(3) d] by auto
    then show ?thesis using i collect by (auto simp: wire_inv_def split: option.splits if_splits)
  qed (use i in \<open>auto simp: wire_inv_def split: option.splits if_splits\<close>)
qed

lemma world_inv_init: "world_inv pk (world_init locks)"
  by (simp add: world_inv_def world_init_def ltx_connect_def ltx_new_def queue_inv_def
      ticket_inv_def tickets_def wire_inv_def)

lemma world_inv_reachable: "ltx_reachable pk w \<Longrightarrow> world_inv pk w"
proof (induction rule: ltx_reachable.induct)
  case (init locks)
  show ?case by (rule world_inv_init)
next
  case (step w w')
  then show ?case using queue_inv_step ticket_inv_step wire_inv_step by (simp add: world_inv_def)
qed

section \<open>What callers get\<close>

text \<open>
  Claim C8: in every interleaving, the replies a caller collects are typed by its requests: one for
  each, in their order, of the request's kind and carrying its slot, key and path, with the output
  of a command within its cap. A caller that keeps waiting waits for a request that is still
  pending: no reply is lost and none is given to two callers.
\<close>

theorem gather_returns_the_replies:
  assumes "ltx_reachable pk w" and "ids \<in> set (lw_waiting w)"
  shows "case gather_round (length ids) ids (lw_conn w) of
       Some (Inr replies, c) \<Rightarrow>
         list_all2 (\<lambda>i a. answers (lw_log w ! unat i) a) ids replies \<and>
         (\<forall>other \<in> set (remove1 ids (lw_waiting w)). set other \<inter> set ids = {})
     | Some (Inl e, c) \<Rightarrow>
         c = lw_conn w \<and> (lx_fatal c \<noteq> None \<or> lx_desynced c \<or> \<not> lx_running c)
     | None \<Rightarrow> \<exists>i \<in> set ids. i \<in> pe_id ` set (lx_pending (lw_conn w))"
proof -
  let ?c = "lw_conn w"
  have inv: "queue_inv (lw_log w) ?c" "ticket_inv w"
    using world_inv_reachable [OF assms(1)] by (simp_all add: world_inv_def)
  have td: "distinct (tickets w)" and ts: "set (tickets w) \<subseteq> queue_ids ?c"
    using inv(2) by (simp_all add: ticket_inv_alt)
  have d: "distinct (map fst (lx_replies ?c))" "distinct ids"
    using inv(1) td assms(2) by (auto simp: queue_inv_def tickets_def distinct_concat_iff)
  have ids: "set ids \<subseteq> queue_ids ?c" using ts assms(2) by (auto simp: tickets_def)
  have disj: "\<forall>other \<in> set (remove1 ids (lw_waiting w)). set other \<inter> set ids = {}"
  proof -
    have "distinct (concat (lw_waiting w) @ [])" using td by (simp add: tickets_def)
    from concat_remove1 [OF assms(2) this] show ?thesis by auto
  qed
  show ?thesis
  proof (cases "gather_round (length ids) ids ?c")
    case None
    have "\<not> (length ids \<le> length (lx_replies ?c) \<and> set ids \<subseteq> fst ` set (lx_replies ?c))"
      using None by (auto simp: gather_round_def split: option.splits if_splits prod.splits)
    moreover have "length ids \<le> length (lx_replies ?c)" if "set ids \<subseteq> fst ` set (lx_replies ?c)"
    proof -
      have "length ids = card (set ids)" using d(2) by (simp add: distinct_card)
      also have "\<dots> \<le> card (fst ` set (lx_replies ?c))" using that by (simp add: card_mono)
      also have "\<dots> \<le> length (lx_replies ?c)" by (metis card_length length_map set_map)
      finally show ?thesis .
    qed
    ultimately obtain i where i: "i \<in> set ids" "i \<notin> fst ` set (lx_replies ?c)" by blast
    then have "i \<in> pe_id ` set (lx_pending ?c)" using ids by (auto simp: queue_ids_def)
    then show ?thesis using None i(1) by auto
  next
    case (Some p)
    obtain res c where p: "p = (res, c)" by fastforce
    note spec = gather_round_spec [OF Some [unfolded p] d]
    show ?thesis
    proof (cases res)
      case (Inl e)
      then show ?thesis
        using Some p spec by (auto simp: gather_round_def split: option.splits if_splits prod.splits)
    next
      case (Inr replies)
      then have r: "replies = map (\<lambda>i. the (map_of (lx_replies ?c) i)) ids"
        and sub: "set ids \<subseteq> fst ` set (lx_replies ?c)" using spec by auto
      have "answers (lw_log w ! unat i) (the (map_of (lx_replies ?c) i))" if "i \<in> set ids" for i
      proof -
        have "i \<in> fst ` set (lx_replies ?c)" using sub that by blast
        then obtain a where "(i, a) \<in> set (lx_replies ?c)" by force
        then show ?thesis using d(1) inv(1) by (auto simp: queue_inv_def)
      qed
      then show ?thesis using Some p Inr r disj by (simp add: list_all2_conv_all_nth)
    qed
  qed
qed

text \<open>
  Batches never interleave on the wire. In every interleaving of senders, what was written
  to the input FIFO is a prefix of the packed requests in the order of their ids, and unless the
  connection is marked desynchronized or a batch is being written it is all of them.
\<close>

theorem wire_carries_whole_requests:
  assumes "ltx_reachable pk w"
  shows "\<exists>bytes. pack_all pk (lw_log w) = Inr bytes \<and> prefix (lx_wire (lw_conn w)) bytes \<and>
     (lw_writing w = None \<longrightarrow> \<not> lx_desynced (lw_conn w) \<longrightarrow> lx_wire (lw_conn w) = bytes)"
  using world_inv_reachable [OF assms]
  by (auto simp: world_inv_def wire_inv_def split: option.splits if_splits)

section \<open>Refinement\<close>

text \<open>
  The abstract specification: a list of calls. A call waits, is answered by a reply that fits its
  request, and is collected, once.
\<close>

datatype call_state = Call_Waiting | Call_Answered reply | Call_Done

inductive call_step :: "(request \<times> call_state) list \<Rightarrow> (request \<times> call_state) list \<Rightarrow> bool" where
  issue: "call_step calls (calls @ map (\<lambda>r. (r, Call_Waiting)) reqs)"
| answer: "i < length calls \<Longrightarrow> calls ! i = (r, Call_Waiting) \<Longrightarrow> answers r a \<Longrightarrow>
    call_step calls (calls[i := (r, Call_Answered a)])"
| collected: "i < length calls \<Longrightarrow> calls ! i = (r, Call_Answered a) \<Longrightarrow>
    call_step calls (calls[i := (r, Call_Done)])"

text \<open>The calls a state of the transport stands for.\<close>

definition call_status :: "ltx_conn \<Rightarrow> u64 \<Rightarrow> call_state" where
  "call_status c i =
     (if i \<in> set (map pe_id (lx_pending c)) then Call_Waiting
      else (case map_of (lx_replies c) i of Some a \<Rightarrow> Call_Answered a | None \<Rightarrow> Call_Done))"

definition calls_of :: "ltx_world \<Rightarrow> (request \<times> call_state) list" where
  "calls_of w = map (\<lambda>i. (lw_log w ! i, call_status (lw_conn w) (of_nat i))) [0..<length (lw_log w)]"

definition call_moves :: "request \<times> call_state \<Rightarrow> request \<times> call_state \<Rightarrow> bool" where
  "call_moves x y \<longleftrightarrow> x = y \<or>
     fst x = fst y \<and> (\<exists>a. snd x = Call_Waiting \<and> snd y = Call_Answered a \<and> answers (fst x) a) \<or>
     fst x = fst y \<and> (\<exists>a. snd x = Call_Answered a \<and> snd y = Call_Done)"

lemma calls_move_one_by_one:
  "list_all2 call_moves xs ys \<Longrightarrow> call_step\<^sup>*\<^sup>* (done @ xs) (done @ ys)"
proof (induction xs ys arbitrary: "done" rule: list_all2_induct)
  case (Cons x xs y ys)
  have "call_step\<^sup>*\<^sup>* (done @ x # xs) (done @ y # xs)"
  proof -
    have "x = y \<or> call_step (done @ x # xs) ((done @ x # xs)[length done := y])"
      using Cons.hyps(1) call_step.answer [of "length done" "done @ x # xs" "fst x"]
        call_step.collected [of "length done" "done @ x # xs" "fst x"]
      by (cases x; cases y) (auto simp: call_moves_def)
    then show ?thesis by auto
  qed
  also have "call_step\<^sup>*\<^sup>* (done @ y # xs) (done @ y # ys)" using Cons.IH [of "done @ [y]"] by simp
  finally show ?case .
qed simp

lemma call_status_same: "same_queue c d \<Longrightarrow> call_status d = call_status c"
  by (simp add: same_queue_def call_status_def fun_eq_iff)

lemma calls_of_same:
  "lw_log w' = lw_log w \<Longrightarrow> call_status (lw_conn w') = call_status (lw_conn w) \<Longrightarrow> calls_of w' = calls_of w"
  by (simp add: calls_of_def)

lemma calls_of_pointwise:
  assumes "lw_log w' = lw_log w"
    and "\<And>i. i < length (lw_log w) \<Longrightarrow>
      call_moves (lw_log w ! i, call_status (lw_conn w) (of_nat i)) (lw_log w ! i, call_status (lw_conn w') (of_nat i))"
  shows "call_step\<^sup>*\<^sup>* (calls_of w) (calls_of w')"
  using calls_move_one_by_one [of "calls_of w" "calls_of w'" "[]"] assms
  by (simp add: calls_of_def list_all2_conv_all_nth)

lemma receive_moves:
  assumes "queue_inv reqs c" and "i < length reqs"
  shows "call_moves (reqs ! i, call_status c (of_nat i)) (reqs ! i, call_status (dispatch msg c) (of_nat i))"
proof -
  let ?d = "dispatch msg c" and ?i = "of_nat i :: u64"
  have "unat (lx_next_id c) = length reqs" using assms(1) by (simp add: queue_inv_def)
  then have "i < 2 ^ LENGTH(64)" using assms(2) unsigned_less [of "lx_next_id c"] by (metis less_trans)
  then have ui: "unat ?i = i" by (simp add: unat_of_nat take_bit_nat_eq_self)
  have "moved (lx_pending c) (lx_replies c) (lx_pending ?d) (lx_replies ?d)"
    using dispatch_cases(1) [of c msg] assms(1) by (simp add: queue_inv_def)
  then obtain new where new: "lx_replies ?d = lx_replies c @ new"
    "distinct (map pe_id (lx_pending ?d) @ map fst new)"
    "set (map pe_id (lx_pending ?d) @ map fst new) = set (map pe_id (lx_pending c))"
    "\<forall>(i, a) \<in> set new. \<exists>p \<in> set (lx_pending c). pe_id p = i \<and> answers (pe_request p) a"
    unfolding moved_def by blast
  show ?thesis
  proof (cases "?i \<in> set (map pe_id (lx_pending c))")
    case False
    then have "?i \<notin> set (map pe_id (lx_pending ?d))" "?i \<notin> set (map fst new)" using new(3) by auto
    then have "map_of new ?i = None" by (simp add: map_of_eq_None_iff)
    then have "map_of (lx_replies ?d) ?i = map_of (lx_replies c) ?i"
      using new(1) by (simp add: map_add_def split: option.splits)
    then show ?thesis
      using False \<open>?i \<notin> set (map pe_id (lx_pending ?d))\<close> by (simp add: call_moves_def call_status_def)
  next
    case True
    show ?thesis
    proof (cases "?i \<in> set (map pe_id (lx_pending ?d))")
      case False
      then obtain a where a: "(?i, a) \<in> set new" using True new(3) by auto
      then obtain p where p: "p \<in> set (lx_pending c)" "pe_id p = ?i" "answers (pe_request p) a"
        using new(4) by blast
      then have ans: "answers (reqs ! i) a" using assms(1) ui unfolding queue_inv_def by metis
      have "?i \<notin> set (map fst (lx_replies c))"
        using True assms(1) unfolding queue_inv_def by auto
      then have "map_of (lx_replies c) ?i = None" by (simp add: map_of_eq_None_iff)
      moreover have "map_of new ?i = Some a" using a new(2) by simp
      ultimately have "map_of (lx_replies ?d) ?i = Some a" using new(1) by (simp add: map_add_def)
      then show ?thesis using True False ans by (simp add: call_moves_def call_status_def)
    qed (use True in \<open>simp add: call_moves_def call_status_def\<close>)
  qed
qed

lemma collect_moves:
  assumes "d = c\<lparr>lx_replies := filter (\<lambda>(i, a). i \<notin> A) (lx_replies c)\<rparr>"
  shows "call_moves (r, call_status c i) (r, call_status d i)"
proof -
  have "map_of (filter (\<lambda>(i, a). i \<notin> A) rs) i = (if i \<in> A then None else map_of rs i)" for rs :: "(u64 \<times> reply) list"
    by (induction rs) auto
  then show ?thesis by (auto simp: call_moves_def call_status_def assms split: option.splits)
qed

lemma send_issues:
  assumes "queue_inv reqs c" and "send_register new c = (Inr ids, d)" and "i < length (reqs @ new)"
  shows "call_status d (of_nat i) = (if i < length reqs then call_status c (of_nat i) else Call_Waiting)"
proof -
  note reg = send_register_spec [OF assms(2)]
  let ?n = "lx_next_id c"
  have n: "unat ?n = length reqs" using assms(1) by (simp add: queue_inv_def)
  have bound: "unat ?n + length new < 2 ^ 64" using reg by blast
  have ui: "unat (of_nat i :: u64) = i" using assms(3) n bound by (simp add: unat_of_nat take_bit_nat_eq_self)
  have ids: "set (map pe_id (lx_pending d)) = set (map pe_id (lx_pending c)) \<union> set ids"
    and rs: "lx_replies d = lx_replies c" using reg by (auto simp: o_def)
  show ?thesis
  proof (cases "i < length reqs")
    case True
    then have "of_nat i \<notin> set ids" using next_ids(2) [OF bound, of "of_nat i"] reg n ui by auto
    then show ?thesis using True ids rs by (simp add: call_status_def)
  next
    case False
    then have "of_nat i = ?n + of_nat (i - length reqs)"
      using n by (metis le_add_diff_inverse not_less of_nat_add of_nat_unat ucast_id)
    then have "of_nat i \<in> (\<lambda>k. ?n + of_nat k) ` {0..<length new}"
      by (rule image_eqI) (use False assms(3) in simp)
    then have "of_nat i \<in> set ids" using reg by simp
    then show ?thesis using False ids by (simp add: call_status_def)
  qed
qed

text \<open>
  Claim C7: the transport implements the list of calls. Every step of every task, from every state
  the connection can reach, is a sequence of steps of the specification on the calls the state
  stands for: requests are appended as waiting calls, a call is answered only while it waits and
  only by a reply that fits its request, and what was collected or answered never changes back.
\<close>

theorem transport_refines_calls:
  assumes "ltx_reachable pk w" and "ltx_step pk w w'"
  shows "call_step\<^sup>*\<^sup>* (calls_of w) (calls_of w')"
proof -
  have inv: "world_inv pk w" by (rule world_inv_reachable [OF assms(1)])
  then have q: "queue_inv (lw_log w) (lw_conn w)" by (simp add: world_inv_def)
  from assms(2) show ?thesis
  proof (cases rule: ltx_step.cases)
    case (send reqs bytes ids c)
    have "calls_of w' = calls_of w @ map (\<lambda>r. (r, Call_Waiting)) reqs"
      using send_issues [OF q send(6)] send(1)
      by (intro nth_equalityI) (auto simp: calls_of_def nth_append)
    then show ?thesis using call_step.issue by auto
  next
    case (receive msg)
    show ?thesis by (rule calls_of_pointwise) (use receive receive_moves [OF q] in auto)
  next
    case (collect ids res c)
    have d: "distinct (map fst (lx_replies (lw_conn w)))" "distinct ids"
      using q inv collect(2)
      by (auto simp: queue_inv_def world_inv_def ticket_inv_def tickets_def distinct_concat_iff)
    show ?thesis
    proof (rule calls_of_pointwise)
      show "lw_log w' = lw_log w" using collect by simp
      show "call_moves (lw_log w ! i, call_status (lw_conn w) (of_nat i))
          (lw_log w ! i, call_status (lw_conn w') (of_nat i))" for i
        using gather_round_spec [OF collect(3) d] collect(1) collect_moves [where c = "lw_conn w" and d = c]
        by (auto simp: call_moves_def)
    qed
  qed (auto simp: calls_of_def call_status_same [OF put_wire_same] call_status_same [OF guard_same]
      call_status_same [OF guard_wire_same] call_status_same [OF fatal_same]
      call_status_same [OF running_same] call_status_same [OF disconnect_same])
qed

section \<open>A run\<close>

text \<open>The version handshake: one request, written in one piece and answered.\<close>

definition small_packer :: packer where
  "small_packer fs = (case fs of [F_U64 n] \<Rightarrow> Inr [CHR 0x91, char_of (unat n)] | _ \<Rightarrow> Inl ''too large'')"

definition handshake :: "pending list \<Rightarrow> (u64 \<times> reply) list \<Rightarrow> string \<Rightarrow> (u64 list \<times> string) option \<Rightarrow> u64 list list \<Rightarrow> ltx_world" where
  "handshake ps rs wire writing waiting =
     \<lparr> lw_conn = ltx_new\<lparr>lx_running := True, lx_next_id := 1, lx_pending := ps, lx_replies := rs, lx_wire := wire\<rparr>,
       lw_log = [req_version], lw_writing = writing, lw_waiting = waiting \<rparr>"

abbreviation version_pending :: "pending list" where
  "version_pending \<equiv> [\<lparr> pe_id = 0, pe_request = req_version \<rparr>]"

lemma handshake_sent:
  "ltx_reachable small_packer (handshake version_pending [] [] (Some ([0], [CHR 0x91, CHR 0x00])) [])"
proof -
  have "ltx_step small_packer (world_init []) (handshake version_pending [] [] (Some ([0], [CHR 0x91, CHR 0x00])) [])"
    using ltx_step.send [of "world_init []" "[req_version]" small_packer "[CHR 0x91, CHR 0x00]" "[0]"
        "ltx_new\<lparr>lx_running := True, lx_next_id := 1, lx_pending := version_pending\<rparr>"]
    by (simp add: world_init_def ltx_connect_def ltx_new_def handshake_def send_register_def
        fresh_request_def pack_defs small_packer_def req_version_def opcodes char_of_def)
  with ltx_reachable.init show ?thesis by (rule ltx_reachable.step)
qed

lemma handshake_written:
  "ltx_reachable small_packer (handshake version_pending [] [CHR 0x91, CHR 0x00] None [[0]])"
proof -
  have "ltx_step small_packer (handshake version_pending [] [] (Some ([0], [CHR 0x91, CHR 0x00])) [])
      (handshake version_pending [] [CHR 0x91, CHR 0x00] None [[0]])"
    using ltx_step.write_rest [of "handshake version_pending [] [] (Some ([0], [CHR 0x91, CHR 0x00])) []"
        "[0]" "[CHR 0x91, CHR 0x00]" "[Wrote 2]" "[CHR 0x91, CHR 0x00]" small_packer]
    by (simp add: handshake_def send_guard_drop_def put_wire_def ltx_new_def)
  with handshake_sent show ?thesis by (rule ltx_reachable.step)
qed

definition version_frame :: frame where
  "version_frame = [op OP_VERSION, F_Str ''1.2'']"

lemma version_step:
  "dispatch version_frame (lw_conn (handshake version_pending [] [CHR 0x91, CHR 0x00] None [[0]])) =
   lw_conn (handshake [] [(0, Reply_Version ''1.2'')] [CHR 0x91, CHR 0x00] None [[0]])"
  by (simp add: handshake_def ltx_new_def version_frame_def dispatch_def dispatch_feed_def
      req_version_def version_feed_def field_at_def get_field_def opcodes frame_opcode_def)

lemma handshake_answered:
  "ltx_reachable small_packer (handshake [] [(0, Reply_Version ''1.2'')] [CHR 0x91, CHR 0x00] None [[0]])"
proof -
  have "ltx_step small_packer (handshake version_pending [] [CHR 0x91, CHR 0x00] None [[0]])
      (handshake [] [(0, Reply_Version ''1.2'')] [CHR 0x91, CHR 0x00] None [[0]])"
    using ltx_step.receive [of small_packer "handshake version_pending [] [CHR 0x91, CHR 0x00] None [[0]]" version_frame]
    unfolding version_step by (simp add: handshake_def)
  with handshake_written show ?thesis by (rule ltx_reachable.step)
qed

lemma gather_returns_the_replies_witness:
  "list_all2 (\<lambda>i a. answers ([req_version] ! unat i) a) [0 :: u64] [Reply_Version ''1.2'']"
  using gather_returns_the_replies [OF handshake_answered, of "[0]"]
  by (simp add: handshake_def gather_round_def ltx_new_def)

lemma wire_carries_whole_requests_witness:
  "pack_all small_packer [req_version] = Inr [CHR 0x91, CHR 0x00]"
  using wire_carries_whole_requests [OF handshake_answered]
  by (auto simp: handshake_def ltx_new_def)

lemma transport_refines_calls_witness:
  "call_step\<^sup>*\<^sup>* [(req_version, Call_Waiting)] [(req_version, Call_Answered (Reply_Version ''1.2''))]"
proof -
  let ?w = "handshake version_pending [] [CHR 0x91, CHR 0x00] None [[0]]"
  let ?w' = "?w\<lparr>lw_conn := dispatch version_frame (lw_conn ?w)\<rparr>"
  have w: "calls_of ?w = [(req_version, Call_Waiting)]"
    by (simp add: calls_of_def handshake_def call_status_def ltx_new_def)
  have w': "calls_of ?w' = [(req_version, Call_Answered (Reply_Version ''1.2''))]"
    unfolding version_step by (simp add: calls_of_def handshake_def call_status_def ltx_new_def)
  show ?thesis
    using transport_refines_calls [OF handshake_written ltx_step.receive [of _ _ version_frame]] w w' by simp
qed

end
