(* ===== verification/Ltx_Channel.thy ===== *)
theory Ltx_Channel
  imports Ltx_World Plugin
begin

text \<open>
  Crate \<open>kirk-com-ltx\<close>, \<open>channel.rs\<close>: the channel over the LTX transport, with its pool of execution
  slots. An operation that waits for the peer need not return: its outcome says whether it finished,
  was still writing or still waiting when the events of its environment end. A caller that is
  dropped then leaves the state it had reached.
\<close>

section \<open>Target paths\<close>

definition check_target_path :: "string \<Rightarrow> unit result" where
  "check_target_path path =
     (if path = [] then Err (CommunicationE ''target path is empty'')
      else if contains_char path (CHR 0x00) then Err (CommunicationE ''target path contains NUL byte'')
      else if ''..'' \<in> set (split_on (CHR ''/'') path) then
        Err (CommunicationE (''target path '' @ quoted path @ '' escapes with '' @ quoted ''..''))
      else Ok ())"

section \<open>The channel and its slots\<close>

text \<open>A connection is the transport and the bytes its poll task has read and not decoded yet.\<close>

record ltx_link =
  ll_conn :: ltx_conn
  ll_buffer :: string

record ltx_channel =
  lc_name :: string
  lc_infile :: string
  lc_outfile :: string
  lc_ltx :: "ltx_link option"
  lc_slots :: "u8 list"

definition ltx_channel_new :: ltx_channel where
  "ltx_channel_new = \<lparr> lc_name = ''ltx'', lc_infile = [], lc_outfile = [], lc_ltx = None, lc_slots = [] \<rparr>"

definition disconnected_clone :: "string \<Rightarrow> ltx_channel \<Rightarrow> ltx_channel" where
  "disconnected_clone new_name s =
     \<lparr> lc_name = new_name, lc_infile = lc_infile s, lc_outfile = lc_outfile s, lc_ltx = None, lc_slots = [] \<rparr>"

text \<open>A concurrent handle shares the connection and the slots: it is the channel itself.\<close>

definition ltx_concurrent_handle :: "ltx_channel \<Rightarrow> ltx_channel option" where
  "ltx_concurrent_handle s = Some s"

definition reserve_slot :: "u8 list \<Rightarrow> u8 result \<times> u8 list" where
  "reserve_slot slots =
     (case find (\<lambda>i. i \<notin> set slots) (map of_nat [0..<unat MAX_SLOTS]) of
        Some i \<Rightarrow> (Ok i, slots @ [i])
      | None \<Rightarrow> (Err (CommunicationE ''No execution slots available''), slots))"

text \<open>Removing the first position that holds the slot.\<close>

definition release_slot :: "u8 \<Rightarrow> u8 list \<Rightarrow> u8 list" where
  "release_slot slot slots = remove1 slot slots"

definition ltx_active :: "ltx_channel \<Rightarrow> bool" where
  "ltx_active s = (case lc_ltx s of None \<Rightarrow> False | Some l \<Rightarrow> lx_running (ll_conn l))"

text \<open>What the operating system and the peer do, as functions: files that exist, the outcome of opening
  the output, what opening and writing the input answers for a batch, and what the poll task reads
  while the caller of a batch waits.\<close>

record ltx_env =
  le_exists :: "string \<Rightarrow> bool"
  le_open_output :: "string \<Rightarrow> string + unit"
  le_opens :: "string \<Rightarrow> open_event list"
  le_writes :: "string \<Rightarrow> write_event list"
  le_reads :: "string \<Rightarrow> string result list"
  le_pack :: packer
  le_reader :: token_reader
  le_elapsed :: f64

definition ltx_setup :: "ltx_env \<Rightarrow> str_map \<Rightarrow> ltx_channel \<Rightarrow> unit result \<times> ltx_channel" where
  "ltx_setup E cfg s =
     (let infile = (case cfg ''infile'' of Some v \<Rightarrow> v | None \<Rightarrow> []);
          outfile = (case cfg ''outfile'' of Some v \<Rightarrow> v | None \<Rightarrow> [])
      in if infile = [] \<or> \<not> le_exists E infile then
           (Err (CommunicationE (quoted infile @ '' input file doesn'' @ [CHR 0x27] @ ''t exist'')), s)
         else if outfile = [] \<or> \<not> le_exists E outfile then
           (Err (CommunicationE (quoted outfile @ '' output file doesn'' @ [CHR 0x27] @ ''t exist'')), s)
         else (Ok (), s\<lparr>lc_infile := infile, lc_outfile := outfile\<rparr>))"

definition ltx_config_help :: "(string \<times> string) list" where
  "ltx_config_help =
     [(''infile'', ''file where ltx is reading data''), (''outfile'', ''file where ltx is writing data'')]"

definition ltx_plugin :: "ltx_env \<Rightarrow> ltx_channel plugin_ops" where
  "ltx_plugin E =
     \<lparr> pl_name = lc_name, pl_config_help = \<lambda>_. ltx_config_help, pl_setup = ltx_setup E,
       pl_clone_box = disconnected_clone \<rparr>"

interpretation ltx_plugin: plugin_contract "ltx_plugin E" "{}" for E
  by unfold_locales
    (auto simp: ltx_plugin_def ltx_setup_def ltx_config_help_def disconnected_clone_def new_instance_def Let_def)

section \<open>Gathering\<close>

datatype 'a outcome =
    Finished 'a
  | Still_Writing
  | Still_Waiting

fun map_finished :: "('a \<Rightarrow> 'b) \<Rightarrow> 'a outcome \<Rightarrow> 'b outcome" where
  "map_finished f (Finished x) = Finished (f x)"
| "map_finished f Still_Writing = Still_Writing"
| "map_finished f Still_Waiting = Still_Waiting"

fun gather_wait ::
  "token_reader \<Rightarrow> nat \<Rightarrow> u64 list \<Rightarrow> string result list \<Rightarrow> ltx_link \<Rightarrow> reply list result outcome \<times> ltx_link" where
  "gather_wait rd n ids reads l =
     (case gather_round n ids (ll_conn l) of
        Some (res, c) \<Rightarrow> (Finished res, l\<lparr>ll_conn := c\<rparr>)
      | None \<Rightarrow>
          (case reads of
             [] \<Rightarrow> (Still_Waiting, l)
           | r # rest \<Rightarrow>
               (case poll_read rd r (ll_buffer l) (ll_conn l) of
                  None \<Rightarrow> (Still_Waiting, l)
                | Some (Polling buf c) \<Rightarrow> gather_wait rd n ids rest \<lparr> ll_conn = c, ll_buffer = buf \<rparr>
                | Some (Poll_Ended c) \<Rightarrow> gather_wait rd n ids [] \<lparr> ll_conn = c, ll_buffer = [] \<rparr>)))"

definition ltx_gather ::
  "ltx_env \<Rightarrow> string \<Rightarrow> request list \<Rightarrow> ltx_link \<Rightarrow> reply list result outcome \<times> ltx_link" where
  "ltx_gather E infile requests l =
     (case send_prepare (le_pack E) requests (ll_conn l) of
        Inl e \<Rightarrow> (Finished (Err e), l)
      | Inr bytes \<Rightarrow>
          (case send_register requests (ll_conn l) of
             (Inl e, c) \<Rightarrow> (Finished (Err e), l\<lparr>ll_conn := c\<rparr>)
           | (Inr ids, c) \<Rightarrow>
               (case write_infile infile (le_opens E bytes) (le_writes E bytes) bytes of
                  (None, out) \<Rightarrow> (Still_Writing, l\<lparr>ll_conn := put_wire out c\<rparr>)
                | (Some (Inl e), out) \<Rightarrow>
                    (Finished (Err e), l\<lparr>ll_conn := send_guard_drop False (put_wire out c)\<rparr>)
                | (Some (Inr _), out) \<Rightarrow>
                    gather_wait (le_reader E) (length requests) ids (le_reads E bytes)
                      (l\<lparr>ll_conn := send_guard_drop True (put_wire out c)\<rparr>))))"

text \<open>Dropping a caller: only one that is still writing leaves a mark.\<close>

fun drop_gather :: "'a outcome \<Rightarrow> ltx_link \<Rightarrow> ltx_link" where
  "drop_gather Still_Writing l = l\<lparr>ll_conn := send_guard_drop False (ll_conn l)\<rparr>"
| "drop_gather _ l = l"

definition communication :: "'a result \<Rightarrow> 'a result" where
  "communication r = (case r of Inl e \<Rightarrow> Err (CommunicationE (error_display e)) | Inr x \<Rightarrow> Ok x)"

definition send_requests ::
  "ltx_env \<Rightarrow> request list \<Rightarrow> ltx_channel \<Rightarrow> reply list result outcome \<times> ltx_channel" where
  "send_requests E requests s =
     (case lc_ltx s of
        None \<Rightarrow> (Finished (Err (CommunicationE ''LTX connection is not present'')), s)
      | Some l \<Rightarrow>
          (case ltx_gather E (lc_infile s) requests l of
             (res, l1) \<Rightarrow> (map_finished communication res, s\<lparr>lc_ltx := Some l1\<rparr>)))"

definition kill_in_flight :: "ltx_env \<Rightarrow> ltx_channel \<Rightarrow> unit result outcome \<times> ltx_channel" where
  "kill_in_flight E s =
     (if lc_slots s = [] then (Finished (Ok ()), s)
      else
        (case send_requests E (map req_kill (lc_slots s)) s of
           (res, s1) \<Rightarrow> (map_finished (\<lambda>r. and_then r (\<lambda>_. Ok ())) res, s1)))"

section \<open>The operations\<close>

definition ltx_communicate :: "ltx_env \<Rightarrow> ltx_channel \<Rightarrow> unit result outcome \<times> ltx_channel" where
  "ltx_communicate E s =
     (if ltx_active s then (Finished (Err (CommunicationE ''LTX is already running'')), s)
      else
        (case ltx_connect (fifo_open_read (lc_outfile s) (le_open_output E (lc_outfile s))) ltx_new of
           (Inl e, _) \<Rightarrow> (Finished (Err (CommunicationE (error_display e))), s)
         | (Inr _, c) \<Rightarrow>
             (case ltx_gather E (lc_infile s) [req_version] \<lparr> ll_conn = c, ll_buffer = [] \<rparr> of
                (Finished (Inl e), l) \<Rightarrow> (Finished (Err (CommunicationE (error_display e))), s)
              | (Finished (Inr _), l) \<Rightarrow> (Finished (Ok ()), s\<lparr>lc_ltx := Some l\<rparr>)
              | (Still_Writing, _) \<Rightarrow> (Still_Writing, s)
              | (Still_Waiting, _) \<Rightarrow> (Still_Waiting, s))))"

text \<open>
  The loop of \<open>stop\<close> sleeps while slots are reserved and the connection is active; each element of
  the list is what the other tasks do during one sleep.
\<close>

fun drain_slots :: "(ltx_channel \<Rightarrow> ltx_channel) list \<Rightarrow> ltx_channel \<Rightarrow> ltx_channel option" where
  "drain_slots others s =
     (if lc_slots s \<noteq> [] \<and> ltx_active s then
        (case others of [] \<Rightarrow> None | f # fs \<Rightarrow> drain_slots fs (f s))
      else Some s)"

definition ltx_stop ::
  "ltx_env \<Rightarrow> (ltx_channel \<Rightarrow> ltx_channel) list \<Rightarrow> ltx_channel \<Rightarrow> unit result outcome \<times> ltx_channel" where
  "ltx_stop E others s =
     (if \<not> ltx_active s then (Finished (Ok ()), s)
      else
        (case kill_in_flight E s of
           (Finished (Inl e), s1) \<Rightarrow> (Finished (Err e), s1)
         | (Finished (Inr _), s1) \<Rightarrow>
             (case drain_slots others s1 of
                None \<Rightarrow> (Still_Waiting, s1)
              | Some s2 \<Rightarrow>
                  (case lc_ltx s2 of
                     None \<Rightarrow> (Finished (Ok ()), s2)
                   | Some l \<Rightarrow>
                       (Finished (communication (fst (ltx_disconnect (ll_conn l)))), s2\<lparr>lc_ltx := None\<rparr>)))
         | (res, s1) \<Rightarrow> (res, s1)))"

definition ltx_ping :: "ltx_env \<Rightarrow> ltx_channel \<Rightarrow> f64 result outcome \<times> ltx_channel" where
  "ltx_ping E s =
     (if \<not> ltx_active s then (Finished (Err (CommunicationE ''LTX is not running'')), s)
      else
        (case send_requests E [req_ping] s of
           (res, s1) \<Rightarrow> (map_finished (\<lambda>r. and_then r (\<lambda>_. Ok (le_elapsed E))) res, s1)))"

text \<open>The requests of one command; a hash map of variables is the list its iteration gives.\<close>

fun env_requests :: "u8 \<Rightarrow> (string \<times> string) list \<Rightarrow> request list result" where
  "env_requests slot [] = Ok []"
| "env_requests slot ((key, val) # vars) =
     and_then (req_env (Some slot) key val) (\<lambda>r. and_then (env_requests slot vars) (\<lambda>rs. Ok (r # rs)))"

definition command_requests ::
  "u8 \<Rightarrow> string \<Rightarrow> string option \<Rightarrow> (string \<times> string) list option \<Rightarrow> request list result" where
  "command_requests slot command cwd vars =
     and_then (case cwd of None \<Rightarrow> Ok [] | Some path \<Rightarrow> and_then (req_cwd (Some slot) path) (\<lambda>r. Ok [r])) (\<lambda>c.
       and_then (case vars of None \<Rightarrow> Ok [] | Some vs \<Rightarrow> env_requests slot vs) (\<lambda>es.
         and_then (req_execute_with_stdout slot command) (\<lambda>x. Ok (c @ es @ [x]))))"

definition result_of_replies :: "ltx_env \<Rightarrow> string \<Rightarrow> reply list \<Rightarrow> cmd_result result" where
  "result_of_replies E command replies =
     (case (if replies = [] then Reply_Version [] else last replies) of
        Reply_Execute _ _ si_status out \<Rightarrow>
          Ok \<lparr> cr_command = command, cr_returncode = si_status, cr_stdout = out, cr_exec_time = le_elapsed E \<rparr>
      | _ \<Rightarrow> Err (CommunicationE ''LTX returned an unexpected reply for EXEC''))"

definition execute_on_slot ::
  "ltx_env \<Rightarrow> u8 \<Rightarrow> string \<Rightarrow> string option \<Rightarrow> (string \<times> string) list option \<Rightarrow> ltx_channel
     \<Rightarrow> cmd_result result outcome \<times> ltx_channel" where
  "execute_on_slot E slot command cwd vars s =
     (case command_requests slot command cwd vars of
        Inl e \<Rightarrow> (Finished (Err e), s)
      | Inr requests \<Rightarrow>
          (case send_requests E requests s of
             (res, s1) \<Rightarrow> (map_finished (\<lambda>r. and_then r (result_of_replies E command)) res, s1)))"

definition ltx_run_command ::
  "ltx_env \<Rightarrow> string \<Rightarrow> string option \<Rightarrow> (string \<times> string) list option \<Rightarrow> ltx_channel
     \<Rightarrow> cmd_result option result outcome \<times> ltx_channel" where
  "ltx_run_command E command cwd vars s =
     (if command = [] then (Finished (Err (CommunicationE ''command is empty'')), s)
      else if \<not> ltx_active s then (Finished (Err (CommunicationE ''LTX is not running'')), s)
      else
        (case reserve_slot (lc_slots s) of
           (Inl e, _) \<Rightarrow> (Finished (Err e), s)
         | (Inr slot, slots) \<Rightarrow>
             (case execute_on_slot E slot command cwd vars (s\<lparr>lc_slots := slots\<rparr>) of
                (Finished res, s1) \<Rightarrow>
                  (Finished (and_then res (\<lambda>r. Ok (Some r))),
                   s1\<lparr>lc_slots := release_slot slot (lc_slots s1)\<rparr>)
              | (Still_Writing, s1) \<Rightarrow> (Still_Writing, s1)
              | (Still_Waiting, s1) \<Rightarrow> (Still_Waiting, s1))))"

text \<open>A command whose future is dropped before it finished, by a timeout for one.\<close>

definition run_command_dropped ::
  "ltx_env \<Rightarrow> string \<Rightarrow> string option \<Rightarrow> (string \<times> string) list option \<Rightarrow> ltx_channel \<Rightarrow> ltx_channel option" where
  "run_command_dropped E command cwd vars s =
     (case ltx_run_command E command cwd vars s of
        (Finished _, _) \<Rightarrow> None
      | (res, s1) \<Rightarrow> Some (s1\<lparr>lc_ltx := map_option (drop_gather res) (lc_ltx s1)\<rparr>))"

definition ltx_fetch_file :: "ltx_env \<Rightarrow> string \<Rightarrow> ltx_channel \<Rightarrow> string result outcome \<times> ltx_channel" where
  "ltx_fetch_file E target_path s =
     (case check_target_path target_path of
        Inl e \<Rightarrow> (Finished (Err e), s)
      | Inr _ \<Rightarrow>
          if \<not> ltx_active s then (Finished (Err (CommunicationE ''LTX connection is not present'')), s)
          else
            (case req_get_file target_path of
               Inl e \<Rightarrow> (Finished (Err e), s)
             | Inr request \<Rightarrow>
                 (case send_requests E [request] s of
                    (res, s1) \<Rightarrow>
                      (map_finished (\<lambda>r. and_then r (\<lambda>replies.
                         if replies = [] then Err (CommunicationE ''LTX returned an unexpected reply for GET_FILE'')
                         else
                           (case last replies of
                              Reply_GetFile _ bytes \<Rightarrow> Ok bytes
                            | _ \<Rightarrow> Err (CommunicationE ''LTX returned an unexpected reply for GET_FILE'')))) res, s1))))"

section \<open>The slot pool\<close>

text \<open>
  The contract of a pool: what is reserved was free and is then held, a failed reservation changes
  nothing, releasing gives the slot back. The client is a set of owners that reserve, release, or
  vanish while they hold a slot.
\<close>

datatype 'o slot_op = Reserve_For 'o | Release_Of 'o | Vanish 'o

fun slot_step ::
  "('p \<Rightarrow> ('e + 's) \<times> 'p) \<Rightarrow> ('s \<Rightarrow> 'p \<Rightarrow> 'p) \<Rightarrow> 'o slot_op \<Rightarrow> 'p \<times> ('o \<rightharpoonup> 's) \<Rightarrow> 'p \<times> ('o \<rightharpoonup> 's)" where
  "slot_step reserve release (Reserve_For o1) (p, own) =
     (if own o1 \<noteq> None then (p, own)
      else (case reserve p of (Inl _, p1) \<Rightarrow> (p1, own) | (Inr i, p1) \<Rightarrow> (p1, own(o1 \<mapsto> i))))"
| "slot_step reserve release (Release_Of o1) (p, own) =
     (case own o1 of None \<Rightarrow> (p, own) | Some i \<Rightarrow> (release i p, own(o1 := None)))"
| "slot_step reserve release (Vanish o1) (p, own) = (p, own(o1 := None))"

locale slot_pool =
  fixes reserve :: "'p \<Rightarrow> ('e + 's) \<times> 'p" and release :: "'s \<Rightarrow> 'p \<Rightarrow> 'p"
    and held :: "'p \<Rightarrow> 's set" and ok :: "'p \<Rightarrow> bool"
  assumes reserve_Ok: "ok p \<Longrightarrow> reserve p = (Inr i, p') \<Longrightarrow> i \<notin> held p \<and> held p' = insert i (held p) \<and> ok p'"
    and reserve_Err: "ok p \<Longrightarrow> reserve p = (Inl e, p') \<Longrightarrow> p' = p"
    and release_held: "ok p \<Longrightarrow> held (release i p) = held p - {i} \<and> ok (release i p)"
begin

lemma slot_op_exclusive:
  assumes "ok p" and "inj_on own (dom own)" and "ran own \<subseteq> held p"
    and "slot_step reserve release x (p, own) = (p', own')"
  shows "ok p' \<and> inj_on own' (dom own') \<and> ran own' \<subseteq> held p'"
proof (cases x)
  case (Reserve_For o1)
  show ?thesis
  proof (cases "own o1")
    case None
    obtain r p1 where r: "reserve p = (r, p1)" by fastforce
    show ?thesis
    proof (cases r)
      case (Inl e)
      then show ?thesis using assms Reserve_For None r reserve_Err by auto
    next
      case (Inr i)
      note new = reserve_Ok [OF assms(1) r [unfolded Inr]]
      have "i \<notin> ran own" using new assms(3) by blast
      then have "inj_on (own(o1 \<mapsto> i)) (dom (own(o1 \<mapsto> i)))"
        using assms(2) by (auto simp: inj_on_def ran_def)
      moreover have "ran (own(o1 \<mapsto> i)) \<subseteq> held p1" using None new assms(3) by auto
      ultimately show ?thesis using assms Reserve_For None r Inr new by auto
    qed
  qed (use assms Reserve_For in auto)
next
  case (Release_Of o1)
  show ?thesis
  proof (cases "own o1")
    case (Some i)
    note rel = release_held [OF assms(1), of i]
    have "ran (own(o1 := None)) \<subseteq> held p - {i}"
      using assms(2,3) Some by (auto simp: ran_def inj_on_def dom_def)
    moreover have "inj_on (own(o1 := None)) (dom (own(o1 := None)))"
      using assms(2) by (auto simp: inj_on_def)
    ultimately show ?thesis using assms(4) Release_Of Some rel by auto
  qed (use assms Release_Of in auto)
next
  case (Vanish o1)
  have "inj_on (own(o1 := None)) (dom (own(o1 := None)))"
    using assms(2) by (auto simp: inj_on_def)
  moreover have "ran (own(o1 := None)) \<subseteq> held p" using assms(3) by (auto simp: ran_def split: if_splits)
  ultimately show ?thesis using assms(1,4) Vanish by auto
qed

lemma pool_exclusive:
  "ok p \<Longrightarrow> inj_on own (dom own) \<Longrightarrow> ran own \<subseteq> held p \<Longrightarrow>
   fold (slot_step reserve release) xs (p, own) = (p', own') \<Longrightarrow>
   ok p' \<and> inj_on own' (dom own') \<and> ran own' \<subseteq> held p'"
proof (induction xs arbitrary: p own)
  case (Cons x xs)
  obtain p1 own1 where st: "slot_step reserve release x (p, own) = (p1, own1)" by fastforce
  from slot_op_exclusive [OF Cons.prems(1-3) st] Cons.IH [of p1 own1] Cons.prems(4) st
  show ?case by simp
qed simp

end

text \<open>A slot list of the channel: no duplicates, and every slot below \<open>MAX_SLOTS\<close>.\<close>

definition slots_ok :: "u8 list \<Rightarrow> bool" where
  "slots_ok slots \<longleftrightarrow> distinct slots \<and> (\<forall>i \<in> set slots. i < MAX_SLOTS)"

lemma slot_range: "set (map of_nat [0..<unat MAX_SLOTS]) = {i :: u8. i < MAX_SLOTS}"
proof
  show "{i. i < MAX_SLOTS} \<subseteq> set (map of_nat [0..<unat MAX_SLOTS])"
  proof
    fix i :: u8
    assume "i \<in> {i. i < MAX_SLOTS}"
    then have "unat i < unat MAX_SLOTS" by (simp add: word_less_nat_alt)
    then have "i = of_nat (unat i)" "unat i \<in> {0..<unat MAX_SLOTS}" by simp_all
    then show "i \<in> set (map of_nat [0..<unat MAX_SLOTS])" by (metis image_eqI set_map set_upt)
  qed
next
  have "of_nat n < MAX_SLOTS" if "n < unat MAX_SLOTS" for n
    using that by (simp add: word_less_nat_alt unat_of_nat take_bit_nat_eq_self MAX_SLOTS_def)
  then show "set (map of_nat [0..<unat MAX_SLOTS]) \<subseteq> {i :: u8. i < MAX_SLOTS}" by auto
qed

lemma reserve_slot_Ok:
  "reserve_slot slots = (Inr i, slots') \<Longrightarrow> i \<notin> set slots \<and> slots' = slots @ [i] \<and> i < MAX_SLOTS"
proof -
  assume a: "reserve_slot slots = (Inr i, slots')"
  then have "find (\<lambda>i. i \<notin> set slots) (map of_nat [0..<unat MAX_SLOTS]) = Some i" and "slots' = slots @ [i]"
    by (auto simp: reserve_slot_def split: option.splits)
  moreover from this(1) have "i \<notin> set slots" "i \<in> set (map of_nat [0..<unat MAX_SLOTS])"
    by (auto simp: find_Some_iff)
  ultimately show ?thesis using slot_range by blast
qed

lemma reserve_slot_Err:
  "reserve_slot slots = (Inl e, slots') \<Longrightarrow> slots' = slots \<and> {i. i < MAX_SLOTS} \<subseteq> set slots"
  using slot_range by (auto simp: reserve_slot_def find_None_iff split: option.splits)

interpretation ltx_slots: slot_pool reserve_slot release_slot set slots_ok
proof
  fix p p' :: "u8 list" and i :: u8 and e :: kirk_error
  show "slots_ok p \<Longrightarrow> reserve_slot p = (Inr i, p') \<Longrightarrow> i \<notin> set p \<and> set p' = insert i (set p) \<and> slots_ok p'"
    by (drule reserve_slot_Ok) (auto simp: slots_ok_def)
  show "slots_ok p \<Longrightarrow> reserve_slot p = (Inl e, p') \<Longrightarrow> p' = p" using reserve_slot_Err by blast
  show "slots_ok p \<Longrightarrow> set (release_slot i p) = set p - {i} \<and> slots_ok (release_slot i p)"
    by (auto simp: slots_ok_def release_slot_def)
qed

text \<open>
  Whatever the order in which commands start, finish or are cancelled, no two of them
  hold the same slot and every slot is below 127; a command is refused only when all 127 slots are
  reserved. A cancelled command keeps its slot reserved for good.
\<close>

theorem slots_are_exclusive:
  assumes "fold (slot_step reserve_slot release_slot) ops ([], Map.empty) = (slots, own)"
  shows "inj_on own (dom own) \<and> ran own \<subseteq> set slots \<and> distinct slots \<and> (\<forall>i \<in> set slots. i < 127) \<and>
     ((\<exists>e. fst (reserve_slot slots) = Inl e) \<longleftrightarrow> length slots = 127) \<and>
     (\<forall>who i. own who = Some i \<longrightarrow>
        i \<in> set (fst (slot_step reserve_slot release_slot (Vanish who) (slots, own))))"
proof -
  have inv: "slots_ok slots \<and> inj_on own (dom own) \<and> ran own \<subseteq> set slots"
    using ltx_slots.pool_exclusive [OF _ _ _ assms] by (simp add: slots_ok_def)
  then have d: "distinct slots" and sub: "set slots \<subseteq> {i. i < MAX_SLOTS}" by (auto simp: slots_ok_def)
  have card: "card {i :: u8. i < MAX_SLOTS} = 127"
  proof -
    have "{i :: u8. i < MAX_SLOTS} = of_nat ` {0..<127}" using slot_range by (simp add: MAX_SLOTS_def)
    moreover have "inj_on (of_nat :: nat \<Rightarrow> u8) {0..<127}"
    proof (rule inj_onI)
      fix a b :: nat
      assume ab: "a \<in> {0..<127}" "b \<in> {0..<127}" "(of_nat a :: u8) = of_nat b"
      then have "unat (of_nat a :: u8) = unat (of_nat b :: u8)" by simp
      then show "a = b" using ab(1,2) by (simp add: unat_of_nat take_bit_nat_eq_self)
    qed
    ultimately show ?thesis by (simp add: card_image)
  qed
  have full: "length slots = 127 \<longleftrightarrow> set slots = {i. i < MAX_SLOTS}"
    using sub card distinct_card [OF d] by (metis card_subset_eq finite)
  have "(\<exists>e. fst (reserve_slot slots) = Inl e) \<longleftrightarrow> {i. i < MAX_SLOTS} \<subseteq> set slots"
  proof
    assume "\<exists>e. fst (reserve_slot slots) = Inl e"
    then show "{i. i < MAX_SLOTS} \<subseteq> set slots" by (metis prod.collapse reserve_slot_Err)
  next
    assume all: "{i. i < MAX_SLOTS} \<subseteq> set slots"
    show "\<exists>e. fst (reserve_slot slots) = Inl e"
    proof (cases "fst (reserve_slot slots)")
      case (Inr i)
      then have "i \<notin> set slots \<and> i < MAX_SLOTS" by (metis prod.collapse reserve_slot_Ok)
      with all show ?thesis by blast
    qed simp
  qed
  then have "(\<exists>e. fst (reserve_slot slots) = Inl e) \<longleftrightarrow> length slots = 127" using full sub by auto
  moreover have "i \<in> set slots" if "own who = Some i" for who i using inv that by (meson ranI subsetD)
  ultimately show ?thesis using inv d sub by (auto simp: MAX_SLOTS_def)
qed

lemma slots_are_exclusive_witness:
  "inj_on ([1 \<mapsto> 0, 2 \<mapsto> 2] :: nat \<rightharpoonup> u8) {1, 2}"
proof -
  have "fold (slot_step reserve_slot release_slot)
      [Reserve_For 1, Reserve_For 3, Reserve_For 2, Release_Of 3] ([], Map.empty)
    = ([0, 2], [1 \<mapsto> 0, 2 \<mapsto> 2] :: nat \<rightharpoonup> u8)"
    by (simp add: reserve_slot_def release_slot_def MAX_SLOTS_def upt_rec fun_upd_twist)
  from slots_are_exclusive [OF this] show ?thesis by (simp add: dom_def insert_commute)
qed

end
