(* ===== verification/Ltx_Lifecycle.thy ===== *)
theory Ltx_Lifecycle
  imports Ltx_Channel
begin

text \<open>
  What the operations of \<open>channel.rs\<close> do together: the result of a command is the reply to its
  \<open>EXEC\<close>, a command that is cancelled keeps its slot and blocks the stop of the channel, one that is
  cancelled while it writes leaves a channel no operation recovers, and downloads that overlap mix
  their contents.
\<close>

section \<open>Frames\<close>

lemma send_requests_frame:
  "send_requests E reqs s = (res, s1) \<Longrightarrow> lc_slots s1 = lc_slots s \<and> lc_infile s1 = lc_infile s \<and>
     lc_outfile s1 = lc_outfile s \<and> lc_name s1 = lc_name s"
  by (auto simp: send_requests_def split: option.splits prod.splits)

lemma map_finished_iff [simp]:
  "map_finished f r = Finished y \<longleftrightarrow> (\<exists>x. r = Finished x \<and> f x = y)"
  "map_finished f r = Still_Writing \<longleftrightarrow> r = Still_Writing"
  "map_finished f r = Still_Waiting \<longleftrightarrow> r = Still_Waiting"
  by (cases r; auto)+

lemma execute_frame_slots:
  "execute_on_slot E slot command cwd vars s = (res, s1) \<Longrightarrow> lc_slots s1 = lc_slots s"
  by (auto simp: execute_on_slot_def dest: send_requests_frame split: sum.splits prod.splits)

lemma release_reserved: "slot \<notin> set slots \<Longrightarrow> release_slot slot (slots @ [slot]) = slots"
  by (simp add: release_slot_def remove1_append)

declare gather_wait.simps [simp del] drain_slots.simps [simp del]

lemma gather_wait_steps:
  "gather_round n ids (ll_conn l) = Some (res, c) \<Longrightarrow>
   gather_wait rd n ids reads l = (Finished res, l\<lparr>ll_conn := c\<rparr>)"
  "gather_round n ids (ll_conn l) = None \<Longrightarrow> gather_wait rd n ids [] l = (Still_Waiting, l)"
  "gather_round n ids (ll_conn l) = None \<Longrightarrow> gather_wait rd n ids (r # rest) l =
     (case poll_read rd r (ll_buffer l) (ll_conn l) of
        None \<Rightarrow> (Still_Waiting, l)
      | Some (Polling buf c) \<Rightarrow> gather_wait rd n ids rest \<lparr> ll_conn = c, ll_buffer = buf \<rparr>
      | Some (Poll_Ended c) \<Rightarrow> gather_wait rd n ids [] \<lparr> ll_conn = c, ll_buffer = [] \<rparr>)"
  by (subst gather_wait.simps, simp)+

text \<open>Collecting succeeds only on a live connection.\<close>

lemma gather_round_alive: "gather_round n ids c = Some (Inr rs, d) \<Longrightarrow> lx_running d \<and> \<not> lx_desynced d"
  by (auto simp: gather_round_def split: option.splits if_splits prod.splits)

lemma gather_wait_alive:
  "gather_wait rd n ids reads l = (Finished (Inr rs), l1) \<Longrightarrow> lx_running (ll_conn l1) \<and> \<not> lx_desynced (ll_conn l1)"
proof (induction rd n ids reads l rule: gather_wait.induct)
  case (1 rd n ids reads l)
  show ?case
  proof (cases "gather_round n ids (ll_conn l)")
    case (Some p)
    then show ?thesis using "1.prems" gather_round_alive by (cases p) (auto simp: gather_wait_steps)
  next
    case None
    then obtain r rest where reads: "reads = r # rest"
      using "1.prems" by (cases reads) (auto simp: gather_wait_steps)
    show ?thesis
    proof (cases "poll_read rd r (ll_buffer l) (ll_conn l)")
      case (Some q)
      then show ?thesis
        using "1.prems" "1.IH" [OF None reads Some] None reads
        by (cases q) (auto simp: gather_wait_steps)
    qed (use "1.prems" None reads in \<open>auto simp: gather_wait_steps\<close>)
  qed
qed

lemma ltx_gather_alive:
  "ltx_gather E infile reqs l = (Finished (Inr rs), l1) \<Longrightarrow> lx_running (ll_conn l1) \<and> \<not> lx_desynced (ll_conn l1)"
  by (auto simp: ltx_gather_def dest!: gather_wait_alive split: sum.splits prod.splits option.splits)

lemma communication_Ok [simp]: "communication r = Inr x \<longleftrightarrow> r = Inr x"
  by (cases r) (auto simp: communication_def)

lemma send_requests_alive:
  "send_requests E reqs s = (Finished (Inr rs), s1) \<Longrightarrow> ltx_active s1"
  by (auto simp: send_requests_def ltx_active_def dest: ltx_gather_alive split: option.splits prod.splits)

lemma kill_in_flight_alive:
  assumes "kill_in_flight E s = (Finished (Inr u), s1)" and "ltx_active s"
  shows "ltx_active s1 \<and> lc_slots s1 = lc_slots s"
proof (cases "lc_slots s = []")
  case False
  obtain res s2 where r: "send_requests E (map req_kill (lc_slots s)) s = (res, s2)" by fastforce
  then obtain rs where "res = Finished (Inr rs)" and "s1 = s2"
    using assms(1) False by (auto simp: kill_in_flight_def and_then_Ok)
  then show ?thesis using r send_requests_alive send_requests_frame by blast
qed (use assms in \<open>auto simp: kill_in_flight_def\<close>)

section \<open>A cancelled command\<close>

lemma run_command_unfinished:
  assumes "ltx_run_command E command cwd vars s = (res, s1)" and "\<nexists>x. res = Finished x"
  shows "\<exists>slot requests res1. reserve_slot (lc_slots s) = (Inr slot, lc_slots s @ [slot]) \<and> slot \<notin> set (lc_slots s) \<and>
     send_requests E requests (s\<lparr>lc_slots := lc_slots s @ [slot]\<rparr>) = (res1, s1) \<and>
     (res = Still_Writing \<longleftrightarrow> res1 = Still_Writing) \<and> (res = Still_Waiting \<longleftrightarrow> res1 = Still_Waiting)"
proof -
  from assms obtain slot slots where r: "reserve_slot (lc_slots s) = (Inr slot, slots)"
    and e: "(case execute_on_slot E slot command cwd vars (s\<lparr>lc_slots := slots\<rparr>) of
        (Finished res, s1) \<Rightarrow> (Finished (and_then res (\<lambda>r. Ok (Some r))), s1\<lparr>lc_slots := release_slot slot (lc_slots s1)\<rparr>)
      | (Still_Writing, s1) \<Rightarrow> (Still_Writing, s1) | (Still_Waiting, s1) \<Rightarrow> (Still_Waiting, s1)) = (res, s1)"
    by (auto simp: ltx_run_command_def split: if_splits sum.splits prod.splits)
  note slot = reserve_slot_Ok [OF r]
  obtain res2 s2 where x: "execute_on_slot E slot command cwd vars (s\<lparr>lc_slots := slots\<rparr>) = (res2, s2)" by fastforce
  then have res2: "s2 = s1" "(res = Still_Writing \<longleftrightarrow> res2 = Still_Writing)"
    "(res = Still_Waiting \<longleftrightarrow> res2 = Still_Waiting)" "\<nexists>y. res2 = Finished y"
    using e assms(2) by (cases res2; auto)+
  obtain requests where q: "command_requests slot command cwd vars = Inr requests"
    using x res2(4) by (auto simp: execute_on_slot_def split: sum.splits)
  obtain res1 s3 where sr: "send_requests E requests (s\<lparr>lc_slots := slots\<rparr>) = (res1, s3)" by fastforce
  then have "res2 = map_finished (\<lambda>r. and_then r (result_of_replies E command)) res1" "s3 = s2"
    using x q by (simp_all add: execute_on_slot_def)
  then show ?thesis using r slot sr res2 by auto
qed

text \<open>What other tasks may do to a slot they do not own.\<close>

definition leaves_slot :: "u8 \<Rightarrow> (ltx_channel \<Rightarrow> ltx_channel) \<Rightarrow> bool" where
  "leaves_slot slot f \<longleftrightarrow>
     (\<forall>t. ltx_active t \<and> slot \<in> set (lc_slots t) \<longrightarrow> ltx_active (f t) \<and> slot \<in> set (lc_slots (f t)))"

lemma drain_slots_forever:
  "\<forall>f \<in> set others. leaves_slot slot f \<Longrightarrow> ltx_active s \<Longrightarrow> slot \<in> set (lc_slots s) \<Longrightarrow> drain_slots others s = None"
proof (induction others arbitrary: s)
  case (Cons f fs)
  then have "drain_slots fs (f s) = None" by (simp add: leaves_slot_def)
  then show ?case using Cons.prems by (subst drain_slots.simps) auto
qed (subst drain_slots.simps, auto)

text \<open>
  Claim C16: a command that is cancelled while it waits for the peer keeps its slot, and from then on
  \<open>stop\<close> does not succeed while the connection lives: no other task releases the slot, so its loop
  goes on for as long as they run.
\<close>

theorem cancelled_command_blocks_stop:
  assumes "run_command_dropped E command cwd vars s = Some s'" and "ltx_active s'"
  shows "\<exists>slot. slot \<notin> set (lc_slots s) \<and> lc_slots s' = lc_slots s @ [slot] \<and>
     (\<forall>E' others. (\<forall>f \<in> set others. leaves_slot slot f) \<longrightarrow> fst (ltx_stop E' others s') \<noteq> Finished (Inr ()))"
proof -
  obtain res s1 where run: "ltx_run_command E command cwd vars s = (res, s1)" by fastforce
  with assms(1) have unfinished: "\<nexists>x. res = Finished x"
    and s': "s' = s1\<lparr>lc_ltx := map_option (drop_gather res) (lc_ltx s1)\<rparr>"
    by (cases res; auto simp: run_command_dropped_def)+
  from run_command_unfinished [OF run unfinished] obtain slot requests res1 where
    fresh: "slot \<notin> set (lc_slots s)"
    and sr: "send_requests E requests (s\<lparr>lc_slots := lc_slots s @ [slot]\<rparr>) = (res1, s1)" by blast
  have slots: "lc_slots s' = lc_slots s @ [slot]" using send_requests_frame [OF sr] s' by simp
  have "fst (ltx_stop E' others s') \<noteq> Finished (Inr ())" if leave: "\<forall>f \<in> set others. leaves_slot slot f" for E' others
  proof
    assume returned: "fst (ltx_stop E' others s') = Finished (Inr ())"
    obtain res2 s2 where k: "kill_in_flight E' s' = (res2, s2)" by fastforce
    obtain u where "res2 = Finished (Inr u)"
      using returned k assms(2) by (auto simp: ltx_stop_def split: outcome.splits sum.splits)
    with kill_in_flight_alive [of E' s' u s2] k assms(2)
    have "ltx_active s2" "slot \<in> set (lc_slots s2)" using slots by auto
    then have "drain_slots others s2 = None" using drain_slots_forever [OF leave] by blast
    then show False using returned k \<open>res2 = Finished (Inr u)\<close> assms(2) by (simp add: ltx_stop_def)
  qed
  with fresh slots show ?thesis by blast
qed

text \<open>
  A channel connected to a peer that never answers, on which a command is started and timed out.
\<close>

definition silent_env :: "write_event list \<Rightarrow> ltx_env" where
  "silent_env writes = \<lparr> le_exists = \<lambda>_. True, le_open_output = \<lambda>_. Inr (), le_opens = \<lambda>_. [Opened],
     le_writes = \<lambda>_. writes, le_reads = \<lambda>_. [], le_pack = \<lambda>_. Inr [CHR 0x90], le_reader = small_reader,
     le_elapsed = F64_Fin 1 \<rparr>"

definition connected_channel :: ltx_channel where
  "connected_channel = ltx_channel_new\<lparr>lc_ltx :=
     Some \<lparr> ll_conn = ltx_new\<lparr>lx_running := True\<rparr>, ll_buffer = [] \<rparr>\<rparr>"

definition sleep_request :: request where
  "sleep_request = R_Execute \<lparr> ex_completed = False, ex_echoed = False, ex_slot = 0,
     ex_command = ''sleep 9'', ex_stdout_tx = Some [], ex_stdout = [] \<rparr>"

definition sleep_sent :: "bool \<Rightarrow> string \<Rightarrow> ltx_channel" where
  "sleep_sent desynced wire = ltx_channel_new\<lparr>lc_slots := [0], lc_ltx :=
     Some \<lparr> ll_conn = ltx_new\<lparr>lx_running := True, lx_next_id := 1, lx_desynced := desynced,
       lx_wire := wire, lx_pending := [\<lparr> pe_id = 0, pe_request = sleep_request \<rparr>]\<rparr>, ll_buffer = [] \<rparr>\<rparr>"

lemmas demo_channel = silent_env_def connected_channel_def sleep_sent_def ltx_channel_new_def ltx_new_def
  sleep_request_def

lemma first_slot: "reserve_slot [] = (Inr 0, [0])"
  by (simp add: reserve_slot_def MAX_SLOTS_def upt_rec)

lemmas run_command_defs = ltx_run_command_def execute_on_slot_def command_requests_def
  req_execute_with_stdout_def execute_inner_def send_requests_def ltx_gather_def send_prepare_def
  send_register_def write_infile_def send_guard_drop_def put_wire_def pack_defs

lemma sleep_timed_out:
  "run_command_dropped (silent_env [Wrote 1]) ''sleep 9'' None None connected_channel
   = Some (sleep_sent False [CHR 0x90])"
  by (simp add: run_command_dropped_def run_command_defs first_slot demo_channel ltx_active_def
      gather_wait_steps gather_round_def)

lemma cancelled_command_blocks_stop_witness:
  "fst (ltx_stop (silent_env [Wrote 1]) [id, id] (sleep_sent False [CHR 0x90])) \<noteq> Finished (Inr ())"
  using cancelled_command_blocks_stop [OF sleep_timed_out]
  by (auto simp: demo_channel ltx_active_def leaves_slot_def)

section \<open>A command cancelled while it writes\<close>

lemma desynced_gather:
  "lx_running (ll_conn l) \<Longrightarrow> lx_desynced (ll_conn l) \<Longrightarrow> reqs \<noteq> [] \<Longrightarrow>
   ltx_gather E infile reqs l = (Finished (Inl (LtxE DESYNC_ERROR)), l)"
  by (simp add: ltx_gather_def send_prepare_def)

lemma desynced_send:
  "lc_ltx s = Some l \<Longrightarrow> lx_running (ll_conn l) \<Longrightarrow> lx_desynced (ll_conn l) \<Longrightarrow> reqs \<noteq> [] \<Longrightarrow>
   send_requests E reqs s =
     (Finished (Inl (CommunicationE (''LTX error: '' @ DESYNC_ERROR))), s)"
  by (cases s) (simp add: send_requests_def desynced_gather communication_def)

text \<open>No operation of the channel gets out of this state: they all fail and change nothing.\<close>

definition wedged :: "ltx_channel \<Rightarrow> bool" where
  "wedged s \<longleftrightarrow>
     (\<forall>E others. \<exists>e. ltx_stop E others s = (Finished (Inl e), s)) \<and>
     (\<forall>E. \<exists>e. ltx_communicate E s = (Finished (Inl e), s)) \<and>
     (\<forall>E. \<exists>e. ltx_ping E s = (Finished (Inl e), s)) \<and>
     (\<forall>E command cwd vars. \<exists>e. ltx_run_command E command cwd vars s = (Finished (Inl e), s)) \<and>
     (\<forall>E path. \<exists>e. ltx_fetch_file E path s = (Finished (Inl e), s))"

lemma command_requests_nonempty: "command_requests slot command cwd vars = Inr reqs \<Longrightarrow> reqs \<noteq> []"
  by (auto simp: command_requests_def and_then_Ok)

lemma desynced_wedged:
  assumes "lc_ltx s = Some l" and "lx_running (ll_conn l)" and "lx_desynced (ll_conn l)" and "lc_slots s \<noteq> []"
  shows "wedged s"
proof -
  have active: "ltx_active s" using assms(1,2) by (simp add: ltx_active_def)
  note send = desynced_send [OF assms(1-3)]
  have "\<exists>e. ltx_stop E others s = (Finished (Inl e), s)" for E others
    using active assms(4) by (simp add: ltx_stop_def kill_in_flight_def send)
  moreover have "\<exists>e. ltx_communicate E s = (Finished (Inl e), s)" for E
    using active by (simp add: ltx_communicate_def)
  moreover have "\<exists>e. ltx_ping E s = (Finished (Inl e), s)" for E
    using active by (simp add: ltx_ping_def send)
  moreover have "\<exists>e. ltx_run_command E command cwd vars s = (Finished (Inl e), s)" for E command cwd vars
  proof -
    obtain r slots where r: "reserve_slot (lc_slots s) = (r, slots)" by fastforce
    show ?thesis
    proof (cases r)
      case (Inl e)
      then show ?thesis using active r by (simp add: ltx_run_command_def)
    next
      case (Inr slot)
      note slot = reserve_slot_Ok [OF r [unfolded Inr]]
      let ?s = "s\<lparr>lc_slots := slots\<rparr>"
      have "\<exists>e. execute_on_slot E slot command cwd vars ?s = (Finished (Inl e), ?s)"
      proof (cases "command_requests slot command cwd vars")
        case (Inr requests)
        have "lc_ltx ?s = Some l" using assms(1) by simp
        from desynced_send [OF this assms(2,3) command_requests_nonempty [OF Inr]] show ?thesis
          using Inr by (simp add: execute_on_slot_def)
      qed (simp add: execute_on_slot_def)
      then obtain e where "execute_on_slot E slot command cwd vars ?s = (Finished (Inl e), ?s)" ..
      moreover have "release_slot slot slots = lc_slots s" using slot release_reserved by simp
      ultimately show ?thesis using active r Inr by (simp add: ltx_run_command_def)
    qed
  qed
  moreover have "\<exists>e. ltx_fetch_file E path s = (Finished (Inl e), s)" for E path
    using active by (auto simp: ltx_fetch_file_def send split: sum.splits)
  ultimately show ?thesis by (simp add: wedged_def)
qed

lemma push_pending_frame [simp]:
  "lx_running (snd (push_pending rs c)) = lx_running c" "lx_desynced (snd (push_pending rs c)) = lx_desynced c"
  by (simp_all add: push_pending_spec)

lemma still_writing_link:
  assumes "ltx_gather E infile reqs l = (Still_Writing, l1)"
  shows "lx_running (ll_conn l1)"
proof -
  have no: "gather_wait rd n ids reads m \<noteq> (Still_Writing, l1)" for rd n ids reads m
  proof (induction rd n ids reads m rule: gather_wait.induct)
    case (1 rd n ids reads m)
    then show ?case
      by (auto simp: gather_wait.simps [of rd n ids reads m] split: option.splits list.splits poll_state.splits)
  qed
  from assms obtain bytes ids c out where p: "send_prepare (le_pack E) reqs (ll_conn l) = Inr bytes"
    and r: "send_register reqs (ll_conn l) = (Inr ids, c)" and l1: "l1 = l\<lparr>ll_conn := put_wire out c\<rparr>"
    using no by (auto simp: ltx_gather_def split: sum.splits prod.splits option.splits)
  have "lx_running (ll_conn l)" using p by (auto simp: send_prepare_def split: if_splits)
  then show ?thesis using send_register_spec [OF r] l1 by (simp add: put_wire_def)
qed

text \<open>
  A command that is cancelled while its requests are being written wedges the channel: it
  stays active and desynchronized with a slot reserved, so that stopping, starting, pinging, running
  a command and fetching a file all fail and change nothing, although the error asks to reconnect.
\<close>

theorem interrupted_send_wedges_channel:
  assumes "fst (ltx_run_command E command cwd vars s) = Still_Writing"
    and "run_command_dropped E command cwd vars s = Some s'"
  shows "ltx_active s' \<and> wedged s'"
proof -
  obtain s1 where run: "ltx_run_command E command cwd vars s = (Still_Writing, s1)"
    using assms(1) by (cases "ltx_run_command E command cwd vars s") auto
  have s': "s' = s1\<lparr>lc_ltx := map_option (drop_gather (Still_Writing :: unit outcome)) (lc_ltx s1)\<rparr>"
    using assms(2) run by (cases "lc_ltx s1") (auto simp: run_command_dropped_def)
  obtain slot requests where
    sr: "send_requests E requests (s\<lparr>lc_slots := lc_slots s @ [slot]\<rparr>) = (Still_Writing, s1)"
    using run_command_unfinished [OF run] by auto
  then obtain l l1 where g: "ltx_gather E (lc_infile s) requests l = (Still_Writing, l1)" and l1: "lc_ltx s1 = Some l1"
    by (auto simp: send_requests_def split: option.splits prod.splits)
  have slots: "lc_slots s' \<noteq> []" using send_requests_frame [OF sr] s' by simp
  have link: "lc_ltx s' = Some (drop_gather (Still_Writing :: unit outcome) l1)" using s' l1 by simp
  have on: "lx_running (ll_conn (drop_gather (Still_Writing :: unit outcome) l1))"
    and off: "lx_desynced (ll_conn (drop_gather (Still_Writing :: unit outcome) l1))"
    using still_writing_link [OF g] by (simp_all add: send_guard_drop_def)
  have "ltx_active s'" using link on by (simp add: ltx_active_def)
  with desynced_wedged [OF link on off slots] show ?thesis by blast
qed

lemma interrupted_send_wedges_channel_witness: "wedged (sleep_sent True [])"
proof -
  have run: "ltx_run_command (silent_env [Would_block]) ''sleep 9'' None None connected_channel
      = (Still_Writing, sleep_sent False [])"
    by (simp add: run_command_defs first_slot demo_channel ltx_active_def)
  then have "run_command_dropped (silent_env [Would_block]) ''sleep 9'' None None connected_channel
      = Some (sleep_sent True [])"
    by (simp add: run_command_dropped_def) (simp add: demo_channel send_guard_drop_def)
  from interrupted_send_wedges_channel [OF _ this] run show ?thesis by simp
qed

section \<open>The result of a command\<close>

lemma drain_queue_inv:
  "queue_inv reqs c \<Longrightarrow> drain_frames rd n buf c = Some (rest, d) \<Longrightarrow> queue_inv reqs d"
proof (induction n arbitrary: buf c)
  case (Suc n)
  show ?case
  proof (cases rd buf rule: decode_cases)
    case (corrupt e)
    then show ?thesis using Suc.prems queue_inv_same [OF fatal_same] by (auto simp: drain_error)
  next
    case (frame msg k)
    then show ?thesis
      using Suc queue_inv_dispatch [OF Suc.prems(1), of msg] by (auto simp: drain_step split: if_splits)
  qed (use Suc.prems in \<open>simp add: drain_wait\<close>)
qed simp

lemma queue_inv_running [simp]: "queue_inv reqs (c\<lparr>lx_running := b\<rparr>) = queue_inv reqs c"
  by (simp add: queue_inv_def)

lemma poll_read_queue_inv:
  assumes "queue_inv reqs c" and "poll_read rd r buf c = Some p"
  shows "case p of Polling rest d \<Rightarrow> queue_inv reqs d | Poll_Ended d \<Rightarrow> queue_inv reqs d"
  using assms drain_queue_inv [OF assms(1)] queue_inv_same [OF fatal_same]
  by (auto simp: poll_read_def poll_end_def Let_def split: if_splits sum.splits option.splits prod.splits)

lemma gather_wait_replies:
  "gather_wait rd n ids reads l = (Finished (Inr rs), l1) \<Longrightarrow> queue_inv reqs (ll_conn l) \<Longrightarrow> distinct ids \<Longrightarrow>
   list_all2 (\<lambda>i a. answers (reqs ! unat i) a) ids rs"
proof (induction rd n ids reads l rule: gather_wait.induct)
  case (1 rd n ids reads l)
  show ?case
  proof (cases "gather_round n ids (ll_conn l)")
    case (Some p)
    then obtain c where p: "gather_round n ids (ll_conn l) = Some (Inr rs, c)"
      using "1.prems"(1) by (cases p) (auto simp: gather_wait_steps)
    have d: "distinct (map fst (lx_replies (ll_conn l)))" using "1.prems"(2) by (simp add: queue_inv_def)
    from gather_round_spec [OF p d "1.prems"(3)] have rs: "rs = map (\<lambda>i. the (map_of (lx_replies (ll_conn l)) i)) ids"
      and sub: "set ids \<subseteq> fst ` set (lx_replies (ll_conn l))" by auto
    have "answers (reqs ! unat i) (the (map_of (lx_replies (ll_conn l)) i))" if "i \<in> set ids" for i
    proof -
      have "i \<in> fst ` set (lx_replies (ll_conn l))" using sub that by blast
      then obtain a where "(i, a) \<in> set (lx_replies (ll_conn l))" by force
      then show ?thesis using d "1.prems"(2) by (auto simp: queue_inv_def)
    qed
    then show ?thesis by (simp add: rs list_all2_conv_all_nth)
  next
    case None
    then obtain r rest where reads: "reads = r # rest"
      using "1.prems"(1) by (cases reads) (auto simp: gather_wait_steps)
    show ?thesis
    proof (cases "poll_read rd r (ll_buffer l) (ll_conn l)")
      case (Some q)
      then show ?thesis
        using "1.prems" "1.IH" [OF None reads Some] None reads poll_read_queue_inv [OF "1.prems"(2) Some]
        by (cases q) (auto simp: gather_wait_steps)
    qed (use "1.prems" None reads in \<open>auto simp: gather_wait_steps\<close>)
  qed
qed

lemma pack_error: "pack_all pk rs = Inl e \<Longrightarrow> \<exists>m. e = LtxE m"
proof (induction rs)
  case (Cons r rs)
  have "pack pk r = Inl d \<Longrightarrow> \<exists>m. d = LtxE m" for d
    by (cases r) (auto simp: pack_defs split: sum.splits)
  with Cons show ?case by (cases "pack pk r"; cases "pack_all pk rs") auto
qed simp

lemma write_error: "write_all_fifo evs bytes = (Some (Inl e), out) \<Longrightarrow> \<exists>m. e = LtxE m"
  by (induction evs bytes arbitrary: e out rule: write_all_fifo.induct)
     (auto simp: map_prod_def split: if_splits prod.splits)

lemma open_error: "open_infile path evs = Some (Inl e) \<Longrightarrow> \<exists>m. e = LtxE m"
  by (induction path evs rule: open_infile.induct) (auto simp: not_connected_def split: if_splits)

lemma gather_wait_error: "gather_wait rd n ids reads l = (Finished (Inl e), l1) \<Longrightarrow> \<exists>m. e = LtxE m"
proof (induction rd n ids reads l rule: gather_wait.induct)
  case (1 rd n ids reads l)
  show ?case
  proof (cases "gather_round n ids (ll_conn l)")
    case (Some p)
    then show ?thesis
      using "1.prems"
      by (cases p) (auto simp: gather_wait_steps gather_round_def not_connected_def split: option.splits if_splits prod.splits)
  next
    case None
    then obtain r rest where reads: "reads = r # rest"
      using "1.prems" by (cases reads) (auto simp: gather_wait_steps)
    show ?thesis
    proof (cases "poll_read rd r (ll_buffer l) (ll_conn l)")
      case (Some q)
      then show ?thesis
        using "1.prems" "1.IH" [OF None reads Some] None reads by (cases q) (auto simp: gather_wait_steps)
    qed (use "1.prems" None reads in \<open>auto simp: gather_wait_steps\<close>)
  qed
qed

lemma ltx_gather_error: "ltx_gather E infile reqs l = (Finished (Inl e), l1) \<Longrightarrow> \<exists>m. e = LtxE m"
  by (auto simp: ltx_gather_def send_prepare_def not_connected_def send_register_def write_infile_def Let_def
      dest!: pack_error write_error open_error gather_wait_error
      split: sum.splits prod.splits option.splits if_splits)

lemma ltx_gather_replies:
  assumes "ltx_gather E infile reqs l = (Finished (Inr rs), l1)" and "queue_inv before (ll_conn l)"
    and "\<forall>r \<in> set reqs. within_caps r"
  shows "list_all2 answers reqs rs"
proof -
  from assms(1) obtain bytes ids c out where reg: "send_register reqs (ll_conn l) = (Inr ids, c)"
    and w: "gather_wait (le_reader E) (length reqs) ids (le_reads E bytes)
       (l\<lparr>ll_conn := send_guard_drop True (put_wire out c)\<rparr>) = (Finished (Inr rs), l1)"
    by (auto simp: ltx_gather_def split: sum.splits prod.splits option.splits)
  note spec = send_register_spec [OF reg]
  let ?n = "lx_next_id (ll_conn l)"
  have bound: "unat ?n + length reqs < 2 ^ 64" and ids: "ids = map (\<lambda>k. ?n + of_nat k) [0..<length reqs]"
    using spec by blast+
  have n: "unat ?n = length before" using assms(2) by (simp add: queue_inv_def)
  have inv: "queue_inv (before @ reqs) (send_guard_drop True (put_wire out c))"
    using queue_inv_send [OF assms(2) reg assms(3)] queue_inv_same [OF guard_wire_same] by simp
  have "list_all2 (\<lambda>i a. answers ((before @ reqs) ! unat i) a) ids rs"
    using gather_wait_replies [OF w] inv next_ids(1) [OF bound] ids by simp
  moreover have "(before @ reqs) ! unat (?n + of_nat k) = reqs ! k" if "k < length reqs" for k
    using that bound unat_plus_nat [of ?n k] n by (simp add: nth_append)
  ultimately show ?thesis by (auto simp: ids list_all2_conv_all_nth)
qed

lemma env_error: "env_requests slot vars = Inl e \<Longrightarrow> \<exists>m. e = LtxE m"
proof (induction slot vars rule: env_requests.induct)
  case (2 slot key val vars)
  then show ?case
    by (cases "req_env (Some slot) key val"; cases "env_requests slot vars")
       (auto simp: req_env_def check_broadcast_slot_def split: if_splits)
qed simp

lemma env_requests_caps: "env_requests slot vars = Inr rs \<Longrightarrow> \<forall>r \<in> set rs. within_caps r"
  by (induction slot vars arbitrary: rs rule: env_requests.induct)
     (auto simp: and_then_Ok req_env_def split: if_splits)

lemma command_requests_spec:
  assumes "command_requests slot command cwd vars = Inr rs"
  shows "(\<forall>r \<in> set rs. within_caps r) \<and> (\<exists>q. last rs = R_Execute q \<and> ex_slot q = slot \<and> ex_command q = command)"
  using assms env_requests_caps
  by (auto simp: command_requests_def and_then_Ok req_execute_with_stdout_def execute_inner_def req_cwd_def
      split: option.splits if_splits)

text \<open>
  A command that finishes gives its slot back, and what it returns is typed: the command it
  ran, an \<open>i32\<close> status and an output within the cap. The branch for a reply of another kind is never
  taken, whatever the peer sends.
\<close>

theorem run_command_result:
  assumes "ltx_run_command E command cwd vars s = (Finished res, s')"
    and "lc_ltx s = Some l" and "queue_inv before (ll_conn l)"
  shows "lc_slots s' = lc_slots s \<and>
     (case res of
        Inr (Some r) \<Rightarrow> cr_command r = command \<and> in_i32 (cr_returncode r) \<and> length (cr_stdout r) \<le> LTX_STDOUT_BYTES
      | Inr None \<Rightarrow> False
      | Inl e \<Rightarrow> e \<noteq> CommunicationE ''LTX returned an unexpected reply for EXEC'')"
proof (cases "command = [] \<or> \<not> ltx_active s")
  case True
  then show ?thesis using assms(1) by (cases "command = []") (auto simp: ltx_run_command_def)
next
  case False
  obtain r slots where reserve: "reserve_slot (lc_slots s) = (r, slots)" by fastforce
  show ?thesis
  proof (cases r)
    case (Inl e)
    then show ?thesis
      using assms(1) False reserve
      by (auto simp: ltx_run_command_def reserve_slot_def split: option.splits)
  next
    case (Inr slot)
    note slot = reserve_slot_Ok [OF reserve [unfolded Inr]]
    let ?s = "s\<lparr>lc_slots := slots\<rparr>"
    obtain out s1 where x: "execute_on_slot E slot command cwd vars ?s = (Finished out, s1)"
      and res: "res = and_then out (\<lambda>r. Ok (Some r))"
      and s': "s' = s1\<lparr>lc_slots := release_slot slot (lc_slots s1)\<rparr>"
      using assms(1) False reserve Inr
      by (auto simp: ltx_run_command_def split: outcome.splits prod.splits)
    have slots: "lc_slots s' = lc_slots s"
      using execute_frame_slots [OF x] s' slot release_reserved by simp
    show ?thesis
    proof (cases "command_requests slot command cwd vars")
      case (Inl e)
      then have "\<exists>m. e = LtxE m"
        by (cases cwd; cases vars)
           (auto simp: command_requests_def req_execute_with_stdout_def execute_inner_def req_cwd_def
             check_broadcast_slot_def and_then_Err dest!: env_error split: if_splits sum.splits)
      then show ?thesis using x res Inl slots by (auto simp: execute_on_slot_def)
    next
      case (Inr requests)
      note reqs = command_requests_spec [OF Inr]
      obtain g l1 where g: "ltx_gather E (lc_infile s) requests l = (Finished g, l1)"
        and out: "out = and_then (communication g) (result_of_replies E command)"
        using x Inr assms(2) by (auto simp: execute_on_slot_def send_requests_def split: prod.splits)
      show ?thesis
      proof (cases g)
        case (Inl e)
        then show ?thesis using ltx_gather_error [of E "lc_infile s" requests l e l1] g out res slots
          by (auto simp: communication_def)
      next
        case replies: (Inr rs)
        have all: "list_all2 answers requests rs"
          using ltx_gather_replies [OF g [unfolded replies] assms(3)] reqs by blast
        have ne: "requests \<noteq> []" by (rule command_requests_nonempty [OF Inr])
        then have "rs \<noteq> []" using all by auto
        then have "answers (last requests) (last rs)"
          using all ne by (metis list_all2_conv_all_nth last_conv_nth list_all2_lengthD diff_less length_greater_0_conv zero_less_one)
        then obtain t c st o1 where "last rs = Reply_Execute t c st o1" "in_i32 st" "length o1 \<le> LTX_STDOUT_BYTES"
          using reqs by (cases "last rs") auto
        then show ?thesis
          using out res slots replies \<open>rs \<noteq> []\<close> by (simp add: communication_def result_of_replies_def)
      qed
    qed
  qed
qed

text \<open>A peer that answers the command \<open>id\<close> on slot 0 with its output and status.\<close>

abbreviation id_bytes :: string where
  "id_bytes \<equiv> [CHR 0x92, CHR 0x07, CHR 0x00, CHR 0x94, CHR 0x09, CHR 0x00, CHR 0x05, CHR 0xA5,
      CHR ''u'', CHR ''i'', CHR ''d'', CHR ''='', CHR ''0'', CHR 0x95, CHR 0x08, CHR 0x00, CHR 0x06, CHR 0x01, CHR 0x03]"

definition answering_env :: ltx_env where
  "answering_env = (silent_env [Wrote 1])\<lparr>le_reads := \<lambda>_. [Inr id_bytes]\<rparr>"

definition id_request :: "bool \<Rightarrow> string list \<Rightarrow> string \<Rightarrow> request" where
  "id_request echoed sent out = R_Execute \<lparr> ex_completed = False, ex_echoed = echoed, ex_slot = 0,
     ex_command = ''id'', ex_stdout_tx = Some sent, ex_stdout = out \<rparr>"

definition id_conn :: "pending list \<Rightarrow> (u64 \<times> reply) list \<Rightarrow> ltx_conn" where
  "id_conn ps rs = ltx_new\<lparr>lx_running := True, lx_next_id := 1, lx_wire := [CHR 0x90],
     lx_pending := ps, lx_replies := rs\<rparr>"

abbreviation id_pending :: "bool \<Rightarrow> string list \<Rightarrow> string \<Rightarrow> ltx_conn" where
  "id_pending echoed sent out \<equiv> id_conn [\<lparr> pe_id = 0, pe_request = id_request echoed sent out \<rparr>] []"

lemma visit_seq_numeral:
  "visit_seq rd (numeral k) acc used buf =
     and_then (rd buf) (\<lambda>(t, j).
       and_then (field_visit t) (\<lambda>f.
         if MAX_FIELDS < length acc + 1 then Err (Corrupt ''message has too many fields'')
         else visit_seq rd (pred_numeral k) (acc @ [f]) (used + j) (drop j buf)))"
  by (simp add: numeral_eq_Suc)

lemmas small_decode = decode_one_def frame_deserialize_def small_reader_def visit_seq_numeral
  check_field_len_def MAX_FIELDS_def MAX_FIELD_BYTES_def

lemma id_frames:
  "decode_one small_reader id_bytes
   = Inr (Some ([F_U64 7, F_U64 0], 3))"
  "decode_one small_reader [CHR 0x94, CHR 0x09, CHR 0x00, CHR 0x05, CHR 0xA5,
      CHR ''u'', CHR ''i'', CHR ''d'', CHR ''='', CHR ''0'', CHR 0x95, CHR 0x08, CHR 0x00, CHR 0x06, CHR 0x01, CHR 0x03]
   = Inr (Some ([F_U64 9, F_U64 0, F_U64 5, F_Str ''uid=0''], 10))"
  "decode_one small_reader [CHR 0x95, CHR 0x08, CHR 0x00, CHR 0x06, CHR 0x01, CHR 0x03]
   = Inr (Some ([F_U64 8, F_U64 0, F_U64 6, F_U64 1, F_U64 3], 6))"
  by (simp_all add: small_decode)

lemma id_dispatched:
  "dispatch [F_U64 7, F_U64 0] (id_pending False [] []) = id_pending True [] []"
  "dispatch [F_U64 9, F_U64 0, F_U64 5, F_Str ''uid=0''] (id_pending True [] []) = id_pending True [''uid=0''] ''uid=0''"
  "dispatch [F_U64 8, F_U64 0, F_U64 6, F_U64 1, F_U64 3] (id_pending True [''uid=0''] ''uid=0'')
   = id_conn [] [(0, Reply_Execute 6 1 3 ''uid=0'')]"
  by (simp_all add: id_conn_def id_request_def ltx_new_def dispatch_def dispatch_feed_def execute_feed_def
      log_feed_def result_feed_def frame_targets_slot_def frame_opcode_def get_field_def field_at_def
      opcodes LTX_STDOUT_BYTES_def i32_of_def in_i32_def in_i64_def)

lemma id_not_fatal: "lx_fatal (id_conn ps rs) = None" "lx_contended (id_conn ps rs) = []" "\<not> lx_stop (id_conn ps rs)"
  by (simp_all add: id_conn_def ltx_new_def)

lemma id_drained:
  "drain_frames small_reader (Suc (Suc (Suc (Suc 0))))
     id_bytes
     (id_pending False [] []) = Some ([], id_conn [] [(0, Reply_Execute 6 1 3 ''uid=0'')])"
  by (simp add: drain_step [OF id_frames(1)] drain_step [OF id_frames(2)] drain_step [OF id_frames(3)]
      id_dispatched id_not_fatal drain_wait decode_one_def)

lemma id_answered:
  "ltx_run_command answering_env ''id'' None None connected_channel =
   (Finished (Inr (Some \<lparr> cr_command = ''id'', cr_returncode = 3, cr_stdout = ''uid=0'', cr_exec_time = F64_Fin 1 \<rparr>)),
    ltx_channel_new\<lparr>lc_ltx := Some \<lparr> ll_conn = id_conn [] [], ll_buffer = [] \<rparr>\<rparr>)"
proof -
  have "poll_read small_reader (Inr id_bytes) [] (id_pending False [] []) =
      Some (if lx_fatal (id_conn [] [(0, Reply_Execute 6 1 3 ''uid=0'')]) \<noteq> None
        then poll_end (id_conn [] [(0, Reply_Execute 6 1 3 ''uid=0'')])
        else Polling [] (id_conn [] [(0, Reply_Execute 6 1 3 ''uid=0'')]))"
    by (rule poll_read_bytes [OF small_reader_ok id_not_fatal(2,3)], simp, simp add: MAX_BUFFERED_BYTES_def,
        simp only: append_Nil, rule id_drained)
  then have fed: "poll_read small_reader (Inr id_bytes) [] (id_pending False [] []) =
      Some (Polling [] (id_conn [] [(0, Reply_Execute 6 1 3 ''uid=0'')]))"
    by (simp only: id_not_fatal) simp
  show ?thesis
    using fed
    by (simp add: run_command_defs first_slot demo_channel ltx_active_def answering_env_def id_conn_def
        id_request_def gather_wait_steps gather_round_def communication_def result_of_replies_def release_slot_def)
qed

lemma run_command_result_witness:
  "in_i32 3 \<and> length ''uid=0'' \<le> LTX_STDOUT_BYTES"
proof -
  have "lc_ltx connected_channel = Some \<lparr> ll_conn = ltx_new\<lparr>lx_running := True\<rparr>, ll_buffer = [] \<rparr>"
    by (simp add: demo_channel)
  moreover have "queue_inv [] (ll_conn \<lparr> ll_conn = ltx_new\<lparr>lx_running := True\<rparr>, ll_buffer = [] \<rparr>)"
    by (simp add: queue_inv_def ltx_new_def)
  ultimately show ?thesis using run_command_result [OF id_answered] by simp
qed

section \<open>Overlapping downloads\<close>

text \<open>
  Two downloads that are pending together mix: \<open>DATA\<close> and the closing \<open>GET_FILE\<close> frames name
  no request, so the frames of the first file complete both, and the second caller receives the
  contents of the first file under its own path.
\<close>

theorem overlapping_downloads_mix:
  assumes "req_get_file a = Inr ra" and "req_get_file b = Inr rb"
    and "lx_pending c = [\<lparr> pe_id = i, pe_request = ra \<rparr>, \<lparr> pe_id = j, pe_request = rb \<rparr>]" and "i \<noteq> j"
    and "lx_replies c = []" and "length content \<le> MAX_FILE_BYTES"
  shows "let d = dispatch (get_file_echo a) (dispatch (data_frame content) c)
    in lx_pending d = [] \<and> lx_replies d = [(i, Reply_GetFile a content), (j, Reply_GetFile b content)] \<and>
       lx_fatal d = lx_fatal c"
proof -
  let ?get = "\<lambda>path got. R_GetFile \<lparr> gf_completed = False, gf_path = path, gf_data = got \<rparr>"
  have r: "ra = ?get a []" "rb = ?get b []"
    using assms(1,2) by (auto simp: req_get_file_def split: if_splits)
  have more: "feed (?get path []) (data_frame content) = (Inr None, ?get path content)" for path
    using assms(6) by (simp add: get_file_feed_def data_frame_def field_at_def get_field_def)
  have echo: "fst (feed (?get path content) (get_file_echo a)) = Inr (Some (Reply_GetFile path content))" for path
    by (simp add: get_file_feed_def get_file_echo_def)
  have d1: "dispatch (data_frame content) c =
      c\<lparr>lx_pending := [\<lparr> pe_id = i, pe_request = ?get a content \<rparr>, \<lparr> pe_id = j, pe_request = ?get b content \<rparr>]\<rparr>"
    using assms(3,5) more r
    by (simp add: dispatch_def dispatch_feed_def data_frame_def opcodes)
  obtain qa qb where q: "feed (?get a content) (get_file_echo a) = (Inr (Some (Reply_GetFile a content)), qa)"
    "feed (?get b content) (get_file_echo a) = (Inr (Some (Reply_GetFile b content)), qb)"
    using echo by (metis prod.collapse)
  have "dispatch (get_file_echo a) c' = dispatch_feed (get_file_echo a) c'" for c'
    by (simp add: dispatch_def get_file_echo_def opcodes)
  then show ?thesis
    unfolding d1 using q assms(4,5) by (simp add: dispatch_feed_def Let_def)
qed

lemma overlapping_downloads_mix_witness:
  "lx_replies (dispatch (get_file_echo ''/a'') (dispatch (data_frame ''A'')
     (ltx_new\<lparr>lx_running := True, lx_next_id := 2, lx_pending :=
        [\<lparr> pe_id = 0, pe_request = R_GetFile \<lparr> gf_completed = False, gf_path = ''/a'', gf_data = [] \<rparr> \<rparr>,
         \<lparr> pe_id = 1, pe_request = R_GetFile \<lparr> gf_completed = False, gf_path = ''/b'', gf_data = [] \<rparr> \<rparr>]\<rparr>)))
   = [(0, Reply_GetFile ''/a'' ''A''), (1, Reply_GetFile ''/b'' ''A'')]"
  using overlapping_downloads_mix [of "''/a''" _ "''/b''" _ _ 0 1 "''A''"]
  by (simp add: req_get_file_def ltx_new_def MAX_FILE_BYTES_def Let_def)

end
