(* ===== verification/Shell_Words.thy ===== *)
theory Shell_Words
  imports Core_Types "HOL-Library.Char_ord" "HOL-Library.List_Lexorder"
begin

text \<open>
  Quoting for a shell and splitting into words, as \<open>kirk-com-qemu\<close> (\<open>expect.rs\<close>) and \<open>kirk-com-ssh\<close>
  (\<open>config.rs\<close>) do it. The splitters go over characters, so the bytes of a string are first grouped
  into the characters they encode.
\<close>

section \<open>Characters of a string\<close>

definition char_width :: "char \<Rightarrow> nat" where
  "char_width c =
     (let n = code c in if n < 0xC0 then 1 else if n < 0xE0 then 2 else if n < 0xF0 then 3 else 4)"

lemma char_width_pos [simp]: "0 < char_width c"
  by (simp add: char_width_def Let_def)

text \<open>\<open>str::chars\<close>: each character as its bytes.\<close>

function chars :: "string \<Rightarrow> string list" where
  "chars [] = []"
| "chars (c # s) = take (char_width c) (c # s) # chars (drop (char_width c) (c # s))"
  by pat_completeness auto
termination
  by (relation "measure length") (auto simp: drop_Cons')

declare chars.simps(2) [simp del]

definition char_ok :: "string \<Rightarrow> bool" where
  "char_ok ch \<longleftrightarrow> ch \<noteq> [] \<and> length ch = char_width (hd ch) \<and> list_all is_cont_byte (tl ch)"

text \<open>Every Rust string is well-formed UTF-8; this is the part of it the splitters rely on.\<close>

definition utf8_wf :: "string \<Rightarrow> bool" where
  "utf8_wf s \<longleftrightarrow> list_all char_ok (chars s)"

lemma concat_chars [simp]: "concat (chars s) = s"
proof (induction s rule: chars.induct)
  case (2 c s)
  have "concat (chars (c # s)) = take (char_width c) (c # s) @ drop (char_width c) (c # s)"
    using 2 by (simp add: chars.simps)
  then show ?case by (simp only: append_take_drop_id)
qed simp

lemma chars_char:
  assumes "char_ok ch"
  shows "chars (ch @ s) = ch # chars s"
proof -
  from assms obtain c r where ch: "ch = c # r" by (cases ch) (auto simp: char_ok_def)
  then have "char_width c = Suc (length r)" using assms by (simp add: char_ok_def)
  then show ?thesis by (simp add: ch chars.simps)
qed

lemma chars_concat: "list_all char_ok cs \<Longrightarrow> chars (concat cs @ s) = cs @ chars s"
  by (induction cs) (auto simp: chars_char)

lemma chars_append: "utf8_wf a \<Longrightarrow> chars (a @ b) = chars a @ chars b"
  using chars_concat [of "chars a" b] by (simp add: utf8_wf_def)

lemma utf8_wf_append: "utf8_wf a \<Longrightarrow> utf8_wf b \<Longrightarrow> utf8_wf (a @ b)"
  using chars_append [of a b] by (simp add: utf8_wf_def)

lemma utf8_wf_concat: "list_all char_ok cs \<Longrightarrow> utf8_wf (concat cs)"
  using chars_concat [of cs "[]"] by (simp add: utf8_wf_def)

lemma char_ok_ascii: "code c < 128 \<Longrightarrow> char_ok [c]"
  by (simp add: char_ok_def char_width_def Let_def)

lemma chars_ascii: "list_all (\<lambda>c. code c < 128) s \<Longrightarrow> chars s = map (\<lambda>c. [c]) s"
  by (induction s) (auto simp: chars.simps char_width_def Let_def)

lemma utf8_wf_ascii: "list_all (\<lambda>c. code c < 128) s \<Longrightarrow> utf8_wf s"
  by (simp add: utf8_wf_def chars_ascii list.pred_map o_def char_ok_ascii list_all_iff)

section \<open>Lossy decoding\<close>

text \<open>
  \<open>String::from_utf8_lossy\<close>: every maximal part that starts a character and does not complete it
  becomes one replacement character. \<open>seq_width\<close> is the length a first byte announces (0 for a byte
  that starts nothing) and \<open>conts_taken\<close> the bytes that continue it.
\<close>

definition seq_width :: "nat \<Rightarrow> nat" where
  "seq_width b =
     (if b < 0x80 then 1
      else if 0xC2 \<le> b \<and> b \<le> 0xDF then 2
      else if 0xE0 \<le> b \<and> b \<le> 0xEF then 3
      else if 0xF0 \<le> b \<and> b \<le> 0xF4 then 4
      else 0)"

definition second_ok :: "nat \<Rightarrow> nat \<Rightarrow> bool" where
  "second_ok b x \<longleftrightarrow>
     (if b = 0xE0 then 0xA0 else if b = 0xF0 then 0x90 else 0x80) \<le> x \<and>
     x \<le> (if b = 0xED then 0x9F else if b = 0xF4 then 0x8F else 0xBF)"

definition conts_taken :: "nat \<Rightarrow> string \<Rightarrow> nat" where
  "conts_taken b s =
     (case s of
        [] \<Rightarrow> 0
      | x # xs \<Rightarrow>
          if 2 \<le> seq_width b \<and> second_ok b (code x)
          then 1 + length (takeWhile is_cont_byte (take (seq_width b - 2) xs)) else 0)"

definition replacement :: string where
  "replacement = [CHR 0xEF, CHR 0xBF, CHR 0xBD]"

function lossy :: "string \<Rightarrow> string" where
  "lossy [] = []"
| "lossy (c # s) =
     (let k = conts_taken (code c) s
      in (if k + 1 = seq_width (code c) then c # take k s else replacement) @ lossy (drop k s))"
  by pat_completeness auto
termination
  by (relation "measure length") auto

declare lossy.simps(2) [simp del]

lemma lossy_ascii: "list_all (\<lambda>c. code c < 128) s \<Longrightarrow> lossy s = s"
proof (induction s)
  case (Cons c s)
  then have "seq_width (code c) = 1" by (simp add: seq_width_def)
  then have "conts_taken (code c) s = 0" by (simp add: conts_taken_def split: list.splits)
  then show ?case using Cons \<open>seq_width (code c) = 1\<close> by (simp add: lossy.simps)
qed simp

lemma seq_width_char: "0 < seq_width (code c) \<Longrightarrow> seq_width (code c) = char_width c"
  by (simp add: seq_width_def char_width_def Let_def split: if_splits)

lemma conts_taken_le: "conts_taken b s \<le> length s"
proof (cases s)
  case (Cons x xs)
  have "length (takeWhile is_cont_byte (take n xs)) \<le> length xs" for n
    using length_takeWhile_le [of is_cont_byte "take n xs"] by simp
  then show ?thesis using Cons by (simp add: conts_taken_def)
qed (simp add: conts_taken_def)

lemma second_ok_cont: "second_ok b (code x) \<Longrightarrow> is_cont_byte x"
  by (auto simp: second_ok_def is_cont_byte_def split: if_splits)

lemma conts_taken_cont: "list_all is_cont_byte (take (conts_taken b s) s)"
proof (cases s)
  case (Cons x xs)
  have "list_all is_cont_byte (take (length (takeWhile is_cont_byte (take n xs))) xs)" for n
  proof -
    have "length (takeWhile is_cont_byte (take n xs)) \<le> n"
      using length_takeWhile_le [of is_cont_byte "take n xs"] by simp
    then have "take (length (takeWhile is_cont_byte (take n xs))) xs
        = take (length (takeWhile is_cont_byte (take n xs))) (take n xs)"
      by (simp add: min_absorb1)
    then show ?thesis
      by (metis list_all_iff set_takeWhileD takeWhile_eq_take)
  qed
  then show ?thesis using Cons by (auto simp: conts_taken_def second_ok_cont)
qed simp

lemma lossy_wf: "utf8_wf (lossy s)"
proof (induction s rule: lossy.induct)
  case (2 c s)
  let ?k = "conts_taken (code c) s"
  have rep: "utf8_wf replacement" by code_simp
  have "utf8_wf (c # take ?k s)" if ok: "?k + 1 = seq_width (code c)"
  proof -
    have "?k \<le> length s" by (rule conts_taken_le)
    moreover have "seq_width (code c) = char_width c"
      using ok by (intro seq_width_char) simp
    ultimately have "char_ok (c # take ?k s)"
      using ok conts_taken_cont [of "code c" s] by (simp add: char_ok_def)
    then show ?thesis using utf8_wf_concat [of "[c # take ?k s]"] by simp
  qed
  then have "utf8_wf ((if ?k + 1 = seq_width (code c) then c # take ?k s else replacement) @ lossy (drop ?k s))"
    by (intro utf8_wf_append 2 refl) (use rep in auto)
  then show ?case by (simp add: lossy.simps Let_def)
qed (simp add: utf8_wf_def)

section \<open>Quoting\<close>

abbreviation sq :: char where "sq \<equiv> CHR 0x27"
abbreviation dq :: char where "dq \<equiv> CHR 0x22"
abbreviation backslash :: char where "backslash \<equiv> CHR 0x5C"

text \<open>\<open>str::replace\<close> of the single quote by a closing quote, an escaped one and an opening one.\<close>

definition escape_quotes :: "string \<Rightarrow> string" where
  "escape_quotes s = concat (map (\<lambda>c. if c = sq then [sq, backslash, sq, sq] else [c]) s)"

definition shell_quote :: "string \<Rightarrow> string" where
  "shell_quote arg = (if arg = [] then [sq, sq] else [sq] @ escape_quotes arg @ [sq])"

definition quote_sh :: "string \<Rightarrow> string" where
  "quote_sh val = [sq] @ escape_quotes val @ [sq]"

lemma shell_quote_eq: "shell_quote s = quote_sh s"
  by (simp add: shell_quote_def quote_sh_def escape_quotes_def)

section \<open>Splitting\<close>

text \<open>
  The loop of both splitters: the open quote, whether a word has begun, and the word so far. They
  differ in a backslash at the very end outside quotes, which begins a word for one (\<open>dangling\<close>) and
  not for the other. \<open>None\<close> is an unterminated quote.
\<close>

definition is_space_char :: "string \<Rightarrow> bool" where
  "is_space_char ch \<longleftrightarrow> ws_prefix ch \<noteq> 0"

fun split_chars :: "bool \<Rightarrow> string list \<Rightarrow> char option \<Rightarrow> bool \<Rightarrow> string \<Rightarrow> string list option" where
  "split_chars dangling [] (Some q) in_word cur = None"
| "split_chars dangling [] None in_word cur = Some (if in_word then [cur] else [])"
| "split_chars dangling (ch # cs) (Some q) in_word cur =
     (if ch = [q] then split_chars dangling cs None in_word cur
      else if ch = [backslash] \<and> q = dq then
        (case cs of
           [] \<Rightarrow> split_chars dangling [] (Some q) in_word cur
         | n # rest \<Rightarrow> split_chars dangling rest (Some q) in_word (cur @ n))
      else split_chars dangling cs (Some q) in_word (cur @ ch))"
| "split_chars dangling (ch # cs) None in_word cur =
     (if ch = [sq] \<or> ch = [dq] then split_chars dangling cs (Some (hd ch)) True cur
      else if ch = [backslash] then
        (case cs of
           [] \<Rightarrow> split_chars dangling [] None (in_word \<or> dangling) cur
         | n # rest \<Rightarrow> split_chars dangling rest None True (cur @ n))
      else if is_space_char ch then
        (if in_word then map_option ((#) cur) (split_chars dangling cs None False [])
         else split_chars dangling cs None in_word cur)
      else split_chars dangling cs None True (cur @ ch))"

definition split_options :: "string \<Rightarrow> string list result" where
  "split_options options =
     (case split_chars True (chars options) None False [] of
        None \<Rightarrow> Err (CommunicationE ''Unterminated quote in QEMU options'')
      | Some words \<Rightarrow> Ok words)"

definition split_argv :: "string \<Rightarrow> string list result" where
  "split_argv cmd =
     (case split_chars False (chars cmd) None False [] of
        None \<Rightarrow> Err (CommunicationE ''reset command has an unterminated quote'')
      | Some words \<Rightarrow> Ok words)"

section \<open>A quoted argument is one word\<close>

definition escape_char :: "string \<Rightarrow> string list" where
  "escape_char ch = (if ch = [sq] then [[sq], [backslash], [sq], [sq]] else [ch])"

lemma cont_not_quote: "is_cont_byte c \<Longrightarrow> c \<noteq> sq"
  by (auto simp: is_cont_byte_def)

lemma escape_one: "char_ok ch \<Longrightarrow> escape_quotes ch = concat (escape_char ch)"
proof (cases ch)
  case (Cons c r)
  assume ok: "char_ok ch"
  then have "c = sq \<Longrightarrow> r = []" using Cons by (auto simp: char_ok_def char_width_def)
  moreover have "sq \<notin> set r" using ok Cons by (auto simp: char_ok_def list_all_iff dest: cont_not_quote)
  then have "concat (map (\<lambda>c. if c = sq then [sq, backslash, sq, sq] else [c]) r) = r"
    by (induction r) auto
  ultimately show ?thesis using Cons by (auto simp: escape_quotes_def escape_char_def)
qed (simp add: char_ok_def)

lemma escape_ok: "char_ok ch \<Longrightarrow> list_all char_ok (escape_char ch)"
  by (simp add: escape_char_def char_ok_ascii)

lemma chars_escape:
  assumes "utf8_wf s"
  shows "chars (escape_quotes s @ t) = concat (map escape_char (chars s)) @ chars t"
proof -
  have body: "list_all char_ok cs \<Longrightarrow> chars (escape_quotes (concat cs) @ t) = concat (map escape_char cs) @ chars t" for cs
  proof (induction cs)
    case (Cons ch cs)
    have "escape_quotes (concat (ch # cs)) = escape_quotes ch @ escape_quotes (concat cs)"
      by (simp add: escape_quotes_def)
    also have "\<dots> = concat (escape_char ch) @ escape_quotes (concat cs)" using Cons.prems escape_one by simp
    finally show ?case using Cons escape_ok [of ch] chars_concat [of "escape_char ch"] by simp
  qed (simp add: escape_quotes_def)
  from body [of "chars s"] assms show ?thesis by (simp add: utf8_wf_def)
qed

lemma split_escaped:
  "split_chars d (concat (map escape_char cs) @ rest) (Some sq) True cur =
   split_chars d rest (Some sq) True (cur @ concat cs)"
  by (induction cs arbitrary: cur) (auto simp: escape_char_def)

lemma split_quoted:
  assumes "utf8_wf s"
  shows "split_chars d (chars (quote_sh s @ t)) None w cur = split_chars d (chars t) None True (cur @ s)"
proof -
  have quote: "chars (sq # r) = [sq] # chars r" for r
    using chars_char [of "[sq]" r] by (simp add: char_ok_ascii)
  have "chars (quote_sh s @ t) = [sq] # concat (map escape_char (chars s)) @ [sq] # chars t"
    using chars_escape [OF assms, of "sq # t"] by (simp add: quote_sh_def quote)
  then show ?thesis by (simp add: split_escaped)
qed

text \<open>Characters that neither quote, escape nor separate.\<close>

definition plain_text :: "string \<Rightarrow> bool" where
  "plain_text s \<longleftrightarrow> list_all (\<lambda>c. 33 \<le> code c \<and> code c < 128 \<and> c \<notin> {sq, dq, backslash}) s"

lemma plain_not_space: "33 \<le> code c \<Longrightarrow> code c < 128 \<Longrightarrow> \<not> is_space_char [c]"
  by (simp add: is_space_char_def ws1_def)

lemma split_plain:
  "plain_text s \<Longrightarrow> s \<noteq> [] \<or> w \<Longrightarrow> split_chars d (chars (s @ t)) None w cur = split_chars d (chars t) None True (cur @ s)"
proof (induction s arbitrary: cur w)
  case (Cons c s)
  have "chars ((c # s) @ t) = [c] # chars (s @ t)"
    using chars_char [of "[c]" "s @ t"] Cons.prems(1) by (simp add: char_ok_ascii plain_text_def)
  then show ?case using Cons plain_not_space [of c] by (simp add: plain_text_def)
qed simp

lemma split_space:
  "split_chars d (chars (CHR '' '' # t)) None True cur = map_option ((#) cur) (split_chars d (chars t) None False [])"
proof -
  have "chars (CHR '' '' # t) = '' '' # chars t" using chars_char [of "'' ''" t] by (simp add: char_ok_ascii)
  then show ?thesis by (simp add: is_space_char_def ws1_def)
qed

lemma split_joined:
  "list_all utf8_wf args \<Longrightarrow> split_chars d (chars (join '' '' (map quote_sh args))) None False [] = Some args"
proof (induction args)
  case (Cons a args)
  show ?case
  proof (cases args)
    case Nil
    then show ?thesis using split_quoted [of a d "[]" False "[]"] Cons.prems by simp
  next
    case (Cons b bs)
    then have "join '' '' (map quote_sh (a # args)) = quote_sh a @ CHR '' '' # join '' '' (map quote_sh args)"
      by simp
    then show ?thesis using split_quoted [of a d _ False "[]"] Cons.IH Cons.prems by (simp add: split_space)
  qed
qed simp

text \<open>
  Claim C37: quoting is inverted by splitting. Any arguments, with quotes, blanks, backslashes or
  nothing in them, that are quoted and joined by blanks are read back as the same arguments, by the
  splitter of QEMU options and by the splitter of the SSH reset command.
\<close>

theorem quoted_words_read_back:
  assumes "list_all utf8_wf args"
  shows "split_options (join '' '' (map shell_quote args)) = Inr args \<and>
     split_argv (join '' '' (map quote_sh args)) = Inr args"
  using split_joined [OF assms] by (simp add: split_options_def split_argv_def shell_quote_eq cong: map_cong)

lemma quoted_words_read_back_witness:
  "split_options (join '' '' (map shell_quote [[CHR ''a'', sq, CHR '' '', dq], [], [backslash, CHR 0xC3, CHR 0xA9]]))
     = Inr [[CHR ''a'', sq, CHR '' '', dq], [], [backslash, CHR 0xC3, CHR 0xA9]]"
proof -
  have "list_all utf8_wf [[CHR ''a'', sq, CHR '' '', dq], [], [backslash, CHR 0xC3, CHR 0xA9]]"
    by (simp add: utf8_wf_def chars.simps char_ok_def char_width_def is_cont_byte_def)
  from quoted_words_read_back [OF this] show ?thesis by blast
qed

end
