(* ===== verification/Ssh_Config.thy ===== *)
theory Ssh_Config
  imports Shell_Words Shell_Channel
begin

text \<open>
  Crate \<open>kirk-com-ssh\<close>, \<open>config.rs\<close>: the validated configuration, the remote command line, the probe
  of \<open>MaxSessions\<close> and the output collector with its panic scan.
\<close>

definition DEFAULT_HOST :: string where "DEFAULT_HOST = ''localhost''"
definition DEFAULT_USER :: string where "DEFAULT_USER = ''root''"
definition DEFAULT_PORT :: nat where "DEFAULT_PORT = 22"
definition DEFAULT_KNOWN_HOSTS :: string where "DEFAULT_KNOWN_HOSTS = ''~/.ssh/known_hosts''"
definition DEFAULT_MAX_SESSIONS :: nat where "DEFAULT_MAX_SESSIONS = 10"
definition FETCH_SIZE_CAP :: nat where "FETCH_SIZE_CAP = 16 * 1024 * 1024"
definition IO_TIMEOUT :: nat where "IO_TIMEOUT = 10 * 10 ^ 9"
definition PROBE_TIMEOUT :: nat where "PROBE_TIMEOUT = 5 * 10 ^ 9"
definition PANIC_MARKER :: string where "PANIC_MARKER = ''Kernel panic''"

section \<open>Configuration\<close>

text \<open>The port is an \<open>u16\<close>, kept as the number it is.\<close>

record ssh_config =
  sc_host :: string
  sc_user :: string
  sc_key_file :: "string option"
  sc_password :: "string option"
  sc_port :: nat
  sc_reset_cmd :: "string option"
  sc_sudo :: bool
  sc_known_hosts :: string

definition nonempty :: "str_map \<Rightarrow> string \<Rightarrow> string option" where
  "nonempty cfg key =
     (case cfg key of
        None \<Rightarrow> None
      | Some val \<Rightarrow> (let trimmed = trim val in if trimmed = [] then None else Some trimmed))"

definition port_error :: kirk_error where
  "port_error = CommunicationE (quoted ''port'' @ '' must be an integer between 1-65535'')"

definition parse_port :: "string option \<Rightarrow> nat result" where
  "parse_port raw =
     (case raw of
        None \<Rightarrow> Ok DEFAULT_PORT
      | Some r \<Rightarrow>
          (case parse_i64 (trim r) of
             Some port \<Rightarrow> if 1 \<le> port \<and> port \<le> 65535 then Ok (nat port) else Err port_error
           | None \<Rightarrow> Err port_error))"

definition parse_sudo :: "string option \<Rightarrow> bool result" where
  "parse_sudo raw =
     (case raw of
        None \<Rightarrow> Ok False
      | Some r \<Rightarrow>
          (case parse_i64 (trim r) of
             Some n \<Rightarrow>
               if n = 0 then Ok False
               else if n = 1 then Ok True
               else Err (CommunicationE (quoted ''sudo'' @ '' must be 0 or 1''))
           | None \<Rightarrow> Err (CommunicationE (quoted ''sudo'' @ '' must be 0 or 1''))))"

definition expand_known_hosts :: "string \<Rightarrow> string option \<Rightarrow> string result" where
  "expand_known_hosts raw home =
     (if raw = ''/dev/null'' then
        Err (CommunicationE (''known_hosts '' @ quoted ''/dev/null'' @ '' disables host-key verification; refusing''))
      else
        (case raw of
           CHR 0x7E # rest \<Rightarrow>
             (case home of
                None \<Rightarrow>
                  Err (CommunicationE (''cannot expand '' @ quoted [CHR 0x7E] @ '' in known_hosts: $HOME is not set''))
              | Some h \<Rightarrow>
                  if rest = [] \<or> starts_with ''/'' rest then Ok (h @ rest)
                  else Err (CommunicationE (''cannot expand '' @ quoted (CHR 0x7E # ''user'') @ '' in known_hosts'')))
         | _ \<Rightarrow> Ok raw))"

definition ssh_config_from_map :: "string option \<Rightarrow> str_map \<Rightarrow> ssh_config result" where
  "ssh_config_from_map home cfg =
     and_then (parse_port (nonempty cfg ''port'')) (\<lambda>port.
       and_then (parse_sudo (nonempty cfg ''sudo'')) (\<lambda>sudo.
         and_then (expand_known_hosts
             (case nonempty cfg ''known_hosts'' of Some k \<Rightarrow> k | None \<Rightarrow> DEFAULT_KNOWN_HOSTS) home) (\<lambda>known.
           Ok \<lparr> sc_host = (case nonempty cfg ''host'' of Some h \<Rightarrow> h | None \<Rightarrow> DEFAULT_HOST),
                sc_user = (case nonempty cfg ''user'' of Some u \<Rightarrow> u | None \<Rightarrow> DEFAULT_USER),
                sc_key_file = nonempty cfg ''key_file'', sc_password = nonempty cfg ''password'',
                sc_port = port, sc_reset_cmd = nonempty cfg ''reset_cmd'', sc_sudo = sudo,
                sc_known_hosts = known \<rparr>)))"

text \<open>\<open>Debug\<close> prints the fields in order with the password redacted.\<close>

definition show_option :: "string option \<Rightarrow> string" where
  "show_option v = (case v of None \<Rightarrow> ''None'' | Some s \<Rightarrow> ''Some('' @ [dq] @ s @ [dq] @ '')'')"

definition ssh_config_debug :: "ssh_config \<Rightarrow> (string \<times> string) list" where
  "ssh_config_debug c =
     [(''host'', sc_host c), (''user'', sc_user c), (''key_file'', show_option (sc_key_file c)),
      (''password'', ''<redacted>''), (''port'', show_nat (sc_port c)),
      (''reset_cmd'', show_option (sc_reset_cmd c)),
      (''sudo'', if sc_sudo c then ''true'' else ''false''), (''known_hosts'', sc_known_hosts c)]"

section \<open>The remote command\<close>

definition is_env_letter :: "char \<Rightarrow> bool" where
  "is_env_letter c \<longleftrightarrow> c = CHR ''_'' \<or> (65 \<le> code c \<and> code c \<le> 90) \<or> (97 \<le> code c \<and> code c \<le> 122)"

fun valid_env_name :: "string \<Rightarrow> bool" where
  "valid_env_name [] = False"
| "valid_env_name (c # r) = (is_env_letter c \<and> list_all (\<lambda>b. is_env_letter b \<or> is_digit b) r)"

text \<open>The exports, for the variables in the order of their names.\<close>

fun env_exports :: "(string \<times> string) list \<Rightarrow> string result" where
  "env_exports [] = Ok []"
| "env_exports ((name, val) # vars) =
     (if \<not> valid_env_name name then Err (CommunicationE (''invalid environment variable name: '' @ name))
      else and_then (env_exports vars) (\<lambda>rest.
        Ok (''export '' @ name @ ''='' @ quote_sh val @ '' && '' @ rest)))"

definition build_script :: "string \<Rightarrow> string option \<Rightarrow> (string \<times> string) list option \<Rightarrow> string result" where
  "build_script cmd cwd env =
     and_then (case env of None \<Rightarrow> Ok [] | Some vars \<Rightarrow> env_exports (sort_key fst vars)) (\<lambda>exports.
       Ok ((case cwd of
              Some d \<Rightarrow> if d = [] then [] else ''cd '' @ quote_sh d @ '' && ''
            | None \<Rightarrow> []) @ exports @ cmd))"

definition build_remote_command ::
  "string \<Rightarrow> string option \<Rightarrow> (string \<times> string) list option \<Rightarrow> bool \<Rightarrow> string result" where
  "build_remote_command cmd cwd env sudo =
     and_then (build_script cmd cwd env) (\<lambda>script.
       Ok (if sudo then ''sudo /bin/sh -c '' @ quote_sh script else script))"

section \<open>Sessions of the server\<close>

text \<open>\<open>str::lines\<close>: at line feeds, a carriage return before one is dropped, no empty last line.\<close>

fun strip_cr :: "string \<Rightarrow> string" where
  "strip_cr s = (if s \<noteq> [] \<and> last s = CHR 0x0D then butlast s else s)"

definition lines :: "string \<Rightarrow> string list" where
  "lines s =
     (let parts = split_on (CHR 0x0A) s
      in map strip_cr (butlast parts) @ (if last parts = [] then [] else [last parts]))"

text \<open>\<open>split_whitespace().next()\<close>: the first run of other characters.\<close>

definition first_word :: "string \<Rightarrow> string option" where
  "first_word s =
     (let w = concat (takeWhile (\<lambda>ch. \<not> is_space_char ch) (chars (trim_start s)))
      in if w = [] then None else Some w)"

definition session_line :: "string \<Rightarrow> nat option" where
  "session_line line =
     (let l = trim line;
          rest = (if starts_with ''MaxSessions '' l then Some (drop 12 l)
                  else if starts_with ''maxsessions '' l then Some (drop 12 l) else None)
      in case rest of
           None \<Rightarrow> None
         | Some r \<Rightarrow> (case first_word r of None \<Rightarrow> None | Some w \<Rightarrow> parse_unsigned (2 ^ 64 - 1) w))"

fun first_some :: "('a \<Rightarrow> 'b option) \<Rightarrow> 'a list \<Rightarrow> 'b option" where
  "first_some f [] = None"
| "first_some f (x # xs) = (case f x of Some y \<Rightarrow> Some y | None \<Rightarrow> first_some f xs)"

definition parse_max_sessions :: "string \<Rightarrow> nat option" where
  "parse_max_sessions output = first_some session_line (lines output)"

section \<open>Collecting output\<close>

record collector =
  oc_buf :: string
  oc_panic :: bool

definition collector_new :: collector where
  "collector_new = \<lparr> oc_buf = [], oc_panic = False \<rparr>"

text \<open>The next character boundary at or after a position.\<close>

function ceil_boundary :: "string \<Rightarrow> nat \<Rightarrow> nat" where
  "ceil_boundary s i = (if is_char_boundary s i \<or> length s \<le> i then i else ceil_boundary s (i + 1))"
  by pat_completeness auto
termination
  by (relation "measure (\<lambda>(s, i). length s - i)") auto

declare ceil_boundary.simps [simp del]

definition collector_push :: "string \<Rightarrow> collector \<Rightarrow> collector" where
  "collector_push chunk c =
     (if oc_panic c then c\<lparr>oc_buf := oc_buf c @ chunk\<rparr>
      else
        (let begin_at = ceil_boundary (oc_buf c) (min (length (oc_buf c) - length PANIC_MARKER) (length (oc_buf c)));
             c1 = c\<lparr>oc_buf := oc_buf c @ chunk\<rparr>
         in if contains (drop begin_at (oc_buf c1)) PANIC_MARKER then c1\<lparr>oc_panic := True\<rparr> else c1))"

definition collect_output :: "string list \<Rightarrow> collector" where
  "collect_output chunks = fold collector_push chunks collector_new"

section \<open>Nothing leaves its quotes\<close>

text \<open>What the words of a remote command are: those of its own parts, then those of the command.\<close>

definition setup_words :: "string option \<Rightarrow> (string \<times> string) list option \<Rightarrow> string list" where
  "setup_words cwd env =
     (case cwd of Some d \<Rightarrow> if d = [] then [] else [''cd'', d, ''&&''] | None \<Rightarrow> []) @
     (case env of
        None \<Rightarrow> []
      | Some vars \<Rightarrow> concat (map (\<lambda>(name, val). [''export'', name @ ''='' @ val, ''&&'']) (sort_key fst vars)))"

abbreviation sh_words :: "string \<Rightarrow> string list option" where
  "sh_words s \<equiv> split_chars False (chars s) None False []"

lemma words_word:
  "plain_text w \<Longrightarrow> w \<noteq> [] \<Longrightarrow> sh_words (w @ CHR '' '' # t) = map_option ((#) w) (sh_words t)"
  using split_plain [of w False False "CHR '' '' # t" "[]"] by (simp add: split_space)

lemma words_quoted:
  "utf8_wf v \<Longrightarrow> sh_words (quote_sh v @ CHR '' '' # t) = map_option ((#) v) (sh_words t)"
  using split_quoted [of v False "CHR '' '' # t" False "[]"] by (simp add: split_space)

lemma words_assign:
  "plain_text w \<Longrightarrow> w \<noteq> [] \<Longrightarrow> utf8_wf v \<Longrightarrow>
   sh_words (w @ quote_sh v @ CHR '' '' # t) = map_option ((#) (w @ v)) (sh_words t)"
  using split_plain [of w False False "quote_sh v @ CHR '' '' # t" "[]"] split_quoted [of v False "CHR '' '' # t" True w]
  by (simp add: split_space)

lemma env_letter_plain: "is_env_letter c \<or> is_digit c \<Longrightarrow> 33 \<le> code c \<and> code c < 128 \<and> c \<notin> {sq, dq, backslash}"
  by (auto simp: is_env_letter_def is_digit_def)

lemma env_name_plain: "valid_env_name name \<Longrightarrow> plain_text (name @ ''='')"
proof -
  assume valid: "valid_env_name name"
  then have "\<forall>b \<in> set name. is_env_letter b \<or> is_digit b" by (cases name) (auto simp: list_all_iff)
  then have "plain_text name" unfolding plain_text_def list_all_iff using env_letter_plain by blast
  then show ?thesis by (simp add: plain_text_def)
qed

lemma plain_words [simp]: "plain_text ''cd''" "plain_text ''&&''" "plain_text ''export''" "plain_text ''sudo''"
  "plain_text ''/bin/sh''" "plain_text ''-c''"
  by (simp_all add: plain_text_def)

lemma words_exports:
  "env_exports vars = Inr text1 \<Longrightarrow> \<forall>(n, v) \<in> set vars. utf8_wf v \<Longrightarrow>
   sh_words (text1 @ t) =
     map_option ((@) (concat (map (\<lambda>(n, v). [''export'', n @ ''='' @ v, ''&&'']) vars))) (sh_words t)"
proof (induction vars arbitrary: text1)
  case Nil
  then show ?case by (cases "sh_words t") auto
next
  case (Cons x vars)
  obtain n v where x: "x = (n, v)" by fastforce
  from Cons.prems(1) x obtain rest where n: "valid_env_name n" and rest: "env_exports vars = Inr rest"
    and text1: "text1 = ''export'' @ CHR '' '' # (n @ ''='') @ quote_sh v @ CHR '' '' # ''&&'' @ CHR '' '' # rest"
    by (auto simp: and_then_Ok split: if_splits)
  have "utf8_wf v" using Cons.prems(2) x by simp
  have "sh_words (text1 @ t) = map_option ((#) ''export'') (map_option ((#) (n @ ''='' @ v))
      (map_option ((#) ''&&'') (sh_words (rest @ t))))"
    unfolding text1
    using words_word [of "''export''" "(n @ ''='') @ quote_sh v @ CHR '' '' # ''&&'' @ CHR '' '' # rest @ t"]
      words_assign [OF env_name_plain [OF n] _ \<open>utf8_wf v\<close>, of "''&&'' @ CHR '' '' # rest @ t"]
      words_word [of "''&&''" "rest @ t"]
    by simp
  also have "\<dots> = map_option ((@) [''export'', n @ ''='' @ v, ''&&'']) (sh_words (rest @ t))"
    by (cases "sh_words (rest @ t)") auto
  finally show ?case
    using Cons.IH [OF rest] Cons.prems(2) x by (cases "sh_words t") auto
qed

lemma words_script:
  assumes "build_script cmd cwd env = Inr script" and "\<forall>d. cwd = Some d \<longrightarrow> utf8_wf d"
    and "\<forall>vars. env = Some vars \<longrightarrow> (\<forall>(n, v) \<in> set vars. utf8_wf v)"
  shows "sh_words script = map_option ((@) (setup_words cwd env)) (sh_words cmd)"
proof -
  from assms(1) obtain exports where e: "(case env of None \<Rightarrow> Ok [] | Some vars \<Rightarrow> env_exports (sort_key fst vars)) = Inr exports"
    and script: "script = (case cwd of Some d \<Rightarrow> if d = [] then [] else ''cd '' @ quote_sh d @ '' && '' | None \<Rightarrow> []) @ exports @ cmd"
    by (auto simp: build_script_def and_then_Ok)
  have body: "sh_words (exports @ cmd) = map_option ((@) (setup_words None env)) (sh_words cmd)"
  proof (cases env)
    case None
    then show ?thesis using e by (cases "sh_words cmd") (auto simp: setup_words_def)
  next
    case (Some vars)
    then show ?thesis using e words_exports [of "sort_key fst vars" exports cmd] assms(3) by (simp add: setup_words_def)
  qed
  show ?thesis
  proof (cases "cwd = None \<or> cwd = Some []")
    case True
    then show ?thesis using body script by (auto simp: setup_words_def)
  next
    case False
    then obtain d where d: "cwd = Some d" "d \<noteq> []" by auto
    have "script = ''cd'' @ CHR '' '' # quote_sh d @ CHR '' '' # ''&&'' @ CHR '' '' # exports @ cmd"
      using script d by simp
    then have "sh_words script = map_option ((#) ''cd'') (map_option ((#) d) (map_option ((#) ''&&'') (sh_words (exports @ cmd))))"
      using words_word [of "''cd''" "quote_sh d @ CHR '' '' # ''&&'' @ CHR '' '' # exports @ cmd"]
        words_quoted [of d "''&&'' @ CHR '' '' # exports @ cmd"] words_word [of "''&&''" "exports @ cmd"] assms(2) d
      by simp
    then show ?thesis using body d by (cases "sh_words cmd") (auto simp: setup_words_def)
  qed
qed

text \<open>
  Claim C35: nothing a caller supplies leaves its quotes in a remote command. Read as shell words, the
  command line is the change of directory and one export for each variable, each with the caller's
  directory or value as (part of) one word, followed by the words of the command itself; under sudo
  it is exactly four words, the last of them the whole script.
\<close>

theorem remote_command_is_quoted:
  assumes "build_remote_command cmd cwd env sudo = Inr remote"
    and "build_script cmd cwd env = Inr script" and "utf8_wf script"
    and "\<forall>d. cwd = Some d \<longrightarrow> utf8_wf d" and "\<forall>vars. env = Some vars \<longrightarrow> (\<forall>(n, v) \<in> set vars. utf8_wf v)"
  shows "sh_words script = map_option ((@) (setup_words cwd env)) (sh_words cmd) \<and>
     sh_words remote = (if sudo then Some [''sudo'', ''/bin/sh'', ''-c'', script] else sh_words script)"
proof -
  have "sh_words (''sudo /bin/sh -c '' @ quote_sh script) = Some [''sudo'', ''/bin/sh'', ''-c'', script]"
    using words_word [of "''sudo''" "''/bin/sh'' @ CHR '' '' # ''-c'' @ CHR '' '' # quote_sh script"]
      words_word [of "''/bin/sh''" "''-c'' @ CHR '' '' # quote_sh script"] words_word [of "''-c''" "quote_sh script"]
      split_quoted [OF assms(3), of False "[]" False "[]"]
    by simp
  then show ?thesis
    using words_script [OF assms(2,4,5)] assms(1,2) by (auto simp: build_remote_command_def and_then_Ok)
qed

lemma remote_command_is_quoted_witness:
  "sh_words (''sudo /bin/sh -c '' @ quote_sh (''cd '' @ quote_sh ''/tmp; rm'' @ '' && ls''))
     = Some [''sudo'', ''/bin/sh'', ''-c'', ''cd '' @ quote_sh ''/tmp; rm'' @ '' && ls'']"
proof -
  let ?script = "''cd '' @ quote_sh ''/tmp; rm'' @ '' && ls''"
  have b: "build_script ''ls'' (Some ''/tmp; rm'') None = Inr ?script" by (simp add: build_script_def)
  then have r: "build_remote_command ''ls'' (Some ''/tmp; rm'') None True = Inr (''sudo /bin/sh -c '' @ quote_sh ?script)"
    by (simp add: build_remote_command_def)
  have w: "utf8_wf ?script" by (rule utf8_wf_ascii) (simp add: quote_sh_def escape_quotes_def)
  show ?thesis
    using remote_command_is_quoted [OF r b w] by (simp add: utf8_wf_ascii)
qed

section \<open>The collector finds every marker\<close>

lemma ceil_boundary_le: "i \<le> p \<Longrightarrow> p \<le> length s \<Longrightarrow> is_char_boundary s p \<Longrightarrow> ceil_boundary s i \<le> p"
proof (induction s i rule: ceil_boundary.induct)
  case (1 s i)
  show ?case
  proof (cases "is_char_boundary s i \<or> length s \<le> i")
    case False
    then have "i \<noteq> p" using "1.prems" by auto
    then show ?thesis using 1 False by (subst ceil_boundary.simps) simp
  qed (use "1.prems" in \<open>subst ceil_boundary.simps, simp\<close>)
qed

lemma collector_scan:
  assumes "\<not> sublist PANIC_MARKER t"
  shows "contains (drop (ceil_boundary t (length t - length PANIC_MARKER)) (t @ c)) PANIC_MARKER
     \<longleftrightarrow> sublist PANIC_MARKER (t @ c)"
proof -
  let ?b = "ceil_boundary t (length t - length PANIC_MARKER)"
  have b: "?b \<le> length t" by (rule ceil_boundary_le) (simp_all add: is_char_boundary_def)
  show ?thesis
    unfolding contains_sublist
  proof
    assume "sublist PANIC_MARKER (drop ?b (t @ c))"
    then show "sublist PANIC_MARKER (t @ c)" by (rule sublist_suffix_sublist [OF suffix_drop])
  next
    assume "sublist PANIC_MARKER (t @ c)"
    then consider ps qs where "PANIC_MARKER = ps @ qs" "suffix ps t" "prefix qs c" | "sublist PANIC_MARKER c"
      using assms by (auto simp: sublist_append)
    then show "sublist PANIC_MARKER (drop ?b (t @ c))"
    proof cases
      case 2
      then show ?thesis using b by (auto simp: sublist_append)
    next
      case 1
      show ?thesis
      proof (cases ps)
        case Nil
        then show ?thesis using 1 b by (auto simp: sublist_append prefix_imp_sublist)
      next
        case (Cons k r)
        let ?p = "length t - length ps"
        have len: "length ps \<le> length t" using 1(2) by (rule suffix_length_le)
        have "k = CHR ''K''" using 1(1) Cons by (simp add: PANIC_MARKER_def)
        moreover have "drop ?p t = ps" using 1(2) by (auto simp: suffix_def)
        then have "t ! ?p = k" using Cons len by (metis drop_all hd_drop_conv_nth list.distinct(1) list.sel(1) not_le)
        ultimately have "is_char_boundary t ?p" using Cons len by (auto simp: is_char_boundary_def is_cont_byte_def)
        moreover have "length ps \<le> length PANIC_MARKER" by (simp only: 1(1) length_append)
        ultimately have "?b \<le> ?p" by (intro ceil_boundary_le) auto
        then have "suffix ps (drop ?b t)"
          using \<open>drop ?p t = ps\<close> by (metis drop_drop le_add_diff_inverse2 suffix_drop)
        then show ?thesis using 1 b by (auto simp: sublist_append)
      qed
    qed
  qed
qed

lemma collector_push_spec:
  assumes "oc_panic c = sublist PANIC_MARKER (oc_buf c)"
  shows "collector_push chunk c =
     \<lparr> oc_buf = oc_buf c @ chunk, oc_panic = sublist PANIC_MARKER (oc_buf c @ chunk) \<rparr>"
proof (cases "oc_panic c")
  case True
  then have "sublist PANIC_MARKER (oc_buf c @ chunk)" using assms by (auto simp: sublist_append)
  then show ?thesis using True by (cases c) (simp add: collector_push_def)
next
  case False
  then show ?thesis
    using assms collector_scan [of "oc_buf c" chunk] by (cases c) (simp add: collector_push_def Let_def)
qed

lemma collector_fold:
  "oc_panic c = sublist PANIC_MARKER (oc_buf c) \<Longrightarrow>
   fold collector_push chunks c =
     \<lparr> oc_buf = oc_buf c @ concat chunks, oc_panic = sublist PANIC_MARKER (oc_buf c @ concat chunks) \<rparr>"
proof (induction chunks arbitrary: c)
  case Nil
  then show ?case by (cases c) simp
next
  case (Cons x chunks)
  then show ?case by (simp add: collector_push_spec)
qed

lemma collect_output_spec:
  "collect_output chunks = \<lparr> oc_buf = concat chunks, oc_panic = sublist ''Kernel panic'' (concat chunks) \<rparr>"
  using collector_fold [of collector_new chunks]
  by (simp add: collect_output_def collector_new_def PANIC_MARKER_def)

end
