(* ===== verification/Channel_Contract.thy ===== *)
theory Channel_Contract
  imports Com
begin

text \<open>
  The lifecycle of a channel whose operations may not return: they may panic, or wait for a process
  that never ends. \<open>None\<close> in place of a result is such a call. A channel whose operations always
  return (\<open>lifecycle\<close>) is one of these.
\<close>

datatype life_op = Communicate | Stop

fun run_life ::
  "('s \<Rightarrow> unit result option \<times> 's) \<Rightarrow> ('s \<Rightarrow> unit result option \<times> 's) \<Rightarrow> life_op list \<Rightarrow> 's
     \<Rightarrow> unit result option list \<times> 's" where
  "run_life communicate stop [] s = ([], s)"
| "run_life communicate stop (op1 # ops) s =
     (case (case op1 of Communicate \<Rightarrow> communicate s | Stop \<Rightarrow> stop s) of
        (r, s1) \<Rightarrow> (case run_life communicate stop ops s1 of (rs, s2) \<Rightarrow> (r # rs, s2)))"

lemma run_life_append:
  "run_life c t (xs @ ys) s =
     (case run_life c t xs s of (rs, s1) \<Rightarrow> (case run_life c t ys s1 of (rs', s2) \<Rightarrow> (rs @ rs', s2)))"
  by (induction xs arbitrary: s) (auto split: prod.splits)

locale partial_lifecycle =
  fixes active :: "'s \<Rightarrow> bool"
    and communicate :: "'s \<Rightarrow> unit result option \<times> 's"
    and stop :: "'s \<Rightarrow> unit result option \<times> 's"
  assumes starts: "communicate s = (Some (Inr u), s') \<Longrightarrow> active s'"
    and refused: "active s \<Longrightarrow> \<exists>e. communicate s = (Some (Inl e), s)"
    and stops: "stop s = (Some (Inr u), s') \<Longrightarrow> \<not> active s'"
    and stopped: "\<not> active s \<Longrightarrow> stop s = (Some (Inr ()), s)"
begin

text \<open>The last operation that succeeded decides whether the channel is active.\<close>

lemma active_after_success:
  assumes "run_life communicate stop (ops @ [op1]) s = (rs @ [Some (Inr u)], s')"
  shows "active s' \<longleftrightarrow> op1 = Communicate"
proof -
  obtain rs1 s1 where first: "run_life communicate stop ops s = (rs1, s1)" by fastforce
  show ?thesis
  proof (cases op1)
    case Communicate
    then show ?thesis using assms first by (auto simp: run_life_append split: prod.splits dest: starts)
  next
    case Stop
    then show ?thesis using assms first by (auto simp: run_life_append split: prod.splits dest: stops)
  qed
qed

text \<open>Stopping twice is stopping once.\<close>

lemma stop_idempotent: "stop s = (Some (Inr u), s') \<Longrightarrow> stop s' = (Some (Inr ()), s')"
  by (rule stopped) (rule stops)

end

sublocale lifecycle \<subseteq> partial: partial_lifecycle active
  "\<lambda>s. map_prod Some id (communicate s)" "\<lambda>s. map_prod Some id (stop s)"
proof (unfold_locales, goal_cases)
  case (1 s u s')
  then show ?case by (cases "communicate s") (auto dest: communicate_Ok)
next
  case (2 s)
  then show ?case using communicate_active [of s] by auto
next
  case (3 s u s')
  then show ?case by (cases "stop s") (auto dest: stop_Ok)
next
  case (4 s)
  then show ?case using stop_inactive [of s] by simp
qed

end
