(* ===== verification/Ssh_Channel.thy ===== *)
theory Ssh_Channel
  imports Ssh_Config Channel_Contract "HOL-Library.Word"
begin

text \<open>
  Crate \<open>kirk-com-ssh\<close>, \<open>lib.rs\<close>: the channel over one SSH session. The client library is a
  parameter (\<open>ssh_net\<close>): connecting, authenticating and what the server answers to an exec request,
  each with the time it takes. The channel keeps the session and the number of permits of its
  semaphore.
\<close>

section \<open>What the client library answers\<close>

datatype ssh_msg =
    Msg_Data string
  | Msg_Extended string
  | Msg_ExitStatus "32 word"
  | Msg_Close
  | Msg_Other

text \<open>
  The answer to an exec request: opening the channel and sending the request, then the messages,
  each with the time since the one before it, and the time until the channel ends after the last.
\<close>

record exec_reply =
  xr_open :: "nat \<times> (string + unit)"
  xr_exec :: "nat \<times> (string + unit)"
  xr_msgs :: "(nat \<times> ssh_msg) list"
  xr_end :: nat

datatype 'k server_key = PublicKey 'k | Certificate 'k

text \<open>
  \<open>'h\<close> is a session handle, \<open>'k\<close> a key of the server, \<open>'p\<close> a private key. \<open>sn_known\<close> is
  \<open>check_known_hosts_path\<close>.
\<close>

record ('h, 'k, 'p) ssh_net =
  sn_connect :: "string \<Rightarrow> nat \<Rightarrow> ('k server_key \<Rightarrow> bool) \<Rightarrow> nat \<times> (string + 'h)"
  sn_known :: "string \<Rightarrow> nat \<Rightarrow> 'k \<Rightarrow> string \<Rightarrow> string + bool"
  sn_auth_password :: "'h \<Rightarrow> string \<Rightarrow> string \<Rightarrow> nat \<times> (string + bool)"
  sn_auth_none :: "'h \<Rightarrow> string \<Rightarrow> nat \<times> (string + bool)"
  sn_auth_key :: "'h \<Rightarrow> string \<Rightarrow> 'p \<Rightarrow> string option \<Rightarrow> nat \<times> (string + bool)"
  sn_read_key :: "string \<Rightarrow> nat \<times> (string + string)"
  sn_decode_key :: "string \<Rightarrow> string option \<Rightarrow> string + 'p"
  sn_is_rsa :: "'p \<Rightarrow> bool"
  sn_rsa_hash :: "'h \<Rightarrow> nat \<times> (string + string option option)"
  sn_exec :: "'h \<Rightarrow> string \<Rightarrow> exec_reply"
  sn_secs :: "nat \<Rightarrow> f64"

definition comm :: "string \<Rightarrow> kirk_error" where
  "comm msg = CommunicationE msg"

definition timed_out :: "string \<Rightarrow> kirk_error" where
  "timed_out what = comm (''SSH '' @ what @ '' timed out'')"

text \<open>\<open>timeout(d, fut).await.map_err(..)?.map_err(..)\<close>: no answer in time, or the answer.\<close>

definition answer_in :: "nat \<Rightarrow> string \<Rightarrow> nat \<times> (string + 'a) \<Rightarrow> 'a result" where
  "answer_in d what r =
     (if d < fst r then Err (timed_out what)
      else (case snd r of Inl err \<Rightarrow> Err (comm err) | Inr x \<Rightarrow> Ok x))"

lemma answer_in_Ok: "answer_in d what r = Inr x \<longleftrightarrow> fst r \<le> d \<and> snd r = Inr x"
  by (auto simp: answer_in_def split: sum.splits)

section \<open>Host keys\<close>

definition check_server_key :: "('h, 'k, 'p) ssh_net \<Rightarrow> ssh_config \<Rightarrow> 'k server_key \<Rightarrow> bool" where
  "check_server_key N cfg key =
     (case key of
        PublicKey k \<Rightarrow>
          (case sn_known N (sc_host cfg) (sc_port cfg) k (sc_known_hosts cfg) of
             Inr known \<Rightarrow> known
           | Inl _ \<Rightarrow> False)
      | Certificate _ \<Rightarrow> False)"

section \<open>Running remote commands\<close>

text \<open>
  The loop over the messages of \<open>run_remote\<close>, with the time it has taken: the first closing message
  or the end of the channel stops it, and output past the cap is refused.
\<close>

fun remote_loop ::
  "nat option \<Rightarrow> nat \<Rightarrow> (nat \<times> ssh_msg) list \<Rightarrow> nat \<Rightarrow> 32 word option \<Rightarrow> string
     \<Rightarrow> nat \<times> (32 word option \<times> string) result" where
  "remote_loop cap tail [] t status out = (t + tail, Ok (status, out))"
| "remote_loop cap tail ((d, msg) # msgs) t status out =
     (case msg of
        Msg_Data data \<Rightarrow>
          (if (case cap of Some c \<Rightarrow> c < length out + length data | None \<Rightarrow> False)
           then (t + d, Err (comm ''remote output exceeds size limit''))
           else remote_loop cap tail msgs (t + d) status (out @ data))
      | Msg_Extended data \<Rightarrow>
          (if (case cap of Some c \<Rightarrow> c < length out + length data | None \<Rightarrow> False)
           then (t + d, Err (comm ''remote output exceeds size limit''))
           else remote_loop cap tail msgs (t + d) status (out @ data))
      | Msg_ExitStatus w \<Rightarrow> remote_loop cap tail msgs (t + d) (Some w) out
      | Msg_Close \<Rightarrow> (t + d, Ok (status, out))
      | Msg_Other \<Rightarrow> remote_loop cap tail msgs (t + d) status out)"

text \<open>Opening a channel and sending the request, with the time both take.\<close>

definition start_exec :: "exec_reply \<Rightarrow> nat \<times> unit result" where
  "start_exec r =
     (case answer_in IO_TIMEOUT ''channel open'' (xr_open r) of
        Inl err \<Rightarrow> (min (fst (xr_open r)) IO_TIMEOUT, Err err)
      | Inr _ \<Rightarrow>
          (fst (xr_open r) + min (fst (xr_exec r)) IO_TIMEOUT, answer_in IO_TIMEOUT ''exec'' (xr_exec r)))"

definition run_remote ::
  "('h, 'k, 'p) ssh_net \<Rightarrow> 'h \<Rightarrow> string \<Rightarrow> nat option \<Rightarrow> nat option
     \<Rightarrow> nat \<times> (32 word option \<times> string) result" where
  "run_remote N h command overall cap =
     (let r = sn_exec N h command;
          work = (case start_exec r of
                    (t, Inl err) \<Rightarrow> (t, Err err)
                  | (t, Inr _) \<Rightarrow> remote_loop cap (xr_end r) (xr_msgs r) t None [])
      in case overall of
           None \<Rightarrow> work
         | Some bound \<Rightarrow> if bound < fst work then (bound, Err (timed_out ''operation'')) else work)"

definition probes :: "string list" where
  "probes = [''grep -i '' @ quoted ''^MaxSessions'' @ '' /etc/ssh/sshd_config'',
     ''sudo sshd -T 2>/dev/null | grep maxsessions'']"

fun probe_loop :: "('h, 'k, 'p) ssh_net \<Rightarrow> 'h \<Rightarrow> string list \<Rightarrow> nat" where
  "probe_loop N h [] = DEFAULT_MAX_SESSIONS"
| "probe_loop N h (probe # rest) =
     (case snd (run_remote N h probe (Some PROBE_TIMEOUT) None) of
        Inr (_, out) \<Rightarrow>
          (case parse_max_sessions (lossy out) of
             Some val \<Rightarrow> max val 1
           | None \<Rightarrow> probe_loop N h rest)
      | Inl _ \<Rightarrow> probe_loop N h rest)"

definition probe_max_sessions :: "('h, 'k, 'p) ssh_net \<Rightarrow> 'h \<Rightarrow> nat" where
  "probe_max_sessions N h = probe_loop N h probes"

section \<open>The reset command\<close>

text \<open>
  What a started local process does, in the order it happens: chunks on its two pipes, their ends,
  failing reads, and its exit with a code or, killed by a signal, the text of its status.
\<close>

datatype reset_event =
    Out_Chunk string
  | Out_End
  | Out_Fail string
  | Err_Chunk string
  | Err_End
  | Err_Fail string
  | Exited "int option" string
  | Wait_Fail string

text \<open>What an output buffer answers to a write.\<close>

type_synonym buffer_answer = "string \<Rightarrow> kirk_error option"

definition write_chunk :: "buffer_answer option \<Rightarrow> string \<Rightarrow> kirk_error option" where
  "write_chunk buf data = (case buf of None \<Rightarrow> None | Some w \<Rightarrow> w (lossy data))"

definition reset_status :: "int option \<Rightarrow> string \<Rightarrow> unit result" where
  "reset_status exited shown =
     (if exited = Some 0 then Ok ()
      else Err (comm (''reset command exited with status '' @
        (case exited of Some c \<Rightarrow> show_int c | None \<Rightarrow> shown))))"

text \<open>
  The three futures of \<open>run_reset\<close> under \<open>try_join\<close>: the first error ends it, and otherwise it ends
  when both pipes have ended and the process has exited. \<open>None\<close> is not returning.
\<close>

definition reset_done :: "bool \<Rightarrow> bool \<Rightarrow> (int option \<times> string) option \<Rightarrow> unit result option" where
  "reset_done out_done err_done st =
     (if out_done \<and> err_done then map_option (\<lambda>(exited, shown). reset_status exited shown) st else None)"

fun reset_loop ::
  "buffer_answer option \<Rightarrow> reset_event list \<Rightarrow> bool \<Rightarrow> bool \<Rightarrow> (int option \<times> string) option \<Rightarrow> unit result option" where
  "reset_loop buf [] out_done err_done st = reset_done out_done err_done st"
| "reset_loop buf (ev # events) out_done err_done st =
     (case reset_done out_done err_done st of
        Some r \<Rightarrow> Some r
      | None \<Rightarrow>
          (case ev of
             Out_Chunk data \<Rightarrow>
               (case write_chunk buf data of
                  Some err \<Rightarrow> Some (Err err) | None \<Rightarrow> reset_loop buf events out_done err_done st)
           | Err_Chunk data \<Rightarrow>
               (case write_chunk buf data of
                  Some err \<Rightarrow> Some (Err err) | None \<Rightarrow> reset_loop buf events out_done err_done st)
           | Out_End \<Rightarrow> reset_loop buf events True err_done st
           | Err_End \<Rightarrow> reset_loop buf events out_done True st
           | Out_Fail err \<Rightarrow> Some (Err (comm err))
           | Err_Fail err \<Rightarrow> Some (Err (comm err))
           | Exited exited shown \<Rightarrow> reset_loop buf events out_done err_done (Some (exited, shown))
           | Wait_Fail err \<Rightarrow> Some (Err (comm err))))"

definition run_reset ::
  "(string list \<Rightarrow> string + reset_event list) \<Rightarrow> string \<Rightarrow> buffer_answer option \<Rightarrow> unit result option" where
  "run_reset spawn reset_cmd buf =
     (case split_argv reset_cmd of
        Inl err \<Rightarrow> Some (Err err)
      | Inr [] \<Rightarrow> Some (Err (comm ''reset command is empty''))
      | Inr argv \<Rightarrow>
          (case spawn argv of
             Inl err \<Rightarrow> Some (Err (comm (''reset command failed to start: '' @ err)))
           | Inr events \<Rightarrow> reset_loop buf events False False None))"

section \<open>The channel\<close>

text \<open>\<open>Inner\<close> and the name. \<open>ss_permits\<close> is the size of the semaphore in place.\<close>

record 'h ssh =
  ss_name :: string
  ss_config :: ssh_config
  ss_session :: "'h option"
  ss_permits :: nat

definition inner_new :: "string \<Rightarrow> ssh_config \<Rightarrow> 'h ssh" where
  "inner_new name cfg =
     \<lparr> ss_name = name, ss_config = cfg, ss_session = None, ss_permits = DEFAULT_MAX_SESSIONS \<rparr>"

definition unreachable_default_config :: ssh_config where
  "unreachable_default_config =
     \<lparr> sc_host = DEFAULT_HOST, sc_user = DEFAULT_USER, sc_key_file = None, sc_password = None,
       sc_port = DEFAULT_PORT, sc_reset_cmd = None, sc_sudo = False, sc_known_hosts = DEFAULT_KNOWN_HOSTS \<rparr>"

definition ssh_new :: "string option \<Rightarrow> string \<Rightarrow> 'h ssh" where
  "ssh_new home name = inner_new name
     (case ssh_config_from_map home Map.empty of Inr cfg \<Rightarrow> cfg | Inl _ \<Rightarrow> unreachable_default_config)"

definition ssh_setup :: "string option \<Rightarrow> str_map \<Rightarrow> 'h ssh \<Rightarrow> unit result \<times> 'h ssh" where
  "ssh_setup home cfg s =
     (case ssh_config_from_map home cfg of
        Inl err \<Rightarrow> (Err err, s)
      | Inr c \<Rightarrow> (Ok (), inner_new (ss_name s) c))"

text \<open>\<open>clone_box\<close> and \<open>clone_channel_box\<close>.\<close>

definition ssh_clone :: "string \<Rightarrow> 'h ssh \<Rightarrow> 'h ssh" where
  "ssh_clone name s = inner_new name (ss_config s)"

definition ssh_config_help :: "(string \<times> string) list" where
  "ssh_config_help =
     [(''host'', ''IP address of the host (default: localhost)''),
      (''port'', ''TCP port of the service (default: 22)''),
      (''user'', ''name of the user (default: root)''),
      (''password'', ''root password''),
      (''key_file'', ''private key location''),
      (''reset_cmd'', ''command to reset the remote target''),
      (''sudo'', ''use sudo to access to root shell (default: 0)''),
      (''known_hosts'', ''path to custom known_hosts file'')]"

definition ssh_plugin :: "string option \<Rightarrow> 'h ssh plugin_ops" where
  "ssh_plugin home =
     \<lparr> pl_name = ss_name, pl_config_help = \<lambda>_. ssh_config_help, pl_setup = ssh_setup home,
       pl_clone_box = ssh_clone \<rparr>"

lemma ssh_setup_reads:
  assumes "\<forall>key\<in>fst ` set ssh_config_help. cfg key = cfg' key"
  shows "ssh_setup home cfg s = ssh_setup home cfg' s"
proof -
  have "nonempty cfg key = nonempty cfg' key" if "key \<in> fst ` set ssh_config_help" for key
    using bspec [OF assms that] by (simp add: nonempty_def)
  then show ?thesis by (simp add: ssh_setup_def ssh_config_from_map_def ssh_config_help_def)
qed

interpretation ssh_plugin: plugin_contract "ssh_plugin home" "{}" for home
proof (unfold_locales, goal_cases)
  case (7 p cfg cfg')
  then show ?case by (simp add: ssh_plugin_def ssh_setup_reads)
qed (auto simp: ssh_plugin_def ssh_setup_def ssh_clone_def inner_new_def new_instance_def split: sum.splits)

definition ssh_active :: "'h ssh \<Rightarrow> bool" where
  "ssh_active s \<longleftrightarrow> ss_session s \<noteq> None"

definition session_arc :: "'h ssh \<Rightarrow> 'h result" where
  "session_arc s =
     (case ss_session s of Some h \<Rightarrow> Ok h | None \<Rightarrow> Err (comm ''SSH connection is not present''))"

text \<open>\<open>Semaphore::new\<close> panics past its documented limit; \<open>None\<close> is that panic.\<close>

definition MAX_PERMITS :: nat where
  "MAX_PERMITS = (2 ^ 64 - 1) div 8"

definition set_max_sessions :: "nat \<Rightarrow> 'h ssh \<Rightarrow> 'h ssh option" where
  "set_max_sessions n s = (if MAX_PERMITS < n then None else Some (s\<lparr>ss_permits := n\<rparr>))"

definition authenticate_with_key ::
  "('h, 'k, 'p) ssh_net \<Rightarrow> 'h \<Rightarrow> string \<Rightarrow> string \<Rightarrow> string option \<Rightarrow> bool result" where
  "authenticate_with_key N h user key_file password =
     and_then (answer_in IO_TIMEOUT ''key read'' (sn_read_key N key_file)) (\<lambda>data.
       (case sn_decode_key N data password of
          Inl err \<Rightarrow> Err (comm err)
        | Inr key \<Rightarrow>
            and_then
              (if sn_is_rsa N key
               then and_then (answer_in IO_TIMEOUT ''authentication'' (sn_rsa_hash N h)) (\<lambda>best.
                      Ok (case best of Some alg \<Rightarrow> alg | None \<Rightarrow> None))
               else Ok None)
              (\<lambda>hash_alg. answer_in IO_TIMEOUT ''authentication'' (sn_auth_key N h user key hash_alg))))"

definition authenticate :: "('h, 'k, 'p) ssh_net \<Rightarrow> ssh_config \<Rightarrow> 'h \<Rightarrow> bool result" where
  "authenticate N cfg h =
     (case sc_key_file cfg of
        Some key_file \<Rightarrow> authenticate_with_key N h (sc_user cfg) key_file (sc_password cfg)
      | None \<Rightarrow>
          (case sc_password cfg of
             Some password \<Rightarrow>
               answer_in IO_TIMEOUT ''authentication'' (sn_auth_password N h (sc_user cfg) password)
           | None \<Rightarrow> answer_in IO_TIMEOUT ''authentication'' (sn_auth_none N h (sc_user cfg))))"

text \<open>Connecting, up to an authenticated handle.\<close>

definition connect_auth :: "('h, 'k, 'p) ssh_net \<Rightarrow> ssh_config \<Rightarrow> 'h result" where
  "connect_auth N cfg =
     and_then (answer_in IO_TIMEOUT ''connect''
         (sn_connect N (sc_host cfg) (sc_port cfg) (check_server_key N cfg))) (\<lambda>h.
       and_then (authenticate N cfg h) (\<lambda>authenticated.
         if authenticated then Ok h else Err (comm ''SSH authentication failed'')))"

text \<open>\<open>communicate\<close>; \<open>None\<close> is a panic on the way.\<close>

definition ssh_communicate :: "('h, 'k, 'p) ssh_net \<Rightarrow> 'h ssh \<Rightarrow> unit result option \<times> 'h ssh" where
  "ssh_communicate N s =
     (if ssh_active s then (Some (Err (comm ''SSH client is already connected'')), s)
      else
        (case connect_auth N (ss_config s) of
           Inl err \<Rightarrow> (Some (Err err), s)
         | Inr h \<Rightarrow>
             (case set_max_sessions (probe_max_sessions N h) s of
                None \<Rightarrow> (None, s)
              | Some s1 \<Rightarrow> (Some (Ok ()), s1\<lparr>ss_session := Some h\<rparr>))))"

text \<open>\<open>stop\<close>; \<open>None\<close> is a reset command that does not end.\<close>

definition ssh_stop ::
  "(string list \<Rightarrow> string + reset_event list) \<Rightarrow> buffer_answer option \<Rightarrow> 'h ssh \<Rightarrow> unit result option \<times> 'h ssh" where
  "ssh_stop spawn buf s =
     (case ss_session s of
        None \<Rightarrow> (Some (Ok ()), s)
      | Some h \<Rightarrow>
          (let s1 = s\<lparr>ss_session := None, ss_permits := DEFAULT_MAX_SESSIONS\<rparr>
           in (case sc_reset_cmd (ss_config s) of
                 None \<Rightarrow> (Some (Ok ()), s1)
               | Some reset_cmd \<Rightarrow> (run_reset spawn reset_cmd buf, s1))))"

definition ssh_ping :: "('h, 'k, 'p) ssh_net \<Rightarrow> 'h ssh \<Rightarrow> f64 result" where
  "ssh_ping N s =
     (case session_arc s of
        Inl _ \<Rightarrow> Err (comm ''SSH client is not running'')
      | Inr h \<Rightarrow>
          (case run_remote N h ''test .'' (Some PROBE_TIMEOUT) None of
             (_, Inl err) \<Rightarrow> Err err
           | (t, Inr (status, _)) \<Rightarrow>
               if status \<noteq> Some 0 then Err (comm ''SSH ping failed'') else Ok (sn_secs N t)))"

text \<open>
  The message loop of \<open>run_command\<close>: the time it takes, the exit status, the collected output and
  what was written to the buffer, whose failures are dropped.
\<close>

fun command_loop ::
  "nat \<Rightarrow> (nat \<times> ssh_msg) list \<Rightarrow> nat \<Rightarrow> 32 word option \<Rightarrow> collector \<Rightarrow> string list
     \<Rightarrow> nat \<times> 32 word option \<times> collector \<times> string list" where
  "command_loop tail [] t status out written = (t + tail, status, out, written)"
| "command_loop tail ((d, msg) # msgs) t status out written =
     (case msg of
        Msg_Data data \<Rightarrow>
          command_loop tail msgs (t + d) status (collector_push (lossy data) out) (written @ [lossy data])
      | Msg_Extended data \<Rightarrow>
          command_loop tail msgs (t + d) status (collector_push (lossy data) out) (written @ [lossy data])
      | Msg_ExitStatus w \<Rightarrow> command_loop tail msgs (t + d) (Some w) out written
      | Msg_Close \<Rightarrow> (t + d, status, out, written)
      | Msg_Other \<Rightarrow> command_loop tail msgs (t + d) status out written)"

definition returncode_of :: "32 word option \<Rightarrow> int" where
  "returncode_of status =
     (case status of Some w \<Rightarrow> if in_i32 (uint w) then uint w else - 1 | None \<Rightarrow> - 1)"

definition ssh_command_result :: "string \<Rightarrow> 32 word option \<Rightarrow> collector \<Rightarrow> f64 \<Rightarrow> cmd_result option result" where
  "ssh_command_result command status out exec_time =
     (if oc_panic out then Err (KernelPanicE ''kernel panic detected during command execution'')
      else Ok (Some \<lparr> cr_command = command, cr_returncode = returncode_of status,
                      cr_stdout = oc_buf out, cr_exec_time = exec_time \<rparr>))"

text \<open>
  \<open>run_command\<close> once a permit is free, with the texts offered to the buffer. The channel's own state
  does not change, whether the future completes or is dropped.
\<close>

definition ssh_run_command ::
  "('h, 'k, 'p) ssh_net \<Rightarrow> string \<Rightarrow> string option \<Rightarrow> (string \<times> string) list option \<Rightarrow> 'h ssh
     \<Rightarrow> (cmd_result option result \<times> string list, 'h ssh) future" where
  "ssh_run_command N command cwd env s =
     (if command = [] then ready (Err (comm ''command is empty''), []) s
      else
        (case session_arc s of
           Inl err \<Rightarrow> ready (Err err, []) s
         | Inr h \<Rightarrow>
             (case build_remote_command command cwd env (sc_sudo (ss_config s)) of
                Inl err \<Rightarrow> ready (Err err, []) s
              | Inr remote \<Rightarrow>
                  (let r = sn_exec N h remote
                   in (case start_exec r of
                         (t, Inl err) \<Rightarrow>
                           \<lparr> fut_time = t, fut_value = (Err err, []), fut_done = s, fut_dropped = \<lambda>_. s \<rparr>
                       | (t, Inr _) \<Rightarrow>
                           (case command_loop (xr_end r) (xr_msgs r) t None collector_new [] of
                              (t1, status, out, written) \<Rightarrow>
                                \<lparr> fut_time = t1,
                                  fut_value = (ssh_command_result command status out (sn_secs N t1), written),
                                  fut_done = s, fut_dropped = \<lambda>_. s \<rparr>))))))"

definition ssh_fetch_file :: "('h, 'k, 'p) ssh_net \<Rightarrow> string \<Rightarrow> 'h ssh \<Rightarrow> string result" where
  "ssh_fetch_file N target_path s =
     (if target_path = [] then Err (comm ''target path is empty'')
      else and_then (session_arc s) (\<lambda>h.
        and_then (snd (run_remote N h (''cat -- '' @ quote_sh target_path) None (Some FETCH_SIZE_CAP)))
          (\<lambda>(status, data). if status \<noteq> Some 0 then Err (comm ''failed to fetch remote file'') else Ok data)))"

section \<open>Results of commands\<close>

text \<open>The messages up to the closing one, the data in them and the last exit status.\<close>

definition until_close :: "(nat \<times> ssh_msg) list \<Rightarrow> ssh_msg list" where
  "until_close msgs = takeWhile (\<lambda>m. m \<noteq> Msg_Close) (map snd msgs)"

fun msg_data :: "ssh_msg \<Rightarrow> string option" where
  "msg_data (Msg_Data d) = Some d"
| "msg_data (Msg_Extended d) = Some d"
| "msg_data _ = None"

definition sent_data :: "(nat \<times> ssh_msg) list \<Rightarrow> string list" where
  "sent_data msgs = List.map_filter msg_data (until_close msgs)"

fun last_status :: "32 word option \<Rightarrow> ssh_msg list \<Rightarrow> 32 word option" where
  "last_status st [] = st"
| "last_status st (m # ms) = last_status (case m of Msg_ExitStatus w \<Rightarrow> Some w | _ \<Rightarrow> st) ms"

lemma sent_data_simps [simp]:
  "sent_data [] = []"
  "sent_data ((d, Msg_Data x) # msgs) = x # sent_data msgs"
  "sent_data ((d, Msg_Extended x) # msgs) = x # sent_data msgs"
  "sent_data ((d, Msg_ExitStatus w) # msgs) = sent_data msgs"
  "sent_data ((d, Msg_Close) # msgs) = []"
  "sent_data ((d, Msg_Other) # msgs) = sent_data msgs"
  by (simp_all add: sent_data_def until_close_def List.map_filter_simps)

lemma last_status_until [simp]:
  "last_status st (until_close []) = st"
  "last_status st (until_close ((d, Msg_Data x) # msgs)) = last_status st (until_close msgs)"
  "last_status st (until_close ((d, Msg_Extended x) # msgs)) = last_status st (until_close msgs)"
  "last_status st (until_close ((d, Msg_ExitStatus w) # msgs)) = last_status (Some w) (until_close msgs)"
  "last_status st (until_close ((d, Msg_Close) # msgs)) = st"
  "last_status st (until_close ((d, Msg_Other) # msgs)) = last_status st (until_close msgs)"
  by (simp_all add: until_close_def)

lemma command_loop_spec:
  "\<exists>t1. command_loop tail msgs t status out written =
     (t1, last_status status (until_close msgs), fold collector_push (map lossy (sent_data msgs)) out,
      written @ map lossy (sent_data msgs))"
proof (induction msgs arbitrary: t status out written)
  case (Cons m msgs)
  obtain d msg where m: "m = (d, msg)" by fastforce
  have data: "\<exists>t1. command_loop tail msgs (t + d) status (collector_push x out) (written @ [x]) =
      (t1, last_status status (until_close msgs),
       fold collector_push (map lossy (sent_data msgs)) (collector_push x out),
       written @ x # map lossy (sent_data msgs))" for x
    using Cons.IH [of "t + d" status "collector_push x out" "written @ [x]"] by simp
  show ?case unfolding m
    by (cases msg) (use Cons.IH data in \<open>simp_all\<close>)
qed simp

text \<open>
  Claim C13: the result of a command over SSH, once the request is accepted. The output is the text of
  every data message before the channel closes, in order and stdout and stderr merged, and the same
  texts were offered to the buffer; \<open>Kernel panic\<close> anywhere in it, message boundaries included, is the
  kernel panic error; otherwise the return code is the last exit status when it fits an \<open>i32\<close> and
  - 1 when it does not or when none came.
\<close>

theorem ssh_command_result_spec:
  assumes "command \<noteq> []" and "ss_session s = Some h"
    and "build_remote_command command cwd env (sc_sudo (ss_config s)) = Inr remote"
    and "start_exec (sn_exec N h remote) = (t, Inr u)"
  shows "\<exists>time.
     let texts = map lossy (sent_data (xr_msgs (sn_exec N h remote)));
         status = last_status None (until_close (xr_msgs (sn_exec N h remote)))
     in fut_value (ssh_run_command N command cwd env s) =
          (if sublist ''Kernel panic'' (concat texts)
           then Inl (KernelPanicE ''kernel panic detected during command execution'')
           else Inr (Some \<lparr> cr_command = command,
                  cr_returncode = (case status of
                      None \<Rightarrow> - 1
                    | Some w \<Rightarrow> if uint w < 2 ^ 31 then uint w else - 1),
                  cr_stdout = concat texts, cr_exec_time = sn_secs N time \<rparr>), texts)"
proof -
  let ?r = "sn_exec N h remote"
  obtain t1 where loop: "command_loop (xr_end ?r) (xr_msgs ?r) t None collector_new [] =
      (t1, last_status None (until_close (xr_msgs ?r)), collect_output (map lossy (sent_data (xr_msgs ?r))),
       map lossy (sent_data (xr_msgs ?r)))"
    using command_loop_spec [of "xr_end ?r" "xr_msgs ?r" t None collector_new "[]"]
    by (auto simp: collect_output_def)
  have code: "returncode_of st = (case st of None \<Rightarrow> - 1 | Some w \<Rightarrow> if uint w < 2 ^ 31 then uint w else - 1)" for st
    using order_trans [OF _ uint_ge_0, of "- 2147483648"]
    by (auto simp: returncode_of_def in_i32_def split: option.splits)
  show ?thesis
    using assms
    by (intro exI [of _ t1])
       (simp add: ssh_run_command_def session_arc_def loop collect_output_spec ssh_command_result_def code Let_def)
qed

text \<open>A server that answers every request at once, for the concrete instances.\<close>

definition answer_with :: "ssh_msg list \<Rightarrow> exec_reply" where
  "answer_with msgs =
     \<lparr> xr_open = (0, Inr ()), xr_exec = (0, Inr ()), xr_msgs = map (\<lambda>m. (0, m)) msgs, xr_end = 0 \<rparr>"

definition demo_net :: "(string \<Rightarrow> ssh_msg list) \<Rightarrow> (nat, nat, unit) ssh_net" where
  "demo_net reply =
     \<lparr> sn_connect = \<lambda>host port verify. (0, if verify (PublicKey 7) then Inr 1 else Inl ''unknown key''),
       sn_known = \<lambda>host port k known. Inr (k = 7),
       sn_auth_password = \<lambda>h user pw. (0, Inr True), sn_auth_none = \<lambda>h user. (0, Inr True),
       sn_auth_key = \<lambda>h user k alg. (0, Inr True), sn_read_key = \<lambda>path. (0, Inl ''no file''),
       sn_decode_key = \<lambda>d pw. Inl ''no key'', sn_is_rsa = \<lambda>k. False, sn_rsa_hash = \<lambda>h. (0, Inr None),
       sn_exec = \<lambda>h command. answer_with (reply command), sn_secs = \<lambda>t. F64_Fin 0 \<rparr>"

definition demo_ssh :: "nat ssh" where
  "demo_ssh = (inner_new ''ssh'' unreachable_default_config)\<lparr>ss_session := Some 1\<rparr>"

lemma ssh_command_result_spec_witness:
  "\<exists>time. fut_value (ssh_run_command (demo_net (\<lambda>_. [Msg_Data ''Kernel'', Msg_Extended '' panic'', Msg_ExitStatus 0, Msg_Close]))
       ''dmesg'' None None demo_ssh)
     = (Inl (KernelPanicE ''kernel panic detected during command execution''), [''Kernel'', '' panic''])"
proof -
  let ?N = "demo_net (\<lambda>_. [Msg_Data ''Kernel'', Msg_Extended '' panic'', Msg_ExitStatus 0, Msg_Close])"
  have r: "build_remote_command ''dmesg'' None None (sc_sudo (ss_config demo_ssh)) = Inr ''dmesg''"
    by (simp add: build_remote_command_def build_script_def demo_ssh_def inner_new_def unreachable_default_config_def)
  have e: "start_exec (sn_exec ?N 1 ''dmesg'') = (0, Inr ())"
    by (simp add: demo_net_def answer_with_def start_exec_def answer_in_def)
  have t: "lossy ''Kernel'' = ''Kernel''" "lossy '' panic'' = '' panic''" by (simp_all add: lossy_ascii)
  show ?thesis
    using ssh_command_result_spec [of "''dmesg''" demo_ssh 1 None None "''dmesg''" ?N, OF _ _ r e]
    by (simp add: demo_ssh_def demo_net_def answer_with_def t Let_def)
qed

text \<open>
  A character whose bytes arrive in two messages is lost: each half is decoded on its own and becomes
  a replacement character, so the output differs from the bytes the command wrote.
\<close>

lemma split_character_is_lost:
  "lossy [CHR 0xC3, CHR 0xA9] = [CHR 0xC3, CHR 0xA9]"
  "concat (map lossy [[CHR 0xC3], [CHR 0xA9]]) = replacement @ replacement"
  by code_simp+

section \<open>The lifecycle\<close>

lemma ssh_communicate_Ok:
  "ssh_communicate N s = (Some (Inr u), s') \<longleftrightarrow>
     \<not> ssh_active s \<and> (\<exists>h. connect_auth N (ss_config s) = Inr h \<and> probe_max_sessions N h \<le> MAX_PERMITS \<and>
       s' = s\<lparr>ss_permits := probe_max_sessions N h, ss_session := Some h\<rparr>)"
  by (auto simp: ssh_communicate_def set_max_sessions_def split: sum.splits option.splits if_splits)

interpretation ssh: partial_lifecycle ssh_active "ssh_communicate N" "ssh_stop spawn buf"
proof (unfold_locales, goal_cases)
  case (1 s u s')
  then show ?case by (auto simp: ssh_communicate_Ok ssh_active_def)
next
  case (2 s)
  then show ?case by (simp add: ssh_communicate_def)
next
  case (3 s u s')
  then show ?case by (auto simp: ssh_stop_def ssh_active_def Let_def split: option.splits)
next
  case (4 s)
  then show ?case by (simp add: ssh_stop_def ssh_active_def)
qed

text \<open>
  An SSH session is only ever opened to a server whose key is listed. When the client
  library refuses a connection whose key the verifier rejects (its documented contract), a session
  that \<open>communicate\<close> leaves behind was authenticated and its server presented a plain public key that
  the known-hosts file of the configuration lists for the host and port; a certificate, an unlisted
  key or an unreadable file all fail.
\<close>

theorem ssh_session_has_known_key:
  assumes refuses: "\<And>host port verify t h. sn_connect N host port verify = (t, Inr h) \<Longrightarrow> verify (key_of h)"
    and "ssh_communicate N s = (Some (Inr u), s')"
  shows "\<exists>h k. ss_session s' = Some h \<and> key_of h = PublicKey k \<and>
     sn_known N (sc_host (ss_config s)) (sc_port (ss_config s)) k (sc_known_hosts (ss_config s)) = Inr True \<and>
     authenticate N (ss_config s) h = Inr True"
proof -
  from assms(2) obtain h where conn: "connect_auth N (ss_config s) = Inr h" and s': "ss_session s' = Some h"
    by (auto simp: ssh_communicate_Ok)
  let ?c = "ss_config s"
  from conn have auth: "authenticate N ?c h = Inr True"
    and "snd (sn_connect N (sc_host ?c) (sc_port ?c) (check_server_key N ?c)) = Inr h"
    by (auto simp: connect_auth_def and_then_Ok answer_in_Ok split: if_splits)
  then have "check_server_key N ?c (key_of h)" by (intro refuses prod_eqI) auto
  then show ?thesis
    using auth s' by (auto simp: check_server_key_def split: server_key.splits sum.splits)
qed

lemma ssh_session_has_known_key_witness:
  "\<exists>h k. ss_session (snd (ssh_communicate (demo_net (\<lambda>_. [])) (inner_new ''ssh'' unreachable_default_config))) = Some h \<and>
     PublicKey 7 = PublicKey k"
proof -
  let ?N = "demo_net (\<lambda>_. [])" and ?s = "inner_new ''ssh'' unreachable_default_config :: nat ssh"
  have "parse_max_sessions [] = None" by code_simp
  then have "probe_max_sessions ?N h = 10" for h
    by (simp add: probe_max_sessions_def probes_def run_remote_def start_exec_def answer_in_def demo_net_def
        answer_with_def DEFAULT_MAX_SESSIONS_def)
  then have "fst (ssh_communicate ?N ?s) = Some (Inr ())"
    by (simp add: ssh_communicate_def connect_auth_def answer_in_def demo_net_def authenticate_def check_server_key_def
        ssh_active_def inner_new_def unreachable_default_config_def set_max_sessions_def MAX_PERMITS_def)
  then have c: "ssh_communicate ?N ?s = (Some (Inr ()), snd (ssh_communicate ?N ?s))" by (simp add: prod_eq_iff)
  have r: "sn_connect ?N host port verify = (t, Inr h) \<Longrightarrow> verify (PublicKey 7)" for host port verify t h
    by (simp add: demo_net_def split: if_splits)
  show ?thesis
    using ssh_session_has_known_key [of ?N "\<lambda>_. PublicKey 7", OF _ c] r by blast
qed

section \<open>Fetching a file\<close>

lemma remote_loop_spec:
  "length out \<le> c \<Longrightarrow>
   snd (remote_loop (Some c) tail msgs t status out) =
     (if length (out @ concat (sent_data msgs)) \<le> c
      then Ok (last_status status (until_close msgs), out @ concat (sent_data msgs))
      else Err (comm ''remote output exceeds size limit''))"
proof (induction msgs arbitrary: t status out)
  case (Cons m msgs)
  obtain d msg where m: "m = (d, msg)" by fastforce
  show ?case unfolding m
    by (cases msg) (use Cons in \<open>simp_all\<close>)
qed simp

text \<open>
  Claim C36: a file fetched over SSH is what the server sent up to the close of the channel, and only
  when the remote \<open>cat\<close> ended with status 0; more than 16 MiB is an error, whatever the status, so no
  result is longer.
\<close>

theorem ssh_fetch_file_spec:
  assumes "path \<noteq> []" and "ss_session s = Some h"
    and "start_exec (sn_exec N h (''cat -- '' @ quote_sh path)) = (t, Inr u)"
  shows "ssh_fetch_file N path s =
     (let msgs = xr_msgs (sn_exec N h (''cat -- '' @ quote_sh path)); sent = concat (sent_data msgs)
      in if 16777216 < length sent then Inl (comm ''remote output exceeds size limit'')
         else if last_status None (until_close msgs) = Some 0 then Inr sent
         else Inl (comm ''failed to fetch remote file''))"
  using assms remote_loop_spec [of "[]" FETCH_SIZE_CAP]
  by (simp add: ssh_fetch_file_def session_arc_def run_remote_def FETCH_SIZE_CAP_def Let_def)

lemma ssh_fetch_file_spec_witness:
  "ssh_fetch_file (demo_net (\<lambda>_. [Msg_Data ''ab'', Msg_ExitStatus 0, Msg_Data ''c'', Msg_Close, Msg_Data ''d''])) ''/x'' demo_ssh
     = Inr ''abc''"
proof -
  let ?N = "demo_net (\<lambda>_. [Msg_Data ''ab'', Msg_ExitStatus 0, Msg_Data ''c'', Msg_Close, Msg_Data ''d''])"
  have "start_exec (sn_exec ?N 1 (''cat -- '' @ quote_sh ''/x'')) = (0, Inr ())"
    by (simp add: demo_net_def answer_with_def start_exec_def answer_in_def)
  then show ?thesis
    using ssh_fetch_file_spec [of "''/x''" demo_ssh 1 ?N]
    by (simp add: demo_ssh_def demo_net_def answer_with_def Let_def)
qed

section \<open>Limits and defaults\<close>

text \<open>The number of permits is positive, but otherwise whatever the server's text says.\<close>

lemma probe_loop_pos: "1 \<le> probe_loop N h ps"
  by (induction ps) (auto simp: DEFAULT_MAX_SESSIONS_def split: sum.splits prod.splits option.splits)

lemma probe_max_sessions_pos: "1 \<le> probe_max_sessions N h"
  by (simp add: probe_max_sessions_def probe_loop_pos del: One_nat_def)

text \<open>
  A server whose configuration names a huge limit makes \<open>communicate\<close> panic instead of connecting:
  the value read is only bounded below before the semaphore is built from it.
\<close>

lemma huge_limit_panics:
  assumes "\<not> ssh_active s" and "connect_auth N (ss_config s) = Inr h" and "MAX_PERMITS < probe_max_sessions N h"
  shows "ssh_communicate N s = (None, s)"
  using assms by (simp add: ssh_communicate_def set_max_sessions_def)

lemma limit_is_read:
  assumes "n < 2 ^ 64"
  shows "parse_max_sessions (''MaxSessions '' @ show_nat n) = Some n"
proof -
  let ?d = "show_nat n" and ?s = "''MaxSessions '' @ show_nat n"
  have dig: "list_all is_digit ?d" and ne: "?d \<noteq> []" using show_nat_digits [of n] by auto
  then obtain b z where dz: "?d = b @ [z]" by (cases ?d rule: rev_cases) auto
  obtain c r where dc: "?d = c # r" using ne by (cases ?d) auto
  have z: "is_digit z" using dig unfolding dz by simp
  have c: "is_digit c" using dig unfolding dc by simp
  have noLF: "CHR 0x0A \<notin> set ?s" using dig by (auto simp: list_all_iff is_digit_def)
  have "trim_start ?s = ?s" by (simp add: trim_start_id ws1_def ws2_def ws3_def)
  moreover have "trim_end ?s = ?s"
    using digit_not_ws_suffix [OF z, of "''MaxSessions '' @ b"] dz by (simp add: trim_end_id)
  ultimately have trim: "trim ?s = ?s" by (simp add: trim_def)
  have cr: "strip_cr ?s = ?s" using dz z by (auto simp: is_digit_def)
  have "trim_start ?d = ?d" using digit_not_ws_prefix [OF c, of r] dc by (simp add: trim_start_id del: ws_prefix.simps)
  moreover have "concat (takeWhile (\<lambda>ch. \<not> is_space_char ch) (chars ?d)) = ?d"
  proof -
    have "chars ?d = map (\<lambda>c. [c]) ?d" using dig by (intro chars_ascii) (auto simp: list_all_iff is_digit_def)
    moreover have "takeWhile (\<lambda>ch. \<not> is_space_char ch) (map (\<lambda>c. [c]) ?d) = map (\<lambda>c. [c]) ?d"
      using dig digit_not_ws_prefix by (auto simp: takeWhile_eq_all_conv is_space_char_def list_all_iff simp del: ws_prefix.simps)
    moreover have "concat (map (\<lambda>c. [c]) ?d) = ?d" by (induction "?d") auto
    ultimately show ?thesis by (simp only:)
  qed
  ultimately have word: "first_word ?d = Some ?d" using ne by (simp add: first_word_def Let_def)
  have "session_line ?s = Some n"
    using trim word parse_show_unsigned [of n "2 ^ 64 - 1"] assms
    by (simp add: session_line_def starts_with_def Let_def)
  moreover have "split_on (CHR 0x0A) ?s = [?s]" by (rule split_on_id [OF noLF])
  ultimately show ?thesis
    using cr by (simp add: parse_max_sessions_def lines_def del: strip_cr.simps)
qed

text \<open>Without a home directory the defaults are not valid, and a new channel takes the fallback.\<close>

lemma default_config_needs_home:
  "ssh_config_from_map None Map.empty =
     Inl (CommunicationE (''cannot expand '' @ quoted [CHR 0x7E] @ '' in known_hosts: $HOME is not set''))"
  "sc_known_hosts (ss_config (ssh_new None name)) = ''~/.ssh/known_hosts''"
  by (simp_all add: ssh_config_from_map_def nonempty_def parse_port_def parse_sudo_def expand_known_hosts_def
      DEFAULT_KNOWN_HOSTS_def ssh_new_def inner_new_def unreachable_default_config_def)

section \<open>The reset command\<close>

text \<open>Events of a well-behaved process: no failing read, and the buffer takes every chunk.\<close>

definition quiet :: "buffer_answer option \<Rightarrow> reset_event \<Rightarrow> bool" where
  "quiet buf ev =
     (case ev of
        Out_Chunk data \<Rightarrow> write_chunk buf data = None
      | Err_Chunk data \<Rightarrow> write_chunk buf data = None
      | Out_Fail _ \<Rightarrow> False
      | Err_Fail _ \<Rightarrow> False
      | Wait_Fail _ \<Rightarrow> False
      | _ \<Rightarrow> True)"

fun is_exit :: "reset_event \<Rightarrow> bool" where
  "is_exit (Exited _ _) = True"
| "is_exit _ = False"

lemma reset_loop_quiet:
  assumes "list_all (quiet buf) events"
    and "out_done \<or> Out_End \<in> set events" and "err_done \<or> Err_End \<in> set events"
    and "(if st = None then [] else [the st]) @ List.map_filter (\<lambda>ev. case ev of Exited c shown \<Rightarrow> Some (c, shown) | _ \<Rightarrow> None) events = [(c, shown)]"
  shows "reset_loop buf events out_done err_done st = Some (reset_status c shown)"
  using assms
proof (induction events arbitrary: out_done err_done st)
  case Nil
  then show ?case by (auto simp: reset_done_def List.map_filter_simps split: if_splits)
next
  case (Cons ev events)
  show ?case
  proof (cases "reset_done out_done err_done st")
    case None
    then show ?thesis
      using Cons.prems
      by (cases ev) (auto simp: quiet_def List.map_filter_simps split: if_splits intro!: Cons.IH)
  next
    case (Some r)
    then show ?thesis
      using Cons.prems by (auto simp: reset_done_def List.map_filter_simps split: if_splits)
  qed
qed

text \<open>
  What \<open>stop\<close> reports when a reset command is configured. However the process interleaves its
  output, the ends of its pipes and its exit, once all of these have happened and every write was
  taken, the result is success exactly for exit code 0 and otherwise names the code or the signal;
  the session is gone and the permits are back to 10 in any case.
\<close>

theorem ssh_stop_reports_reset:
  assumes "ss_session s = Some h" and "sc_reset_cmd (ss_config s) = Some cmd"
    and "split_argv cmd = Inr argv" and "argv \<noteq> []" and "spawn argv = Inr events"
    and "list_all (quiet buf) events" and "Out_End \<in> set events" and "Err_End \<in> set events"
    and "List.map_filter (\<lambda>ev. case ev of Exited c shown \<Rightarrow> Some (c, shown) | _ \<Rightarrow> None) events = [(c, shown)]"
  shows "ssh_stop spawn buf s =
     (Some (if c = Some 0 then Inr ()
            else Inl (comm (''reset command exited with status '' @ (case c of Some n \<Rightarrow> show_int n | None \<Rightarrow> shown)))),
      s\<lparr>ss_session := None, ss_permits := 10\<rparr>)"
proof -
  have "reset_loop buf events False False None = Some (reset_status c shown)"
    using assms(6-9) by (intro reset_loop_quiet) auto
  then show ?thesis
    using assms(1-5)
    by (auto simp: ssh_stop_def run_reset_def reset_status_def DEFAULT_MAX_SESSIONS_def Let_def split: list.splits)
qed

lemma ssh_stop_reports_reset_witness:
  "ssh_stop (\<lambda>argv. Inr [Out_Chunk ''a'', Exited (Some 7) [], Err_End, Out_End]) None
       (demo_ssh\<lparr>ss_config := unreachable_default_config\<lparr>sc_reset_cmd := Some ''true''\<rparr>\<rparr>)
   = (Some (Inl (comm ''reset command exited with status 7'')),
      demo_ssh\<lparr>ss_config := unreachable_default_config\<lparr>sc_reset_cmd := Some ''true''\<rparr>,
        ss_session := None, ss_permits := 10\<rparr>)"
proof -
  let ?s = "demo_ssh\<lparr>ss_config := unreachable_default_config\<lparr>sc_reset_cmd := Some ''true''\<rparr>\<rparr>"
  have w: "split_argv ''true'' = Inr [''true'']" by code_simp
  have n: "show_int 7 = ''7''" by code_simp
  show ?thesis
    using ssh_stop_reports_reset [of ?s 1 "''true''" "[''true'']"
        "\<lambda>argv. Inr [Out_Chunk ''a'', Exited (Some 7) [], Err_End, Out_End]" _ None "Some 7" "[]"]
    by (simp add: demo_ssh_def unreachable_default_config_def w n quiet_def write_chunk_def
        List.map_filter_simps)
qed

section \<open>Concurrent commands and the session limit\<close>

text \<open>
  Commands, pings, fetched files, \<open>communicate\<close> and \<open>stop\<close> over handles that share one channel, cut at
  the points where they wait. Sessions and semaphores are numbered: \<open>lm_gen\<close> is the session in place,
  \<open>lm_sem\<close> the semaphore in place and \<open>lm_size\<close> the permits each was made with. A command holds the
  number of the session it cloned and of the semaphore it cloned after it. \<open>ping\<close> and \<open>fetch_file\<close>
  clone the session and go to \<open>run_remote\<close>, which opens a channel on it without asking the semaphore:
  \<open>Calling\<close>. \<open>serial\<close> restricts lifecycle operations to one at a time; the others always overlap them.
\<close>

datatype life_phase = Connected nat | Permits_Set nat | Taken

datatype cmd_phase = Has_Session nat | Waiting nat nat | Holding nat nat | Ended

datatype call_phase = Calling nat | Returned

record limits =
  lm_ssh :: "nat ssh"
  lm_gen :: nat
  lm_sem :: nat
  lm_size :: "nat \<Rightarrow> nat"
  lm_life :: "life_phase list"
  lm_cmds :: "cmd_phase list"
  lm_calls :: "call_phase list"

definition limits_init :: "nat ssh \<Rightarrow> limits" where
  "limits_init s =
     \<lparr> lm_ssh = s\<lparr>ss_session := None, ss_permits := DEFAULT_MAX_SESSIONS\<rparr>, lm_gen = 0, lm_sem = 0,
       lm_size = (\<lambda>_. DEFAULT_MAX_SESSIONS), lm_life = [], lm_cmds = [], lm_calls = [] \<rparr>"

definition holders :: "nat \<Rightarrow> cmd_phase list \<Rightarrow> nat" where
  "holders q cmds = length (filter (\<lambda>c. case c of Holding g q' \<Rightarrow> q' = q | _ \<Rightarrow> False) cmds)"

definition replace_semaphore :: "nat ssh \<Rightarrow> limits \<Rightarrow> limits" where
  "replace_semaphore s w =
     w\<lparr>lm_ssh := s, lm_sem := Suc (lm_sem w), lm_size := (lm_size w)(Suc (lm_sem w) := ss_permits s)\<rparr>"

inductive limit_step :: "(nat, 'k, 'p) ssh_net \<Rightarrow> bool \<Rightarrow> limits \<Rightarrow> limits \<Rightarrow> bool" for N serial where
  connect:
    "\<not> ssh_active (lm_ssh w) \<Longrightarrow> (serial \<Longrightarrow> lm_life w = []) \<Longrightarrow> connect_auth N (ss_config (lm_ssh w)) = Inr h \<Longrightarrow>
     limit_step N serial w (w\<lparr>lm_life := lm_life w @ [Connected h]\<rparr>)"
| permits:
    "lm_life w = ls @ Connected h # rs \<Longrightarrow> set_max_sessions (probe_max_sessions N h) (lm_ssh w) = Some s \<Longrightarrow>
     limit_step N serial w ((replace_semaphore s w)\<lparr>lm_life := ls @ Permits_Set h # rs\<rparr>)"
| session:
    "lm_life w = ls @ Permits_Set h # rs \<Longrightarrow>
     limit_step N serial w (w\<lparr>lm_ssh := (lm_ssh w)\<lparr>ss_session := Some h\<rparr>, lm_gen := Suc (lm_gen w), lm_life := ls @ rs\<rparr>)"
| take_session:
    "ssh_active (lm_ssh w) \<Longrightarrow> (serial \<Longrightarrow> lm_life w = []) \<Longrightarrow>
     limit_step N serial w (w\<lparr>lm_ssh := (lm_ssh w)\<lparr>ss_session := None\<rparr>, lm_life := lm_life w @ [Taken]\<rparr>)"
| reset_permits:
    "lm_life w = ls @ Taken # rs \<Longrightarrow> set_max_sessions DEFAULT_MAX_SESSIONS (lm_ssh w) = Some s \<Longrightarrow>
     limit_step N serial w ((replace_semaphore s w)\<lparr>lm_life := ls @ rs\<rparr>)"
| command:
    "session_arc (lm_ssh w) = Inr h \<Longrightarrow>
     limit_step N serial w (w\<lparr>lm_cmds := lm_cmds w @ [Has_Session (lm_gen w)]\<rparr>)"
| semaphore:
    "lm_cmds w = ls @ Has_Session g # rs \<Longrightarrow>
     limit_step N serial w (w\<lparr>lm_cmds := ls @ Waiting g (lm_sem w) # rs\<rparr>)"
| acquire:
    "lm_cmds w = ls @ Waiting g q # rs \<Longrightarrow> holders q (lm_cmds w) < lm_size w q \<Longrightarrow>
     limit_step N serial w (w\<lparr>lm_cmds := ls @ Holding g q # rs\<rparr>)"
| call:
    "session_arc (lm_ssh w) = Inr h \<Longrightarrow>
     limit_step N serial w (w\<lparr>lm_calls := lm_calls w @ [Calling (lm_gen w)]\<rparr>)"
| call_ends:
    "lm_calls w = ls @ c # rs \<Longrightarrow> limit_step N serial w (w\<lparr>lm_calls := ls @ Returned # rs\<rparr>)"
| finish:
    "lm_cmds w = ls @ c # rs \<Longrightarrow> limit_step N serial w (w\<lparr>lm_cmds := ls @ Ended # rs\<rparr>)"

fun cmd_gen :: "cmd_phase \<Rightarrow> nat option" where
  "cmd_gen (Has_Session g) = Some g"
| "cmd_gen (Waiting g q) = Some g"
| "cmd_gen (Holding g q) = Some g"
| "cmd_gen Ended = None"

fun cmd_sem :: "cmd_phase \<Rightarrow> nat option" where
  "cmd_sem (Waiting g q) = Some q"
| "cmd_sem (Holding g q) = Some q"
| "cmd_sem _ = None"

text \<open>No semaphore is held more often than it has permits.\<close>

definition permits_inv :: "limits \<Rightarrow> bool" where
  "permits_inv w \<longleftrightarrow>
     (\<forall>q. holders q (lm_cmds w) \<le> lm_size w q) \<and>
     (\<forall>c \<in> set (lm_cmds w). \<forall>q. cmd_sem c = Some q \<longrightarrow> q \<le> lm_sem w)"

lemma holders_fresh: "\<forall>c \<in> set cmds. \<forall>q. cmd_sem c = Some q \<longrightarrow> q \<le> n \<Longrightarrow> holders (Suc n) cmds = 0"
  by (auto simp: holders_def filter_empty_conv split: cmd_phase.splits)

lemma holders_append [simp]: "holders q (xs @ ys) = holders q xs + holders q ys"
  and holders_Nil [simp]: "holders q [] = 0"
  and holders_Cons [simp]: "holders q (c # cs) = (if \<exists>g. c = Holding g q then 1 else 0) + holders q cs"
  by (auto simp: holders_def split: cmd_phase.splits)

lemma permits_inv_step: "limit_step N serial w w' \<Longrightarrow> permits_inv w \<Longrightarrow> permits_inv w'"
proof (induction rule: limit_step.induct)
  case (permits w ls h rs s)
  then show ?case
    using holders_fresh [of "lm_cmds w" "lm_sem w"]
    by (fastforce simp: permits_inv_def replace_semaphore_def intro: le_SucI)
next
  case (reset_permits w ls rs s)
  then show ?case
    using holders_fresh [of "lm_cmds w" "lm_sem w"]
    by (fastforce simp: permits_inv_def replace_semaphore_def intro: le_SucI)
next
  case (acquire w ls g q rs)
  then show ?case by (auto simp: permits_inv_def)
next
  case (finish w ls c rs)
  have "holders q (ls @ Ended # rs) \<le> holders q (ls @ c # rs)" for q by simp
  then show ?case using finish by (fastforce simp: permits_inv_def intro: le_trans simp del: holders_append)
qed (auto simp: permits_inv_def)

text \<open>
  With one lifecycle operation at a time: while a session is in place nothing is under way, the
  semaphore in place was made for it, and every command of this session that has a semaphore has that
  one.
\<close>

fun life_inv :: "(nat, 'k, 'p) ssh_net \<Rightarrow> life_phase list \<Rightarrow> nat option \<Rightarrow> nat \<Rightarrow> bool" where
  "life_inv N [] sess n = (\<forall>h. sess = Some h \<longrightarrow> n = probe_max_sessions N h)"
| "life_inv N [Connected h] sess n = (sess = None)"
| "life_inv N [Permits_Set h] sess n = (sess = None \<and> n = probe_max_sessions N h)"
| "life_inv N [Taken] sess n = (sess = None)"
| "life_inv N (_ # _ # _) sess n = False"

definition serial_inv :: "(nat, 'k, 'p) ssh_net \<Rightarrow> limits \<Rightarrow> bool" where
  "serial_inv N w \<longleftrightarrow>
     life_inv N (lm_life w) (ss_session (lm_ssh w)) (lm_size w (lm_sem w)) \<and>
     (\<forall>c \<in> set (lm_cmds w). \<forall>g. cmd_gen c = Some g \<longrightarrow> g \<le> lm_gen w) \<and>
     (ssh_active (lm_ssh w) \<longrightarrow>
        (\<forall>c \<in> set (lm_cmds w). \<forall>q. cmd_gen c = Some (lm_gen w) \<longrightarrow> cmd_sem c = Some q \<longrightarrow> q = lm_sem w))"

lemma life_inv_one: "life_inv N (ls @ p # rs) sess n \<Longrightarrow> ls = [] \<and> rs = []"
  by (cases ls; cases rs; cases "tl ls") auto

lemma life_inv_active: "life_inv N ps (Some h) n \<Longrightarrow> ps = [] \<and> n = probe_max_sessions N h"
  by (cases "(N, ps, Some h, n)" rule: life_inv.cases) auto

lemma set_max_sessions_Some:
  "set_max_sessions n s = Some s' \<longleftrightarrow> n \<le> MAX_PERMITS \<and> s' = s\<lparr>ss_permits := n\<rparr>"
  by (auto simp: set_max_sessions_def)

lemma serial_inv_step:
  assumes "limit_step N True w w'" and "serial_inv N w"
  shows "serial_inv N w'"
  using assms
proof (induction rule: limit_step.induct)
  case (connect w h)
  then show ?case by (auto simp: serial_inv_def ssh_active_def)
next
  case (permits w ls h rs s)
  then have one: "ls = [] \<and> rs = []" by (auto simp: serial_inv_def dest: life_inv_one)
  with permits show ?case
    by (auto simp: serial_inv_def replace_semaphore_def set_max_sessions_Some ssh_active_def)
next
  case (session w ls h rs)
  then have one: "ls = [] \<and> rs = []" by (auto simp: serial_inv_def dest: life_inv_one)
  with session show ?case
    by (fastforce simp: serial_inv_def ssh_active_def)
next
  case (take_session w)
  then show ?case by (auto simp: serial_inv_def ssh_active_def)
next
  case (reset_permits w ls rs s)
  then have one: "ls = [] \<and> rs = []" by (auto simp: serial_inv_def dest: life_inv_one)
  with reset_permits show ?case
    by (auto simp: serial_inv_def replace_semaphore_def set_max_sessions_Some ssh_active_def)
next
  case (command w h)
  then show ?case by (auto simp: serial_inv_def)
next
  case (semaphore w ls g rs)
  then show ?case by (auto simp: serial_inv_def)
next
  case (acquire w ls g q rs)
  then show ?case by (auto simp: serial_inv_def)
next
  case (finish w ls c rs)
  then show ?case by (auto simp: serial_inv_def)
next
  case (call w h)
  then show ?case by (simp add: serial_inv_def)
next
  case (call_ends w ls c rs)
  then show ?case by (simp add: serial_inv_def)
qed

definition limit_reachable :: "(nat, 'k, 'p) ssh_net \<Rightarrow> bool \<Rightarrow> nat ssh \<Rightarrow> limits \<Rightarrow> bool" where
  "limit_reachable N serial s w \<longleftrightarrow> (limit_step N serial)\<^sup>*\<^sup>* (limits_init s) w"

lemma permits_inv_reachable:
  assumes "limit_reachable N serial s w"
  shows "permits_inv w"
  using assms unfolding limit_reachable_def
proof (induction rule: rtranclp_induct)
  case base
  then show ?case by (simp add: permits_inv_def limits_init_def)
qed (rule permits_inv_step)

lemma serial_inv_reachable:
  assumes "limit_reachable N True s w"
  shows "serial_inv N w"
  using assms unfolding limit_reachable_def
proof (induction rule: rtranclp_induct)
  case base
  then show ?case by (simp add: serial_inv_def limits_init_def ssh_active_def)
qed (rule serial_inv_step)

text \<open>
  The channels open on the session in place: those of commands, which hold a permit and cloned this
  session, and those of pings and fetched files.
\<close>

definition commands_open :: "limits \<Rightarrow> nat" where
  "commands_open w = length (filter (\<lambda>c. case c of Holding g q \<Rightarrow> g = lm_gen w | _ \<Rightarrow> False) (lm_cmds w))"

definition channels_open :: "limits \<Rightarrow> nat" where
  "channels_open w = commands_open w + length (filter (\<lambda>c. c = Calling (lm_gen w)) (lm_calls w))"

lemma length_filter_mono: "(\<And>x. x \<in> set xs \<Longrightarrow> P x \<Longrightarrow> Q x) \<Longrightarrow> length (filter P xs) \<le> length (filter Q xs)"
  by (induction xs) auto

lemma commands_within_limit:
  assumes "limit_reachable N True s w" and "ss_session (lm_ssh w) = Some h"
  shows "commands_open w \<le> probe_max_sessions N h"
proof -
  from assms have active: "ssh_active (lm_ssh w)" by (simp add: ssh_active_def)
  have inv: "serial_inv N w" by (rule serial_inv_reachable [OF assms(1)])
  have size: "lm_size w (lm_sem w) = probe_max_sessions N h"
    using inv assms(2) by (auto simp: serial_inv_def dest: life_inv_active)
  have "commands_open w \<le> holders (lm_sem w) (lm_cmds w)"
    unfolding commands_open_def holders_def
    using inv active by (intro length_filter_mono) (fastforce simp: serial_inv_def split: cmd_phase.splits)
  also have "\<dots> \<le> lm_size w (lm_sem w)"
    using permits_inv_reachable [OF assms(1)] by (simp add: permits_inv_def)
  finally show ?thesis by (simp add: size)
qed

text \<open>The steps that bring a fresh channel to its first session.\<close>

definition connected_world :: "nat \<Rightarrow> nat ssh \<Rightarrow> nat \<Rightarrow> limits" where
  "connected_world n s h =
     \<lparr> lm_ssh = s\<lparr>ss_permits := n, ss_session := Some h\<rparr>, lm_gen = 1, lm_sem = 1,
       lm_size = (\<lambda>_. DEFAULT_MAX_SESSIONS)(1 := n), lm_life = [], lm_cmds = [], lm_calls = [] \<rparr>"

lemma connected_world_reachable:
  assumes "connect_auth N (ss_config s) = Inr h" and "probe_max_sessions N h = n" and "n \<le> MAX_PERMITS"
  shows "limit_reachable N serial s (connected_world n s h)"
proof -
  let ?w0 = "limits_init s"
  let ?w1 = "?w0\<lparr>lm_life := [Connected h]\<rparr>"
  let ?s = "(lm_ssh ?w1)\<lparr>ss_permits := n\<rparr>"
  let ?w2 = "(replace_semaphore ?s ?w1)\<lparr>lm_life := [Permits_Set h]\<rparr>"
  have "limit_step N serial ?w0 ?w1"
    using limit_step.connect [of ?w0 serial N h] assms(1) by (simp add: limits_init_def ssh_active_def)
  moreover have "limit_step N serial ?w1 ?w2"
    using limit_step.permits [of ?w1 "[]" h "[]" N ?s serial] assms(2,3)
    by (simp add: set_max_sessions_Some)
  moreover have "limit_step N serial ?w2 (connected_world n s h)"
    using limit_step.session [of ?w2 "[]" h "[]" N serial]
    by (simp add: connected_world_def replace_semaphore_def limits_init_def)
  ultimately show ?thesis
    unfolding limit_reachable_def by (meson converse_rtranclp_into_rtranclp rtranclp.rtrancl_refl)
qed

text \<open>A session whose permits are all taken by commands, and any number of pings besides.\<close>

definition busy_world :: "nat \<Rightarrow> nat ssh \<Rightarrow> nat \<Rightarrow> nat \<Rightarrow> nat \<Rightarrow> limits" where
  "busy_world n s h i k =
     (connected_world n s h)\<lparr>lm_cmds := replicate i (Holding 1 1), lm_calls := replicate k (Calling 1)\<rparr>"

lemma busy_world_sel [simp]:
  "lm_ssh (busy_world n s h i k) = s\<lparr>ss_permits := n, ss_session := Some h\<rparr>"
  "lm_gen (busy_world n s h i k) = 1" "lm_sem (busy_world n s h i k) = 1"
  "lm_size (busy_world n s h i k) (Suc 0) = n" "lm_cmds (busy_world n s h i k) = replicate i (Holding 1 1)"
  "lm_calls (busy_world n s h i k) = replicate k (Calling 1)"
  "session_arc (s\<lparr>ss_permits := n, ss_session := Some h\<rparr>) = Inr h"
  by (simp_all add: busy_world_def connected_world_def session_arc_def)

lemma holders_replicate: "holders q (replicate i (Holding g q)) = i"
  by (induction i) simp_all

lemma one_more_command:
  assumes "i < n"
  shows "(limit_step N True)\<^sup>*\<^sup>* (busy_world n s h i 0) (busy_world n s h (Suc i) 0)"
proof -
  let ?w = "busy_world n s h i 0" and ?held = "replicate i (Holding 1 1)"
  let ?w1 = "?w\<lparr>lm_cmds := ?held @ [Has_Session 1]\<rparr>" and ?w2 = "?w\<lparr>lm_cmds := ?held @ [Waiting 1 1]\<rparr>"
  have "limit_step N True ?w ?w1"
    using limit_step.command [of ?w h N True] by simp
  moreover have "limit_step N True ?w1 ?w2"
    using limit_step.semaphore [of ?w1 ?held 1 "[]" N True] by simp
  moreover have "limit_step N True ?w2 (?w\<lparr>lm_cmds := ?held @ [Holding 1 1]\<rparr>)"
    using limit_step.acquire [of ?w2 ?held 1 1 "[]" N True] assms by (simp add: holders_replicate)
  moreover have "?w\<lparr>lm_cmds := ?held @ [Holding 1 1]\<rparr> = busy_world n s h (Suc i) 0"
    by (simp add: busy_world_def replicate_append_same)
  ultimately show ?thesis by (metis converse_rtranclp_into_rtranclp rtranclp.rtrancl_refl)
qed

lemma one_more_call:
  "limit_step N True (busy_world n s h i k) (busy_world n s h i (Suc k))"
proof -
  have "(busy_world n s h i k)\<lparr>lm_calls := replicate k (Calling 1) @ [Calling 1]\<rparr> = busy_world n s h i (Suc k)"
    by (simp add: busy_world_def replicate_append_same)
  then show ?thesis using limit_step.call [of "busy_world n s h i k" h N True] by simp
qed

lemma busy_world_reachable:
  assumes "connect_auth N (ss_config s) = Inr h" and "probe_max_sessions N h = n" and "n \<le> MAX_PERMITS"
  shows "limit_reachable N True s (busy_world n s h n k)"
proof -
  have "(limit_step N True)\<^sup>*\<^sup>* (busy_world n s h 0 0) (busy_world n s h i 0)" if "i \<le> n" for i
    using that
  proof (induction i)
    case (Suc i)
    then show ?case
      using rtranclp_trans [OF _ one_more_command [of i n N s h], of "busy_world n s h 0 0"] by simp
  qed simp
  moreover have "(limit_step N True)\<^sup>*\<^sup>* (busy_world n s h n 0) (busy_world n s h n k)"
    by (induction k) (auto intro: rtranclp.rtrancl_into_rtrancl one_more_call)
  moreover have "busy_world n s h 0 0 = connected_world n s h"
    by (simp add: busy_world_def connected_world_def)
  ultimately show ?thesis
    using connected_world_reachable [OF assms, of True] unfolding limit_reachable_def
    by (metis order_refl rtranclp_trans)
qed

text \<open>
  Claim C14: the limit of sessions binds commands only. However commands, pings and fetched files
  interleave with each other and with the lifecycle, as long as \<open>communicate\<close> and \<open>stop\<close> do not
  overlap each other, a session never carries more commands at once than the number of sessions its
  server was found to allow, and commands left over from earlier sessions do not count against it.
  But pings and fetched files take no permit: with the limit reached by commands, any number of
  channels can be open beyond it.
\<close>

theorem session_limit_binds_commands:
  assumes "connect_auth N (ss_config s) = Inr h" and "probe_max_sessions N h \<le> MAX_PERMITS"
  shows "(\<forall>w h'. limit_reachable N True s w \<and> ss_session (lm_ssh w) = Some h' \<longrightarrow>
        commands_open w \<le> probe_max_sessions N h') \<and>
    (\<forall>k. \<exists>w. limit_reachable N True s w \<and> ss_session (lm_ssh w) = Some h \<and>
        commands_open w = probe_max_sessions N h \<and> channels_open w = probe_max_sessions N h + k)"
proof -
  let ?w = "busy_world (probe_max_sessions N h) s h (probe_max_sessions N h)"
  have "limit_reachable N True s (?w k) \<and> ss_session (lm_ssh (?w k)) = Some h \<and>
      commands_open (?w k) = probe_max_sessions N h \<and> channels_open (?w k) = probe_max_sessions N h + k" for k
    using busy_world_reachable [OF assms(1) refl assms(2), of k]
    by (simp add: commands_open_def channels_open_def)
  then show ?thesis using commands_within_limit by blast
qed

lemma session_limit_binds_commands_witness:
  "\<exists>w. limit_reachable (demo_net (\<lambda>_. [])) True demo_ssh w \<and> commands_open w = 10 \<and> channels_open w = 12"
proof -
  let ?N = "demo_net (\<lambda>_. [])"
  have none: "parse_max_sessions [] = None" by code_simp
  have p: "probe_max_sessions ?N 1 = 10"
    by (simp add: probe_max_sessions_def probes_def run_remote_def start_exec_def answer_in_def demo_net_def
        answer_with_def DEFAULT_MAX_SESSIONS_def none)
  have c: "connect_auth ?N (ss_config demo_ssh) = Inr 1"
    by (simp add: connect_auth_def answer_in_def demo_net_def authenticate_def check_server_key_def
        demo_ssh_def inner_new_def unreachable_default_config_def)
  have "probe_max_sessions ?N 1 \<le> MAX_PERMITS" unfolding p by (simp add: MAX_PERMITS_def)
  from session_limit_binds_commands [OF c this] have "\<exists>w. limit_reachable ?N True demo_ssh w \<and>
      ss_session (lm_ssh w) = Some 1 \<and> commands_open w = 10 \<and> channels_open w = 10 + 2"
    unfolding p by blast
  then show ?thesis by auto
qed

text \<open>
  When a new \<open>communicate\<close> overlaps the end of a \<open>stop\<close>, the stop puts the default back over the limit
  the new session was given: the server allows one session and the channel hands out ten permits.
\<close>

lemma overlapping_stop_lifts_limit:
  assumes "connect_auth N (ss_config s) = Inr h" and "probe_max_sessions N h = 1"
  shows "\<exists>w. limit_reachable N False s w \<and> ss_session (lm_ssh w) = Some h \<and> lm_life w = [] \<and>
     ss_permits (lm_ssh w) = 10 \<and> lm_size w (lm_sem w) = 10"
proof -
  let ?w0 = "connected_world 1 s h"
  let ?w1 = "?w0\<lparr>lm_ssh := (lm_ssh ?w0)\<lparr>ss_session := None\<rparr>, lm_life := [Taken]\<rparr>"
  let ?w2 = "?w1\<lparr>lm_life := [Taken, Connected h]\<rparr>"
  let ?w3 = "(replace_semaphore (lm_ssh ?w2) ?w2)\<lparr>lm_life := [Taken, Permits_Set h]\<rparr>"
  let ?w4 = "?w3\<lparr>lm_ssh := (lm_ssh ?w3)\<lparr>ss_session := Some h\<rparr>, lm_gen := Suc (lm_gen ?w3), lm_life := [Taken]\<rparr>"
  let ?s = "(lm_ssh ?w4)\<lparr>ss_permits := DEFAULT_MAX_SESSIONS\<rparr>"
  let ?w5 = "(replace_semaphore ?s ?w4)\<lparr>lm_life := []\<rparr>"
  have "limit_reachable N False s ?w0"
    by (rule connected_world_reachable) (use assms in \<open>simp_all add: MAX_PERMITS_def\<close>)
  moreover have "limit_step N False ?w0 ?w1"
    using limit_step.take_session [of ?w0 False N] by (simp add: connected_world_def ssh_active_def)
  moreover have "limit_step N False ?w1 ?w2"
    using limit_step.connect [of ?w1 False N h] assms(1) by (simp add: connected_world_def ssh_active_def)
  moreover have "limit_step N False ?w2 ?w3"
    using limit_step.permits [of ?w2 "[Taken]" h "[]" N "lm_ssh ?w2" False] assms(2)
    by (simp add: connected_world_def set_max_sessions_Some MAX_PERMITS_def)
  moreover have "limit_step N False ?w3 ?w4"
    using limit_step.session [of ?w3 "[Taken]" h "[]" N False]
    by (simp add: connected_world_def replace_semaphore_def)
  moreover have "limit_step N False ?w4 ?w5"
    using limit_step.reset_permits [of ?w4 "[]" "[]" ?s N False]
    by (simp add: set_max_sessions_Some MAX_PERMITS_def DEFAULT_MAX_SESSIONS_def)
  ultimately have "limit_reachable N False s ?w5"
    unfolding limit_reachable_def by (meson rtranclp.rtrancl_into_rtrancl)
  moreover have "ss_session (lm_ssh ?w5) = Some h \<and> lm_life ?w5 = [] \<and> ss_permits (lm_ssh ?w5) = 10 \<and>
      lm_size ?w5 (lm_sem ?w5) = 10"
    by (simp add: replace_semaphore_def DEFAULT_MAX_SESSIONS_def)
  ultimately show ?thesis by blast
qed

end
