(* ===== verification/Qemu_Config.thy ===== *)
theory Qemu_Config
  imports Shell_Words Prelude
begin

text \<open>
  Crate \<open>kirk-com-qemu\<close>, \<open>config.rs\<close>: the validated configuration and the argument vector the virtual
  machine is started with.
\<close>

section \<open>Configuration\<close>

datatype serial_type = Isa | Virtio

definition serial_parse :: "string \<Rightarrow> serial_type result" where
  "serial_parse val =
     (if val = ''isa'' then Ok Isa
      else if val = ''virtio'' then Ok Virtio
      else Err (CommunicationE (''Serial protocol must be isa or virtio, got '' @ quoted val)))"

definition transport_dev :: "serial_type \<Rightarrow> string" where
  "transport_dev t = (case t of Isa \<Rightarrow> ''/dev/ttyS1'' | Virtio \<Rightarrow> ''/dev/vport1p1'')"

definition console :: "serial_type \<Rightarrow> string" where
  "console t = (case t of Isa \<Rightarrow> ''ttyS0'' | Virtio \<Rightarrow> ''hvc0'')"

record qemu_config =
  qc_tmpdir :: string
  qc_image :: "string option"
  qc_kernel :: "string option"
  qc_initrd :: "string option"
  qc_user :: "string option"
  qc_password :: "string option"
  qc_prompt :: string
  qc_system :: string
  qc_ram :: string
  qc_smp :: string
  qc_serial :: serial_type
  qc_virtfs :: "string option"
  qc_options :: "string option"

text \<open>What the file system answers about a path.\<close>

record path_tests =
  pt_is_dir :: "string \<Rightarrow> bool"
  pt_is_file :: "string \<Rightarrow> bool"

definition get_nonempty :: "str_map \<Rightarrow> string \<Rightarrow> string option" where
  "get_nonempty cfg key = (case cfg key of Some v \<Rightarrow> if v = [] then None else Some v | None \<Rightarrow> None)"

definition get_or :: "str_map \<Rightarrow> string \<Rightarrow> string \<Rightarrow> string" where
  "get_or cfg key dflt = (case cfg key of Some v \<Rightarrow> v | None \<Rightarrow> dflt)"

definition check_file :: "path_tests \<Rightarrow> string \<Rightarrow> string option \<Rightarrow> unit result" where
  "check_file P label path =
     (case path of
        Some p \<Rightarrow>
          if pt_is_file P p then Ok ()
          else Err (CommunicationE (label @ '' location doesn'' @ [sq] @ ''t exist: '' @ p))
      | None \<Rightarrow> Ok ())"

definition qemu_validate :: "path_tests \<Rightarrow> qemu_config \<Rightarrow> qemu_config result" where
  "qemu_validate P c =
     (if qc_tmpdir c = [] \<or> \<not> pt_is_dir P (qc_tmpdir c) then
        Err (CommunicationE (''Temporary directory doesn'' @ [sq] @ ''t exist: '' @ qc_tmpdir c))
      else
        and_then (check_file P ''Image'' (qc_image c)) (\<lambda>_.
          and_then (check_file P ''Kernel'' (qc_kernel c)) (\<lambda>_.
            and_then (check_file P ''initrd'' (qc_initrd c)) (\<lambda>_.
              if qc_ram c = [] then Err (CommunicationE ''RAM is not defined'')
              else if qc_smp c = [] then Err (CommunicationE ''CPU is not defined'')
              else
                (case qc_virtfs c of
                   Some dir \<Rightarrow>
                     if pt_is_dir P dir then Ok c
                     else Err (CommunicationE (''Virtual FS directory doesn'' @ [sq] @ ''t exist: '' @ dir))
                 | None \<Rightarrow> Ok c)))))"

definition qemu_config_from_map :: "path_tests \<Rightarrow> str_map \<Rightarrow> qemu_config result" where
  "qemu_config_from_map P cfg =
     and_then (serial_parse (get_or cfg ''serial'' ''isa'')) (\<lambda>serial.
       qemu_validate P
         \<lparr> qc_tmpdir = get_or cfg ''tmpdir'' [], qc_image = get_nonempty cfg ''image'',
           qc_kernel = get_nonempty cfg ''kernel'', qc_initrd = get_nonempty cfg ''initrd'',
           qc_user = get_nonempty cfg ''user'', qc_password = get_nonempty cfg ''password'',
           qc_prompt = get_or cfg ''prompt'' ''#'', qc_system = get_or cfg ''system'' ''x86_64'',
           qc_ram = get_or cfg ''ram'' ''2G'', qc_smp = get_or cfg ''smp'' ''2'', qc_serial = serial,
           qc_virtfs = get_nonempty cfg ''virtfs'', qc_options = get_nonempty cfg ''options'' \<rparr>)"

section \<open>The argument vector\<close>

definition qemu_cmd :: "qemu_config \<Rightarrow> string" where
  "qemu_cmd c = ''qemu-system-'' @ qc_system c"

definition transport :: "qemu_config \<Rightarrow> nat \<Rightarrow> string \<times> string" where
  "transport c pid = (transport_dev (qc_serial c), qc_tmpdir c @ ''/transport-'' @ show_nat pid)"

definition serial_args :: "serial_type \<Rightarrow> string list" where
  "serial_args t =
     (case t of
        Isa \<Rightarrow> [''-serial'', ''chardev:tty'', ''-serial'', ''chardev:transport'']
      | Virtio \<Rightarrow> [''-device'', ''virtio-serial'', ''-device'', ''virtconsole,chardev=tty'',
          ''-device'', ''virtserialport,chardev=transport''])"

definition build_argv :: "qemu_config \<Rightarrow> nat \<Rightarrow> (string \<times> string list) result" where
  "build_argv c pid =
     (let tty_log = qc_tmpdir c @ ''/ttyS0-'' @ show_nat pid @ ''.log'';
          args = [''-enable-kvm'', ''-display'', ''none'', ''-m'', qc_ram c, ''-smp'', qc_smp c,
                   ''-device'', ''virtio-rng-pci'', ''-chardev'', ''stdio,id=tty,logfile='' @ tty_log]
            @ serial_args (qc_serial c)
            @ [''-chardev'', ''file,id=transport,path='' @ snd (transport c pid)]
            @ (case qc_virtfs c of
                 Some dir \<Rightarrow> [''-virtfs'', ''local,path='' @ dir @ '',mount_tag=host0,security_model=mapped-xattr,readonly=on'']
               | None \<Rightarrow> [])
            @ (case qc_image c of Some i \<Rightarrow> [''-drive'', ''if=virtio,cache=unsafe,file='' @ i] | None \<Rightarrow> [])
            @ (case qc_initrd c of Some i \<Rightarrow> [''-initrd'', i] | None \<Rightarrow> [])
            @ (case qc_kernel c of
                 Some k \<Rightarrow> [''-append'', ''console='' @ console (qc_serial c) @ '' ignore_loglevel'', ''-kernel'', k]
               | None \<Rightarrow> [])
      in (case qc_options c of
            Some options \<Rightarrow> and_then (split_options options) (\<lambda>words. Ok (qemu_cmd c, args @ words))
          | None \<Rightarrow> Ok (qemu_cmd c, args)))"

section \<open>Names of variables\<close>

text \<open>\<open>validate_env_key\<close> of \<open>expect.rs\<close>; \<open>show_debug\<close> renders the name in the message.\<close>

definition env_key_first :: "char \<Rightarrow> bool" where
  "env_key_first c \<longleftrightarrow> (65 \<le> code c \<and> code c \<le> 90) \<or> (97 \<le> code c \<and> code c \<le> 122) \<or> c = CHR ''_''"

definition validate_env_key :: "(string \<Rightarrow> string) \<Rightarrow> string \<Rightarrow> unit result" where
  "validate_env_key show_debug key =
     (case key of
        c # r \<Rightarrow>
          if env_key_first c \<and> list_all (\<lambda>b. env_key_first b \<or> is_digit b) r then Ok ()
          else Err (CommunicationE (''Invalid environment variable name: '' @ show_debug key))
      | [] \<Rightarrow> Err (CommunicationE (''Invalid environment variable name: '' @ show_debug key)))"

section \<open>What a configuration promises\<close>

lemma check_file_Ok: "check_file P label path = Inr u \<longleftrightarrow> (\<forall>p. path = Some p \<longrightarrow> pt_is_file P p)"
  by (auto simp: check_file_def split: option.splits)

lemma qemu_validate_Ok:
  "qemu_validate P c = Inr c' \<longleftrightarrow>
     c' = c \<and> qc_tmpdir c \<noteq> [] \<and> pt_is_dir P (qc_tmpdir c) \<and> qc_ram c \<noteq> [] \<and> qc_smp c \<noteq> [] \<and>
     (\<forall>p. qc_image c = Some p \<longrightarrow> pt_is_file P p) \<and> (\<forall>p. qc_kernel c = Some p \<longrightarrow> pt_is_file P p) \<and>
     (\<forall>p. qc_initrd c = Some p \<longrightarrow> pt_is_file P p) \<and>
     (\<forall>d. qc_virtfs c = Some d \<longrightarrow> pt_is_dir P d)"
  by (cases "qc_virtfs c")
     (auto simp: qemu_validate_def and_then_Ok check_file_Ok split: if_splits)

text \<open>
  A validated configuration names a temporary directory and files that exist, and its texts are those
  of the map or the defaults.
\<close>

lemma qemu_config_from_map_Ok:
  assumes "qemu_config_from_map P cfg = Inr c"
  shows "pt_is_dir P (qc_tmpdir c)" and "qc_ram c \<noteq> []" and "qc_smp c \<noteq> []"
    and "qc_image c = Some p \<Longrightarrow> pt_is_file P p" and "qc_kernel c = Some p \<Longrightarrow> pt_is_file P p"
    and "qc_initrd c = Some p \<Longrightarrow> pt_is_file P p" and "qc_virtfs c = Some p \<Longrightarrow> pt_is_dir P p"
  using assms by (auto simp: qemu_config_from_map_def and_then_Ok qemu_validate_Ok)

text \<open>
  Options written as quoted words reach the virtual machine as exactly these arguments, after the
  arguments of the configuration without options.
\<close>

lemma build_argv_options:
  assumes "build_argv (c\<lparr>qc_options := None\<rparr>) pid = Inr (prog, args)" and "split_options options = Inr words"
  shows "build_argv (c\<lparr>qc_options := Some options\<rparr>) pid = Inr (prog, args @ words)"
  using assms by (simp add: build_argv_def Let_def transport_def qemu_cmd_def cong: option.case_cong)

end
