(* ===== verification/Qemu_Expect.thy ===== *)
theory Qemu_Expect
  imports Shell_Words Rust_Async
begin

text \<open>
  Crate \<open>kirk-com-qemu\<close>, \<open>expect.rs\<close>: waiting for a message on the serial console and reading the
  return code out of a reply. The console is the list of what reads return, each with the time it
  arrives; times are nanoseconds.
\<close>

section \<open>Waiting for a message\<close>

definition SERIAL_CAP :: nat where
  "SERIAL_CAP = 8 * 1024 * 1024"

definition IDLE_BACKOFF :: nat where
  "IDLE_BACKOFF = millis 5"

definition PANIC_SETTLE :: nat where
  "PANIC_SETTLE = seconds 2"

definition PANIC_DRAIN :: nat where
  "PANIC_DRAIN = seconds 5"

datatype serial_read = Rd_Data string | Rd_None | Rd_Fail string

type_synonym console_reads = "(nat \<times> serial_read) list"

record wait_options =
  wo_timeout :: nat
  wo_settle :: nat

definition wait_options_default :: wait_options where
  "wait_options_default = \<lparr> wo_timeout = seconds 300, wo_settle = PANIC_SETTLE \<rparr>"

text \<open>
  \<open>ProcSerial::read_chunk\<close>: nothing once the pipe has been taken away or has ended; what is read is
  decoded by itself.
\<close>

definition proc_read_chunk :: "(string + string) option \<Rightarrow> serial_read" where
  "proc_read_chunk stdout =
     (case stdout of
        None \<Rightarrow> Rd_None
      | Some (Inl e) \<Rightarrow> Rd_Fail e
      | Some (Inr bytes) \<Rightarrow> if bytes = [] then Rd_None else Rd_Data (lossy bytes))"

text \<open>A character cut by the end of a read is not put together again.\<close>

lemma cut_character_is_lost:
  "proc_read_chunk (Some (Inr [CHR 0xC3, CHR 0xA9])) = Rd_Data [CHR 0xC3, CHR 0xA9]"
  "proc_read_chunk (Some (Inr [CHR 0xC3])) = Rd_Data replacement"
  "proc_read_chunk (Some (Inr [CHR 0xA9])) = Rd_Data replacement"
  by (simp_all add: proc_read_chunk_def) code_simp+

text \<open>
  What surrounds a wait: the rendering of a message in an error, whether \<open>cancel\<close> is set or the
  machine is dead at a time, and what the output buffer answers to a write.
\<close>

record wait_env =
  we_debug :: "string \<Rightarrow> string"
  we_stopped :: "nat \<Rightarrow> bool"
  we_write :: "string \<Rightarrow> kirk_error option"

text \<open>The outcome, the state left in \<open>ExpectState\<close>, the reads still to come and the time.\<close>

record wait_end =
  wr_result :: "string result"
  wr_pending :: string
  wr_panicked :: bool
  wr_reads :: console_reads
  wr_now :: nat

definition wait_timed_out :: "wait_env \<Rightarrow> string \<Rightarrow> string \<Rightarrow> console_reads \<Rightarrow> nat \<Rightarrow> wait_end" where
  "wait_timed_out W message stdout reads now =
     \<lparr> wr_result = Err (CommunicationE (''Timed out waiting for '' @ we_debug W message)),
       wr_pending = stdout, wr_panicked = False, wr_reads = reads, wr_now = now \<rparr>"

text \<open>The branch of a kernel panic: settle, one more read, and the last 4 KiB of the output.\<close>

definition panic_excerpt :: "string \<Rightarrow> string" where
  "panic_excerpt s = drop (floor_char_boundary s (length s - 4096)) s"

definition wait_panic :: "wait_options \<Rightarrow> string \<Rightarrow> console_reads \<Rightarrow> nat \<Rightarrow> wait_end" where
  "wait_panic opts stdout reads now =
     (let settled = now + wo_settle opts;
          (stdout1, reads1, now1) =
            (case reads of
               (t, ev) # rest \<Rightarrow>
                 if t \<le> settled + PANIC_DRAIN
                 then (case ev of Rd_Data d \<Rightarrow> stdout @ d | _ \<Rightarrow> stdout, rest, max settled t)
                 else (stdout, reads, settled + PANIC_DRAIN)
             | [] \<Rightarrow> (stdout, [], settled + PANIC_DRAIN))
      in \<lparr> wr_result = Err (KernelPanicE (''guest kernel panic: '' @ panic_excerpt stdout1)),
           wr_pending = [], wr_panicked = True, wr_reads = reads1, wr_now = now1 \<rparr>)"

text \<open>The checks at the head of the loop, in their order.\<close>

definition wait_check ::
  "wait_env \<Rightarrow> wait_options \<Rightarrow> string \<Rightarrow> nat \<Rightarrow> string \<Rightarrow> console_reads \<Rightarrow> nat \<Rightarrow> wait_end option" where
  "wait_check W opts message deadline stdout reads now =
     (if we_stopped W now then
        Some \<lparr> wr_result = Ok stdout, wr_pending = stdout, wr_panicked = False, wr_reads = reads, wr_now = now \<rparr>
      else
        (case str_find message stdout of
           Some pos \<Rightarrow>
             Some \<lparr> wr_result = Ok stdout, wr_pending = drop (pos + length message) stdout, wr_panicked = False,
                    wr_reads = reads, wr_now = now \<rparr>
         | None \<Rightarrow>
             if contains stdout ''Kernel panic'' then Some (wait_panic opts stdout reads now)
             else if deadline \<le> now then Some (wait_timed_out W message stdout reads now)
             else None))"

fun wait_loop ::
  "wait_env \<Rightarrow> wait_options \<Rightarrow> string \<Rightarrow> nat \<Rightarrow> string \<Rightarrow> console_reads \<Rightarrow> nat \<Rightarrow> wait_end" where
  "wait_loop W opts message deadline stdout [] now =
     (case wait_check W opts message deadline stdout [] now of
        Some e \<Rightarrow> e
      | None \<Rightarrow> wait_timed_out W message stdout [] deadline)"
| "wait_loop W opts message deadline stdout ((t, ev) # reads) now =
     (case wait_check W opts message deadline stdout ((t, ev) # reads) now of
        Some e \<Rightarrow> e
      | None \<Rightarrow>
          if deadline < t then wait_timed_out W message stdout ((t, ev) # reads) deadline
          else
            (case ev of
               Rd_Fail err \<Rightarrow>
                 \<lparr> wr_result = Err (CommunicationE err), wr_pending = stdout, wr_panicked = False,
                   wr_reads = reads, wr_now = max now t \<rparr>
             | Rd_None \<Rightarrow> wait_loop W opts message deadline stdout reads (max now t + IDLE_BACKOFF)
             | Rd_Data d \<Rightarrow>
                 if d = [] then wait_loop W opts message deadline stdout reads (max now t + IDLE_BACKOFF)
                 else
                   (case we_write W d of
                      Some err \<Rightarrow>
                        \<lparr> wr_result = Err err, wr_pending = [], wr_panicked = False, wr_reads = reads,
                          wr_now = max now t \<rparr>
                    | None \<Rightarrow>
                        if SERIAL_CAP < length stdout + length d then
                          \<lparr> wr_result = Err (CommunicationE ''Serial output exceeds 8 MiB cap''),
                            wr_pending = stdout, wr_panicked = False, wr_reads = reads, wr_now = max now t \<rparr>
                        else wait_loop W opts message deadline (stdout @ d) reads (max now t))))"

definition wait_for_message ::
  "wait_env \<Rightarrow> wait_options \<Rightarrow> string \<Rightarrow> string \<Rightarrow> console_reads \<Rightarrow> nat \<Rightarrow> wait_end" where
  "wait_for_message W opts message pending reads now =
     wait_loop W opts message (now + wo_timeout opts) pending reads now"

section \<open>Replies\<close>

text \<open>
  \<open>rx\<close> is the match of the pattern \<open>(?P<retcode>\d+)-code\<close>: its start and the group. The pattern is
  compiled by a library; on ASCII text it finds what \<open>match_retcode\<close> finds, the leftmost run of
  digits followed by the rest.
\<close>

fun match_retcode :: "string \<Rightarrow> string \<Rightarrow> (nat \<times> string) option" where
  "match_retcode ref [] = None"
| "match_retcode ref (c # s) =
     (let ds = takeWhile is_digit (c # s)
      in if ds \<noteq> [] \<and> starts_with (CHR ''-'' # ref) (drop (length ds) (c # s)) then Some (0, ds)
         else map_option (\<lambda>(i, d). (Suc i, d)) (match_retcode ref s))"

definition reads_ascii :: "(string \<Rightarrow> string \<Rightarrow> (nat \<times> string) option) \<Rightarrow> bool" where
  "reads_ascii rx \<longleftrightarrow>
     (\<forall>ref s. list_all (\<lambda>c. code c < 128) s \<longrightarrow> list_all (\<lambda>c. code c < 128) ref \<longrightarrow> rx ref s = match_retcode ref s)"

definition parse_reply ::
  "(string \<Rightarrow> string \<Rightarrow> (nat \<times> string) option) \<Rightarrow> (string \<Rightarrow> string) \<Rightarrow> string \<Rightarrow> string
     \<Rightarrow> (string \<times> int) result" where
  "parse_reply rx show_debug stdout ref =
     (if trim stdout = [] then Ok (stdout, - 1)
      else
        (case rx ref stdout of
           None \<Rightarrow> Err (CommunicationE (''Can'' @ [sq] @ ''t read return code from reply '' @ show_debug stdout))
         | Some (marker, digits) \<Rightarrow>
             (let out = (if 1 \<le> marker \<and> is_char_boundary stdout 1 then drop 1 (take marker stdout) else [])
              in (case parse_signed (- (2 ^ 31)) (2 ^ 31 - 1) digits of
                    Some n \<Rightarrow> Ok (out, n)
                  | None \<Rightarrow>
                      Err (CommunicationE
                        (if list_all is_digit digits then ''number too large to fit in target type''
                         else ''invalid digit found in string''))))))"

section \<open>What a wait returns\<close>

lemma str_find_extend: "str_find p a = Some i \<Longrightarrow> str_find p (a @ b) = Some i"
proof (induction a arbitrary: i)
  case Nil
  then show ?case by (cases b) (auto simp: starts_with_def split: if_splits)
next
  case (Cons c a)
  have "starts_with p (c # a) \<Longrightarrow> starts_with p (c # a @ b)"
    by (metis append_Cons prefix_append starts_with_prefix)
  moreover have "starts_with p (c # a @ b) \<Longrightarrow> \<not> starts_with p (c # a) \<Longrightarrow> str_find p a = Some j \<Longrightarrow> False" for j
  proof -
    assume pre: "starts_with p (c # a @ b)" "\<not> starts_with p (c # a)" and found: "str_find p a = Some j"
    from found have "length p \<le> length a" using str_find_Some by fastforce
    then have "take (length p) (c # a @ b) = take (length p) (c # a)" by (cases "length p") auto
    with pre show False by (simp add: starts_with_def)
  qed
  ultimately show ?case using Cons by (auto split: if_splits)
qed

lemma wait_panic_result: "\<exists>e. wr_result (wait_panic opts stdout reads now) = Inl (KernelPanicE e)"
  by (auto simp: wait_panic_def Let_def split: prod.splits)

lemma wait_panic_not_Ok [simp]: "wr_result (wait_panic opts stdout reads now) \<noteq> Inr out"
  using wait_panic_result [of opts stdout reads now] by auto

lemma wait_loop_prefix: "wr_result (wait_loop W opts message deadline stdout reads now) = Inr out \<Longrightarrow> prefix stdout out"
proof (induction W opts message deadline stdout reads now rule: wait_loop.induct)
  case (1 W opts message deadline stdout now)
  then show ?case
    by (auto simp: wait_check_def wait_timed_out_def split: if_splits option.splits)
next
  case (2 W opts message deadline stdout t ev reads now)
  show ?case
  proof (cases "wait_check W opts message deadline stdout ((t, ev) # reads) now")
    case None
    then show ?thesis
      using 2
      by (auto simp: wait_timed_out_def split: if_splits option.splits serial_read.splits
          dest: append_prefixD)
  next
    case (Some e)
    then show ?thesis
      using "2.prems"
      by (auto simp: wait_check_def wait_timed_out_def split: if_splits option.splits)
  qed
qed

text \<open>Reads that all bring data, as the chunks and the times they arrive.\<close>

abbreviation data_reads :: "(nat \<times> string) list \<Rightarrow> console_reads" where
  "data_reads cs \<equiv> map (\<lambda>(t, c). (t, Rd_Data c)) cs"

definition calm_env :: "wait_env \<Rightarrow> bool" where
  "calm_env W \<longleftrightarrow> (\<forall>t. \<not> we_stopped W t) \<and> (\<forall>d. we_write W d = None)"

lemma wait_loop_finds:
  assumes "calm_env W" and "str_find message (stdout @ concat (map snd cs)) = Some pos"
    and "\<not> sublist ''Kernel panic'' (stdout @ concat (map snd cs))"
    and "length (stdout @ concat (map snd cs)) \<le> SERIAL_CAP"
    and "\<forall>(t, c) \<in> set cs. t < deadline \<and> c \<noteq> []" and "now < deadline"
  shows "\<exists>k \<le> length cs.
     let r = wait_loop W opts message deadline stdout (data_reads cs) now; out = stdout @ concat (map snd (take k cs))
     in wr_result r = Inr out \<and> str_find message out = Some pos \<and>
        wr_pending r = drop (pos + length message) out \<and> wr_panicked r = False \<and>
        wr_reads r = data_reads (drop k cs) \<and> wr_now r < deadline \<and> now \<le> wr_now r"
  using assms
proof (induction cs arbitrary: stdout now)
  case Nil
  then show ?case by (intro exI [of _ 0]) (simp add: calm_env_def wait_check_def)
next
  case (Cons x cs)
  obtain t c where x: "x = (t, c)" by fastforce
  show ?case
  proof (cases "str_find message stdout")
    case (Some i)
    then have "i = pos" using str_find_extend [OF Some] Cons.prems(2) by auto
    then show ?thesis
      using Cons.prems(1,6) Some by (intro exI [of _ 0]) (simp add: x calm_env_def wait_check_def Let_def)
  next
    case None
    have calm: "\<not> sublist ''Kernel panic'' stdout" using Cons.prems(3) by (auto simp: sublist_append)
    have check: "wait_check W opts message deadline stdout ((t, Rd_Data c) # data_reads cs) now = None"
      using None Cons.prems(1,6) calm by (simp add: wait_check_def calm_env_def contains_sublist)
    have step: "wait_loop W opts message deadline stdout (data_reads (x # cs)) now =
        wait_loop W opts message deadline (stdout @ c) (data_reads cs) (max now t)"
      using check Cons.prems(1,4,5) by (simp add: x calm_env_def)
    obtain k where "k \<le> length cs" and
      "let r = wait_loop W opts message deadline (stdout @ c) (data_reads cs) (max now t);
           out = (stdout @ c) @ concat (map snd (take k cs))
       in wr_result r = Inr out \<and> str_find message out = Some pos \<and>
          wr_pending r = drop (pos + length message) out \<and> wr_panicked r = False \<and>
          wr_reads r = data_reads (drop k cs) \<and> wr_now r < deadline \<and> max now t \<le> wr_now r"
      using Cons.IH [of "stdout @ c" "max now t"] Cons.prems x by auto
    then show ?thesis
      unfolding step by (intro exI [of _ "Suc k"]) (simp add: x Let_def)
  qed
qed

text \<open>
  A wait that times out keeps everything it has read for the next one, and leaves the reads that come
  after its deadline.
\<close>

lemma wait_loop_keeps:
  assumes "calm_env W" and "str_find message (stdout @ concat (map snd cs)) = None"
    and "\<not> sublist ''Kernel panic'' (stdout @ concat (map snd cs))"
    and "length (stdout @ concat (map snd cs)) \<le> SERIAL_CAP"
    and "\<forall>(t, c) \<in> set cs. t < deadline \<and> c \<noteq> []" and "now < deadline"
    and "\<forall>(t, ev) \<in> set late. deadline < t"
  shows "wait_loop W opts message deadline stdout (data_reads cs @ late) now =
     wait_timed_out W message (stdout @ concat (map snd cs)) late deadline"
  using assms
proof (induction cs arbitrary: stdout now)
  case Nil
  then have "wait_check W opts message deadline stdout late now = None"
    by (simp add: wait_check_def calm_env_def contains_sublist)
  then show ?case using Nil.prems(7) by (cases late) auto
next
  case (Cons x cs)
  obtain t c where x: "x = (t, c)" by fastforce
  have calm: "\<not> sublist ''Kernel panic'' stdout" using Cons.prems(3) by (auto simp: sublist_append)
  have none: "str_find message stdout = None"
    using Cons.prems(2) str_find_extend [of message stdout] by (cases "str_find message stdout") auto
  have "wait_check W opts message deadline stdout ((t, Rd_Data c) # data_reads cs @ late) now = None"
    using none Cons.prems(1,6) calm by (simp add: wait_check_def calm_env_def contains_sublist)
  then have "wait_loop W opts message deadline stdout (data_reads (x # cs) @ late) now =
      wait_loop W opts message deadline (stdout @ c) (data_reads cs @ late) (max now t)"
    using Cons.prems(1,4,5) by (simp add: x calm_env_def)
  then show ?case using Cons.IH [of "stdout @ c" "max now t"] Cons.prems x by auto
qed

text \<open>
  Whether text that mentions a kernel panic is an error depends on how it is cut into reads: the
  message is looked for first, so it hides a panic that arrives with it and not one that arrives before.
\<close>

lemma panic_depends_on_reads:
  assumes "calm_env W" and "sublist ''Kernel panic'' a" and "str_find m a = None" and "str_find m (a @ b) = Some i"
    and "m \<noteq> []" and "length (a @ b) \<le> SERIAL_CAP" and "now < deadline" and "t < deadline" and "a \<noteq> []"
  shows "wr_result (wait_loop W opts m deadline [] [(t, Rd_Data (a @ b))] now) = Inr (a @ b)"
    and "\<exists>e. wr_result (wait_loop W opts m deadline [] [(t, Rd_Data a), (t, Rd_Data b)] now) = Inl (KernelPanicE e)"
proof -
  have none: "wait_check W opts m deadline [] reads now = None" for reads
    using assms(1,5,7) by (simp add: wait_check_def calm_env_def contains_def)
  show "wr_result (wait_loop W opts m deadline [] [(t, Rd_Data (a @ b))] now) = Inr (a @ b)"
    using none assms by (simp add: calm_env_def wait_check_def)
  have "wait_check W opts m deadline a [(t, Rd_Data b)] (max now t) = Some (wait_panic opts a [(t, Rd_Data b)] (max now t))"
    using assms(1,2,3) by (simp add: wait_check_def calm_env_def contains_sublist)
  then show "\<exists>e. wr_result (wait_loop W opts m deadline [] [(t, Rd_Data a), (t, Rd_Data b)] now) = Inl (KernelPanicE e)"
    using none assms wait_panic_result [of opts a "[(t, Rd_Data b)]" "max now t"] by (simp add: calm_env_def)
qed

section \<open>What a reply means\<close>

lemma ws_not_digit:
  "ws1 (code a) \<Longrightarrow> \<not> is_digit a" "ws2 (code a) (code b) \<Longrightarrow> \<not> is_digit a \<and> \<not> is_digit b"
  "ws3 (code a) (code b) (code c) \<Longrightarrow> \<not> is_digit a \<and> \<not> is_digit b \<and> \<not> is_digit c"
  unfolding ws1_def ws2_def ws3_def is_digit_def by linarith+

lemma ws_prefix_digit:
  assumes "is_digit c" and "c \<in> set s"
  shows "c \<in> set (drop (ws_prefix s) s)"
proof -
  have "c \<notin> set (take (ws_prefix s) s)"
  proof (cases s)
    case (Cons x r)
    then show ?thesis
      using assms(1) by (cases r; cases "tl r") (auto dest: ws_not_digit)
  qed simp
  then show ?thesis
    using assms(2) by (metis UnE append_take_drop_id set_append)
qed

lemma ws_suffix_digit:
  assumes "is_digit c" and "c \<in> set s"
  shows "c \<in> set (take (length s - ws_suffix s) s)"
proof -
  have "c \<notin> set (take (ws_suffix s) (rev s))"
  proof (cases "rev s")
    case (Cons x r)
    then show ?thesis
      using assms(1) by (cases r; cases "tl r") (auto simp: ws_suffix_def dest: ws_not_digit)
  qed simp
  then have "c \<notin> set (drop (length s - ws_suffix s) s)" by (simp add: take_rev)
  then show ?thesis
    using assms(2) by (metis UnE append_take_drop_id set_append)
qed

lemma trim_digit: "is_digit c \<Longrightarrow> c \<in> set s \<Longrightarrow> c \<in> set (trim s)"
proof -
  assume c: "is_digit c" and s: "c \<in> set s"
  have "c \<in> set (trim_start s)"
    using s
  proof (induction s rule: trim_start.induct)
    case (1 s)
    then show ?case
      using ws_prefix_digit [OF c, of s] by (subst trim_start.simps) (auto simp del: ws_prefix.simps)
  qed
  moreover have "c \<in> set t \<Longrightarrow> c \<in> set (trim_end t)" for t
  proof (induction t rule: trim_end.induct)
    case (1 s)
    then show ?case
      using ws_suffix_digit [OF c, of s] by (subst trim_end.simps) auto
  qed
  ultimately show ?thesis by (simp add: trim_def)
qed

text \<open>No earlier place can match: the reference has no dash and does not occur before the code.\<close>

lemma no_early_reference:
  assumes "\<not> sublist ref (out @ ds)" and "CHR ''-'' \<notin> set ref" and "list_all is_digit ds"
    and "prefix (CHR ''-'' # ref) (drop j (out @ ds @ CHR ''-'' # ref @ post))"
  shows "length out \<le> j"
proof (rule ccontr)
  assume "\<not> length out \<le> j"
  then obtain c out' where o: "drop j out = c # out'" by (cases "drop j out") auto
  then have pre: "prefix ref (out' @ ds @ CHR ''-'' # ref @ post)"
    using assms(4) \<open>\<not> length out \<le> j\<close> by (metis Cons_prefix_Cons append_Cons drop_append not_le_imp_less
        diff_is_0_eq' drop0 less_imp_le)
  have "suffix out' out"
    using o by (metis suffix_ConsD suffix_drop)
  then have "suffix (out' @ ds) (out @ ds)" by (auto simp: suffix_def)
  then have "sublist (out' @ ds) (out @ ds)" by (rule suffix_imp_sublist)
  moreover have "prefix ref (out' @ ds)"
  proof (rule ccontr)
    assume "\<not> prefix ref (out' @ ds)"
    then obtain r where "ref = (out' @ ds) @ r" "prefix r (CHR ''-'' # ref @ post)" "r \<noteq> []"
      using pre by (metis append.assoc append_Nil2 prefix_append prefix_order.refl)
    then show False using assms(2) by (cases r) auto
  qed
  ultimately show False
    using assms(1) by (metis prefix_imp_sublist sublist_order.order_trans)
qed

lemma match_retcode_reply:
  assumes "list_all is_digit ds" and "ds \<noteq> []" and "CHR ''-'' \<notin> set ref"
  shows "out = [] \<or> \<not> is_digit (last out) \<Longrightarrow> \<not> sublist ref (out @ ds) \<Longrightarrow>
     match_retcode ref (out @ ds @ CHR ''-'' # ref @ post) = Some (length out, ds)"
proof (induction out)
  case Nil
  obtain d dr where ds: "ds = d # dr" using assms(2) by (cases ds) auto
  have "takeWhile is_digit (ds @ CHR ''-'' # ref @ post) = ds"
    using assms(1) by (subst takeWhile_append2) (auto simp: list_all_iff is_digit_def)
  then show ?case by (simp add: ds starts_with_def)
next
  case (Cons c out)
  let ?s = "(c # out) @ ds @ CHR ''-'' # ref @ post"
  have "\<exists>x \<in> set (c # out). \<not> is_digit x" using Cons.prems(1) by (metis last_in_set list.distinct(1))
  then have run: "takeWhile is_digit ?s = takeWhile is_digit (c # out)"
    by (metis takeWhile_append1)
  have "length (takeWhile is_digit (c # out)) < length (c # out)"
    using \<open>\<exists>x \<in> set (c # out). \<not> is_digit x\<close>
    by (metis length_takeWhile_le nat_less_le takeWhile_eq_all_conv takeWhile_eq_take take_all_iff order_refl)
  then have "\<not> prefix (CHR ''-'' # ref) (drop (length (takeWhile is_digit ?s)) ?s)"
    unfolding run
    using no_early_reference [OF Cons.prems(2) assms(3,1), of "length (takeWhile is_digit (c # out))" post] by auto
  then have "match_retcode ref ?s = map_option (\<lambda>(i, d). (Suc i, d)) (match_retcode ref (out @ ds @ CHR ''-'' # ref @ post))"
    by (simp add: starts_with_prefix Let_def)
  moreover have "out = [] \<or> \<not> is_digit (last out)" using Cons.prems(1) by auto
  moreover have "\<not> sublist ref (out @ ds)" using Cons.prems(2) by (auto simp: sublist_Cons_right)
  ultimately show ?case using Cons.IH by simp
qed

lemma parse_signed_show_nat: "n < 2 ^ 31 \<Longrightarrow> parse_signed (- (2 ^ 31)) (2 ^ 31 - 1) (show_nat n) = Some (int n)"
  using parse_show_signed [of "- (2 ^ 31)" "int n" "2 ^ 31 - 1"] by (simp add: show_int_def)

abbreviation ascii :: "string \<Rightarrow> bool" where
  "ascii s \<equiv> list_all (\<lambda>c. code c < 128) s"

lemma digits_ascii: "list_all is_digit ds \<Longrightarrow> ascii ds"
  by (auto simp: list_all_iff is_digit_def)

lemma ascii_boundary: "ascii s \<Longrightarrow> is_char_boundary s 1 \<or> s = []"
  by (cases s; cases "tl s") (auto simp: is_char_boundary_def is_cont_byte_def)

text \<open>
  Reading a reply back: one byte left over from before, the output of the command and its return code
  give exactly this output and this code, when the output does not end in a digit.
\<close>

lemma parse_reply_reads:
  assumes "reads_ascii rx" and "ascii (b # out)" and "ascii ref" and "ascii post" and "CHR ''-'' \<notin> set ref"
    and "\<not> is_digit (last (b # out))" and "\<not> sublist ref (b # out @ show_nat n)" and "n < 2 ^ 31"
  shows "parse_reply rx show_debug (b # out @ show_nat n @ CHR ''-'' # ref @ post) ref = Inr (out, int n)"
proof -
  let ?s = "b # out @ show_nat n @ CHR ''-'' # ref @ post"
  have ds: "list_all is_digit (show_nat n)" "show_nat n \<noteq> []" using show_nat_digits [of n] by auto
  have as: "ascii ?s" using assms(2,3,4) digits_ascii [OF ds(1)] by simp
  have m: "match_retcode ref ?s = Some (length (b # out), show_nat n)"
    using match_retcode_reply [OF ds assms(5), of "b # out" post] assms(6,7) by simp
  obtain d where "d \<in> set (show_nat n)" "is_digit d" using ds by (cases "show_nat n") auto
  then have "d \<in> set (trim ?s)" by (intro trim_digit) auto
  then have "trim ?s \<noteq> []" by (metis empty_iff list.set(1))
  moreover have "rx ref ?s = Some (length (b # out), show_nat n)"
    using assms(1) as assms(3) m by (simp add: reads_ascii_def)
  moreover have "is_char_boundary ?s 1" using ascii_boundary [OF as] by simp
  ultimately show ?thesis
    using parse_signed_show_nat [OF assms(8)] by (simp add: parse_reply_def Let_def)
qed

text \<open>
  Output that ends in a digit without a newline runs into the code: the digits are taken for the
  beginning of the return code and cut off the output.
\<close>

lemma digits_run_into_code:
  "reads_ascii rx \<Longrightarrow> parse_reply rx show_debug (CHR 0x0A # ''total 5'' @ ''0'' @ ''-aB3dE6gH9j'') ''aB3dE6gH9j'' = Inr (''total '', 50)"
proof -
  assume rx: "reads_ascii rx"
  have "rx ''aB3dE6gH9j'' (CHR 0x0A # ''total 5'' @ ''0'' @ ''-aB3dE6gH9j'') = Some (7, ''50'')"
  proof -
    have "match_retcode ''aB3dE6gH9j'' (CHR 0x0A # ''total 5'' @ ''0'' @ ''-aB3dE6gH9j'') = Some (7, ''50'')"
      by code_simp
    then show ?thesis using rx by (simp add: reads_ascii_def)
  qed
  moreover have "trim (CHR 0x0A # ''total 5'' @ ''0'' @ ''-aB3dE6gH9j'') \<noteq> []" by code_simp
  moreover have "parse_signed (- (2 ^ 31)) (2 ^ 31 - 1) ''50'' = Some 50"
    by (simp add: parse_signed_def parse_digits_def digits_val_def is_digit_def)
  ultimately show ?thesis by (simp add: parse_reply_def Let_def is_char_boundary_def is_cont_byte_def)
qed

end
