(* ===== verification/Qemu_Channel.thy ===== *)
theory Qemu_Channel
  imports Qemu_Config Qemu_Expect Plugin
begin

text \<open>
  Crate \<open>kirk-com-qemu\<close>, \<open>lib.rs\<close>: the channel that drives a virtual machine over its serial console.
  The machine is a parameter (\<open>vm_host\<close>): how it starts, what typing on its console does and brings
  back, whether it is alive at a time, and killing it. An operation gives no result (\<open>None\<close>) when it
  waits for a lock that is held: every lock that is held when an operation starts is held by another
  task, every other one by the operation itself.
\<close>

section \<open>The machine\<close>

definition EXPECT_TIMEOUT :: nat where "EXPECT_TIMEOUT = seconds 300"
definition POWER_OFF_TIMEOUT :: nat where "POWER_OFF_TIMEOUT = seconds 30"
definition DRAIN_TIMEOUT :: nat where "DRAIN_TIMEOUT = seconds 2"
definition MAX_TRANSPORT_BYTES :: nat where "MAX_TRANSPORT_BYTES = 64 * 1024 * 1024"

datatype spawn_error = Not_Found | Spawn_Error string

text \<open>Writing to the console: done after a time, a broken pipe, or another error.\<close>

datatype typing = Typed nat | Broken_Pipe string | Type_Error string

record 'g vm_host =
  vh_pid :: nat
  vh_debug :: "string \<Rightarrow> string"
  vh_regex :: "string \<Rightarrow> string \<Rightarrow> (nat \<times> string) option"
  vh_code :: "nat \<Rightarrow> string" \<comment> \<open>the marker of each \<open>exec\<close>\<close>
  vh_spawn :: "string \<Rightarrow> string list \<Rightarrow> nat \<Rightarrow> spawn_error + 'g \<times> console_reads \<times> string"
    \<comment> \<open>the machine, its first reads and the transport file it makes\<close>
  vh_alive :: "'g \<Rightarrow> nat \<Rightarrow> bool"
  vh_type :: "string \<Rightarrow> nat \<Rightarrow> 'g \<Rightarrow> typing \<times> 'g \<times> console_reads \<times> string"
    \<comment> \<open>the answer, the machine, the reads it brings and what it appends to the transport file\<close>
  vh_kill :: "'g \<Rightarrow> nat \<Rightarrow> (string + unit) \<times> 'g"
  vh_reap :: "'g \<Rightarrow> nat \<Rightarrow> nat \<times> (string + unit)" \<comment> \<open>\<open>wait\<close>: how long it takes and its answer\<close>
  vh_write :: "string \<Rightarrow> kirk_error option" \<comment> \<open>the output buffer\<close>
  vh_metadata :: "string \<Rightarrow> string + nat" \<comment> \<open>size of the transport file with these contents\<close>
  vh_read :: "string \<Rightarrow> string + string" \<comment> \<open>what reading it gives\<close>
  vh_secs :: "nat \<Rightarrow> f64"

record 'g qemu =
  qm_name :: string
  qm_config :: "qemu_config option"
  qm_child :: "'g option"
  qm_reads :: console_reads
  qm_stderr :: bool
  qm_comm :: bool
  qm_cmd :: bool
  qm_fetch :: bool
  qm_stopping :: bool
  qm_panicked :: bool
  qm_logged_in :: bool
  qm_last_read :: string
  qm_last_pos :: nat
  qm_file :: string \<comment> \<open>contents of the transport file\<close>
  qm_codes :: nat
  qm_now :: nat

definition qemu_new :: "'g qemu" where
  "qemu_new =
     \<lparr> qm_name = ''qemu'', qm_config = None, qm_child = None, qm_reads = [], qm_stderr = False,
       qm_comm = False, qm_cmd = False, qm_fetch = False, qm_stopping = False, qm_panicked = False,
       qm_logged_in = False, qm_last_read = [], qm_last_pos = 0, qm_file = [], qm_codes = 0, qm_now = 0 \<rparr>"

definition fresh_clone :: "string \<Rightarrow> 'g qemu \<Rightarrow> 'g qemu" where
  "fresh_clone name s = qemu_new\<lparr>qm_name := name, qm_config := qm_config s\<rparr>"

definition qemu_setup :: "path_tests \<Rightarrow> str_map \<Rightarrow> 'g qemu \<Rightarrow> unit result \<times> 'g qemu" where
  "qemu_setup P cfg s =
     (case qemu_config_from_map P cfg of
        Inl err \<Rightarrow> (Err err, s)
      | Inr c \<Rightarrow> (Ok (), s\<lparr>qm_config := Some c\<rparr>))"

definition qemu_config_help :: "(string \<times> string) list" where
  "qemu_config_help =
     [(''image'', ''qemu image location''), (''kernel'', ''kernel image location''),
      (''initrd'', ''initrd image location''),
      (''user'', ''user name (default: '' @ [CHR 0x27, CHR 0x27] @ '')''),
      (''password'', ''user password (default: '' @ [CHR 0x27, CHR 0x27] @ '')''),
      (''prompt'', ''prompt string (default: '' @ [CHR 0x27] @ ''#'' @ [CHR 0x27] @ '')''),
      (''system'', ''system architecture (default: x86_64)''), (''ram'', ''RAM of the VM (default: 2G)''),
      (''smp'', ''number of CPUs (default: 2)''),
      (''serial'', ''type of serial protocol. isa|virtio (default: isa)''),
      (''virtfs'', ''directory to mount inside VM''), (''options'', ''user defined options'')]"

definition qemu_plugin :: "path_tests \<Rightarrow> 'g qemu plugin_ops" where
  "qemu_plugin F =
     \<lparr> pl_name = qm_name, pl_config_help = \<lambda>_. qemu_config_help, pl_setup = qemu_setup F,
       pl_clone_box = fresh_clone \<rparr>"

lemma qemu_setup_reads:
  assumes "\<forall>key\<in>insert ''tmpdir'' (fst ` set qemu_config_help). cfg key = cfg' key"
  shows "qemu_setup F cfg s = qemu_setup F cfg' s"
proof -
  have "get_nonempty cfg key = get_nonempty cfg' key \<and> get_or cfg key t = get_or cfg' key t"
    if "key \<in> insert ''tmpdir'' (fst ` set qemu_config_help)" for key t
    using bspec [OF assms that] by (simp add: get_nonempty_def get_or_def)
  then show ?thesis by (simp add: qemu_setup_def qemu_config_from_map_def qemu_config_help_def)
qed

interpretation qemu_plugin: plugin_contract "qemu_plugin F" "{''tmpdir''}" for F
proof (unfold_locales, goal_cases)
  case (7 p cfg cfg')
  then show ?case by (simp add: qemu_plugin_def qemu_setup_reads)
qed (auto simp: qemu_plugin_def qemu_setup_def fresh_clone_def new_instance_def split: sum.splits)

definition configured :: "'g qemu \<Rightarrow> qemu_config result" where
  "configured s =
     (case qm_config s of Some c \<Rightarrow> Ok c | None \<Rightarrow> Err (CommunicationE ''QEMU channel is not configured''))"

definition is_active_sync :: "'g vm_host \<Rightarrow> 'g qemu \<Rightarrow> bool" where
  "is_active_sync H s = (case qm_child s of Some g \<Rightarrow> vh_alive H g (qm_now s) | None \<Rightarrow> False)"

lemma is_active_upd [simp]:
  "is_active_sync H (s\<lparr>qm_stopping := b\<rparr>) = is_active_sync H s"
  "is_active_sync H (s\<lparr>qm_comm := b\<rparr>) = is_active_sync H s"
  "is_active_sync H (s\<lparr>qm_cmd := b\<rparr>) = is_active_sync H s"
  "is_active_sync H (s\<lparr>qm_fetch := b\<rparr>) = is_active_sync H s"
  "is_active_sync H (s\<lparr>qm_codes := n\<rparr>) = is_active_sync H s"
  "is_active_sync H (s\<lparr>qm_stderr := b\<rparr>) = is_active_sync H s"
  by (simp_all add: is_active_sync_def cong: option.case_cong)

section \<open>Console access\<close>

text \<open>Steps that may fail, and steps that may also wait for a lock.\<close>

definition seq_q :: "'a result option \<times> 's \<Rightarrow> ('a \<Rightarrow> 's \<Rightarrow> 'b result option \<times> 's) \<Rightarrow> 'b result option \<times> 's" where
  "seq_q r f =
     (case r of
        (Some (Inr x), s) \<Rightarrow> f x s
      | (Some (Inl err), s) \<Rightarrow> (Some (Err err), s)
      | (None, s) \<Rightarrow> (None, s))"

definition done_q :: "'a result \<times> 's \<Rightarrow> 'a result option \<times> 's" where
  "done_q r = (Some (fst r), snd r)"

definition pass_time :: "nat \<Rightarrow> 'g qemu \<Rightarrow> 'g qemu" where
  "pass_time d s = s\<lparr>qm_now := qm_now s + d\<rparr>"

definition write_stdin :: "'g vm_host \<Rightarrow> string \<Rightarrow> 'g qemu \<Rightarrow> unit result \<times> 'g qemu" where
  "write_stdin H data s =
     (if \<not> is_active_sync H s then (Ok (), s)
      else
        (case qm_child s of
           None \<Rightarrow> (Ok (), s)
         | Some g \<Rightarrow>
             (case vh_type H data (qm_now s) g of
                (answer, g1, reads, sent) \<Rightarrow>
                  (let s1 = s\<lparr>qm_child := Some g1, qm_reads := qm_reads s @ reads, qm_file := qm_file s @ sent\<rparr>
                   in (case answer of
                         Typed d \<Rightarrow>
                           if EXPECT_TIMEOUT < d
                           then (Err (CommunicationE ''Timed out writing to VM serial''), pass_time EXPECT_TIMEOUT s1)
                           else (Ok (), pass_time d s1)
                       | Broken_Pipe err \<Rightarrow>
                           if qm_stopping s then (Ok (), s1) else (Err (CommunicationE err), s1)
                       | Type_Error err \<Rightarrow> (Err (CommunicationE err), s1))))))"

text \<open>What a wait sees around it.\<close>

definition env_of :: "'g vm_host \<Rightarrow> bool \<Rightarrow> 'g qemu \<Rightarrow> wait_env" where
  "env_of H buffered s =
     \<lparr> we_debug = vh_debug H, we_stopped = \<lambda>t. qm_stopping s \<or> \<not> is_active_sync H (s\<lparr>qm_now := t\<rparr>),
       we_write = if buffered then vh_write H else (\<lambda>_. None) \<rparr>"

definition wait_for :: "'g vm_host \<Rightarrow> string \<Rightarrow> bool \<Rightarrow> 'g qemu \<Rightarrow> string result \<times> 'g qemu" where
  "wait_for H message buffered s =
     (let r = wait_for_message (env_of H buffered s) \<lparr> wo_timeout = EXPECT_TIMEOUT, wo_settle = PANIC_SETTLE \<rparr>
                message (qm_last_read s) (qm_reads s) (qm_now s)
      in (wr_result r,
          s\<lparr>qm_reads := wr_reads r, qm_last_read := wr_pending r, qm_panicked := wr_panicked r, qm_now := wr_now r\<rparr>))"

definition exec_line :: "string \<Rightarrow> string \<Rightarrow> string" where
  "exec_line command ref =
     (if trim_end command = [] then ''echo $?-'' @ ref @ [CHR 0x0A]
      else command @ '';echo $?-'' @ ref @ [CHR 0x0A])"

definition exec :: "'g vm_host \<Rightarrow> string \<Rightarrow> bool \<Rightarrow> 'g qemu \<Rightarrow> (string \<times> int \<times> f64) result \<times> 'g qemu" where
  "exec H command buffered s =
     (let ref = vh_code H (qm_codes s);
          s0 = s\<lparr>qm_codes := qm_codes s + 1\<rparr>
      in (case write_stdin H (exec_line command ref) s0 of
            (Inl err, s1) \<Rightarrow> (Err err, s1)
          | (Inr _, s1) \<Rightarrow>
              (case wait_for H ref buffered s1 of
                 (Inl err, s2) \<Rightarrow> (Err err, s2)
               | (Inr stdout, s2) \<Rightarrow>
                   (let exec_time = vh_secs H (qm_now s2 - qm_now s0)
                    in if qm_stopping s2 then (Ok (stdout, - 1, exec_time), s2)
                       else
                         (case parse_reply (vh_regex H) (vh_debug H) stdout ref of
                            Inl err \<Rightarrow> (Err err, s2)
                          | Inr (out, retcode) \<Rightarrow> (Ok (out, retcode, exec_time), s2))))))"

section \<open>Login\<close>

text \<open>The \<open>?\<close> of a step, and \<open>wait_for(message).await?\<close>.\<close>

definition try_q :: "unit result \<times> 's \<Rightarrow> ('s \<Rightarrow> unit result \<times> 's) \<Rightarrow> unit result \<times> 's" where
  "try_q r f = (case r of (Inr _, s) \<Rightarrow> f s | (Inl err, s) \<Rightarrow> (Err err, s))"

definition expect_q :: "'g vm_host \<Rightarrow> string \<Rightarrow> bool \<Rightarrow> 'g qemu \<Rightarrow> unit result \<times> 'g qemu" where
  "expect_q H message buffered s =
     (case wait_for H message buffered s of
        (Inl err, s1) \<Rightarrow> (Err err, s1)
      | (Inr _, s1) \<Rightarrow> (Ok (), s1))"

definition exec_zero :: "'g vm_host \<Rightarrow> string \<Rightarrow> string \<Rightarrow> 'g qemu \<Rightarrow> unit result \<times> 'g qemu" where
  "exec_zero H command failure s =
     (case exec H command False s of
        (Inl err, s1) \<Rightarrow> (Err err, s1)
      | (Inr (_, retcode, _), s1) \<Rightarrow>
          if retcode \<noteq> 0 then (Err (CommunicationE failure), s1) else (Ok (), s1))"

definition login_user :: "'g vm_host \<Rightarrow> qemu_config \<Rightarrow> bool \<Rightarrow> 'g qemu \<Rightarrow> unit result \<times> 'g qemu" where
  "login_user H cfg buffered s =
     (case qc_user cfg of
        None \<Rightarrow> (Ok (), s)
      | Some user \<Rightarrow>
          try_q (expect_q H ''login:'' buffered s) (\<lambda>s1.
            try_q (write_stdin H (user @ [CHR 0x0A]) s1) (\<lambda>s2.
              try_q (case qc_password cfg of
                       None \<Rightarrow> (Ok (), s2)
                     | Some password \<Rightarrow>
                         try_q (expect_q H ''Password:'' buffered s2) (write_stdin H (password @ [CHR 0x0A]))) (\<lambda>s3.
                (Ok (), pass_time (millis 200) s3)))))"

definition login_script :: "'g vm_host \<Rightarrow> qemu_config \<Rightarrow> bool \<Rightarrow> 'g qemu \<Rightarrow> unit result \<times> 'g qemu" where
  "login_script H cfg buffered s =
     try_q (login_user H cfg buffered s) (\<lambda>s1.
       try_q (expect_q H (qc_prompt cfg) buffered s1) (\<lambda>s2.
         try_q (write_stdin H (''stty -echo; stty cols 1024'' @ [CHR 0x0A]) (pass_time (millis 200) s2)) (\<lambda>s3.
           try_q (expect_q H (qc_prompt cfg) False s3) (\<lambda>s4.
             try_q (write_stdin H (''dmesg -D'' @ [CHR 0x0A]) s4) (\<lambda>s5.
               try_q (expect_q H (qc_prompt cfg) False s5) (\<lambda>s6.
                 try_q (exec_zero H (''export PS1='' @ [sq, sq]) (''Can'' @ [sq] @ ''t setup prompt string'') s6) (\<lambda>s7.
                   if qc_virtfs cfg = None then (Ok (), s7)
                   else exec_zero H ''mount -t 9p -o trans=virtio host0 /mnt'' ''Failed to mount virtfs'' s7)))))))"

definition login :: "'g vm_host \<Rightarrow> qemu_config \<Rightarrow> bool \<Rightarrow> 'g qemu \<Rightarrow> unit result \<times> 'g qemu" where
  "login H cfg buffered s = try_q (login_script H cfg buffered s) (\<lambda>s1. (Ok (), s1\<lparr>qm_logged_in := True\<rparr>))"

section \<open>Stopping\<close>

text \<open>\<open>wait_lockers\<close>: returns at once when no operation holds a lock and otherwise waits.\<close>

definition wait_lockers :: "'g qemu \<Rightarrow> unit result option \<times> 'g qemu" where
  "wait_lockers s = (if qm_comm s \<or> qm_cmd s \<or> qm_fetch s then None else Some (Ok ()), s)"

text \<open>
  \<open>read_stdout\<close>, whose result the drain ignores: the next read if it comes in time, nothing more when
  the machine has no pipe.
\<close>

definition read_stdout :: "nat \<Rightarrow> 'g qemu \<Rightarrow> 'g qemu" where
  "read_stdout limit s =
     (if qm_child s = None then s
      else
        (case qm_reads s of
           (t, ev) # reads \<Rightarrow>
             if t \<le> qm_now s + limit then s\<lparr>qm_reads := reads, qm_now := max (qm_now s) t\<rparr>
             else pass_time limit s
         | [] \<Rightarrow> pass_time limit s))"

lemma is_active_child: "is_active_sync H s \<Longrightarrow> qm_child s \<noteq> None"
  by (auto simp: is_active_sync_def split: option.splits)

function drain :: "'g vm_host \<Rightarrow> nat \<Rightarrow> 'g qemu \<Rightarrow> 'g qemu" where
  "drain H deadline s =
     (if is_active_sync H s \<and> qm_now s < deadline then drain H deadline (read_stdout DRAIN_TIMEOUT s) else s)"
  by pat_completeness auto
termination
proof (relation "measure (\<lambda>(H, deadline, s). length (qm_reads s) + (deadline - qm_now s))", simp)
  fix H :: "'g vm_host" and deadline and s :: "'g qemu"
  assume act: "is_active_sync H s \<and> qm_now s < deadline"
  then have "qm_child s \<noteq> None" using is_active_child by blast
  then show "((H, deadline, read_stdout DRAIN_TIMEOUT s), H, deadline, s)
      \<in> measure (\<lambda>(H, deadline, s). length (qm_reads s) + (deadline - qm_now s))"
    using act by (auto simp: read_stdout_def pass_time_def DRAIN_TIMEOUT_def split: list.splits)
qed

declare drain.simps [simp del]

text \<open>\<open>timeout(5s, child.wait())\<close>, whose result is ignored, and \<open>child.wait()\<close>, whose error is not.\<close>

definition wait_child :: "'g vm_host \<Rightarrow> 'g qemu \<Rightarrow> 'g qemu" where
  "wait_child H s =
     (case qm_child s of
        Some g \<Rightarrow> pass_time (min (seconds 5) (fst (vh_reap H g (qm_now s)))) s
      | None \<Rightarrow> s)"

definition reap_child :: "'g vm_host \<Rightarrow> 'g qemu \<Rightarrow> unit result \<times> 'g qemu" where
  "reap_child H s =
     (case qm_child s of
        Some g \<Rightarrow>
          (case vh_reap H g (qm_now s) of
             (d, Inr _) \<Rightarrow> (Ok (), pass_time d s)
           | (d, Inl err) \<Rightarrow> (Err (CommunicationE err), pass_time d s))
      | None \<Rightarrow> (Ok (), s))"

definition kill_child :: "'g vm_host \<Rightarrow> 'g qemu \<Rightarrow> unit result \<times> 'g qemu" where
  "kill_child H s =
     (case qm_child s of
        Some g \<Rightarrow>
          (case vh_kill H g (qm_now s) of
             (Inr _, g1) \<Rightarrow> (Ok (), s\<lparr>qm_child := Some g1\<rparr>)
           | (Inl err, g1) \<Rightarrow> (Err (CommunicationE err), s\<lparr>qm_child := Some g1\<rparr>))
      | None \<Rightarrow> (Ok (), s))"

text \<open>The polite part: interrupt what runs, then power off and drain.\<close>

definition interrupt_char :: string where
  "interrupt_char = [CHR 0x03]"

definition stop_politely :: "'g vm_host \<Rightarrow> 'g qemu \<Rightarrow> unit result option \<times> 'g qemu" where
  "stop_politely H s =
     seq_q (if qm_cmd s \<or> qm_fetch s
            then seq_q (done_q (write_stdin H interrupt_char s)) (\<lambda>_. wait_lockers)
            else (Some (Ok ()), s)) (\<lambda>_ s1.
       if qm_logged_in s1
       then seq_q (done_q (write_stdin H (''poweroff; poweroff -f'' @ [CHR 0x0A]) s1)) (\<lambda>_ s2.
              (Some (Ok ()), wait_child H (drain H (qm_now s2 + POWER_OFF_TIMEOUT) s2)))
       else (Some (Ok ()), s1))"

definition stop_forcibly :: "'g vm_host \<Rightarrow> 'g qemu \<Rightarrow> unit result option \<times> 'g qemu" where
  "stop_forcibly H s =
     (if is_active_sync H s
      then seq_q (done_q (kill_child H s)) (\<lambda>_ s1.
             seq_q (wait_lockers s1) (\<lambda>_ s2. done_q (reap_child H s2)))
      else (Some (Ok ()), s))"

definition stop_inner :: "'g vm_host \<Rightarrow> 'g qemu \<Rightarrow> unit result option \<times> 'g qemu" where
  "stop_inner H s =
     (if \<not> is_active_sync H s then (Some (Ok ()), s)
      else
        (let s1 = s\<lparr>qm_stopping := True\<rparr>
         in seq_q (if qm_panicked s1 then (Some (Ok ()), s1) else stop_politely H s1) (\<lambda>_ s2.
              seq_q (stop_forcibly H s2) (\<lambda>_ s3. (Some (Ok ()), s3\<lparr>qm_stopping := False\<rparr>)))))"

definition qemu_stop :: "'g vm_host \<Rightarrow> 'g qemu \<Rightarrow> unit result option \<times> 'g qemu" where
  "qemu_stop H s =
     (case stop_inner H s of
        (None, s1) \<Rightarrow> (None, s1)
      | (Some r, s1) \<Rightarrow> (Some r, s1\<lparr>qm_stderr := False\<rparr>))"

section \<open>Starting\<close>

definition already_running :: kirk_error where
  "already_running = CommunicationE ''Virtual machine is already running''"

definition spawn_vm :: "'g vm_host \<Rightarrow> qemu_config \<Rightarrow> 'g qemu \<Rightarrow> unit result \<times> 'g qemu" where
  "spawn_vm H cfg s =
     (let s1 = s\<lparr>qm_logged_in := False, qm_panicked := False, qm_stopping := False, qm_last_read := [],
                 qm_last_pos := 0\<rparr>
      in (case build_argv cfg (vh_pid H) of
            Inl err \<Rightarrow> (Err err, s1)
          | Inr (program, argv) \<Rightarrow>
              (case vh_spawn H program argv (qm_now s1) of
                 Inl Not_Found \<Rightarrow> (Err (CommunicationE (''Command not found: '' @ program)), s1)
               | Inl (Spawn_Error err) \<Rightarrow> (Err (CommunicationE err), s1)
               | Inr (g, reads, file) \<Rightarrow>
                   (Ok (), s1\<lparr>qm_child := Some g, qm_reads := reads, qm_file := file, qm_stderr := True\<rparr>))))"

text \<open>What \<open>communicate\<close> does while it holds its lock.\<close>

definition communicate_locked :: "'g vm_host \<Rightarrow> qemu_config \<Rightarrow> bool \<Rightarrow> 'g qemu \<Rightarrow> unit result option \<times> 'g qemu" where
  "communicate_locked H cfg buffered s =
     (if is_active_sync H s then (Some (Err already_running), s)
      else
        (case spawn_vm H cfg s of
           (Inl err, s1) \<Rightarrow> (Some (Err err), s1)
         | (Inr _, s1) \<Rightarrow>
             (case login H cfg buffered s1 of
                (Inr _, s2) \<Rightarrow> (Some (Ok ()), s2)
              | (Inl (CommunicationE msg), s2) \<Rightarrow>
                  if qm_stopping s2 then (Some (Err (CommunicationE msg)), s2)
                  else seq_q (stop_inner H s2) (\<lambda>_ s3. (Some (Err (CommunicationE msg)), s3))
              | (Inl err, s2) \<Rightarrow> (Some (Err err), s2))))"

definition qemu_communicate :: "'g vm_host \<Rightarrow> bool \<Rightarrow> 'g qemu \<Rightarrow> unit result option \<times> 'g qemu" where
  "qemu_communicate H buffered s =
     (case configured s of
        Inl err \<Rightarrow> (Some (Err err), s)
      | Inr cfg \<Rightarrow>
          if is_active_sync H s then (Some (Err already_running), s)
          else if qm_comm s then (None, s)
          else
            (case communicate_locked H cfg buffered (s\<lparr>qm_comm := True\<rparr>) of
               (None, s1) \<Rightarrow> (None, s1)
             | (Some r, s1) \<Rightarrow> (Some r, s1\<lparr>qm_comm := False\<rparr>)))"

section \<open>Commands and files\<close>

definition qemu_ping :: "'g vm_host \<Rightarrow> 'g qemu \<Rightarrow> f64 result \<times> 'g qemu" where
  "qemu_ping H s =
     (if \<not> is_active_sync H s then (Err (CommunicationE ''Qemu is not running''), s)
      else
        (case exec H ''test .'' False s of
           (Inl err, s1) \<Rightarrow> (Err err, s1)
         | (Inr (_, _, exec_time), s1) \<Rightarrow> (Ok exec_time, s1)))"

definition set_cwd :: "'g vm_host \<Rightarrow> string option \<Rightarrow> 'g qemu \<Rightarrow> unit result \<times> 'g qemu" where
  "set_cwd H cwd s =
     (case cwd of
        None \<Rightarrow> (Ok (), s)
      | Some dir \<Rightarrow>
          (case exec H (''cd -- '' @ shell_quote dir) False s of
             (Inl err, s1) \<Rightarrow> (Err err, s1)
           | (Inr (stdout, retcode, _), s1) \<Rightarrow>
               if retcode \<noteq> 0
               then (Err (CommunicationE (''Can'' @ [sq] @ ''t setup current working directory: '' @ stdout)), s1)
               else (Ok (), s1)))"

fun set_env :: "'g vm_host \<Rightarrow> (string \<times> string) list \<Rightarrow> 'g qemu \<Rightarrow> unit result \<times> 'g qemu" where
  "set_env H [] s = (Ok (), s)"
| "set_env H ((key, val) # vars) s =
     (case validate_env_key (vh_debug H) key of
        Inl err \<Rightarrow> (Err err, s)
      | Inr _ \<Rightarrow>
          (case exec H (''export '' @ key @ ''='' @ shell_quote val) False s of
             (Inl err, s1) \<Rightarrow> (Err err, s1)
           | (Inr (stdout, retcode, _), s1) \<Rightarrow>
               if retcode \<noteq> 0
               then (Err (CommunicationE (''Can'' @ [sq] @ ''t setup env '' @ key @ '': '' @ stdout)), s1)
               else set_env H vars s1))"

definition command_locked ::
  "'g vm_host \<Rightarrow> string \<Rightarrow> string option \<Rightarrow> (string \<times> string) list option \<Rightarrow> bool \<Rightarrow> 'g qemu
     \<Rightarrow> cmd_result option result \<times> 'g qemu" where
  "command_locked H command cwd env buffered s =
     (case try_q (set_cwd H cwd s)
             (\<lambda>s1. case env of None \<Rightarrow> (Ok (), s1) | Some vars \<Rightarrow> set_env H (sort_key fst vars) s1) of
        (Inl err, s1) \<Rightarrow> (Err err, s1)
      | (Inr _, s1) \<Rightarrow>
          (case exec H command buffered s1 of
             (Inl err, s2) \<Rightarrow> (Err err, s2)
           | (Inr (stdout, returncode, exec_time), s2) \<Rightarrow>
               (Ok (Some \<lparr> cr_command = command, cr_returncode = returncode, cr_stdout = stdout,
                          cr_exec_time = exec_time \<rparr>), s2)))"

definition not_running :: kirk_error where
  "not_running = CommunicationE ''Virtual machine is not running''"

definition qemu_run_command ::
  "'g vm_host \<Rightarrow> string \<Rightarrow> string option \<Rightarrow> (string \<times> string) list option \<Rightarrow> bool \<Rightarrow> 'g qemu
     \<Rightarrow> cmd_result option result option \<times> 'g qemu" where
  "qemu_run_command H command cwd env buffered s =
     (if command = [] then (Some (Err (CommunicationE ''command is empty'')), s)
      else if \<not> is_active_sync H s then (Some (Err not_running), s)
      else if qm_cmd s then (None, s)
      else
        (case command_locked H command cwd env buffered (s\<lparr>qm_cmd := True\<rparr>) of
           (r, s1) \<Rightarrow> (Some r, s1\<lparr>qm_cmd := False\<rparr>)))"

text \<open>Reading the transport file from a position, its size checked before and after.\<close>

definition read_transport :: "string + nat \<Rightarrow> string + string \<Rightarrow> nat \<Rightarrow> (string \<times> nat) result" where
  "read_transport metadata contents pos =
     (case metadata of
        Inl err \<Rightarrow> Err (CommunicationE err)
      | Inr len \<Rightarrow>
          if MAX_TRANSPORT_BYTES < len - pos then Err (CommunicationE ''Transport file exceeds size cap'')
          else
            (case contents of
               Inl err \<Rightarrow> Err (CommunicationE err)
             | Inr bytes \<Rightarrow>
                 (let buf = take (MAX_TRANSPORT_BYTES + 1) (drop pos bytes)
                  in if MAX_TRANSPORT_BYTES < length buf
                     then Err (CommunicationE ''Transport file exceeds size cap'')
                     else Ok (buf, pos + length buf))))"

definition fetch_locked :: "'g vm_host \<Rightarrow> string \<Rightarrow> 'g qemu \<Rightarrow> string result \<times> 'g qemu" where
  "fetch_locked H target_path s =
     (case exec H (''test -f '' @ shell_quote target_path) False s of
        (Inl err, s1) \<Rightarrow> (Err err, s1)
      | (Inr (_, retcode, _), s1) \<Rightarrow>
          if retcode \<noteq> 0
          then (Err (CommunicationE (quoted target_path @ '' doesn'' @ [sq] @ ''t exist'')), s1)
          else
            (case configured s1 of
               Inl err \<Rightarrow> (Err err, s1)
             | Inr cfg \<Rightarrow>
                 (let dev = fst (transport cfg (vh_pid H))
                  in (case exec H (''cat '' @ shell_quote target_path @ '' > '' @ dev) False s1 of
                        (Inl err, s2) \<Rightarrow> (Err err, s2)
                      | (Inr (stdout, retcode, _), s2) \<Rightarrow>
                          if qm_stopping s2 then (Ok [], s2)
                          else if retcode \<notin> {0, 1, 9}
                          then (Err (CommunicationE (''Can'' @ [sq] @ ''t send file to '' @ dev @ '': '' @ stdout)), s2)
                          else
                            (case read_transport (vh_metadata H (qm_file s2)) (vh_read H (qm_file s2)) (qm_last_pos s2) of
                               Inl err \<Rightarrow> (Err err, s2)
                             | Inr (data, pos) \<Rightarrow> (Ok data, s2\<lparr>qm_last_pos := pos\<rparr>))))))"

definition qemu_fetch_file :: "'g vm_host \<Rightarrow> string \<Rightarrow> 'g qemu \<Rightarrow> string result option \<times> 'g qemu" where
  "qemu_fetch_file H target_path s =
     (if target_path = [] then (Some (Err (CommunicationE ''target path is empty'')), s)
      else if \<not> is_active_sync H s then (Some (Err not_running), s)
      else if qm_fetch s then (None, s)
      else
        (case fetch_locked H target_path (s\<lparr>qm_fetch := True\<rparr>) of
           (r, s1) \<Rightarrow> (Some r, s1\<lparr>qm_fetch := False\<rparr>)))"

section \<open>What console access leaves alone\<close>

text \<open>Everything but the machine, its reads, the text kept, the flag of a panic and the clock.\<close>

definition same_control :: "'g qemu \<Rightarrow> 'g qemu \<Rightarrow> bool" where
  "same_control s s' \<longleftrightarrow>
     qm_name s' = qm_name s \<and> qm_config s' = qm_config s \<and> qm_stderr s' = qm_stderr s \<and>
     qm_comm s' = qm_comm s \<and> qm_cmd s' = qm_cmd s \<and> qm_fetch s' = qm_fetch s \<and>
     qm_stopping s' = qm_stopping s \<and> qm_logged_in s' = qm_logged_in s \<and> qm_last_pos s' = qm_last_pos s \<and>
     prefix (qm_file s) (qm_file s')"

lemma same_control_refl [simp]: "same_control s s"
  by (simp add: same_control_def)

lemma same_control_trans: "same_control s s1 \<Longrightarrow> same_control s1 s2 \<Longrightarrow> same_control s s2"
  by (auto simp: same_control_def intro: prefix_order.order_trans)

lemma write_stdin_same: "same_control s (snd (write_stdin H data s))"
  by (auto simp: write_stdin_def same_control_def pass_time_def Let_def split: option.splits prod.splits typing.splits)

lemma wait_for_same: "same_control s (snd (wait_for H message buffered s))"
  by (simp add: wait_for_def same_control_def Let_def)

lemma exec_same: "same_control s (snd (exec H command buffered s))"
proof -
  define s0 where "s0 = s\<lparr>qm_codes := qm_codes s + 1\<rparr>"
  define r where "r = write_stdin H (exec_line command (vh_code H (qm_codes s))) s0"
  have "same_control s s0" by (simp add: s0_def same_control_def)
  then have w: "same_control s (snd r)"
    unfolding r_def by (rule same_control_trans) (rule write_stdin_same)
  have "same_control s (snd (wait_for H (vh_code H (qm_codes s)) buffered (snd r)))"
    by (rule same_control_trans [OF w wait_for_same])
  then show ?thesis
    using w unfolding exec_def Let_def s0_def [symmetric] r_def [symmetric]
    by (auto split: prod.splits sum.splits)
qed

lemma expect_q_same: "same_control s (snd (expect_q H message buffered s))"
  using wait_for_same [of s H message buffered] by (auto simp: expect_q_def split: prod.splits sum.splits)

lemma exec_zero_same: "same_control s (snd (exec_zero H command failure s))"
  using exec_same [of s H command False] by (auto simp: exec_zero_def split: prod.splits sum.splits)

lemma try_q_same:
  "same_control s (snd r) \<Longrightarrow> (\<And>s1. same_control s s1 \<Longrightarrow> same_control s (snd (f s1))) \<Longrightarrow> same_control s (snd (try_q r f))"
  by (auto simp: try_q_def split: prod.splits sum.splits)

lemma pass_time_same: "same_control s s1 \<Longrightarrow> same_control s (pass_time d s1)"
  by (simp add: same_control_def pass_time_def)

lemmas same_steps = same_control_trans [OF _ write_stdin_same] same_control_trans [OF _ expect_q_same]
  same_control_trans [OF _ exec_zero_same]

lemma login_user_same: "same_control s (snd (login_user H cfg buffered s))"
  by (auto simp: login_user_def split: option.splits intro!: try_q_same pass_time_same intro: same_steps expect_q_same)

lemma login_script_same: "same_control s (snd (login_script H cfg buffered s))"
  unfolding login_script_def
  by (auto intro!: try_q_same login_user_same pass_time_same intro: same_steps)

lemma login_failed_same: "login H cfg buffered s = (Inl err, s') \<Longrightarrow> same_control s s'"
  using login_script_same [of s H cfg buffered] by (auto simp: login_def try_q_def split: prod.splits sum.splits)

section \<open>A login that fails\<close>

lemma stop_holding_lock:
  assumes "is_active_sync H s" and "qm_comm s" and "\<not> qm_cmd s" and "\<not> qm_fetch s" and "\<not> qm_logged_in s"
    and kill: "\<And>g t. fst (vh_kill H g t) = Inr ()"
  shows "\<exists>s'. stop_inner H s = (None, s') \<and> qm_comm s' \<and> qm_config s' = qm_config s"
proof -
  let ?s = "s\<lparr>qm_stopping := True\<rparr>"
  have polite: "(if qm_panicked ?s then (Some (Ok ()), ?s) else stop_politely H ?s) = (Some (Ok ()), ?s)"
    using assms(3-5) by (simp add: stop_politely_def seq_q_def)
  have active: "is_active_sync H ?s" using assms(1) by simp
  obtain g where g: "qm_child s = Some g" using is_active_child [OF assms(1)] by auto
  obtain g1 where "vh_kill H g (qm_now s) = (Inr (), g1)"
    using kill [of g "qm_now s"] by (cases "vh_kill H g (qm_now s)") auto
  then have "kill_child H ?s = (Ok (), ?s\<lparr>qm_child := Some g1\<rparr>)" by (simp add: kill_child_def g)
  then have "stop_forcibly H ?s = (None, ?s\<lparr>qm_child := Some g1\<rparr>)"
    using active assms(2) by (simp add: stop_forcibly_def done_q_def seq_q_def wait_lockers_def)
  then have "stop_inner H s = (None, ?s\<lparr>qm_child := Some g1\<rparr>)"
    using assms(1) polite by (simp add: stop_inner_def Let_def seq_q_def)
  then show ?thesis using assms(2) by simp
qed

text \<open>
  Claim C12: a login that fails on a running machine never lets go of the channel. \<open>communicate\<close> stops the
  machine while it still holds the lock it took itself, and the stop waits for that lock: it does not
  return, the lock stays held, and with it every later \<open>communicate\<close> on a machine that is down waits
  too. This happens for every communication error of the login (a prompt that does not come, a setup
  command that fails) as long as the machine is alive and can be killed.
\<close>

theorem failed_login_never_returns:
  assumes "configured s = Inr cfg" and "\<not> is_active_sync H s" and "\<not> qm_comm s" and "\<not> qm_cmd s" and "\<not> qm_fetch s"
    and spawn: "spawn_vm H cfg (s\<lparr>qm_comm := True\<rparr>) = (Inr u, s1)"
    and login: "login H cfg buffered s1 = (Inl (CommunicationE msg), s2)"
    and "is_active_sync H s2" and kill: "\<And>g t. fst (vh_kill H g t) = Inr ()"
  shows "\<exists>s'. qemu_communicate H buffered s = (None, s') \<and>
     (\<forall>child now. \<not> is_active_sync H (s'\<lparr>qm_child := child, qm_now := now\<rparr>) \<longrightarrow>
        fst (qemu_communicate H buffered (s'\<lparr>qm_child := child, qm_now := now\<rparr>)) = None)"
proof -
  have s1: "qm_config s1 = Some cfg \<and> qm_comm s1 \<and> \<not> qm_cmd s1 \<and> \<not> qm_fetch s1 \<and> \<not> qm_logged_in s1 \<and> \<not> qm_stopping s1"
    using spawn assms(1,4,5)
    by (auto simp: spawn_vm_def configured_def Let_def split: sum.splits prod.splits spawn_error.splits option.splits)
  have same: "same_control s1 s2" by (rule login_failed_same [OF login])
  then obtain s' where stop: "stop_inner H s2 = (None, s')" and comm: "qm_comm s'" "qm_config s' = Some cfg"
    using stop_holding_lock [OF assms(8) _ _ _ _ kill] s1 by (auto simp: same_control_def)
  have "\<not> qm_stopping s2" using same s1 by (simp add: same_control_def)
  moreover have "\<not> is_active_sync H (s\<lparr>qm_comm := True\<rparr>)" using assms(2) by simp
  ultimately have "communicate_locked H cfg buffered (s\<lparr>qm_comm := True\<rparr>) = (None, s')"
    using spawn login stop by (simp add: communicate_locked_def seq_q_def)
  then have "qemu_communicate H buffered s = (None, s')"
    using assms(1-3) by (simp add: qemu_communicate_def)
  then show ?thesis
    using comm by (auto simp: qemu_communicate_def configured_def)
qed

text \<open>A machine that boots without a word.\<close>

definition silent_host :: "bool vm_host" where
  "silent_host =
     \<lparr> vh_pid = 1, vh_debug = \<lambda>s. s, vh_regex = match_retcode, vh_code = \<lambda>n. ''aB3dE6gH9j'',
       vh_spawn = \<lambda>program argv now. Inr (True, [], []), vh_alive = \<lambda>g t. g,
       vh_type = \<lambda>data now g. (Typed 0, g, [], []), vh_kill = \<lambda>g t. (Inr (), False),
       vh_reap = \<lambda>g t. (0, Inr ()), vh_write = \<lambda>d. None, vh_metadata = \<lambda>f. Inr (length f), vh_read = Inr,
       vh_secs = \<lambda>t. F64_Fin 0 \<rparr>"

definition demo_config :: qemu_config where
  "demo_config =
     \<lparr> qc_tmpdir = ''/tmp'', qc_image = None, qc_kernel = None, qc_initrd = None, qc_user = None, qc_password = None,
       qc_prompt = ''#'', qc_system = ''x86_64'', qc_ram = ''2G'', qc_smp = ''2'', qc_serial = Isa, qc_virtfs = None,
       qc_options = None \<rparr>"

lemma failed_login_never_returns_witness:
  "\<exists>s'. qemu_communicate silent_host False (qemu_new\<lparr>qm_config := Some demo_config\<rparr>) = (None, s') \<and>
     (\<forall>child now. \<not> is_active_sync silent_host (s'\<lparr>qm_child := child, qm_now := now\<rparr>) \<longrightarrow>
        fst (qemu_communicate silent_host False (s'\<lparr>qm_child := child, qm_now := now\<rparr>)) = None)"
proof -
  let ?s = "qemu_new\<lparr>qm_config := Some demo_config\<rparr>"
  let ?s1 = "?s\<lparr>qm_comm := True, qm_child := Some True, qm_stderr := True\<rparr>"
  let ?s2 = "?s1\<lparr>qm_now := EXPECT_TIMEOUT\<rparr>"
  have spawn: "spawn_vm silent_host demo_config (?s\<lparr>qm_comm := True\<rparr>) = (Inr (), ?s1)"
    by (simp add: spawn_vm_def build_argv_def demo_config_def silent_host_def qemu_new_def Let_def)
  have wait: "wait_for silent_host ''#'' False ?s1 = (Inl (CommunicationE ''Timed out waiting for #''), ?s2)"
    by (simp add: wait_for_def wait_for_message_def wait_check_def wait_timed_out_def env_of_def silent_host_def
        qemu_new_def is_active_sync_def EXPECT_TIMEOUT_def contains_def Let_def)
  have login: "login silent_host demo_config False ?s1 = (Inl (CommunicationE ''Timed out waiting for #''), ?s2)"
    using wait by (simp add: login_def login_script_def login_user_def try_q_def expect_q_def demo_config_def)
  show ?thesis
    using failed_login_never_returns [OF _ _ _ _ _ spawn login]
    by (simp add: configured_def qemu_new_def is_active_sync_def silent_host_def)
qed

section \<open>A stop that returns\<close>

definition unlocked :: "'g qemu \<Rightarrow> bool" where
  "unlocked s \<longleftrightarrow> \<not> qm_comm s \<and> \<not> qm_cmd s \<and> \<not> qm_fetch s"

lemma unlocked_same: "same_control s s' \<Longrightarrow> unlocked s' = unlocked s"
  by (simp add: same_control_def unlocked_def)

lemma drain_same: "same_control s (drain H deadline s)"
proof (induction H deadline s rule: drain.induct)
  case (1 H deadline s)
  have "same_control s (read_stdout DRAIN_TIMEOUT s)"
    by (auto simp: read_stdout_def same_control_def pass_time_def split: list.splits)
  then show ?case
    using 1 by (subst drain.simps) (auto intro: same_control_trans)
qed

lemma wait_child_same: "same_control s s1 \<Longrightarrow> same_control s (wait_child H s1)"
  by (auto simp: wait_child_def intro: pass_time_same split: option.splits)

lemma kill_child_same: "same_control s (snd (kill_child H s))"
  by (auto simp: kill_child_def same_control_def split: option.splits prod.splits sum.splits)

lemma reap_child_same: "same_control s (snd (reap_child H s))"
  by (auto simp: reap_child_def same_control_def pass_time_def split: option.splits prod.splits sum.splits)

text \<open>Both parts of a stop return when no lock is held, and change nothing that controls the channel.\<close>

lemma stop_politely_returns:
  assumes "unlocked s"
  shows "\<exists>r s'. stop_politely H s = (Some r, s') \<and> same_control s s'"
proof (cases "qm_logged_in s")
  case False
  then show ?thesis
    using assms by (intro exI [of _ "Ok ()"]) (simp add: stop_politely_def unlocked_def seq_q_def)
next
  case True
  obtain r s1 where w: "write_stdin H (''poweroff; poweroff -f'' @ [CHR 0x0A]) s = (r, s1)" by fastforce
  then have same: "same_control s s1" using write_stdin_same [of s H "''poweroff; poweroff -f'' @ [CHR 0x0A]"] by simp
  have "same_control s (wait_child H (drain H (qm_now s1 + POWER_OFF_TIMEOUT) s1))"
    by (intro wait_child_same same_control_trans [OF same drain_same])
  then show ?thesis
    using w same True assms
    by (cases r) (auto simp: stop_politely_def unlocked_def seq_q_def done_q_def)
qed

lemma stop_forcibly_returns:
  assumes "unlocked s"
  shows "\<exists>r s'. stop_forcibly H s = (Some r, s') \<and> same_control s s'"
proof -
  obtain r s1 where k: "kill_child H s = (r, s1)" by fastforce
  then have same: "same_control s s1" using kill_child_same [of s H] by simp
  obtain r2 s2 where q: "reap_child H s1 = (r2, s2)" by fastforce
  then have same2: "same_control s s2" using same_control_trans [OF same reap_child_same [of s1 H]] by simp
  have "unlocked s1" using unlocked_same [OF same] assms by simp
  then have "wait_lockers s1 = (Some (Ok ()), s1)" by (simp add: wait_lockers_def unlocked_def)
  then show ?thesis
    using k q same same2
    by (cases r) (auto simp: stop_forcibly_def seq_q_def done_q_def)
qed

lemma stop_forcibly_down:
  assumes kill: "\<And>g t g1 t'. vh_kill H g t = (Inr (), g1) \<Longrightarrow> t \<le> t' \<Longrightarrow> \<not> vh_alive H g1 t'"
    and "stop_forcibly H s = (Some (Inr u), s')"
  shows "\<not> is_active_sync H s'"
proof (cases "is_active_sync H s")
  case False
  then show ?thesis using assms(2) by (simp add: stop_forcibly_def)
next
  case True
  then obtain g where g: "qm_child s = Some g" using is_active_child by blast
  obtain g1 where k: "vh_kill H g (qm_now s) = (Inr (), g1)"
    using assms(2) True g
    by (cases "vh_kill H g (qm_now s)"; cases "fst (vh_kill H g (qm_now s))")
       (auto simp: stop_forcibly_def kill_child_def done_q_def seq_q_def)
  have "\<exists>d. s' = pass_time d (s\<lparr>qm_child := Some g1\<rparr>)"
    using assms(2) True k g
    by (auto simp: stop_forcibly_def kill_child_def done_q_def seq_q_def wait_lockers_def reap_child_def
        split: if_splits prod.splits sum.splits)
  then show ?thesis using kill [OF k] by (auto simp: is_active_sync_def pass_time_def)
qed

text \<open>
  Claim C11: with no other operation in flight \<open>stop\<close> always returns. When it reports success the
  machine is down, whatever it did with its power switch and however much it still had to say, and
  the stop flag is off again; when it reports an error the flag stays on.
\<close>

theorem stop_returns_and_stops:
  assumes kill: "\<And>g t g1 t'. vh_kill H g t = (Inr (), g1) \<Longrightarrow> t \<le> t' \<Longrightarrow> \<not> vh_alive H g1 t'"
    and "unlocked s"
  shows "\<exists>r s'. qemu_stop H s = (Some r, s') \<and> unlocked s' \<and> \<not> qm_stderr s' \<and>
     (case r of
        Inr _ \<Rightarrow> \<not> is_active_sync H s' \<and> (is_active_sync H s \<longrightarrow> \<not> qm_stopping s')
      | Inl _ \<Rightarrow> qm_stopping s')"
proof (cases "is_active_sync H s")
  case False
  then show ?thesis
    using assms(2) by (intro exI [of _ "Ok ()"]) (simp add: qemu_stop_def stop_inner_def unlocked_def)
next
  case True
  let ?s1 = "s\<lparr>qm_stopping := True\<rparr>"
  have u1: "unlocked ?s1" using assms(2) by (simp add: unlocked_def)
  obtain r2 s2 where p: "(if qm_panicked ?s1 then (Some (Ok ()), ?s1) else stop_politely H ?s1) = (Some r2, s2)"
    and same2: "same_control ?s1 s2"
    using stop_politely_returns [OF u1, of H] by (cases "qm_panicked s") auto
  have u2: "unlocked s2" using unlocked_same [OF same2] u1 by simp
  obtain r3 s3 where f: "stop_forcibly H s2 = (Some r3, s3)" and same3: "same_control s2 s3"
    using stop_forcibly_returns [OF u2, of H] by blast
  have u3: "unlocked s3" using unlocked_same [OF same3] u2 by simp
  have stopping: "qm_stopping s2" "qm_stopping s3"
    using same2 same3 by (simp_all add: same_control_def)
  have inner: "stop_inner H s =
      (case r2 of Inl e \<Rightarrow> (Some (Err e), s2)
       | Inr _ \<Rightarrow> (case r3 of Inl e \<Rightarrow> (Some (Err e), s3) | Inr _ \<Rightarrow> (Some (Ok ()), s3\<lparr>qm_stopping := False\<rparr>)))"
    using True p f by (auto simp: stop_inner_def Let_def seq_q_def split: sum.splits)
  show ?thesis
  proof (cases r2)
    case (Inl e)
    then show ?thesis using inner stopping u2 by (simp add: qemu_stop_def unlocked_def)
  next
    case r2: (Inr v)
    show ?thesis
    proof (cases r3)
      case (Inl e)
      then show ?thesis using inner r2 stopping u3 by (simp add: qemu_stop_def unlocked_def)
    next
      case (Inr w)
      have "\<not> is_active_sync H s3"
        by (rule stop_forcibly_down [of H s2 w]) (use kill f Inr in auto)
      then show ?thesis using inner r2 Inr u3 by (simp add: qemu_stop_def unlocked_def)
    qed
  qed
qed

lemma stop_returns_and_stops_witness:
  "\<exists>r s'. qemu_stop silent_host (qemu_new\<lparr>qm_child := Some True, qm_logged_in := True\<rparr>) = (Some r, s') \<and>
     unlocked s' \<and> \<not> qm_stderr s' \<and>
     (case r of
        Inr _ \<Rightarrow> \<not> is_active_sync silent_host s' \<and>
          (is_active_sync silent_host (qemu_new\<lparr>qm_child := Some True, qm_logged_in := True\<rparr>) \<longrightarrow> \<not> qm_stopping s')
      | Inl _ \<Rightarrow> qm_stopping s')"
  by (rule stop_returns_and_stops) (auto simp: silent_host_def unlocked_def qemu_new_def)

text \<open>
  With the flag still on, a command on a running machine waits for nothing: it reports whatever text
  was left over and the return code - 1 as its result.
\<close>

lemma exec_while_stopping:
  assumes "qm_stopping s" and "write_stdin H (exec_line command (vh_code H (qm_codes s))) (s\<lparr>qm_codes := qm_codes s + 1\<rparr>) = (Inr u, s1)"
  shows "\<exists>t s2. exec H command buffered s = (Inr (qm_last_read s1, - 1, t), s2)"
proof -
  have "same_control (s\<lparr>qm_codes := qm_codes s + 1\<rparr>) s1"
    using write_stdin_same [of "s\<lparr>qm_codes := qm_codes s + 1\<rparr>" H "exec_line command (vh_code H (qm_codes s))"] assms(2) by simp
  then have "qm_stopping s1" using assms(1) by (simp add: same_control_def)
  then have "wr_result (wait_loop (env_of H buffered s1) opts ref d (qm_last_read s1) (qm_reads s1) (qm_now s1)) = Inr (qm_last_read s1)"
    for opts ref d
    by (cases "qm_reads s1") (auto simp: wait_check_def env_of_def)
  then show ?thesis
    using assms \<open>qm_stopping s1\<close>
    by (simp add: exec_def Let_def wait_for_def wait_for_message_def)
qed

end
