(* ===== verification/Qemu_Session.thy ===== *)
theory Qemu_Session
  imports Qemu_Channel
begin

text \<open>
  Commands on a virtual machine whose shell behaves: each line typed brings back the output of the
  command, its return code, the marker and a newline, cut into reads in any way and in time. The
  channel then implements running the commands on the machine; replies that come late, and transfers
  that fail, are carried into the next operation.
\<close>

section \<open>A shell on the console\<close>

abbreviation LF :: char where "LF \<equiv> CHR 0x0A"

definition reply_text :: "string \<Rightarrow> nat \<Rightarrow> string \<Rightarrow> string" where
  "reply_text out n ref = out @ show_nat n @ CHR ''-'' # ref @ [LF]"

text \<open>
  \<open>run\<close> is what a command does on the machine (its output, its return code and the machine after it)
  for the commands that answer in time; \<open>None\<close> says nothing about a command.
\<close>

definition serves :: "'g vm_host \<Rightarrow> (string \<Rightarrow> 'g \<Rightarrow> (string \<times> nat \<times> 'g) option) \<Rightarrow> bool" where
  "serves H run \<longleftrightarrow>
     (\<forall>g t. vh_alive H g t) \<and> reads_ascii (vh_regex H) \<and> (\<forall>d. vh_write H d = None) \<and>
     (\<forall>cmd i now g out n g'. trim_end cmd \<noteq> [] \<longrightarrow> run cmd g = Some (out, n, g') \<longrightarrow>
        (\<exists>d cs sent. vh_type H (exec_line cmd (vh_code H i)) now g = (Typed d, g', data_reads cs, sent) \<and>
           d \<le> EXPECT_TIMEOUT \<and> concat (map snd cs) = reply_text out n (vh_code H i) \<and>
           (\<forall>(t, c) \<in> set cs. c \<noteq> [] \<and> t < now + EXPECT_TIMEOUT)))"

text \<open>Output that can be told from the code after it, and that is not taken for a panic or cut off.\<close>

definition readable :: "string \<Rightarrow> string \<Rightarrow> nat \<Rightarrow> bool" where
  "readable ref out n \<longleftrightarrow>
     ascii out \<and> ascii ref \<and> CHR ''-'' \<notin> set ref \<and> ref \<noteq> [] \<and> \<not> is_digit (last (LF # out)) \<and>
     \<not> sublist ref (LF # out @ show_nat n) \<and> \<not> sublist ''Kernel panic'' (LF # reply_text out n ref) \<and>
     n < 2 ^ 31 \<and> length (LF # reply_text out n ref) \<le> SERIAL_CAP"

text \<open>What is still to be read: the text kept and the reads to come, all before a time.\<close>

definition outstanding :: "'g qemu \<Rightarrow> string \<Rightarrow> nat \<Rightarrow> bool" where
  "outstanding s text1 limit \<longleftrightarrow>
     (\<exists>cs. qm_reads s = data_reads cs \<and> qm_last_read s @ concat (map snd cs) = text1 \<and>
        (\<forall>(t, c) \<in> set cs. c \<noteq> [] \<and> t < limit))"

lemma str_find_reply:
  assumes "CHR ''-'' \<notin> set ref" and "ref \<noteq> []"
  shows "\<not> sublist ref a \<Longrightarrow> str_find ref (a @ CHR ''-'' # ref @ post) = Some (length a + 1)"
proof (induction a)
  case Nil
  have "\<not> starts_with ref (CHR ''-'' # ref @ post)"
    using assms by (cases ref) (auto simp: starts_with_def)
  moreover have "str_find ref (ref @ post) = Some 0"
    using assms(2) by (cases ref) (auto simp: starts_with_def)
  ultimately show ?case by simp
next
  case (Cons c a)
  have "\<not> prefix ref ((c # a) @ CHR ''-'' # ref @ post)"
  proof
    assume "prefix ref ((c # a) @ CHR ''-'' # ref @ post)"
    then consider "prefix ref (c # a)" | r where "ref = (c # a) @ r" "prefix r (CHR ''-'' # ref @ post)" "r \<noteq> []"
      by (metis append_Nil2 prefix_append prefix_order.refl)
    then show False
    proof cases
      case 1
      then show False using Cons.prems by (blast intro: prefix_imp_sublist)
    next
      case 2
      then have "CHR ''-'' \<in> set r" by (cases r) auto
      then show False using 2(1) assms(1) by (metis Un_iff set_append)
    qed
  qed
  moreover have "\<not> sublist ref a" using Cons.prems by (auto simp: sublist_Cons_right)
  ultimately show ?case using Cons.IH by (simp add: starts_with_prefix)
qed

lemma exec_reads:
  assumes serves: "serves H run" and run: "run cmd g = Some (out, n, g')" and cmd: "trim_end cmd \<noteq> []"
    and child: "qm_child s = Some g" and "\<not> qm_stopping s"
    and "outstanding s (LF # left) (qm_now s + EXPECT_TIMEOUT)"
    and readable: "readable (vh_code H (qm_codes s)) (left @ out) n"
  shows "\<exists>t s'. exec H cmd buffered s = (Inr (left @ out, int n, t), s') \<and> same_control s s' \<and>
     qm_child s' = Some g' \<and> qm_codes s' = qm_codes s + 1 \<and> outstanding s' [LF] (qm_now s' + EXPECT_TIMEOUT) \<and>
     qm_file s' = qm_file s @ snd (snd (snd (vh_type H (exec_line cmd (vh_code H (qm_codes s))) (qm_now s) g)))"
proof -
  let ?ref = "vh_code H (qm_codes s)"
  let ?s0 = "s\<lparr>qm_codes := qm_codes s + 1\<rparr>"
  let ?a = "LF # left @ out @ show_nat n"
  obtain d cs sent where typed: "vh_type H (exec_line cmd ?ref) (qm_now s) g = (Typed d, g', data_reads cs, sent)"
    and d: "d \<le> EXPECT_TIMEOUT" and cs: "concat (map snd cs) = reply_text out n ?ref"
    and cs_ok: "\<forall>(t, c) \<in> set cs. c \<noteq> [] \<and> t < qm_now s + EXPECT_TIMEOUT"
    using serves run cmd unfolding serves_def by metis
  obtain cs0 where cs0: "qm_reads s = data_reads cs0" "qm_last_read s @ concat (map snd cs0) = LF # left"
    and cs0_ok: "\<forall>(t, c) \<in> set cs0. c \<noteq> [] \<and> t < qm_now s + EXPECT_TIMEOUT"
    using assms(6) by (auto simp: outstanding_def)
  define csa where "csa = cs0 @ cs"
  define s1 where "s1 = s\<lparr>qm_codes := qm_codes s + 1, qm_child := Some g', qm_reads := data_reads csa,
    qm_file := qm_file s @ sent, qm_now := qm_now s + d\<rparr>"
  have s1: "qm_last_read s1 = qm_last_read s" "qm_reads s1 = data_reads csa" "qm_now s1 = qm_now s + d"
    "qm_stopping s1 = qm_stopping s" "qm_child s1 = Some g'"
    by (simp_all add: s1_def)
  have "is_active_sync H ?s0" using serves child by (simp add: is_active_sync_def serves_def)
  then have w: "write_stdin H (exec_line cmd ?ref) ?s0 = (Inr (), s1)"
    using child typed d cs0(1) by (simp add: write_stdin_def Let_def pass_time_def s1_def csa_def)
  have calm: "calm_env (env_of H buffered s1)"
    using assms(5) serves by (simp add: calm_env_def env_of_def is_active_sync_def serves_def s1_def)
  have full: "qm_last_read s @ concat (map snd csa) = ?a @ CHR ''-'' # ?ref @ [LF]"
    using cs0(2) cs by (simp add: reply_text_def csa_def)
  have r: "ascii (left @ out)" "ascii ?ref" "CHR ''-'' \<notin> set ?ref" "?ref \<noteq> []" "\<not> is_digit (last (LF # left @ out))"
    "\<not> sublist ?ref ?a" "n < 2 ^ 31"
    and panic: "\<not> sublist ''Kernel panic'' (qm_last_read s @ concat (map snd csa))"
    and cap: "length (qm_last_read s @ concat (map snd csa)) \<le> SERIAL_CAP"
    using readable unfolding full by (auto simp: readable_def reply_text_def)
  define pos where "pos = length ?a + 1"
  have find: "str_find ?ref (qm_last_read s @ concat (map snd csa)) = Some pos"
    unfolding full pos_def by (rule str_find_reply [OF r(3,4,6)])
  define W where "W = wait_loop (env_of H buffered s1) \<lparr> wo_timeout = EXPECT_TIMEOUT, wo_settle = PANIC_SETTLE \<rparr> ?ref
    (qm_now s1 + EXPECT_TIMEOUT) (qm_last_read s) (data_reads csa) (qm_now s1)"
  have early: "\<forall>(t, c) \<in> set csa. c \<noteq> [] \<and> t < qm_now s + EXPECT_TIMEOUT"
    using cs_ok cs0_ok by (auto simp: csa_def)
  then have "\<forall>(t, c) \<in> set csa. t < qm_now s1 + EXPECT_TIMEOUT \<and> c \<noteq> []"
    by (fastforce simp: s1_def)
  then obtain k where k: "let out1 = qm_last_read s @ concat (map snd (take k csa))
     in wr_result W = Inr out1 \<and> str_find ?ref out1 = Some pos \<and>
        wr_pending W = drop (pos + length ?ref) out1 \<and> wr_panicked W = False \<and>
        wr_reads W = data_reads (drop k csa) \<and> wr_now W < qm_now s1 + EXPECT_TIMEOUT \<and> qm_now s1 \<le> wr_now W"
    using wait_loop_finds [OF calm find panic cap, of "qm_now s1 + EXPECT_TIMEOUT" "qm_now s1"]
    unfolding W_def by (auto simp: Let_def EXPECT_TIMEOUT_def)
  define out1 where "out1 = qm_last_read s @ concat (map snd (take k csa))"
  define rest where "rest = concat (map snd (drop k csa))"
  define post where "post = drop (pos + length ?ref) out1"
  have kW: "wr_result W = Inr out1" "str_find ?ref out1 = Some pos" "wr_pending W = post" "wr_panicked W = False"
    "wr_reads W = data_reads (drop k csa)" "qm_now s1 \<le> wr_now W"
    using k unfolding Let_def out1_def [symmetric] post_def by auto
  have split: "out1 @ rest = ?a @ CHR ''-'' # ?ref @ [LF]"
  proof -
    have "concat (map snd csa) = concat (map snd (take k csa)) @ concat (map snd (drop k csa))"
      by (metis append_take_drop_id concat_append map_append)
    then show ?thesis using full unfolding out1_def rest_def by (metis append.assoc)
  qed
  have len: "pos + length ?ref \<le> length out1" using str_find_Some [OF kW(2)] by simp
  then have "take (pos + length ?ref) out1 = take (pos + length ?ref) (out1 @ rest)" by simp
  also have "\<dots> = ?a @ CHR ''-'' # ?ref" unfolding split by (simp add: pos_def)
  finally have shape: "out1 = ?a @ CHR ''-'' # ?ref @ post"
    unfolding post_def by (metis append.assoc append_Cons append_take_drop_id)
  have tail: "post @ rest = [LF]" using split unfolding shape by simp
  then have "ascii post" by (cases post) auto
  then have parse: "parse_reply (vh_regex H) (vh_debug H) out1 ?ref = Inr (left @ out, int n)"
    unfolding shape using parse_reply_reads [of "vh_regex H" LF "left @ out" ?ref post n] r serves
    by (simp add: serves_def)
  define s2 where "s2 = s1\<lparr>qm_reads := data_reads (drop k csa), qm_last_read := post, qm_panicked := False, qm_now := wr_now W\<rparr>"
  have wait: "wait_for H ?ref buffered s1 = (Inr out1, s2)"
  proof -
    have "wait_for_message (env_of H buffered s1) \<lparr> wo_timeout = EXPECT_TIMEOUT, wo_settle = PANIC_SETTLE \<rparr> ?ref
        (qm_last_read s1) (qm_reads s1) (qm_now s1) = W"
      by (simp add: wait_for_message_def W_def s1)
    then show ?thesis using kW by (simp add: wait_for_def Let_def s2_def)
  qed
  have "qm_stopping s2 = qm_stopping s" by (simp add: s2_def s1_def)
  then have e: "\<exists>t. exec H cmd buffered s = (Inr (left @ out, int n, t), s2)"
    using w wait parse assms(5) by (simp add: exec_def Let_def)
  have "\<forall>(t, c) \<in> set (drop k csa). c \<noteq> [] \<and> t < wr_now W + EXPECT_TIMEOUT"
    using early kW(6) by (fastforce simp: s1_def dest: in_set_dropD)
  then have "outstanding s2 [LF] (qm_now s2 + EXPECT_TIMEOUT)"
    using tail unfolding outstanding_def rest_def by (intro exI [of _ "drop k csa"]) (simp add: s2_def)
  moreover have "same_control s s2" by (simp add: same_control_def s2_def s1_def)
  moreover have "qm_child s2 = Some g'" "qm_codes s2 = qm_codes s + 1" "qm_file s2 = qm_file s @ sent"
    by (simp_all add: s2_def s1_def)
  ultimately show ?thesis using e typed by auto
qed

section \<open>Running commands\<close>

text \<open>A list of commands on the channel, and the same list run directly on the machine.\<close>

fun run_commands ::
  "'g vm_host \<Rightarrow> bool \<Rightarrow> string list \<Rightarrow> 'g qemu \<Rightarrow> cmd_result option result option list \<times> 'g qemu" where
  "run_commands H buffered [] s = ([], s)"
| "run_commands H buffered (cmd # cmds) s =
     (case qemu_run_command H cmd None None buffered s of
        (r, s1) \<Rightarrow> (case run_commands H buffered cmds s1 of (rs, s2) \<Rightarrow> (r # rs, s2)))"

fun run_directly ::
  "(string \<Rightarrow> 'g \<Rightarrow> (string \<times> nat \<times> 'g) option) \<Rightarrow> string list \<Rightarrow> 'g \<Rightarrow> (string \<times> int \<times> string) list \<times> 'g" where
  "run_directly run [] g = ([], g)"
| "run_directly run (cmd # cmds) g =
     (case run cmd g of
        None \<Rightarrow> ([], g)
      | Some (out, n, g1) \<Rightarrow> (case run_directly run cmds g1 of (rs, g2) \<Rightarrow> ((cmd, int n, out) # rs, g2)))"

fun all_readable :: "'g vm_host \<Rightarrow> (string \<Rightarrow> 'g \<Rightarrow> (string \<times> nat \<times> 'g) option) \<Rightarrow> string list \<Rightarrow> 'g \<Rightarrow> nat \<Rightarrow> bool" where
  "all_readable H run [] g i = True"
| "all_readable H run (cmd # cmds) g i =
     (case run cmd g of
        None \<Rightarrow> False
      | Some (out, n, g1) \<Rightarrow> trim_end cmd \<noteq> [] \<and> readable (vh_code H i) out n \<and> all_readable H run cmds g1 (i + 1))"

text \<open>What the caller sees of a result, and a channel at rest with the machine in a state.\<close>

definition seen :: "cmd_result option result option \<Rightarrow> (string \<times> int \<times> string) option" where
  "seen r =
     (case r of Some (Inr (Some c)) \<Rightarrow> Some (cr_command c, cr_returncode c, cr_stdout c) | _ \<Rightarrow> None)"

definition at_rest :: "'g qemu \<Rightarrow> 'g \<Rightarrow> bool" where
  "at_rest s g \<longleftrightarrow>
     qm_child s = Some g \<and> \<not> qm_stopping s \<and> \<not> qm_cmd s \<and> outstanding s [LF] (qm_now s + EXPECT_TIMEOUT)"

lemma outstanding_upd [simp]: "outstanding (s\<lparr>qm_cmd := b\<rparr>) x t = outstanding s x t"
  by (simp add: outstanding_def)

lemma run_command_serves:
  assumes serves: "serves H run" and rest: "at_rest s g" and run: "run cmd g = Some (out, n, g')"
    and cmd: "trim_end cmd \<noteq> []" and readable: "readable (vh_code H (qm_codes s)) out n"
  shows "\<exists>r s'. qemu_run_command H cmd None None buffered s = (r, s') \<and> seen r = Some (cmd, int n, out) \<and>
     at_rest s' g' \<and> qm_codes s' = qm_codes s + 1"
proof -
  let ?s = "s\<lparr>qm_cmd := True\<rparr>"
  have "cmd \<noteq> []" using cmd by auto
  moreover have "is_active_sync H s" using serves rest by (simp add: is_active_sync_def serves_def at_rest_def)
  moreover obtain t s1 where e: "exec H cmd buffered ?s = (Inr (out, int n, t), s1)" and same: "same_control ?s s1"
    and s1: "qm_child s1 = Some g'" "qm_codes s1 = qm_codes s + 1" "outstanding s1 [LF] (qm_now s1 + EXPECT_TIMEOUT)"
    using exec_reads [OF serves run cmd, of ?s "[]" buffered] rest readable by (auto simp: at_rest_def)
  ultimately have "qemu_run_command H cmd None None buffered s =
      (Some (Inr (Some \<lparr> cr_command = cmd, cr_returncode = int n, cr_stdout = out, cr_exec_time = t \<rparr>)), s1\<lparr>qm_cmd := False\<rparr>)"
    using rest by (simp add: qemu_run_command_def command_locked_def set_cwd_def try_q_def at_rest_def)
  moreover have "at_rest (s1\<lparr>qm_cmd := False\<rparr>) g'"
    using s1 same rest by (simp add: at_rest_def same_control_def)
  ultimately show ?thesis using s1(2) by (simp add: seen_def)
qed

text \<open>
  Claim C10: on a machine whose shell behaves, the channel implements running commands. Whatever a
  sequence of commands does there, and however its console output is cut into reads, each command
  reports its own output and return code, nothing of its neighbours, and the machine goes through
  the states it would go through without the channel; after each the channel is at rest again.
\<close>

theorem channel_implements_shell:
  assumes "serves H run" and "at_rest s g" and "all_readable H run cmds g (qm_codes s)"
  shows "case run_commands H buffered cmds s of (rs, s') \<Rightarrow>
     (case run_directly run cmds g of (ref, g') \<Rightarrow> map seen rs = map Some ref \<and> at_rest s' g')"
  using assms(2,3)
proof (induction cmds arbitrary: s g)
  case (Cons cmd cmds)
  obtain out n g1 where run: "run cmd g = Some (out, n, g1)" using Cons.prems(2) by (auto split: option.splits)
  with Cons.prems obtain r s1 where
    r: "qemu_run_command H cmd None None buffered s = (r, s1)" "seen r = Some (cmd, int n, out)"
    and s1: "at_rest s1 g1" "qm_codes s1 = qm_codes s + 1"
    using run_command_serves [OF assms(1) Cons.prems(1) run, of buffered] by auto
  have "all_readable H run cmds g1 (qm_codes s1)" using Cons.prems(2) run s1(2) by simp
  then show ?case using Cons.IH [OF s1(1)] r run by (auto split: prod.splits)
qed simp

section \<open>What is carried over\<close>

text \<open>
  A reply that comes after 300 seconds is lost to its command and given to the next one. The
  command fails with a communication error however well the machine is; the next command then
  reports, as its own output, the whole reply of the first (output, return code and marker) in front
  of what it wrote itself.
\<close>

theorem late_reply_joins_next:
  assumes serves: "serves H run" and rest: "at_rest s g" and cmd1: "trim_end cmd1 \<noteq> []" and cmd2: "trim_end cmd2 \<noteq> []"
    and slow: "vh_type H (exec_line cmd1 (vh_code H (qm_codes s))) (qm_now s) g = (Typed d, g1, data_reads late, sent)"
    and "d \<le> EXPECT_TIMEOUT" and "concat (map snd late) = reply_text out1 n1 (vh_code H (qm_codes s))"
    and late: "\<forall>(t, c) \<in> set late. c \<noteq> [] \<and> qm_now s + d + EXPECT_TIMEOUT < t \<and> t < qm_now s + d + 2 * EXPECT_TIMEOUT"
    and run2: "run cmd2 g1 = Some (out2, n2, g2)" and "vh_code H (qm_codes s) \<noteq> [LF]" and "vh_code H (qm_codes s) \<noteq> []"
    and readable: "readable (vh_code H (qm_codes s + 1)) (reply_text out1 n1 (vh_code H (qm_codes s)) @ out2) n2"
  shows "\<exists>s1 t s2.
     exec H cmd1 buffered s = (Inl (CommunicationE (''Timed out waiting for '' @ vh_debug H (vh_code H (qm_codes s)))), s1) \<and>
     exec H cmd2 buffered s1 = (Inr (reply_text out1 n1 (vh_code H (qm_codes s)) @ out2, int n2, t), s2)"
proof -
  let ?ref = "vh_code H (qm_codes s)"
  let ?s0 = "s\<lparr>qm_codes := qm_codes s + 1\<rparr>"
  obtain cs where cs: "qm_reads s = data_reads cs" "qm_last_read s @ concat (map snd cs) = [LF]"
    and cs_ok: "\<forall>(t, c) \<in> set cs. c \<noteq> [] \<and> t < qm_now s + EXPECT_TIMEOUT"
    and s: "qm_child s = Some g" "\<not> qm_stopping s"
    using rest by (auto simp: at_rest_def outstanding_def)
  define s1 where "s1 = s\<lparr>qm_codes := qm_codes s + 1, qm_child := Some g1, qm_reads := data_reads cs @ data_reads late,
    qm_file := qm_file s @ sent, qm_now := qm_now s + d\<rparr>"
  define s2 where "s2 = s1\<lparr>qm_reads := data_reads late, qm_last_read := [LF], qm_panicked := False,
    qm_now := qm_now s + d + EXPECT_TIMEOUT\<rparr>"
  have "is_active_sync H ?s0" using serves s by (simp add: is_active_sync_def serves_def)
  then have w: "write_stdin H (exec_line cmd1 ?ref) ?s0 = (Inr (), s1)"
    using s slow \<open>d \<le> EXPECT_TIMEOUT\<close> cs(1) by (simp add: write_stdin_def Let_def pass_time_def s1_def)
  have calm: "calm_env (env_of H buffered s1)"
    using s serves by (simp add: calm_env_def env_of_def is_active_sync_def serves_def s1_def)
  have none: "str_find ?ref [LF] = None"
    using assms(10,11) by (cases ?ref) (auto simp: starts_with_def split: if_splits)
  have "wait_loop (env_of H buffered s1) \<lparr> wo_timeout = EXPECT_TIMEOUT, wo_settle = PANIC_SETTLE \<rparr> ?ref
      (qm_now s + d + EXPECT_TIMEOUT) (qm_last_read s) (data_reads cs @ data_reads late) (qm_now s + d) =
    wait_timed_out (env_of H buffered s1) ?ref (qm_last_read s @ concat (map snd cs)) (data_reads late)
      (qm_now s + d + EXPECT_TIMEOUT)"
  proof (rule wait_loop_keeps [OF calm])
    show "length (qm_last_read s @ concat (map snd cs)) \<le> SERIAL_CAP" unfolding cs(2) by (simp add: SERIAL_CAP_def)
    show "\<not> sublist ''Kernel panic'' (qm_last_read s @ concat (map snd cs))"
      unfolding cs(2) by (auto dest: sublist_length_le)
    show "\<forall>(t, c) \<in> set cs. t < qm_now s + d + EXPECT_TIMEOUT \<and> c \<noteq> []" using cs_ok by fastforce
    show "\<forall>(t, ev) \<in> set (data_reads late). qm_now s + d + EXPECT_TIMEOUT < t" using late by fastforce
  qed (use none in \<open>simp_all add: cs(2) EXPECT_TIMEOUT_def\<close>)
  then have "wait_for H ?ref buffered s1 = (Inl (CommunicationE (''Timed out waiting for '' @ vh_debug H ?ref)), s2)"
    by (simp add: wait_for_def wait_for_message_def wait_timed_out_def cs(2) s1_def s2_def env_of_def Let_def)
  then have e1: "exec H cmd1 buffered s = (Inl (CommunicationE (''Timed out waiting for '' @ vh_debug H ?ref)), s2)"
    using w by (simp add: exec_def Let_def)
  have "outstanding s2 (LF # reply_text out1 n1 ?ref) (qm_now s2 + EXPECT_TIMEOUT)"
    using late assms(7) unfolding outstanding_def by (intro exI [of _ late]) (fastforce simp: s2_def)
  then obtain t s3 where "exec H cmd2 buffered s2 = (Inr (reply_text out1 n1 ?ref @ out2, int n2, t), s3)"
    using exec_reads [OF serves run2 cmd2, of s2 "reply_text out1 n1 ?ref" buffered] readable s
    by (auto simp: s2_def s1_def)
  then show ?thesis using e1 by blast
qed

section \<open>Files\<close>

lemma read_transport_Ok:
  "read_transport metadata (Inr bytes) pos = Inr (data, pos') \<Longrightarrow> data = drop pos bytes \<and> pos' = pos + length data"
  by (auto simp: read_transport_def MAX_TRANSPORT_BYTES_def min_def Let_def split: sum.splits if_splits)

lemma read_transport_small:
  assumes "length bytes \<le> MAX_TRANSPORT_BYTES"
  shows "read_transport (Inr (length bytes)) (Inr bytes) pos = Inr (drop pos bytes, pos + length (drop pos bytes))"
proof -
  have "\<not> MAX_TRANSPORT_BYTES < length bytes - pos" using assms by linarith
  then show ?thesis by (simp add: read_transport_def Let_def)
qed

definition fetch_post :: "'g qemu \<Rightarrow> string result \<Rightarrow> 'g qemu \<Rightarrow> bool" where
  "fetch_post s r s' \<longleftrightarrow>
     qm_stopping s' = qm_stopping s \<and> prefix (qm_file s) (qm_file s') \<and>
     (case r of
        Inl _ \<Rightarrow> qm_last_pos s' = qm_last_pos s
      | Inr data \<Rightarrow> qm_stopping s \<or>
          data = drop (qm_last_pos s) (qm_file s') \<and> qm_last_pos s' = qm_last_pos s + length data)"

lemma fetch_post_error: "same_control s s' \<Longrightarrow> fetch_post s (Inl e) s'"
  by (simp add: fetch_post_def same_control_def)

lemma fetch_locked_post:
  assumes reads: "\<And>f. vh_read H f = Inr f"
  shows "case fetch_locked H path s of (r, s') \<Rightarrow> fetch_post s r s'"
proof -
  let ?cat = "\<lambda>dev. ''cat '' @ shell_quote path @ '' > '' @ dev"
  obtain r1 s1 where e1: "exec H (''test -f '' @ shell_quote path) False s = (r1, s1)" by fastforce
  then have c1: "same_control s s1" using exec_same [of s H "''test -f '' @ shell_quote path" False] by simp
  show ?thesis
  proof (cases "\<exists>out t cfg. r1 = Inr (out, 0, t) \<and> configured s1 = Inr cfg")
    case False
    then show ?thesis
      using e1 c1 by (auto simp: fetch_locked_def fetch_post_error split: sum.splits prod.splits)
  next
    case True
    then obtain out t cfg where r1: "r1 = Inr (out, 0, t)" and cfg: "configured s1 = Inr cfg" by blast
    let ?dev = "fst (transport cfg (vh_pid H))"
    obtain r2 s2 where e2: "exec H (?cat ?dev) False s1 = (r2, s2)" by fastforce
    then have c2: "same_control s s2"
      using same_control_trans [OF c1 exec_same [of s1 H "?cat ?dev" False]] by simp
    have control: "qm_stopping s2 = qm_stopping s" "qm_last_pos s2 = qm_last_pos s" "prefix (qm_file s) (qm_file s2)"
      using c2 by (simp_all add: same_control_def)
    show ?thesis
    proof (cases r2)
      case (Inl err)
      then show ?thesis using e1 r1 cfg e2 c2 by (simp add: fetch_locked_def fetch_post_error Let_def)
    next
      case (Inr res)
      obtain shown rc tm where res: "res = (shown, rc, tm)" by (cases res) auto
      show ?thesis
        using e1 r1 cfg e2 c2 Inr res reads control
        by (auto simp: fetch_locked_def fetch_post_error Let_def fetch_post_def
            split: sum.splits prod.splits dest!: read_transport_Ok)
    qed
  qed
qed

lemma fetch_file_post:
  assumes "\<And>f. vh_read H f = Inr f" and "qemu_fetch_file H path s = (Some r, s')"
  shows "fetch_post s r s'"
proof (cases "path = [] \<or> \<not> is_active_sync H s \<or> qm_fetch s")
  case True
  then show ?thesis using assms(2) by (auto simp: qemu_fetch_file_def fetch_post_error split: if_splits)
next
  case False
  then show ?thesis
    using assms(2) fetch_locked_post [OF assms(1), where path = path and s = "s\<lparr>qm_fetch := True\<rparr>"]
    by (cases r) (auto simp: qemu_fetch_file_def fetch_post_def split: prod.splits)
qed

text \<open>
  Bytes of a transfer that failed are delivered with the next file. When everything in the
  transport file has been delivered, one fetch fails and the next succeeds, what the second returns
  is whatever the first still put into the transport file followed by its own bytes.
\<close>

theorem failed_fetch_joins_next:
  assumes reads: "\<And>f. vh_read H f = Inr f" and "\<not> qm_stopping s" and "qm_last_pos s = length (qm_file s)"
    and "qemu_fetch_file H path1 s = (Some (Inl e), s1)" and "qemu_fetch_file H path2 s1 = (Some (Inr data), s2)"
  shows "\<exists>a b. qm_file s1 = qm_file s @ a \<and> qm_file s2 = qm_file s1 @ b \<and> data = a @ b"
proof -
  from fetch_file_post [OF reads assms(4)] obtain a where a: "qm_file s1 = qm_file s @ a"
    and p1: "qm_last_pos s1 = qm_last_pos s" "\<not> qm_stopping s1"
    using assms(2) by (auto simp: fetch_post_def prefix_def)
  from fetch_file_post [OF reads assms(5)] obtain b where b: "qm_file s2 = qm_file s1 @ b"
    and d: "data = drop (qm_last_pos s1) (qm_file s2)"
    using p1(2) by (auto simp: fetch_post_def prefix_def)
  show ?thesis using a b d p1(1) assms(3) by (auto intro!: exI [of _ a] exI [of _ b])
qed

section \<open>A machine that answers\<close>

text \<open>
  A shell that knows \<open>id\<close> and counts commands, with one marker, answering at once in two reads; only
  the reply of \<open>slow\<close> takes 400 seconds. \<open>cat\<close> of a file sends three bytes, and of \<open>stuck\<close> it sends
  three and fails.
\<close>

definition demo_marker :: "nat \<Rightarrow> string" where
  "demo_marker n = (if n = 0 then ''aB3dE6gH9j'' else ''kL3mN6oP9q'')"

definition demo_output :: "string \<Rightarrow> string \<times> nat" where
  "demo_output cmd =
     (if cmd = ''id'' then (''root'' @ [LF], 0)
      else if cmd = ''nope'' then ([], 1)
      else if starts_with (''cat '' @ quoted ''stuck'') cmd then ([], 2)
      else ([], 0))"

definition demo_run :: "string \<Rightarrow> nat \<Rightarrow> (string \<times> nat \<times> nat) option" where
  "demo_run cmd g =
     (if cmd = ''slow'' then None else (case demo_output cmd of (out, n) \<Rightarrow> Some (out, n, Suc g)))"

definition demo_type :: "string \<Rightarrow> nat \<Rightarrow> nat \<Rightarrow> typing \<times> nat \<times> console_reads \<times> string" where
  "demo_type line now g =
     (let cmd = take (length line - 20) line;
          ref = take 10 (drop (length line - 11) line);
          (out, n) = demo_output cmd;
          delay = (if cmd = ''slow'' then seconds 400 else 0)
      in (Typed 0, Suc g, data_reads [(now + delay, out @ show_nat n @ ''-''), (now + delay, ref @ [LF])],
          if starts_with (''cat '' @ quoted ''stuck'') cmd then ''AAA''
          else if starts_with ''cat '' cmd then ''BBB'' else []))"

definition demo_host :: "nat vm_host" where
  "demo_host =
     \<lparr> vh_pid = 1, vh_debug = \<lambda>s. s, vh_regex = match_retcode, vh_code = demo_marker,
       vh_spawn = \<lambda>program argv now. Inr (0, [], []), vh_alive = \<lambda>g t. True, vh_type = demo_type,
       vh_kill = \<lambda>g t. (Inr (), g), vh_reap = \<lambda>g t. (0, Inr ()), vh_write = \<lambda>d. None,
       vh_metadata = \<lambda>f. Inr (length f), vh_read = Inr, vh_secs = \<lambda>t. F64_Fin 0 \<rparr>"

lemma demo_line:
  "trim_end cmd \<noteq> [] \<Longrightarrow> take (length (exec_line cmd (demo_marker i)) - 20) (exec_line cmd (demo_marker i)) = cmd"
  "trim_end cmd \<noteq> [] \<Longrightarrow>
    take 10 (drop (length (exec_line cmd (demo_marker i)) - 11) (exec_line cmd (demo_marker i))) = demo_marker i"
  by (simp_all add: exec_line_def demo_marker_def)

lemma demo_host_serves: "serves demo_host demo_run"
proof -
  have "\<exists>d cs sent. demo_type (exec_line cmd (demo_marker i)) now g = (Typed d, g', data_reads cs, sent) \<and>
      d \<le> EXPECT_TIMEOUT \<and> concat (map snd cs) = reply_text out n (demo_marker i) \<and>
      (\<forall>(t, c) \<in> set cs. c \<noteq> [] \<and> t < now + EXPECT_TIMEOUT)"
    if "trim_end cmd \<noteq> []" "demo_run cmd g = Some (out, n, g')" for cmd i now g out n g'
  proof -
    note run = that
    obtain sent where "demo_type (exec_line cmd (demo_marker i)) now g =
        (Typed 0, g', data_reads [(now, out @ show_nat n @ ''-''), (now, demo_marker i @ [LF])], sent)"
      using run(2) demo_line [OF run(1), of i]
      by (auto simp: demo_type_def demo_run_def Let_def split: if_splits prod.splits)
    then show ?thesis
      by (intro exI [of _ 0] exI [of _ "[(now, out @ show_nat n @ ''-''), (now, demo_marker i @ [LF])]"] exI [of _ sent])
         (simp add: reply_text_def EXPECT_TIMEOUT_def)
  qed
  then show ?thesis by (auto simp: serves_def demo_host_def reads_ascii_def)
qed

definition demo_vm :: "nat qemu" where
  "demo_vm = qemu_new\<lparr>qm_config := Some demo_config, qm_child := Some 0, qm_last_read := [LF]\<rparr>"

lemma demo_vm_at_rest: "at_rest demo_vm 0"
  by (simp add: at_rest_def demo_vm_def qemu_new_def outstanding_def)

lemma demo_digits: "show_nat 0 = ''0''" "show_nat (Suc 0) = ''1''"
  by code_simp+

lemma demo_words:
  "trim_end ''id'' \<noteq> []" "trim_end ''nope'' \<noteq> []" "trim_end ''slow'' \<noteq> []"
  by code_simp+

lemma demo_runs: "demo_run ''id'' g = Some (''root'' @ [LF], 0, Suc g)" "demo_run ''nope'' g = Some ([], 1, Suc g)"
  by (simp_all add: demo_run_def demo_output_def starts_with_def)

lemma demo_code: "vh_code demo_host i = demo_marker i"
  by (simp add: demo_host_def)

text \<open>The text before each marker, without the marker or a panic in it.\<close>

lemma demo_clean:
  "\<not> contains (LF # ''root'' @ [LF] @ ''0'') ''aB3dE6gH9j''" "\<not> contains (LF # ''1'') ''kL3mN6oP9q''"
  "\<not> contains (LF # ''root'' @ [LF] @ ''0-aB3dE6gH9j'' @ [LF]) ''Kernel panic''"
  "\<not> contains (LF # ''1-kL3mN6oP9q'' @ [LF]) ''Kernel panic''"
  "\<not> contains (LF # ''0-aB3dE6gH9j'' @ [LF] @ ''root'' @ [LF] @ ''0'') ''kL3mN6oP9q''"
  "\<not> contains (LF # ''0-aB3dE6gH9j'' @ [LF] @ ''root'' @ [LF] @ ''0-kL3mN6oP9q'' @ [LF]) ''Kernel panic''"
  by code_simp+

lemma demo_readable:
  "readable (demo_marker 0) (''root'' @ [LF]) 0" "readable (demo_marker 1) [] (Suc 0)"
  "readable (demo_marker 1) (reply_text [] 0 (demo_marker 0) @ ''root'' @ [LF]) 0"
  using demo_clean unfolding contains_sublist
  by (simp_all add: readable_def reply_text_def demo_digits demo_marker_def is_digit_def SERIAL_CAP_def)

lemma channel_implements_shell_witness:
  "case run_commands demo_host True [''id'', ''nope''] demo_vm of (rs, s') \<Rightarrow>
     (case run_directly demo_run [''id'', ''nope''] 0 of (ref, g') \<Rightarrow> map seen rs = map Some ref \<and> at_rest s' g')"
proof -
  have "qm_codes demo_vm = 0" by (simp add: demo_vm_def qemu_new_def)
  then have "all_readable demo_host demo_run [''id'', ''nope''] 0 (qm_codes demo_vm)"
    using demo_words demo_readable by (simp add: demo_code demo_runs)
  then show ?thesis by (rule channel_implements_shell [OF demo_host_serves demo_vm_at_rest])
qed

lemma late_reply_joins_next_witness:
  "\<exists>s1 t s2.
     exec demo_host ''slow'' False demo_vm = (Inl (CommunicationE ''Timed out waiting for aB3dE6gH9j''), s1) \<and>
     exec demo_host ''id'' False s1 = (Inr (''0-aB3dE6gH9j'' @ [LF] @ ''root'' @ [LF], 0, t), s2)"
proof -
  let ?late = "[(seconds 400, ''0-''), (seconds 400, demo_marker 0 @ [LF])]"
  have vm: "qm_codes demo_vm = 0" "qm_now demo_vm = 0" by (simp_all add: demo_vm_def qemu_new_def)
  have slow: "vh_type demo_host (exec_line ''slow'' (demo_marker 0)) 0 0 = (Typed 0, 1, data_reads ?late, [])"
    using demo_line [OF demo_words(3), of 0] demo_digits
    by (simp add: demo_host_def demo_type_def demo_output_def starts_with_def Let_def)
  have m: "demo_marker 0 = ''aB3dE6gH9j''" by (simp add: demo_marker_def)
  show ?thesis
    using late_reply_joins_next [OF demo_host_serves demo_vm_at_rest demo_words(3,1), of 0 1 ?late "[]" "[]" 0
        "''root'' @ [LF]" 0 2 False]
      slow demo_readable(3) demo_runs(1) [of 1]
    by (simp add: demo_code vm reply_text_def demo_digits m EXPECT_TIMEOUT_def demo_host_def)
qed

text \<open>Commands of the two transfers: each answers with no output and a code below 3.\<close>

lemma demo_readable_code:
  assumes "n < 3"
  shows "readable (demo_marker i) [] n"
proof -
  have d: "show_nat n = [char_of (48 + n)]" using assms by (subst show_nat.simps) (simp add: digit_char_def)
  have "\<not> contains (LF # [c]) (demo_marker i) \<and> \<not> contains (LF # [c] @ ''-'' @ demo_marker i @ [LF]) ''Kernel panic''"
    if "c \<in> {CHR ''0'', CHR ''1'', CHR ''2''}" for c
    using that unfolding demo_marker_def by (auto simp: contains_def starts_with_def)
  moreover have "char_of (48 + n) \<in> {CHR ''0'', CHR ''1'', CHR ''2''}"
  proof -
    have "char_of (48 :: nat) = CHR ''0''" "char_of (49 :: nat) = CHR ''1''" "char_of (50 :: nat) = CHR ''2''" by code_simp+
    then show ?thesis using assms by (auto simp: less_Suc_eq numeral_3_eq_3)
  qed
  ultimately show ?thesis
    using assms unfolding contains_sublist
    by (simp add: readable_def reply_text_def d is_digit_def SERIAL_CAP_def demo_marker_def)
qed

lemma demo_exec:
  assumes "trim_end cmd \<noteq> []" and "demo_run cmd g = Some ([], n, Suc g)" and "n < 3"
    and "qm_child s = Some g" and "\<not> qm_stopping s" and "outstanding s [LF] (qm_now s + EXPECT_TIMEOUT)"
  shows "\<exists>t s'. exec demo_host cmd False s = (Inr ([], int n, t), s') \<and> same_control s s' \<and>
     qm_child s' = Some (Suc g) \<and> outstanding s' [LF] (qm_now s' + EXPECT_TIMEOUT) \<and>
     qm_file s' = qm_file s @
       (if starts_with (''cat '' @ quoted ''stuck'') cmd then ''AAA'' else if starts_with ''cat '' cmd then ''BBB'' else [])"
proof -
  have "snd (snd (snd (vh_type demo_host (exec_line cmd (vh_code demo_host (qm_codes s))) (qm_now s) g))) =
      (if starts_with (''cat '' @ quoted ''stuck'') cmd then ''AAA'' else if starts_with ''cat '' cmd then ''BBB'' else [])"
    using demo_line [OF assms(1)] by (simp add: demo_host_def demo_type_def Let_def split: prod.split)
  then show ?thesis
    using exec_reads [OF demo_host_serves assms(2,1,4,5), of "[]" False] assms(6) demo_readable_code [OF assms(3)]
    by (fastforce simp: demo_code)
qed

definition demo_ready :: "nat qemu \<Rightarrow> bool" where
  "demo_ready s \<longleftrightarrow>
     qm_config s = Some demo_config \<and> (\<exists>g. qm_child s = Some g) \<and> \<not> qm_stopping s \<and> \<not> qm_fetch s \<and>
     outstanding s [LF] (qm_now s + EXPECT_TIMEOUT)"

lemma outstanding_fetch [simp]: "outstanding (s\<lparr>qm_fetch := b\<rparr>) x t = outstanding s x t"
  by (simp add: outstanding_def)

lemma demo_fetch:
  assumes "demo_ready s" and "path = ''stuck'' \<and> n = (2 :: nat) \<and> sent = ''AAA'' \<or> path = ''log'' \<and> n = 0 \<and> sent = ''BBB''"
    and "length (qm_file s) \<le> 1000"
  shows "\<exists>r s'. qemu_fetch_file demo_host path s = (Some r, s') \<and> demo_ready s' \<and> qm_file s' = qm_file s @ sent \<and>
     qm_last_pos s' = (if path = ''stuck'' then qm_last_pos s else qm_last_pos s + length (drop (qm_last_pos s) (qm_file s'))) \<and>
     (if path = ''stuck'' then \<exists>e. r = Inl e else \<exists>d. r = Inr d)"
proof -
  let ?test = "''test -f '' @ shell_quote path" and ?cat = "''cat '' @ shell_quote path @ '' > '' @ ''/dev/ttyS1''"
  have "trim_end (''test -f '' @ shell_quote ''stuck'') \<noteq> []" "trim_end (''test -f '' @ shell_quote ''log'') \<noteq> []"
    "trim_end (''cat '' @ shell_quote ''stuck'' @ '' > '' @ ''/dev/ttyS1'') \<noteq> []"
    "trim_end (''cat '' @ shell_quote ''log'' @ '' > '' @ ''/dev/ttyS1'') \<noteq> []"
    by code_simp+
  then have w: "trim_end ?test \<noteq> []" "trim_end ?cat \<noteq> []" using assms(2) by auto
  have run: "demo_run ?test g = Some ([], 0, Suc g)" "demo_run ?cat g = Some ([], n, Suc g)"
    "\<not> starts_with (''cat '' @ quoted ''stuck'') ?test" "\<not> starts_with ''cat '' ?test"
    "starts_with ''cat '' ?cat" "starts_with (''cat '' @ quoted ''stuck'') ?cat \<longleftrightarrow> path = ''stuck''" "n < 3" for g
    using assms(2)
    by (auto simp: demo_run_def demo_output_def starts_with_def shell_quote_def escape_quotes_def quoted_def)
  have sent: "(if starts_with (''cat '' @ quoted ''stuck'') ?cat then ''AAA'' else if starts_with ''cat '' ?cat then ''BBB'' else []) = sent"
    using run(5,6) assms(2) by auto
  obtain g where g: "qm_child s = Some g" using assms(1) by (auto simp: demo_ready_def)
  let ?s = "s\<lparr>qm_fetch := True\<rparr>"
  have s: "qm_config s = Some demo_config" "\<not> qm_stopping s" "\<not> qm_fetch s" "outstanding s [LF] (qm_now s + EXPECT_TIMEOUT)"
    using assms(1) by (auto simp: demo_ready_def)
  obtain t1 s1 where e1: "exec demo_host ?test False ?s = (Inr ([], 0, t1), s1)" and c1: "same_control ?s s1"
    and s1: "qm_child s1 = Some (Suc g)" "outstanding s1 [LF] (qm_now s1 + EXPECT_TIMEOUT)" "qm_file s1 = qm_file s"
    using demo_exec [of ?test g 0 ?s] w(1) run(1) [of g] g s run(3,4) by auto
  have k1: "\<not> qm_stopping s1" "qm_config s1 = Some demo_config" "qm_fetch s1" "qm_last_pos s1 = qm_last_pos s"
    using c1 s by (simp_all add: same_control_def)
  obtain t2 s2 where e2: "exec demo_host ?cat False s1 = (Inr ([], int n, t2), s2)" and c2: "same_control s1 s2"
    and s2: "qm_child s2 = Some (Suc (Suc g))" "outstanding s2 [LF] (qm_now s2 + EXPECT_TIMEOUT)"
      "qm_file s2 = qm_file s @ sent"
    using demo_exec [OF w(2) run(2,7) s1(1) k1(1) s1(2)] unfolding sent s1(3) by blast
  have k2: "\<not> qm_stopping s2" "qm_config s2 = Some demo_config" "qm_last_pos s2 = qm_last_pos s"
    using c2 k1 by (simp_all add: same_control_def)
  have cfg: "configured s1 = Inr demo_config" using k1 by (simp add: configured_def)
  have dev: "''cat '' @ shell_quote path @ '' > '' @ fst (transport demo_config (vh_pid demo_host)) = ?cat"
    by (simp add: transport_def transport_dev_def demo_config_def)
  have active: "is_active_sync demo_host s" using g by (simp add: is_active_sync_def demo_host_def)
  have ready: "demo_ready (s2\<lparr>qm_fetch := False\<rparr>)" "demo_ready (s2\<lparr>qm_last_pos := p, qm_fetch := False\<rparr>)" for p
    using k2 s2 by (simp_all add: demo_ready_def outstanding_def)
  have fs: "vh_metadata demo_host (qm_file s2) = Inr (length (qm_file s2))" "vh_read demo_host (qm_file s2) = Inr (qm_file s2)"
    by (simp_all add: demo_host_def)
  show ?thesis
  proof (cases "path = ''stuck''")
    case True
    then have "n = 2" "path \<noteq> []" using assms(2) by auto
    then have "\<exists>e. qemu_fetch_file demo_host path s = (Some (Inl e), s2\<lparr>qm_fetch := False\<rparr>)"
      using active s(3) e1 e2 cfg dev k2 by (simp add: qemu_fetch_file_def fetch_locked_def Let_def)
    then show ?thesis using True ready(1) s2(3) k2 by auto
  next
    case False
    then have n: "n = 0" "path \<noteq> []" "length sent = 3" using assms(2) by auto
    have "read_transport (Inr (length (qm_file s2))) (Inr (qm_file s2)) (qm_last_pos s)
        = Inr (drop (qm_last_pos s) (qm_file s2), qm_last_pos s + length (drop (qm_last_pos s) (qm_file s2)))"
      using assms(3) n(3) by (intro read_transport_small) (simp add: MAX_TRANSPORT_BYTES_def s2(3))
    then have "qemu_fetch_file demo_host path s = (Some (Inr (drop (qm_last_pos s) (qm_file s2))),
        s2\<lparr>qm_last_pos := qm_last_pos s + length (drop (qm_last_pos s) (qm_file s2)), qm_fetch := False\<rparr>)"
      using active s(3) e1 e2 cfg dev k2 n fs by (simp add: qemu_fetch_file_def fetch_locked_def Let_def)
    then show ?thesis using False ready(2) s2(3) by auto
  qed
qed

lemma failed_fetch_joins_next_witness:
  "\<exists>e s1 s2 data. qemu_fetch_file demo_host ''stuck'' demo_vm = (Some (Inl e), s1) \<and>
     qemu_fetch_file demo_host ''log'' s1 = (Some (Inr data), s2) \<and> data = ''AAABBB''"
proof -
  have vm: "qm_file demo_vm = []" "qm_last_pos demo_vm = 0" "\<not> qm_stopping demo_vm" by (simp_all add: demo_vm_def qemu_new_def)
  have "demo_ready demo_vm" by (simp add: demo_ready_def demo_vm_def qemu_new_def outstanding_def)
  then obtain e s1 where f1: "qemu_fetch_file demo_host ''stuck'' demo_vm = (Some (Inl e), s1)" "demo_ready s1"
    "qm_file s1 = ''AAA''"
    using demo_fetch [of demo_vm "''stuck''" 2 "''AAA''"] vm by auto
  then obtain data s2 where f2: "qemu_fetch_file demo_host ''log'' s1 = (Some (Inr data), s2)" "qm_file s2 = ''AAA'' @ ''BBB''"
    using demo_fetch [of s1 "''log''" 0 "''BBB''"] by auto
  have "\<exists>a b. qm_file s1 = qm_file demo_vm @ a \<and> qm_file s2 = qm_file s1 @ b \<and> data = a @ b"
    by (rule failed_fetch_joins_next [OF _ vm(3) _ f1(1) f2(1)]) (simp_all add: vm demo_host_def)
  then show ?thesis using f1 f2 vm by auto
qed

text \<open>
  \<open>cat\<close> of a file that cannot be read ends with 1, which counts as success: the fetch returns what is in
  the transport file, and that is nothing.
\<close>

lemma unreadable_file_is_empty:
  assumes "path \<noteq> []" and "is_active_sync H s" and "\<not> qm_fetch s"
    and "exec H (''test -f '' @ shell_quote path) False (s\<lparr>qm_fetch := True\<rparr>) = (Inr (o1, 0, t1), s1)"
    and "configured s1 = Inr cfg"
    and "exec H (''cat '' @ shell_quote path @ '' > '' @ fst (transport cfg (vh_pid H))) False s1 = (Inr (o2, 1, t2), s2)"
    and "\<not> qm_stopping s2" and "qm_last_pos s2 = length (qm_file s2)"
    and "vh_metadata H (qm_file s2) = Inr (length (qm_file s2))" and "vh_read H (qm_file s2) = Inr (qm_file s2)"
  shows "fst (qemu_fetch_file H path s) = Some (Inr [])"
  using assms by (simp add: qemu_fetch_file_def fetch_locked_def read_transport_def Let_def)

end
