(* ===== verification/Temp_Disk.thy ===== *)
theory Temp_Disk
  imports Support_Files "HOL-Library.AList"
begin

text \<open>
  The part of \<open>std::fs\<close> the temporary folders use, on Unix: a disk lists its nodes by absolute path,
  the listing order of a directory is the order of that list. Paths are component lists without
  separators and dots; \<open>..\<close> and links are resolved by walking. What the operating system refuses is
  an environment.
\<close>

section \<open>Nodes and paths\<close>

type_synonym path = "string list"

datatype node = Dir_Node nat | File_Node nat string | Link_Node nat string

text \<open>The number is the modification time; a link holds the text of its target.\<close>

fun node_time :: "node \<Rightarrow> nat" where
  "node_time (Dir_Node t) = t"
| "node_time (File_Node t _) = t"
| "node_time (Link_Node t _) = t"

fun is_dir_node :: "node \<Rightarrow> bool" where
  "is_dir_node (Dir_Node _) = True"
| "is_dir_node _ = False"

fun is_link_node :: "node \<Rightarrow> bool" where
  "is_link_node (Link_Node _ _) = True"
| "is_link_node _ = False"

type_synonym disk = "(path \<times> node) list"

definition steps :: "string \<Rightarrow> path" where
  "steps t = filter (\<lambda>c. c \<noteq> [] \<and> c \<noteq> ''.'') (split_on (CHR ''/'') t)"

definition path_text :: "path \<Rightarrow> string" where
  "path_text p = concat (map ((#) (CHR ''/'')) p)"

text \<open>
  \<open>walk d create n here cs\<close> resolves the components \<open>cs\<close> from the directory \<open>here\<close>, following at most \<open>n\<close>
  links; with \<open>create\<close> the last component may be missing, as when a file is opened to be created.
\<close>

fun walk :: "disk \<Rightarrow> bool \<Rightarrow> nat \<Rightarrow> path \<Rightarrow> path \<Rightarrow> path option" where
  "walk d create n here [] = Some here"
| "walk d create n here (c # cs) =
     (if c = ''..'' then walk d create n (butlast here) cs
      else
        (case map_of d (here @ [c]) of
           None \<Rightarrow> if create \<and> cs = [] then Some (here @ [c]) else None
         | Some (Dir_Node _) \<Rightarrow> walk d create n (here @ [c]) cs
         | Some (File_Node _ _) \<Rightarrow> if cs = [] then Some (here @ [c]) else None
         | Some (Link_Node _ t) \<Rightarrow>
             (case n of
                0 \<Rightarrow> None
              | Suc m \<Rightarrow> walk d create m (if path_is_absolute t then [] else here) (steps t @ cs))))"

definition MAX_LINKS :: nat where "MAX_LINKS = 40"

definition canonicalize :: "disk \<Rightarrow> path \<Rightarrow> path option" where
  "canonicalize d p = walk d False MAX_LINKS [] p"

definition node_at :: "disk \<Rightarrow> path \<Rightarrow> node option" where
  "node_at d p =
     (case canonicalize d p of
        None \<Rightarrow> None
      | Some q \<Rightarrow> if q = [] then Some (Dir_Node 0) else map_of d q)"

definition is_dir :: "disk \<Rightarrow> path \<Rightarrow> bool" where
  "is_dir d p = (case node_at d p of Some x \<Rightarrow> is_dir_node x | None \<Rightarrow> False)"

definition path_exists :: "disk \<Rightarrow> path \<Rightarrow> bool" where
  "path_exists d p \<longleftrightarrow> node_at d p \<noteq> None"

text \<open>\<open>own_path\<close> resolves all but the last component: the node itself, which may be a link.\<close>

definition own_path :: "disk \<Rightarrow> path \<Rightarrow> path option" where
  "own_path d p = map_option (\<lambda>q. q @ [last p]) (canonicalize d (butlast p))"

definition is_symlink :: "disk \<Rightarrow> path \<Rightarrow> bool" where
  "is_symlink d p =
     (case own_path d p of
        None \<Rightarrow> False
      | Some q \<Rightarrow> (case map_of d q of Some x \<Rightarrow> is_link_node x | None \<Rightarrow> False))"

section \<open>Operations\<close>

text \<open>
  \<open>te_refuses\<close> is the error text of creating or writing a node, \<open>te_survives\<close> tells which nodes a removal
  leaves; \<open>te_suffix\<close> is the value of each draw of a random suffix.
\<close>

record temp_env =
  te_var :: "string \<Rightarrow> string option" \<comment> \<open>environment variables that are UTF-8\<close>
  te_cwd :: path
  te_now :: nat
  te_suffix :: "nat \<Rightarrow> nat"
  te_refuses :: "path \<Rightarrow> string option"
  te_list_error :: "path \<Rightarrow> string option"
  te_no_metadata :: "path \<Rightarrow> bool"
  te_survives :: "path \<Rightarrow> path \<Rightarrow> bool"
  te_error :: "path \<Rightarrow> string" \<comment> \<open>the error text of a path that does not resolve or is taken\<close>

datatype made = Made disk | Missing | Refused string

definition mkdir_node :: "temp_env \<Rightarrow> path \<Rightarrow> disk \<Rightarrow> made" where
  "mkdir_node V p d =
     (if p = [] then Refused (te_error V p)
      else
        (case own_path d p of
           None \<Rightarrow> Missing
         | Some q \<Rightarrow>
             (if last p = ''..'' \<or> map_of d q \<noteq> None \<or> \<not> is_dir d (butlast p) then Refused (te_error V p)
              else
                (case te_refuses V q of
                   Some err \<Rightarrow> Refused err
                 | None \<Rightarrow> Made (d @ [(q, Dir_Node (te_now V))])))))"

text \<open>\<open>create_dir_all\<close>, on the reversed path: try, else create the parent and try again.\<close>

fun create_all :: "temp_env \<Rightarrow> path \<Rightarrow> disk \<Rightarrow> string option \<times> disk" where
  "create_all V [] d = (None, d)"
| "create_all V (c # rp) d =
     (let p = rev (c # rp)
      in (case mkdir_node V p d of
            Made d1 \<Rightarrow> (None, d1)
          | Refused err \<Rightarrow> if is_dir d p then (None, d) else (Some err, d)
          | Missing \<Rightarrow>
              (case create_all V rp d of
                 (Some err, d1) \<Rightarrow> (Some err, d1)
               | (None, d1) \<Rightarrow>
                   (case mkdir_node V p d1 of
                      Made d2 \<Rightarrow> (None, d2)
                    | Refused err \<Rightarrow> if is_dir d1 p then (None, d1) else (Some err, d1)
                    | Missing \<Rightarrow> (Some (te_error V p), d1)))))"

definition create_dir_all :: "temp_env \<Rightarrow> path \<Rightarrow> disk \<Rightarrow> string option \<times> disk" where
  "create_dir_all V p d = create_all V (rev p) d"

text \<open>\<open>read_dir\<close>: the entries of a directory by name.\<close>

definition read_dir :: "temp_env \<Rightarrow> path \<Rightarrow> disk \<Rightarrow> string + (string \<times> node) list" where
  "read_dir V p d =
     (case canonicalize d p of
        None \<Rightarrow> Inl (te_error V p)
      | Some q \<Rightarrow>
          (if \<not> is_dir d p then Inl (te_error V p)
           else
             (case te_list_error V q of
                Some err \<Rightarrow> Inl err
              | None \<Rightarrow> Inr (map (\<lambda>(r, x). (last r, x)) (filter (\<lambda>(r, x). r \<noteq> [] \<and> butlast r = q) d)))))"

definition remove_dir_all :: "temp_env \<Rightarrow> path \<Rightarrow> disk \<Rightarrow> disk" where
  "remove_dir_all V p d =
     (case own_path d p of
        None \<Rightarrow> d
      | Some q \<Rightarrow> filter (\<lambda>(r, x). \<not> prefix q r \<or> te_survives V q r) d)"

definition remove_file :: "temp_env \<Rightarrow> path \<Rightarrow> disk \<Rightarrow> disk" where
  "remove_file V p d =
     (case own_path d p of
        None \<Rightarrow> d
      | Some q \<Rightarrow> filter (\<lambda>(r, x). r \<noteq> q \<or> is_dir_node x \<or> te_survives V q r) d)"

definition make_symlink :: "temp_env \<Rightarrow> path \<Rightarrow> path \<Rightarrow> disk \<Rightarrow> string option \<times> disk" where
  "make_symlink V target p d =
     (case own_path d p of
        None \<Rightarrow> (Some (te_error V p), d)
      | Some q \<Rightarrow>
          (if map_of d q \<noteq> None then (Some (te_error V p), d)
           else
             (case te_refuses V q of
                Some err \<Rightarrow> (Some err, d)
              | None \<Rightarrow> (None, d @ [(q, Link_Node (te_now V) (path_text target))]))))"

text \<open>\<open>fs::write\<close>: the file is created or truncated, through links.\<close>

definition write_file :: "temp_env \<Rightarrow> path \<Rightarrow> string \<Rightarrow> disk \<Rightarrow> string option \<times> disk" where
  "write_file V p content d =
     (case walk d True MAX_LINKS [] p of
        None \<Rightarrow> (Some (te_error V p), d)
      | Some q \<Rightarrow>
          (if q = [] \<or> (case map_of d q of Some x \<Rightarrow> is_dir_node x | None \<Rightarrow> False) then (Some (te_error V p), d)
           else
             (case te_refuses V q of
                Some err \<Rightarrow> (Some err, d)
              | None \<Rightarrow> (None, AList.update q (File_Node (te_now V) content) d))))"

text \<open>
  A path keeps the slash it was written with: one that ends in a slash or in the component \<open>.\<close> can only name a
  directory, and opening it to write fails.
\<close>

definition names_dir :: "string \<Rightarrow> bool" where
  "names_dir t \<longleftrightarrow> last (split_on (CHR ''/'') t) \<in> {[], ''.''}"

definition write_named :: "temp_env \<Rightarrow> string \<Rightarrow> path \<Rightarrow> string \<Rightarrow> disk \<Rightarrow> string option \<times> disk" where
  "write_named V name p content d =
     (if names_dir name then (Some (te_error V p), d) else write_file V p content d)"

section \<open>Paths that are what they say\<close>

text \<open>Every component is a directory of its own, none a link: such a path resolves to itself.\<close>

fun real_dirs :: "disk \<Rightarrow> path \<Rightarrow> path \<Rightarrow> bool" where
  "real_dirs d here [] = True"
| "real_dirs d here (c # cs) =
     (c \<noteq> ''..'' \<and> (\<exists>t. map_of d (here @ [c]) = Some (Dir_Node t)) \<and> real_dirs d (here @ [c]) cs)"

lemma real_dirs_append: "real_dirs d here (p @ r) \<longleftrightarrow> real_dirs d here p \<and> real_dirs d (here @ p) r"
  by (induction p arbitrary: here) auto

lemma walk_real: "real_dirs d here p \<Longrightarrow> walk d create n here (p @ r) = walk d create n (here @ p) r"
  by (induction p arbitrary: here) auto

lemma canonicalize_real: "real_dirs d [] p \<Longrightarrow> canonicalize d (p @ r) = walk d False MAX_LINKS p r"
  by (simp add: canonicalize_def walk_real)

lemma canonicalize_real_dir [simp]: "real_dirs d [] p \<Longrightarrow> canonicalize d p = Some p"
  using canonicalize_real [of d p "[]"] by simp

lemma real_dirs_same:
  "real_dirs d here p \<Longrightarrow>
   (\<And>q t. prefix q (here @ p) \<Longrightarrow> map_of d q = Some (Dir_Node t) \<Longrightarrow> map_of d' q = Some (Dir_Node t)) \<Longrightarrow>
   real_dirs d' here p"
proof (induction p arbitrary: here)
  case (Cons c cs)
  then obtain t where "map_of d (here @ [c]) = Some (Dir_Node t)" by auto
  then have "map_of d' (here @ [c]) = Some (Dir_Node t)" by (intro Cons.prems(2)) simp_all
  moreover have "real_dirs d' (here @ [c]) cs" by (rule Cons.IH) (use Cons.prems in auto)
  ultimately show ?case using Cons.prems(1) by simp
qed simp

lemma real_dir_node: "real_dirs d [] p \<Longrightarrow> p \<noteq> [] \<Longrightarrow> \<exists>t. map_of d p = Some (Dir_Node t)"
  by (cases p rule: rev_cases) (auto simp: real_dirs_append)

lemma is_dir_real [simp]: "real_dirs d [] p \<Longrightarrow> is_dir d p"
  using real_dir_node [of d p] by (auto simp: is_dir_def node_at_def)

lemma own_path_real [simp]: "real_dirs d [] p \<Longrightarrow> own_path d (p @ [c]) = Some (p @ [c])"
  by (simp add: own_path_def)

lemma node_at_child:
  "real_dirs d [] p \<Longrightarrow> c \<noteq> ''..'' \<Longrightarrow> map_of d (p @ [c]) = None \<Longrightarrow> node_at d (p @ [c]) = None"
  "real_dirs d [] p \<Longrightarrow> c \<noteq> ''..'' \<Longrightarrow> map_of d (p @ [c]) = Some (Dir_Node t) \<Longrightarrow> node_at d (p @ [c]) = Some (Dir_Node t)"
  by (simp_all add: node_at_def canonicalize_real)

lemma create_dir_all_real: "real_dirs d [] p \<Longrightarrow> create_dir_all V p d = (None, d)"
proof (cases p rule: rev_cases)
  case (snoc r c)
  assume real: "real_dirs d [] p"
  with snoc have "real_dirs d [] r" "map_of d p \<noteq> None" by (auto simp: real_dirs_append)
  then have "mkdir_node V p d = Refused (te_error V p)" using snoc by (simp add: mkdir_node_def)
  with real snoc show ?thesis by (simp add: create_dir_all_def)
qed (simp add: create_dir_all_def)

section \<open>Removal\<close>

lemma map_of_filter_key:
  "map_of (filter (\<lambda>(r, x). P r) d) q = (if P q then map_of d q else None)"
  by (induction d) auto

lemma map_of_filter_entry:
  "distinct (map fst d) \<Longrightarrow>
   map_of (filter (\<lambda>(r, x). P r x) d) q =
     (case map_of d q of Some x \<Rightarrow> if P q x then Some x else None | None \<Rightarrow> None)"
proof (induction d)
  case (Cons e d)
  obtain k x where e: "e = (k, x)" by fastforce
  with Cons.prems have "map_of d k = None" by (force simp: map_of_eq_None_iff)
  with Cons e show ?case by auto
qed simp

lemma map_of_snoc: "map_of (d @ [(q, x)]) r = (case map_of d r of Some y \<Rightarrow> Some y | None \<Rightarrow> if r = q then Some x else None)"
  by (induction d) auto

section \<open>Below a folder without links\<close>

definition no_links :: "path \<Rightarrow> disk \<Rightarrow> bool" where
  "no_links folder d \<longleftrightarrow> list_all (\<lambda>(r, x). prefix folder r \<longrightarrow> \<not> is_link_node x) d"

lemma no_linksD: "no_links folder d \<Longrightarrow> map_of d p = Some (Link_Node t l) \<Longrightarrow> \<not> prefix folder p"
  by (drule map_of_SomeD) (auto simp: no_links_def list_all_iff)

lemma walk_no_links:
  "no_links folder d \<Longrightarrow> prefix folder here \<Longrightarrow> ''..'' \<notin> set cs \<Longrightarrow>
   walk d create n here cs = None \<or> walk d create n here cs = Some (here @ cs)"
proof (induction cs arbitrary: here)
  case (Cons c cs)
  then have "map_of d (here @ [c]) \<noteq> Some (Link_Node t l)" for t l
    using no_linksD [of folder d "here @ [c]"] by auto
  moreover have "walk d create n (here @ [c]) cs = None \<or> walk d create n (here @ [c]) cs = Some ((here @ [c]) @ cs)"
    using Cons.prems by (intro Cons.IH) auto
  ultimately show ?case using Cons.prems(3) by (auto split: option.splits node.splits)
qed simp

lemma canonicalize_no_links:
  assumes "no_links folder d" and "real_dirs d [] folder" and "''..'' \<notin> set cs"
  shows "canonicalize d (folder @ cs) = None \<or> canonicalize d (folder @ cs) = Some (folder @ cs)"
  using walk_no_links [OF assms(1) _ assms(3), of folder] by (simp add: canonicalize_real [OF assms(2)])

lemma is_dir_no_links:
  assumes "no_links folder d" and "prefix folder here" and "''..'' \<notin> set cs"
    and "walk d False n here cs = Some q" and "cs \<noteq> [] \<Longrightarrow> \<exists>t. map_of d q = Some (Dir_Node t)"
  shows "real_dirs d here cs"
  using assms(2-5)
proof (induction cs arbitrary: here)
  case (Cons c cs)
  have nl: "map_of d (here @ [c]) \<noteq> Some (Link_Node t l)" for t l
    using no_linksD [OF assms(1), of "here @ [c]"] Cons.prems(1) by auto
  show ?case
  proof (cases "map_of d (here @ [c])")
    case None
    with Cons.prems show ?thesis by auto
  next
    case (Some x)
    show ?thesis
    proof (cases x)
      case (Dir_Node t)
      with Some Cons.prems have "walk d False n (here @ [c]) cs = Some q" by auto
      with Cons Dir_Node Some show ?thesis by auto
    next
      case (File_Node t b)
      with Some Cons.prems show ?thesis by (auto split: if_splits)
    next
      case (Link_Node t l)
      with Some nl show ?thesis by blast
    qed
  qed
qed simp

lemma real_dirs_snoc:
  "real_dirs d [] p \<Longrightarrow> c \<noteq> ''..'' \<Longrightarrow> map_of d (p @ [c]) = None \<Longrightarrow>
   real_dirs (d @ [(p @ [c], Dir_Node t)]) [] (p @ [c])"
  by (auto simp: real_dirs_append map_of_snoc intro: real_dirs_same simp del: map_of_append)

text \<open>What \<open>mkdir\<close> and \<open>create_dir_all\<close> do there: they only add directories below the folder.\<close>

definition only_added :: "path \<Rightarrow> disk \<Rightarrow> disk \<Rightarrow> bool" where
  "only_added folder d d' \<longleftrightarrow>
     (\<forall>p. map_of d p \<noteq> None \<or> \<not> prefix folder p \<longrightarrow> map_of d' p = map_of d p) \<and> no_links folder d'"

lemma mkdir_no_links:
  assumes nl: "no_links folder d" and real: "real_dirs d [] folder" and cs: "''..'' \<notin> set cs"
    and c: "c \<noteq> ''..''" and made: "mkdir_node V (folder @ cs @ [c]) d = Made d'"
  shows "only_added folder d d' \<and> real_dirs d' [] (folder @ cs @ [c])"
proof -
  have e: "butlast (folder @ cs @ [c]) = folder @ cs" by (metis append_assoc butlast_snoc)
  from made obtain q where q: "canonicalize d (folder @ cs) = Some q"
    by (auto simp: mkdir_node_def own_path_def e split: option.splits)
  with canonicalize_no_links [OF nl real cs] have q: "canonicalize d (folder @ cs) = Some (folder @ cs)" by auto
  with made have free: "map_of d (folder @ cs @ [c]) = None" and dir: "is_dir d (folder @ cs)"
    and d': "d' = d @ [(folder @ cs @ [c], Dir_Node (te_now V))]"
    by (auto simp: mkdir_node_def own_path_def e split: option.splits if_splits)
  have "real_dirs d folder cs"
  proof (rule is_dir_no_links [OF nl _ cs])
    show "walk d False MAX_LINKS folder cs = Some (folder @ cs)"
      using q by (simp add: canonicalize_real [OF real])
    show "cs \<noteq> [] \<Longrightarrow> \<exists>t. map_of d (folder @ cs) = Some (Dir_Node t)"
      using dir q by (auto simp: is_dir_def node_at_def split: option.splits elim: is_dir_node.elims)
  qed simp
  then have "real_dirs d' [] (folder @ cs @ [c])"
    using real_dirs_snoc [of d "folder @ cs" c] real c free by (simp add: d' real_dirs_append)
  moreover have "only_added folder d d'"
    using nl free by (auto simp: only_added_def d' map_of_snoc no_links_def split: option.splits simp del: map_of_append)
  ultimately show ?thesis by blast
qed

lemma only_added_refl: "no_links folder d \<Longrightarrow> only_added folder d d"
  by (simp add: only_added_def)

lemma only_added_trans: "only_added folder d d1 \<Longrightarrow> only_added folder d1 d2 \<Longrightarrow> only_added folder d d2"
  unfolding only_added_def by metis

lemma only_added_real: "only_added folder d d' \<Longrightarrow> real_dirs d [] folder \<Longrightarrow> real_dirs d' [] folder"
  by (erule real_dirs_same) (auto simp: only_added_def)

lemma create_all_no_links:
  assumes "no_links folder d" and "real_dirs d [] folder" and "''..'' \<notin> set cs"
    and "create_dir_all V (folder @ cs) d = (err, d')"
  shows "only_added folder d d' \<and> (err = None \<longrightarrow> is_dir d' (folder @ cs))"
  using assms(3,4)
proof (induction cs arbitrary: err d' rule: rev_induct)
  case Nil
  with assms show ?case by (simp add: create_dir_all_real only_added_refl)
next
  case (snoc c cs)
  let ?p = "folder @ cs @ [c]"
  have run: "create_all V (c # rev (folder @ cs)) d = (err, d')"
    using snoc.prems(2) by (simp add: create_dir_all_def)
  have dots: "''..'' \<notin> set cs" "c \<noteq> ''..''" using snoc.prems(1) by auto
  note mk = mkdir_no_links [OF _ _ dots]
  show ?case
  proof (cases "mkdir_node V ?p d")
    case (Made d1)
    with run mk [OF assms(1,2) Made] show ?thesis by simp
  next
    case (Refused e)
    with run assms(1) show ?thesis by (auto simp: only_added_refl split: if_splits)
  next
    case Missing
    obtain e1 d1 where sub: "create_dir_all V (folder @ cs) d = (e1, d1)" by fastforce
    from snoc.IH [OF dots(1) sub] have add: "only_added folder d d1" by blast
    have nl: "no_links folder d1" using add by (simp add: only_added_def)
    have real: "real_dirs d1 [] folder" by (rule only_added_real [OF add assms(2)])
    have sub': "create_all V (rev (folder @ cs)) d = (e1, d1)" using sub by (simp add: create_dir_all_def)
    show ?thesis
    proof (cases e1)
      case (Some e)
      with run Missing sub' add show ?thesis by auto
    next
      case None
      show ?thesis
      proof (cases "mkdir_node V ?p d1")
        case (Made d2)
        with run Missing None sub' mk [OF nl real Made] only_added_trans [OF add] show ?thesis by auto
      qed (use run Missing None sub' add in \<open>auto split: if_splits\<close>)
    qed
  qed
qed

lemma write_no_links:
  assumes nl: "no_links folder d" and real: "real_dirs d [] folder" and cs: "''..'' \<notin> set cs"
    and run: "write_file V (folder @ cs) content d = (err, d')"
  shows "(\<forall>p. p \<noteq> folder @ cs \<longrightarrow> map_of d' p = map_of d p) \<and> no_links folder d' \<and>
    (err = None \<longrightarrow> map_of d' (folder @ cs) = Some (File_Node (te_now V) content))"
proof -
  have upd: "list_all P al \<Longrightarrow> P (k, v) \<Longrightarrow> list_all P (AList.update k v al)" for P and k :: path and v :: node and al
    by (induction al) auto
  have "walk d True MAX_LINKS [] (folder @ cs) = walk d True MAX_LINKS folder cs"
    using walk_real [OF real] by simp
  with walk_no_links [OF nl _ cs, of folder True MAX_LINKS]
  consider "walk d True MAX_LINKS [] (folder @ cs) = None" | "walk d True MAX_LINKS [] (folder @ cs) = Some (folder @ cs)"
    by auto
  then show ?thesis
  proof cases
    case 1
    with run nl show ?thesis by (auto simp: write_file_def)
  next
    case 2
    have "no_links folder (AList.update (folder @ cs) (File_Node (te_now V) content) d)"
      using nl by (auto simp: no_links_def intro: upd)
    with run 2 nl show ?thesis
      by (cases "te_refuses V (folder @ cs)") (auto simp: write_file_def AList.update_conv' split: if_splits)
  qed
qed

corollary write_named_no_links:
  assumes "no_links folder d" "real_dirs d [] folder" "''..'' \<notin> set cs"
    and "write_named V name (folder @ cs) content d = (err, d')"
  shows "(\<forall>p. p \<noteq> folder @ cs \<longrightarrow> map_of d' p = map_of d p) \<and> no_links folder d' \<and>
    (err = None \<longrightarrow> map_of d' (folder @ cs) = Some (File_Node (te_now V) content))"
proof (cases "names_dir name")
  case True
  with assms show ?thesis by (auto simp: write_named_def)
next
  case False
  with assms(4) have "write_file V (folder @ cs) content d = (err, d')" by (simp add: write_named_def)
  then show ?thesis by (rule write_no_links [OF assms(1-3)])
qed

end
