(* ===== verification/Cli_Args.thy ===== *)
theory Cli_Args
  imports Temp_Disk "HOL-Library.Char_ord" "HOL-Library.List_Lexorder"
begin

text \<open>
  Crate \<open>kirk-cli\<close>, \<open>args.rs\<close> and \<open>validate.rs\<close>: the parsers of option values, the options (what \<open>clap\<close>
  makes of the command line is a parameter), their validation and the help text of the plugins.
\<close>

section \<open>Values\<close>

definition MAX_COM_INSTANCES :: nat where "MAX_COM_INSTANCES = 128"
definition RC_OK :: int where "RC_OK = 0"
definition RC_ERROR :: int where "RC_ERROR = 1"
definition RC_INTERRUPT :: int where "RC_INTERRUPT = 130"

definition time_error :: "string \<Rightarrow> string" where
  "time_error v = ''Incorrect time format '' @ quoted v"

definition time_unit :: "string \<Rightarrow> (string \<times> nat) option" where
  "time_unit indata =
     (let c = last indata
      in if c = CHR ''s'' then Some (butlast indata, 1)
         else if c = CHR ''m'' then Some (butlast indata, 60)
         else if c = CHR ''h'' then Some (butlast indata, 3600)
         else if c = CHR ''d'' then Some (butlast indata, 86400)
         else if is_digit c then Some (indata, 1)
         else None)"

definition parse_time_config :: "string \<Rightarrow> string + nat" where
  "parse_time_config v =
     (let indata = trim v
      in if indata = [] then Err (time_error v)
         else
           (case time_unit indata of
              None \<Rightarrow> Err (time_error indata)
            | Some (digits, mult) \<Rightarrow>
                (case parse_u64 (trim_end digits) of
                   None \<Rightarrow> Err (time_error indata)
                 | Some amount \<Rightarrow>
                     if amount * mult < 2 ^ 64 then Ok (amount * mult) else Err (time_error indata))))"

text \<open>The three number options share the parser of \<open>i64\<close> and differ in the value of an empty text and the clamp.\<close>

definition parse_number :: "nat \<Rightarrow> (int \<Rightarrow> nat) \<Rightarrow> string \<Rightarrow> string + nat" where
  "parse_number none clamp v =
     (if v = [] then Ok none
      else
        (case parse_signed (- (2 ^ 63)) (2 ^ 63 - 1) v of
           None \<Rightarrow> Err ''Invalid number''
         | Some n \<Rightarrow> Ok (clamp n)))"

text \<open>\<open>try_from\<close> of a non-negative number with \<open>unwrap_or\<close>.\<close>

definition fit_or :: "nat \<Rightarrow> nat \<Rightarrow> int \<Rightarrow> nat" where
  "fit_or width alternative n = (if 0 \<le> n \<and> n < 2 ^ width then nat n else alternative)"

definition parse_iterate :: "string \<Rightarrow> string + nat" where
  "parse_iterate v = parse_number 1 (\<lambda>n. fit_or 64 1 (max n 1)) v"

definition parse_finjection :: "string \<Rightarrow> string + nat" where
  "parse_finjection v = parse_number 0 (\<lambda>n. fit_or 32 0 (min (max n 0) 100)) v"

definition parse_finterval :: "string \<Rightarrow> string + nat" where
  "parse_finterval v = parse_number 1 (\<lambda>n. fit_or 32 1 (max n 1)) v"

fun dict_params :: "string list \<Rightarrow> str_map \<Rightarrow> string + str_map" where
  "dict_params [] config = Ok config"
| "dict_params (param # params) config =
     (case split_once ''='' param of
        None \<Rightarrow> Err (''Missing '' @ quoted ''='' @ '' assignment in '' @ quoted param @ '' parameter'')
      | Some (key, val) \<Rightarrow>
          if key = [] then Err (''Empty key for '' @ quoted param @ '' parameter'')
          else if val = [] then Err (''Empty value for '' @ quoted param @ '' parameter'')
          else dict_params params (config(key \<mapsto> val)))"

definition parse_dict_config :: "string \<Rightarrow> string + str_map" where
  "parse_dict_config v =
     (if v = ''help'' then Ok [''help'' \<mapsto> []]
      else if v = [] then Err (''Parameters list can'' @ [CHR 0x27] @ ''t be empty'')
      else
        (let parts = split_on (CHR '':'') v
         in and_then (dict_params (tl parts) Map.empty) (\<lambda>config. Ok (config(''name'' \<mapsto> hd parts)))))"

section \<open>Options and their validation\<close>

record cli_args =
  ar_verbose :: bool
  ar_no_colors :: bool
  ar_tmp_dir :: string
  ar_restore :: "string option"
  ar_json_report :: "string option"
  ar_monitor :: "string option"
  ar_com :: "str_map list"
  ar_sut :: str_map
  ar_skip_tests :: "string option"
  ar_skip_file :: "string option"
  ar_run_suite :: "string list option"
  ar_run_pattern :: "string option"
  ar_run_command :: "string option"
  ar_suite_timeout :: nat
  ar_exec_timeout :: nat
  ar_randomize :: bool
  ar_runtime :: nat
  ar_suite_iterate :: nat
  ar_workers :: nat
  ar_force_parallel :: bool
  ar_fault_injection :: nat
  ar_fault_interval :: nat
  ar_optimize_sut :: bool
  ar_dry_run :: bool

datatype validation = Proceed | Com_Help | Sut_Help

text \<open>The configuration help is a map: the list is the order it is iterated in.\<close>

record plugin_info =
  pi_name :: string
  pi_config_help :: "(string \<times> string) list"

definition config_name :: "str_map \<Rightarrow> string" where
  "config_name config = (case config ''name'' of Some n \<Rightarrow> n | None \<Rightarrow> [])"

definition existing_path :: "temp_env \<Rightarrow> disk \<Rightarrow> string \<Rightarrow> node option" where
  "existing_path V d text =
     (if text = [] then None
      else node_at d ((if path_is_absolute text then [] else te_cwd V) @ steps text))"

definition is_existing_dir :: "temp_env \<Rightarrow> disk \<Rightarrow> string \<Rightarrow> bool" where
  "is_existing_dir V d text = (case existing_path V d text of Some x \<Rightarrow> is_dir_node x | None \<Rightarrow> False)"

fun is_file_node :: "node \<Rightarrow> bool" where
  "is_file_node (File_Node _ _) = True"
| "is_file_node _ = False"

definition is_existing_file :: "temp_env \<Rightarrow> disk \<Rightarrow> string \<Rightarrow> bool" where
  "is_existing_file V d text = (case existing_path V d text of Some x \<Rightarrow> is_file_node x | None \<Rightarrow> False)"

text \<open>The checks in their order, each with the error it gives.\<close>

fun check_coms :: "plugin_info list \<Rightarrow> str_map list \<Rightarrow> unit result" where
  "check_coms coms [] = Ok ()"
| "check_coms coms (config # configs) =
     (if \<exists>p\<in>set coms. pi_name p = config_name config then check_coms coms configs
      else Err (SessionE (''Can'' @ [CHR 0x27] @ ''t find communication handler with name '' @ quoted (config_name config))))"

definition refuse_when :: "bool \<Rightarrow> string \<Rightarrow> unit result" where
  "refuse_when bad msg = (if bad then Err (SessionE msg) else Ok ())"

definition suites_of :: "cli_args \<Rightarrow> string list" where
  "suites_of a = (case ar_run_suite a of Some suites \<Rightarrow> suites | None \<Rightarrow> [])"

definition validate_run :: "temp_env \<Rightarrow> disk \<Rightarrow> cli_args \<Rightarrow> plugin_info list \<Rightarrow> validation result" where
  "validate_run V d a suts =
     and_then (refuse_when (\<not> (\<exists>p\<in>set suts. pi_name p = config_name (ar_sut a)))
       (quoted (config_name (ar_sut a)) @ '' SUT is not available'')) (\<lambda>_.
     and_then (case ar_json_report a of
         None \<Rightarrow> Ok ()
       | Some report \<Rightarrow>
           refuse_when (existing_path V d report \<noteq> None) (''JSON report file already exists: '' @ report)) (\<lambda>_.
     and_then (refuse_when (ar_run_pattern a \<noteq> None \<and> suites_of a = []) ''--run-pattern must be used with --run-suite'') (\<lambda>_.
     and_then (refuse_when (suites_of a = [] \<and> ar_run_command a = None) ''--run-suite/--run-command are required'') (\<lambda>_.
     and_then (case ar_skip_file a of
         None \<Rightarrow> Ok ()
       | Some skip \<Rightarrow> refuse_when (\<not> is_existing_file V d skip) (quoted skip @ '' skip file doesn'' @ [CHR 0x27] @ ''t exist'')) (\<lambda>_.
     and_then (refuse_when (ar_tmp_dir a \<noteq> [] \<and> \<not> is_existing_dir V d (ar_tmp_dir a))
       (quoted (ar_tmp_dir a) @ '' temporary folder doesn'' @ [CHR 0x27] @ ''t exist'')) (\<lambda>_.
     Ok Proceed))))))"

definition validate :: "temp_env \<Rightarrow> disk \<Rightarrow> cli_args \<Rightarrow> plugin_info list \<Rightarrow> plugin_info list \<Rightarrow> validation result" where
  "validate V d a coms suts =
     (if \<exists>obj\<in>set (ar_com a). obj ''help'' \<noteq> None then Ok Com_Help
      else if MAX_COM_INSTANCES \<le> length (ar_com a)
      then Err (SessionE (''Maximum number of communication objects is '' @ show_nat MAX_COM_INSTANCES))
      else
        and_then (check_coms coms (ar_com a)) (\<lambda>_.
          if ar_sut a ''help'' \<noteq> None then Ok Sut_Help else validate_run V d a suts))"

definition help_of :: "plugin_info \<Rightarrow> string" where
  "help_of p =
     (if pi_config_help p = [] then [CHR 0x0A] @ pi_name p @ '' has not configuration'' @ [CHR 0x0A]
      else [CHR 0x0A] @ pi_name p @ '' configuration:'' @ [CHR 0x0A] @
        concat (map (\<lambda>(opt, desc). [CHR 0x09] @ opt @ '': '' @ desc @ [CHR 0x0A]) (sort_key fst (pi_config_help p))))"

definition plugin_help :: "string \<Rightarrow> plugin_info list \<Rightarrow> string" where
  "plugin_help opt_name plugins =
     opt_name @ '' option supports the following syntax:'' @ [CHR 0x0A] @
     [CHR 0x0A, CHR 0x09] @ ''<name>:<param1>=<value1>:<param2>=<value2>:..'' @ [CHR 0x0A] @
     [CHR 0x0A] @ ''Supported plugins: | '' @
     concat (map (\<lambda>p. pi_name p @ '' | '') plugins) @ [CHR 0x0A] @
     concat (map help_of plugins)"

section \<open>What values mean\<close>

lemma graphic_not_ws_suffix: "33 \<le> code c \<Longrightarrow> code c < 128 \<Longrightarrow> ws_suffix (s @ [c]) = 0"
  by (auto simp: ws_suffix_def ws1_def ws2_def ws3_def split: list.splits)

lemma trim_number:
  assumes "33 \<le> code c" and "code c < 128"
  shows "trim (show_nat n @ [c]) = show_nat n @ [c]"
proof -
  obtain b r where n: "show_nat n = b # r" and b: "is_digit b"
    using show_nat_digits [of n] by (cases "show_nat n") auto
  have "trim_start (show_nat n @ [c]) = show_nat n @ [c]"
    using digit_not_ws_prefix [OF b, of "r @ [c]"] by (simp add: n trim_start_id del: ws_prefix.simps)
  then show ?thesis by (simp add: trim_def trim_end_id graphic_not_ws_suffix [OF assms])
qed

lemma time_value:
  assumes "time_unit indata = Some (digits, mult)" and "trim indata = indata" and "indata \<noteq> []"
    and "trim_end digits = show_nat n"
  shows "parse_time_config indata =
    (if n * mult < 2 ^ 64 then Ok (n * mult) else Err (time_error indata))"
proof (cases "n \<le> 2 ^ 64 - 1")
  case True
  then show ?thesis using assms by (simp add: parse_time_config_def parse_show_unsigned)
next
  case False
  have "1 \<le> mult" using assms(1) by (auto simp: time_unit_def Let_def split: if_splits)
  then have "n \<le> n * mult" by simp
  with False have "\<not> n * mult < 2 ^ 64" by linarith
  moreover have "parse_u64 (show_nat n) = None"
    using False show_nat_not_sign [of n] parse_digits_show_nat [of n]
    by (cases "show_nat n") (auto simp: parse_unsigned_def)
  ultimately show ?thesis using False assms by (simp add: parse_time_config_def)
qed

text \<open>
  Claim C39: a time option is a number of seconds, minutes, hours or days: the decimal number with its
  unit is read back as that many seconds, exactly when they fit 64 bits, and refused otherwise; what
  is accepted always fits 64 bits and is a whole number of the unit written.
\<close>

theorem time_config_counts_seconds:
  assumes "(u, mult) \<in> set [([], 1), (''s'', 1), (''m'', 60), (''h'', 3600), (''d'', 86400)]"
  shows "parse_time_config (show_nat n @ u) =
      (if n * mult < 2 ^ 64 then Ok (n * mult) else Err (time_error (show_nat n @ u))) \<and>
    (parse_time_config (t @ u) = Ok x \<longrightarrow> x < 2 ^ 64 \<and> (trim (t @ u) = t @ u \<longrightarrow> mult dvd x))"
proof
  obtain b r where n: "show_nat n = b # r" "is_digit b" "is_digit (last (show_nat n))"
    using show_nat_digits [of n] by (cases "show_nat n") (auto simp: list_all_iff)
  have "last (show_nat n) \<noteq> c" if "\<not> is_digit c" for c using n(3) that by metis
  then have "last (show_nat n) \<notin> set ''smhd''" by (simp add: is_digit_def)
  with n(3) have bare: "time_unit (show_nat n) = Some (show_nat n, 1)" by (simp add: time_unit_def Let_def)
  have "time_unit (show_nat n @ u) = Some (show_nat n, mult)"
  proof (cases "u = []")
    case True
    with bare assms show ?thesis by auto
  next
    case False
    with assms show ?thesis by (auto simp: time_unit_def Let_def)
  qed
  moreover have "trim (show_nat n @ u) = show_nat n @ u"
    using assms trim_number trim_show_nat by auto
  ultimately show "parse_time_config (show_nat n @ u) =
      (if n * mult < 2 ^ 64 then Ok (n * mult) else Err (time_error (show_nat n @ u)))"
    using n(1) trim_show_nat(3) [of n] by (intro time_value) simp_all
  show "parse_time_config (t @ u) = Ok x \<longrightarrow> x < 2 ^ 64 \<and> (trim (t @ u) = t @ u \<longrightarrow> mult dvd x)"
  proof
    assume "parse_time_config (t @ u) = Ok x"
    then obtain digits m where "time_unit (trim (t @ u)) = Some (digits, m)" "m dvd x" "x < 2 ^ 64"
      by (auto simp: parse_time_config_def Let_def split: if_splits option.splits)
    then show "x < 2 ^ 64 \<and> (trim (t @ u) = t @ u \<longrightarrow> mult dvd x)"
      using assms by (auto simp: time_unit_def Let_def split: if_splits)
  qed
qed

theorem time_config_counts_seconds_witness:
  "parse_time_config ''4m'' = Ok 240 \<and> \<not> is_ok (parse_time_config (show_nat 300000000000000 @ ''d''))"
proof -
  have "show_nat 4 @ ''m'' = ''4m''" by code_simp
  then show ?thesis
    using time_config_counts_seconds [of "''m''" 60 4] time_config_counts_seconds [of "''d''" 86400 300000000000000]
    by simp
qed

lemma parse_number_shown:
  assumes "in_i64 n"
  shows "parse_number none clamp (show_int n) = Ok (clamp n)"
proof -
  have "show_int n \<noteq> []" using show_nat_digits by (auto simp: show_int_def)
  then show ?thesis using assms by (simp add: parse_number_def parse_show_signed in_i64_def)
qed

text \<open>
  The repetitions and the fault injection options take any 64 bit number and clamp it: to at
  least 1, to a percentage, to at least 1; an interval beyond 32 bits is not clamped but becomes 1.
\<close>

theorem numbers_are_clamped:
  assumes "in_i64 n"
  shows "parse_iterate (show_int n) = Ok (nat (max n 1)) \<and>
    parse_finjection (show_int n) = Ok (nat (min (max n 0) 100)) \<and>
    parse_finterval (show_int n) = Ok (if n < 2 ^ 32 then nat (max n 1) else 1)"
  using assms
  by (auto simp: parse_iterate_def parse_finjection_def parse_finterval_def parse_number_shown fit_or_def in_i64_def
      max_def min_def)

theorem numbers_are_clamped_witness:
  "parse_finterval (show_int 4294967296) = Ok 1 \<and> parse_finjection (show_int 200) = Ok 100"
  using numbers_are_clamped [of 4294967296] numbers_are_clamped [of 200] by (simp add: in_i64_def)

definition render_config :: "string \<Rightarrow> (string \<times> string) list \<Rightarrow> string" where
  "render_config name kvs = join '':'' (name # map (\<lambda>(key, val). key @ ''='' @ val) kvs)"

definition pair_ok :: "string \<times> string \<Rightarrow> bool" where
  "pair_ok kv \<longleftrightarrow> fst kv \<noteq> [] \<and> snd kv \<noteq> [] \<and> CHR ''='' \<notin> set (fst kv) \<and> CHR '':'' \<notin> set (fst kv @ snd kv)"

lemma dict_params_rendered:
  "list_all pair_ok kvs \<Longrightarrow>
   dict_params (map (\<lambda>(key, val). key @ ''='' @ val) kvs) config = Ok (config ++ map_of (rev kvs))"
proof (induction kvs arbitrary: config)
  case (Cons kv kvs)
  obtain key val where kv: "kv = (key, val)" by fastforce
  with Cons.prems have "split_once ''='' (key @ ''='' @ val) = Some (key, val)"
    using str_find_skip [of "CHR ''=''" key "[]" val] by (simp add: split_once_def pair_ok_def)
  with kv Cons show ?case by (simp add: pair_ok_def)
qed simp

text \<open>
  A plugin option written from a name and parameters is read back as their map: the last of
  equal keys counts, and the plugin's name is under \<open>name\<close> whatever a parameter of that key says.
\<close>

theorem dict_config_roundtrip:
  assumes "CHR '':'' \<notin> set name" and "list_all pair_ok kvs" and "render_config name kvs \<notin> {[], ''help''}"
  shows "parse_dict_config (render_config name kvs) = Ok ((map_of (rev kvs))(''name'' \<mapsto> name))"
proof -
  have "split_on (CHR '':'') (render_config name kvs) = name # map (\<lambda>(key, val). key @ ''='' @ val) kvs"
    unfolding render_config_def
    by (rule split_on_join) (use assms(1,2) in \<open>auto simp: pair_ok_def list_all_iff\<close>)
  then show ?thesis using assms(3) dict_params_rendered [OF assms(2), of Map.empty]
    by (simp add: parse_dict_config_def)
qed

theorem dict_config_roundtrip_witness:
  "parse_dict_config ''ssh:host=a:port=22:host=b'' =
     Ok ((map_of [(''host'', ''b''), (''port'', ''22''), (''host'', ''a'')])(''name'' \<mapsto> ''ssh''))"
  using dict_config_roundtrip [of "''ssh''" "[(''host'', ''a''), (''port'', ''22''), (''host'', ''b'')]"]
  by (simp add: render_config_def pair_ok_def)

section \<open>What validation admits\<close>

lemma check_coms_Ok: "check_coms coms configs = Ok () \<longleftrightarrow> (\<forall>c\<in>set configs. \<exists>p\<in>set coms. pi_name p = config_name c)"
  by (induction configs) auto

lemma refuse_when_Ok [simp]: "refuse_when bad msg = Ok u \<longleftrightarrow> \<not> bad"
  by (simp add: refuse_when_def)

text \<open>
  Claim C27: validation lets a run proceed exactly when no help is asked for, fewer than 128 channels
  are given, each of a known kind, the SUT is known, the report does not exist yet, there is something
  to run, a pattern comes with suites, and the skip file and the temporary folder exist.
\<close>

theorem validate_proceeds:
  "validate V d a coms suts = Ok Proceed \<longleftrightarrow>
     (\<forall>c\<in>set (ar_com a). c ''help'' = None \<and> (\<exists>p\<in>set coms. pi_name p = config_name c)) \<and>
     length (ar_com a) < MAX_COM_INSTANCES \<and>
     ar_sut a ''help'' = None \<and> (\<exists>p\<in>set suts. pi_name p = config_name (ar_sut a)) \<and>
     (\<forall>report. ar_json_report a = Some report \<longrightarrow> existing_path V d report = None) \<and>
     (suites_of a \<noteq> [] \<or> ar_run_command a \<noteq> None \<and> ar_run_pattern a = None) \<and>
     (\<forall>skip. ar_skip_file a = Some skip \<longrightarrow> is_existing_file V d skip) \<and>
     (ar_tmp_dir a = [] \<or> is_existing_dir V d (ar_tmp_dir a))"
proof (cases "(\<exists>obj\<in>set (ar_com a). obj ''help'' \<noteq> None) \<or> MAX_COM_INSTANCES \<le> length (ar_com a) \<or>
    ar_sut a ''help'' \<noteq> None")
  case True
  then show ?thesis by (auto simp: validate_def and_then_Ok)
next
  case False
  have run: "validate_run V d a suts = Ok Proceed \<longleftrightarrow> (\<exists>p\<in>set suts. pi_name p = config_name (ar_sut a)) \<and>
     (\<forall>report. ar_json_report a = Some report \<longrightarrow> existing_path V d report = None) \<and>
     (suites_of a \<noteq> [] \<or> ar_run_command a \<noteq> None \<and> ar_run_pattern a = None) \<and>
     (\<forall>skip. ar_skip_file a = Some skip \<longrightarrow> is_existing_file V d skip) \<and>
     (ar_tmp_dir a = [] \<or> is_existing_dir V d (ar_tmp_dir a))"
    by (cases "ar_json_report a"; cases "ar_skip_file a") (auto simp: validate_run_def and_then_Ok)
  have "validate V d a coms suts = and_then (check_coms coms (ar_com a)) (\<lambda>_. validate_run V d a suts)"
    using False by (auto simp: validate_def)
  then show ?thesis using False by (auto simp: and_then_Ok check_coms_Ok run not_le)
qed

definition demo_args :: cli_args where
  "demo_args =
     \<lparr> ar_verbose = False, ar_no_colors = False, ar_tmp_dir = [], ar_restore = None, ar_json_report = None,
       ar_monitor = None, ar_com = [[''name'' \<mapsto> ''shell'']], ar_sut = [''name'' \<mapsto> ''default''],
       ar_skip_tests = None, ar_skip_file = None, ar_run_suite = Some [''math''], ar_run_pattern = None,
       ar_run_command = None, ar_suite_timeout = 3600, ar_exec_timeout = 3600, ar_randomize = False,
       ar_runtime = 0, ar_suite_iterate = 1, ar_workers = 1, ar_force_parallel = False,
       ar_fault_injection = 0, ar_fault_interval = 1, ar_optimize_sut = False, ar_dry_run = False \<rparr>"

definition plugin :: "string \<Rightarrow> plugin_info" where
  "plugin name = \<lparr> pi_name = name, pi_config_help = [] \<rparr>"

theorem validate_proceeds_witness:
  "\<forall>V d. validate V d demo_args [plugin ''shell''] [plugin ''default''] = Ok Proceed \<and>
     validate V d (demo_args\<lparr>ar_run_suite := None\<rparr>) [plugin ''shell''] [plugin ''default''] \<noteq> Ok Proceed"
  using validate_proceeds [of _ _ demo_args "[plugin ''shell'']" "[plugin ''default'']"]
    validate_proceeds [of _ _ "demo_args\<lparr>ar_run_suite := None\<rparr>" "[plugin ''shell'']" "[plugin ''default'']"]
  by (simp add: demo_args_def plugin_def config_name_def suites_of_def MAX_COM_INSTANCES_def)

text \<open>The limit of 128 channels its error speaks of is not reached: 128 are refused.\<close>

lemma limit_is_refused:
  "length (ar_com a) = 128 \<Longrightarrow> \<forall>c\<in>set (ar_com a). c ''help'' = None \<Longrightarrow> \<not> is_ok (validate V d a coms suts)"
  by (simp add: validate_def MAX_COM_INSTANCES_def)

end
