(* ===== verification/Cli_Sut.thy ===== *)
theory Cli_Sut
  imports Session Sut
begin

text \<open>
  Crate \<open>kirk-cli\<close>, \<open>session.rs\<close>, the adapters: \<open>CliSut\<close> and \<open>CliFramework\<close> give the schedulers and
  the session the SUT of \<open>kirk-sut\<close> and the framework of \<open>kirk-ltp\<close> over one channel. They are written
  as the fields they fill in of the environments the schedulers and the session run in; the lock
  around the SUT is taken in turn, and a handle of the channel shares its state.
\<close>

section \<open>The SUT\<close>

record 'c cli_world =
  cw_sut :: "'c generic_sut"
  cw_stop_cnt :: nat
  cw_stop_flag :: bool

record cli_sut =
  cs_name :: string
  cs_parallel :: bool

definition cli_sut_new :: "'c com_channel \<Rightarrow> 'c generic_sut \<Rightarrow> cli_sut" where
  "cli_sut_new C s =
     \<lparr> cs_name = gs_name s,
       cs_parallel = (case channel s of Inr ch \<Rightarrow> cc_parallel_execution C ch | Inl _ \<Rightarrow> False) \<rparr>"

text \<open>An action of the SUT, one that takes no time, and one of its channel.\<close>

definition on_sut :: "('a, 'c generic_sut) action \<Rightarrow> ('a, 'c cli_world) action" where
  "on_sut a = on_part cw_sut (\<lambda>s w. w\<lparr>cw_sut := s\<rparr>) a"

definition at_once :: "('s \<Rightarrow> 'a \<times> 's) \<Rightarrow> ('a, 's) action" where
  "at_once f s = (case f s of (x, s1) \<Rightarrow> ready x s1)"

definition sut_call :: "('c generic_sut \<Rightarrow> 'a \<times> 'c generic_sut) \<Rightarrow> ('a, 'c cli_world) action" where
  "sut_call f = on_sut (at_once f)"

definition taint_code :: "tainted_info \<Rightarrow> (int \<times> string list) result" where
  "taint_code info =
     (if unat (ti_code info) < 2 ^ 63 then Ok (int (unat (ti_code info)), ti_messages info)
      else Err (SutE ''invalid taint code''))"

definition cli_tainted_info :: "'c com_channel \<Rightarrow> ((int \<times> string list) result, 'c cli_world) action" where
  "cli_tainted_info C = bind (on_sut (get_tainted_info C)) (\<lambda>r. pure (and_then r taint_code))"

definition shared_handle :: "'c com_channel \<Rightarrow> 'c \<Rightarrow> 'c" where
  "shared_handle C ch = (case cc_concurrent_handle C ch of Some h \<Rightarrow> h | None \<Rightarrow> ch)"

definition cli_run_command ::
  "'c com_channel \<Rightarrow> string \<Rightarrow> string option \<Rightarrow> str_map \<Rightarrow> (cmd_result option result, 'c generic_sut) action" where
  "cli_run_command C command cwd env s =
     (case channel s of
        Inl e \<Rightarrow> ready (Err e) s
      | Inr ch \<Rightarrow>
          on_part (\<lambda>_. shared_handle C ch) (\<lambda>ch1 s. s\<lparr>gs_channel := Some ch1\<rparr>) (cc_run_command C command cwd (Some env)) s)"

definition session_command ::
  "'c com_channel \<Rightarrow> string \<Rightarrow> string option \<Rightarrow> str_map \<Rightarrow> (cmd_result option result, 'c generic_sut) action" where
  "session_command C command cwd env s =
     (case channel s of
        Inl e \<Rightarrow> ready (Err e) s
      | Inr ch \<Rightarrow>
          on_part (\<lambda>_. ch) (\<lambda>ch1 s. s\<lparr>gs_channel := Some ch1\<rparr>) (cc_run_command C command cwd (Some env)) s)"

definition info_map :: "sut_info \<Rightarrow> str_map" where
  "info_map info =
     [''distro'' \<mapsto> si_distro info, ''distro_ver'' \<mapsto> si_distro_ver info, ''kernel'' \<mapsto> si_kernel info,
      ''cmdline'' \<mapsto> si_cmdline info, ''arch'' \<mapsto> si_arch info, ''cpu'' \<mapsto> si_cpu info,
      ''ram'' \<mapsto> si_ram info, ''swap'' \<mapsto> si_swap info]"

definition cli_get_info ::
  "'c com_channel \<Rightarrow> regex_captures \<Rightarrow> nat list \<Rightarrow> 'c generic_sut \<Rightarrow> str_map result \<times> 'c generic_sut" where
  "cli_get_info C captures order s =
     (case get_info C captures order s of (r, s1) \<Rightarrow> (and_then r (\<lambda>info. Ok (info_map info)), s1))"

section \<open>The environments\<close>

text \<open>
  What the adapters fill in; the rest of the environment \<open>E\<close> (the clock, the stop requests, the
  chunks a command writes) stays as it is. \<open>order\<close> is the order parallel probes complete in.
\<close>

definition cli_sched_env ::
  "'c com_channel \<Rightarrow> ltp_ext \<Rightarrow> nat list \<Rightarrow> cli_sut \<Rightarrow> 'c cli_world sched_env \<Rightarrow> 'c cli_world sched_env" where
  "cli_sched_env C X order S E =
     E\<lparr> ss_tainted := cli_tainted_info C,
        ss_run := (\<lambda>command cwd env. on_sut (cli_run_command C command cwd env)),
        ss_ping := sut_call (on_channel (cc_ping C)),
        ss_stop := sut_call (sut_stop C),
        ss_restart := sut_call (sut_restart C),
        ss_info := sut_call (cli_get_info C (lx_captures X) order),
        ss_name := cs_name S,
        fw_read_result := ltp_read_result X \<rparr>"

definition cli_session_env ::
  "'c com_channel \<Rightarrow> ltp_ext \<Rightarrow> ltp_framework \<Rightarrow> nat list \<Rightarrow> cli_sut \<Rightarrow> 'c cli_world session_env
     \<Rightarrow> 'c cli_world session_env" where
  "cli_session_env C X f order S Y =
     Y\<lparr> sx_env := cli_sched_env C X order S (sx_env Y),
        sx_start := sut_call (sut_start C),
        sx_stop := sut_call (sut_stop C),
        sx_is_running := sut_call (\<lambda>s. (is_running C s, s)),
        sx_parallel := cs_parallel S,
        sx_root := sut_call (logged_as_root C),
        sx_fault_enabled := sut_call (is_fault_injection_enabled C),
        sx_setup_fault := (\<lambda>prob interval. sut_call (setup_fault_injection C prob interval)),
        sx_run_command := (\<lambda>command cwd env. on_sut (session_command C command cwd env)),
        sx_find_suite := (\<lambda>name. sut_call (on_channel (find_suite C X f name))),
        sx_find_command := (\<lambda>command. sut_call (on_channel (find_command C f command))) \<rparr>"

section \<open>A session over the shell channel keeps the schedulers' contract\<close>

text \<open>
  The probes of a healthy kernel are quiet: reading the taint number and \<open>test .\<close> print no panic.
\<close>

definition quiet_probes :: "os \<Rightarrow> bool" where
  "quiet_probes os \<longleftrightarrow>
     (\<forall>c\<in>{TAINTED_CMD, ''test .''}. \<forall>p. os_spawn os c None None = Inr p \<longrightarrow>
        \<not> rd_saw_panic (read_loop (pr_chunks p)))"

lemma command_outcome_error:
  "command_outcome c chunks st x = Inl e \<Longrightarrow>
   (\<exists>m. e = KernelPanicE m) \<and> rd_saw_panic (read_loop chunks) \<or> \<not> is_kernel_error e"
  by (auto simp: command_outcome_def Let_def split: if_splits)

lemma shell_command_error:
  "fut_value (shell_run_command os c cwd env s) = Inl e \<Longrightarrow>
   (\<exists>m p. e = KernelPanicE m \<and> os_spawn os c cwd (child_env env) = Inr p \<and> rd_saw_panic (read_loop (pr_chunks p))) \<or>
   \<not> is_kernel_error e"
  by (auto simp: shell_run_command_def Let_def ready_def split: if_splits sum.splits prod.splits bool.splits
      dest: command_outcome_error)

lemma quiet_command_error:
  "quiet_probes os \<Longrightarrow> c \<in> {TAINTED_CMD, ''test .''} \<Longrightarrow>
   fut_value (shell_run_command os c None None s) = Inl e \<Longrightarrow> \<not> is_kernel_error e"
  by (drule shell_command_error) (auto simp: quiet_probes_def child_env_def)

lemma taint_of_result_error:
  "taint_of_result r = Inl e \<Longrightarrow> (r = Inl e \<or> \<not> is_kernel_error e)"
  by (auto simp: taint_of_result_def and_then_Err taint_unreadable_def parse_tainted_def Let_def
      split: if_splits option.splits elim: ok_or.elims)

lemma channel_error: "channel s = Inl e \<Longrightarrow> \<not> is_kernel_error e"
  by (cases "gs_channel s") (auto simp: channel_def)

lemma shell_tainted_error:
  assumes quiet: "quiet_probes os" and e: "fut_value (get_tainted_info (shell_channel os) s) = Inl e"
  shows "\<not> is_kernel_error e"
proof (cases "is_running (shell_channel os) s")
  case (Inl x)
  with e have "channel s = Inl e" by (simp add: get_tainted_info_def ready_def is_running_def and_then_Err)
  then show ?thesis by (rule channel_error)
next
  case (Inr running)
  show ?thesis
  proof (cases running)
    case False
    with e Inr show ?thesis by (auto simp: get_tainted_info_def ready_def sut_not_running_def)
  next
    case True
    obtain b s1 where b: "taint_begin s = (b, s1)" by fastforce
    show ?thesis
    proof (cases b)
      case (Cached info)
      with e Inr True b show ?thesis by (simp add: get_tainted_info_def ready_def)
    next
      case Probe
      show ?thesis
      proof (cases "channel s1")
        case (Inl x)
        with e Inr True b Probe channel_error [OF Inl] show ?thesis by (simp add: get_tainted_info_def ready_def)
      next
        case (Inr ch)
        with e \<open>is_running _ s = Inr running\<close> True b Probe
        have "taint_of_result (fut_value (shell_run_command os TAINTED_CMD None None ch)) = Inl e"
          by (simp add: get_tainted_info_def shell_channel_def Let_def)
        from taint_of_result_error [OF this] show ?thesis
          using quiet_command_error [OF quiet] by blast
      qed
    qed
  qed
qed

lemma shell_ping_error: "quiet_probes os \<Longrightarrow> fst (shell_ping os s) = Inl e \<Longrightarrow> \<not> is_kernel_error e"
  by (auto simp: shell_ping_def await_def split: if_splits sum.splits prod.splits option.splits
      dest: quiet_command_error)

lemma on_channel_error:
  "fst (on_channel f s) = Inl e \<Longrightarrow> channel s = Inl e \<or> (\<exists>ch. fst (f ch) = Inl e)"
  by (auto simp: on_channel_def split: sum.splits prod.splits) (metis fst_conv)

lemma sut_call_value: "fut_value (sut_call f w) = fst (f (cw_sut w))"
  by (simp add: sut_call_def on_sut_def at_once_def ready_def split: prod.split)

lemma cli_run_error:
  assumes "fut_value (cli_run_command (shell_channel os) c d v s) = Inl e"
  shows "(\<exists>m. e = KernelPanicE m) \<or> \<not> is_kernel_error e"
proof (cases "channel s")
  case (Inl x)
  with assms channel_error [OF Inl] show ?thesis by (simp add: cli_run_command_def ready_def)
next
  case (Inr ch)
  with assms have "fut_value (shell_run_command os c d (Some v) ch) = Inl e"
    by (simp add: cli_run_command_def shared_handle_def shell_channel_def)
  then show ?thesis using shell_command_error by blast
qed

lemma cli_blames_tests:
  assumes quiet: "quiet_probes os" and stop: "\<forall>w. ss_stop_cnt E w = 0"
  shows "blames_tests (cli_sched_env (shell_channel os) X order S E)"
proof -
  have "\<not> is_kernel_error e" if "fut_value (cli_tainted_info (shell_channel os) w) = Inl e" for w e
  proof -
    from that consider "fut_value (get_tainted_info (shell_channel os) (cw_sut w)) = Inl e"
      | info where "taint_code info = Inl e"
      by (auto simp: cli_tainted_info_def on_sut_def and_then_Err)
    then show ?thesis
      using shell_tainted_error [OF quiet] by cases (auto simp: taint_code_def split: if_splits)
  qed
  moreover have "(\<exists>m. e = KernelTimeoutE m) \<or> \<not> is_kernel_error e"
    if "fut_value (sut_call (on_channel (cc_ping (shell_channel os))) w) = Inl e" for w e
  proof -
    from that have "channel (cw_sut w) = Inl e \<or> (\<exists>ch. fst (shell_ping os ch) = Inl e)"
      using on_channel_error by (fastforce simp: sut_call_value shell_channel_def)
    then show ?thesis using shell_ping_error [OF quiet] channel_error by blast
  qed
  moreover have "(\<exists>m. e = KernelPanicE m) \<or> \<not> is_kernel_error e"
    if "fut_value (on_sut (cli_run_command (shell_channel os) c d v) w) = Inl e" for c d v w e
    using that by (intro cli_run_error) (simp add: on_sut_def)
  moreover have "\<not> is_kernel_error e" if "ltp_read_result X t out rc x = Inl e" for t out rc x e
    using that by (simp add: ltp_read_result_def Let_def)
  ultimately show ?thesis using stop by (simp add: blames_tests_def cli_sched_env_def)
qed

lemma cli_names_its_test: "names_its_test (cli_sched_env C X order S E)"
  using ltp_names_its_test by (simp add: names_its_test_def cli_sched_env_def)

lemma cli_runs_unstopped:
  assumes "quiet_probes os" and "\<forall>w. ss_stop_cnt E w = 0 \<and> \<not> ss_stop_flag E w" and "cf_max_workers cfg \<le> 1"
  shows "runs_unstopped (cli_sched_env (shell_channel os) X order S E) cfg"
  using cli_blames_tests [of os E X order S] cli_names_its_test assms
  by (auto simp: runs_unstopped_def runs_fairly_def cli_sched_env_def)

lemma session_fair_local:
  fixes os :: os and Y :: "shell cli_world session_env"
  assumes "quiet_probes os" and "\<forall>w. ss_stop_cnt (sx_env Y) w = 0 \<and> \<not> ss_stop_flag (sx_env Y) w"
    and "cf_max_workers (sx_cfg Y) \<le> 1" and "\<forall>w ss. list_all2 same_tests ss (sx_shuffle Y w ss)"
    and "\<forall>name ch su. fst (find_suite (shell_channel os) X f name ch) = Inr su \<longrightarrow> suite_bounded (sx_fuel Y) su"
  shows "session_fair (cli_session_env (shell_channel os) X f order S Y)"
proof -
  have find: "suite_bounded (sx_fuel Y) su"
    if "fut_value (sut_call (on_channel (find_suite (shell_channel os) X f name)) w) = Inr su" for name w su
    using that assms(5) by (auto simp: sut_call_value on_channel_def split: sum.splits prod.splits) (metis fst_conv)
  show ?thesis
    using cli_runs_unstopped [OF assms(1-3)] assms(4) find by (simp add: session_fair_def cli_session_env_def)
qed

text \<open>
  The parts together. On the local shell with the LTP framework, with one worker and no stop
  requested, when the probes of the kernel print no panic: a session over suites with distinct test
  names returns and announces what it collected, and when it reports success every suite it selected
  has one result for each of its tests, whatever the commands of the tests do: fail, hang, taint the
  kernel or panic.
\<close>

theorem shell_session_covers_selection:
  fixes os :: os and Y :: "shell cli_world session_env"
  assumes "quiet_probes os" and "\<forall>w. ss_stop_cnt (sx_env Y) w = 0 \<and> \<not> ss_stop_flag (sx_env Y) w"
    and "cf_max_workers (sx_cfg Y) \<le> 1" and "\<forall>w ss. list_all2 same_tests ss (sx_shuffle Y w ss)"
    and "\<forall>name ch su. fst (find_suite (shell_channel os) X f name ch) = Inr su \<longrightarrow> suite_bounded (sx_fuel Y) su"
    and "\<not> timeout_on (op_runtime opts)" and "\<not> op_dry_run opts" and "op_suites opts \<noteq> []" and "se_results s = []"
  shows "let Z = cli_session_env (shell_channel os) X f order S Y; run = session_run Z opts s
    in \<exists>x pre results. fut_value run = Some x \<and> se_results (fut_done run) = [] \<and>
      events_of (fut_done run) = pre @ [(''session_completed'', P_SessionCompleted results)] \<and>
      (is_ok x \<longrightarrow> (\<exists>chosen. chosen_by Z opts chosen \<and> list_all2 covers results chosen))"
  using session_run_accounts [OF session_fair_local [OF assms(1-5)] assms(6-9)] by (simp add: Let_def) blast

subsection \<open>An example\<close>

lemma find_suite_reads:
  assumes "fst (find_suite C X f name ch) = Inr su"
  obtains ch2 bytes ch3 metadata ch4 where "cc_fetch_file C (suite_path f name) ch2 = (Inr bytes, ch3)"
    and "fst (read_metadata C X f ch3) = Inr metadata"
    and "fst (read_runtest C X f name (lx_lossy X bytes) metadata ch4) = Inr su"
  using assms by (auto simp: find_suite_def probe_def ltp_error_def split: if_splits sum.splits prod.splits)

definition demo_entries :: "runtest_entry list" where
  "demo_entries =
     [\<lparr> re_name = ''a'', re_command = ''true'', re_args = [] \<rparr>, \<lparr> re_name = ''b'', re_command = ''true'', re_args = [] \<rparr>]"

definition demo_runtest :: string where
  "demo_runtest = join [CHR 0x0A] (map (\<lambda>e. join '' '' (entry_words e)) demo_entries)"

text \<open>Every command succeeds at once and prints nothing, every file is the runtest file.\<close>

definition calm_os :: os where
  "calm_os =
     \<lparr> os_spawn = \<lambda>_ _ _. Inr \<lparr> pr_pid = 42, pr_chunks = [], pr_status = \<lparr> es_code = Some 0, es_signal = None \<rparr>,
         pr_time = 1, pr_elapsed = F64_Fin 1 \<rparr>,
       os_metadata = \<lambda>_. Inr 13, os_is_file = \<lambda>_. True, os_read = \<lambda>_. Inr demo_runtest \<rparr>"

definition calm_ext :: ltp_ext where
  "calm_ext = demo_ext\<lparr>lx_json := \<lambda>_. Inr JNull\<rparr>"

lemma demo_entries_ok: "list_all entry_ok demo_entries"
  by (simp add: demo_entries_def entry_ok_def entry_words_def plain_word_def plain_char_def)

lemma calm_suites:
  assumes "fst (find_suite (shell_channel calm_os) calm_ext f name ch) = Inr su"
  shows "suite_bounded 5 su"
proof -
  from find_suite_reads [OF assms] obtain ch2 bytes ch3 metadata ch4 where
    fetch: "cc_fetch_file (shell_channel calm_os) (suite_path f name) ch2 = (Inr bytes, ch3)"
    and meta: "fst (read_metadata (shell_channel calm_os) calm_ext f ch3) = Inr metadata"
    and su: "fst (read_runtest (shell_channel calm_os) calm_ext f name (lx_lossy calm_ext bytes) metadata ch4) = Inr su"
    by blast
  from fetch have "bytes = demo_runtest"
    by (auto simp: shell_channel_def shell_fetch_file_def read_capped_def calm_os_def split: if_splits)
  moreover have "metadata = None \<or> metadata = Some JNull"
    using meta by (auto simp: read_metadata_def Let_def calm_ext_def ltp_error_def split: if_splits sum.splits prod.splits)
  then have "metadata_tests metadata = None" by (auto simp: metadata_tests_def)
  moreover have "lx_lossy calm_ext demo_runtest = demo_runtest" by (simp add: calm_ext_def demo_ext_def)
  moreover have "split_on (CHR 0x0A) demo_runtest = map (\<lambda>e. join '' '' (entry_words e)) demo_entries" by code_simp
  ultimately have "\<exists>env. s_tests su = map (entry_test f env) demo_entries"
    using su read_lines_entries [OF demo_entries_ok]
    by (auto simp: read_runtest_def suite_new_def simp del: map_eq_conv split: sum.splits prod.splits)
  then obtain env where "s_tests su = map (entry_test f env) demo_entries" by blast
  then show ?thesis by (simp add: suite_bounded_def demo_entries_def entry_test_def with_defs)
qed

definition calm_world :: "shell cli_world" where
  "calm_world =
     \<lparr> cw_sut = generic_sut_new\<lparr>gs_channel := Some shell_new\<rparr>, cw_stop_cnt = 0, cw_stop_flag = False \<rparr>"

theorem shell_session_covers_selection_witness:
  "\<exists>x pre results.
     fut_value (session_run (cli_session_env (shell_channel calm_os) calm_ext demo_framework []
        \<lparr> cs_name = ''default'', cs_parallel = True \<rparr> idle_session) (demo_options [''demo'']) (session_new calm_world)) = Some x \<and>
     events_of (fut_done (session_run (cli_session_env (shell_channel calm_os) calm_ext demo_framework []
        \<lparr> cs_name = ''default'', cs_parallel = True \<rparr> idle_session) (demo_options [''demo'']) (session_new calm_world))) =
       pre @ [(''session_completed'', P_SessionCompleted results)]"
proof -
  have quiet: "quiet_probes calm_os"
    by (auto simp: quiet_probes_def calm_os_def read_loop_def read_init_def)
  show ?thesis
    using shell_session_covers_selection [OF quiet, where Y = idle_session and X = calm_ext and f = demo_framework
        and opts = "demo_options [''demo'']" and s = "session_new calm_world" and order = "[]"
        and S = "\<lparr> cs_name = ''default'', cs_parallel = True \<rparr>"] calm_suites
    by (auto simp: Let_def idle_session_def idle_env_def suite_cfg_new_def clamp_workers_def demo_options_def
        session_new_def same_tests_refl)
qed

end
