(* ===== verification/Temp_Dir.thy ===== *)
theory Temp_Dir
  imports Temp_Disk Shell_Words
begin

text \<open>
  Crate \<open>kirk-support\<close>, \<open>tempfile.rs\<close>: the session folder. A new folder is made below
  \<open>kirk.<user>\<close>, old ones are rotated away, \<open>latest\<close> links to the new one, and files of the session
  are confined to it.
\<close>

section \<open>Rotation\<close>

definition SYMLINK_NAME :: string where "SYMLINK_NAME = ''latest''"

definition FOLDER_PREFIX :: string where "FOLDER_PREFIX = ''kirk.''"

fun first_user :: "temp_env \<Rightarrow> string list \<Rightarrow> string" where
  "first_user V [] = ''unknown''"
| "first_user V (key # keys) =
     (case te_var V key of
        Some val \<Rightarrow> if val \<noteq> [] then val else first_user V keys
      | None \<Rightarrow> first_user V keys)"

definition session_user :: "temp_env \<Rightarrow> string" where
  "session_user V = first_user V [''LOGNAME'', ''USER'', ''USERNAME'']"

definition hex_char :: "nat \<Rightarrow> char" where
  "hex_char n = ''0123456789abcdef'' ! n"

fun hex_digits :: "nat \<Rightarrow> nat \<Rightarrow> string" where
  "hex_digits 0 n = []"
| "hex_digits (Suc k) n = hex_digits k (n div 16) @ [hex_char (n mod 16)]"

definition folder_name :: "nat \<Rightarrow> string" where
  "folder_name n = ''tmp'' @ hex_digits 16 n"

definition session_error :: "string \<Rightarrow> string \<Rightarrow> kirk_error" where
  "session_error what err = SessionE (''can'' @ [CHR 0x27] @ ''t '' @ what @ '': '' @ err)"

text \<open>The draws of the random suffix are numbered; \<open>tries\<close> are left.\<close>

fun fresh_loop :: "temp_env \<Rightarrow> path \<Rightarrow> nat \<Rightarrow> nat \<Rightarrow> disk \<Rightarrow> path result \<times> disk" where
  "fresh_loop V tmpbase i 0 d =
     (Err (SessionE (''can'' @ [CHR 0x27] @ ''t create a unique folder'')), d)"
| "fresh_loop V tmpbase i (Suc tries) d =
     (let folder = tmpbase @ [folder_name (te_suffix V i)]
      in if path_exists d folder then fresh_loop V tmpbase (Suc i) tries d
         else
           (case mkdir_node V folder d of
              Made d1 \<Rightarrow> (Ok folder, d1)
            | Refused err \<Rightarrow> (Err (session_error ''create folder'' err), d)
            | Missing \<Rightarrow> (Err (session_error ''create folder'' (te_error V folder)), d)))"

definition fresh_folder :: "temp_env \<Rightarrow> path \<Rightarrow> disk \<Rightarrow> path result \<times> disk" where
  "fresh_folder V tmpbase d = fresh_loop V tmpbase 0 100 d"

definition entry_time :: "temp_env \<Rightarrow> path \<Rightarrow> node \<Rightarrow> nat" where
  "entry_time V p x = (if te_no_metadata V p then 0 else node_time x)"

definition rotation_entries :: "temp_env \<Rightarrow> path \<Rightarrow> (string \<times> node) list \<Rightarrow> (nat \<times> path) list" where
  "rotation_entries V tmpbase listing =
     map (\<lambda>(name, x). (entry_time V (tmpbase @ [name]) x, tmpbase @ [name]))
       (filter (\<lambda>(name, x). name \<noteq> SYMLINK_NAME) listing)"

definition remove_entry :: "temp_env \<Rightarrow> path \<Rightarrow> disk \<Rightarrow> disk" where
  "remove_entry V p d =
     (let target = (case canonicalize d p of Some q \<Rightarrow> q | None \<Rightarrow> p)
      in if is_dir d target then remove_dir_all V target d else remove_file V target d)"

definition remove_oldest :: "temp_env \<Rightarrow> nat \<Rightarrow> (nat \<times> path) list \<Rightarrow> disk \<Rightarrow> disk" where
  "remove_oldest V max_rotate entries d =
     (if max_rotate \<le> length entries
      then fold (\<lambda>e. remove_entry V (snd e)) (take (length entries - max_rotate + 1) entries) d
      else d)"

definition link_latest :: "temp_env \<Rightarrow> path \<Rightarrow> path \<Rightarrow> disk \<Rightarrow> path result \<times> disk" where
  "link_latest V tmpbase folder d =
     (let latest = tmpbase @ [SYMLINK_NAME];
          d1 = (if is_symlink d latest then remove_file V latest d else d)
      in (case make_symlink V folder latest d1 of
            (Some err, d2) \<Rightarrow> (Err (session_error ''link latest'' err), d2)
          | (None, d2) \<Rightarrow> (Ok folder, d2)))"

definition rotation_base :: "temp_env \<Rightarrow> path \<Rightarrow> path" where
  "rotation_base V parent = parent @ steps (FOLDER_PREFIX @ session_user V)"

definition rotate :: "temp_env \<Rightarrow> path \<Rightarrow> nat \<Rightarrow> disk \<Rightarrow> path result \<times> disk" where
  "rotate V parent max_rotate d =
     (let tmpbase = rotation_base V parent
      in (case create_dir_all V tmpbase d of
            (Some err, d1) \<Rightarrow> (Err (session_error ''create base directory'' err), d1)
          | (None, d1) \<Rightarrow>
              (case read_dir V tmpbase d1 of
                 Inl err \<Rightarrow> (Err (session_error ''list base directory'' err), d1)
               | Inr listing \<Rightarrow>
                   (let entries = sort_key fst (rotation_entries V tmpbase listing);
                        d2 = remove_oldest V max_rotate entries d1
                    in (case fresh_folder V tmpbase d2 of
                          (Inl err, d3) \<Rightarrow> (Err err, d3)
                        | (Inr folder, d3) \<Rightarrow> link_latest V tmpbase folder d3)))))"

section \<open>The session folder\<close>

text \<open>Without a root the folder is the empty path, \<open>None\<close>.\<close>

record temp_dir =
  td_root :: "path option"
  td_folder :: "path option"

definition absolute_path :: "temp_env \<Rightarrow> string \<Rightarrow> path" where
  "absolute_path V p = (if path_is_absolute p then [] else te_cwd V) @ steps p"

definition temp_dir_new :: "temp_env \<Rightarrow> string option \<Rightarrow> nat \<Rightarrow> disk \<Rightarrow> temp_dir result \<times> disk" where
  "temp_dir_new V path max_rotate d =
     (case path of
        None \<Rightarrow> (Ok \<lparr> td_root = None, td_folder = None \<rparr>, d)
      | Some text \<Rightarrow>
          (if text = [] \<or> \<not> is_dir d (absolute_path V text)
           then (Err (SessionE (''root folder doesn'' @ [CHR 0x27] @ ''t exist: '' @ text)), d)
           else
             (case canonicalize d (absolute_path V text) of
                None \<Rightarrow> (Err (session_error ''resolve root'' (te_error V (absolute_path V text))), d)
              | Some r \<Rightarrow>
                  (case rotate V r max_rotate d of
                     (Inl err, d1) \<Rightarrow> (Err err, d1)
                   | (Inr folder, d1) \<Rightarrow> (Ok \<lparr> td_root = Some r, td_folder = Some folder \<rparr>, d1)))))"

definition temp_root :: "temp_dir \<Rightarrow> string" where
  "temp_root T =
     (case td_root T of
        None \<Rightarrow> []
      | Some r \<Rightarrow> (let t = (if r = [] then ''/'' else path_text r) in if utf8_wf t then t else []))"

definition temp_abspath :: "temp_dir \<Rightarrow> string" where
  "temp_abspath T = (case td_folder T of None \<Rightarrow> [] | Some p \<Rightarrow> path_text p)"

definition escapes :: "string \<Rightarrow> kirk_error" where
  "escapes name = SessionE (''path escapes session folder: '' @ name)"

definition confined_join :: "disk \<Rightarrow> path \<Rightarrow> string \<Rightarrow> path result" where
  "confined_join d folder name =
     (if path_is_absolute name then Err (escapes name)
      else if ''..'' \<in> set (steps name) then Err (escapes name)
      else
        (let joined = folder @ steps name;
             base = (case canonicalize d folder of Some q \<Rightarrow> q | None \<Rightarrow> folder);
             target = (case canonicalize d (butlast joined) of
                         Some q \<Rightarrow> q @ [last joined]
                       | None \<Rightarrow> joined)
         in if prefix base target then Ok joined else Err (escapes name)))"

definition temp_mkdir :: "temp_env \<Rightarrow> temp_dir \<Rightarrow> string \<Rightarrow> disk \<Rightarrow> unit result \<times> disk" where
  "temp_mkdir V T name d =
     (case td_folder T of
        None \<Rightarrow> (Ok (), d)
      | Some folder \<Rightarrow>
          (case confined_join d folder name of
             Inl err \<Rightarrow> (Err err, d)
           | Inr target \<Rightarrow>
               (case create_dir_all V target d of
                  (Some err, d1) \<Rightarrow> (Err (session_error ''create directory'' err), d1)
                | (None, d1) \<Rightarrow> (Ok (), d1))))"

definition temp_mkfile :: "temp_env \<Rightarrow> temp_dir \<Rightarrow> string \<Rightarrow> string \<Rightarrow> disk \<Rightarrow> unit result \<times> disk" where
  "temp_mkfile V T name content d =
     (case td_folder T of
        None \<Rightarrow> (Ok (), d)
      | Some folder \<Rightarrow>
          (case confined_join d folder name of
             Inl err \<Rightarrow> (Err err, d)
           | Inr target \<Rightarrow>
               (case write_named V name target content d of
                  (Some err, d1) \<Rightarrow> (Err (session_error ''write file'' err), d1)
                | (None, d1) \<Rightarrow> (Ok (), d1))))"

section \<open>What rotation keeps\<close>

text \<open>The entries rotation sees below a base that is a directory of its own.\<close>

definition children :: "path \<Rightarrow> disk \<Rightarrow> disk" where
  "children base d = filter (\<lambda>(r, x). r \<noteq> [] \<and> butlast r = base) d"

definition session_folders :: "temp_env \<Rightarrow> path \<Rightarrow> disk \<Rightarrow> (nat \<times> path) list" where
  "session_folders V base d =
     map (\<lambda>(r, x). (entry_time V r x, r)) (filter (\<lambda>(r, x). last r \<noteq> SYMLINK_NAME) (children base d))"

definition plain_folders :: "path \<Rightarrow> disk \<Rightarrow> bool" where
  "plain_folders base d \<longleftrightarrow>
     list_all (\<lambda>(r, x). last r \<noteq> ''..'' \<and> (if last r = SYMLINK_NAME then is_link_node x else is_dir_node x))
       (children base d)"

definition calm_temp :: "temp_env \<Rightarrow> bool" where
  "calm_temp V \<longleftrightarrow>
     (\<forall>p. te_refuses V p = None) \<and> (\<forall>p. te_list_error V p = None) \<and> (\<forall>p q. \<not> te_survives V p q)"

lemma rotation_entries_children:
  "rotation_entries V base (map (\<lambda>(r, x). (last r, x)) (children base d)) = session_folders V base d"
proof -
  have "filter (\<lambda>(name, x). name \<noteq> SYMLINK_NAME) (map (\<lambda>(r, x). (last r, x)) (children base d)) =
    map (\<lambda>(r, x). (last r, x)) (filter (\<lambda>(r, x). last r \<noteq> SYMLINK_NAME) (children base d))"
    by (simp add: filter_map o_def case_prod_unfold)
  moreover have "base @ [last r] = r" if "(r, x) \<in> set (children base d)" for r x
    using that by (auto simp: children_def)
  then have "map ((\<lambda>(name, x). (entry_time V (base @ [name]) x, base @ [name])) \<circ> (\<lambda>(r, x). (last r, x)))
      (filter (\<lambda>(r, x). last r \<noteq> SYMLINK_NAME) (children base d)) = session_folders V base d"
    unfolding session_folders_def by (intro map_cong refl) (clarsimp simp: o_def)
  ultimately show ?thesis by (simp add: rotation_entries_def)
qed

lemma read_dir_real:
  "calm_temp V \<Longrightarrow> real_dirs d [] base \<Longrightarrow>
   read_dir V base d = Inr (map (\<lambda>(r, x). (last r, x)) (children base d))"
  by (simp add: read_dir_def calm_temp_def children_def)

lemma in_session_folders:
  "(t, p) \<in> set (session_folders V base d) \<Longrightarrow> \<exists>c. p = base @ [c] \<and> c \<noteq> SYMLINK_NAME"
  by (rule exI [of _ "last p"]) (auto simp: session_folders_def children_def)

lemma session_folder_node:
  assumes "distinct (map fst d)" and "plain_folders base d" and "(t, p) \<in> set (session_folders V base d)"
  shows "\<exists>c s. p = base @ [c] \<and> c \<noteq> ''..'' \<and> c \<noteq> SYMLINK_NAME \<and> map_of d p = Some (Dir_Node s)"
proof -
  from assms(3) obtain x where x: "(p, x) \<in> set (children base d)" and n: "last p \<noteq> SYMLINK_NAME"
    by (auto simp: session_folders_def)
  with assms(2) have l: "last p \<noteq> ''..''" "is_dir_node x" by (auto simp: plain_folders_def list_all_iff)
  from x have p: "p = base @ [last p]" "(p, x) \<in> set d" by (auto simp: children_def)
  then have "map_of d p = Some x" using assms(1) by simp
  moreover from l(2) obtain s where "x = Dir_Node s" by (cases x) auto
  ultimately show ?thesis using p(1) l(1) n by (intro exI [of _ "last p"] exI [of _ s]) simp
qed

lemma distinct_session_folders:
  "distinct (map fst d) \<Longrightarrow> distinct (map snd (session_folders V base d))"
proof -
  have "map snd (session_folders V base d) =
    filter (\<lambda>r. last r \<noteq> SYMLINK_NAME) (filter (\<lambda>r. r \<noteq> [] \<and> butlast r = base) (map fst d))"
    by (simp add: session_folders_def children_def filter_map o_def case_prod_unfold conj_commute)
  then show "distinct (map fst d) \<Longrightarrow> ?thesis" by simp
qed

subsection \<open>Removing entries\<close>

definition without :: "path list \<Rightarrow> disk \<Rightarrow> disk" where
  "without ps d = filter (\<lambda>(r, x). \<forall>p\<in>set ps. \<not> prefix p r) d"

lemma map_of_without: "map_of (without ps d) q = (if \<forall>p\<in>set ps. \<not> prefix p q then map_of d q else None)"
  by (simp add: without_def map_of_filter_key)

lemma remove_entry_child:
  assumes "calm_temp V" and "real_dirs d [] base" and "c \<noteq> ''..''" and "map_of d (base @ [c]) = Some (Dir_Node t)"
  shows "remove_entry V (base @ [c]) d = without [base @ [c]] d"
proof -
  have "real_dirs d [] (base @ [c])" using assms by (simp add: real_dirs_append)
  then show ?thesis
    using assms(1,2) by (simp add: remove_entry_def remove_dir_all_def without_def calm_temp_def)
qed

lemma real_dirs_without:
  assumes "real_dirs d [] base" and ps: "\<And>p. p \<in> set ps \<Longrightarrow> \<exists>c. p = base @ [c]"
  shows "real_dirs (without ps d) [] base"
proof (rule real_dirs_same [OF assms(1)])
  fix q t
  assume q: "prefix q ([] @ base)" and node: "map_of d q = Some (Dir_Node t)"
  have "\<not> prefix p q" if p: "p \<in> set ps" for p
  proof
    assume "prefix p q"
    with q have "prefix p base" by (metis append_Nil prefix_order.trans)
    with ps [OF p] show False by (auto dest: prefix_length_le)
  qed
  with node show "map_of (without ps d) q = Some (Dir_Node t)" by (simp add: map_of_without)
qed

lemma remove_entries:
  assumes "calm_temp V" and "real_dirs d [] base" and "distinct (map snd es)"
    and "\<And>t p. (t, p) \<in> set es \<Longrightarrow> \<exists>c s. p = base @ [c] \<and> c \<noteq> ''..'' \<and> map_of d p = Some (Dir_Node s)"
  shows "fold (\<lambda>e. remove_entry V (snd e)) es d = without (map snd es) d"
  using assms(2-4)
proof (induction es arbitrary: d)
  case Nil
  have "filter (\<lambda>(r, x). True) d = d" by (induction d) auto
  then show ?case by (simp add: without_def)
next
  case (Cons e es)
  obtain t p where e: "e = (t, p)" by fastforce
  have "(t, p) \<in> set (e # es)" by (simp add: e)
  from Cons.prems(3) [OF this]
  obtain c s where p: "p = base @ [c]" "c \<noteq> ''..''" "map_of d p = Some (Dir_Node s)" by (elim exE conjE)
  let ?d = "without [p] d"
  have "fold (\<lambda>e. remove_entry V (snd e)) es ?d = without (map snd es) ?d"
  proof (rule Cons.IH)
    show "real_dirs ?d [] base" by (rule real_dirs_without [OF Cons.prems(1)]) (use p in auto)
    show "distinct (map snd es)" using Cons.prems(2) by simp
    show "\<exists>c s. q = base @ [c] \<and> c \<noteq> ''..'' \<and> map_of ?d q = Some (Dir_Node s)" if q: "(u, q) \<in> set es" for u q
    proof -
      have "(u, q) \<in> set (e # es)" using q by simp
      from Cons.prems(3) [OF this]
      obtain b s' where b: "q = base @ [b]" "b \<noteq> ''..''" "map_of d q = Some (Dir_Node s')" by (elim exE conjE)
      have "q \<noteq> p" using q Cons.prems(2) e by (auto simp: image_iff)
      with b p have "map_of ?d q = Some (Dir_Node s')" by (simp add: map_of_without)
      with b show ?thesis by blast
    qed
  qed
  moreover have "without (map snd es) ?d = without (map snd (e # es)) d"
    by (simp add: without_def e case_prod_unfold conj_commute)
  ultimately show ?case
    using remove_entry_child [OF assms(1) Cons.prems(1) p(2)] p e by simp
qed

subsection \<open>The new folder and its link\<close>

lemma folder_name_special: "folder_name n \<noteq> ''..''" "folder_name n \<noteq> SYMLINK_NAME"
  by (simp_all add: folder_name_def SYMLINK_NAME_def)

lemma plain_child:
  assumes "plain_folders base d" and "map_of d (base @ [c]) = Some x" and "c \<noteq> SYMLINK_NAME"
  shows "is_dir_node x"
proof -
  from assms(2) have "(base @ [c], x) \<in> set (children base d)" by (simp add: children_def map_of_SomeD)
  with assms(1,3) show ?thesis by (force simp: plain_folders_def list_all_iff)
qed

lemma plain_latest:
  assumes "plain_folders base d" and "map_of d (base @ [SYMLINK_NAME]) = Some x"
  shows "is_link_node x"
proof -
  from assms(2) have "(base @ [SYMLINK_NAME], x) \<in> set (children base d)"
    by (simp add: children_def map_of_SomeD)
  with assms(1) show ?thesis by (force simp: plain_folders_def list_all_iff)
qed

lemma plain_exists:
  "real_dirs d [] base \<Longrightarrow> plain_folders base d \<Longrightarrow>
   path_exists d (base @ [folder_name n]) \<longleftrightarrow> map_of d (base @ [folder_name n]) \<noteq> None"
  using plain_child [OF _ _ folder_name_special(2), of base d n] folder_name_special(1) [of n]
  by (cases "map_of d (base @ [folder_name n])"; cases "the (map_of d (base @ [folder_name n]))")
    (auto simp: path_exists_def node_at_child)

lemma mkdir_child:
  "calm_temp V \<Longrightarrow> real_dirs d [] base \<Longrightarrow> c \<noteq> ''..'' \<Longrightarrow> map_of d (base @ [c]) = None \<Longrightarrow>
   mkdir_node V (base @ [c]) d = Made (d @ [(base @ [c], Dir_Node (te_now V))])"
  by (simp add: mkdir_node_def calm_temp_def)

lemma fresh_loop_finds:
  "calm_temp V \<Longrightarrow> real_dirs d [] base \<Longrightarrow> plain_folders base d \<Longrightarrow> i \<le> j \<Longrightarrow> j < i + tries \<Longrightarrow>
   map_of d (base @ [folder_name (te_suffix V j)]) = None \<Longrightarrow>
   \<exists>k. fresh_loop V base i tries d =
         (Ok (base @ [folder_name k]), d @ [(base @ [folder_name k], Dir_Node (te_now V))]) \<and>
       map_of d (base @ [folder_name k]) = None"
proof (induction V base i tries d rule: fresh_loop.induct)
  case (2 V base i tries d)
  show ?case
  proof (cases "path_exists d (base @ [folder_name (te_suffix V i)])")
    case True
    with 2 have "i \<noteq> j" by (auto simp: plain_exists)
    with True 2 show ?thesis by (simp add: Let_def)
  next
    case False
    with 2 have "map_of d (base @ [folder_name (te_suffix V i)]) = None" by (simp add: plain_exists)
    with False 2 show ?thesis
      by (intro exI [of _ "te_suffix V i"]) (simp add: Let_def mkdir_child folder_name_special)
  qed
qed simp

lemma link_latest_ok:
  assumes calm: "calm_temp V" and real: "real_dirs d [] base" and dis: "distinct (map fst d)"
    and plain: "plain_folders base d"
  obtains d' where "link_latest V base folder d = (Ok folder, d')"
    and "session_folders V base d' = session_folders V base d"
    and "map_of d' (base @ [SYMLINK_NAME]) = Some (Link_Node (te_now V) (path_text folder))"
    and "\<And>q. q \<noteq> base @ [SYMLINK_NAME] \<Longrightarrow> map_of d' q = map_of d q"
proof -
  let ?l = "base @ [SYMLINK_NAME]"
  let ?keep = "\<lambda>(r, x). r \<noteq> ?l \<or> is_dir_node x"
  define d1 where "d1 = (if is_symlink d ?l then remove_file V ?l d else d)"
  have sym: "is_symlink d ?l \<longleftrightarrow> map_of d ?l \<noteq> None"
    using real plain_latest [OF plain] by (auto simp: is_symlink_def split: option.splits)
  have d1: "d1 = (if is_symlink d ?l then filter ?keep d else d)"
    using calm real by (simp add: d1_def remove_file_def calm_temp_def)
  have other: "map_of d1 q = map_of d q" if "q \<noteq> ?l" for q
    using that map_of_filter_entry [OF dis, of "\<lambda>r x. r \<noteq> ?l \<or> is_dir_node x" q]
    by (simp add: d1 split: option.splits)
  have gone: "map_of d1 ?l = None"
  proof (cases "map_of d ?l")
    case (Some x)
    then have "\<not> is_dir_node x" using plain_latest [OF plain Some] by (cases x) auto
    then show ?thesis
      using Some sym map_of_filter_entry [OF dis, of "\<lambda>r x. r \<noteq> ?l \<or> is_dir_node x" ?l] by (simp add: d1)
  qed (simp add: d1 sym)
  have real1: "real_dirs d1 [] base"
  proof (rule real_dirs_same [OF real])
    fix q t
    assume "prefix q ([] @ base)" and node: "map_of d q = Some (Dir_Node t)"
    then have "q \<noteq> ?l" by (auto dest: prefix_length_le)
    with node show "map_of d1 q = Some (Dir_Node t)" by (simp add: other)
  qed
  have "link_latest V base folder d = (Ok folder, d1 @ [(?l, Link_Node (te_now V) (path_text folder))])"
    using calm real1 gone
    by (simp add: link_latest_def make_symlink_def calm_temp_def Let_def flip: d1_def)
  moreover have "session_folders V base d1 = session_folders V base d"
    unfolding session_folders_def children_def filter_filter d1
    by (auto simp: filter_filter intro!: arg_cong [of _ _ "map _"] filter_cong dest: arg_cong [of _ "_ @ [SYMLINK_NAME]" last])
  then have "session_folders V base (d1 @ [(?l, Link_Node (te_now V) (path_text folder))]) = session_folders V base d"
    by (simp add: session_folders_def children_def)
  ultimately show ?thesis
    using that other gone by (simp add: map_of_snoc split: option.splits del: map_of_append)
qed

subsection \<open>The newest folders stay\<close>

lemma distinct_without: "distinct (map fst d) \<Longrightarrow> distinct (map fst (without ps d))"
  by (simp add: without_def distinct_map_filter)

lemma plain_without: "plain_folders base d \<Longrightarrow> plain_folders base (without ps d)"
  by (auto simp: plain_folders_def children_def without_def list_all_iff)

lemma session_folders_without:
  assumes "\<And>p. p \<in> set ps \<Longrightarrow> \<exists>c. p = base @ [c]"
  shows "session_folders V base (without ps d) = filter (\<lambda>e. snd e \<notin> set ps) (session_folders V base d)"
proof -
  have "prefix p r \<longleftrightarrow> p = r" if p: "p \<in> set ps" and r: "r \<noteq> []" "butlast r = base" for p r
  proof
    assume "prefix p r"
    moreover from assms [OF p] r have "length p = length r" by (auto simp: Suc_pred)
    ultimately show "p = r" by (metis not_equal_is_parallel parallelD1)
  qed simp
  then show ?thesis
    unfolding session_folders_def children_def without_def filter_map filter_filter
    by (auto intro!: arg_cong [of _ _ "map _"] filter_cong)
qed

lemma filter_dropped:
  "distinct (map f xs) \<Longrightarrow> filter (\<lambda>x. f x \<notin> f ` set (take n xs)) xs = drop n xs"
proof -
  assume d: "distinct (map f xs)"
  have "filter (\<lambda>x. f x \<notin> f ` set (take n xs)) (take n xs) = []" by (auto simp: filter_empty_conv)
  moreover have "distinct (map f (take n xs @ drop n xs))" using d by simp
  then have "f ` set (take n xs) \<inter> f ` set (drop n xs) = {}" by (simp only: map_append distinct_append set_map)
  then have "filter (\<lambda>x. f x \<notin> f ` set (take n xs)) (drop n xs) = drop n xs" by (auto simp: filter_id_conv)
  ultimately show ?thesis by (metis append_Nil append_take_drop_id filter_append)
qed

text \<open>What is left of the sorted entries is \<open>newest\<close> of them.\<close>

definition newest :: "nat \<Rightarrow> (nat \<times> path) list \<Rightarrow> (nat \<times> path) list" where
  "newest n es = drop (length es - n) (sort_key fst es)"

lemma newest_newest:
  assumes "e \<in> set (newest n es)" and "r \<in> set es" and "r \<notin> set (newest n es)"
  shows "fst r \<le> fst e"
proof -
  let ?s = "sort_key fst es" and ?k = "length es - n"
  have "sorted (map fst (take ?k ?s @ drop ?k ?s))" by simp
  then have "\<forall>x\<in>set (take ?k ?s). \<forall>y\<in>set (drop ?k ?s). fst x \<le> fst y"
    by (simp only: map_append sorted_append) auto
  moreover have "r \<in> set (take ?k ?s)"
    using assms(2,3) by (metis Un_iff append_take_drop_id newest_def set_append set_sort)
  ultimately show ?thesis using assms(1) by (simp add: newest_def)
qed

lemma remove_oldest_newest:
  assumes calm: "calm_temp V" and dis: "distinct (map fst d)" and real: "real_dirs d [] base"
    and plain: "plain_folders base d" and es: "es = session_folders V base d"
  obtains ps where "remove_oldest V m (sort_key fst es) d = without ps d"
    and "\<And>p. p \<in> set ps \<Longrightarrow> \<exists>c. p = base @ [c] \<and> c \<noteq> SYMLINK_NAME"
    and "set (session_folders V base (without ps d)) = set (newest (m - 1) es)"
proof -
  let ?s = "sort_key fst es" and ?k = "length es - (m - 1)"
  have n: "remove_oldest V m ?s d = fold (\<lambda>e. remove_entry V (snd e)) (take ?k ?s) d"
    by (cases m) (auto simp: remove_oldest_def Suc_diff_Suc Suc_le_eq)
  have ds: "distinct (map snd ?s)"
    using distinct_session_folders [OF dis, of V base] by (simp add: es distinct_map)
  have node: "\<exists>c t'. p = base @ [c] \<and> c \<noteq> ''..'' \<and> c \<noteq> SYMLINK_NAME \<and> map_of d p = Some (Dir_Node t')"
    if "(t, p) \<in> set (take ?k ?s)" for t p
    using session_folder_node [OF dis plain, of t p V] in_set_takeD [OF that] by (simp add: es)
  let ?ps = "map snd (take ?k ?s)"
  have rm: "remove_oldest V m ?s d = without ?ps d"
    unfolding n
  proof (rule remove_entries [OF calm real])
    show "distinct (map snd (take ?k ?s))" using distinct_take [OF ds, of ?k] by (simp add: take_map)
    show "\<exists>c t'. p = base @ [c] \<and> c \<noteq> ''..'' \<and> map_of d p = Some (Dir_Node t')"
      if "(t, p) \<in> set (take ?k ?s)" for t p
      using node [OF that] by blast
  qed
  have ch: "\<exists>c. p = base @ [c] \<and> c \<noteq> SYMLINK_NAME" if "p \<in> set ?ps" for p
    using that node by fastforce
  have "session_folders V base (without ?ps d) = filter (\<lambda>e. snd e \<notin> set ?ps) es"
    unfolding es by (rule session_folders_without) (use ch es in blast)
  then have "set (session_folders V base (without ?ps d)) = set (filter (\<lambda>e. snd e \<notin> snd ` set (take ?k ?s)) ?s)"
    by auto
  also have "\<dots> = set (newest (m - 1) es)"
    using filter_dropped [OF ds, of ?k] by (simp add: newest_def)
  finally show ?thesis using that rm ch by blast
qed

text \<open>
  One rotation: the folders \<open>ps\<close> go with what they hold, then the new folder and the link are made.
\<close>

lemma rotate_run:
  assumes calm: "calm_temp V" and dis: "distinct (map fst d)" and base: "base = rotation_base V parent"
    and real: "real_dirs d [] base" and plain: "plain_folders base d"
    and j: "j < 100" "map_of d (base @ [folder_name (te_suffix V j)]) = None"
  obtains f k ps d' where "rotate V parent m d = (Ok f, d')" and "f = base @ [folder_name k]"
    and "\<And>p. p \<in> set ps \<Longrightarrow> \<exists>c. p = base @ [c] \<and> c \<noteq> SYMLINK_NAME"
    and "set (session_folders V base (without ps d)) = set (newest (m - 1) (session_folders V base d))"
    and "map_of (without ps d) f = None"
    and "session_folders V base d' = session_folders V base (without ps d) @ [(entry_time V f (Dir_Node (te_now V)), f)]"
    and "map_of d' (base @ [SYMLINK_NAME]) = Some (Link_Node (te_now V) (path_text f))"
    and "map_of d' f = Some (Dir_Node (te_now V))"
    and "\<And>q. q \<noteq> f \<Longrightarrow> q \<noteq> base @ [SYMLINK_NAME] \<Longrightarrow> map_of d' q = map_of (without ps d) q"
proof -
  let ?es = "session_folders V base d"
  obtain ps where d2: "remove_oldest V m (sort_key fst ?es) d = without ps d"
    and ps: "\<And>p. p \<in> set ps \<Longrightarrow> \<exists>c. p = base @ [c] \<and> c \<noteq> SYMLINK_NAME"
    and kept: "set (session_folders V base (without ps d)) = set (newest (m - 1) ?es)"
    using remove_oldest_newest [OF calm dis real plain refl] by metis
  let ?d2 = "without ps d"
  have real2: "real_dirs ?d2 [] base" by (rule real_dirs_without [OF real]) (use ps in blast)
  have "map_of ?d2 (base @ [folder_name (te_suffix V j)]) = None" using j(2) by (simp add: map_of_without)
  from fresh_loop_finds [OF calm real2 plain_without [OF plain] _ _ this, of 0 100] j(1)
  obtain k where "fresh_folder V base ?d2 =
      (Ok (base @ [folder_name k]), ?d2 @ [(base @ [folder_name k], Dir_Node (te_now V))])"
    and free: "map_of ?d2 (base @ [folder_name k]) = None"
    by (auto simp: fresh_folder_def)
  moreover define f where "f = base @ [folder_name k]"
  moreover define d3 where "d3 = ?d2 @ [(f, Dir_Node (te_now V))]"
  ultimately have fresh: "fresh_folder V base ?d2 = (Ok f, d3)" and free: "map_of ?d2 f = None" by simp_all
  have real3: "real_dirs d3 [] base"
    by (rule real_dirs_same [OF real2]) (auto simp: d3_def f_def map_of_snoc split: option.splits dest: prefix_length_le simp del: map_of_append)
  have dis3: "distinct (map fst d3)"
    using distinct_without [OF dis, of ps] free by (auto simp: d3_def map_of_eq_None_iff)
  have plain3: "plain_folders base d3"
    using plain_without [OF plain, of ps] folder_name_special by (simp add: plain_folders_def children_def d3_def f_def)
  have sf3: "session_folders V base d3 =
      session_folders V base ?d2 @ [(entry_time V f (Dir_Node (te_now V)), f)]"
    by (simp add: session_folders_def children_def d3_def f_def folder_name_special)
  obtain d' where link: "link_latest V base f d3 = (Ok f, d')"
    and sf: "session_folders V base d' = session_folders V base d3"
    and latest: "map_of d' (base @ [SYMLINK_NAME]) = Some (Link_Node (te_now V) (path_text f))"
    and other: "\<And>q. q \<noteq> base @ [SYMLINK_NAME] \<Longrightarrow> map_of d' q = map_of d3 q"
    by (rule link_latest_ok [OF calm real3 dis3 plain3, of f]) (use that in blast)
  have run: "rotate V parent m d = (Ok f, d')"
    using d2 fresh link by (simp add: rotate_def base [symmetric] Let_def create_dir_all_real [OF real]
        read_dir_real [OF calm real] rotation_entries_children)
  show ?thesis
  proof (rule that [OF run f_def ps kept free])
    show "session_folders V base d' = session_folders V base ?d2 @ [(entry_time V f (Dir_Node (te_now V)), f)]"
      by (simp add: sf sf3)
    show "map_of d' f = Some (Dir_Node (te_now V))"
      using other [of f] free folder_name_special by (simp add: f_def d3_def map_of_snoc del: map_of_append)
    show "map_of d' q = map_of ?d2 q" if "q \<noteq> f" "q \<noteq> base @ [SYMLINK_NAME]" for q
      using that other [of q] by (simp add: d3_def map_of_snoc split: option.splits del: map_of_append)
  qed (use latest in auto)
qed

text \<open>
  Claim C24: when the session folder is made and nothing refuses, the folders that stay are the newest
  ones, so that with the new folder at most \<open>max_rotate\<close> are left (one when it is 0); the new folder is
  a directory that none of those uses, \<open>latest\<close> links to it, and nothing outside the base is touched.
\<close>

theorem rotation_keeps_newest:
  assumes calm: "calm_temp V" and dis: "distinct (map fst d)" and base: "base = rotation_base V parent"
    and real: "real_dirs d [] base" and plain: "plain_folders base d"
    and j: "j < 100" "map_of d (base @ [folder_name (te_suffix V j)]) = None"
  shows "\<exists>folder d'. rotate V parent m d = (Ok folder, d') \<and>
    (let old = session_folders V base d; kept = newest (m - 1) old
     in set (session_folders V base d') = insert (entry_time V folder (Dir_Node (te_now V)), folder) (set kept) \<and>
        length (session_folders V base d') \<le> max m 1 \<and> folder \<notin> snd ` set kept \<and>
        (\<forall>e\<in>set kept. \<forall>r\<in>set old - set kept. fst r \<le> fst e)) \<and>
    map_of d' folder = Some (Dir_Node (te_now V)) \<and>
    map_of d' (base @ [SYMLINK_NAME]) = Some (Link_Node (te_now V) (path_text folder)) \<and>
    (\<forall>p. \<not> prefix base p \<longrightarrow> map_of d' p = map_of d p)"
proof (rule rotate_run [OF assms, of m])
  let ?es = "session_folders V base d"
  fix f k ps d'
  assume run: "rotate V parent m d = (Ok f, d')" "f = base @ [folder_name k]"
    and ps: "\<And>p. p \<in> set ps \<Longrightarrow> \<exists>c. p = base @ [c] \<and> c \<noteq> SYMLINK_NAME"
    and kept: "set (session_folders V base (without ps d)) = set (newest (m - 1) ?es)"
    and free: "map_of (without ps d) f = None"
    and sf: "session_folders V base d' = session_folders V base (without ps d) @ [(entry_time V f (Dir_Node (te_now V)), f)]"
    and nodes: "map_of d' (base @ [SYMLINK_NAME]) = Some (Link_Node (te_now V) (path_text f))"
      "map_of d' f = Some (Dir_Node (te_now V))"
    and other: "\<And>q. q \<noteq> f \<Longrightarrow> q \<noteq> base @ [SYMLINK_NAME] \<Longrightarrow> map_of d' q = map_of (without ps d) q"
  let ?d2 = "without ps d"
  have "distinct (session_folders V base ?d2)"
    using distinct_session_folders [OF distinct_without [OF dis], of V base ps] by (simp add: distinct_map)
  then have "length (session_folders V base ?d2) \<le> length (newest (m - 1) ?es)"
    using kept card_length [of "newest (m - 1) ?es"] by (metis distinct_card)
  then have len: "length (session_folders V base d') \<le> max m 1" by (simp add: sf newest_def)
  have "f \<notin> snd ` set (newest (m - 1) ?es)"
  proof
    assume "f \<in> snd ` set (newest (m - 1) ?es)"
    then obtain t where "(t, f) \<in> set (session_folders V base ?d2)" using kept by auto
    from session_folder_node [OF distinct_without [OF dis] plain_without [OF plain] this] free
    show False by auto
  qed
  moreover have "map_of d' p = map_of d p" if p: "\<not> prefix base p" for p
  proof -
    have "\<not> prefix q p" if "q \<in> set ps" for q using ps [OF that] p by (auto dest: append_prefixD)
    moreover have "p \<noteq> base @ [SYMLINK_NAME]" "p \<noteq> f" using p run(2) by auto
    ultimately show ?thesis using other [of p] by (simp add: map_of_without)
  qed
  ultimately show ?thesis
    using run(1) len nodes newest_newest [of _ "m - 1" ?es]
    by (intro exI [of _ f] exI [of _ d']) (auto simp: Let_def sf kept)
qed

text \<open>A folder that is not among the newest is gone with all it holds.\<close>

lemma rotated_away:
  assumes calm: "calm_temp V" and dis: "distinct (map fst d)" and base: "base = rotation_base V parent"
    and real: "real_dirs d [] base" and plain: "plain_folders base d"
    and j: "j < 100" "map_of d (base @ [folder_name (te_suffix V j)]) = None"
    and old: "(t, old) \<in> set (session_folders V base d)" "(t, old) \<notin> set (newest (m - 1) (session_folders V base d))"
  obtains f d' where "rotate V parent m d = (Ok f, d')" and "\<And>x. map_of d' (old @ [x]) = None"
proof (rule rotate_run [OF calm dis base real plain j, of m])
  fix f k ps d'
  assume run: "rotate V parent m d = (Ok f, d')" "f = base @ [folder_name k]"
    and ps: "\<And>p. p \<in> set ps \<Longrightarrow> \<exists>c. p = base @ [c] \<and> c \<noteq> SYMLINK_NAME"
    and kept: "set (session_folders V base (without ps d)) = set (newest (m - 1) (session_folders V base d))"
    and other: "\<And>q. q \<noteq> f \<Longrightarrow> q \<noteq> base @ [SYMLINK_NAME] \<Longrightarrow> map_of d' q = map_of (without ps d) q"
  have "session_folders V base (without ps d) = filter (\<lambda>e. snd e \<notin> set ps) (session_folders V base d)"
    by (rule session_folders_without) (auto dest: ps)
  moreover have "(t, old) \<notin> set (session_folders V base (without ps d))" using old(2) unfolding kept .
  ultimately have "old \<in> set ps" using old(1) by simp
  moreover obtain c where "old = base @ [c]" using in_session_folders [OF old(1)] by blast
  ultimately have "map_of d' (old @ [x]) = None" for x
    using other [of "old @ [x]"] run(2) by (auto simp: map_of_without)
  with run(1) that show ?thesis by blast
qed

section \<open>Confinement\<close>

lemma confined_join_no_links:
  assumes nl: "no_links folder d" and real: "real_dirs d [] folder" and "folder \<noteq> []"
  shows "confined_join d folder name =
    (if path_is_absolute name \<or> ''..'' \<in> set (steps name) then Err (escapes name) else Ok (folder @ steps name))"
proof (cases "path_is_absolute name \<or> ''..'' \<in> set (steps name)")
  case False
  let ?joined = "folder @ steps name"
  let ?target = "case canonicalize d (butlast ?joined) of Some q \<Rightarrow> q @ [last ?joined] | None \<Rightarrow> ?joined"
  have "canonicalize d (butlast ?joined) = None \<or> canonicalize d (butlast ?joined) = Some (butlast ?joined)"
  proof (cases "steps name" rule: rev_cases)
    case Nil
    have "real_dirs d [] (butlast folder)" using real assms(3) by (cases folder rule: rev_cases) (auto simp: real_dirs_append)
    with Nil show ?thesis by simp
  next
    case (snoc cs c)
    with False canonicalize_no_links [OF nl real, of cs] show ?thesis by (auto simp: butlast_append)
  qed
  then have "?target = ?joined" using assms(3) by (auto simp del: butlast_append last_append)
  then show ?thesis using False real by (simp add: confined_join_def Let_def)
qed (auto simp: confined_join_def)

text \<open>
  Claim C38: in a session folder without links, \<open>mkdir\<close> and \<open>mkfile\<close> touch nothing outside the folder:
  a name that is absolute or goes up is refused, \<open>mkdir\<close> only adds directories, \<open>mkfile\<close> only changes
  the file it names, and success leaves the directory or the content; neither brings in a link.
\<close>

theorem session_folder_confines:
  assumes T: "td_folder T = Some folder" "folder \<noteq> []" and real: "real_dirs d [] folder"
    and nl: "no_links folder d"
    and made: "temp_mkdir V T name d = (r1, d1)" and written: "temp_mkfile V T name content d = (r2, d2)"
  shows "(if path_is_absolute name \<or> ''..'' \<in> set (steps name)
      then r1 = Err (escapes name) \<and> r2 = Err (escapes name) \<and> d1 = d \<and> d2 = d
      else (\<forall>p. map_of d p \<noteq> None \<or> \<not> prefix folder p \<longrightarrow> map_of d1 p = map_of d p) \<and>
           (\<forall>p. p \<noteq> folder @ steps name \<longrightarrow> map_of d2 p = map_of d p) \<and>
           (is_ok r1 \<longrightarrow> is_dir d1 (folder @ steps name)) \<and>
           (is_ok r2 \<longrightarrow> map_of d2 (folder @ steps name) = Some (File_Node (te_now V) content))) \<and>
    no_links folder d1 \<and> no_links folder d2"
proof (cases "path_is_absolute name \<or> ''..'' \<in> set (steps name)")
  case True
  then have "confined_join d folder name = Err (escapes name)"
    by (simp add: confined_join_no_links [OF nl real T(2)])
  with True show ?thesis
    using made written nl T(1) by (auto simp: temp_mkdir_def temp_mkfile_def)
next
  case False
  let ?p = "folder @ steps name"
  have join: "confined_join d folder name = Ok ?p" using False by (simp add: confined_join_no_links [OF nl real T(2)])
  obtain e d1' where mk: "create_dir_all V ?p d = (e, d1')" by fastforce
  from create_all_no_links [OF nl real _ mk] False
  have "only_added folder d d1'" "e = None \<longrightarrow> is_dir d1' ?p" by auto
  moreover have "d1' = d1" "is_ok r1 \<longleftrightarrow> e = None"
    using made mk T(1) join by (auto simp: temp_mkdir_def split: option.splits)
  moreover have "(\<forall>p. p \<noteq> ?p \<longrightarrow> map_of d2 p = map_of d p) \<and> no_links folder d2 \<and>
      (is_ok r2 \<longrightarrow> map_of d2 ?p = Some (File_Node (te_now V) content))"
    using written T(1) join write_named_no_links [OF nl real, of "steps name" V name content] False
    by (auto simp: temp_mkfile_def split: option.splits prod.splits)
  ultimately show ?thesis using False by (simp add: only_added_def)
qed

section \<open>Examples\<close>

definition demo_temp :: temp_env where
  "demo_temp =
     \<lparr> te_var = (\<lambda>key. if key = ''LOGNAME'' then Some ''me'' else None), te_cwd = [], te_now = 50,
       te_suffix = (\<lambda>i. i), te_refuses = (\<lambda>_. None), te_list_error = (\<lambda>_. None),
       te_no_metadata = (\<lambda>_. False), te_survives = (\<lambda>_ _. False), te_error = (\<lambda>_. ''denied'') \<rparr>"

definition demo_base :: path where "demo_base = [''tmp'', ''kirk.me'']"

definition demo_disk :: disk where
  "demo_disk =
     [([''tmp''], Dir_Node 0), ([''tmp'', ''kirk.me''], Dir_Node 9), ([''tmp'', ''kirk.me'', ''a''], Dir_Node 3),
      ([''tmp'', ''kirk.me'', ''b''], Dir_Node 1), ([''tmp'', ''kirk.me'', ''b'', ''executed''], File_Node 1 ''x''),
      ([''tmp'', ''kirk.me'', ''latest''], Link_Node 5 ''/tmp/kirk.me/a'')]"

definition linked_disk :: disk where
  "linked_disk =
     [([''tmp''], Dir_Node 0), ([''tmp'', ''kirk.me''], Dir_Node 9), ([''home''], Dir_Node 0),
      ([''home'', ''notes''], File_Node 2 ''text''), ([''tmp'', ''kirk.me'', ''old''], Link_Node 1 ''/home'')]"

lemma demo_rotation:
  "calm_temp demo_temp" "distinct (map fst demo_disk)" "demo_base = rotation_base demo_temp [''tmp'']"
  "real_dirs demo_disk [] demo_base" "plain_folders demo_base demo_disk"
  "map_of demo_disk (demo_base @ [folder_name (te_suffix demo_temp 0)]) = None"
  "newest (2 - 1) (session_folders demo_temp demo_base demo_disk) = [(3, demo_base @ [''a''])]"
  subgoal by (simp add: calm_temp_def demo_temp_def)
  subgoal by code_simp
  subgoal by code_simp
  subgoal by (simp add: demo_disk_def demo_base_def)
  subgoal by code_simp
  subgoal by code_simp
  subgoal by code_simp
  done

theorem rotation_keeps_newest_witness:
  "\<exists>folder d'. rotate demo_temp [''tmp''] 2 demo_disk = (Ok folder, d') \<and>
     set (session_folders demo_temp demo_base d') = {(50, folder), (3, demo_base @ [''a''])}"
proof -
  have "entry_time demo_temp p (Dir_Node (te_now demo_temp)) = 50" for p
    by (simp add: entry_time_def demo_temp_def)
  then show ?thesis
    using rotation_keeps_newest [OF demo_rotation(1-5) _ demo_rotation(6), of 2] demo_rotation(7)
    by (auto simp: Let_def)
qed

theorem session_folder_confines_witness:
  "\<exists>r1 d1 r2 d2.
     temp_mkdir demo_temp \<lparr> td_root = None, td_folder = Some (demo_base @ [''a'']) \<rparr> ''out'' demo_disk = (r1, d1) \<and>
     temp_mkfile demo_temp \<lparr> td_root = None, td_folder = Some (demo_base @ [''a'']) \<rparr> ''out'' ''x'' demo_disk = (r2, d2) \<and>
     no_links (demo_base @ [''a'']) d1 \<and> map_of d1 (demo_base @ [''b'']) = Some (Dir_Node 1) \<and>
     map_of d2 (demo_base @ [''b'']) = Some (Dir_Node 1)"
proof -
  let ?f = "demo_base @ [''a'']" and ?T = "\<lparr> td_root = None, td_folder = Some (demo_base @ [''a'']) \<rparr>"
  obtain r1 d1 r2 d2 where run: "temp_mkdir demo_temp ?T ''out'' demo_disk = (r1, d1)"
    "temp_mkfile demo_temp ?T ''out'' ''x'' demo_disk = (r2, d2)" by fastforce
  have f: "td_folder ?T = Some ?f" "?f \<noteq> []" "real_dirs demo_disk [] ?f" "no_links ?f demo_disk"
    by (simp_all add: demo_base_def demo_disk_def no_links_def)
  have name: "\<not> (path_is_absolute ''out'' \<or> ''..'' \<in> set (steps ''out''))" by code_simp
  have b: "map_of demo_disk (demo_base @ [''b'']) = Some (Dir_Node 1)" "demo_base @ [''b''] \<noteq> ?f @ steps ''out''"
    by code_simp+
  from session_folder_confines [OF f run, unfolded if_not_P [OF name]] b run show ?thesis by auto
qed

text \<open>
  Rotation resolves an entry before it removes it: a link among the old folders has the folder it
  points to removed, with all it holds, and stays itself.
\<close>

lemma rotation_follows_links:
  "map (map_of (snd (rotate demo_temp [''tmp''] 1 linked_disk)))
     [[''home''], [''home'', ''notes''], [''tmp'', ''kirk.me'', ''old'']] = [None, None, Some (Link_Node 1 ''/home'')]"
  by code_simp

text \<open>Through a link in the session folder a file outside of it is created.\<close>

lemma links_leave_the_folder:
  "map_of (snd (temp_mkdir demo_temp \<lparr> td_root = Some [''tmp''], td_folder = Some demo_base \<rparr> ''old/a/b'' linked_disk))
     [''home'', ''a'', ''b''] = Some (Dir_Node 50)"
  by code_simp

end
