(* ===== verification/Cli_Session.thy ===== *)
theory Cli_Session
  imports Cli_Args Cli_Sut Temp_Dir Support_Monitor Ssh_Channel Qemu_Channel Ltx_Channel
begin

text \<open>
  Crate \<open>kirk-cli\<close>, \<open>session.rs\<close> and \<open>main.rs\<close>: the channels made from the options, the steps that start
  a session and the exit code. A channel of any of the four kinds is one of \<open>any_channel\<close>.
\<close>

section \<open>Channels\<close>

datatype ('h, 'g) any_channel =
    Shell_Ch shell
  | Ssh_Ch "'h ssh"
  | Qemu_Ch "'g qemu"
  | Ltx_Ch ltx_channel

text \<open>What setting up channels looks at: the home directory, the paths of QEMU, the pipes of LTX.\<close>

record channel_env =
  ch_home :: "string option"
  ch_paths :: path_tests
  ch_ltx :: ltx_env

fun any_name :: "('h, 'g) any_channel \<Rightarrow> string" where
  "any_name (Shell_Ch s) = sh_name s"
| "any_name (Ssh_Ch s) = ss_name s"
| "any_name (Qemu_Ch s) = qm_name s"
| "any_name (Ltx_Ch s) = lc_name s"

fun clone_any :: "string \<Rightarrow> ('h, 'g) any_channel \<Rightarrow> ('h, 'g) any_channel" where
  "clone_any name (Shell_Ch s) = Shell_Ch (shell_clone name s)"
| "clone_any name (Ssh_Ch s) = Ssh_Ch (ssh_clone name s)"
| "clone_any name (Qemu_Ch s) = Qemu_Ch (fresh_clone name s)"
| "clone_any name (Ltx_Ch s) = Ltx_Ch (disconnected_clone name s)"

text \<open>The shell takes any configuration.\<close>

fun setup_any :: "channel_env \<Rightarrow> str_map \<Rightarrow> ('h, 'g) any_channel \<Rightarrow> unit result \<times> ('h, 'g) any_channel" where
  "setup_any E cfg (Shell_Ch s) = (Ok (), Shell_Ch s)"
| "setup_any E cfg (Ssh_Ch s) = map_prod id Ssh_Ch (ssh_setup (ch_home E) cfg s)"
| "setup_any E cfg (Qemu_Ch s) = map_prod id Qemu_Ch (qemu_setup (ch_paths E) cfg s)"
| "setup_any E cfg (Ltx_Ch s) = map_prod id Ltx_Ch (ltx_setup (ch_ltx E) cfg s)"

definition builtin_channel :: "channel_env \<Rightarrow> string \<Rightarrow> ('h, 'g) any_channel option" where
  "builtin_channel E name =
     (if name = ''shell'' then Some (Shell_Ch shell_new)
      else if name = ''ssh'' then Some (Ssh_Ch (ssh_new (ch_home E) ''ssh''))
      else if name = ''qemu'' then Some (Qemu_Ch qemu_new)
      else if name = ''ltx'' then Some (Ltx_Ch ltx_channel_new)
      else None)"

definition builtin_template :: "channel_env \<Rightarrow> string \<Rightarrow> string \<Rightarrow> ('h, 'g) any_channel option" where
  "builtin_template E name ident = map_option (clone_any ident) (builtin_channel E name)"

definition no_plugin :: "string \<Rightarrow> kirk_error" where
  "no_plugin name = PluginE (''Can'' @ [CHR 0x27] @ ''t find plugin '' @ quoted name)"

definition lookup_template ::
  "channel_env \<Rightarrow> string \<Rightarrow> string \<Rightarrow> ('h, 'g) any_channel list \<Rightarrow> ('h, 'g) any_channel result" where
  "lookup_template E name ident instances =
     (case find (\<lambda>ch. any_name ch = name) instances of
        Some found \<Rightarrow> Ok (clone_any ident found)
      | None \<Rightarrow> ok_or (no_plugin name) (builtin_template E name ident))"

definition config_id :: "str_map \<Rightarrow> string" where
  "config_id config = (case config ''id'' of Some i \<Rightarrow> i | None \<Rightarrow> config_name config)"

definition setup_one ::
  "channel_env \<Rightarrow> string \<Rightarrow> str_map \<Rightarrow> ('h, 'g) any_channel list \<Rightarrow> ('h, 'g) any_channel result" where
  "setup_one E tmpdir config instances =
     and_then (lookup_template E (config_name config) (config_id config) instances) (\<lambda>template.
       (case setup_any E (config(''tmpdir'' \<mapsto> tmpdir)) (clone_any (config_id config) template) of
          (Inl e, _) \<Rightarrow> Err e
        | (Inr _, instance1) \<Rightarrow> Ok instance1))"

fun setup_all ::
  "channel_env \<Rightarrow> string \<Rightarrow> str_map list \<Rightarrow> ('h, 'g) any_channel list \<Rightarrow> ('h, 'g) any_channel list result" where
  "setup_all E tmpdir [] instances = Ok instances"
| "setup_all E tmpdir (config # configs) instances =
     and_then (setup_one E tmpdir config instances) (\<lambda>ch. setup_all E tmpdir configs (instances @ [ch]))"

definition setup_channels ::
  "channel_env \<Rightarrow> str_map list \<Rightarrow> string \<Rightarrow> ('h, 'g) any_channel list result" where
  "setup_channels E configs tmpdir =
     (if configs = [] then
        and_then (ok_or (no_plugin ''shell'') (builtin_template E ''shell'' ''shell'')) (\<lambda>shell.
          (case setup_any E [''tmpdir'' \<mapsto> tmpdir] shell of
             (Inl e, _) \<Rightarrow> Err e
           | (Inr _, shell1) \<Rightarrow> Ok [shell1]))
      else setup_all E tmpdir configs [])"

section \<open>Options of the session\<close>

datatype ui_kind = UI_Parallel | UI_Verbose | UI_Simple

definition select_ui :: "nat \<Rightarrow> bool \<Rightarrow> ui_kind" where
  "select_ui workers verbose =
     (if 1 < workers then UI_Parallel else if verbose then UI_Verbose else UI_Simple)"

definition as_seconds :: "rounding \<Rightarrow> nat \<Rightarrow> f64" where
  "as_seconds rnd n = rnd (of_nat n)"

definition given :: "string option \<Rightarrow> string option" where
  "given v = (case v of Some t \<Rightarrow> if t = [] then None else Some t | None \<Rightarrow> None)"

text \<open>The text of a file that is UTF-8.\<close>

definition read_to_string :: "temp_env \<Rightarrow> disk \<Rightarrow> string \<Rightarrow> string option" where
  "read_to_string V d path =
     (case existing_path V d path of
        Some (File_Node _ content) \<Rightarrow> if utf8_wf content then Some content else None
      | _ \<Rightarrow> None)"

definition kept_lines :: "string \<Rightarrow> string list" where
  "kept_lines text1 = filter (\<lambda>l. l \<noteq> [] \<and> \<not> starts_with ''#'' l) (map trim (lines text1))"

definition get_skip_tests :: "temp_env \<Rightarrow> disk \<Rightarrow> string option \<Rightarrow> string option \<Rightarrow> string result" where
  "get_skip_tests V d skip_tests skip_file =
     and_then
       (case given skip_file of
          None \<Rightarrow> Ok []
        | Some path \<Rightarrow>
            and_then (ok_or (SessionE (''can'' @ [CHR 0x27] @ ''t read skip file'')) (read_to_string V d path))
              (\<lambda>content. let kept = kept_lines content
                 in Ok (if kept = [] then [] else [join ''|'' kept])))
       (\<lambda>parts. Ok (join ''|'' (parts @ (case given skip_tests of Some skip \<Rightarrow> [skip] | None \<Rightarrow> []))))"

definition show_path :: "path \<Rightarrow> string" where
  "show_path p = (if p = [] then ''/'' else path_text p)"

definition cant_restore :: "string \<Rightarrow> kirk_error" where
  "cant_restore path =
     SessionE (''Can'' @ [CHR 0x27] @ ''t restore '' @ quoted path @ ''. Folder doesn'' @ [CHR 0x27] @ ''t exist'')"

definition resolve_restore :: "temp_env \<Rightarrow> disk \<Rightarrow> string option \<Rightarrow> string option result" where
  "resolve_restore V d path =
     (case given path of
        None \<Rightarrow> Ok None
      | Some text1 \<Rightarrow>
          (case canonicalize d (absolute_path V text1) of
             None \<Rightarrow> Err (cant_restore text1)
           | Some p \<Rightarrow> if is_dir d p then Ok (Some (lossy (show_path p))) else Err (cant_restore text1)))"

text \<open>A pattern is refused when the regular expression library cannot compile it.\<close>

definition check_regex :: "regex_new \<Rightarrow> string \<Rightarrow> unit result" where
  "check_regex rx pattern =
     (case rx pattern of
        Inl _ \<Rightarrow> Err (SessionE (quoted pattern @ '' is not a valid regular expression''))
      | Inr _ \<Rightarrow> Ok ())"

definition options_of :: "rounding \<Rightarrow> cli_args \<Rightarrow> string \<Rightarrow> string option \<Rightarrow> run_options" where
  "options_of rnd a skip_tests restore_dir =
     \<lparr> op_command = ar_run_command a, op_suites = suites_of a, op_pattern = ar_run_pattern a,
       op_skip_tests = (if skip_tests = [] then None else Some skip_tests),
       op_report_path = ar_json_report a, op_restore_path = restore_dir,
       op_suite_iterate = ar_suite_iterate a, op_randomize = ar_randomize a,
       op_runtime = as_seconds rnd (ar_runtime a), op_fault_prob = of_nat (ar_fault_injection a),
       op_fault_interval = of_nat (ar_fault_interval a), op_dry_run = ar_dry_run a \<rparr>"

definition config_of :: "rounding \<Rightarrow> cli_args \<Rightarrow> session_config" where
  "config_of rnd a =
     \<lparr> sg_exec_timeout = as_seconds rnd (ar_exec_timeout a), sg_suite_timeout = as_seconds rnd (ar_suite_timeout a),
       sg_workers = ar_workers a, sg_force_parallel = ar_force_parallel a \<rparr>"

section \<open>Starting a session\<close>

text \<open>
  \<open>cl_ops\<close> holds the operations of the channels; their names and copies are those above. What an
  attached user interface registers is known not to fail, its names being constants.
\<close>

record ('h, 'g) cli_env =
  cl_temp :: temp_env
  cl_channels :: channel_env
  cl_files :: file_env
  cl_regex :: regex_new
  cl_rounding :: rounding
  cl_ops :: "('h, 'g) any_channel com_channel"

definition channel_ops :: "('h, 'g) cli_env \<Rightarrow> ('h, 'g) any_channel com_channel" where
  "channel_ops L = (cl_ops L)\<lparr>cc_name := any_name, cc_clone := clone_any\<rparr>"

record ('h, 'g) ready_session =
  st_options :: run_options
  st_temp :: temp_dir
  st_sut :: "('h, 'g) any_channel generic_sut"
  st_config :: session_config
  st_ui :: ui_kind
  st_monitor :: "monitor option"

definition check_patterns :: "regex_new \<Rightarrow> string \<Rightarrow> string option \<Rightarrow> unit result" where
  "check_patterns rx skip_tests pattern =
     and_then (if skip_tests = [] then Ok () else check_regex rx skip_tests)
       (\<lambda>_. case pattern of Some p \<Rightarrow> check_regex rx p | None \<Rightarrow> Ok ())"

text \<open>The SUT on its channel: every instance is registered, the one \<open>com\<close> names is copied.\<close>

definition make_sut ::
  "('h, 'g) cli_env \<Rightarrow> cli_args \<Rightarrow> string \<Rightarrow> ('h, 'g) any_channel generic_sut result" where
  "make_sut L a tmpdir =
     and_then (setup_channels (cl_channels L) (ar_com a) tmpdir) (\<lambda>instances.
       (case setup_with_registry (channel_ops L) ((ar_sut a)(''tmpdir'' \<mapsto> tmpdir))
               (fold com_register instances com_registry_new) generic_sut_new of
          (Inl e, _) \<Rightarrow> Err e
        | (Inr _, sut) \<Rightarrow> Ok (set_optimize (ar_optimize_sut a) sut)))"

definition make_monitor :: "('h, 'g) cli_env \<Rightarrow> cli_args \<Rightarrow> monitor option result" where
  "make_monitor L a =
     (case ar_monitor a of
        None \<Rightarrow> Ok None
      | Some path \<Rightarrow> and_then (monitor_new (cl_files L) path) (\<lambda>m. Ok (Some m)))"

definition prepare_session :: "('h, 'g) cli_env \<Rightarrow> cli_args \<Rightarrow> disk \<Rightarrow> ('h, 'g) ready_session result \<times> disk" where
  "prepare_session L a d =
     (let V = cl_temp L
      in (case and_then (get_skip_tests V d (ar_skip_tests a) (ar_skip_file a)) (\<lambda>skip_tests.
                and_then (check_patterns (cl_regex L) skip_tests (ar_run_pattern a)) (\<lambda>_.
                and_then (resolve_restore V d (ar_restore a)) (\<lambda>restore_dir. Ok (skip_tests, restore_dir)))) of
            Inl e \<Rightarrow> (Err e, d)
          | Inr (skip_tests, restore_dir) \<Rightarrow>
              (case temp_dir_new V (if ar_tmp_dir a = [] then None else Some (ar_tmp_dir a)) 5 d of
                 (Inl e, d1) \<Rightarrow> (Err e, d1)
               | (Inr T, d1) \<Rightarrow>
                   (and_then (make_sut L a (lossy (temp_abspath T))) (\<lambda>sut.
                      and_then (make_monitor L a) (\<lambda>m.
                        Ok \<lparr> st_options = options_of (cl_rounding L) a skip_tests restore_dir, st_temp = T, st_sut = sut,
                             st_config = config_of (cl_rounding L) a,
                             st_ui = select_ui (ar_workers a) (ar_verbose a), st_monitor = m \<rparr>)), d1))))"

text \<open>How the session ended: it ran to its end, or Ctrl-C came first.\<close>

datatype session_end = Completed "unit result" | Interrupted

fun session_code :: "session_end \<Rightarrow> int" where
  "session_code (Completed (Inr _)) = RC_OK"
| "session_code (Completed (Inl _)) = RC_ERROR"
| "session_code Interrupted = RC_INTERRUPT"

definition start_session ::
  "('h, 'g) cli_env \<Rightarrow> cli_args \<Rightarrow> (('h, 'g) ready_session \<Rightarrow> session_end) \<Rightarrow> disk \<Rightarrow> int result \<times> disk" where
  "start_session L a run d =
     (case prepare_session L a d of
        (Inl e, d1) \<Rightarrow> (Err e, d1)
      | (Inr st, d1) \<Rightarrow> (Ok (session_code (run st)), d1))"

section \<open>The program\<close>

record program_end =
  pe_code :: int
  pe_stdout :: string
  pe_stderr :: string

definition says :: "int \<Rightarrow> string \<Rightarrow> string \<Rightarrow> program_end" where
  "says c text1 text2 = \<lparr> pe_code = c, pe_stdout = text1, pe_stderr = text2 \<rparr>"

definition argument_error :: "string \<Rightarrow> program_end" where
  "argument_error message = says 2 [] (''kirk: error: '' @ message @ [CHR 0x0A])"

definition program_run ::
  "('h, 'g) cli_env \<Rightarrow> plugin_info list \<Rightarrow> plugin_info list \<Rightarrow> cli_args
     \<Rightarrow> (('h, 'g) ready_session \<Rightarrow> session_end) \<Rightarrow> disk \<Rightarrow> program_end \<times> disk" where
  "program_run L coms suts a run d =
     (case validate (cl_temp L) d a coms suts of
        Inl err \<Rightarrow> (argument_error (error_display err), d)
      | Inr Com_Help \<Rightarrow> (says 0 (plugin_help ''--com'' coms) [], d)
      | Inr Sut_Help \<Rightarrow> (says 0 (plugin_help ''--sut'' suts) [], d)
      | Inr Proceed \<Rightarrow>
          (case start_session L a run d of
             (Inl err, d1) \<Rightarrow> (argument_error (''session setup failed: '' @ error_display err), d1)
           | (Inr c, d1) \<Rightarrow> (says c [] [], d1)))"

section \<open>Plugins\<close>

fun any_config_help :: "('h, 'g) any_channel \<Rightarrow> (string \<times> string) list" where
  "any_config_help (Shell_Ch _) = []"
| "any_config_help (Ssh_Ch _) = ssh_config_help"
| "any_config_help (Qemu_Ch _) = qemu_config_help"
| "any_config_help (Ltx_Ch _) = ltx_config_help"

definition builtin_channels :: "channel_env \<Rightarrow> ('h, 'g) any_channel list" where
  "builtin_channels E =
     [Shell_Ch shell_new, Ssh_Ch (ssh_new (ch_home E) ''ssh''), Qemu_Ch qemu_new, Ltx_Ch ltx_channel_new]"

definition plugin_of :: "('h, 'g) any_channel \<Rightarrow> plugin_info" where
  "plugin_of ch = \<lparr> pi_name = any_name ch, pi_config_help = any_config_help ch \<rparr>"

definition builtin_plugins :: "channel_env \<Rightarrow> plugin_info list \<times> plugin_info list" where
  "builtin_plugins E =
     (map plugin_of (builtin_channels E :: (unit, unit) any_channel list),
      [\<lparr> pi_name = ''default'', pi_config_help = sut_config_help \<rparr>])"

lemma builtin_plugins_names [simp]:
  "map pi_name (fst (builtin_plugins E)) = [''shell'', ''ssh'', ''qemu'', ''ltx'']"
  by (simp add: builtin_plugins_def builtin_channels_def plugin_of_def shell_new_def ssh_new_def qemu_new_def
      inner_new_def ltx_channel_new_def)

section \<open>Channels are what was named\<close>

fun kind_of :: "('h, 'g) any_channel \<Rightarrow> string" where
  "kind_of (Shell_Ch _) = ''shell''"
| "kind_of (Ssh_Ch _) = ''ssh''"
| "kind_of (Qemu_Ch _) = ''qemu''"
| "kind_of (Ltx_Ch _) = ''ltx''"

definition BUILTIN :: "string list" where "BUILTIN = [''shell'', ''ssh'', ''qemu'', ''ltx'']"

lemma clone_any_facts [simp]: "any_name (clone_any n ch) = n" "kind_of (clone_any n ch) = kind_of ch"
  by (cases ch; simp add: shell_clone_def ssh_clone_def inner_new_def fresh_clone_def qemu_new_def disconnected_clone_def)+

text \<open>A channel of any kind is a plugin: each law is that of its kind.\<close>

definition any_plugin :: "channel_env \<Rightarrow> ('h, 'g) any_channel plugin_ops" where
  "any_plugin E =
     \<lparr> pl_name = any_name, pl_config_help = any_config_help, pl_setup = setup_any E, pl_clone_box = clone_any \<rparr>"

lemma setup_any_help: "any_config_help (snd (setup_any E cfg ch)) = any_config_help ch"
  by (cases ch) auto

lemma setup_any_name: "any_name (snd (setup_any E cfg ch)) = any_name ch"
  by (cases ch)
    (use ssh_plugin.setup_name qemu_plugin.setup_name ltx_plugin.setup_name
     in \<open>simp_all add: ssh_plugin_def qemu_plugin_def ltx_plugin_def\<close>)

lemma any_plugin_setup: "pl_setup (any_plugin E) = setup_any E"
  by (simp add: any_plugin_def)

lemma new_instance_any [simp]:
  "new_instance (any_plugin E) cfg n (Ssh_Ch s) = map_sum id Ssh_Ch (new_instance (ssh_plugin (ch_home E)) cfg n s)"
  "new_instance (any_plugin E) cfg n (Qemu_Ch q) = map_sum id Qemu_Ch (new_instance (qemu_plugin (ch_paths E)) cfg n q)"
  "new_instance (any_plugin E) cfg n (Ltx_Ch l) = map_sum id Ltx_Ch (new_instance (ltx_plugin (ch_ltx E)) cfg n l)"
  by (auto simp: new_instance_def any_plugin_def ssh_plugin_def qemu_plugin_def ltx_plugin_def
      split: prod.splits sum.splits)

interpretation any_plugin: plugin_contract "any_plugin E" "{''tmpdir''}" for E
proof (unfold_locales, goal_cases)
  case (6 cfg p e)
  then show ?case
    by (cases p)
      (use ssh_plugin.setup_refused [where home = "ch_home E" and cfg = cfg] qemu_plugin.setup_refused [where F = "ch_paths E" and cfg = cfg]
         ltx_plugin.setup_refused [where E = "ch_ltx E" and cfg = cfg]
       in \<open>auto simp: any_plugin_def ssh_plugin_def qemu_plugin_def ltx_plugin_def\<close>)
next
  case (7 p cfg cfg')
  show ?case
  proof (cases p)
    case (Ssh_Ch s)
    have "pl_setup (ssh_plugin (ch_home E)) cfg s = pl_setup (ssh_plugin (ch_home E)) cfg' s"
      by (rule ssh_plugin.setup_reads) (use 7 Ssh_Ch in \<open>simp add: any_plugin_def ssh_plugin_def\<close>)
    then show ?thesis using Ssh_Ch by (simp add: any_plugin_def ssh_plugin_def)
  next
    case (Qemu_Ch s)
    have "pl_setup (qemu_plugin (ch_paths E)) cfg s = pl_setup (qemu_plugin (ch_paths E)) cfg' s"
      by (rule qemu_plugin.setup_reads) (use 7 Qemu_Ch in \<open>simp add: any_plugin_def qemu_plugin_def\<close>)
    then show ?thesis using Qemu_Ch by (simp add: any_plugin_def qemu_plugin_def)
  next
    case (Ltx_Ch s)
    have "pl_setup (ltx_plugin (ch_ltx E)) cfg s = pl_setup (ltx_plugin (ch_ltx E)) cfg' s"
      by (rule ltx_plugin.setup_reads) (use 7 Ltx_Ch in \<open>simp add: any_plugin_def ltx_plugin_def\<close>)
    then show ?thesis using Ltx_Ch by (simp add: any_plugin_def ltx_plugin_def)
  qed (simp add: any_plugin_def)
next
  case (8 cfg n cfg' p)
  then show ?case
  proof (cases p)
    case (Ssh_Ch s)
    then show ?thesis
      using ssh_plugin.setup_forgets [where home = "ch_home E" and p = s and cfg = cfg and n = n and cfg' = cfg']
      by (simp add: any_plugin_setup ssh_plugin_def)
  next
    case (Qemu_Ch s)
    then show ?thesis
      using qemu_plugin.setup_forgets [where F = "ch_paths E" and p = s and cfg = cfg and n = n and cfg' = cfg']
      by (simp add: any_plugin_setup qemu_plugin_def)
  next
    case (Ltx_Ch s)
    then show ?thesis
      using ltx_plugin.setup_forgets [where E = "ch_ltx E" and p = s and cfg = cfg and n = n and cfg' = cfg']
      by (simp add: any_plugin_setup ltx_plugin_def)
  qed (simp add: any_plugin_setup)
next
  case (3 n m p)
  then show ?case
    by (cases p) (simp_all add: any_plugin_def shell_clone_def ssh_clone_def inner_new_def fresh_clone_def
        disconnected_clone_def)
next
  case (2 n p) then show ?case by (cases p) (simp_all add: any_plugin_def)
qed (simp_all add: any_plugin_def setup_any_help setup_any_name)

text \<open>Setting up a channel reads the parameters its help lists and the temporary folder, nothing else.\<close>

lemma parameters_are_documented:
  assumes "\<forall>key\<in>set (''tmpdir'' # map fst (any_config_help ch)). cfg key = cfg' key"
  shows "setup_any E cfg ch = setup_any E cfg' ch"
  using any_plugin.setup_reads [where E = E and p = ch and cfg = cfg and cfg' = cfg'] assms by (simp add: any_plugin_def)

lemma setup_any_facts:
  assumes "setup_any E cfg ch = (Inr u, ch1)"
  shows "any_name ch1 = any_name ch" and "kind_of ch1 = kind_of ch"
  using assms
  by (cases ch; auto simp: ssh_setup_def qemu_setup_def ltx_setup_def inner_new_def Let_def
      split: sum.splits if_splits)+

lemma builtin_facts:
  assumes "builtin_channel E name = Some ch"
  shows "kind_of ch = name" and "name \<in> set BUILTIN"
  using assms by (auto simp: builtin_channel_def BUILTIN_def split: if_splits)

lemma setup_one_facts:
  assumes "setup_one E tmpdir c chs = Ok ch"
  shows "any_name ch = config_id c"
    and "(\<exists>old\<in>set chs. any_name old = config_name c \<and> kind_of ch = kind_of old) \<or>
      config_name c \<in> set BUILTIN \<and> kind_of ch = config_name c"
proof -
  from assms obtain template where t: "lookup_template E (config_name c) (config_id c) chs = Ok template"
    and r: "(case setup_any E (c(''tmpdir'' \<mapsto> tmpdir)) (clone_any (config_id c) template) of
      (Inl e, _) \<Rightarrow> Err e | (Inr _, instance1) \<Rightarrow> Ok instance1) = Ok ch"
    by (auto simp: setup_one_def and_then_Ok)
  from r have s: "setup_any E (c(''tmpdir'' \<mapsto> tmpdir)) (clone_any (config_id c) template) = (Inr (), ch)"
    by (cases "setup_any E (c(''tmpdir'' \<mapsto> tmpdir)) (clone_any (config_id c) template)") (auto split: sum.splits)
  note facts = setup_any_facts [OF s]
  show "any_name ch = config_id c" using facts by simp
  show "(\<exists>old\<in>set chs. any_name old = config_name c \<and> kind_of ch = kind_of old) \<or>
      config_name c \<in> set BUILTIN \<and> kind_of ch = config_name c"
    using t facts builtin_facts
    by (auto simp: lookup_template_def builtin_template_def find_Some_iff split: option.splits)
qed

definition kinds_match :: "('h, 'g) any_channel list \<Rightarrow> bool" where
  "kinds_match chs \<longleftrightarrow> list_all (\<lambda>ch. any_name ch \<in> set BUILTIN \<longrightarrow> kind_of ch = any_name ch) chs"

lemma setup_all_facts:
  assumes "setup_all E tmpdir configs chs = Ok chs'" and "kinds_match chs"
    and "\<forall>c\<in>set configs. config_name c \<in> set BUILTIN \<and> (config_id c \<in> set BUILTIN \<longrightarrow> config_id c = config_name c)"
  shows "map any_name chs' = map any_name chs @ map config_id configs \<and>
    map kind_of chs' = map kind_of chs @ map config_name configs"
  using assms
proof (induction configs arbitrary: chs)
  case (Cons c configs)
  then obtain ch where ch: "setup_one E tmpdir c chs = Ok ch"
    and rest: "setup_all E tmpdir configs (chs @ [ch]) = Ok chs'"
    by (auto simp: and_then_Ok)
  have kind: "kind_of ch = config_name c"
    using setup_one_facts(2) [OF ch] Cons.prems(2,3) by (auto simp: kinds_match_def list_all_iff)
  with setup_one_facts(1) [OF ch] Cons.prems(2,3) have "kinds_match (chs @ [ch])" by (simp add: kinds_match_def)
  with Cons.IH [OF rest] Cons.prems(3) setup_one_facts(1) [OF ch] kind show ?case by simp
qed simp

lemma validated_names:
  assumes "validate V d a (fst (builtin_plugins P)) suts = Ok Proceed" and "c \<in> set (ar_com a)"
  shows "config_name c \<in> set BUILTIN"
proof -
  from assms(1) have "check_coms (fst (builtin_plugins P)) (ar_com a) = Ok ()"
    by (auto simp: validate_def and_then_Ok split: if_splits)
  with assms(2) obtain p where "p \<in> set (fst (builtin_plugins P))" "pi_name p = config_name c"
    by (auto simp: check_coms_Ok)
  then have "config_name c \<in> set (map pi_name (fst (builtin_plugins P)))" by (metis image_eqI set_map)
  then show ?thesis unfolding builtin_plugins_names BUILTIN_def .
qed

text \<open>
  Claim C25: after validation the channels of a session are what the options name: one for each, under
  its \<open>id\<close> (its name when it has none) and of the kind of its name, in order, or the local shell when
  none is given; provided no \<open>id\<close> is the name of another kind.
\<close>

theorem channels_are_what_was_named:
  assumes "validate V d a (fst (builtin_plugins P)) suts = Ok Proceed"
    and "\<forall>c\<in>set (ar_com a). config_id c \<in> set BUILTIN \<longrightarrow> config_id c = config_name c"
    and "setup_channels E (ar_com a) tmpdir = Ok chs"
  shows "map any_name chs = (if ar_com a = [] then [''shell''] else map config_id (ar_com a)) \<and>
    map kind_of chs = (if ar_com a = [] then [''shell''] else map config_name (ar_com a))"
proof (cases "ar_com a = []")
  case True
  with assms(3) show ?thesis
    by (auto simp: setup_channels_def builtin_template_def builtin_channel_def shell_clone_def)
next
  case False
  then have "setup_all E tmpdir (ar_com a) [] = Ok chs" using assms(3) by (simp add: setup_channels_def)
  from setup_all_facts [OF this] validated_names [OF assms(1)] assms(2) False show ?thesis
    by (simp add: kinds_match_def)
qed

section \<open>Channels are set up independently\<close>

text \<open>The reference: a fresh channel of the kind the option names, set up with the option alone.\<close>

definition setup_alone :: "channel_env \<Rightarrow> string \<Rightarrow> str_map \<Rightarrow> ('h, 'g) any_channel result" where
  "setup_alone E tmpdir config =
     and_then (ok_or (no_plugin (config_name config)) (builtin_channel E (config_name config)))
       (new_instance (any_plugin E) (config(''tmpdir'' \<mapsto> tmpdir)) (config_id config))"

lemma setup_one_instance:
  "setup_one E tmpdir c instances =
     and_then (lookup_template E (config_name c) (config_id c) instances)
       (new_instance (any_plugin E) (c(''tmpdir'' \<mapsto> tmpdir)) (config_id c))"
  by (cases "lookup_template E (config_name c) (config_id c) instances")
    (simp_all add: setup_one_def new_instance_def any_plugin_def)

definition from_builtin :: "channel_env \<Rightarrow> ('h, 'g) any_channel \<Rightarrow> bool" where
  "from_builtin E ch \<longleftrightarrow>
     (\<forall>t. builtin_channel E (any_name ch) = Some t \<longrightarrow> derived (any_plugin E) t ch)"

lemma derived_clone_any: "derived (any_plugin E) t ch \<Longrightarrow> derived (any_plugin E) t (clone_any n ch)"
  using derived_clone [of "any_plugin E" t ch n] by (simp add: any_plugin_def)

text \<open>A template is a descendant of the built-in channel of its name, whichever instance it is taken from.\<close>

lemma lookup_template_derived:
  assumes "list_all (from_builtin E) instances" and "builtin_channel E name = Some t"
  shows "\<exists>template. lookup_template E name ident instances = Ok template \<and> derived (any_plugin E) t template"
proof (cases "find (\<lambda>ch. any_name ch = name) instances")
  case None
  then show ?thesis
    using assms(2) by (auto simp: lookup_template_def builtin_template_def derived_refl derived_clone_any)
next
  case (Some ch)
  then have "any_name ch = name" and "ch \<in> set instances" by (auto simp: find_Some_iff)
  then have "derived (any_plugin E) t ch"
    using assms by (auto simp: list_all_iff from_builtin_def)
  then show ?thesis using Some by (auto simp: lookup_template_def derived_clone_any)
qed

lemma setup_one_alone:
  fixes instances :: "('h, 'g) any_channel list"
  assumes "list_all (from_builtin E) instances" and "config_name c \<in> set BUILTIN"
    and "config_id c \<in> set BUILTIN \<longrightarrow> config_id c = config_name c"
  shows "setup_one E tmpdir c instances = setup_alone E tmpdir c"
    and "setup_one E tmpdir c instances = Ok ch \<Longrightarrow> from_builtin E ch"
proof -
  from assms(2) obtain t :: "('h, 'g) any_channel" where t: "builtin_channel E (config_name c) = Some t"
    by (auto simp: BUILTIN_def builtin_channel_def)
  from lookup_template_derived [OF assms(1) t] obtain template where
    template: "lookup_template E (config_name c) (config_id c) instances = Ok template"
      "derived (any_plugin E) t template" by blast
  then show alone: "setup_one E tmpdir c instances = setup_alone E tmpdir c"
    using t by (simp add: setup_one_instance setup_alone_def any_plugin.instance_of_derived)
  assume "setup_one E tmpdir c instances = Ok ch"
  then have new: "new_instance (any_plugin E) (c(''tmpdir'' \<mapsto> tmpdir)) (config_id c) t = Ok ch"
    using alone t by (simp add: setup_alone_def)
  then have name: "any_name ch = config_id c" and "derived (any_plugin E) t ch"
    using any_plugin.instance_facts(1) [OF new] new_instance_derived [OF derived_refl new]
    by (simp_all add: any_plugin_def)
  then show "from_builtin E ch"
    using assms(3) t by (auto simp: from_builtin_def builtin_channel_def BUILTIN_def split: if_splits)
qed

lemma and_then_return: "and_then r Ok = r"
  by (cases r) simp_all

lemma setup_all_alone:
  fixes instances :: "('h, 'g) any_channel list"
  assumes "list_all (from_builtin E) instances" and "\<forall>c\<in>set configs. config_name c \<in> set BUILTIN"
    and "\<forall>c\<in>set configs. config_id c \<in> set BUILTIN \<longrightarrow> config_id c = config_name c"
  shows "setup_all E tmpdir configs instances =
    and_then (traverse (setup_alone E tmpdir) configs) (\<lambda>chs. Ok (instances @ chs))"
  using assms
proof (induction configs arbitrary: instances)
  case (Cons c configs)
  note one = setup_one_alone [OF Cons.prems(1), of c tmpdir]
  have prems: "config_name c \<in> set BUILTIN" "config_id c \<in> set BUILTIN \<longrightarrow> config_id c = config_name c"
    using Cons.prems by auto
  show ?case
  proof (cases "setup_alone E tmpdir c :: ('h, 'g) any_channel result")
    case (Inr ch)
    then have "list_all (from_builtin E) (instances @ [ch])"
      using Cons.prems(1) one prems by simp
    from Cons.IH [OF this] Inr one(1) prems Cons.prems show ?thesis
      by (cases "traverse (setup_alone E tmpdir) configs :: ('h, 'g) any_channel list result") simp_all
  qed (use one(1) prems in simp)
qed simp

text \<open>
  Claim C26: the channels of a session are set up independently. Although the code looks for the
  template of an option among the channels it has already built, after validation the result is
  that of setting up, for each option alone, a fresh channel of its kind: nothing an earlier option
  gave (a host, a password, a disk image) reaches a later one, and the first option that fails is
  the error. Without options there is the local shell.
\<close>

theorem channels_are_set_up_independently:
  assumes "validate V d a (fst (builtin_plugins P)) suts = Ok Proceed"
    and "\<forall>c\<in>set (ar_com a). config_id c \<in> set BUILTIN \<longrightarrow> config_id c = config_name c"
  shows "setup_channels E (ar_com a) tmpdir =
    traverse (setup_alone E tmpdir) (if ar_com a = [] then [[''name'' \<mapsto> ''shell'']] else ar_com a)"
proof (cases "ar_com a = []")
  case True
  then show ?thesis
    by (simp add: setup_channels_def setup_alone_def builtin_template_def builtin_channel_def config_name_def
        config_id_def new_instance_def any_plugin_def shell_clone_def)
next
  case False
  then show ?thesis
    using setup_all_alone [of E "[]" "ar_com a" tmpdir] validated_names [OF assms(1)] assms(2)
    by (simp add: setup_channels_def and_then_return)
qed

text \<open>
  An \<open>id\<close> that is the name of another kind takes its place: after \<open>shell:id=ssh\<close> the channel \<open>ssh\<close> is a
  shell on the local host.
\<close>

lemma id_shadows_kind:
  "\<exists>chs. setup_channels E [[''name'' \<mapsto> ''shell'', ''id'' \<mapsto> ''ssh''], [''name'' \<mapsto> ''ssh'', ''host'' \<mapsto> ''h'']] t = Ok chs \<and>
     map kind_of chs = [''shell'', ''shell''] \<and> map any_name chs = [''ssh'', ''ssh'']"
  by (simp add: setup_channels_def setup_one_def lookup_template_def builtin_template_def builtin_channel_def
      config_name_def config_id_def shell_clone_def)

section \<open>Restoring\<close>

text \<open>
  A session that is to be restored can be rotated away by the start that restores it: the
  folder is looked up first, then rotation removes the oldest folders, and with five or more of them
  the restored one with its record of executed tests is gone unless it is among the newest four; all
  tests are then run again.
\<close>

theorem restored_folder_is_rotated_away:
  assumes calm: "calm_temp (cl_temp L)" and dis: "distinct (map fst d)" and base: "base = rotation_base (cl_temp L) parent"
    and real: "real_dirs d [] base" and plain: "plain_folders base d"
    and j: "j < 100" "map_of d (base @ [folder_name (te_suffix (cl_temp L) j)]) = None"
    and tmp: "ar_tmp_dir a \<noteq> []" "is_dir d (absolute_path (cl_temp L) (ar_tmp_dir a))"
      "canonicalize d (absolute_path (cl_temp L) (ar_tmp_dir a)) = Some parent"
    and restore: "given (ar_restore a) = Some text1" "canonicalize d (absolute_path (cl_temp L) text1) = Some old"
    and old: "(t, old) \<in> set (session_folders (cl_temp L) base d)"
      "(t, old) \<notin> set (newest 4 (session_folders (cl_temp L) base d))"
    and skip: "get_skip_tests (cl_temp L) d (ar_skip_tests a) (ar_skip_file a) = Ok skip_tests"
      "check_patterns (cl_regex L) skip_tests (ar_run_pattern a) = Ok ()"
  shows "resolve_restore (cl_temp L) d (ar_restore a) = Ok (Some (lossy (path_text old))) \<and>
    (\<forall>x. map_of (snd (prepare_session L a d)) (old @ [x]) = None)"
proof
  obtain c s where c: "old = base @ [c]" "c \<noteq> ''..''" "map_of d old = Some (Dir_Node s)"
    using session_folder_node [OF dis plain old(1)] by blast
  then have "real_dirs d [] old" using real by (simp add: real_dirs_append)
  then show res: "resolve_restore (cl_temp L) d (ar_restore a) = Ok (Some (lossy (path_text old)))"
    using restore c(1) by (simp add: resolve_restore_def show_path_def)
  obtain f d' where rot: "rotate (cl_temp L) parent 5 d = (Ok f, d')" and gone: "\<And>x. map_of d' (old @ [x]) = None"
    using rotated_away [OF calm dis base real plain j old(1), of 5] old(2) by auto
  have "temp_dir_new (cl_temp L) (Some (ar_tmp_dir a)) 5 d = (Ok \<lparr> td_root = Some parent, td_folder = Some f \<rparr>, d')"
    using tmp rot by (simp add: temp_dir_new_def)
  then have "snd (prepare_session L a d) = d'"
    using skip res tmp(1) by (simp add: prepare_session_def Let_def)
  with gone show "\<forall>x. map_of (snd (prepare_session L a d)) (old @ [x]) = None" by simp
qed

section \<open>Exit codes\<close>

text \<open>
  Claim C23: the exit code tells what became of the program. It is 0 exactly when help was asked for or
  the session completed without an error, 1 exactly when it completed with one, 130 exactly when it was
  interrupted, and 2 exactly when an argument or the setup was refused; only then is there a message,
  which names the error. What is refused, and help, does not depend on what a session would do: none
  is run; and unless the setup is reached, nothing on the disk is touched.
\<close>

theorem exit_codes:
  "let checked = validate (cl_temp L) d a coms suts; setup = fst (prepare_session L a d)
   in case program_run L coms suts a run d of (p, d1) \<Rightarrow>
     (pe_code p = 0 \<longleftrightarrow> checked \<in> {Ok Com_Help, Ok Sut_Help} \<or>
        checked = Ok Proceed \<and> (\<exists>st. setup = Ok st \<and> run st = Completed (Ok ()))) \<and>
     (pe_code p = 1 \<longleftrightarrow>
        checked = Ok Proceed \<and> (\<exists>st e. setup = Ok st \<and> run st = Completed (Err e))) \<and>
     (pe_code p = 130 \<longleftrightarrow>
        checked = Ok Proceed \<and> (\<exists>st. setup = Ok st \<and> run st = Interrupted)) \<and>
     (pe_code p = 2 \<longleftrightarrow> (\<exists>e. checked = Err e) \<or>
        checked = Ok Proceed \<and> (\<exists>e. setup = Err e)) \<and>
     pe_stderr p =
       (case checked of
          Inl e \<Rightarrow> ''kirk: error: '' @ error_display e @ [CHR 0x0A]
        | Inr Proceed \<Rightarrow>
            (case setup of
               Inl e \<Rightarrow> ''kirk: error: session setup failed: '' @ error_display e @ [CHR 0x0A]
             | Inr _ \<Rightarrow> [])
        | Inr _ \<Rightarrow> []) \<and>
     (pe_code p = 2 \<or> checked \<noteq> Ok Proceed \<longrightarrow>
        (\<forall>run'. program_run L coms suts a run' d = (p, d1))) \<and>
     d1 = (if checked = Ok Proceed then snd (prepare_session L a d) else d)"
proof -
  have code: "session_code (Completed (Ok ())) = 0" "session_code (Completed (Err e)) = 1" "session_code Interrupted = 130"
    for e by (simp_all add: RC_OK_def RC_ERROR_def RC_INTERRUPT_def)
  have ended: "run st = Completed (Ok ()) \<or> (\<exists>e. run st = Completed (Err e)) \<or> run st = Interrupted" for st
    by (cases "run st" rule: session_code.cases) auto
  consider (refused) e where "validate (cl_temp L) d a coms suts = Inl e"
    | (helped) "validate (cl_temp L) d a coms suts \<in> {Inr Com_Help, Inr Sut_Help}"
    | (failed) e d1 where "validate (cl_temp L) d a coms suts = Inr Proceed" "prepare_session L a d = (Inl e, d1)"
    | (started) st d1 where "validate (cl_temp L) d a coms suts = Inr Proceed" "prepare_session L a d = (Inr st, d1)"
  proof (cases "validate (cl_temp L) d a coms suts")
    case (Inr v)
    then show thesis
      using that(2-4) by (cases v; cases "prepare_session L a d"; cases "fst (prepare_session L a d)") auto
  qed (rule that(1))
  then show ?thesis
  proof cases
    case refused
    then show ?thesis by (simp add: Let_def program_run_def argument_error_def says_def)
  next
    case helped
    then show ?thesis by (auto simp: Let_def program_run_def says_def)
  next
    case failed
    then show ?thesis
      by (simp add: Let_def program_run_def start_session_def argument_error_def says_def)
  next
    case (started st d1)
    then show ?thesis
      using ended [of st] code
      by (auto simp: Let_def program_run_def start_session_def says_def simp del: session_code.simps)
  qed
qed

section \<open>Examples\<close>

theorem channels_are_what_was_named_witness:
  "\<forall>E. case setup_channels E [[''name'' \<mapsto> ''shell''], [''name'' \<mapsto> ''shell'', ''id'' \<mapsto> ''second'']] ''/tmp'' of
     Inl _ \<Rightarrow> False
   | Inr (chs :: ('h, 'g) any_channel list) \<Rightarrow> map any_name chs = [''shell'', ''second''] \<and> map kind_of chs = [''shell'', ''shell'']"
proof
  fix E :: channel_env
  let ?coms = "[[''name'' \<mapsto> ''shell''], [''name'' \<mapsto> ''shell'', ''id'' \<mapsto> ''second'']]"
  let ?a = "demo_args\<lparr>ar_com := ?coms\<rparr>"
  have "validate demo_temp demo_disk ?a (fst (builtin_plugins E)) [plugin ''default''] = Ok Proceed"
    by (simp add: validate_def validate_run_def refuse_when_def demo_args_def plugin_def config_name_def suites_of_def
        MAX_COM_INSTANCES_def builtin_plugins_def builtin_channels_def plugin_of_def shell_new_def)
  moreover obtain chs :: "('h, 'g) any_channel list" where "setup_channels E ?coms ''/tmp'' = Ok chs"
    by (simp add: setup_channels_def setup_one_def lookup_template_def builtin_template_def builtin_channel_def
        config_name_def config_id_def shell_clone_def shell_new_def)
  ultimately show "case setup_channels E ?coms ''/tmp'' of Inl _ \<Rightarrow> False
     | Inr (chs :: ('h, 'g) any_channel list) \<Rightarrow> map any_name chs = [''shell'', ''second''] \<and> map kind_of chs = [''shell'', ''shell'']"
    using channels_are_what_was_named [of demo_temp demo_disk ?a E "[plugin ''default'']" E "''/tmp''" chs]
    by (simp add: BUILTIN_def config_name_def config_id_def)
qed

text \<open>Two SSH channels: the host of the first is not that of the second.\<close>

definition two_ssh :: "str_map list" where
  "two_ssh =
     [[''name'' \<mapsto> ''ssh'', ''host'' \<mapsto> ''h'', ''known_hosts'' \<mapsto> ''/k''],
      [''name'' \<mapsto> ''ssh'', ''id'' \<mapsto> ''b'', ''known_hosts'' \<mapsto> ''/k'']]"

theorem channels_are_set_up_independently_witness:
  "\<forall>E. \<exists>s1 s2. (setup_channels E two_ssh ''/tmp'' :: ('h, 'g) any_channel list result) = Ok [Ssh_Ch s1, Ssh_Ch s2] \<and>
     ss_name s1 = ''ssh'' \<and> sc_host (ss_config s1) = ''h'' \<and>
     ss_name s2 = ''b'' \<and> sc_host (ss_config s2) = DEFAULT_HOST"
proof
  fix E :: channel_env
  let ?a = "demo_args\<lparr>ar_com := two_ssh\<rparr>"
  have valid: "validate demo_temp demo_disk ?a (fst (builtin_plugins E)) [plugin ''default''] = Ok Proceed"
    by (simp add: validate_def validate_run_def refuse_when_def demo_args_def plugin_def config_name_def suites_of_def
        two_ssh_def MAX_COM_INSTANCES_def builtin_plugins_def builtin_channels_def plugin_of_def shell_new_def
        ssh_new_def inner_new_def)
  have host: "trim ''h'' = ''h''" and known: "trim ''/k'' = ''/k''" by code_simp+
  have "(setup_channels E two_ssh ''/tmp'' :: ('h, 'g) any_channel list result) =
      traverse (setup_alone E ''/tmp'') two_ssh"
    using channels_are_set_up_independently [OF valid, of E "''/tmp''"]
    by (simp add: two_ssh_def config_id_def config_name_def BUILTIN_def)
  then show "\<exists>s1 s2. (setup_channels E two_ssh ''/tmp'' :: ('h, 'g) any_channel list result) = Ok [Ssh_Ch s1, Ssh_Ch s2] \<and>
     ss_name s1 = ''ssh'' \<and> sc_host (ss_config s1) = ''h'' \<and>
     ss_name s2 = ''b'' \<and> sc_host (ss_config s2) = DEFAULT_HOST"
    using host known
    by (simp add: two_ssh_def setup_alone_def builtin_channel_def config_name_def config_id_def new_instance_def
        any_plugin_def ssh_setup_def ssh_config_from_map_def ssh_clone_def inner_new_def nonempty_def
        parse_port_def parse_sudo_def expand_known_hosts_def)
qed

definition full_disk :: disk where
  "full_disk =
     demo_disk @ [(demo_base @ [''c''], Dir_Node 4), (demo_base @ [''d''], Dir_Node 5), (demo_base @ [''e''], Dir_Node 6)]"

definition restore_args :: cli_args where
  "restore_args = demo_args\<lparr>ar_tmp_dir := ''/tmp'', ar_restore := Some ''/tmp/kirk.me/b''\<rparr>"

lemma full_disk_facts:
  "distinct (map fst full_disk)" "real_dirs full_disk [] demo_base" "plain_folders demo_base full_disk"
  "map_of full_disk (demo_base @ [folder_name (te_suffix demo_temp 0)]) = None"
  "is_dir full_disk (absolute_path demo_temp ''/tmp'')"
  "canonicalize full_disk (absolute_path demo_temp ''/tmp'') = Some [''tmp'']"
  "canonicalize full_disk (absolute_path demo_temp ''/tmp/kirk.me/b'') = Some (demo_base @ [''b''])"
  "session_folders demo_temp demo_base full_disk =
     [(3, demo_base @ [''a'']), (1, demo_base @ [''b'']), (4, demo_base @ [''c'']), (5, demo_base @ [''d'']),
      (6, demo_base @ [''e''])]"
  "newest 4 (session_folders demo_temp demo_base full_disk) =
     [(3, demo_base @ [''a'']), (4, demo_base @ [''c'']), (5, demo_base @ [''d'']), (6, demo_base @ [''e''])]"
  subgoal by code_simp
  subgoal by (simp add: full_disk_def demo_disk_def demo_base_def)
  subgoal by code_simp
  subgoal by code_simp
  subgoal by code_simp
  subgoal by code_simp
  subgoal by code_simp
  subgoal by code_simp
  subgoal by code_simp
  done

theorem restored_folder_is_rotated_away_witness:
  "\<forall>L. map_of full_disk (demo_base @ [''b'', ''executed'']) = Some (File_Node 1 ''x'') \<and>
     map_of (snd (prepare_session (L\<lparr>cl_temp := demo_temp\<rparr>) restore_args full_disk)) (demo_base @ [''b'', ''executed'']) = None"
proof
  fix L :: "('h, 'g) cli_env"
  have "(1, demo_base @ [''b'']) \<in> set (session_folders demo_temp demo_base full_disk)"
    unfolding full_disk_facts(8) by simp
  moreover have "(1, demo_base @ [''b'']) \<notin> set (newest 4 (session_folders demo_temp demo_base full_disk))"
    unfolding full_disk_facts(9) by simp
  moreover have "get_skip_tests demo_temp full_disk (ar_skip_tests restore_args) (ar_skip_file restore_args) = Ok []"
    by (simp add: restore_args_def demo_args_def get_skip_tests_def given_def)
  moreover have "check_patterns (cl_regex L) [] (ar_run_pattern restore_args) = Ok ()"
    by (simp add: restore_args_def demo_args_def check_patterns_def)
  ultimately have "map_of (snd (prepare_session (L\<lparr>cl_temp := demo_temp\<rparr>) restore_args full_disk))
      ((demo_base @ [''b'']) @ [''executed'']) = None"
    using restored_folder_is_rotated_away [of "L\<lparr>cl_temp := demo_temp\<rparr>" full_disk demo_base "[''tmp'']" 0 restore_args
        "''/tmp/kirk.me/b''" "demo_base @ [''b'']" 1 "[]"] full_disk_facts demo_rotation(1,3)
    by (simp add: restore_args_def given_def)
  moreover have "map_of full_disk (demo_base @ [''b'', ''executed'']) = Some (File_Node 1 ''x'')" by code_simp
  ultimately show "map_of full_disk (demo_base @ [''b'', ''executed'']) = Some (File_Node 1 ''x'') \<and>
     map_of (snd (prepare_session (L\<lparr>cl_temp := demo_temp\<rparr>) restore_args full_disk)) (demo_base @ [''b'', ''executed'']) = None"
    by simp
qed

theorem exit_codes_witness:
  "\<forall>L run. pe_code (fst (program_run (L\<lparr>cl_temp := demo_temp\<rparr>) [] [plugin ''default''] demo_args run demo_disk)) = 2 \<and>
     snd (program_run (L\<lparr>cl_temp := demo_temp\<rparr>) [] [plugin ''default''] demo_args run demo_disk) = demo_disk"
proof (intro allI)
  fix L :: "('h, 'g) cli_env" and run :: "('h, 'g) ready_session \<Rightarrow> session_end"
  obtain e where "validate demo_temp demo_disk demo_args [] [plugin ''default''] = Inl e"
    by (simp add: validate_def demo_args_def config_name_def MAX_COM_INSTANCES_def)
  then show "pe_code (fst (program_run (L\<lparr>cl_temp := demo_temp\<rparr>) [] [plugin ''default''] demo_args run demo_disk)) = 2 \<and>
     snd (program_run (L\<lparr>cl_temp := demo_temp\<rparr>) [] [plugin ''default''] demo_args run demo_disk) = demo_disk"
    using exit_codes [where L = "L\<lparr>cl_temp := demo_temp\<rparr>" and coms = "[]" and suts = "[plugin ''default'']"
        and a = demo_args and run = run and d = demo_disk]
    by (auto simp: Let_def split: prod.splits)
qed

end
