(* ===== verification/Cli_Run.thy ===== *)
theory Cli_Run
  imports Cli_Session
begin

text \<open>
  The program as a whole, on the local host: what \<open>run_session\<close> of \<open>kirk-cli\<close> starts from the options
  (\<open>Cli_Session\<close>) is the session of \<open>kirk-session\<close> over the adapters (\<open>Cli_Sut\<close>), so that the exit code
  tells of the tests that were run. A session whose SUT is not the local shell is a parameter.
\<close>

section \<open>The session that is started\<close>

text \<open>What surrounds the session: processes, files and clock, the regular expressions and variables of
  the framework, the order in which parallel probes complete, the task pool.\<close>

record run_env =
  rn_os :: os
  rn_ext :: ltp_ext
  rn_order :: "nat list"
  rn_par :: "test list \<Rightarrow> (unit result, shell cli_world sched) action"
  rn_base :: "shell cli_world session_env"

text \<open>The SUT of a session, when its channel is the shell.\<close>

definition local_sut :: "('h, 'g) any_channel generic_sut \<Rightarrow> shell generic_sut option" where
  "local_sut sut =
     (case gs_channel sut of
        Some (Shell_Ch s) \<Rightarrow>
          Some \<lparr> gs_name = gs_name sut, gs_com_name = gs_com_name sut, gs_channel = Some s,
                 gs_optimize = gs_optimize sut, gs_taint = gs_taint sut \<rparr>
      | _ \<Rightarrow> None)"

definition local_world :: "shell generic_sut \<Rightarrow> shell cli_world" where
  "local_world sut = \<lparr> cw_sut = sut, cw_stop_cnt = 0, cw_stop_flag = False \<rparr>"

text \<open>The framework has no runtime limit and the execution timeout; the session has the configuration.\<close>

definition local_session ::
  "rounding \<Rightarrow> run_env \<Rightarrow> ('h, 'g) ready_session \<Rightarrow> shell generic_sut \<Rightarrow> shell cli_world session_env" where
  "local_session rnd R st sut =
     (let C = shell_channel (rn_os R)
      in cli_session_env C (rn_ext R) (ltp_new (rn_ext R) f64_zero (sg_exec_timeout (st_config st))) (rn_order R)
           (cli_sut_new C sut)
           (configured_session (st_config st) (rn_par R) rnd
              ((rn_base R)\<lparr>sx_tmpdir := lossy (temp_abspath (st_temp st))\<rparr>)))"

text \<open>A session that never returns can only be interrupted.\<close>

definition session_ending :: "unit result option \<Rightarrow> session_end" where
  "session_ending v = (case v of Some r \<Rightarrow> Completed r | None \<Rightarrow> Interrupted)"

definition local_run ::
  "rounding \<Rightarrow> run_env \<Rightarrow> (('h, 'g) ready_session \<Rightarrow> session_end) \<Rightarrow> ('h, 'g) ready_session \<Rightarrow> session_end" where
  "local_run rnd R other st =
     (case local_sut (st_sut st) of
        None \<Rightarrow> other st
      | Some sut \<Rightarrow>
          session_ending (fut_value (session_run (local_session rnd R st sut) (st_options st) (session_new (local_world sut)))))"

section \<open>Options that name shells\<close>

definition is_shell :: "('h, 'g) any_channel \<Rightarrow> bool" where
  "is_shell ch \<longleftrightarrow> kind_of ch = ''shell''"

lemma is_shell_iff: "is_shell ch \<longleftrightarrow> (\<exists>s. ch = Shell_Ch s)"
  by (cases ch) (simp_all add: is_shell_def)

definition names_shells :: "cli_args \<Rightarrow> bool" where
  "names_shells a \<longleftrightarrow> list_all (\<lambda>c. config_name c = ''shell'') (ar_com a)"

lemma setup_one_shell:
  assumes "setup_one E t c chs = Ok ch" and "config_name c = ''shell''" and "list_all is_shell chs"
  shows "is_shell ch"
  using setup_one_facts(2) [OF assms(1)] assms(2,3) by (auto simp: is_shell_def list_all_iff)

lemma setup_all_shells:
  assumes "setup_all E t configs chs = Ok chs'" and "list_all (\<lambda>c. config_name c = ''shell'') configs"
    and "list_all is_shell chs"
  shows "list_all is_shell chs'"
  using assms
proof (induction configs arbitrary: chs)
  case (Cons c configs)
  from Cons.prems(1) obtain ch where ch: "setup_one E t c chs = Ok ch"
    and rest: "setup_all E t configs (chs @ [ch]) = Ok chs'"
    by (auto simp: and_then_Ok)
  from setup_one_shell [OF ch] Cons.prems(2,3) have "list_all is_shell (chs @ [ch])" by simp
  with Cons.IH [OF rest] Cons.prems(2) show ?case by simp
qed simp

lemma setup_channels_shells:
  assumes "setup_channels E (ar_com a) t = Ok chs" and "names_shells a"
  shows "list_all is_shell chs"
proof (cases "ar_com a = []")
  case True
  with assms(1) show ?thesis
    by (auto simp: setup_channels_def builtin_template_def builtin_channel_def is_shell_iff)
next
  case False
  with assms setup_all_shells [of E t "ar_com a" "[]"] show ?thesis
    by (auto simp: setup_channels_def names_shells_def)
qed

lemma registered: "fold com_register chs reg = reg @ chs"
  by (induction chs arbitrary: reg) (simp_all add: com_register_def)

lemma make_sut_local:
  assumes "make_sut L a t = Ok sut" and "names_shells a"
  shows "\<exists>s. gs_channel sut = Some (Shell_Ch s)"
proof -
  from assms(1) obtain chs where chs: "setup_channels (cl_channels L) (ar_com a) t = Ok chs"
    and rest: "(case setup_with_registry (channel_ops L) ((ar_sut a)(''tmpdir'' \<mapsto> t))
        (fold com_register chs com_registry_new) generic_sut_new of
        (Inl e, _) \<Rightarrow> Err e | (Inr _, s) \<Rightarrow> Ok (set_optimize (ar_optimize_sut a) s)) = Ok sut"
    by (auto simp: make_sut_def and_then_Ok)
  from rest obtain s1 where reg: "setup_with_registry (channel_ops L) ((ar_sut a)(''tmpdir'' \<mapsto> t))
      (fold com_register chs com_registry_new) generic_sut_new = (Inr (), s1)"
    and sut: "sut = set_optimize (ar_optimize_sut a) s1"
    by (auto split: prod.splits sum.splits)
  from reg obtain ch where "ch \<in> set chs" and "gs_channel s1 = Some (clone_any (any_name ch) ch)"
    by (auto simp: setup_with_registry_def registered com_registry_new_def channel_ops_def Let_def find_Some_iff
        split: sum.splits if_splits option.splits) (metis nth_mem)
  then show ?thesis
    using setup_channels_shells [OF chs assms(2)] sut
    by (auto simp: list_all_iff is_shell_iff set_optimize_def)
qed

section \<open>The exit code tells of the tests\<close>

text \<open>
  What is asked of the surroundings: the probes of the kernel print no panic, nobody requests a stop,
  shuffling permutes, the suites have distinct test names and fewer tests than the fuel.
\<close>

definition runs_locally :: "run_env \<Rightarrow> bool" where
  "runs_locally R \<longleftrightarrow> quiet_probes (rn_os R) \<and>
     (\<forall>w. ss_stop_cnt (sx_env (rn_base R)) w = 0 \<and> \<not> ss_stop_flag (sx_env (rn_base R)) w) \<and>
     (\<forall>w ss. list_all2 same_tests ss (sx_shuffle (rn_base R) w ss)) \<and>
     (\<forall>f name ch su. fst (find_suite (shell_channel (rn_os R)) (rn_ext R) f name ch) = Inr su \<longrightarrow>
        suite_bounded (sx_fuel (rn_base R)) su)"

text \<open>Options that ask for a run of suites, once, one test at a time.\<close>

definition asks_for_suites :: "cli_args \<Rightarrow> bool" where
  "asks_for_suites a \<longleftrightarrow> names_shells a \<and> suites_of a \<noteq> [] \<and> \<not> ar_dry_run a \<and> ar_runtime a = 0 \<and> ar_workers a \<le> 1"

lemma prepared:
  assumes "prepare_session L a d = (Ok st, d1)"
  obtains t skip restore where "make_sut L a t = Ok (st_sut st)" and "st_config st = config_of (cl_rounding L) a"
    and "st_options st = options_of (cl_rounding L) a skip restore"
  using assms
  by (auto simp: prepare_session_def Let_def and_then_Ok split: sum.splits prod.splits)

lemma local_session_covers:
  assumes "runs_locally R" and "sg_workers (st_config st) \<le> 1" and "\<not> timeout_on (op_runtime (st_options st))"
    and "\<not> op_dry_run (st_options st)" and "op_suites (st_options st) \<noteq> []"
  shows "let Z = local_session rnd R st sut; run = session_run Z (st_options st) (session_new (local_world sut))
    in \<exists>x pre results. fut_value run = Some x \<and>
      events_of (fut_done run) = pre @ [(''session_completed'', P_SessionCompleted results)] \<and>
      (is_ok x \<longrightarrow> (\<exists>chosen. chosen_by Z (st_options st) chosen \<and> list_all2 covers results chosen))"
proof -
  let ?Z = "local_session rnd R st sut"
  note R = assms(1) [unfolded runs_locally_def]
  have "session_fair ?Z"
    unfolding local_session_def Let_def
    by (rule session_fair_local) (use R assms(2) in \<open>auto simp: configured_session_def suite_cfg_new_def clamp_workers_def\<close>)
  from session_run_accounts [OF this assms(3-5), of "session_new (local_world sut)"] show ?thesis
    by (simp add: Let_def session_new_def) blast
qed

text \<open>
  Claim C22: the exit code of the program tells of the tests. For options that name local shells and
  ask for suites, once, one test at a time, the program ends with 0, 1 or 2: with 2 when it was
  refused before any session; otherwise its session has announced its results, and with 0 they have
  one entry for each suite that was asked for, as the framework found it and the options restored,
  filtered and repeated it, and in it one result for each test, in order.
\<close>

theorem exit_code_tells_of_tests:
  assumes "runs_locally R" and "asks_for_suites a" and "cl_rounding L 0 = f64_zero"
    and "validate (cl_temp L) d a coms suts = Ok Proceed"
    and "program_run L coms suts a (local_run (cl_rounding L) R other) d = (p, d1)"
  shows "pe_code p \<in> {0, 1, 2} \<and>
    (pe_code p = 2 \<longleftrightarrow> \<not> is_ok (fst (prepare_session L a d))) \<and>
    (pe_code p \<noteq> 2 \<longrightarrow> (\<exists>st sut pre results. prepare_session L a d = (Ok st, d1) \<and> local_sut (st_sut st) = Some sut \<and>
       (let Z = local_session (cl_rounding L) R st sut;
            run = session_run Z (st_options st) (session_new (local_world sut))
        in events_of (fut_done run) = pre @ [(''session_completed'', P_SessionCompleted results)] \<and>
           (pe_code p = 0 \<longrightarrow>
              (\<exists>chosen. chosen_by Z (st_options st) chosen \<and> list_all2 covers results chosen)))))"
proof (cases "fst (prepare_session L a d)")
  case (Inl e)
  then show ?thesis
    using assms(4,5) by (cases "prepare_session L a d") (auto simp: program_run_def start_session_def argument_error_def says_def)
next
  case (Inr st)
  then obtain d2 where ready: "prepare_session L a d = (Ok st, d2)" by (cases "prepare_session L a d") simp
  from prepared [OF ready] obtain t skip restore where made: "make_sut L a t = Ok (st_sut st)"
    and config: "st_config st = config_of (cl_rounding L) a"
    and options: "st_options st = options_of (cl_rounding L) a skip restore" .
  from make_sut_local [OF made] assms(2) obtain sut where sut: "local_sut (st_sut st) = Some sut"
    by (auto simp: asks_for_suites_def local_sut_def)
  let ?Z = "local_session (cl_rounding L) R st sut"
  let ?run = "session_run ?Z (st_options st) (session_new (local_world sut))"
  have asked: "sg_workers (st_config st) \<le> 1" "\<not> timeout_on (op_runtime (st_options st))"
    "\<not> op_dry_run (st_options st)" "op_suites (st_options st) \<noteq> []"
    using assms(2,3) by (simp_all add: asks_for_suites_def config options config_of_def options_of_def as_seconds_def)
  obtain x pre results where x: "fut_value ?run = Some x"
    and ev: "events_of (fut_done ?run) = pre @ [(''session_completed'', P_SessionCompleted results)]"
    and cov: "is_ok x \<longrightarrow> (\<exists>chosen. chosen_by ?Z (st_options st) chosen \<and> list_all2 covers results chosen)"
    using local_session_covers [OF assms(1) asked, of "cl_rounding L" sut] by (auto simp: Let_def)
  have "local_run (cl_rounding L) R other st = Completed x"
    using sut x by (simp add: local_run_def session_ending_def)
  then have "p = says (session_code (Completed x)) [] []" and "d1 = d2"
    using assms(4,5) ready by (simp_all add: program_run_def start_session_def)
  then show ?thesis
    using ready sut ev cov Inr by (cases x) (auto simp: says_def RC_OK_def RC_ERROR_def Let_def)
qed

section \<open>An example\<close>

definition calm_run :: run_env where
  "calm_run =
     \<lparr> rn_os = calm_os, rn_ext = calm_ext, rn_order = [], rn_par = \<lambda>_. pure (Inr ()), rn_base = idle_session \<rparr>"

lemma calm_runs_locally: "runs_locally calm_run"
proof -
  have "quiet_probes calm_os"
    by (auto simp: quiet_probes_def calm_os_def read_loop_def read_init_def)
  then show ?thesis
    using calm_suites
    by (auto simp: runs_locally_def calm_run_def idle_session_def idle_env_def same_tests_refl)
qed

theorem exit_code_tells_of_tests_witness:
  "\<forall>L other. pe_code (fst (program_run (L\<lparr>cl_temp := demo_temp, cl_rounding := F64_Fin\<rparr>) [plugin ''shell'']
     [plugin ''default''] demo_args (local_run F64_Fin calm_run other) demo_disk)) \<in> {0, 1}"
proof (intro allI)
  fix L :: "('h, 'g) cli_env" and other :: "('h, 'g) ready_session \<Rightarrow> session_end"
  let ?L = "L\<lparr>cl_temp := demo_temp, cl_rounding := F64_Fin\<rparr>"
  obtain p d1 where run: "program_run ?L [plugin ''shell''] [plugin ''default''] demo_args
      (local_run (cl_rounding ?L) calm_run other) demo_disk = (p, d1)"
    by fastforce
  have valid: "validate (cl_temp ?L) demo_disk demo_args [plugin ''shell''] [plugin ''default''] = Ok Proceed"
    by (simp add: validate_def validate_run_def refuse_when_def demo_args_def plugin_def config_name_def suites_of_def
        MAX_COM_INSTANCES_def)
  have asks: "asks_for_suites demo_args"
    by (simp add: asks_for_suites_def names_shells_def demo_args_def config_name_def suites_of_def)
  have "is_ok (fst (prepare_session ?L demo_args demo_disk))"
    by (simp add: prepare_session_def demo_args_def get_skip_tests_def given_def check_patterns_def
        resolve_restore_def temp_dir_new_def make_sut_def make_monitor_def setup_channels_def setup_one_def
        lookup_template_def builtin_template_def builtin_channel_def config_name_def config_id_def registered
        com_registry_new_def setup_with_registry_def com_name_from_cfg_def channel_ops_def shell_clone_def Let_def)
  with exit_code_tells_of_tests [OF calm_runs_locally asks _ valid run] run
  show "pe_code (fst (program_run ?L [plugin ''shell''] [plugin ''default''] demo_args
      (local_run F64_Fin calm_run other) demo_disk)) \<in> {0, 1}"
    by auto
qed

end
