(* ===== verification/Ui_Console.thy ===== *)
theory Ui_Console
  imports Support_Monitor
begin

text \<open>
  Crate \<open>kirk-support\<close>, \<open>ui.rs\<close>: the console all user interfaces share. What is printed is a list of
  chunks, as \<open>VecPrinter\<close> keeps it; a chunk is printed at once, under the lock. The other interfaces
  extend the record: their own console prints to the same printer in the same colours.
\<close>

section \<open>Numbers\<close>

fun f64_times :: "rounding \<Rightarrow> rat \<Rightarrow> f64 \<Rightarrow> f64" where
  "f64_times rnd k (F64_Fin a) = rnd (a * k)"
| "f64_times rnd k x = x"

fun f64_neg :: "f64 \<Rightarrow> f64" where
  "f64_neg (F64_Fin a) = F64_Fin (- a)"
| "f64_neg (F64_Inf n) = F64_Inf (\<not> n)"
| "f64_neg F64_NaN = F64_NaN"

fun f64_floor :: "f64 \<Rightarrow> f64" where
  "f64_floor (F64_Fin a) = F64_Fin (of_int \<lfloor>a\<rfloor>)"
| "f64_floor x = x"

text \<open>\<open>{:.k}\<close>: the exact value to \<open>k\<close> decimals, a tie to the even digit.\<close>

definition half_even :: "rat \<Rightarrow> int" where
  "half_even q =
     (let r = q - of_int \<lfloor>q\<rfloor>
      in if r < 1 / 2 \<or> r = 1 / 2 \<and> even \<lfloor>q\<rfloor> then \<lfloor>q\<rfloor> else \<lfloor>q\<rfloor> + 1)"

definition pad_zeros :: "nat \<Rightarrow> string \<Rightarrow> string" where
  "pad_zeros k s = replicate (k - length s) (CHR ''0'') @ s"

fun fixed :: "nat \<Rightarrow> f64 \<Rightarrow> string" where
  "fixed k F64_NaN = ''NaN''"
| "fixed k (F64_Inf n) = (if n then ''-inf'' else ''inf'')"
| "fixed k (F64_Fin q) =
     (let n = nat (half_even (abs q * 10 ^ k))
      in (if q < 0 then ''-'' else []) @ show_nat (n div 10 ^ k) @
         (if k = 0 then [] else ''.'' @ pad_zeros k (show_nat (n mod 10 ^ k))))"

section \<open>The console\<close>

record screen =
  co_no_colors :: bool
  co_num_suites :: nat
  co_out :: "string list"

definition ESC :: char where "ESC = CHR 0x1B"
definition WHITE :: string where "WHITE = ESC # ''[1;37m''"
definition GREEN :: string where "GREEN = ESC # ''[1;32m''"
definition YELLOW :: string where "YELLOW = ESC # ''[1;33m''"
definition RED :: string where "RED = ESC # ''[1;31m''"
definition CYAN :: string where "CYAN = ESC # ''[1;36m''"
definition RESET_COLOR :: string where "RESET_COLOR = ESC # ''[0m''"
definition RESET_SCREEN :: string where "RESET_SCREEN = ESC # ''[2J''"

definition console_new :: "bool \<Rightarrow> screen" where
  "console_new no_colors = \<lparr> co_no_colors = no_colors, co_num_suites = 1, co_out = [] \<rparr>"

definition contents :: "'z screen_scheme \<Rightarrow> string" where
  "contents ui = concat (co_out ui)"

text \<open>The printer the tests capture output with; the chunks of a console are what it keeps.\<close>

definition vec_print :: "string \<Rightarrow> string list \<Rightarrow> string list" where
  "vec_print chunk chunks = chunks @ [chunk]"

interpretation vec_printer: io_buffer "\<lambda>chunk chunks. (Ok (), vec_print chunk chunks)" concat
  by unfold_locales (simp_all add: vec_print_def)

definition print_message :: "string \<Rightarrow> string \<Rightarrow> 'z screen_scheme \<Rightarrow> 'z screen_scheme" where
  "print_message msg ending ui = ui\<lparr>co_out := co_out ui @ [msg @ ending]\<rparr>"

lemma print_message_prints: "co_out (print_message msg ending ui) = vec_print (msg @ ending) (co_out ui)"
  by (simp add: print_message_def vec_print_def)

text \<open>\<open>msg.replace(RESET_SCREEN, "")\<close>: matches from the left that do not overlap.\<close>

fun strip_reset :: "string \<Rightarrow> string" where
  "strip_reset (a # b # c # d # s) =
     (if [a, b, c, d] = RESET_SCREEN then strip_reset s else a # strip_reset (b # c # d # s))"
| "strip_reset s = s"

definition cleaned :: "string \<Rightarrow> string" where
  "cleaned msg = filter (\<lambda>c. c \<noteq> CHR 0x0D) (strip_reset msg)"

definition styled :: "string \<Rightarrow> string option \<Rightarrow> string \<Rightarrow> 'z screen_scheme \<Rightarrow> 'z screen_scheme" where
  "styled msg color ending ui =
     print_message
       (case color of
          Some c \<Rightarrow> if co_no_colors ui then cleaned msg else c @ cleaned msg @ RESET_COLOR
        | None \<Rightarrow> cleaned msg)
       ending ui"

abbreviation NL :: string where "NL \<equiv> [CHR 0x0A]"
abbreviation TAB :: string where "TAB \<equiv> [CHR 0x09]"

definition line :: "string \<Rightarrow> string option \<Rightarrow> 'z screen_scheme \<Rightarrow> 'z screen_scheme" where
  "line msg color = styled msg color NL"

section \<open>Formatting\<close>

definition user_friendly_duration :: "rounding \<Rightarrow> f64 \<Rightarrow> string" where
  "user_friendly_duration rnd duration =
     (if f64_eq duration f64_zero then ''0h 0m 0s''
      else
        (let minutes = f64_floor (f64_times rnd (1 / 60) duration);
             seconds = f64_add rnd duration (f64_neg (f64_times rnd 60 minutes));
             hours = f64_floor (f64_times rnd (1 / 60) minutes);
             minutes1 = f64_add rnd minutes (f64_neg (f64_times rnd 60 hours))
         in if f64_lt f64_zero hours
            then fixed 0 hours @ ''h '' @ fixed 0 minutes1 @ ''m '' @ fixed 0 seconds @ ''s''
            else if f64_lt f64_zero minutes1 then fixed 0 minutes1 @ ''m '' @ fixed 0 seconds @ ''s''
            else fixed 3 seconds @ ''s''))"

text \<open>A trimmed string that is left starts with a word, which has a byte at least.\<close>

function split_whitespace :: "string \<Rightarrow> string list" where
  "split_whitespace s =
     (let t = trim_start s; w = word_run t
      in if t = [] then [] else w # split_whitespace (drop (max 1 (length w)) t))"
  by pat_completeness auto
termination
proof (relation "measure length")
  fix s t w :: string
  assume "t = trim_start s" "t \<noteq> []"
  then have "length t \<le> length s" "0 < length t" using suffix_length_le [OF trim_start_suffix] by simp_all
  then have "length t - max 1 (length w) < length s" by arith
  then show "(drop (max 1 (length w)) t, s) \<in> measure length" by simp
qed simp

declare split_whitespace.simps [simp del]

definition format_cmdline :: "string option \<Rightarrow> string" where
  "format_cmdline cmdline =
     (case cmdline of
        None \<Rightarrow> []
      | Some t \<Rightarrow>
          (if t = [] then []
           else
             (case split_whitespace t of
                [] \<Rightarrow> t
              | p # ps \<Rightarrow> p @ concat (map (\<lambda>w. NL @ ''          '' @ w) ps))))"

definition result_color :: "test_results \<Rightarrow> string \<times> string" where
  "result_color r =
     (if 0 < r_failed r then (''fail'', RED)
      else if 0 < r_skipped r then (''skip'', CYAN)
      else if 0 < r_broken r then (''broken'', RED)
      else (''pass'', GREEN))"

definition char_count :: "string \<Rightarrow> nat" where
  "char_count s = length (filter (\<lambda>c. \<not> is_cont_byte c) s)"

definition rule_line :: "nat \<Rightarrow> string" where
  "rule_line n = concat (replicate n [CHR 0xE2, CHR 0x94, CHR 0x80])"

definition bullet :: string where "bullet = [CHR 0xE2, CHR 0x80, CHR 0xA2]"

definition print_underline :: "string \<Rightarrow> 'z screen_scheme \<Rightarrow> 'z screen_scheme" where
  "print_underline msg = line (msg @ NL @ rule_line (char_count msg)) None"

definition print_section :: "string \<Rightarrow> 'z screen_scheme \<Rightarrow> 'z screen_scheme" where
  "print_section msg =
     (let r = rule_line (char_count msg + 12) in line (r @ NL @ ''      '' @ msg @ NL @ r) None)"

definition text_or_empty :: "string option \<Rightarrow> string" where
  "text_or_empty v = (case v of Some t \<Rightarrow> t | None \<Rightarrow> [])"

definition print_target_info :: "suite_results \<Rightarrow> 'z screen_scheme \<Rightarrow> 'z screen_scheme" where
  "print_target_info r ui =
     line (''Kernel:   '' @ text_or_empty (sr_kernel r) @ NL @
           ''Cmdline:  '' @ format_cmdline (sr_cmdline r) @ NL @
           ''Machine:  '' @ text_or_empty (sr_cpu r) @ NL @
           ''Arch:     '' @ text_or_empty (sr_arch r) @ NL @
           ''RAM:      '' @ text_or_empty (sr_ram r) @ NL @
           ''Swap:     '' @ text_or_empty (sr_swap r) @ NL @
           ''Distro:   '' @ text_or_empty (sr_distro r) @ '' '' @ text_or_empty (sr_distro_ver r) @ NL) None
       (print_underline ''Target information'' ui)"

definition show_u32 :: "u32 \<Rightarrow> string" where
  "show_u32 n = show_nat (unat n)"

definition print_summary :: "rounding \<Rightarrow> suite_results list \<Rightarrow> 'z screen_scheme \<Rightarrow> 'z screen_scheme" where
  "print_summary rnd results =
     line (''Suite:   '' @ join '', '' (map (\<lambda>r. s_name (sr_suite r)) results) @ NL @
           ''Runtime: '' @ user_friendly_duration rnd (f64_sum rnd (map (suite_exec_time rnd) results)) @ NL @
           ''Runs:    '' @ show_nat (sum_list (map (\<lambda>r. length (sr_tests r)) results)) @ NL @ NL @
           ''Results:'' @ NL @
           ''    Passed:   '' @ show_u32 (sum_u32 (map suite_passed results)) @ NL @
           ''    Failed:   '' @ show_u32 (sum_u32 (map suite_failed results)) @ NL @
           ''    Broken:   '' @ show_u32 (sum_u32 (map suite_broken results)) @ NL @
           ''    Skipped:  '' @ show_u32 (sum_u32 (map suite_skipped results)) @ NL @
           ''    Warnings: '' @ show_u32 (sum_u32 (map suite_warnings results)) @ NL) None"

section \<open>Handlers\<close>

text \<open>The environment variable \<open>HOSTNAME\<close>, how floats are displayed, and rounding.\<close>

record ui_env =
  ue_hostname :: "string option"
  ue_show :: "f64 \<Rightarrow> string"
  ue_rnd :: rounding

definition console_session_restore :: "string \<Rightarrow> 'z screen_scheme \<Rightarrow> 'z screen_scheme" where
  "console_session_restore restore = line (''Restore session: '' @ restore) None"

definition console_session_started :: "ui_env \<Rightarrow> nat \<Rightarrow> string \<Rightarrow> 'z screen_scheme \<Rightarrow> 'z screen_scheme" where
  "console_session_started U n tmpdir ui =
     line (''Host information'' @ NL @
           TAB @ ''Hostname:   '' @ (case ue_hostname U of Some h \<Rightarrow> h | None \<Rightarrow> ''unknown'') @ NL @
           TAB @ ''Directory:  '' @ tmpdir @ NL) None
       (ui\<lparr>co_num_suites := n\<rparr>)"

definition console_session_stopped :: "'z screen_scheme \<Rightarrow> 'z screen_scheme" where
  "console_session_stopped = line ''Session stopped'' None"

definition console_sut_start :: "string \<Rightarrow> 'z screen_scheme \<Rightarrow> 'z screen_scheme" where
  "console_sut_start sut = line (''Connecting to SUT: '' @ sut @ NL) None"

definition console_sut_stop :: "string \<Rightarrow> 'z screen_scheme \<Rightarrow> 'z screen_scheme" where
  "console_sut_stop sut = line (''Disconnecting from SUT: '' @ sut) None"

definition console_sut_restart :: "string \<Rightarrow> 'z screen_scheme \<Rightarrow> 'z screen_scheme" where
  "console_sut_restart sut = line (''Restarting SUT: '' @ sut) None"

definition console_run_cmd_start :: "string \<Rightarrow> 'z screen_scheme \<Rightarrow> 'z screen_scheme" where
  "console_run_cmd_start cmd = line cmd (Some CYAN)"

definition console_run_cmd_stdout :: "string \<Rightarrow> 'z screen_scheme \<Rightarrow> 'z screen_scheme" where
  "console_run_cmd_stdout txt = styled txt None []"

definition console_run_cmd_stop :: "int \<Rightarrow> 'z screen_scheme \<Rightarrow> 'z screen_scheme" where
  "console_run_cmd_stop returncode = line (NL @ ''Exit code: '' @ show_int returncode @ NL) None"

definition console_session_warning :: "string \<Rightarrow> 'z screen_scheme \<Rightarrow> 'z screen_scheme" where
  "console_session_warning msg = line (''Warning: '' @ msg) (Some YELLOW)"

definition console_session_error :: "string \<Rightarrow> 'z screen_scheme \<Rightarrow> 'z screen_scheme" where
  "console_session_error err = line (''Error: '' @ err) (Some RED)"

definition name_list :: "string \<Rightarrow> string list \<Rightarrow> string" where
  "name_list before names = join NL (map (\<lambda>n. before @ n) names)"

definition print_names :: "string \<Rightarrow> test_results list \<Rightarrow> 'z screen_scheme \<Rightarrow> 'z screen_scheme" where
  "print_names title rs ui =
     (if rs = [] then ui
      else line [] None
        (line (name_list (''    '' @ bullet @ '' '') (map (\<lambda>r. t_name (r_test r)) rs)) None
          (line title (Some RED) ui)))"

definition console_session_completed ::
  "rounding \<Rightarrow> suite_results list \<Rightarrow> 'z screen_scheme \<Rightarrow> 'z screen_scheme" where
  "console_session_completed rnd results ui =
     (case results of
        [] \<Rightarrow> ui
      | r # _ \<Rightarrow>
          (let ui1 = print_summary rnd results (print_section ''TEST SUMMARY'' (print_target_info r (line [] None ui)));
               tests = concat (map sr_tests results);
               ui2 = print_names ''Broken:'' (filter (\<lambda>t. 0 < r_broken t) tests) ui1
           in print_names ''Failures:'' (filter (\<lambda>t. 0 < r_failed t) tests) ui2))"

definition console_suite_started :: "suite \<Rightarrow> 'z screen_scheme \<Rightarrow> 'z screen_scheme" where
  "console_suite_started s = print_underline (''Suite: '' @ s_name s)"

definition console_suite_completed ::
  "rounding \<Rightarrow> suite_results \<Rightarrow> f64 \<Rightarrow> 'z screen_scheme \<Rightarrow> 'z screen_scheme" where
  "console_suite_completed rnd r exec_time ui =
     (let ui1 = line (NL @ ''Execution time: '' @ user_friendly_duration rnd exec_time @ NL) None ui
      in if 1 < co_num_suites ui then print_summary rnd [r] ui1 else ui1)"

definition console_suite_timeout :: "ui_env \<Rightarrow> suite \<Rightarrow> f64 \<Rightarrow> 'z screen_scheme \<Rightarrow> 'z screen_scheme" where
  "console_suite_timeout U s timeout =
     line (''Suite '' @ quoted (s_name s) @ '' timed out after '' @ ue_show U timeout @ '' seconds'') (Some RED)"

definition console_dry_run_command :: "string \<Rightarrow> 'z screen_scheme \<Rightarrow> 'z screen_scheme" where
  "console_dry_run_command command ui =
     line (''    '' @ command @ NL) None (line ''Command:'' (Some CYAN) ui)"

definition print_group :: "string \<Rightarrow> string list \<Rightarrow> 'z screen_scheme \<Rightarrow> 'z screen_scheme" where
  "print_group title names ui =
     line [] None
       (line (if names = [] then ''    (none)'' else name_list ''    '' names) None
         (line title (Some CYAN) ui))"

definition print_dry_suite :: "suite \<Rightarrow> 'z screen_scheme \<Rightarrow> 'z screen_scheme" where
  "print_dry_suite s ui =
     print_group ''Serial tests:'' (map t_name (filter (\<lambda>t. \<not> t_parallelizable t) (s_tests s)))
       (print_group ''Parallel tests:'' (map t_name (filter t_parallelizable (s_tests s)))
         (print_underline (''Suite: '' @ s_name s) ui))"

definition console_dry_run :: "suite list \<Rightarrow> 'z screen_scheme \<Rightarrow> 'z screen_scheme" where
  "console_dry_run suites ui =
     line (''Total tests: '' @ show_nat (sum_list (map (\<lambda>s. length (s_tests s)) suites)) @ '' (not executed)'') None
       (fold print_dry_suite suites ui)"

section \<open>Durations\<close>

text \<open>
  What the durations rely on of the rounding of \<open>f64\<close>: integers of 53 bits are exact, the relative error is
  at most \<open>2\<^sup>-\<^sup>5\<^sup>3\<close> where numbers are normal.
\<close>

definition ieee :: "rounding \<Rightarrow> bool" where
  "ieee rnd \<longleftrightarrow>
     (\<forall>k. \<bar>k\<bar> \<le> 2 ^ 53 \<longrightarrow> rnd (of_int k) = F64_Fin (of_int k)) \<and>
     (\<forall>q. 1 / 2 ^ 1000 \<le> \<bar>q\<bar> \<and> \<bar>q\<bar> \<le> 2 ^ 53 \<longrightarrow> (\<exists>r. rnd q = F64_Fin r \<and> \<bar>r - q\<bar> * 2 ^ 53 \<le> \<bar>q\<bar>))"

lemma ieee_nat: "ieee rnd \<Longrightarrow> n \<le> 2 ^ 53 \<Longrightarrow> rnd (of_nat n) = F64_Fin (of_nat n)"
  unfolding ieee_def
  by (metis abs_of_nat of_int_of_nat_eq of_nat_le_iff of_nat_numeral of_nat_power)

lemma half_even_int: "half_even (of_int k) = k"
  by (simp add: half_even_def)

lemma fixed_int:
  "fixed k (F64_Fin (of_nat n)) = show_nat n @ (if k = 0 then [] else ''.'' @ pad_zeros k (show_nat 0))"
proof -
  have "(of_nat n :: rat) * 10 ^ k = of_int (int (n * 10 ^ k))" by simp
  then have "nat (half_even (\<bar>of_nat n\<bar> * 10 ^ k)) = n * 10 ^ k" by (simp only: abs_of_nat half_even_int nat_int)
  then show ?thesis by (simp add: Let_def)
qed

lemma fixed_nat:
  "fixed 0 (F64_Fin (of_nat n)) = show_nat n"
  "fixed 3 (F64_Fin (of_nat n)) = show_nat n @ ''.000''"
proof -
  have "pad_zeros 3 (show_nat 0) = ''000''" by code_simp
  then show "fixed 0 (F64_Fin (of_nat n)) = show_nat n" "fixed 3 (F64_Fin (of_nat n)) = show_nat n @ ''.000''"
    unfolding fixed_int by simp_all
qed

lemma duration_of_parts:
  assumes "0 < n" and "f64_floor (f64_times rnd (1 / 60) (F64_Fin (of_nat n))) = F64_Fin (of_nat a)"
    and "f64_add rnd (F64_Fin (of_nat n)) (f64_neg (f64_times rnd 60 (F64_Fin (of_nat a)))) = F64_Fin (of_nat b)"
    and "f64_floor (f64_times rnd (1 / 60) (F64_Fin (of_nat a))) = F64_Fin (of_nat h)"
    and "f64_add rnd (F64_Fin (of_nat a)) (f64_neg (f64_times rnd 60 (F64_Fin (of_nat h)))) = F64_Fin (of_nat m)"
  shows "user_friendly_duration rnd (F64_Fin (of_nat n)) =
    (if 0 < h then show_nat h @ ''h '' @ show_nat m @ ''m '' @ show_nat b @ ''s''
     else if 0 < m then show_nat m @ ''m '' @ show_nat b @ ''s''
     else show_nat b @ ''.000s'')"
proof -
  have "\<not> f64_eq (F64_Fin (of_nat n)) f64_zero" using assms(1) by simp
  then show ?thesis
    by (simp only: user_friendly_duration_def Let_def assms(2-) fixed_nat f64_lt.simps of_nat_0_less_iff if_False
        append_assoc append_Cons append_Nil)
qed

lemma scaled_less:
  fixes y :: rat
  assumes "y * c \<le> x" and "x * 60 < c" and "0 < c"
  shows "y * 60 < 1"
proof -
  have "(y * 60) * c = (y * c) * 60" by simp
  also have "\<dots> \<le> x * 60" using assms(1) by simp
  finally show ?thesis using assms(2,3) by (metis mult_less_cancel_right_pos mult_1 order_le_less_trans)
qed

lemma near_quotient:
  fixes r q :: rat
  assumes "\<bar>r - q\<bar> * 60 < 1" and "q = a + m / 60" and "1 \<le> m" and "m \<le> 59"
  shows "a \<le> r \<and> r < a + 1"
proof -
  have "\<bar>r - q\<bar> < 1 / 60" using assms(1) by simp
  then have "q - 1 / 60 < r" "r < q + 1 / 60" by linarith+
  then show ?thesis using assms(2-4) by linarith
qed

lemma floor_sixtieth:
  assumes rnd: "ieee rnd" and n: "n < 2 ^ 53"
  shows "f64_floor (f64_times rnd (1 / 60) (F64_Fin (of_nat n))) = F64_Fin (of_nat (n div 60))"
proof (cases "n mod 60 = 0")
  case True
  then have "n = n div 60 * 60" by (metis add.right_neutral div_mult_mod_eq)
  then have "(of_nat n :: rat) = of_nat (n div 60) * 60" by (metis of_nat_mult of_nat_numeral)
  then have "(of_nat n :: rat) * (1 / 60) = of_nat (n div 60)" by simp
  then show ?thesis using ieee_nat [OF rnd, of "n div 60"] n by simp
next
  case False
  let ?q = "(of_nat n :: rat) * (1 / 60)"
  have split: "?q = of_nat (n div 60) + of_nat (n mod 60) / 60"
  proof -
    have "(of_nat n :: rat) = of_nat (n div 60) * 60 + of_nat (n mod 60)"
      by (metis div_mult_mod_eq of_nat_add of_nat_mult of_nat_numeral)
    then show ?thesis by simp
  qed
  have "0 < n" using False by (cases n) auto
  then have big: "1 / 2 ^ 1000 \<le> \<bar>?q\<bar>" "\<bar>?q\<bar> \<le> 2 ^ 53" "\<bar>?q\<bar> * 60 < 2 ^ 53" using n by simp_all
  then obtain r where r: "rnd ?q = F64_Fin r" "\<bar>r - ?q\<bar> * 2 ^ 53 \<le> \<bar>?q\<bar>" using rnd unfolding ieee_def by blast
  have near: "\<bar>r - ?q\<bar> * 60 < 1" by (rule scaled_less [OF r(2) big(3)]) simp
  have "1 \<le> (of_nat (n mod 60) :: rat)" "(of_nat (n mod 60) :: rat) \<le> 59" using False by simp_all
  from near_quotient [OF near split this] have "\<lfloor>r\<rfloor> = int (n div 60)" by (intro floor_unique) simp_all
  then show ?thesis using r(1) by simp
qed

text \<open>
  A whole number of seconds below \<open>2\<^sup>5\<^sup>3\<close> is printed as its hours, minutes and seconds, without the
  parts that lead with nothing, and with three decimals below a minute.
\<close>

theorem duration_is_split:
  assumes "ieee rnd" and "n < 2 ^ 53"
  shows "user_friendly_duration rnd (F64_Fin (of_nat n)) =
    (if n = 0 then ''0h 0m 0s''
     else if 3600 \<le> n
     then show_nat (n div 3600) @ ''h '' @ show_nat (n div 60 mod 60) @ ''m '' @ show_nat (n mod 60) @ ''s''
     else if 60 \<le> n then show_nat (n div 60) @ ''m '' @ show_nat (n mod 60) @ ''s''
     else show_nat n @ ''.000s'')"
proof (cases "n = 0")
  case False
  have minus: "f64_add rnd (F64_Fin (of_nat m)) (f64_neg (f64_times rnd 60 (F64_Fin (of_nat (m div 60))))) =
      F64_Fin (of_nat (m mod 60))" if m: "m \<le> n" for m
  proof -
    have "m div 60 * 60 \<le> 2 ^ 53" using m assms(2) by simp
    from ieee_nat [OF assms(1) this] have "rnd (of_nat (m div 60) * 60) = F64_Fin (of_nat (m div 60) * 60)" by simp
    moreover have "(of_nat m :: rat) - of_nat (m div 60) * 60 = of_nat (m mod 60)"
      by (metis add_diff_cancel_left' div_mult_mod_eq of_nat_add of_nat_mult of_nat_numeral)
    moreover have "rnd (of_nat (m mod 60)) = F64_Fin (of_nat (m mod 60))"
      by (rule ieee_nat [OF assms(1)]) (rule order_trans [of _ m], use m assms(2) in simp_all)
    ultimately show ?thesis by simp
  qed
  have hours: "f64_floor (f64_times rnd (1 / 60) (F64_Fin (of_nat (n div 60)))) = F64_Fin (of_nat (n div 3600))"
    using floor_sixtieth [OF assms(1), of "n div 60"] assms(2) by (simp add: div_mult2_eq [symmetric])
  have m: "n div 60 mod 60 = n div 60" if "n < 3600" using that by simp
  have rest: "f64_add rnd (F64_Fin (of_nat (n div 60))) (f64_neg (f64_times rnd 60 (F64_Fin (of_nat (n div 3600))))) =
      F64_Fin (of_nat (n div 60 mod 60))"
  proof -
    have "n div 3600 = n div 60 div 60" by (simp add: div_mult2_eq [symmetric])
    then show ?thesis by (simp only: minus [of "n div 60", OF div_le_dividend])
  qed
  show ?thesis
    unfolding duration_of_parts [OF False [unfolded neq0_conv] floor_sixtieth [OF assms] minus [OF order_refl] hours rest]
    using False m by (auto simp: div_greater_zero_iff)
qed (simp add: user_friendly_duration_def)

text \<open>Seconds are rounded after minutes are taken off: sixty of them can be shown.\<close>

lemma sixty_seconds_shown:
  "user_friendly_duration F64_Fin (F64_Fin (1197 / 10)) = ''1m 60s''"
  "user_friendly_duration F64_Fin (F64_Fin (599999 / 10000)) = ''60.000s''"
proof -
  have floors: "\<lfloor>1197 / 600 :: rat\<rfloor> = 1" "\<lfloor>1 / 60 :: rat\<rfloor> = 0" "\<lfloor>597 / 10 :: rat\<rfloor> = 59"
    "\<lfloor>599999 / 600000 :: rat\<rfloor> = 0" "\<lfloor>599999 / 10 :: rat\<rfloor> = 59999"
    by (simp_all add: floor_eq_iff)
  have texts: "show_nat 1 = ''1''" "show_nat 60 = ''60''" "pad_zeros 3 (show_nat 0) = ''000''" by code_simp+
  show "user_friendly_duration F64_Fin (F64_Fin (1197 / 10)) = ''1m 60s''"
    using floors texts(1,2) by (simp add: user_friendly_duration_def half_even_def Let_def del: show_nat.simps)
  show "user_friendly_duration F64_Fin (F64_Fin (599999 / 10000)) = ''60.000s''"
    using floors texts by (simp add: user_friendly_duration_def half_even_def Let_def del: show_nat.simps)
qed

theorem duration_is_split_witness: "user_friendly_duration F64_Fin (F64_Fin 3725) = ''1h 2m 5s''"
proof -
  have "ieee F64_Fin" by (simp add: ieee_def)
  moreover have "show_nat 1 = ''1''" "show_nat 2 = ''2''" "show_nat 5 = ''5''" by code_simp+
  ultimately show ?thesis using duration_is_split [of F64_Fin 3725] by (simp del: show_nat.simps)
qed

section \<open>Colours\<close>

definition COLORS :: "string set" where "COLORS = {WHITE, GREEN, YELLOW, RED, CYAN}"

text \<open>A chunk and the same chunk with its text in a colour.\<close>

definition recoloured :: "string \<Rightarrow> string \<Rightarrow> bool" where
  "recoloured plain coloured \<longleftrightarrow>
     coloured = plain \<or> (\<exists>c\<in>COLORS. \<exists>t ending. plain = t @ ending \<and> coloured = c @ t @ RESET_COLOR @ ending)"

definition same_screen :: "'z screen_scheme \<Rightarrow> 'z screen_scheme \<Rightarrow> bool" where
  "same_screen p q \<longleftrightarrow>
     co_no_colors p \<and> \<not> co_no_colors q \<and> co_num_suites p = co_num_suites q \<and> screen.more p = screen.more q \<and>
     list_all2 recoloured (co_out p) (co_out q)"

named_theorems same_intros

lemma colors_in [simp]: "WHITE \<in> COLORS" "GREEN \<in> COLORS" "YELLOW \<in> COLORS" "RED \<in> COLORS" "CYAN \<in> COLORS"
  "snd (result_color r) \<in> COLORS"
  by (simp_all add: COLORS_def result_color_def)

lemma same_styled [same_intros]:
  assumes "same_screen p q" and "set_option color \<subseteq> COLORS"
  shows "same_screen (styled msg color ending p) (styled msg color ending q)"
proof -
  have "recoloured (t @ ending) (c @ t @ RESET_COLOR @ ending)" if "c \<in> COLORS" for c t
    using that unfolding recoloured_def by blast
  moreover have "recoloured t t" for t by (simp add: recoloured_def)
  ultimately show ?thesis using assms
    by (cases color) (auto simp: same_screen_def styled_def print_message_def intro!: list_all2_appendI)
qed

lemma same_line [same_intros]:
  "same_screen p q \<Longrightarrow> set_option color \<subseteq> COLORS \<Longrightarrow> same_screen (line msg color p) (line msg color q)"
  unfolding line_def by (rule same_styled)

lemma same_num_suites: "same_screen p q \<Longrightarrow> co_num_suites p = co_num_suites q"
  by (simp add: same_screen_def)

lemma same_suites_set [same_intros]:
  "same_screen p q \<Longrightarrow> same_screen (p\<lparr>co_num_suites := n\<rparr>) (q\<lparr>co_num_suites := n\<rparr>)"
  by (simp add: same_screen_def)

lemmas console_defs = print_underline_def print_section_def print_target_info_def print_summary_def
  console_session_restore_def console_session_started_def console_session_stopped_def console_sut_start_def
  console_sut_stop_def console_sut_restart_def console_run_cmd_start_def console_run_cmd_stdout_def
  console_run_cmd_stop_def console_session_warning_def console_session_error_def print_names_def
  console_suite_started_def console_suite_completed_def console_suite_timeout_def console_dry_run_command_def
  print_group_def print_dry_suite_def

lemma same_fold: "same_screen p q \<Longrightarrow> (\<And>x p q. same_screen p q \<Longrightarrow> same_screen (f x p) (f x q)) \<Longrightarrow>
  same_screen (fold f xs p) (fold f xs q)"
  by (induction xs arbitrary: p q) auto

lemma same_parts [same_intros]:
  assumes "same_screen p q"
  shows "same_screen (print_target_info r p) (print_target_info r q)"
    and "same_screen (print_section msg p) (print_section msg q)"
    and "same_screen (print_summary rnd rs p) (print_summary rnd rs q)"
    and "same_screen (print_names msg ts p) (print_names msg ts q)"
    and "same_screen (print_dry_suite suite1 p) (print_dry_suite suite1 q)"
  using assms by (auto simp: console_defs Let_def intro!: same_intros)

lemma same_completed [same_intros]:
  "same_screen p q \<Longrightarrow> same_screen (console_session_completed rnd rs p) (console_session_completed rnd rs q)"
  unfolding console_session_completed_def Let_def
  by (cases rs) (simp_all add: same_intros)

lemma same_dry_run [same_intros]:
  "same_screen p q \<Longrightarrow> same_screen (console_dry_run ss p) (console_dry_run ss q)"
  unfolding console_dry_run_def
  by (intro same_intros same_fold) simp_all

end
