(* ===== verification/Ui_Modes.thy ===== *)
theory Ui_Modes
  imports Ui_Console
begin

text \<open>
  Crate \<open>kirk-support\<close>, \<open>ui.rs\<close>: the simple, the verbose and the parallel interface, and the handlers that
  are attached for the events. A handler ignores payloads of another shape; \<open>None\<close> is an event
  that is ignored or has no handler.
\<close>

section \<open>Events of the console\<close>

type_synonym 'u ui_call = "string \<Rightarrow> event_payload \<Rightarrow> ('u \<Rightarrow> 'u) option"

definition session_call :: "ui_env \<Rightarrow> 'z screen_scheme ui_call" where
  "session_call U name payload =
     (if name = ''session_restore'' then map_option console_session_restore (as_text payload)
      else if name = ''session_started''
      then (case payload of P_SessionStarted n tmpdir \<Rightarrow> Some (console_session_started U n tmpdir) | _ \<Rightarrow> None)
      else if name = ''session_stopped'' then Some console_session_stopped
      else if name = ''sut_start'' then map_option console_sut_start (as_text payload)
      else if name = ''sut_stop'' then map_option console_sut_stop (as_text payload)
      else if name = ''sut_restart'' then map_option console_sut_restart (as_text payload)
      else if name = ''session_warning'' then map_option console_session_warning (as_text payload)
      else if name = ''session_error'' then map_option console_session_error (as_text payload)
      else if name = ''session_dry_run_command'' then map_option console_dry_run_command (as_text payload)
      else if name = ''session_dry_run''
      then (case payload of P_Suites ss \<Rightarrow> Some (console_dry_run ss) | _ \<Rightarrow> None)
      else if name = ''session_completed''
      then (case payload of P_SessionCompleted rs \<Rightarrow> Some (console_session_completed (ue_rnd U) rs) | _ \<Rightarrow> None)
      else None)"

definition command_call :: "'z screen_scheme ui_call" where
  "command_call name payload =
     (if name = ''run_cmd_start'' then map_option console_run_cmd_start (as_text payload)
      else if name = ''run_cmd_stdout'' then map_option console_run_cmd_stdout (as_text payload)
      else if name = ''run_cmd_stop''
      then (case payload of P_RunCmdStop _ _ rc \<Rightarrow> Some (console_run_cmd_stop rc) | _ \<Rightarrow> None)
      else None)"

definition suite_call :: "ui_env \<Rightarrow> 'z screen_scheme ui_call" where
  "suite_call U name payload =
     (if name = ''suite_started'' then (case payload of P_Suite s \<Rightarrow> Some (console_suite_started s) | _ \<Rightarrow> None)
      else if name = ''suite_completed''
      then (case payload of P_SuiteCompleted r t \<Rightarrow> Some (console_suite_completed (ue_rnd U) r t) | _ \<Rightarrow> None)
      else if name = ''suite_timeout''
      then (case payload of P_SuiteTimeout s t \<Rightarrow> Some (console_suite_timeout U s t) | _ \<Rightarrow> None)
      else None)"

definition SESSION_EVENTS :: "string list" where
  "SESSION_EVENTS =
     [''session_restore'', ''session_started'', ''session_stopped'', ''sut_start'', ''sut_stop'', ''sut_restart'',
      ''session_warning'', ''session_error'', ''session_dry_run_command'', ''session_dry_run'', ''session_completed'']"

definition COMMAND_EVENTS :: "string list" where
  "COMMAND_EVENTS = [''run_cmd_start'', ''run_cmd_stdout'', ''run_cmd_stop'']"

definition SUITE_EVENTS :: "string list" where
  "SUITE_EVENTS = [''suite_started'', ''suite_completed'', ''suite_timeout'']"

text \<open>\<open>ids\<close> gives the pointer of the handler made for each event name.\<close>

definition attach_names :: "string list \<Rightarrow> (string \<Rightarrow> handler) \<Rightarrow> registry \<Rightarrow> unit result \<times> registry" where
  "attach_names names ids r = try_fold (\<lambda>r name. register name (ids name) False r) names r"

definition attach_console :: "(string \<Rightarrow> handler) \<Rightarrow> registry \<Rightarrow> unit result \<times> registry" where
  "attach_console ids r =
     try_fold (\<lambda>r names. attach_names names ids r) [SESSION_EVENTS, COMMAND_EVENTS, SUITE_EVENTS] r"

section \<open>The simple interface\<close>

record simple_ui = screen +
  si_not_responding :: bool
  si_panic :: bool
  si_tainted :: "string option"
  si_timed_out :: bool

definition simple_new :: "bool \<Rightarrow> simple_ui" where
  "simple_new no_colors =
     \<lparr> co_no_colors = no_colors, co_num_suites = 1, co_out = [], si_not_responding = False, si_panic = False,
       si_tainted = None, si_timed_out = False \<rparr>"

definition simple_not_responding :: "simple_ui \<Rightarrow> simple_ui" where
  "simple_not_responding ui = line ''SUT not responding'' (Some RED) (ui\<lparr>si_not_responding := True\<rparr>)"

definition simple_kernel_panic :: "simple_ui \<Rightarrow> simple_ui" where
  "simple_kernel_panic ui = line ''kernel panic'' (Some RED) (ui\<lparr>si_panic := True\<rparr>)"

definition simple_kernel_tainted :: "string \<Rightarrow> simple_ui \<Rightarrow> simple_ui" where
  "simple_kernel_tainted message ui = ui\<lparr>si_tainted := Some message\<rparr>"

definition simple_timed_out :: "simple_ui \<Rightarrow> simple_ui" where
  "simple_timed_out ui = line ''timed out'' (Some RED) (ui\<lparr>si_timed_out := True\<rparr>)"

definition simple_test_started :: "test \<Rightarrow> simple_ui \<Rightarrow> simple_ui" where
  "simple_test_started t = styled (t_name t @ '': '') (Some WHITE) []"

text \<open>The verdict of a test, a note when the kernel is tainted, and the duration.\<close>

definition print_verdict :: "rounding \<Rightarrow> test_results \<Rightarrow> bool \<Rightarrow> 'z screen_scheme \<Rightarrow> 'z screen_scheme" where
  "print_verdict rnd r tainted ui =
     (case result_color r of
        (msg, color) \<Rightarrow>
          (let ui1 = styled msg (Some color) [] ui;
               ui2 = (if tainted then styled ''tainted'' (Some YELLOW) [] (styled '' | '' None [] ui1) else ui1)
           in line (''  ('' @ user_friendly_duration rnd (r_exec_time r) @ '')'') None ui2))"

definition simple_test_completed :: "rounding \<Rightarrow> test_results \<Rightarrow> simple_ui \<Rightarrow> simple_ui" where
  "simple_test_completed rnd r ui =
     (if si_timed_out ui \<or> si_not_responding ui \<or> si_panic ui
      then ui\<lparr>si_not_responding := False, si_panic := False, si_timed_out := False\<rparr>
      else print_verdict rnd r (si_tainted ui \<noteq> None) (ui\<lparr>si_tainted := None\<rparr>))"

definition SIMPLE_EVENTS :: "string list" where
  "SIMPLE_EVENTS =
     [''sut_not_responding'', ''kernel_panic'', ''kernel_tainted'', ''test_timed_out'', ''test_started'',
      ''test_completed'']"

definition simple_call :: "ui_env \<Rightarrow> simple_ui ui_call" where
  "simple_call U name payload =
     (if name = ''sut_not_responding'' then Some simple_not_responding
      else if name = ''kernel_panic'' then Some simple_kernel_panic
      else if name = ''kernel_tainted'' then map_option simple_kernel_tainted (as_text payload)
      else if name = ''test_timed_out''
      then (case payload of P_TestTimedOut _ _ \<Rightarrow> Some simple_timed_out | _ \<Rightarrow> None)
      else if name = ''test_started''
      then (case payload of P_Test t \<Rightarrow> Some (simple_test_started t) | _ \<Rightarrow> None)
      else if name = ''test_completed''
      then (case payload of P_TestResults r \<Rightarrow> Some (simple_test_completed (ue_rnd U) r) | _ \<Rightarrow> None)
      else None)"

definition attach_simple :: "(string \<Rightarrow> handler) \<Rightarrow> registry \<Rightarrow> unit result \<times> registry" where
  "attach_simple ids r = attach_names SIMPLE_EVENTS ids r"

section \<open>The verbose interface\<close>

record verbose_ui = screen +
  ve_timed_out :: bool

definition verbose_new :: "bool \<Rightarrow> verbose_ui" where
  "verbose_new no_colors =
     \<lparr> co_no_colors = no_colors, co_num_suites = 1, co_out = [], ve_timed_out = False \<rparr>"

definition verbose_stdout :: "string \<Rightarrow> verbose_ui \<Rightarrow> verbose_ui" where
  "verbose_stdout txt = styled txt None []"

definition verbose_kernel_tainted :: "string \<Rightarrow> verbose_ui \<Rightarrow> verbose_ui" where
  "verbose_kernel_tainted message = line (''Tainted kernel: '' @ message) (Some YELLOW)"

definition verbose_test_started :: "test \<Rightarrow> verbose_ui \<Rightarrow> verbose_ui" where
  "verbose_test_started t ui =
     styled (full_command t) None (NL @ NL) (styled ''Executing: '' None [] (print_section (t_name t) ui))"

definition verbose_timed_out :: "verbose_ui \<Rightarrow> verbose_ui" where
  "verbose_timed_out ui = ui\<lparr>ve_timed_out := True\<rparr>"

definition verbose_test_completed :: "rounding \<Rightarrow> test_results \<Rightarrow> verbose_ui \<Rightarrow> verbose_ui" where
  "verbose_test_completed rnd r ui =
     (let ui1 = (if ve_timed_out ui then line ''Test timed out'' (Some RED) ui else ui);
          ui2 = ui1\<lparr>ve_timed_out := False\<rparr>;
          parts = (if contains (r_stdout r) ''Summary:'' then []
                   else [NL @ ''Summary:'', ''passed    '' @ show_u32 (r_passed r), ''failed    '' @ show_u32 (r_failed r),
                         ''broken    '' @ show_u32 (r_broken r), ''skipped   '' @ show_u32 (r_skipped r),
                         ''warnings  '' @ show_u32 (r_warnings r)])
      in line (join NL (parts @ [NL @ ''Duration: '' @ user_friendly_duration rnd (r_exec_time r) @ NL])) None ui2)"

definition VERBOSE_EVENTS :: "string list" where
  "VERBOSE_EVENTS =
     [''sut_stdout'', ''kernel_tainted'', ''test_stdout'', ''test_timed_out'', ''test_started'', ''test_completed'']"

definition verbose_call :: "ui_env \<Rightarrow> verbose_ui ui_call" where
  "verbose_call U name payload =
     (if name = ''sut_stdout'' then (case payload of P_SutStdout _ txt \<Rightarrow> Some (verbose_stdout txt) | _ \<Rightarrow> None)
      else if name = ''kernel_tainted'' then map_option verbose_kernel_tainted (as_text payload)
      else if name = ''test_stdout'' then (case payload of P_TestStdout _ txt \<Rightarrow> Some (verbose_stdout txt) | _ \<Rightarrow> None)
      else if name = ''test_timed_out'' then Some verbose_timed_out
      else if name = ''test_started''
      then (case payload of P_Test t \<Rightarrow> Some (verbose_test_started t) | _ \<Rightarrow> None)
      else if name = ''test_completed''
      then (case payload of P_TestResults r \<Rightarrow> Some (verbose_test_completed (ue_rnd U) r) | _ \<Rightarrow> None)
      else None)"

definition attach_verbose :: "(string \<Rightarrow> handler) \<Rightarrow> registry \<Rightarrow> unit result \<times> registry" where
  "attach_verbose ids r = attach_names VERBOSE_EVENTS ids r"

section \<open>The parallel interface\<close>

record parallel_ui = screen +
  pa_not_responding :: bool
  pa_panic :: bool
  pa_tainted :: "string option"
  pa_timed_out :: bool
  pa_total :: nat
  pa_finished :: nat

definition parallel_new :: "bool \<Rightarrow> parallel_ui" where
  "parallel_new no_colors =
     \<lparr> co_no_colors = no_colors, co_num_suites = 1, co_out = [], pa_not_responding = False, pa_panic = False,
       pa_tainted = None, pa_timed_out = False, pa_total = 0, pa_finished = 0 \<rparr>"

definition parallel_not_responding :: "parallel_ui \<Rightarrow> parallel_ui" where
  "parallel_not_responding ui = ui\<lparr>pa_not_responding := True\<rparr>"

definition parallel_kernel_panic :: "parallel_ui \<Rightarrow> parallel_ui" where
  "parallel_kernel_panic ui = ui\<lparr>pa_panic := True\<rparr>"

definition parallel_kernel_tainted :: "string \<Rightarrow> parallel_ui \<Rightarrow> parallel_ui" where
  "parallel_kernel_tainted message ui = ui\<lparr>pa_tainted := Some message\<rparr>"

definition parallel_timed_out :: "parallel_ui \<Rightarrow> parallel_ui" where
  "parallel_timed_out ui = ui\<lparr>pa_timed_out := True\<rparr>"

definition print_parallel :: "suite \<Rightarrow> parallel_ui \<Rightarrow> parallel_ui" where
  "print_parallel s ui =
     (let names = map t_name (filter t_parallelizable (s_tests s))
      in if names = [] then ui
         else styled (name_list (bullet @ '' '') names) None (NL @ NL)
                (line ''Following tests will run in parallel:'' None (ui\<lparr>pa_total := pa_total ui + length names\<rparr>)))"

definition parallel_test_completed :: "rounding \<Rightarrow> test_results \<Rightarrow> parallel_ui \<Rightarrow> parallel_ui" where
  "parallel_test_completed rnd r ui =
     (let par = t_parallelizable (r_test r);
          ui1 = (if par then ui\<lparr>pa_finished := pa_finished ui + 1\<rparr> else ui);
          before = t_name (r_test r) @
            (if par then '' ('' @ show_nat (pa_finished ui1) @ ''/'' @ show_nat (pa_total ui1) @ '')'' else []) @ '': '';
          ui2 = styled before None []
            (ui1\<lparr>pa_not_responding := False, pa_panic := False, pa_tainted := None, pa_timed_out := False\<rparr>)
      in if pa_timed_out ui then line ''timed out'' (Some RED) ui2
         else if pa_not_responding ui then line ''SUT not responding'' (Some RED) ui2
         else if pa_panic ui then line ''kernel panic'' (Some RED) ui2
         else print_verdict rnd r (pa_tainted ui \<noteq> None) ui2)"

definition PARALLEL_EVENTS :: "string list" where
  "PARALLEL_EVENTS =
     [''sut_not_responding'', ''kernel_panic'', ''kernel_tainted'', ''suite_started'', ''test_timed_out'',
      ''test_completed'']"

definition parallel_call :: "ui_env \<Rightarrow> parallel_ui ui_call" where
  "parallel_call U name payload =
     (if name = ''sut_not_responding'' then Some parallel_not_responding
      else if name = ''kernel_panic'' then Some parallel_kernel_panic
      else if name = ''kernel_tainted'' then map_option parallel_kernel_tainted (as_text payload)
      else if name = ''suite_started'' then (case payload of P_Suite s \<Rightarrow> Some (print_parallel s) | _ \<Rightarrow> None)
      else if name = ''test_timed_out'' then Some parallel_timed_out
      else if name = ''test_completed''
      then (case payload of P_TestResults r \<Rightarrow> Some (parallel_test_completed (ue_rnd U) r) | _ \<Rightarrow> None)
      else None)"

definition attach_parallel :: "(string \<Rightarrow> handler) \<Rightarrow> registry \<Rightarrow> unit result \<times> registry" where
  "attach_parallel ids r = attach_names PARALLEL_EVENTS ids r"

section \<open>A terminal\<close>

text \<open>
  The calls an event causes, in the order the handlers were registered: no name has handlers in
  two of the console's groups; only \<open>suite_started\<close> has one of the console and one of the parallel interface,
  whose chunks may also come the other way round.
\<close>

definition on_event :: "'u ui_call list \<Rightarrow> string \<times> event_payload \<Rightarrow> 'u \<Rightarrow> 'u" where
  "on_event calls e ui = fold (\<lambda>call ui. case call (fst e) (snd e) of Some f \<Rightarrow> f ui | None \<Rightarrow> ui) calls ui"

definition on_events :: "'u ui_call list \<Rightarrow> (string \<times> event_payload) list \<Rightarrow> 'u \<Rightarrow> 'u" where
  "on_events calls es ui = fold (on_event calls) es ui"

definition console_calls :: "ui_env \<Rightarrow> 'z screen_scheme ui_call list" where
  "console_calls U = [session_call U, command_call, suite_call U]"

definition simple_calls :: "ui_env \<Rightarrow> simple_ui ui_call list" where
  "simple_calls U = console_calls U @ [simple_call U]"

definition verbose_calls :: "ui_env \<Rightarrow> verbose_ui ui_call list" where
  "verbose_calls U = console_calls U @ [verbose_call U]"

definition parallel_calls :: "ui_env \<Rightarrow> parallel_ui ui_call list" where
  "parallel_calls U = console_calls U @ [parallel_call U]"

lemma on_events_simps [simp]:
  "on_events calls [] ui = ui" "on_events calls (e # es) ui = on_events calls es (on_event calls e ui)"
  "on_events calls (es @ fs) ui = on_events calls fs (on_events calls es ui)"
  by (simp_all add: on_events_def)

section \<open>Attaching\<close>

lemma try_fold_Ok: "fst (f s x) = Ok () \<Longrightarrow> try_fold f (x # xs) s = try_fold f xs (snd (f s x))"
  by (cases "f s x") simp

lemma attach_names_Ok:
  assumes "[] \<notin> set names"
  shows "fst (attach_names names ids r) = Ok () \<and>
    (\<forall>name\<in>set names. \<exists>e. rg_events (snd (attach_names names ids r)) name = Some e \<and> ids name \<in> set (ee_handlers e)) \<and>
    (\<forall>name e h. rg_events r name = Some e \<and> h \<in> set (ee_handlers e) \<longrightarrow>
       (\<exists>e'. rg_events (snd (attach_names names ids r)) name = Some e' \<and> h \<in> set (ee_handlers e')))"
  using assms unfolding attach_names_def
proof (induction names arbitrary: r)
  case (Cons n names)
  let ?r = "snd (register n (ids n) False r)"
  have n: "n \<noteq> []" using Cons.prems by auto
  then have reg: "fst (register n (ids n) False r) = Ok ()" by (simp add: register_def Let_def)
  have new: "\<exists>e. rg_events ?r n = Some e \<and> ids n \<in> set (ee_handlers e)"
    using n by (simp add: register_def Let_def)
  have old: "\<exists>e'. rg_events ?r name = Some e' \<and> h \<in> set (ee_handlers e')"
    if "rg_events r name = Some e" "h \<in> set (ee_handlers e)" for name e h
    using that n by (auto simp: register_def Let_def)
  have IH: "fst (try_fold (\<lambda>r name. register name (ids name) False r) names ?r) = Ok () \<and>
    (\<forall>name\<in>set names. \<exists>e. rg_events (snd (try_fold (\<lambda>r name. register name (ids name) False r) names ?r)) name = Some e \<and>
       ids name \<in> set (ee_handlers e)) \<and>
    (\<forall>name e h. rg_events ?r name = Some e \<and> h \<in> set (ee_handlers e) \<longrightarrow>
       (\<exists>e'. rg_events (snd (try_fold (\<lambda>r name. register name (ids name) False r) names ?r)) name = Some e' \<and>
          h \<in> set (ee_handlers e')))"
    using Cons.prems by (intro Cons.IH) simp
  have step: "try_fold (\<lambda>r name. register name (ids name) False r) (n # names) r =
      try_fold (\<lambda>r name. register name (ids name) False r) names ?r"
    using reg by (rule try_fold_Ok)
  obtain e where e: "rg_events ?r n = Some e" "ids n \<in> set (ee_handlers e)" using new by blast
  show ?case unfolding step
  proof (intro conjI ballI allI impI)
    fix name
    assume "name \<in> set (n # names)"
    then show "\<exists>e. rg_events (snd (try_fold (\<lambda>r name. register name (ids name) False r) names ?r)) name = Some e \<and>
        ids name \<in> set (ee_handlers e)"
      using IH e by (cases "name = n") auto
  next
    fix name e h
    assume "rg_events r name = Some e \<and> h \<in> set (ee_handlers e)"
    then show "\<exists>e'. rg_events (snd (try_fold (\<lambda>r name. register name (ids name) False r) names ?r)) name = Some e' \<and>
        h \<in> set (ee_handlers e')"
      using IH old by blast
  qed (use IH in blast)
qed simp

text \<open>Attaching an interface cannot fail.\<close>

lemma attach_Ok:
  "fst (attach_console ids r) = Ok ()" "fst (attach_simple ids r) = Ok ()" "fst (attach_verbose ids r) = Ok ()"
  "fst (attach_parallel ids r) = Ok ()"
proof -
  have named: "[] \<notin> set SESSION_EVENTS" "[] \<notin> set COMMAND_EVENTS" "[] \<notin> set SUITE_EVENTS" "[] \<notin> set SIMPLE_EVENTS"
    "[] \<notin> set VERBOSE_EVENTS" "[] \<notin> set PARALLEL_EVENTS"
    by (simp_all add: SESSION_EVENTS_def COMMAND_EVENTS_def SUITE_EVENTS_def SIMPLE_EVENTS_def VERBOSE_EVENTS_def
        PARALLEL_EVENTS_def)
  then have Ok: "fst (attach_names names ids r) = Ok ()"
    if "names \<in> {SESSION_EVENTS, COMMAND_EVENTS, SUITE_EVENTS, SIMPLE_EVENTS, VERBOSE_EVENTS, PARALLEL_EVENTS}" for names r
    using attach_names_Ok that by blast
  then show "fst (attach_console ids r) = Ok ()"
    unfolding attach_console_def by (simp add: try_fold_Ok del: try_fold.simps(2))
  show "fst (attach_simple ids r) = Ok ()" "fst (attach_verbose ids r) = Ok ()" "fst (attach_parallel ids r) = Ok ()"
    using Ok by (simp_all add: attach_simple_def attach_verbose_def attach_parallel_def)
qed

section \<open>Every event of a session is rendered\<close>

lemma session_call_shapes: "\<forall>n\<in>shape_names p. n \<in> set SESSION_EVENTS \<longrightarrow> session_call U n p \<noteq> None"
  by (cases p) (simp_all add: SESSION_EVENTS_def session_call_def)

lemma shaped_session_call: "shaped (n, p) \<Longrightarrow> n \<in> set SESSION_EVENTS \<Longrightarrow> session_call U n p \<noteq> None"
  unfolding shaped_def fst_conv snd_conv by (rule session_call_shapes [rule_format])

lemma command_call_shapes: "\<forall>n\<in>shape_names p. n \<in> set COMMAND_EVENTS \<longrightarrow> command_call n p \<noteq> None"
  by (cases p) (simp_all add: COMMAND_EVENTS_def command_call_def)

lemma shaped_command_call: "shaped (n, p) \<Longrightarrow> n \<in> set COMMAND_EVENTS \<Longrightarrow> command_call n p \<noteq> None"
  unfolding shaped_def fst_conv snd_conv by (rule command_call_shapes [rule_format])

lemma suite_call_shapes: "\<forall>n\<in>shape_names p. n \<in> set SUITE_EVENTS \<longrightarrow> suite_call U n p \<noteq> None"
  by (cases p) (simp_all add: SUITE_EVENTS_def suite_call_def)

lemma shaped_suite_call: "shaped (n, p) \<Longrightarrow> n \<in> set SUITE_EVENTS \<Longrightarrow> suite_call U n p \<noteq> None"
  unfolding shaped_def fst_conv snd_conv by (rule suite_call_shapes [rule_format])

lemma simple_call_shapes: "\<forall>n\<in>shape_names p. n \<in> set SIMPLE_EVENTS \<longrightarrow> simple_call U n p \<noteq> None"
  by (cases p) (simp_all add: SIMPLE_EVENTS_def simple_call_def)

lemma shaped_simple_call: "shaped (n, p) \<Longrightarrow> n \<in> set SIMPLE_EVENTS \<Longrightarrow> simple_call U n p \<noteq> None"
  unfolding shaped_def fst_conv snd_conv by (rule simple_call_shapes [rule_format])

lemma verbose_call_shapes: "\<forall>n\<in>shape_names p. n \<in> set VERBOSE_EVENTS \<longrightarrow> verbose_call U n p \<noteq> None"
  by (cases p) (simp_all add: VERBOSE_EVENTS_def verbose_call_def)

lemma shaped_verbose_call: "shaped (n, p) \<Longrightarrow> n \<in> set VERBOSE_EVENTS \<Longrightarrow> verbose_call U n p \<noteq> None"
  unfolding shaped_def fst_conv snd_conv by (rule verbose_call_shapes [rule_format])

lemma parallel_call_shapes: "\<forall>n\<in>shape_names p. n \<in> set PARALLEL_EVENTS \<longrightarrow> parallel_call U n p \<noteq> None"
  by (cases p) (simp_all add: PARALLEL_EVENTS_def parallel_call_def)

lemma shaped_parallel_call: "shaped (n, p) \<Longrightarrow> n \<in> set PARALLEL_EVENTS \<Longrightarrow> parallel_call U n p \<noteq> None"
  unfolding shaped_def fst_conv snd_conv by (rule parallel_call_shapes [rule_format])

lemma shaped_no_command_output: "shaped (n, p) \<Longrightarrow> n \<noteq> ''run_cmd_stdout''"
  by (cases p) (auto simp: shaped_def)

text \<open>
  Claim C33: no interface, simple, verbose or parallel, and not the monitor, ignores an event of a
  session it has a handler for: what is fired, up to the end or until the session is cancelled,
  carries the payload the handler takes. With more than one worker this rests on the pool to fire
  what its tasks fire, the events of the tests it is given. Two handlers are never called: no session
  fires \<open>test_timed_out\<close> or \<open>run_cmd_stdout\<close>, so the output of a command is not shown.
\<close>

theorem session_events_are_rendered:
  assumes "cf_max_workers (sx_cfg X) \<le> 1 \<or> fires_tasks (cf_par (sx_cfg X))" and "events_of s = []"
    and "e \<in> set (events_of (fut_done (session_run X opts s))) \<or>
      e \<in> set (events_of (fut_dropped (session_run X opts s) t))"
  shows "(fst e \<in> set SESSION_EVENTS \<longrightarrow> session_call U (fst e) (snd e) \<noteq> None) \<and>
    (fst e \<in> set COMMAND_EVENTS \<longrightarrow> command_call (fst e) (snd e) \<noteq> None) \<and>
    (fst e \<in> set SUITE_EVENTS \<longrightarrow> suite_call U (fst e) (snd e) \<noteq> None) \<and>
    (fst e \<in> set SIMPLE_EVENTS \<longrightarrow> simple_call U (fst e) (snd e) \<noteq> None) \<and>
    (fst e \<in> set VERBOSE_EVENTS \<longrightarrow> verbose_call U (fst e) (snd e) \<noteq> None) \<and>
    (fst e \<in> set PARALLEL_EVENTS \<longrightarrow> parallel_call U (fst e) (snd e) \<noteq> None) \<and>
    (fst e \<in> set EVENT_TYPES \<longrightarrow> attached_message J (fst e) (snd e) \<noteq> None) \<and>
    fst e \<notin> {''test_timed_out'', ''run_cmd_stdout''}"
proof -
  obtain n p where e: "e = (n, p)" by fastforce
  have "shaped (n, p)" using session_events_shaped [OF assms [folded pool_of_tasks_def]] unfolding e .
  note sh = this
  have "n \<notin> {''test_timed_out'', ''run_cmd_stdout''}"
    using shaped_not_timed_out [OF sh] shaped_no_command_output [OF sh] by simp
  then show ?thesis unfolding e fst_conv snd_conv
    using sh by (intro conjI impI shaped_session_call shaped_command_call shaped_suite_call shaped_simple_call
        shaped_verbose_call shaped_parallel_call shaped_recorded)
qed

section \<open>The simple interface on a run of tests\<close>

definition simple_quiet :: "simple_ui \<Rightarrow> bool" where
  "simple_quiet ui \<longleftrightarrow>
     co_no_colors ui \<and> \<not> si_not_responding ui \<and> \<not> si_panic ui \<and> si_tainted ui = None \<and> \<not> si_timed_out ui"

text \<open>What one test prints: its name, its verdict and the duration, on one line.\<close>

definition name_chunk :: "test \<Rightarrow> string" where
  "name_chunk t = cleaned (t_name t @ '': '')"

definition verdict_chunks :: "rounding \<Rightarrow> test_results \<Rightarrow> bool \<Rightarrow> string list" where
  "verdict_chunks rnd r tainted =
     cleaned (fst (result_color r)) # (if tainted then [cleaned '' | '', cleaned ''tainted''] else []) @
     [cleaned (''  ('' @ user_friendly_duration rnd (r_exec_time r) @ '')'') @ NL]"

lemma styled_plain [simp]:
  "co_no_colors ui \<Longrightarrow> styled msg color ending ui = ui\<lparr>co_out := co_out ui @ [cleaned msg @ ending]\<rparr>"
  by (auto simp: styled_def print_message_def split: option.split)

lemma line_plain [simp]:
  "co_no_colors ui \<Longrightarrow> line msg color ui = ui\<lparr>co_out := co_out ui @ [cleaned msg @ NL]\<rparr>"
  by (simp add: line_def)

lemma print_verdict_plain:
  "co_no_colors ui \<Longrightarrow> print_verdict rnd r tainted ui = ui\<lparr>co_out := co_out ui @ verdict_chunks rnd r tainted\<rparr>"
  by (simp add: print_verdict_def verdict_chunks_def split: prod.split)

lemmas call_defs = session_call_def command_call_def suite_call_def simple_call_def

lemma simple_started:
  "on_event (simple_calls U) (''test_started'', P_Test t) ui = simple_test_started t ui"
  by (simp add: on_event_def simple_calls_def console_calls_def call_defs)

lemma simple_completed:
  "on_event (simple_calls U) (''test_completed'', P_TestResults r) ui = simple_test_completed (ue_rnd U) r ui"
  by (simp add: on_event_def simple_calls_def console_calls_def call_defs)

definition test_events :: "test_results \<Rightarrow> (string \<times> event_payload) list" where
  "test_events r = [(''test_started'', P_Test (r_test r)), (''test_completed'', P_TestResults r)]"

lemma simple_test:
  assumes "simple_quiet ui"
  shows "on_events (simple_calls U) (test_events r) ui =
    ui\<lparr>co_out := co_out ui @ name_chunk (r_test r) # verdict_chunks (ue_rnd U) r False\<rparr>"
  using assms
  by (simp add: test_events_def simple_started simple_completed simple_test_started_def simple_test_completed_def
      simple_quiet_def print_verdict_plain name_chunk_def)

text \<open>
  Without colours the simple interface prints one line for each test of a calm run, in order:
  the name, the verdict (a failure before a skip before a broken test) and the duration.
\<close>

theorem simple_ui_shows_each_test:
  assumes "simple_quiet ui"
  shows "co_out (on_events (simple_calls U) (concat (map test_events rs)) ui) =
    co_out ui @ concat (map (\<lambda>r. name_chunk (r_test r) # verdict_chunks (ue_rnd U) r False) rs)"
  using assms
proof (induction rs arbitrary: ui)
  case (Cons r rs)
  let ?ui = "on_events (simple_calls U) (test_events r) ui"
  have "simple_quiet ?ui" using Cons.prems by (simp add: simple_test simple_quiet_def)
  from Cons.IH [OF this] show ?case by (simp add: simple_test [OF Cons.prems])
qed simp

section \<open>Kernel trouble in the simple interface\<close>

lemma kmsg_keeps_events: "keeps (\<lambda>s. sc_events s = es) (write_kmsg E test parsed)"
  unfolding write_kmsg_def Let_def on_world_def by (auto intro!: keeps_bind keeps_on_part)

lemma record_events:
  "sc_events (fut_done (record_result E t outcome r s)) = sc_events s @ (''test_completed'', P_TestResults r) #
     (case eo_status outcome of
        TS_KernelTainted \<Rightarrow> [(''kernel_tainted'', P_Text (eo_detail outcome))]
      | TS_KernelPanic \<Rightarrow> [(''kernel_panic'', P_None)]
      | TS_KernelTimeout \<Rightarrow> [(''sut_not_responding'', P_None)]
      | _ \<Rightarrow> [])"
proof -
  have kmsg: "sc_events (fut_done (write_kmsg E t (Some r) u)) = sc_events u" for u
    using kmsg_keeps_events [of "sc_events u" E t "Some r"] by (simp add: keeps_def spec_def)
  show ?thesis
    by (cases "eo_status outcome") (simp_all add: record_result_def raise_status_def fire_event_def kmsg)
qed

lemma simple_trouble:
  "on_event (simple_calls U) (''kernel_panic'', P_None) ui = simple_kernel_panic ui"
  "on_event (simple_calls U) (''sut_not_responding'', P_None) ui = simple_not_responding ui"
  "on_event (simple_calls U) (''kernel_tainted'', P_Text txt) ui = simple_kernel_tainted txt ui"
  by (simp_all add: on_event_def simple_calls_def console_calls_def call_defs)

lemma cleaned_texts: "cleaned ''kernel panic'' = ''kernel panic''" "cleaned ''SUT not responding'' = ''SUT not responding''"
  by code_simp+


section \<open>The counters of the parallel interface\<close>

lemma parallel_calls_events:
  "on_event (parallel_calls U) (''suite_started'', P_Suite s) ui = print_parallel s (console_suite_started s ui)"
  "on_event (parallel_calls U) (''test_completed'', P_TestResults r) ui = parallel_test_completed (ue_rnd U) r ui"
  by (simp_all add: on_event_def parallel_calls_def console_calls_def session_call_def command_call_def suite_call_def
      parallel_call_def)

lemma styled_counts [simp]:
  "pa_total (styled msg color ending ui) = pa_total ui" "pa_finished (styled msg color ending ui) = pa_finished ui"
  "pa_total (line msg color ui) = pa_total ui" "pa_finished (line msg color ui) = pa_finished ui"
  by (simp_all add: line_def styled_def print_message_def)

lemma parallel_counts:
  "let ui' = on_events (parallel_calls U) ((''suite_started'', P_Suite s) # map (\<lambda>r. (''test_completed'', P_TestResults r)) rs) ui
   in pa_total ui' = pa_total ui + length (filter t_parallelizable (s_tests s)) \<and>
      pa_finished ui' = pa_finished ui + length (filter (t_parallelizable \<circ> r_test) rs)"
proof -
  have one: "pa_total (parallel_test_completed rnd r ui) = pa_total ui \<and>
      pa_finished (parallel_test_completed rnd r ui) = pa_finished ui + (if t_parallelizable (r_test r) then 1 else 0)"
    for rnd r ui
    by (simp add: parallel_test_completed_def Let_def print_verdict_def split: prod.split)
  have all: "pa_total (on_events (parallel_calls U) (map (\<lambda>r. (''test_completed'', P_TestResults r)) rs) ui) = pa_total ui \<and>
      pa_finished (on_events (parallel_calls U) (map (\<lambda>r. (''test_completed'', P_TestResults r)) rs) ui) =
        pa_finished ui + length (filter (t_parallelizable \<circ> r_test) rs)" for ui
    by (induction rs arbitrary: ui) (simp_all add: parallel_calls_events one)
  have start: "pa_total (print_parallel s (console_suite_started s ui)) =
      pa_total ui + length (filter t_parallelizable (s_tests s)) \<and>
      pa_finished (print_parallel s (console_suite_started s ui)) = pa_finished ui"
    by (simp add: print_parallel_def Let_def console_suite_started_def print_underline_def filter_empty_conv)
  show ?thesis using all start by (simp add: Let_def parallel_calls_events)
qed

section \<open>Colours\<close>

definition same_call :: "'z screen_scheme ui_call \<Rightarrow> bool" where
  "same_call call \<longleftrightarrow>
     (\<forall>n x f p q. call n x = Some f \<longrightarrow> same_screen p q \<longrightarrow> same_screen (f p) (f q))"

lemma same_callI: "(\<And>n x f p q. call n x = Some f \<Longrightarrow> same_screen p q \<Longrightarrow> same_screen (f p) (f q)) \<Longrightarrow> same_call call"
  by (simp add: same_call_def)

lemma same_screen_out: "same_screen p q \<Longrightarrow> list_all2 recoloured (co_out p) (co_out q)"
  by (simp add: same_screen_def)

lemma same_on_events:
  assumes "list_all same_call calls" and "same_screen p q"
  shows "same_screen (on_events calls es p) (on_events calls es q)"
proof -
  have event: "same_screen (on_event calls e p) (on_event calls e q)" if "same_screen p q" for e p q
    using assms(1) that unfolding on_event_def
    by (induction calls arbitrary: p q) (auto simp: same_call_def split: option.split)
  show ?thesis using assms(2) event unfolding on_events_def by (induction es arbitrary: p q) auto
qed

lemma same_suite_completed [same_intros]:
  "same_screen p q \<Longrightarrow> same_screen (console_suite_completed rnd r t p) (console_suite_completed rnd r t q)"
  unfolding console_suite_completed_def Let_def
  using same_num_suites [of p q] by (auto intro!: same_intros)

lemma same_console_calls: "list_all same_call (console_calls U)"
proof -
  have "same_call (session_call U)"
    by (rule same_callI)
      (auto simp: session_call_def console_defs intro!: same_intros split: if_splits event_payload.splits)
  moreover have "same_call command_call"
    by (rule same_callI)
      (auto simp: command_call_def console_defs intro!: same_intros split: if_splits event_payload.splits)
  moreover have "same_call (suite_call U)"
    by (rule same_callI)
      (auto simp: suite_call_def console_suite_started_def print_underline_def console_suite_timeout_def
        intro!: same_intros split: if_splits event_payload.splits)
  ultimately show ?thesis by (simp add: console_calls_def)
qed

lemma same_verdict [same_intros]: "same_screen p q \<Longrightarrow> same_screen (print_verdict rnd r b p) (print_verdict rnd r b q)"
proof -
  assume "same_screen p q"
  moreover obtain msg color where "result_color r = (msg, color)" by fastforce
  moreover have "color \<in> COLORS" using colors_in(6) [of r] \<open>result_color r = (msg, color)\<close> by simp
  ultimately show ?thesis by (auto simp: print_verdict_def Let_def intro!: same_intros)
qed

lemma same_simple_state:
  fixes p q :: simple_ui
  assumes "same_screen p q"
  shows "si_not_responding p = si_not_responding q" "si_panic p = si_panic q" "si_tainted p = si_tainted q"
    "si_timed_out p = si_timed_out q"
    and "same_screen (p\<lparr>si_not_responding := a\<rparr>) (q\<lparr>si_not_responding := a\<rparr>)"
    "same_screen (p\<lparr>si_panic := a\<rparr>) (q\<lparr>si_panic := a\<rparr>)" "same_screen (p\<lparr>si_tainted := m\<rparr>) (q\<lparr>si_tainted := m\<rparr>)"
    "same_screen (p\<lparr>si_timed_out := a\<rparr>) (q\<lparr>si_timed_out := a\<rparr>)"
  using assms by (cases p; cases q; simp add: same_screen_def)+

lemma same_simple_call: "same_call (simple_call U)"
proof -
  note st = same_simple_state
  have completed: "same_screen (simple_test_completed rnd r p) (simple_test_completed rnd r q)"
    if pq: "same_screen p q" for rnd r p q
    unfolding simple_test_completed_def st(1) [OF pq] st(2) [OF pq] st(3) [OF pq] st(4) [OF pq]
    using pq by (auto intro!: same_intros st(5-))
  show ?thesis
    by (rule same_callI)
      (auto simp: simple_call_def simple_not_responding_def simple_kernel_panic_def simple_kernel_tainted_def
        simple_timed_out_def simple_test_started_def intro!: same_intros completed st(5-)
        split: if_splits event_payload.splits)
qed

lemma same_verbose_state:
  fixes p q :: verbose_ui
  assumes "same_screen p q"
  shows "ve_timed_out p = ve_timed_out q" and "same_screen (p\<lparr>ve_timed_out := a\<rparr>) (q\<lparr>ve_timed_out := a\<rparr>)"
  using assms by (cases p; cases q; simp add: same_screen_def)+

lemma same_verbose_call: "same_call (verbose_call U)"
proof -
  note st = same_verbose_state
  have completed: "same_screen (verbose_test_completed rnd r p) (verbose_test_completed rnd r q)"
    if pq: "same_screen p q" for rnd r p q
    unfolding verbose_test_completed_def Let_def st(1) [OF pq]
    using pq by (auto intro!: same_intros st(2))
  show ?thesis
    by (rule same_callI)
      (auto simp: verbose_call_def verbose_stdout_def verbose_kernel_tainted_def verbose_test_started_def
        verbose_timed_out_def intro!: same_intros completed st(2) split: if_splits event_payload.splits)
qed

lemma same_parallel_state:
  fixes p q :: parallel_ui
  assumes "same_screen p q"
  shows "pa_not_responding p = pa_not_responding q" "pa_panic p = pa_panic q" "pa_tainted p = pa_tainted q"
    "pa_timed_out p = pa_timed_out q" "pa_total p = pa_total q" "pa_finished p = pa_finished q"
    and "same_screen (p\<lparr>pa_not_responding := a\<rparr>) (q\<lparr>pa_not_responding := a\<rparr>)"
    "same_screen (p\<lparr>pa_panic := a\<rparr>) (q\<lparr>pa_panic := a\<rparr>)" "same_screen (p\<lparr>pa_tainted := m\<rparr>) (q\<lparr>pa_tainted := m\<rparr>)"
    "same_screen (p\<lparr>pa_timed_out := a\<rparr>) (q\<lparr>pa_timed_out := a\<rparr>)"
    "same_screen (p\<lparr>pa_total := n\<rparr>) (q\<lparr>pa_total := n\<rparr>)" "same_screen (p\<lparr>pa_finished := n\<rparr>) (q\<lparr>pa_finished := n\<rparr>)"
  using assms by (cases p; cases q; simp add: same_screen_def)+

lemma same_parallel_call: "same_call (parallel_call U)"
proof -
  note st = same_parallel_state
  have completed: "same_screen (parallel_test_completed rnd r p) (parallel_test_completed rnd r q)"
    if pq: "same_screen p q" for rnd r p q
  proof -
    let ?up = "\<lambda>ui. if t_parallelizable (r_test r) then ui\<lparr>pa_finished := pa_finished ui + 1\<rparr> else ui"
    have "same_screen (?up p) (?up q)" using pq st(6) [OF pq] by (simp add: st(12))
    from st(5,6) [OF this] this show ?thesis
      unfolding parallel_test_completed_def Let_def st(1) [OF pq] st(2) [OF pq] st(3) [OF pq] st(4) [OF pq]
      by (auto simp del: if_split intro!: same_intros st(7-) split: if_splits)
  qed
  have listed: "same_screen (print_parallel s p) (print_parallel s q)" if pq: "same_screen p q" for s p q
    unfolding print_parallel_def Let_def st(5) [OF pq] using pq by (auto intro!: same_intros st(7-))
  show ?thesis
    by (rule same_callI)
      (auto simp: parallel_call_def parallel_not_responding_def parallel_kernel_panic_def parallel_kernel_tainted_def
        parallel_timed_out_def intro!: same_intros completed listed st(7-) split: if_splits event_payload.splits)
qed

text \<open>
  Claim C34: colours only wrap: for the same events each interface prints the same chunks with and without
  \<open>--no-colors\<close>, up to one colour and its reset around the text of a chunk, and no colour changes what
  is printed later.
\<close>

theorem colours_only_wrap:
  "list_all2 recoloured (co_out (on_events (simple_calls U) es (simple_new True)))
     (co_out (on_events (simple_calls U) es (simple_new False))) \<and>
   list_all2 recoloured (co_out (on_events (verbose_calls U) es (verbose_new True)))
     (co_out (on_events (verbose_calls U) es (verbose_new False))) \<and>
   list_all2 recoloured (co_out (on_events (parallel_calls U) es (parallel_new True)))
     (co_out (on_events (parallel_calls U) es (parallel_new False)))"
proof -
  have "same_screen (simple_new True) (simple_new False)" "same_screen (verbose_new True) (verbose_new False)"
    "same_screen (parallel_new True) (parallel_new False)"
    by (simp_all add: same_screen_def simple_new_def verbose_new_def parallel_new_def)
  moreover have "list_all same_call (simple_calls U)" "list_all same_call (verbose_calls U)"
    "list_all same_call (parallel_calls U)"
    using same_console_calls same_simple_call same_verbose_call same_parallel_call
    by (simp_all add: simple_calls_def verbose_calls_def parallel_calls_def)
  ultimately show ?thesis by (intro conjI same_screen_out same_on_events)
qed

text \<open>
  The sequence that clears the screen is removed before carriage returns are: with one of them inside
  it comes through.
\<close>

lemma screen_is_cleared: "cleaned (ESC # ''['' @ [CHR 0x0D] @ ''2J'') = RESET_SCREEN"
  by code_simp

section \<open>Examples\<close>

definition demo_ui :: ui_env where
  "demo_ui = \<lparr> ue_hostname = None, ue_show = \<lambda>_. [], ue_rnd = F64_Fin \<rparr>"

definition demo_passed :: "string \<Rightarrow> test_results" where
  "demo_passed name = test_results_new (demo_test name)"

lemma demo_chunks:
  "name_chunk (demo_test ''a'') = ''a: ''" "name_chunk (demo_test ''b'') = ''b: ''"
  "verdict_chunks rnd (demo_passed name) False = [''pass'', ''  (0h 0m 0s)'' @ NL]"
proof -
  show "name_chunk (demo_test ''a'') = ''a: ''" "name_chunk (demo_test ''b'') = ''b: ''" by code_simp+
  have "user_friendly_duration rnd (r_exec_time (demo_passed name)) = ''0h 0m 0s''"
    by (simp add: demo_passed_def test_results_new_def user_friendly_duration_def)
  moreover have "fst (result_color (demo_passed name)) = ''pass''"
    by (simp add: demo_passed_def test_results_new_def result_color_def)
  moreover have "cleaned ''pass'' = ''pass''" "cleaned (''  ('' @ ''0h 0m 0s'' @ '')'') = ''  (0h 0m 0s)''" by code_simp+
  ultimately show "verdict_chunks rnd (demo_passed name) False = [''pass'', ''  (0h 0m 0s)'' @ NL]"
    by (simp add: verdict_chunks_def)
qed

lemma demo_quiet: "simple_quiet (simple_new True)" "co_out (simple_new True) = []"
  "r_test (demo_passed name) = demo_test name"
  by (simp_all add: simple_quiet_def simple_new_def demo_passed_def test_results_new_def)

theorem simple_ui_shows_each_test_witness:
  "\<forall>U. contents (on_events (simple_calls U) (concat (map test_events [demo_passed ''a'', demo_passed ''b''])) (simple_new True)) =
     ''a: pass  (0h 0m 0s)'' @ NL @ ''b: pass  (0h 0m 0s)'' @ NL"
  unfolding contents_def simple_ui_shows_each_test [OF demo_quiet(1)] by (simp add: demo_chunks demo_quiet)


text \<open>A session on two workers, whose pool happens to run its tests one after another.\<close>

definition two_workers :: "nat session_env" where
  "two_workers = demo_session\<lparr>sx_cfg := demo_cfg\<lparr>cf_max_workers := 2, cf_par := run_tests demo_env f64_zero\<rparr>\<rparr>"

theorem session_events_are_rendered_witness:
  "list_all (\<lambda>e. fst e \<noteq> ''run_cmd_stdout'' \<and> (fst e = ''suite_started'' \<longrightarrow> parallel_call demo_ui (fst e) (snd e) \<noteq> None))
     (events_of (fut_done (session_run two_workers (demo_options [''syscalls'']) (session_new 0))))"
  unfolding list_all_iff
proof
  fix e
  assume e: "e \<in> set (events_of (fut_done (session_run two_workers (demo_options [''syscalls'']) (session_new 0))))"
  have "fires_tasks (cf_par (sx_cfg two_workers))"
    by (simp add: two_workers_def run_tests_fires_tasks)
  then have pool: "cf_max_workers (sx_cfg two_workers) \<le> 1 \<or> fires_tasks (cf_par (sx_cfg two_workers))" ..
  have "events_of (session_new (0 :: nat)) = []"
    by (simp add: events_of_def session_new_def suite_sched_new_def sched_new_def)
  note shown = session_events_are_rendered [OF pool this disjI1 [OF e], where U = demo_ui and J = "\<lambda>_. JNull"]
  have "''suite_started'' \<in> set PARALLEL_EVENTS" by (simp add: PARALLEL_EVENTS_def)
  with shown show "fst e \<noteq> ''run_cmd_stdout'' \<and>
      (fst e = ''suite_started'' \<longrightarrow> parallel_call demo_ui (fst e) (snd e) \<noteq> None)"
    by (metis insertCI)
qed

end
