(* ===== verification/Async_File.thy ===== *)
theory Async_File
  imports Support_Files
begin

text \<open>
  Crate \<open>kirk-support\<close>, \<open>io.rs\<close>: the file handle with its read buffer, which \<open>Support_Files\<close> abstracts from.
  The handle is a \<open>BufReader\<close> over the file: reading fills the buffer and moves the place of the file, seeking
  and telling drop the buffer, writing goes to the place of the file whatever is still buffered.
\<close>

section \<open>The buffered handle\<close>

text \<open>The size of the buffer of \<open>BufReader\<close>.\<close>

definition BUF_SIZE :: nat where "BUF_SIZE = 8192"

record file_handle =
  fh_offset :: nat
  fh_buf :: string

record buf_file =
  bf_path :: string
  bf_mode :: string
  bf_handle :: "file_handle option"

record io_env = file_env +
  ie_seek_error :: "nat \<Rightarrow> string option"
  ie_tell_error :: "string option"
  ie_read_error :: "string \<Rightarrow> string option"
  ie_write_only :: string

definition handle_pos :: "file_handle \<Rightarrow> nat" where
  "handle_pos h = fh_offset h - length (fh_buf h)"

text \<open>The file of \<open>Support_Files\<close>: its place is where the next byte is read from.\<close>

definition plain_file :: "buf_file \<Rightarrow> async_file" where
  "plain_file f =
     \<lparr> af_path = bf_path f, af_mode = bf_mode f,
       af_readable = (mode_has (CHR ''r'') (bf_mode f) \<or> mode_has (CHR ''+'') (bf_mode f)),
       af_pos = map_option handle_pos (bf_handle f) \<rparr>"

definition buf_file_new :: "string \<Rightarrow> string \<Rightarrow> buf_file" where
  "buf_file_new path mode = \<lparr> bf_path = path, bf_mode = mode, bf_handle = None \<rparr>"

definition buf_open :: "'z file_env_scheme \<Rightarrow> buf_file \<Rightarrow> files \<Rightarrow> unit result \<times> buf_file \<times> files" where
  "buf_open V f fs =
     (case file_open (file_env.truncate V) (plain_file f) fs of
        (r, g, fs1) \<Rightarrow>
          (r, if bf_handle f = None \<and> af_pos g \<noteq> None then f\<lparr>bf_handle := Some \<lparr> fh_offset = 0, fh_buf = [] \<rparr>\<rparr> else f,
           fs1))"

definition buf_close :: "buf_file \<Rightarrow> buf_file" where
  "buf_close f = f\<lparr>bf_handle := None\<rparr>"

definition buf_seek :: "io_env \<Rightarrow> nat \<Rightarrow> buf_file \<Rightarrow> unit result \<times> buf_file" where
  "buf_seek V pos f =
     (case bf_handle f of
        None \<Rightarrow> (Ok (), f)
      | Some h \<Rightarrow>
          (case ie_seek_error V pos of
             Some err \<Rightarrow> (Err (SessionE (''seek failed: '' @ err)), f)
           | None \<Rightarrow> (Ok (), f\<lparr>bf_handle := Some \<lparr> fh_offset = pos, fh_buf = [] \<rparr>\<rparr>)))"

definition buf_tell :: "io_env \<Rightarrow> buf_file \<Rightarrow> nat option result \<times> buf_file" where
  "buf_tell V f =
     (case bf_handle f of
        None \<Rightarrow> (Ok None, f)
      | Some h \<Rightarrow>
          (case ie_tell_error V of
             Some err \<Rightarrow> (Err (SessionE (''tell failed: '' @ err)), f)
           | None \<Rightarrow>
               (Ok (Some (handle_pos h)), f\<lparr>bf_handle := Some \<lparr> fh_offset = handle_pos h, fh_buf = [] \<rparr>\<rparr>)))"

section \<open>Reading\<close>

definition fill :: "string \<Rightarrow> file_handle \<Rightarrow> file_handle" where
  "fill content h =
     (if fh_buf h = []
      then (let chunk = take BUF_SIZE (drop (fh_offset h) content)
            in \<lparr> fh_offset = fh_offset h + length chunk, fh_buf = chunk \<rparr>)
      else h)"

definition unread :: "string \<Rightarrow> file_handle \<Rightarrow> nat" where
  "unread content h = length (fh_buf h) + (length content - fh_offset h)"

text \<open>A read that is at least as large as the buffer, when that is empty, goes past it.\<close>

definition read_some :: "string \<Rightarrow> nat \<Rightarrow> file_handle \<Rightarrow> string \<times> file_handle" where
  "read_some content n h =
     (if fh_buf h = [] \<and> BUF_SIZE \<le> n
      then (let chunk = take n (drop (fh_offset h) content) in (chunk, h\<lparr>fh_offset := fh_offset h + length chunk\<rparr>))
      else (let h1 = fill content h in (take n (fh_buf h1), h1\<lparr>fh_buf := drop n (fh_buf h1)\<rparr>)))"

lemma read_some_length: "length (fst (read_some content n h)) \<le> n"
  by (simp add: read_some_def Let_def)

text \<open>The loop that reads until the space is full or the end is reached.\<close>

function read_up_to :: "string \<Rightarrow> nat \<Rightarrow> file_handle \<Rightarrow> string \<times> file_handle" where
  "read_up_to content n h =
     (if n = 0 then ([], h)
      else
        (case read_some content n h of
           (data, h1) \<Rightarrow>
             (if data = [] then ([], h1)
              else (case read_up_to content (n - length data) h1 of (rest, h2) \<Rightarrow> (data @ rest, h2)))))"
  by pat_completeness auto
termination by (relation "measure (\<lambda>(content, n, h). n)") auto

declare read_up_to.simps [simp del]

definition read_rest :: "string \<Rightarrow> file_handle \<Rightarrow> string \<times> file_handle" where
  "read_rest content h =
     (fh_buf h @ drop (fh_offset h) content, \<lparr> fh_offset = max (fh_offset h) (length content), fh_buf = [] \<rparr>)"

definition content_of :: "buf_file \<Rightarrow> files \<Rightarrow> string" where
  "content_of f fs = (case fs (bf_path f) of Some c \<Rightarrow> c | None \<Rightarrow> [])"

definition read_failed :: "string \<Rightarrow> kirk_error" where
  "read_failed err = SessionE (''read failed: '' @ err)"

definition buf_read_bytes :: "io_env \<Rightarrow> int \<Rightarrow> buf_file \<Rightarrow> files \<Rightarrow> string option result \<times> buf_file" where
  "buf_read_bytes V size1 f fs =
     (case bf_handle f of
        None \<Rightarrow> (Ok None, f)
      | Some h \<Rightarrow>
          (if 0 = size1 then (Ok (Some []), f)
           else if \<not> af_readable (plain_file f) then (Err (read_failed (ie_write_only V)), f)
           else
             (case ie_read_error V (bf_path f) of
                Some err \<Rightarrow> (Err (read_failed err), f)
              | None \<Rightarrow>
                  (case (if size1 < 0 then read_rest (content_of f fs) h else read_up_to (content_of f fs) (nat size1) h) of
                     (data, h1) \<Rightarrow> (Ok (Some data), f\<lparr>bf_handle := Some h1\<rparr>)))))"

definition buf_read :: "io_env \<Rightarrow> int \<Rightarrow> buf_file \<Rightarrow> files \<Rightarrow> string option result \<times> buf_file" where
  "buf_read V size1 f fs =
     (case buf_read_bytes V size1 f fs of
        (Inr (Some data), f1) \<Rightarrow>
          (case fe_decode_error V data of
             Some err \<Rightarrow> (Err (read_failed err), f1)
           | None \<Rightarrow> (Ok (Some data), f1))
      | other \<Rightarrow> other)"

text \<open>Up to and with the next newline, over as many buffers as it takes.\<close>

function line_loop :: "string \<Rightarrow> file_handle \<Rightarrow> string \<times> file_handle" where
  "line_loop content h =
     (let h1 = fill content h; part = line_of (fh_buf h1); h2 = h1\<lparr>fh_buf := drop (length part) (fh_buf h1)\<rparr>
      in if part = [] then ([], h1)
         else if last part = CHR 0x0A then (part, h2)
         else (case line_loop content h2 of (rest, h3) \<Rightarrow> (part @ rest, h3)))"
  by pat_completeness auto

termination
proof (relation "measure (\<lambda>(content, h). unread content h)")
  fix content :: string and h h1 :: file_handle and part h2
  assume h1: "h1 = fill content h" and part: "part = line_of (fh_buf h1)" "part \<noteq> []"
    and h2: "h2 = h1\<lparr>fh_buf := drop (length part) (fh_buf h1)\<rparr>"
  have "unread content h1 = unread content h"
    by (auto simp: h1 fill_def unread_def Let_def)
  moreover have "length part \<le> length (fh_buf h1)" using part(1) line_of_le by simp
  ultimately show "((content, h2), content, h) \<in> measure (\<lambda>(content, h). unread content h)"
    using part(2) by (cases part) (auto simp: unread_def h2)
qed simp

declare line_loop.simps [simp del]

definition line_failed :: "string \<Rightarrow> kirk_error" where
  "line_failed err = SessionE (''readline failed: '' @ err)"

definition buf_readline :: "io_env \<Rightarrow> buf_file \<Rightarrow> files \<Rightarrow> string option result \<times> buf_file" where
  "buf_readline V f fs =
     (case bf_handle f of
        None \<Rightarrow> (Ok None, f)
      | Some h \<Rightarrow>
          (if \<not> af_readable (plain_file f) then (Err (line_failed (ie_write_only V)), f)
           else
             (case ie_read_error V (bf_path f) of
                Some err \<Rightarrow> (Err (line_failed err), f)
              | None \<Rightarrow>
                  (case line_loop (content_of f fs) h of
                     (data, h1) \<Rightarrow>
                       (case fe_decode_error V data of
                          Some err \<Rightarrow> (Err (line_failed err), f\<lparr>bf_handle := Some h1\<rparr>)
                        | None \<Rightarrow> (Ok (Some data), f\<lparr>bf_handle := Some h1\<rparr>))))))"

section \<open>Writing\<close>

text \<open>Bytes are put at a place, past the end after zeros.\<close>

definition put_at :: "nat \<Rightarrow> string \<Rightarrow> string \<Rightarrow> string" where
  "put_at pos data content =
     (if data = [] then content
      else take pos content @ replicate (pos - length content) (CHR 0x00) @ data @ drop (pos + length data) content)"

definition buf_write :: "'z file_env_scheme \<Rightarrow> string \<Rightarrow> buf_file \<Rightarrow> files \<Rightarrow> unit result \<times> buf_file \<times> files" where
  "buf_write V data f fs =
     (case bf_handle f of
        None \<Rightarrow> (Ok (), f, fs)
      | Some h \<Rightarrow>
          (if \<not> (mode_has (CHR ''w'') (bf_mode f) \<or> mode_has (CHR ''a'') (bf_mode f) \<or> mode_has (CHR ''+'') (bf_mode f))
           then (Err (SessionE (''write failed: '' @ fe_read_only V)), f, fs)
           else
             (case fe_write_error V (bf_path f) of
                Some err \<Rightarrow> (Err (SessionE (''write failed: '' @ err)), f, fs)
              | None \<Rightarrow>
                  (let pos = (if mode_has (CHR ''a'') (bf_mode f) then length (content_of f fs) else fh_offset h)
                   in (Ok (), f\<lparr>bf_handle := Some (h\<lparr>fh_offset := pos + length data\<rparr>)\<rparr>,
                       fs(bf_path f \<mapsto> put_at pos data (content_of f fs)))))))"

section \<open>The buffer cannot be seen when reading\<close>

text \<open>What is buffered are the bytes of the file before the place it has been read to.\<close>

definition in_sync :: "string \<Rightarrow> file_handle \<Rightarrow> bool" where
  "in_sync content h \<longleftrightarrow>
     length (fh_buf h) \<le> fh_offset h \<and> fh_buf h @ drop (fh_offset h) content = drop (handle_pos h) content"

lemma in_sync_opened [simp]: "in_sync content \<lparr> fh_offset = n, fh_buf = [] \<rparr>"
  by (simp add: in_sync_def handle_pos_def)

lemma chunk_drop: "take k (drop n c) @ drop (n + min (length c - n) k) c = drop n c"
proof (cases "k \<le> length c - n")
  case True
  then show ?thesis using append_take_drop_id [of k "drop n c"] by (simp add: min_absorb2 add.commute)
next
  case False
  then show ?thesis by (simp add: min_absorb1)
qed

lemma fill_sync:
  assumes "in_sync content h"
  shows "in_sync content (fill content h)" and "handle_pos (fill content h) = handle_pos h"
    and "fh_buf (fill content h) = [] \<longleftrightarrow> drop (handle_pos h) content = []"
proof -
  show "in_sync content (fill content h)" "handle_pos (fill content h) = handle_pos h"
    using assms by (auto simp: in_sync_def handle_pos_def fill_def Let_def chunk_drop)
  show "fh_buf (fill content h) = [] \<longleftrightarrow> drop (handle_pos h) content = []"
    using assms by (auto simp: in_sync_def handle_pos_def fill_def Let_def BUF_SIZE_def)
qed

lemma consume_sync:
  assumes "in_sync content h" and "n \<le> length (fh_buf h)"
  shows "in_sync content (h\<lparr>fh_buf := drop n (fh_buf h)\<rparr>)"
    and "handle_pos (h\<lparr>fh_buf := drop n (fh_buf h)\<rparr>) = handle_pos h + n"
    and "take n (fh_buf h) = take n (drop (handle_pos h) content)"
proof -
  show pos: "handle_pos (h\<lparr>fh_buf := drop n (fh_buf h)\<rparr>) = handle_pos h + n"
    using assms by (auto simp: handle_pos_def in_sync_def)
  have "drop n (fh_buf h) @ drop (fh_offset h) content = drop n (fh_buf h @ drop (fh_offset h) content)"
    using assms(2) by simp
  also have "\<dots> = drop (handle_pos h + n) content" using assms(1) by (simp add: in_sync_def add.commute)
  finally show "in_sync content (h\<lparr>fh_buf := drop n (fh_buf h)\<rparr>)"
    unfolding in_sync_def pos using assms(1) by (auto simp: in_sync_def)
  have "fh_buf h @ drop (fh_offset h) content = drop (handle_pos h) content" using assms(1) by (simp add: in_sync_def)
  then have "take n (drop (handle_pos h) content) = take n (fh_buf h @ drop (fh_offset h) content)" by simp
  with assms(2) show "take n (fh_buf h) = take n (drop (handle_pos h) content)" by simp
qed

lemma read_some_sync:
  assumes sync: "in_sync content h" and r: "read_some content n h = (data, h1)"
  shows "in_sync content h1 \<and> handle_pos h1 = handle_pos h + length data \<and>
    data = take (length data) (drop (handle_pos h) content) \<and> (0 < n \<and> data = [] \<longrightarrow> drop (handle_pos h) content = [])"
proof (cases "fh_buf h = [] \<and> BUF_SIZE \<le> n")
  case True
  with r have "data = take n (drop (fh_offset h) content)" "h1 = h\<lparr>fh_offset := fh_offset h + length data\<rparr>"
    by (auto simp: read_some_def Let_def)
  moreover from this have "data = take (length data) (drop (fh_offset h) content)" by (simp add: min_def)
  ultimately show ?thesis using True by (auto simp: in_sync_def handle_pos_def BUF_SIZE_def)
next
  case False
  let ?g = "fill content h"
  have g: "in_sync content ?g" "handle_pos ?g = handle_pos h" "fh_buf ?g = [] \<longleftrightarrow> drop (handle_pos h) content = []"
    using fill_sync [OF sync] by simp_all
  from False r have d: "data = take n (fh_buf ?g)" "h1 = ?g\<lparr>fh_buf := drop n (fh_buf ?g)\<rparr>"
    by (auto simp: read_some_def Let_def)
  have len: "length data \<le> length (fh_buf ?g)" "drop n (fh_buf ?g) = drop (length data) (fh_buf ?g)"
    "data = take (length data) (fh_buf ?g)"
    by (auto simp: d(1) min_def)
  have "h1 = ?g\<lparr>fh_buf := drop (length data) (fh_buf ?g)\<rparr>" using d(2) len(2) by simp
  then have "in_sync content h1" "handle_pos h1 = handle_pos h + length data"
    "data = take (length data) (drop (handle_pos h) content)"
    using consume_sync [OF g(1) len(1)] len(3) g(2) by simp_all
  moreover have "0 < n \<and> data = [] \<longrightarrow> drop (handle_pos h) content = []" using g(3) d(1) by auto
  ultimately show ?thesis by blast
qed

lemma read_up_to_sync:
  assumes "in_sync content h"
  shows "case read_up_to content n h of (data, h1) \<Rightarrow>
    in_sync content h1 \<and> data = take n (drop (handle_pos h) content) \<and> handle_pos h1 = handle_pos h + length data"
  using assms
proof (induction n arbitrary: h rule: less_induct)
  case (less n)
  obtain data h1 where r: "read_some content n h = (data, h1)" by fastforce
  note one = read_some_sync [OF less.prems r]
  show ?case
  proof (cases "n = 0 \<or> data = []")
    case True
    with one r less.prems show ?thesis by (auto simp: read_up_to.simps)
  next
    case False
    obtain rest h2 where rest: "read_up_to content (n - length data) h1 = (rest, h2)" by fastforce
    from less.IH [of "n - length data" h1] one rest False have
      h2: "in_sync content h2" "rest = take (n - length data) (drop (handle_pos h1) content)"
      "handle_pos h2 = handle_pos h1 + length rest" by auto
    have len: "length data \<le> n" using read_some_length [of content n h] r by simp
    have pos: "handle_pos h1 = handle_pos h + length data" using one by blast
    have "take n (drop (handle_pos h) content) =
        take (length data) (drop (handle_pos h) content) @ take (n - length data) (drop (length data) (drop (handle_pos h) content))"
      using len by (metis le_add_diff_inverse take_add)
    also have "\<dots> = data @ rest" using one h2(2) pos by (simp add: add.commute)
    finally show ?thesis using h2 pos r rest False by (simp add: read_up_to.simps [of content n h])
  qed
qed

lemma line_of_append: "CHR 0x0A \<notin> set a \<Longrightarrow> line_of (a @ b) = a @ line_of b"
  by (induction a) auto

lemma line_of_Nil [simp]: "line_of s = [] \<longleftrightarrow> s = []"
  by (cases s) auto

lemma line_of_newline: "s \<noteq> [] \<Longrightarrow> last (line_of s) \<noteq> CHR 0x0A \<Longrightarrow> line_of s = s \<and> CHR 0x0A \<notin> set s"
  by (induction s) (auto split: if_splits)

lemma line_of_ends: "line_of s \<noteq> [] \<Longrightarrow> last (line_of s) = CHR 0x0A \<Longrightarrow> line_of (s @ t) = line_of s"
  by (induction s) (auto split: if_splits)

lemma line_loop_sync:
  assumes "in_sync content h"
  shows "case line_loop content h of (data, h1) \<Rightarrow>
    in_sync content h1 \<and> data = line_of (drop (handle_pos h) content) \<and> handle_pos h1 = handle_pos h + length data"
  using assms
proof (induction content h rule: line_loop.induct)
  case (1 content h)
  let ?g = "fill content h"
  let ?part = "line_of (fh_buf ?g)"
  let ?h2 = "?g\<lparr>fh_buf := drop (length ?part) (fh_buf ?g)\<rparr>"
  have g: "in_sync content ?g" "handle_pos ?g = handle_pos h" "fh_buf ?g = [] \<longleftrightarrow> drop (handle_pos h) content = []"
    using fill_sync [OF "1.prems"] by simp_all
  have all: "fh_buf ?g @ drop (fh_offset ?g) content = drop (handle_pos h) content"
    using g(1,2) by (simp add: in_sync_def)
  note h2 = consume_sync [OF g(1) line_of_le]
  show ?case
  proof (cases "?part = []")
    case True
    then have "fh_buf ?g = []" using line_of_nonempty by blast
    with True g show ?thesis by (simp add: line_loop.simps [of content h])
  next
    case part: False
    show ?thesis
    proof (cases "last ?part = CHR 0x0A")
      case True
      with part have "line_loop content h = (?part, ?h2)" by (simp add: line_loop.simps [of content h] Let_def)
      moreover have "line_of (drop (handle_pos h) content) = ?part"
        using line_of_ends [OF part True] unfolding all [symmetric] .
      ultimately show ?thesis using h2 g(2) by simp
    next
      case False
      obtain rest h3 where rest: "line_loop content ?h2 = (rest, h3)" by fastforce
      with part False have whole: "line_loop content h = (?part @ rest, h3)"
        by (simp add: line_loop.simps [of content h] Let_def)
      have "fh_buf ?g \<noteq> []" using part by auto
      then have buf: "?part = fh_buf ?g" "CHR 0x0A \<notin> set (fh_buf ?g)" using line_of_newline False by blast+
      from "1.IH" [OF refl refl refl part False h2(1)] rest
      have IH: "in_sync content h3" "rest = line_of (drop (handle_pos ?h2) content)" "handle_pos h3 = handle_pos ?h2 + length rest"
        by simp_all
      have "line_of (drop (handle_pos h) content) = ?part @ line_of (drop (fh_offset ?g) content)"
        unfolding all [symmetric] line_of_append [OF buf(2)] buf(1) ..
      also have "drop (fh_offset ?g) content = drop (handle_pos ?h2) content"
        using h2(1) buf(1) by (simp add: in_sync_def)
      finally show ?thesis using whole IH h2(2) g(2) by simp
    qed
  qed
qed

text \<open>
  Claim C40: reading does not show the buffer: from a handle in step with the file, \<open>read_bytes\<close> returns the
  bytes from the place \<open>tell\<close> reports, as many as asked for or up to the end, \<open>readline\<close> returns the line
  from there, the place moves by what was returned, and the handle stays in step.
\<close>

theorem reads_do_not_show_the_buffer:
  assumes open_at: "bf_handle f = Some h" and sync: "in_sync (content_of f fs) h"
    and ok: "ie_read_error V (bf_path f) = None" "af_readable (plain_file f)"
  shows "(case buf_read_bytes V n f fs of (r, f1) \<Rightarrow>
      \<exists>data. r = Ok (Some data) \<and>
        fst (buf_tell V f1) =
          (case ie_tell_error V of
             None \<Rightarrow> Ok (Some (handle_pos h + length data))
           | Some err \<Rightarrow> Err (SessionE (''tell failed: '' @ err))) \<and>
        data = (if n < 0 then drop (handle_pos h) (content_of f fs) else take (nat n) (drop (handle_pos h) (content_of f fs))) \<and>
        (\<forall>h1. bf_handle f1 = Some h1 \<longrightarrow> in_sync (content_of f fs) h1)) \<and>
    (case buf_readline V f fs of (r, f1) \<Rightarrow>
      (r, plain_file f1) = readline (file_env.truncate V) (plain_file f) fs \<and>
        (\<forall>h1. bf_handle f1 = Some h1 \<longrightarrow> in_sync (content_of f fs) h1))"
proof
  let ?c = "content_of f fs"
  show "case buf_read_bytes V n f fs of (r, f1) \<Rightarrow>
      \<exists>data. r = Ok (Some data) \<and>
        fst (buf_tell V f1) =
          (case ie_tell_error V of
             None \<Rightarrow> Ok (Some (handle_pos h + length data))
           | Some err \<Rightarrow> Err (SessionE (''tell failed: '' @ err))) \<and>
        data = (if n < 0 then drop (handle_pos h) ?c else take (nat n) (drop (handle_pos h) ?c)) \<and>
        (\<forall>h1. bf_handle f1 = Some h1 \<longrightarrow> in_sync ?c h1)"
  proof (cases "n < 0")
    case True
    have "fh_buf h @ drop (fh_offset h) ?c = drop (handle_pos h) ?c" "length (fh_buf h) \<le> fh_offset h"
      using sync by (simp_all add: in_sync_def)
    moreover from this(1) have "length (fh_buf h) + (length ?c - fh_offset h) = length ?c - handle_pos h"
      by (metis length_append length_drop)
    with calculation(2) have "max (fh_offset h) (length ?c) = handle_pos h + length (drop (handle_pos h) ?c) \<or>
        length ?c \<le> handle_pos h \<and> handle_pos h = fh_offset h"
      unfolding handle_pos_def length_drop by (cases "length ?c \<le> fh_offset h - length (fh_buf h)") (auto simp: max_def)
    ultimately show ?thesis
      using True open_at ok by (auto simp: buf_read_bytes_def read_rest_def buf_tell_def handle_pos_def max_def split: option.splits)
  next
    case False
    obtain data h1 where l: "read_up_to ?c (nat n) h = (data, h1)" by fastforce
    from read_up_to_sync [OF sync, of "nat n"] l False open_at ok sync show ?thesis
      by (auto simp: buf_read_bytes_def buf_tell_def split: option.splits)
  qed
  obtain data h1 where l: "line_loop ?c h = (data, h1)" by fastforce
  from line_loop_sync [OF sync] l have "in_sync ?c h1" "data = line_of (drop (handle_pos h) ?c)"
    "handle_pos h1 = handle_pos h + length data" by simp_all
  then show "case buf_readline V f fs of (r, f1) \<Rightarrow>
      (r, plain_file f1) = readline (file_env.truncate V) (plain_file f) fs \<and> (\<forall>h1. bf_handle f1 = Some h1 \<longrightarrow> in_sync ?c h1)"
    using open_at ok l
    by (auto simp: buf_readline_def line_failed_def readline_def plain_file_def content_of_def file_env.defs Let_def split: option.splits)
qed

section \<open>Writing and reading back\<close>

text \<open>Where the program writes, at the end of a file, this is the writing of \<open>Support_Files\<close>.\<close>

lemma write_at_end:
  assumes "bf_handle f = Some h" and "mode_has (CHR ''a'') (bf_mode f) \<or> fh_offset h = length (content_of f fs)"
  shows "(case buf_write V data f fs of (r, f1, fs1) \<Rightarrow> (r, fs1)) = file_write (file_env.truncate V) (plain_file f) data fs"
  using assms
  by (auto simp: buf_write_def file_write_def plain_file_def content_of_def put_at_def file_env.defs Let_def
      split: option.splits)

lemma written_text_reads_back:
  assumes V: "fe_open_error V path = None" "fe_write_error V path = None" "ie_seek_error V 0 = None"
      "ie_tell_error V = None" "ie_read_error V path = None" "fe_decode_error V data = None"
    and mode: "mode_has (CHR ''w'') mode" "mode_has (CHR ''+'') mode" "\<not> mode_has (CHR ''a'') mode"
  shows "\<exists>f1 fs1 f2 fs2 f3.
    buf_open V (buf_file_new path mode) fs = (Ok (), f1, fs1) \<and> buf_write V data f1 fs1 = (Ok (), f2, fs2) \<and>
    buf_seek V 0 f2 = (Ok (), f3) \<and> fst (buf_read V (- 1) f3 fs2) = Ok (Some data) \<and>
    fst (buf_tell V f2) = Ok (Some (length data))"
  using assms
  by (auto simp: buf_open_def file_open_def plain_file_def buf_file_new_def file_env.defs Let_def buf_write_def
      content_of_def buf_seek_def buf_read_def buf_read_bytes_def read_rest_def put_at_def buf_tell_def handle_pos_def)

definition demo_io :: io_env where
  "demo_io =
     \<lparr> fe_canonicalize = Inr, fe_current_dir = Inr [], fe_exists_error = \<lambda>_. None, fe_open_error = \<lambda>_. None,
       fe_write_error = \<lambda>_. None, fe_not_found = ''missing'', fe_read_only = ''read only'',
       fe_decode_error = \<lambda>_. None, ie_seek_error = \<lambda>_. None, ie_tell_error = None, ie_read_error = \<lambda>_. None,
       ie_write_only = ''write only'' \<rparr>"

definition demo_lines :: string where
  "demo_lines = ''one'' @ [CHR 0x0A] @ ''two'' @ [CHR 0x0A]"

text \<open>
  In a file opened to be read and written, what is written after a line has been read lands behind all
  that was buffered, not after the line.
\<close>

lemma write_lands_behind_the_buffer:
  "(let f = \<lparr> bf_path = ''f'', bf_mode = ''r+'', bf_handle = Some \<lparr> fh_offset = 0, fh_buf = [] \<rparr> \<rparr>;
        (r, f1) = buf_readline demo_io f [''f'' \<mapsto> demo_lines];
        (r2, f2, fs) = buf_write demo_io ''2'' f1 [''f'' \<mapsto> demo_lines]
    in (r, fst (buf_tell demo_io f1), fs ''f'')) =
   (Ok (Some (''one'' @ [CHR 0x0A])), Ok (Some 4), Some (demo_lines @ ''2''))"
proof -
  have "line_loop demo_lines \<lparr> fh_offset = 0, fh_buf = [] \<rparr> =
      (''one'' @ [CHR 0x0A], \<lparr> fh_offset = 8, fh_buf = ''two'' @ [CHR 0x0A] \<rparr>)"
    unfolding demo_lines_def by (subst line_loop.simps) (simp add: fill_def BUF_SIZE_def Let_def)
  then show ?thesis
    by (simp add: buf_readline_def plain_file_def content_of_def demo_io_def buf_tell_def handle_pos_def buf_write_def mode_has_def
        contains_char_def put_at_def demo_lines_def Let_def)
qed

theorem reads_do_not_show_the_buffer_witness:
  "\<exists>f1. buf_read_bytes demo_io 3
      \<lparr> bf_path = ''f'', bf_mode = ''r'', bf_handle = Some \<lparr> fh_offset = 1, fh_buf = [] \<rparr> \<rparr> [''f'' \<mapsto> ''abcdef''] =
     (Ok (Some ''bcd''), f1) \<and> fst (buf_tell demo_io f1) = Ok (Some 4)"
proof -
  let ?h = "\<lparr> fh_offset = 1, fh_buf = [] \<rparr>"
  let ?f = "\<lparr> bf_path = ''f'', bf_mode = ''r'', bf_handle = Some ?h \<rparr>"
  have "af_readable (plain_file ?f)" by code_simp
  moreover have "ie_read_error demo_io (bf_path ?f) = None" by (simp add: demo_io_def)
  ultimately show ?thesis
    using reads_do_not_show_the_buffer [of ?f ?h "[''f'' \<mapsto> ''abcdef'']" demo_io 3]
    by (auto simp: handle_pos_def content_of_def demo_io_def split: prod.splits)
qed

end
