(* ===== verification/Ltx_Stream.thy ===== *)
theory Ltx_Stream
  imports Ltx_Channel Io_Buffer
begin

text \<open>
  The output of a command over LTX on its way to the buffer of its caller: the request sends each
  log of its slot over a channel, a task of \<open>channel.rs\<close> writes what it receives into the buffer.
\<close>

text \<open>The task ends when the sender is gone or a write is refused; without a buffer it does nothing.\<close>

definition stdout_rx_task ::
  "(string \<Rightarrow> 'b \<Rightarrow> unit result \<times> 'b) \<Rightarrow> string list \<Rightarrow> 'b option \<Rightarrow> 'b option" where
  "stdout_rx_task put received iobuffer = map_option (\<lambda>b. snd (put_all put received b)) iobuffer"

lemma execute_state_filter:
  "state_after feed (R_Execute r) ms = state_after feed (R_Execute r) (filter (execute_frame (ex_slot r)) ms)"
proof (induction ms arbitrary: r)
  case (Cons m ms)
  show ?case
  proof (cases "execute_frame (ex_slot r) m")
    case True
    then show ?thesis using Cons.IH [of "snd (execute_feed r m)"] by simp
  next
    case False
    then show ?thesis using Cons.IH [of r] execute_ignores [of r m] by simp
  qed
qed simp

lemma state_after_append: "state_after step r (ms @ ns) = state_after step (state_after step r ms) ns"
  by (induction ms arbitrary: r) simp_all

lemma logs_keep:
  assumes "state_after feed (R_Execute r) (map (\<lambda>(t, out). log_frame slot t out) logs) = R_Execute q"
    and "ex_echoed r" and "\<not> ex_completed r" and "ex_slot r = slot"
  shows "ex_echoed q \<and> \<not> ex_completed q \<and> ex_slot q = slot"
  using assms
proof (induction logs arbitrary: r)
  case (Cons l logs)
  obtain t0 out where l: "l = (t0, out)" by fastforce
  have "ex_echoed (snd (execute_feed r (log_frame slot t0 out)))"
    and "\<not> ex_completed (snd (execute_feed r (log_frame slot t0 out)))"
    using Cons.prems(2-4)
    by (simp_all add: execute_feed_def log_feed_def log_frame_def Let_def split: sum.splits)
  then show ?case
    using Cons.IH [of "snd (execute_feed r (log_frame slot t0 out))"] Cons.prems l by simp
qed simp

text \<open>The chunks sent by the time of the answer are the logs that hold text.\<close>

lemma chunks_sent:
  assumes "\<not> ex_completed q" and "ex_stdout q = []" and "ex_stdout_tx q = Some []" and "ex_slot q = slot"
    and "filter (execute_frame slot) msgs =
       exec_echo slot # map (\<lambda>(t, out). log_frame slot t out) logs @ [result_frame slot time_ns c st]"
    and "as_i32 c = Inr si_code" and "as_i32 st = Inr si_status"
    and "sum_list (map (length \<circ> snd) logs) \<le> LTX_STDOUT_BYTES"
  shows "\<exists>q'. state_after feed (R_Execute q) msgs = R_Execute q' \<and> ex_completed q' \<and>
    ex_stdout_tx q' = Some (filter (\<lambda>t. t \<noteq> []) (map snd logs))"
proof -
  let ?q = "q\<lparr>ex_echoed := True\<rparr>"
  have echo: "execute_feed q (exec_echo slot) = (Inr None, ?q)"
    using assms(1,4) by (simp add: execute_feed_def exec_echo_def)
  have "state_after feed (R_Execute q) msgs =
      state_after feed (R_Execute ?q) (map (\<lambda>(t, out). log_frame slot t out) logs @ [result_frame slot time_ns c st])"
    using execute_state_filter [of q msgs] assms(4,5) echo by simp
  moreover obtain p where
    logs: "state_after feed (R_Execute ?q) (map (\<lambda>(t, out). log_frame slot t out) logs) = R_Execute p"
    and p: "ex_stdout_tx p = Some (filter (\<lambda>t. t \<noteq> []) (map snd logs))"
    using stream_logs [of ?q slot "[]" logs] assms by auto
  moreover have kept: "ex_echoed p \<and> \<not> ex_completed p \<and> ex_slot p = slot"
    using logs_keep [OF logs] assms by simp
  ultimately show ?thesis
    using result_step [of p c si_code st si_status time_ns] assms(6,7) by (simp add: state_after_append)
qed

text \<open>
  Claim C18: what an LTX command streams is what it returns. Whatever frames of other slots and
  requests come in between, once the own frames of the request have arrived (the echo, logs within
  the cap, the result) the task has put into the buffer of the scheduler exactly the text of the one
  reply, and an interface that listens has been told of each log with text, in order.
\<close>

theorem streamed_output_is_the_result:
  assumes "req_execute_with_stdout slot command = Inr r"
    and "filter (execute_frame slot) msgs =
       exec_echo slot # map (\<lambda>(t, out). log_frame slot t out) logs @ [result_frame slot time_ns c st]"
    and "as_i32 c = Inr si_code" and "as_i32 st = Inr si_status"
    and "sum_list (map (length \<circ> snd) logs) \<le> LTX_STDOUT_BYTES"
  shows "\<exists>q sent b out.
     state_after feed r msgs = R_Execute q \<and> ex_stdout_tx q = Some sent \<and>
     stdout_rx_task buffer_write sent (Some (streaming test, reg)) = Some b \<and>
     replies_to feed r msgs = [Reply_Execute time_ns si_code si_status out] \<and>
     snapshot b = out \<and> out = concat (map snd logs) \<and>
     rg_queue (snd b) = rg_queue reg @
       (if handlers_of reg ''test_stdout'' = [] then []
        else map (stdout_item reg test) (filter (\<lambda>t. t \<noteq> []) (map snd logs)))"
proof -
  let ?sent = "filter (\<lambda>t. t \<noteq> []) (map snd logs)"
  obtain q where r: "r = R_Execute q"
    and q: "\<not> ex_completed q" "ex_stdout q = []" "ex_stdout_tx q = Some []" "ex_slot q = slot"
    using assms(1) by (auto simp: req_execute_with_stdout_def execute_inner_def split: if_splits)
  obtain q' where q': "state_after feed r msgs = R_Execute q'" "ex_stdout_tx q' = Some ?sent"
    using chunks_sent [OF q assms(2-5)] r by blast
  obtain b where b: "put_all buffer_write ?sent (streaming test, reg) = (Inr (), b)"
    using stdout_buffer.put_all_accepts [of ?sent "(streaming test, reg)"]
    by (cases "put_all buffer_write ?sent (streaming test, reg)") simp
  have "concat ?sent = concat (map snd logs)" by (induction logs) auto
  then have whole: "snapshot b = concat (map snd logs)"
    using stdout_buffer.put_all_contents [of ?sent "(streaming test, reg)"] b
    by (simp add: snapshot_def streaming_def)
  obtain sb' reg' where "b = (sb', reg')" by fastforce
  then have "rg_queue (snd b) = rg_queue reg @
      (if handlers_of reg ''test_stdout'' = [] then [] else map (stdout_item reg test) ?sent)"
    using streamed_events [of ?sent "streaming test" reg] b by (simp add: streaming_def)
  then show ?thesis
    using q' b whole execute_gathers_its_slot [OF assms] by (auto simp: stdout_rx_task_def)
qed

text \<open>A command on slot 3 while slot 4 runs another and a ping is answered.\<close>

definition shared_frames :: "frame list" where
  "shared_frames =
     [exec_echo 3, log_frame 4 8 ''other'', log_frame 3 9 ''uid'', [op OP_PING], log_frame 3 10 [],
      log_frame 3 10 ''=0'', result_frame 4 11 (F_U64 1) (F_U64 1), result_frame 3 12 (F_U64 1) (F_I64 0)]"

definition heard :: registry where
  "heard = snd (register ''test_stdout'' 7 False registry_new)"

lemma streamed_output_is_the_result_witness:
  "\<exists>r q sent b. req_execute_with_stdout 3 ''id'' = Inr r \<and> state_after feed r shared_frames = R_Execute q \<and>
     ex_stdout_tx q = Some sent \<and>
     stdout_rx_task buffer_write sent (Some (streaming (projr (test_new ''t'' ''id'')), heard)) = Some b \<and>
     snapshot b = ''uid=0'' \<and> length (rg_queue (snd b)) = 2"
proof -
  have made: "req_execute_with_stdout 3 ''id'' = Inr (R_Execute \<lparr> ex_completed = False,
      ex_echoed = False, ex_slot = 3, ex_command = ''id'', ex_stdout_tx = Some [], ex_stdout = [] \<rparr>)"
    by (simp add: req_execute_with_stdout_def execute_inner_def)
  have own: "filter (execute_frame 3) shared_frames =
      exec_echo 3 # map (\<lambda>(t, out). log_frame 3 t out) [(9, ''uid''), (10, []), (10, ''=0'')]
      @ [result_frame 3 12 (F_U64 1) (F_I64 0)]"
    by code_simp
  have numbers: "as_i32 (F_U64 1) = Inr 1" "as_i32 (F_I64 0) = Inr 0"
    by (simp_all add: i32_of_def in_i32_def in_i64_def)
  have "handlers_of heard ''test_stdout'' = [7]" and "rg_queue heard = []"
    by (simp_all add: heard_def register_def registry_new_def handlers_of_def)
  with streamed_output_is_the_result [OF made own numbers, of "projr (test_new ''t'' ''id'')" heard] made
  show ?thesis by (auto simp: LTX_STDOUT_BYTES_def)
qed

end
