(* ===== verification/Spec2Isabelle.thy ===== *)
theory Spec2Isabelle
  imports Core_Dict Events Shell_Channel Sut Test_Sched Par_Sched Suite_Sched Ltp Session Support_Monitor Ltx_Lifecycle Ssh_Channel Qemu_Session
    Cli_Run Ui_Modes Async_File Ltx_Stream
begin

text \<open>
  A verification library for kirk, the executor of Linux test suites under \<open>src/crates\<close>.

  \<^bold>\<open>The program.\<close> A session (\<open>kirk-session\<close>) asks a framework (\<open>kirk-ltp\<close>) for suites of tests,
  selects among them and hands them to the suite scheduler, which runs each suite in rounds on the
  test scheduler (\<open>kirk-scheduler\<close>); the test scheduler runs each test as a command of the system
  under test (\<open>kirk-sut\<close>) over a communication channel (\<open>kirk-com\<close>, \<open>kirk-com-shell\<close> and others).
  What happens is announced as events (\<open>kirk-events\<close>), which the monitor and the user interface
  subscribe to, and the results are exported (\<open>kirk-support\<close>). The command line (\<open>kirk-cli\<close>) reads
  and validates the options, makes the session folder and the channels they name, wires the SUT and
  the framework to the session and turns its outcome into an exit code.

  \<^bold>\<open>How it is modelled.\<close> Structures are records, enums are datatypes, \<open>Result\<close> is a sum with the error
  on the left, machine integers are words where they are computed with. Strings are lists of bytes
  in UTF-8, floats are a NaN, an infinity or a rational with the rounding as a parameter. A
  synchronous or linear asynchronous operation is a function from state to result and state.
  Where cancellation matters (\<open>tokio::time::timeout\<close>) an operation is an action: a function from
  the state to a future with its duration, its value, the state it leaves and the state it leaves
  when it is dropped at a given time. Concurrency is a step relation. Traits the program is generic
  in, the operating system, the regular expression engine, the JSON parser and printer are
  parameters: records of functions, with the laws relied on as named predicates.

  \<^bold>\<open>Theories.\<close>
  \<^item> \<open>Prelude\<close>: results, the \<open>?\<close> operator, integer ranges. \<open>Rust_Str\<close>: the operations of \<open>str\<close> the program
    uses (trimming Unicode blanks, splitting, searching, parsing and printing numbers). \<open>Rust_F64\<close>:
    floats and timeouts. \<open>Rust_Async\<close>, \<open>Action\<close>: futures, sequencing, timeouts, and the judgements
    \<open>spec\<close> (what completion and being dropped establish) and \<open>keeps\<close> (an invariant under both).
  \<^item> \<open>Core_Types\<close>: \<open>errors.rs\<close>, \<open>data.rs\<close>, \<open>results.rs\<close> of \<open>kirk-core\<close>. \<open>Core_Dict\<close>: \<open>types_util.rs\<close>.
  \<^item> \<open>Events\<close>: \<open>kirk-events/src/lib.rs\<close>, registration, firing, the dispatch loop and error reporting.
  \<^item> \<open>Com\<close>: \<open>ensure_communicate\<close> and the channel registry of \<open>kirk-com\<close>; the trait \<open>ComChannel\<close> is the
    record \<open>com_channel\<close>. \<open>Plugin\<close>: the trait of \<open>kirk-plugin\<close> as the record \<open>plugin_ops\<close> and the locale
    \<open>plugin_contract\<close>, interpreted on each channel, on a channel of any kind and on the SUT.
    \<open>Io_Buffer\<close>: the trait \<open>IOBuffer\<close> as the locale \<open>io_buffer\<close>, interpreted on the buffer of the test
    scheduler, on the redirect of the SUT and on the printer of the interfaces.
    \<open>Shell_Channel\<close>: \<open>kirk-com-shell\<close>, with the race between a starting command and a stop as the step
    relation \<open>race_step\<close>, and how long a stop waits.
  \<^item> \<open>Sut\<close>: \<open>sut.rs\<close>, \<open>generic.rs\<close>, \<open>redirect.rs\<close> of \<open>kirk-sut\<close>. The locales \<open>sut_contract\<close> and
    \<open>channel_contract\<close> state what a system under test and a channel promise; the second gives the
    first, and the shell channel is interpreted as an instance.
  \<^item> \<open>Test_Sched\<close>: \<open>test_sched.rs\<close> for one worker, \<open>Par_Sched\<close>: its \<open>run_parallel\<close> as the step relation
    \<open>pool_work\<close>. \<open>Suite_Sched\<close>: \<open>suite_sched.rs\<close>; the locale \<open>test_runner\<close> is the contract of the test
    scheduler, interpreted on it.
  \<^item> \<open>Framework\<close>: the trait of \<open>framework.rs\<close> and its contract as the locale \<open>framework_contract\<close>.
    \<open>Ltp_Parse\<close>, \<open>Ltp\<close>: \<open>parse.rs\<close> and \<open>ltp.rs\<close> of \<open>kirk-ltp\<close>, which keep that contract.
  \<^item> \<open>Session_Select\<close>, \<open>Session\<close>: \<open>session.rs\<close> of \<open>kirk-session\<close>.
  \<^item> \<open>Support_Files\<close>, \<open>Support_Export\<close>, \<open>Support_Monitor\<close>: \<open>io.rs\<close>, \<open>export.rs\<close> and \<open>monitor.rs\<close> of
    \<open>kirk-support\<close>. \<open>Temp_Disk\<close>: directories, files and links with the operations of \<open>std::fs\<close> on them;
    \<open>Temp_Dir\<close>: \<open>tempfile.rs\<close>, rotation and the session folder, over it. \<open>Async_File\<close>: the handles of \<open>io.rs\<close>
    with their buffer, of which \<open>Support_Files\<close> is the part the program uses. \<open>Ui_Console\<close>, \<open>Ui_Modes\<close>: \<open>ui.rs\<close>,
    what each handler of the simple, verbose and parallel interface prints, as a list of chunks.
  \<^item> \<open>Ltx_Request\<close>: the requests of the LTX protocol, their frames and state machines (\<open>request.rs\<close>).
    \<open>Ltx_Execute\<close>, \<open>Ltx_Transport\<close>: \<open>ltx.rs\<close>, requests with their slots, buffered reads, gathering replies.
    \<open>Ltx_World\<close>: its tasks interleaved as a step relation, refining an abstract conversation.
    \<open>Ltx_Channel\<close>, \<open>Ltx_Lifecycle\<close>: \<open>channel.rs\<close> and what cancelled and overlapping operations leave.
    \<open>Ltx_Stream\<close>: the output of a command on its way from the frames to the buffer of its caller.
  \<^item> \<open>Shell_Words\<close>: quoting and splitting of shell words. \<open>Ssh_Config\<close>, \<open>Ssh_Channel\<close>: \<open>kirk-com-ssh\<close>.
  \<^item> \<open>Qemu_Config\<close>, \<open>Qemu_Expect\<close>, \<open>Qemu_Channel\<close>: \<open>kirk-com-qemu\<close>, its command line, the console and the
    channel. \<open>Channel_Contract\<close> states what a shell promises a client that sends it commands, and
    \<open>Qemu_Session\<close> shows that commands over the console implement it.
  \<^item> \<open>Cli_Args\<close>: \<open>args.rs\<close> and \<open>validate.rs\<close> of \<open>kirk-cli\<close>. \<open>Cli_Sut\<close>: the adapters of its \<open>session.rs\<close>, which
    fill in the environments of the schedulers and the session with the SUT and the framework over
    a channel. \<open>Cli_Session\<close>: the channels of the options, the start of a session and \<open>main.rs\<close>.
    \<open>Cli_Run\<close>: the program whose started session is that session over the local shell.

  \<^bold>\<open>What is shown.\<close> The schedulers account for tests. What they keep is compared with what they
  announce, the payloads of \<open>test_completed\<close> and \<open>suite_completed\<close>: a list of tests keeps every announced
  result, for each test or up to and with the first whose kernel fails; the rounds of a suite end, and
  success gives each test one result across reboots and an expired timeout, which skips what is left
  and can lose one announced result; the parallel pool respects its workers, never deadlocks and ends; a
  session returns, announces at its end the suites announced during it, failed or not, and covers what
  it selected when it succeeds. The text it appends to its \<open>executed\<close> file, read line by line, restores it. The
  shell channel lets no process escape a stop, which waits five seconds at most, and cleans up after a
  cancelled command; panics are detected across chunk boundaries. What an LTX command streams to the
  scheduler and the interfaces is what it returns. The taint number, fault injection, parallel probes, event
  dispatch, the typed dictionary, runtest files, the report and the files of a session have their
  functional specifications and round trips. Commands over the LTX transport and the QEMU console
  return what the peer and the guest answer; an SSH session stands with a known server key only and
  its commands stay within the limit of sessions, as long as \<open>communicate\<close> and \<open>stop\<close> do not overlap. A probe of
  the taint that is not cancelled reads what the kernel prints. Put together, when the program exits with 0 on local shells every
  suite that was asked for has one result for each of its tests; rotation keeps the newest folders and files of a session stay in its
  folder; validated options give the channels they name, each set up as if it were the only one, and
  the exit code tells exactly how it ended, and what is refused runs nothing; no
  event of a session is ignored by an interface, with any number of workers, or by the monitor when they
  have a handler for it, and colours only wrap.
  Some theorems state behaviour the program does not
  intend: a kernel panic seen by the probe before a test makes the suite loop forever, a cancelled
  taint probe serves its cached value from then on, an iterated run cannot be restored, a run time
  loses the results of the round it cuts, detaching the monitor removes other subscribers, a login
  on a QEMU machine that fails never returns, late replies and failed downloads join the next ones,
  the folder a session is restored from can be rotated away by the start that restores it, pings and
  fetched files open SSH sessions past the limit, and the
  interfaces show a kernel panic on the test after the one that caused it.

  \<^bold>\<open>Bounds and fuel.\<close> Loops that may not end take fuel and return \<open>None\<close> without it: the suite loop
  (\<open>drive_suite\<close>; more than the number of tests is enough when no stop is requested and the SUT
  blames its kernel failures on tests), the rounds of a session with a run time, the event loop (as
  many steps as items up to the sentinel, when handlers fire nothing) and reading lines (one step
  more than there are lines). A path follows at most \<open>MAX_LINKS\<close>, 40, links, as Linux does, and a free
  folder name is looked for 100 times, as in the code. Operations of LTX, QEMU and SSH that wait
  for ever have no result. Other loops terminate by a measure. Timeouts are taken below the
  largest \<open>Duration\<close>; above it the program panics.

  \<^bold>\<open>Not modelled.\<close> How a float is displayed, a parameter of the interface; the locks of the session and of the SUT, which are taken in
  turn; handlers of one event run in registration order. The properties of the schedulers and the session
  about their results are for one worker, where tests run one after another (part of \<open>runs_fairly\<close> and
  \<open>session_fair\<close>); for more workers \<open>Par_Sched\<close> shows what the pool keeps, and the
  property of the interfaces takes from it that it fires the events of its tasks (\<open>fires_tasks\<close>). A path given
  to \<open>canonicalize\<close> or \<open>mkdir\<close> is its components; only where a file is written is a slash at its end kept
  apart. A read fails before any of it is read. The \<open>com_channel\<close> record is filled in for the shell
  only: operations of the SSH, QEMU and LTX channels may not return, which its actions cannot say,
  so \<open>Cli_Session\<close> takes them as a parameter. Memory exhaustion, poisoned locks and panics inside third
  party code are outside the model.
\<close>

end
